(* ===== verification/Py_Prelude.thy ===== *)
theory Py_Prelude
  imports
    Complex_Main
    "HOL-Library.AList"
    "HOL-Library.Char_ord"
    "HOL-Library.List_Lexorder"
    "HOL-Library.Product_Lexorder"
    "HOL-Library.Sublist"
    "HOL-Library.Multiset"
begin

text \<open>
  The Python fragment the development rests on: dynamically typed values, exceptions as
  values of a sum type, operations on a mutable state that may raise, strings, dictionaries
  with insertion order, slices.

  Strings are lists of \<^typ>\<open>char\<close>: a Python string whose code points are below 256
  (Latin-1) is the list of its code points, so \<open>length\<close> counts code points, and the
  classification of white space and the lower-case mapping below are exact on that range.
  Floats are extended reals: \<open>Fin\<close> with a real number, or one of the three non-finite values.
  Rounding is not modelled. Integers are unbounded, as in Python.
\<close>

declare map_of_eq_Some_iff [simp del]

section \<open>Dynamically typed values\<close>

datatype pyfloat = Fin real | PosInf | NegInf | NaN

fun is_finite :: "pyfloat \<Rightarrow> bool" where
  "is_finite (Fin _) = True"
| "is_finite _ = False"

text \<open>
  \<open>PObj\<close> stands for an object of any class the validators do not know. A \<open>PTuple\<close> and a
  \<open>PList\<close> are sequences; a \<open>PDict\<close> is a mapping in its iteration order.
\<close>

datatype pyval =
    PNone
  | PBool bool
  | PInt int
  | PFloat pyfloat
  | PStr string
  | PBytes "nat list"
  | PList "pyval list"
  | PTuple "pyval list"
  | PDict "(pyval \<times> pyval) list"
  | PObj nat

section \<open>Exceptions\<close>

text \<open>
  The result of a verified deletion (\<open>DeletionReport\<close>, \<open>weaviate_client/models.py\<close>) is
  declared here because an exception carries it.
\<close>

record deletion_report =
  dr_matched :: int
  dr_successful :: int
  dr_failed :: int
  dr_deleted_ids :: "string list"
  dr_remaining_ids :: "string list"

definition confirmed :: "deletion_report \<Rightarrow> bool" where
  "confirmed r \<longleftrightarrow> dr_failed r = 0 \<and> dr_remaining_ids r = []"

text \<open>One constructor per exception class the modelled code raises, with its arguments.\<close>

datatype exc =
    TypeError string
  | ValueError string
  | KeyError pyval
  | RuntimeError string
  | IndexError string
  | OSError string
  | CancelledError
  | ActiveChatStreamError string
  | SessionDeletionInProgressError string
  | WeaviateResponseError string
  | UserIsolationError string
  | PartialParagraphUpdateError "string list" string
  | IncompleteDeletionError deletion_report
  | ConversationWriteRecoveryError "string list" exc exc
  | WizardSaveError string "string list" "string list" "string list"
  | WizardSaveRecoveryError string "string list" "string list" "string list" "string list" "exc list"
  | WizardDeleteError string "string list"
  | WizardDeleteRecoveryError string "string list" "exc list"

type_synonym 'a res = "exc + 'a"

section \<open>Results\<close>

named_theorems py_iff \<open>equivalences that invert a successful or failing computation\<close>

definition rbind :: "'a res \<Rightarrow> ('a \<Rightarrow> 'b res) \<Rightarrow> 'b res" where
  "rbind m f = (case m of Inl e \<Rightarrow> Inl e | Inr x \<Rightarrow> f x)"

lemma rbind_simps [simp]:
  "rbind (Inl e) f = Inl e"
  "rbind (Inr x) f = f x"
  by (simp_all add: rbind_def)

lemma rbind_Inr_iff [py_iff]: "rbind m f = Inr y \<longleftrightarrow> (\<exists>x. m = Inr x \<and> f x = Inr y)"
  by (cases m) auto

lemma rbind_Inl_iff [py_iff]:
  "rbind m f = Inl e \<longleftrightarrow> m = Inl e \<or> (\<exists>x. m = Inr x \<and> f x = Inl e)"
  by (cases m) auto

lemma rbind_InrE:
  assumes "rbind m f = Inr y"
  obtains x where "m = Inr x" "f x = Inr y"
  using assms by (cases m) auto

lemma rbind_cong [fundef_cong]:
  "m = m' \<Longrightarrow> (\<And>x. m' = Inr x \<Longrightarrow> f x = f' x) \<Longrightarrow> rbind m f = rbind m' f'"
  by (cases m') auto

definition require :: "bool \<Rightarrow> exc \<Rightarrow> unit res" where
  "require b e = (if b then Inr () else Inl e)"

lemma require_Inr_iff [py_iff]: "require b e = Inr u \<longleftrightarrow> b"
  by (simp add: require_def)

lemma require_Inl_iff [py_iff]: "require b e = Inl e' \<longleftrightarrow> \<not> b \<and> e' = e"
  by (auto simp: require_def)

lemma require_simps [simp]: "require True e = Inr ()" "require False e = Inl e"
  by (simp_all add: require_def)

text \<open>A list comprehension whose body may raise: the first exception wins.\<close>

primrec rmap :: "('a \<Rightarrow> 'b res) \<Rightarrow> 'a list \<Rightarrow> 'b list res" where
  "rmap f [] = Inr []"
| "rmap f (x # xs) = rbind (f x) (\<lambda>y. rbind (rmap f xs) (\<lambda>ys. Inr (y # ys)))"

lemma rmap_cong [fundef_cong]:
  "xs = ys \<Longrightarrow> (\<And>x. x \<in> set ys \<Longrightarrow> f x = g x) \<Longrightarrow> rmap f xs = rmap g ys"
  by (induction ys arbitrary: xs) (auto intro!: rbind_cong)

lemma rmap_Inr_iff [py_iff]:
  "rmap f xs = Inr ys \<longleftrightarrow> list_all2 (\<lambda>x y. f x = Inr y) xs ys"
  by (induction xs arbitrary: ys) (auto simp: py_iff list_all2_Cons1)

lemma rmap_Inr_length: "rmap f xs = Inr ys \<Longrightarrow> length ys = length xs"
  by (auto simp: py_iff dest: list_all2_lengthD)

lemma rmap_Inr_set: "rmap f xs = Inr ys \<Longrightarrow> y \<in> set ys \<Longrightarrow> \<exists>x \<in> set xs. f x = Inr y"
  by (induction xs arbitrary: ys) (auto simp: rbind_Inr_iff)

lemma rmap_all_Inr: "(\<And>x. x \<in> set xs \<Longrightarrow> f x = Inr (g x)) \<Longrightarrow> rmap f xs = Inr (map g xs)"
  by (induction xs) auto

lemma rmap_Inl: "rmap f xs = Inl e \<Longrightarrow> \<exists>x \<in> set xs. f x = Inl e"
  by (induction xs) (auto simp: py_iff)

section \<open>Operations on a state\<close>

text \<open>
  A method of an object takes the object's state and returns its result or exception
  together with the state it leaves behind: an exception does not undo the updates made
  before it.
\<close>

type_synonym ('s, 'a) op = "'s \<Rightarrow> 'a res \<times> 's"

definition oret :: "'a \<Rightarrow> ('s, 'a) op" where
  "oret x = (\<lambda>s. (Inr x, s))"

definition oraise :: "exc \<Rightarrow> ('s, 'a) op" where
  "oraise e = (\<lambda>s. (Inl e, s))"

definition olift :: "'a res \<Rightarrow> ('s, 'a) op" where
  "olift r = (\<lambda>s. (r, s))"

definition omodify :: "('s \<Rightarrow> 's) \<Rightarrow> ('s, unit) op" where
  "omodify f = (\<lambda>s. (Inr (), f s))"

definition obind :: "('s, 'a) op \<Rightarrow> ('a \<Rightarrow> ('s, 'b) op) \<Rightarrow> ('s, 'b) op" where
  "obind m f = (\<lambda>s. case m s of (Inl e, s') \<Rightarrow> (Inl e, s') | (Inr x, s') \<Rightarrow> f x s')"

text \<open>\<open>try: m except Exception as e: h e\<close>.\<close>

definition otry :: "('s, 'a) op \<Rightarrow> (exc \<Rightarrow> ('s, 'a) op) \<Rightarrow> ('s, 'a) op" where
  "otry m h = (\<lambda>s. case m s of (Inl e, s') \<Rightarrow> h e s' | (Inr x, s') \<Rightarrow> (Inr x, s'))"

lemma op_simps [simp]:
  "oret x s = (Inr x, s)"
  "oraise e s = (Inl e, s)"
  "olift r s = (r, s)"
  "omodify g s = (Inr (), g s)"
  by (simp_all add: oret_def oraise_def olift_def omodify_def)

lemma obind_Inr_iff [py_iff]:
  "obind m f s = (Inr y, s') \<longleftrightarrow> (\<exists>x t. m s = (Inr x, t) \<and> f x t = (Inr y, s'))"
  by (auto simp: obind_def split: prod.splits sum.splits)

lemma obind_Inl_iff [py_iff]:
  "obind m f s = (Inl e, s') \<longleftrightarrow>
     m s = (Inl e, s') \<or> (\<exists>x t. m s = (Inr x, t) \<and> f x t = (Inl e, s'))"
  by (auto simp: obind_def split: prod.splits sum.splits)

lemma obind_apply:
  "m s = (Inr x, t) \<Longrightarrow> obind m f s = f x t"
  "m s = (Inl e, t) \<Longrightarrow> obind m f s = (Inl e, t)"
  by (simp_all add: obind_def)

primrec ofor :: "'a list \<Rightarrow> ('a \<Rightarrow> ('s, unit) op) \<Rightarrow> ('s, unit) op" where
  "ofor [] f = oret ()"
| "ofor (x # xs) f = obind (f x) (\<lambda>_. ofor xs f)"

text \<open>A predicate on states that an operation keeps, whatever its outcome.\<close>

lemma obind_keeps:
  assumes "\<And>r t. m s = (r, t) \<Longrightarrow> P t"
    and "\<And>x t r u. m s = (Inr x, t) \<Longrightarrow> f x t = (r, u) \<Longrightarrow> P u"
    and "obind m f s = (r, u)"
  shows "P u"
  using assms by (auto simp: obind_def split: prod.splits sum.splits)

lemma ofor_keeps:
  assumes "\<forall>x \<in> set xs. \<forall>s r t. P s \<longrightarrow> f x s = (r, t) \<longrightarrow> P t"
    and "P s" and "ofor xs f s = (r, t)"
  shows "P t"
  using assms
proof (induction xs arbitrary: s)
  case Nil
  then show ?case by simp
next
  case (Cons x xs)
  obtain q u where fx: "f x s = (q, u)"
    by fastforce
  with Cons.prems(1,2) have u: "P u"
    by (meson list.set_intros(1))
  show ?case
  proof (cases q)
    case (Inl e)
    with fx u Cons.prems(3) show ?thesis
      by (simp add: obind_def)
  next
    case (Inr y)
    with fx Cons.prems(3) have "ofor xs f u = (r, t)"
      by (simp add: obind_def)
    moreover have "\<forall>x \<in> set xs. \<forall>s r t. P s \<longrightarrow> f x s = (r, t) \<longrightarrow> P t"
      using Cons.prems(1) by (meson list.set_intros(2))
    ultimately show ?thesis
      using Cons.IH u by blast
  qed
qed

end
