(* ===== verification/Py_Text.thy ===== *)
theory Py_Text
  imports Py_Prelude
begin

text \<open>
  The string methods of Python the modelled code calls: white space, \<open>strip\<close>, \<open>lower\<close>,
  \<open>replace\<close>, \<open>split\<close>, \<open>partition\<close>, \<open>join\<close>, slices, \<open>repr\<close>, the decimal rendering of integers,
  and \<open>dict.fromkeys\<close> as the removal of repeated list elements.
\<close>

section \<open>Characters\<close>

definition ord :: "char \<Rightarrow> nat" where
  "ord c = of_char c"

lemma ord_less [simp]: "ord c < 256"
  by (simp add: ord_def)

lemma ord_inject [simp]: "ord c = ord d \<longleftrightarrow> c = d"
  by (simp add: ord_def)

lemma char_of_ord [simp]: "char_of (ord c) = c"
  by (simp add: ord_def)

lemma ord_char_of: "n < 256 \<Longrightarrow> ord (char_of n) = n"
  by (simp add: ord_def)

text \<open>\<open>str.isspace\<close> on one character, exact for code points below 256.\<close>

definition chr_space :: "char \<Rightarrow> bool" where
  "chr_space c \<longleftrightarrow> (let n = ord c in
     (9 \<le> n \<and> n \<le> 13) \<or> (28 \<le> n \<and> n \<le> 32) \<or> n = 133 \<or> n = 160)"

text \<open>\<open>str.lower\<close> on one character, exact for code points below 256.\<close>

definition chr_lower :: "char \<Rightarrow> char" where
  "chr_lower c = (let n = ord c in
     if (65 \<le> n \<and> n \<le> 90) \<or> (192 \<le> n \<and> n \<le> 222 \<and> n \<noteq> 215)
     then char_of (n + 32) else c)"

section \<open>Methods of strings\<close>

definition lower :: "string \<Rightarrow> string" where
  "lower s = map chr_lower s"

definition lstrip :: "string \<Rightarrow> string" where
  "lstrip s = dropWhile chr_space s"

definition rstrip_of :: "(char \<Rightarrow> bool) \<Rightarrow> string \<Rightarrow> string" where
  "rstrip_of p s = rev (dropWhile p (rev s))"

definition strip_of :: "(char \<Rightarrow> bool) \<Rightarrow> string \<Rightarrow> string" where
  "strip_of p s = rstrip_of p (dropWhile p s)"

definition strip :: "string \<Rightarrow> string" where
  "strip s = strip_of chr_space s"

text \<open>\<open>not s.strip()\<close>: the string is empty or all white space.\<close>

definition blank :: "string \<Rightarrow> bool" where
  "blank s \<longleftrightarrow> strip s = []"

fun replace_all :: "string \<Rightarrow> string \<Rightarrow> string \<Rightarrow> string" where
  "replace_all old new [] = []"
| "replace_all old new (c # cs) =
     (if old \<noteq> [] \<and> prefix old (c # cs)
      then new @ replace_all old new (drop (length old - 1) cs)
      else c # replace_all old new cs)"

fun join :: "string \<Rightarrow> string list \<Rightarrow> string" where
  "join sep [] = []"
| "join sep [x] = x"
| "join sep (x # y # xs) = x @ sep @ join sep (y # xs)"

text \<open>\<open>s.split(sep)\<close> for a one-character separator.\<close>

fun split_char :: "char \<Rightarrow> string \<Rightarrow> string list" where
  "split_char d [] = [[]]"
| "split_char d (c # cs) =
     (if c = d then [] # split_char d cs
      else (case split_char d cs of [] \<Rightarrow> [[c]] | w # ws \<Rightarrow> (c # w) # ws))"

text \<open>\<open>s.split()\<close>: the maximal runs without white space.\<close>

definition split_words :: "string \<Rightarrow> string list" where
  "split_words s = filter (\<lambda>w. w \<noteq> [])
     (split_char (CHR '' '') (map (\<lambda>c. if chr_space c then CHR '' '' else c) s))"

text \<open>
  \<open>s.partition(sep)\<close> as \<open>Some (before, after)\<close> at the first occurrence of \<open>sep\<close>, \<open>None\<close> when
  there is none.
\<close>

fun partition_at :: "string \<Rightarrow> string \<Rightarrow> (string \<times> string) option" where
  "partition_at sep [] = (if sep = [] then Some ([], []) else None)"
| "partition_at sep (c # cs) =
     (if prefix sep (c # cs) then Some ([], drop (length sep) (c # cs))
      else map_option (\<lambda>(u, v). (c # u, v)) (partition_at sep cs))"

text \<open>The slice \<open>s[i:j]\<close> for indices that are not negative.\<close>

definition slice :: "nat \<Rightarrow> nat \<Rightarrow> 'a list \<Rightarrow> 'a list" where
  "slice i j xs = take (j - i) (drop i xs)"

text \<open>\<open>list(dict.fromkeys(xs))\<close>: the first occurrence of each element, in order.\<close>

primrec dedup :: "'a list \<Rightarrow> 'a list" where
  "dedup [] = []"
| "dedup (x # xs) = x # filter (\<lambda>y. y \<noteq> x) (dedup xs)"

fun show_nat :: "nat \<Rightarrow> string" where
  "show_nat n = (if n < 10 then [char_of (48 + n)] else show_nat (n div 10) @ [char_of (48 + n mod 10)])"

declare show_nat.simps [simp del]

definition show_int :: "int \<Rightarrow> string" where
  "show_int i = (if i < 0 then ''-'' @ show_nat (nat (- i)) else show_nat (nat i))"

definition hex_digit :: "nat \<Rightarrow> char" where
  "hex_digit n = (if n < 10 then char_of (48 + n) else char_of (87 + n))"

text \<open>\<open>repr(s)\<close>: quotes, escapes, and \<open>\\xNN\<close> for the code points that are not printable.\<close>

definition repr_char :: "char \<Rightarrow> char \<Rightarrow> string" where
  "repr_char q c = (let n = ord c in
     if c = q \<or> n = 92 then [char_of (92 :: nat), c]
     else if n = 10 then [char_of (92 :: nat), CHR ''n'']
     else if n = 13 then [char_of (92 :: nat), CHR ''r'']
     else if n = 9 then [char_of (92 :: nat), CHR ''t'']
     else if n < 32 \<or> (127 \<le> n \<and> n \<le> 160) \<or> n = 173
       then [char_of (92 :: nat), CHR ''x'', hex_digit (n div 16), hex_digit (n mod 16)]
     else [c])"

definition py_repr :: "string \<Rightarrow> string" where
  "py_repr s = (let q = (if char_of (39 :: nat) \<in> set s \<and> char_of (34 :: nat) \<notin> set s
                         then char_of (34 :: nat) else char_of (39 :: nat))
     in [q] @ concat (map (repr_char q) s) @ [q])"

section \<open>Facts\<close>

lemma length_slice: "length (slice i j xs) = min j (length xs) - i"
  by (auto simp: slice_def min_def)

lemma slice_all: "slice 0 (length xs) xs = xs"
  by (simp add: slice_def)

lemma slice_append: "i \<le> j \<Longrightarrow> j \<le> k \<Longrightarrow> slice i j xs @ slice j k xs = slice i k xs"
proof -
  assume "i \<le> j" "j \<le> k"
  then have "take (k - i) (drop i xs) = take (j - i) (drop i xs) @ take (k - j) (drop (j - i) (drop i xs))"
    using take_add [of "j - i" "k - j" "drop i xs"] by simp
  with \<open>i \<le> j\<close> show ?thesis
    by (simp add: slice_def)
qed

lemma slice_to_end: "i \<le> j \<Longrightarrow> slice i j xs @ drop j xs = drop i xs"
proof -
  assume "i \<le> j"
  then have "drop j xs = drop (j - i) (drop i xs)"
    by simp
  then show ?thesis
    unfolding slice_def by (metis append_take_drop_id)
qed

lemma set_dedup [simp]: "set (dedup xs) = set xs"
  by (induction xs) auto

lemma distinct_dedup [simp]: "distinct (dedup xs)"
  by (induction xs) auto

lemma dedup_distinct: "distinct xs \<Longrightarrow> dedup xs = xs"
  by (induction xs) (auto simp: filter_id_conv)

lemma rstrip_of_id: "s = [] \<or> \<not> p (last s) \<Longrightarrow> rstrip_of p s = s"
  by (cases s rule: rev_cases) (auto simp: rstrip_of_def)

lemma strip_of_id: "s = [] \<or> (\<not> p (hd s) \<and> \<not> p (last s)) \<Longrightarrow> strip_of p s = s"
  by (cases s) (auto simp: strip_of_def rstrip_of_id)

lemma rstrip_of_prefix: "prefix (rstrip_of p s) s"
  by (metis rstrip_of_def dropWhile_eq_drop prefix_def rev_append rev_rev_ident takeWhile_dropWhile_id)

lemma rstrip_of_last: "rstrip_of p s \<noteq> [] \<Longrightarrow> \<not> p (last (rstrip_of p s))"
  by (metis hd_dropWhile last_rev rev_is_Nil_conv rstrip_of_def)

lemma rstrip_of_hd: "rstrip_of p s \<noteq> [] \<Longrightarrow> hd (rstrip_of p s) = hd s"
  using rstrip_of_prefix [of p s] by (metis hd_append2 prefix_def)

lemma strip_of_idem [simp]: "strip_of p (strip_of p s) = strip_of p s"
proof (cases "strip_of p s = []")
  case True
  then show ?thesis
    by (simp add: strip_of_id)
next
  case False
  then have "rstrip_of p (dropWhile p s) \<noteq> []"
    by (simp add: strip_of_def)
  moreover from this have "dropWhile p s \<noteq> []"
    by (metis rstrip_of_id)
  ultimately show ?thesis
    using rstrip_of_last [of p "dropWhile p s"] rstrip_of_hd [of p "dropWhile p s"]
      hd_dropWhile [of p s]
    by (intro strip_of_id) (simp add: strip_of_def)
qed

lemma strip_idem [simp]: "strip (strip s) = strip s"
  by (simp add: strip_def)

lemma rstrip_of_Nil: "rstrip_of p s = [] \<longleftrightarrow> list_all p s"
  by (simp add: rstrip_of_def dropWhile_eq_Nil_conv list_all_iff)

lemma blank_iff: "blank s \<longleftrightarrow> list_all chr_space s"
proof
  assume "blank s"
  then have "list_all chr_space (dropWhile chr_space s)"
    by (simp add: blank_def strip_def strip_of_def rstrip_of_Nil)
  then have "dropWhile chr_space s = []"
    by (metis hd_dropWhile hd_in_set list_all_iff)
  then show "list_all chr_space s"
    by (simp add: dropWhile_eq_Nil_conv list_all_iff)
next
  assume "list_all chr_space s"
  then have "dropWhile chr_space s = []"
    by (simp add: dropWhile_eq_Nil_conv list_all_iff)
  then show "blank s"
    by (metis blank_def strip_def strip_of_def rstrip_of_id)
qed

lemma blank_Nil [simp]: "blank []"
  by (simp add: blank_iff)

lemma blank_append [simp]: "blank (s @ t) \<longleftrightarrow> blank s \<and> blank t"
  by (auto simp: blank_iff)

lemma replace_all_no_head: "old \<noteq> [] \<Longrightarrow> hd old \<notin> set s \<Longrightarrow> replace_all old new s = s"
proof (induction s)
  case Nil
  then show ?case by simp
next
  case (Cons c cs)
  then have "\<not> prefix old (c # cs)"
    by (cases old) auto
  with Cons show ?case by auto
qed

lemma join_Cons: "join sep (x # xs) = x @ (if xs = [] then [] else sep @ join sep xs)"
  by (cases xs) auto

lemma join_empty_sep: "join [] xs = concat xs"
  by (induction xs rule: induct_list012) auto

section \<open>Evaluation on literals\<close>

text \<open>The equations that evaluate string operations on literals, for concrete instances.\<close>

lemma char_of_eval:
  "char_of n = c \<longleftrightarrow> n mod 256 = ord c" "c = char_of n \<longleftrightarrow> n mod 256 = ord c"
  by (metis ord_char_of char_of_mod_256 char_of_ord mod_less_divisor zero_less_numeral)+

lemmas py_eval = lower_def strip_def strip_of_def rstrip_of_def lstrip_def chr_space_def
  chr_lower_def ord_def Let_def char_of_eval slice_def

end
