(* ===== verification/Py_Uuid.thy ===== *)
theory Py_Uuid
  imports Py_Text
begin

text \<open>
  \<open>str(UUID(s))\<close> of the standard library: the accepted spellings of a UUID and the canonical
  lower-case rendering. Every identifier the maps and the storage layer use is canonicalised
  by it, so that equal UUIDs are equal dictionary keys.
\<close>

section \<open>Hexadecimal numbers\<close>

definition hex_value :: "char \<Rightarrow> nat option" where
  "hex_value c = (let n = ord c in
     if 48 \<le> n \<and> n \<le> 57 then Some (n - 48)
     else if 97 \<le> n \<and> n \<le> 102 then Some (n - 87)
     else if 65 \<le> n \<and> n \<le> 70 then Some (n - 55)
     else None)"

primrec hex_render :: "nat \<Rightarrow> nat \<Rightarrow> string" where
  "hex_render 0 n = []"
| "hex_render (Suc k) n = hex_render k (n div 16) @ [hex_digit (n mod 16)]"

text \<open>The digits of an integer literal: no leading, trailing or doubled underscore.\<close>

fun hex_digits :: "nat \<Rightarrow> bool \<Rightarrow> string \<Rightarrow> nat option" where
  "hex_digits acc ready [] = (if ready then Some acc else None)"
| "hex_digits acc ready (c # cs) =
     (if c = CHR ''_'' then (if ready then hex_digits acc False cs else None)
      else (case hex_value c of None \<Rightarrow> None
            | Some d \<Rightarrow> hex_digits (acc * 16 + d) True cs))"

text \<open>White space that \<open>int()\<close> accepts around a literal.\<close>

definition int_space :: "char \<Rightarrow> bool" where
  "int_space c \<longleftrightarrow> (let n = ord c in (9 \<le> n \<and> n \<le> 13) \<or> n = 32 \<or> n = 133 \<or> n = 160)"

text \<open>The optional prefix \<open>0x\<close>, after which one underscore is allowed.\<close>

definition hex_unprefix :: "string \<Rightarrow> string" where
  "hex_unprefix s =
     (if prefix ''0x'' s \<or> prefix ''0X'' s
      then (case drop 2 s of [] \<Rightarrow> [] | c # cs \<Rightarrow> if c = CHR ''_'' then cs else c # cs)
      else s)"

text \<open>\<open>int(s, 16)\<close>: \<open>None\<close> is the ValueError.\<close>

definition int16 :: "string \<Rightarrow> int option" where
  "int16 s = (case strip_of int_space s of
       [] \<Rightarrow> None
     | c # cs \<Rightarrow>
         if c = CHR ''-'' then map_option (\<lambda>n. - int n) (hex_digits 0 False (hex_unprefix cs))
         else if c = CHR ''+'' then map_option int (hex_digits 0 False (hex_unprefix cs))
         else map_option int (hex_digits 0 False (hex_unprefix (c # cs))))"

section \<open>Canonical UUIDs\<close>

definition uuid_int :: "string \<Rightarrow> int option" where
  "uuid_int s =
     (let h = replace_all ''uuid:'' [] (replace_all ''urn:'' [] s);
          h' = filter (\<lambda>c. c \<noteq> CHR ''-'') (strip_of (\<lambda>c. c = CHR ''{'' \<or> c = CHR ''}'') h)
      in if length h' \<noteq> 32 then None
         else case int16 h' of None \<Rightarrow> None
              | Some n \<Rightarrow> if 0 \<le> n \<and> n < 2 ^ 128 then Some n else None)"

definition uuid_render :: "nat \<Rightarrow> string" where
  "uuid_render n = (let h = hex_render 32 n in
     slice 0 8 h @ ''-'' @ slice 8 12 h @ ''-'' @ slice 12 16 h @ ''-'' @ slice 16 20 h @ ''-'' @ slice 20 32 h)"

text \<open>\<open>str(UUID(s))\<close>; \<open>None\<close> is the ValueError of the constructor.\<close>

definition uuid_canon :: "string \<Rightarrow> string option" where
  "uuid_canon s = map_option (\<lambda>n. uuid_render (nat n)) (uuid_int s)"

definition is_canonical :: "string \<Rightarrow> bool" where
  "is_canonical s \<longleftrightarrow> uuid_canon s = Some s"

section \<open>Canonicalisation is idempotent\<close>

lemma hex_value_digit: "n < 16 \<Longrightarrow> hex_value (hex_digit n) = Some n"
  by (auto simp: hex_value_def hex_digit_def ord_char_of Let_def)

lemma hex_digit_chars:
  assumes "n < 16" and "c = hex_digit n"
  shows "c \<noteq> CHR ''u'' \<and> c \<noteq> CHR ''-'' \<and> c \<noteq> CHR ''{'' \<and> c \<noteq> CHR ''}'' \<and> c \<noteq> CHR ''_''
    \<and> c \<noteq> CHR ''+'' \<and> c \<noteq> CHR ''x'' \<and> c \<noteq> CHR ''X'' \<and> \<not> int_space c"
proof -
  have "ord c = (if n < 10 then 48 + n else 87 + n)"
    using assms by (simp add: hex_digit_def ord_char_of)
  moreover have "ord (CHR ''u'') = 117" "ord (CHR ''-'') = 45" "ord (CHR ''{'') = 123"
    "ord (CHR ''}'') = 125" "ord (CHR ''_'') = 95" "ord (CHR ''+'') = 43"
    "ord (CHR ''x'') = 120" "ord (CHR ''X'') = 88"
    by (simp_all add: ord_def)
  ultimately show ?thesis
    using assms(1) by (auto simp: int_space_def Let_def split: if_splits)
qed

lemma hex_render_chars: "c \<in> set (hex_render k n) \<Longrightarrow> \<exists>d < 16. c = hex_digit d"
proof (induction k arbitrary: n)
  case (Suc k)
  have "\<exists>d < 16. hex_digit (n mod 16) = hex_digit d"
    by (rule exI [of _ "n mod 16"]) simp
  with Suc show ?case
    by auto
qed simp

lemma hex_digits_ready: "s \<noteq> [] \<Longrightarrow> CHR ''_'' \<notin> set s \<Longrightarrow> hex_digits acc b s = hex_digits acc True s"
  by (cases s) auto

lemma length_hex_render [simp]: "length (hex_render k n) = k"
  by (induction k arbitrary: n) auto

lemma hex_digits_append:
  assumes "hex_digits acc True s = Some m" and "CHR ''_'' \<notin> set s"
  shows "hex_digits acc True (s @ t) = hex_digits m True t"
  using assms by (induction acc True s rule: hex_digits.induct) (auto split: option.splits if_splits)

lemma hex_render_no_underscore: "CHR ''_'' \<notin> set (hex_render k n)"
  using hex_render_chars hex_digit_chars by blast

lemma hex_digits_render:
  "hex_digits acc True (hex_render k n) = Some (acc * 16 ^ k + n mod 16 ^ k)"
proof (induction k arbitrary: acc n)
  case 0
  then show ?case by simp
next
  case (Suc k)
  have "n mod 16 < 16"
    by simp
  then have v: "hex_value (hex_digit (n mod 16)) = Some (n mod 16)"
    by (rule hex_value_digit)
  have u: "hex_digit (n mod 16) \<noteq> CHR ''_''"
    using hex_digit_chars [OF \<open>n mod 16 < 16\<close> refl] by simp
  have "n div 16 mod 16 ^ k * 16 + n mod 16 = n mod 16 ^ Suc k"
    using mod_mult2_eq [of n 16 "16 ^ k"] by (simp add: mult.commute)
  then show ?case
    using hex_digits_append [OF Suc.IH hex_render_no_underscore, of acc "n div 16" "[hex_digit (n mod 16)]"]
    by (simp add: v u algebra_simps)
qed

lemma int16_hex_render:
  assumes "0 < k"
  shows "int16 (hex_render k n) = Some (int (n mod 16 ^ k))"
proof -
  let ?s = "hex_render k n"
  have ne: "?s \<noteq> []"
    using assms by (metis length_hex_render length_0_conv less_numeral_extra(3))
  have good: "c \<noteq> CHR ''-'' \<and> c \<noteq> CHR ''+'' \<and> c \<noteq> CHR ''x'' \<and> c \<noteq> CHR ''X'' \<and> \<not> int_space c"
    if "c \<in> set ?s" for c
    using hex_render_chars [OF that] hex_digit_chars by blast
  have strip: "strip_of int_space ?s = ?s"
    using good [OF hd_in_set [OF ne]] good [OF last_in_set [OF ne]] by (intro strip_of_id) simp
  have "CHR ''x'' \<notin> set ?s" "CHR ''X'' \<notin> set ?s"
    using good by blast+
  moreover have "prefix ''0x'' ?s \<Longrightarrow> CHR ''x'' \<in> set ?s" "prefix ''0X'' ?s \<Longrightarrow> CHR ''X'' \<in> set ?s"
    using set_mono_prefix [of "''0x''" ?s] set_mono_prefix [of "''0X''" ?s] by simp_all
  ultimately have unp: "hex_unprefix ?s = ?s"
    unfolding hex_unprefix_def by argo
  have dig: "hex_digits 0 False ?s = Some (n mod 16 ^ k)"
    using hex_digits_ready [OF ne hex_render_no_underscore, of 0 False] hex_digits_render [of 0 k n]
    by simp
  obtain c cs where cs: "?s = c # cs"
    using ne by (cases ?s) auto
  then have "c \<noteq> CHR ''-''" "c \<noteq> CHR ''+''"
    using good [of c] by simp_all
  with cs show ?thesis
    unfolding int16_def using strip unp dig by simp
qed

lemma uuid_render_parts:
  "uuid_render n = (let h = hex_render 32 n in
     take 8 h @ ''-'' @ take 4 (drop 8 h) @ ''-'' @ take 4 (drop 12 h) @ ''-'' @ take 4 (drop 16 h) @ ''-'' @ drop 20 h)"
  by (simp add: uuid_render_def slice_def Let_def)

lemma filter_dashes:
  assumes "CHR ''-'' \<notin> set h" and "length h = 32"
  shows "filter (\<lambda>c. c \<noteq> CHR ''-'')
    (take 8 h @ ''-'' @ take 4 (drop 8 h) @ ''-'' @ take 4 (drop 12 h) @ ''-'' @ take 4 (drop 16 h) @ ''-'' @ drop 20 h) = h"
proof -
  have f: "filter (\<lambda>c. c \<noteq> CHR ''-'') u = u" if "set u \<subseteq> set h" for u
    using assms(1) that by (auto simp: filter_id_conv)
  have "take 4 (drop 16 h) @ drop 20 h = drop 16 h" "take 4 (drop 12 h) @ drop 16 h = drop 12 h"
    "take 4 (drop 8 h) @ drop 12 h = drop 8 h"
    using append_take_drop_id [of 4 "drop 16 h"] append_take_drop_id [of 4 "drop 12 h"]
      append_take_drop_id [of 4 "drop 8 h"]
    by simp_all
  then have "take 8 h @ take 4 (drop 8 h) @ take 4 (drop 12 h) @ take 4 (drop 16 h) @ drop 20 h = h"
    by simp
  then show ?thesis
    using f [OF set_take_subset, of 8] f [OF subset_trans [OF set_take_subset set_drop_subset], of 4 8]
      f [OF subset_trans [OF set_take_subset set_drop_subset], of 4 12]
      f [OF subset_trans [OF set_take_subset set_drop_subset], of 4 16] f [OF set_drop_subset, of 20]
    by simp
qed

lemma uuid_int_render:
  assumes "n < 2 ^ 128"
  shows "uuid_int (uuid_render n) = Some (int n)"
proof -
  let ?h = "hex_render 32 n" and ?s = "uuid_render n"
  have hc: "c \<noteq> CHR ''u'' \<and> c \<noteq> CHR ''-'' \<and> c \<noteq> CHR ''{'' \<and> c \<noteq> CHR ''}''"
    if "c \<in> set ?h" for c
    using hex_render_chars [OF that] hex_digit_chars by blast
  have len: "length ?h = 32"
    by (rule length_hex_render)
  have sub: "set ?s \<subseteq> insert (CHR ''-'') (set ?h)"
    by (auto simp: uuid_render_def slice_def Let_def simp del: hex_render.simps dest!: in_set_takeD in_set_dropD)
  have r1: "replace_all ''urn:'' [] ?s = ?s"
    using hc sub by (intro replace_all_no_head) auto
  have r2: "replace_all ''uuid:'' [] ?s = ?s"
    using hc sub by (intro replace_all_no_head) auto
  have st: "strip_of (\<lambda>c. c = CHR ''{'' \<or> c = CHR ''}'') ?s = ?s"
  proof (intro strip_of_id disjI2)
    have ne: "?s \<noteq> []"
      by (simp add: uuid_render_def Let_def)
    have "c \<noteq> CHR ''{'' \<and> c \<noteq> CHR ''}''" if "c \<in> set ?s" for c
      using hc sub that by auto
    then show "\<not> (hd ?s = CHR ''{'' \<or> hd ?s = CHR ''}'') \<and> \<not> (last ?s = CHR ''{'' \<or> last ?s = CHR ''}'')"
      using ne by (meson hd_in_set last_in_set)
  qed
  have fd: "filter (\<lambda>c. c \<noteq> CHR ''-'') ?s = ?h"
    unfolding uuid_render_parts Let_def using hc len by (intro filter_dashes) auto
  have n16: "n mod 16 ^ 32 = n"
    using assms by simp
  have "int16 ?h = Some (int n)"
    using int16_hex_render [of 32 n] n16 by simp
  then show ?thesis
    unfolding uuid_int_def Let_def r1 r2 st fd using len assms by simp
qed

lemma uuid_int_bounds: "uuid_int s = Some n \<Longrightarrow> 0 \<le> n \<and> n < 2 ^ 128"
  by (auto simp: uuid_int_def Let_def split: if_splits option.splits)

lemma uuid_canon_canonical: "uuid_canon s = Some t \<Longrightarrow> is_canonical t"
proof -
  assume "uuid_canon s = Some t"
  then obtain n where n: "uuid_int s = Some n" "t = uuid_render (nat n)"
    by (auto simp: uuid_canon_def)
  with uuid_int_bounds [of s n] have b: "0 \<le> n" "nat n < 2 ^ 128"
    by (auto simp: nat_less_iff)
  have "uuid_int t = Some (int (nat n))"
    using uuid_int_render [OF b(2)] n(2) by simp
  then show ?thesis
    using n b by (simp add: is_canonical_def uuid_canon_def)
qed

lemma canonical_not_blank: "is_canonical s \<Longrightarrow> strip s = s \<and> s \<noteq> []"
proof -
  assume "is_canonical s"
  then obtain n where s: "s = uuid_render n"
    by (auto simp: is_canonical_def uuid_canon_def)
  let ?h = "hex_render 32 n"
  have len: "length ?h = 32"
    by (rule length_hex_render)
  have ns: "\<not> chr_space c" if c: "c \<in> set ?h" for c
  proof -
    obtain d where "d < 16" "c = hex_digit d"
      using hex_render_chars [OF c] by blast
    then show ?thesis
      by (auto simp: hex_digit_def chr_space_def ord_char_of Let_def)
  qed
  have "\<not> chr_space (CHR ''-'')"
    by (simp add: chr_space_def ord_def)
  moreover have "set s \<subseteq> insert (CHR ''-'') (set ?h)"
    by (auto simp: s uuid_render_def slice_def Let_def simp del: hex_render.simps dest!: in_set_takeD in_set_dropD)
  ultimately have all: "\<not> chr_space c" if "c \<in> set s" for c
    using ns that by blast
  have ne: "s \<noteq> []"
    by (simp add: s uuid_render_def Let_def)
  then show ?thesis
    using all strip_of_id [of s chr_space] by (simp add: strip_def)
qed

lemma uuid_render_canonical: "n < 2 ^ 128 \<Longrightarrow> is_canonical (uuid_render n)"
  by (simp add: is_canonical_def uuid_canon_def uuid_int_render)

lemma uuid_render_inject:
  "m < 2 ^ 128 \<Longrightarrow> n < 2 ^ 128 \<Longrightarrow> uuid_render m = uuid_render n \<longleftrightarrow> m = n"
  by (metis uuid_int_render option.inject of_nat_eq_iff)

end
