(* ===== verification/App_Config.thy ===== *)
theory App_Config
  imports Py_Uuid
begin

text \<open>
  \<open>backend/config.py\<close>: the environment readers, the loading of the application configuration
  with its cross-field checks, and \<open>get_collection_name\<close>, the encoding that gives every user
  and collection type its own physical Weaviate collection. Also the decoder of that name
  (\<open>scripts/migrate_onnx_vectors.py\<close>, \<open>_decoded_collection\<close>).

  The environment is a partial map. The compiled \<open>USER_ID_PATTERN\<close> is configuration: a record
  with the pattern's text and the predicate \<open>fullmatch\<close> decides.
\<close>

section \<open>Environment readers\<close>

type_synonym environment = "string \<Rightarrow> string option"

definition getenv :: "environment \<Rightarrow> string \<Rightarrow> string \<Rightarrow> string" where
  "getenv env name dflt = (case env name of None \<Rightarrow> dflt | Some v \<Rightarrow> v)"

definition required_string :: "environment \<Rightarrow> string \<Rightarrow> string \<Rightarrow> string res" where
  "required_string env name dflt =
     (let v = strip (getenv env name dflt)
      in if v = [] then Inl (ValueError (name @ '' must not be empty'')) else Inr v)"

definition raw_string :: "environment \<Rightarrow> string \<Rightarrow> string \<Rightarrow> string" where
  "raw_string env name dflt = getenv env name dflt"

text \<open>\<open>int(s)\<close> of a decimal literal.\<close>

definition dec_value :: "char \<Rightarrow> nat option" where
  "dec_value c = (let n = ord c in if 48 \<le> n \<and> n \<le> 57 then Some (n - 48) else None)"

fun dec_digits :: "nat \<Rightarrow> bool \<Rightarrow> string \<Rightarrow> nat option" where
  "dec_digits acc ready [] = (if ready then Some acc else None)"
| "dec_digits acc ready (c # cs) =
     (if c = CHR ''_'' then (if ready then dec_digits acc False cs else None)
      else (case dec_value c of None \<Rightarrow> None
            | Some d \<Rightarrow> dec_digits (acc * 10 + d) True cs))"

definition int10 :: "string \<Rightarrow> int option" where
  "int10 s = (case strip_of int_space s of
       [] \<Rightarrow> None
     | c # cs \<Rightarrow>
         if c = CHR ''-'' then map_option (\<lambda>n. - int n) (dec_digits 0 False cs)
         else if c = CHR ''+'' then map_option int (dec_digits 0 False cs)
         else map_option int (dec_digits 0 False (c # cs)))"

definition py_int :: "string \<Rightarrow> int res" where
  "py_int s = (case int10 s of
       None \<Rightarrow> Inl (ValueError (''invalid literal for int() with base 10: '' @ py_repr s))
     | Some n \<Rightarrow> Inr n)"

definition positive_int :: "environment \<Rightarrow> string \<Rightarrow> int \<Rightarrow> int res" where
  "positive_int env name dflt =
     rbind (case env name of None \<Rightarrow> Inr dflt | Some raw \<Rightarrow> py_int raw)
       (\<lambda>v. if v \<le> 0 then Inl (ValueError (name @ '' must be greater than zero'')) else Inr v)"

definition boolean :: "environment \<Rightarrow> string \<Rightarrow> bool \<Rightarrow> bool res" where
  "boolean env name dflt =
     (case env name of
        None \<Rightarrow> Inr dflt
      | Some raw \<Rightarrow>
          (let n = lower (strip raw)
           in if n \<in> {''1'', ''true'', ''yes'', ''on''} then Inr True
              else if n \<in> {''0'', ''false'', ''no'', ''off''} then Inr False
              else Inl (ValueError (name @ '' must be a boolean value''))))"

definition choice :: "environment \<Rightarrow> string \<Rightarrow> string \<Rightarrow> string list \<Rightarrow> string res" where
  "choice env name dflt choices =
     rbind (required_string env name dflt)
       (\<lambda>v. if lower v \<notin> set choices
            then Inl (ValueError (name @ '' must be one of: '' @ join '', '' (sort (dedup choices))))
            else Inr (lower v))"

text \<open>\<open>_supported_extensions\<close>: the set as the list of its elements in order of insertion.\<close>

definition extension_of :: "string \<Rightarrow> string" where
  "extension_of item =
     (let e = lower (strip item) in if e = [] \<or> prefix ''.'' e then e else ''.'' @ e)"

definition supported_extensions :: "environment \<Rightarrow> string list res" where
  "supported_extensions env =
     rbind (required_string env ''SUPPORTED_FILE_EXTENSIONS'' ''.txt,.md,.csv,.json,.xml,.log'')
       (\<lambda>raw. let es = dedup (filter (\<lambda>e. e \<noteq> []) (map extension_of (split_char (CHR '','') raw)))
              in if es = [] then Inl (ValueError ''SUPPORTED_FILE_EXTENSIONS must contain at least one extension'')
                 else Inr es)"

definition cors_allowed_origins :: "environment \<Rightarrow> string list res" where
  "cors_allowed_origins env =
     rbind (required_string env ''CORS_ALLOWED_ORIGINS'' ''*'')
       (\<lambda>raw. let origins = dedup (filter (\<lambda>e. e \<noteq> []) (map strip (split_char (CHR '','') raw)))
              in if origins = [] then Inl (ValueError ''CORS_ALLOWED_ORIGINS must contain at least one origin'')
                 else if ''*'' \<in> set origins \<and> origins \<noteq> [''*'']
                 then Inl (ValueError ''CORS_ALLOWED_ORIGINS cannot combine '*' with other origins'')
                 else Inr origins)"

section \<open>The physical collection of a user\<close>

record user_pattern =
  up_text :: string
  up_match :: "string \<Rightarrow> bool"

text \<open>The default pattern \<open>^[A-Za-z0-9_-]+$\<close> under \<open>fullmatch\<close>.\<close>

definition default_user_char :: "char \<Rightarrow> bool" where
  "default_user_char c \<longleftrightarrow> (let n = ord c in
     (65 \<le> n \<and> n \<le> 90) \<or> (97 \<le> n \<and> n \<le> 122) \<or> (48 \<le> n \<and> n \<le> 57) \<or> n = 95 \<or> n = 45)"

definition default_user_pattern :: user_pattern where
  "default_user_pattern =
     \<lparr>up_text = ''^[A-Za-z0-9_-]+$'', up_match = (\<lambda>s. s \<noteq> [] \<and> list_all default_user_char s)\<rparr>"

definition collection_types :: "string list" where
  "collection_types = [''conversations'', ''knowledge_facts'', ''policy'']"

definition type_suffix :: "string \<Rightarrow> string" where
  "type_suffix t = (if t = ''conversations'' then ''Conversations''
     else if t = ''knowledge_facts'' then ''KnowledgeFacts'' else ''Policy'')"

text \<open>\<open>s.encode("utf-8")\<close> on code points below 256.\<close>

definition utf8_char :: "char \<Rightarrow> nat list" where
  "utf8_char c = (let n = ord c in if n < 128 then [n] else [192 + n div 64, 128 + n mod 64])"

definition utf8 :: "string \<Rightarrow> nat list" where
  "utf8 s = concat (map utf8_char s)"

text \<open>The decoder; \<open>None\<close> for bytes that are no UTF-8 text of code points below 256.\<close>

fun utf8_decode :: "nat list \<Rightarrow> string option" where
  "utf8_decode [] = Some []"
| "utf8_decode (b # bs) =
     (if b < 128 then map_option (\<lambda>s. char_of b # s) (utf8_decode bs)
      else (case bs of
              [] \<Rightarrow> None
            | b' # bs' \<Rightarrow>
                if (b = 194 \<or> b = 195) \<and> 128 \<le> b' \<and> b' < 192
                then map_option (\<lambda>s. char_of ((b - 192) * 64 + (b' - 128)) # s) (utf8_decode bs')
                else None))"

text \<open>RFC 4648 Base32: five bytes are eight symbols; \<open>base64.b32encode(...).rstrip("=")\<close>.\<close>

definition b32_symbol :: "nat \<Rightarrow> char" where
  "b32_symbol n = (if n < 26 then char_of (65 + n) else char_of (24 + n))"

definition b32_value :: "char \<Rightarrow> nat option" where
  "b32_value c = (let n = ord c in
     if 65 \<le> n \<and> n \<le> 90 then Some (n - 65)
     else if 50 \<le> n \<and> n \<le> 55 then Some (n - 24) else None)"

primrec to_base :: "nat \<Rightarrow> nat \<Rightarrow> nat \<Rightarrow> nat list" where
  "to_base b 0 n = []"
| "to_base b (Suc k) n = to_base b k (n div b) @ [n mod b]"

definition from_base :: "nat \<Rightarrow> nat list \<Rightarrow> nat" where
  "from_base b ds = foldl (\<lambda>acc d. acc * b + d) 0 ds"

definition b32_quanta :: "nat list \<Rightarrow> string" where
  "b32_quanta bs = map b32_symbol (to_base 32 8 (from_base 256 bs))"

fun b32encode :: "nat list \<Rightarrow> string" where
  "b32encode [] = []"
| "b32encode [a] = take 2 (b32_quanta [a, 0, 0, 0, 0])"
| "b32encode [a, b] = take 4 (b32_quanta [a, b, 0, 0, 0])"
| "b32encode [a, b, c] = take 5 (b32_quanta [a, b, c, 0, 0])"
| "b32encode [a, b, c, d] = take 7 (b32_quanta [a, b, c, d, 0])"
| "b32encode (a # b # c # d # e # rest) = b32_quanta [a, b, c, d, e] @ b32encode rest"

definition get_collection_name :: "user_pattern \<Rightarrow> pyval \<Rightarrow> pyval \<Rightarrow> string res" where
  "get_collection_name pat user_id collection_type =
     (case user_id of
        PStr u \<Rightarrow>
          if u = [] then Inl (ValueError ''user_id must not be empty'')
          else if u \<noteq> strip u
          then Inl (ValueError ''user_id must not contain leading or trailing whitespace'')
          else if \<not> up_match pat u
          then Inl (ValueError (''user_id does not match configured USER_ID_PATTERN '' @ py_repr (up_text pat)))
          else (case collection_type of
              PStr t \<Rightarrow>
                (let n = lower (strip t)
                 in if n \<notin> set collection_types
                    then Inl (ValueError (''Unsupported collection_type '' @ py_repr t
                           @ ''; expected one of: '' @ join '', '' (sort collection_types)))
                    else Inr (''RagUser_'' @ b32encode (utf8 u) @ ''_'' @ type_suffix n))
            | _ \<Rightarrow> Inl (TypeError ''collection_type must be a string''))
      | _ \<Rightarrow> Inl (TypeError ''user_id must be a string''))"

section \<open>Decoding a collection name\<close>

text \<open>
  \<open>base64.b32decode\<close> of a padded token, by groups of eight symbols; a token without padding of
  length \<open>2, 4, 5, 7\<close> modulo 8 ends in a partial group, and the padding restores its zero bits.
\<close>

definition b32_symbols :: "string \<Rightarrow> nat list option" where
  "b32_symbols s = (if list_all (\<lambda>c. b32_value c \<noteq> None) s
     then Some (map (\<lambda>c. the (b32_value c)) s) else None)"

definition b32_bytes :: "nat list \<Rightarrow> nat list" where
  "b32_bytes vs = take (length vs * 5 div 8)
     (to_base 256 5 (from_base 32 (vs @ replicate (8 - length vs) 0)))"

function b32_groups :: "nat list \<Rightarrow> nat list option" where
  "b32_groups vs =
     (if vs = [] then Some []
      else if length vs < 8
      then (if length vs \<in> {2, 4, 5, 7} then Some (b32_bytes vs) else None)
      else map_option (\<lambda>bs. b32_bytes (take 8 vs) @ bs) (b32_groups (drop 8 vs)))"
  by pat_completeness auto
termination
  by (relation "measure length") auto

declare b32_groups.simps [simp del]

definition b32decode :: "string \<Rightarrow> nat list option" where
  "b32decode token = (case b32_symbols token of None \<Rightarrow> None | Some vs \<Rightarrow> b32_groups vs)"

definition suffix_type :: "string \<Rightarrow> string option" where
  "suffix_type s = (if s = ''Conversations'' then Some ''conversations''
     else if s = ''KnowledgeFacts'' then Some ''knowledge_facts''
     else if s = ''Policy'' then Some ''policy'' else None)"

text \<open>
  The pattern \<open>RagUser_(?P<token>[A-Z2-7]+)_(?P<suffix>...)\<close>: the token has no underscore, so
  the name splits at its first underscore after the prefix.
\<close>

definition split_collection :: "string \<Rightarrow> (string \<times> string) option" where
  "split_collection name =
     (if \<not> prefix ''RagUser_'' name then None
      else (case partition_at ''_'' (drop 8 name) of
              None \<Rightarrow> None
            | Some (token, sfx) \<Rightarrow>
                if token \<noteq> [] \<and> list_all (\<lambda>c. b32_value c \<noteq> None) token
                then map_option (\<lambda>t. (token, t)) (suffix_type sfx) else None))"

definition decoded_collection :: "user_pattern \<Rightarrow> string \<Rightarrow> (string \<times> string) option res" where
  "decoded_collection pat name =
     (case split_collection name of
        None \<Rightarrow> Inr None
      | Some (token, t) \<Rightarrow>
          (case Option.bind (b32decode token) utf8_decode of
             None \<Rightarrow> Inl (RuntimeError (''collection '' @ py_repr name @ '' has an invalid user token''))
           | Some u \<Rightarrow>
               rbind (get_collection_name pat (PStr u) (PStr t))
                 (\<lambda>n. if n \<noteq> name
                      then Inl (RuntimeError (''collection '' @ py_repr name @ '' is not canonically encoded''))
                      else Inr (Some (u, t)))))"

section \<open>Loading the configuration\<close>

text \<open>
  The module-level statements, in their order: the first failing one decides the exception.
  \<open>compile\<close> is \<open>re.compile\<close> composed with \<open>fullmatch\<close>, \<open>None\<close> for \<open>re.error\<close>.
\<close>

record app_config =
  weaviate_url :: string
  weaviate_api_key :: string
  weaviate_connection_mode :: string
  weaviate_grpc_port :: int
  weaviate_grpc_secure :: bool
  supported_file_extensions :: "string list"
  cors_origins :: "string list"
  upload_max_file_bytes :: int
  upload_max_total_bytes :: int
  upload_read_chunk_bytes :: int
  task_max_completed_records :: int
  user_id_pattern :: user_pattern
  text_file_encoding :: string
  text_file_join_separator :: string
  wizard_diagnostics_enabled :: bool
  rag_diagnostic_user_id :: string
  rag_evaluation_evidence_enabled :: bool
  rag_evaluation_user_id :: string
  rag_acceptance_observer_enabled :: bool
  rag_acceptance_experiment_sha256 :: string

definition sha256_char :: "char \<Rightarrow> bool" where
  "sha256_char c \<longleftrightarrow> (let n = ord c in (48 \<le> n \<and> n \<le> 57) \<or> (97 \<le> n \<and> n \<le> 102))"

definition tracked_user :: "string \<Rightarrow> string \<Rightarrow> user_pattern \<Rightarrow> string \<Rightarrow> unit res" where
  "tracked_user name purpose pat u =
     rbind (require (u \<noteq> []) (ValueError (name @ '' is required when '' @ purpose))) (\<lambda>_.
     rbind (require (u = strip u)
        (ValueError (name @ '' must not contain leading or trailing whitespace''))) (\<lambda>_.
     require (up_match pat u) (ValueError (name @ '' does not match configured USER_ID_PATTERN''))))"

definition load_storage_config ::
    "environment \<Rightarrow> (string \<times> string \<times> string \<times> int \<times> bool) res" where
  "load_storage_config env =
     rbind (required_string env ''WEAVIATE_URL'' ''http://localhost:8080'') (\<lambda>url.
     let key = strip (raw_string env ''WEAVIATE_API_KEY'' []) in
     rbind (choice env ''WEAVIATE_CONNECTION_MODE'' ''auto'' [''auto'', ''cloud'', ''custom'']) (\<lambda>mode.
     rbind (require (\<not> (mode = ''cloud'' \<and> key = []))
        (ValueError ''WEAVIATE_API_KEY is required in cloud connection mode'')) (\<lambda>_.
     rbind (positive_int env ''WEAVIATE_GRPC_PORT'' 50051) (\<lambda>grpc.
     rbind (boolean env ''WEAVIATE_GRPC_SECURE'' (prefix ''https://'' (lower url))) (\<lambda>secure.
     Inr (url, key, mode, grpc, secure))))))"

definition load_upload_config :: "environment \<Rightarrow> (int \<times> int \<times> int \<times> int) res" where
  "load_upload_config env =
     rbind (positive_int env ''UPLOAD_MAX_FILE_BYTES'' 10485760) (\<lambda>fb.
     rbind (positive_int env ''UPLOAD_MAX_TOTAL_BYTES'' 26214400) (\<lambda>tb.
     rbind (positive_int env ''UPLOAD_READ_CHUNK_BYTES'' 65536) (\<lambda>cb.
     rbind (positive_int env ''TASK_MAX_COMPLETED_RECORDS'' 10000) (\<lambda>tasks.
     rbind (require (fb \<le> tb)
        (ValueError ''UPLOAD_MAX_FILE_BYTES must not exceed UPLOAD_MAX_TOTAL_BYTES'')) (\<lambda>_.
     rbind (require (cb \<le> fb)
        (ValueError ''UPLOAD_READ_CHUNK_BYTES must not exceed UPLOAD_MAX_FILE_BYTES'')) (\<lambda>_.
     Inr (fb, tb, cb, tasks)))))))"

definition load_app_config :: "(string \<Rightarrow> (string \<Rightarrow> bool) option) \<Rightarrow> environment \<Rightarrow> app_config res" where
  "load_app_config compile env =
     rbind (load_storage_config env) (\<lambda>(url, key, mode, grpc, secure).
     rbind (supported_extensions env) (\<lambda>exts.
     rbind (cors_allowed_origins env) (\<lambda>origins.
     rbind (load_upload_config env) (\<lambda>(fb, tb, cb, tasks).
     rbind (required_string env ''USER_ID_PATTERN'' ''^[A-Za-z0-9_-]+$'') (\<lambda>pattern.
     rbind (required_string env ''TEXT_FILE_ENCODING'' ''utf-8-sig'') (\<lambda>enc.
     let sep = raw_string env ''TEXT_FILE_JOIN_SEPARATOR'' [CHR 0x0A, CHR 0x0A] in
     rbind (boolean env ''WIZARD_DIAGNOSTICS_ENABLED'' False) (\<lambda>diag.
     let duser = raw_string env ''RAG_DIAGNOSTIC_USER_ID'' [] in
     rbind (boolean env ''RAG_EVALUATION_EVIDENCE_ENABLED'' False) (\<lambda>evid.
     let euser = raw_string env ''RAG_EVALUATION_USER_ID'' [] in
     rbind (boolean env ''RAG_ACCEPTANCE_OBSERVER_ENABLED'' False) (\<lambda>obs.
     let sha = raw_string env ''RAG_ACCEPTANCE_EXPERIMENT_SHA256'' [] in
     rbind (case compile pattern of
              None \<Rightarrow> Inl (ValueError ''USER_ID_PATTERN must be a valid regular expression'')
            | Some m \<Rightarrow> Inr \<lparr>up_text = pattern, up_match = m\<rparr>) (\<lambda>pat.
     rbind (require (\<not> (diag \<and> evid))
        (ValueError ''Wizard diagnostics and evaluation evidence cannot be enabled together'')) (\<lambda>_.
     rbind (if diag then tracked_user ''RAG_DIAGNOSTIC_USER_ID'' ''Wizard diagnostics are enabled'' pat duser
            else Inr ()) (\<lambda>_.
     rbind (if evid then tracked_user ''RAG_EVALUATION_USER_ID'' ''evaluation evidence is enabled'' pat euser
            else Inr ()) (\<lambda>_.
     rbind (require (\<not> (obs \<and> \<not> (length sha = 64 \<and> list_all sha256_char sha)))
        (ValueError ''RAG_ACCEPTANCE_EXPERIMENT_SHA256 must be a lowercase SHA-256 digest'')) (\<lambda>_.
     Inr \<lparr>weaviate_url = url, weaviate_api_key = key, weaviate_connection_mode = mode,
          weaviate_grpc_port = grpc, weaviate_grpc_secure = secure,
          supported_file_extensions = exts, cors_origins = origins,
          upload_max_file_bytes = fb, upload_max_total_bytes = tb, upload_read_chunk_bytes = cb,
          task_max_completed_records = tasks, user_id_pattern = pat, text_file_encoding = enc,
          text_file_join_separator = sep, wizard_diagnostics_enabled = diag,
          rag_diagnostic_user_id = duser, rag_evaluation_evidence_enabled = evid,
          rag_evaluation_user_id = euser, rag_acceptance_observer_enabled = obs,
          rag_acceptance_experiment_sha256 = sha\<rparr>))))))))))))))"

section \<open>The name of a collection determines the user and the type\<close>

lemma to_base_pad: "0 < b \<Longrightarrow> to_base b (k + j) (m * b ^ j) = to_base b k m @ replicate j 0"
proof (induction j)
  case (Suc j)
  have "m * (b * b ^ j) div b = m * b ^ j"
    using Suc.prems by (metis mult.left_commute nonzero_mult_div_cancel_left not_gr_zero)
  with Suc show ?case
    by (simp add: replicate_append_same [symmetric])
qed simp

lemma length_to_base [simp]: "length (to_base b k n) = k"
  by (induction k arbitrary: n) auto

lemma to_base_less: "0 < b \<Longrightarrow> d \<in> set (to_base b k n) \<Longrightarrow> d < b"
  by (induction k arbitrary: n) auto

lemma from_base_snoc: "from_base b (ds @ [d]) = from_base b ds * b + d"
  by (simp add: from_base_def)

lemma from_to_base: "0 < b \<Longrightarrow> from_base b (to_base b k n) = n mod b ^ k"
proof (induction k arbitrary: n)
  case (Suc k)
  then show ?case
    using mod_mult2_eq [of n b "b ^ k"] by (simp add: from_base_snoc mult.commute)
qed (simp add: from_base_def)

lemma to_from_base: "0 < b \<Longrightarrow> list_all (\<lambda>d. d < b) ds \<Longrightarrow> to_base b (length ds) (from_base b ds) = ds"
  by (induction ds rule: rev_induct) (auto simp: from_base_snoc)

lemma from_base_less: "list_all (\<lambda>d. d < b) ds \<Longrightarrow> from_base b ds < b ^ length ds"
proof (induction ds rule: rev_induct)
  case (snoc d ds)
  then have "from_base b ds + 1 \<le> b ^ length ds" "d < b"
    by auto
  then have "(from_base b ds + 1) * b \<le> b ^ length ds * b"
    by (intro mult_le_mono1)
  with \<open>d < b\<close> show ?case
    by (simp add: from_base_snoc algebra_simps)
qed (simp add: from_base_def)

lemma from_base_zeros: "from_base b (ds @ replicate j 0) = from_base b ds * b ^ j"
  by (induction j) (simp_all add: replicate_append_same [symmetric] from_base_snoc
      append_assoc [symmetric] del: append_assoc)

text \<open>One group: \<open>n\<close> bytes are \<open>m\<close> symbols when the padding bits fill whole symbols.\<close>

lemma b32_bytes_quanta:
  assumes bs: "list_all (\<lambda>d. d < 256) bs" and n: "length bs = n" "n \<le> 5"
    and m: "m \<le> 8" "m * 5 div 8 = n" "8 * n \<le> 5 * m"
  shows "b32_bytes (take m (to_base 32 8 (from_base 256 (bs @ replicate (5 - n) 0)))) = bs"
proof -
  let ?N = "from_base 256 (bs @ replicate (5 - n) 0)"
  have "(256 :: nat) ^ (5 - n) = 2 ^ (8 * (5 - n))"
    by (simp add: power_mult)
  also have "\<dots> = 2 ^ (8 * (5 - n) - 5 * (8 - m)) * (2 ^ 5) ^ (8 - m)"
    using m n by (simp only: power_mult [symmetric] power_add [symmetric]) simp
  finally obtain q where q: "?N = q * 32 ^ (8 - m)"
    by (auto simp: from_base_zeros)
  have "to_base 32 8 ?N = to_base 32 m q @ replicate (8 - m) 0"
    using to_base_pad [of 32 m "8 - m" q] m by (simp add: q)
  then have pad: "take m (to_base 32 8 ?N) @ replicate (8 - m) 0 = to_base 32 8 ?N"
    by simp
  have all: "list_all (\<lambda>d. d < 256) (bs @ replicate (5 - n) 0)"
    using bs by (auto simp: list_all_iff)
  have "?N < 256 ^ 5"
    using from_base_less [OF all] n by simp
  then have "from_base 32 (to_base 32 8 ?N) = ?N"
    by (simp add: from_to_base)
  moreover have "to_base 256 5 ?N = bs @ replicate (5 - n) 0"
    using to_from_base [OF _ all] n by simp
  ultimately show ?thesis
    using m n pad by (simp add: b32_bytes_def)
qed

lemma b32_value_symbol: "n < 32 \<Longrightarrow> b32_value (b32_symbol n) = Some n"
  by (auto simp: b32_value_def b32_symbol_def ord_char_of Let_def)

lemma b32_symbols_quanta:
  "list_all (\<lambda>c. b32_value c \<noteq> None) (map b32_symbol (to_base 32 k n))"
  "map (\<lambda>c. the (b32_value c)) (map b32_symbol (to_base 32 k n)) = to_base 32 k n"
proof -
  have v: "b32_value (b32_symbol d) = Some d" if "d \<in> set (to_base 32 k n)" for d
    using that to_base_less [of 32] b32_value_symbol by simp
  then show "list_all (\<lambda>c. b32_value c \<noteq> None) (map b32_symbol (to_base 32 k n))"
    by (simp add: list_all_iff)
  show "map (\<lambda>c. the (b32_value c)) (map b32_symbol (to_base 32 k n)) = to_base 32 k n"
    using v by (simp add: map_idI)
qed

definition b32_group :: "nat \<Rightarrow> nat list \<Rightarrow> nat list" where
  "b32_group m bs = take m (to_base 32 8 (from_base 256 (bs @ replicate (5 - length bs) 0)))"

fun b32_vals :: "nat list \<Rightarrow> nat list" where
  "b32_vals [] = []"
| "b32_vals [a] = b32_group 2 [a]"
| "b32_vals [a, b] = b32_group 4 [a, b]"
| "b32_vals [a, b, c] = b32_group 5 [a, b, c]"
| "b32_vals [a, b, c, d] = b32_group 7 [a, b, c, d]"
| "b32_vals (a # b # c # d # e # rest) = b32_group 8 [a, b, c, d, e] @ b32_vals rest"

lemma b32_group_less: "d \<in> set (b32_group m bs) \<Longrightarrow> d < 32"
  by (metis b32_group_def in_set_takeD to_base_less zero_less_numeral)

lemma b32_vals_less: "d \<in> set (b32_vals bs) \<Longrightarrow> d < 32"
  by (induction bs rule: b32_vals.induct) (auto dest: b32_group_less)

lemma b32_pads:
  "replicate 4 (0 :: nat) = [0, 0, 0, 0]" "replicate 3 (0 :: nat) = [0, 0, 0]"
  "replicate 2 (0 :: nat) = [0, 0]"
  by (simp_all add: numeral_eq_Suc)

lemma b32encode_vals: "b32encode bs = map b32_symbol (b32_vals bs)"
  by (induction bs rule: b32_vals.induct)
    (simp_all add: b32_quanta_def b32_group_def take_map b32_pads)

lemma b32_group_bytes:
  assumes "list_all (\<lambda>d. d < 256) bs" "(length bs, m) \<in> {(1, 2), (2, 4), (3, 5), (4, 7), (5, 8)}"
  shows "b32_bytes (b32_group m bs) = bs" "length (b32_group m bs) = m"
  using assms b32_bytes_quanta [OF assms(1) refl, of m] by (auto simp: b32_group_def)

lemma b32_groups_vals: "list_all (\<lambda>d. d < 256) bs \<Longrightarrow> b32_groups (b32_vals bs) = Some bs"
proof (induction bs rule: b32_vals.induct)
  case 1
  then show ?case by (simp add: b32_groups.simps)
next
  case (2 a)
  with b32_group_bytes [of "[a]" 2] show ?case
    by (auto simp: b32_groups.simps [of "b32_group 2 [a]"])
next
  case (3 a b)
  with b32_group_bytes [of "[a, b]" 4] show ?case
    by (auto simp: b32_groups.simps [of "b32_group 4 [a, b]"])
next
  case (4 a b c)
  with b32_group_bytes [of "[a, b, c]" 5] show ?case
    by (auto simp: b32_groups.simps [of "b32_group 5 [a, b, c]"])
next
  case (5 a b c d)
  with b32_group_bytes [of "[a, b, c, d]" 7] show ?case
    by (auto simp: b32_groups.simps [of "b32_group 7 [a, b, c, d]"])
next
  case (6 a b c d e rest)
  with b32_group_bytes [of "[a, b, c, d, e]" 8] show ?case
    by (auto simp: b32_groups.simps [of "b32_group 8 [a, b, c, d, e] @ b32_vals rest"])
qed

lemma b32_roundtrip:
  assumes "list_all (\<lambda>d. d < 256) bs"
  shows "b32decode (b32encode bs) = Some bs"
    and "list_all (\<lambda>c. b32_value c \<noteq> None) (b32encode bs)"
proof -
  have v: "b32_value (b32_symbol d) = Some d" if "d \<in> set (b32_vals bs)" for d
    using that b32_vals_less b32_value_symbol by blast
  then show l: "list_all (\<lambda>c. b32_value c \<noteq> None) (b32encode bs)"
    by (simp add: list_all_iff b32encode_vals)
  have "map (\<lambda>c. the (b32_value c)) (b32encode bs) = b32_vals bs"
    using v by (simp add: b32encode_vals map_idI)
  with l show "b32decode (b32encode bs) = Some bs"
    by (simp add: b32decode_def b32_symbols_def b32_groups_vals [OF assms])
qed

lemma utf8_bytes: "list_all (\<lambda>d. d < 256) (utf8 s)"
proof -
  have "list_all (\<lambda>d. d < 256) (utf8_char c)" for c
  proof -
    have "ord c div 64 < 4"
      using ord_less [of c] by linarith
    moreover have "ord c mod 64 < 128"
      using mod_less_divisor [of 64 "ord c"] by linarith
    ultimately show ?thesis by (simp add: utf8_char_def Let_def)
  qed
  then show ?thesis
    by (induction s) (auto simp: utf8_def)
qed

lemma utf8_decode_char: "utf8_decode (utf8_char c @ bs) = map_option (\<lambda>s. c # s) (utf8_decode bs)"
proof (cases "ord c < 128")
  case True
  then show ?thesis by (simp add: utf8_char_def)
next
  case False
  then have "ord c div 64 = 2 \<or> ord c div 64 = 3"
    using ord_less [of c] by linarith
  moreover have "(ord c div 64) * 64 + ord c mod 64 = ord c"
    by simp
  ultimately show ?thesis
    using False by (auto simp: utf8_char_def Let_def)
qed

lemma utf8_roundtrip: "utf8_decode (utf8 s) = Some s"
  by (induction s) (auto simp: utf8_def utf8_decode_char)

lemma partition_at_token:
  "CHR ''_'' \<notin> set s \<Longrightarrow> partition_at ''_'' (s @ ''_'' @ t) = Some (s, t)"
  by (induction s) auto

lemma get_collection_name_Inr [py_iff]:
  "get_collection_name pat uid ct = Inr name \<longleftrightarrow>
     (\<exists>u t. uid = PStr u \<and> ct = PStr t \<and> u \<noteq> [] \<and> strip u = u \<and> up_match pat u
        \<and> lower (strip t) \<in> set collection_types
        \<and> name = ''RagUser_'' @ b32encode (utf8 u) @ ''_'' @ type_suffix (lower (strip t)))"
  by (auto simp: get_collection_name_def Let_def split: pyval.splits if_splits)

lemma type_suffix_type: "t \<in> set collection_types \<Longrightarrow> suffix_type (type_suffix t) = Some t"
  by (auto simp: collection_types_def type_suffix_def suffix_type_def)

lemma type_normal: "t \<in> set collection_types \<Longrightarrow> lower (strip t) = t"
  by (auto simp: collection_types_def lower_def strip_def strip_of_def rstrip_of_def chr_space_def
      chr_lower_def ord_def)

lemma b32encode_not_Nil: "bs \<noteq> [] \<Longrightarrow> b32encode bs \<noteq> []"
proof -
  have "length (b32_group m cs) = min m 8" for m cs
    by (simp add: b32_group_def min.commute)
  then have g: "b32_group m cs \<noteq> []" if "0 < m" for m cs
    using that by (metis list.size(3) min_def not_less_zero zero_less_numeral)
  assume "bs \<noteq> []"
  then show ?thesis
    by (cases bs rule: b32_vals.cases) (simp_all add: b32encode_vals g)
qed

lemma split_collection_name:
  assumes "u \<noteq> []" and t: "t \<in> set collection_types"
  shows "split_collection (''RagUser_'' @ b32encode (utf8 u) @ ''_'' @ type_suffix t) = Some (b32encode (utf8 u), t)"
proof -
  let ?k = "b32encode (utf8 u)"
  have l: "list_all (\<lambda>c. b32_value c \<noteq> None) ?k"
    by (rule b32_roundtrip) (rule utf8_bytes)
  have "b32_value (CHR ''_'') = None"
    by (simp add: b32_value_def ord_def)
  with l have nu: "CHR ''_'' \<notin> set ?k"
    by (auto simp: list_all_iff)
  have "utf8 u \<noteq> []"
    using \<open>u \<noteq> []\<close> by (cases u) (auto simp: utf8_def utf8_char_def Let_def)
  then have "?k \<noteq> []"
    by (rule b32encode_not_Nil)
  then show ?thesis
    using l partition_at_token [OF nu, of "type_suffix t"] type_suffix_type [OF t]
    by (simp add: split_collection_def)
qed

lemma decoded_name:
  assumes "get_collection_name pat (PStr u) (PStr t) = Inr name"
  shows "decoded_collection pat name = Inr (Some (u, lower (strip t)))"
proof -
  let ?t = "lower (strip t)"
  have u: "u \<noteq> []" "strip u = u" "up_match pat u" and t: "?t \<in> set collection_types"
    and name: "name = ''RagUser_'' @ b32encode (utf8 u) @ ''_'' @ type_suffix ?t"
    using assms by (auto simp: py_iff)
  have again: "get_collection_name pat (PStr u) (PStr ?t) = Inr name"
    using u t name type_normal [OF t] by (simp add: py_iff)
  have "split_collection name = Some (b32encode (utf8 u), ?t)"
    unfolding name by (rule split_collection_name [OF u(1) t])
  then show ?thesis
    using again b32_roundtrip(1) [OF utf8_bytes, of u] utf8_roundtrip [of u]
    by (simp add: decoded_collection_def)
qed

section \<open>Properties\<close>

lemma positive_int_pos: "positive_int env name d = Inr v \<Longrightarrow> 0 < v"
  by (auto simp: positive_int_def py_iff split: if_splits)

lemma tracked_user_Inr [py_iff]:
  "tracked_user n p pat u = Inr x \<longleftrightarrow> u \<noteq> [] \<and> u = strip u \<and> up_match pat u"
  by (auto simp: tracked_user_def py_iff)

lemma load_upload_config_Inr:
  "load_upload_config env = Inr (fb, tb, cb, tasks) \<Longrightarrow> 0 < cb \<and> cb \<le> fb \<and> fb \<le> tb \<and> 0 < tasks"
  by (auto simp: load_upload_config_def py_iff dest!: positive_int_pos)

lemma load_storage_config_Inr:
  "load_storage_config env = Inr (url, key, mode, grpc, secure) \<Longrightarrow> mode = ''cloud'' \<longrightarrow> key \<noteq> []"
  by (auto simp: load_storage_config_def py_iff Let_def)

lemma cors_allowed_origins_Inr:
  "cors_allowed_origins env = Inr os \<Longrightarrow> ''*'' \<in> set os \<longrightarrow> os = [''*'']"
  by (auto simp: cors_allowed_origins_def py_iff Let_def split: if_splits)

lemma policy_type: "lower (strip ''policy'') = ''policy''" "''policy'' \<in> set collection_types"
  by (simp_all add: type_normal collection_types_def)

lemma to_base_numeral: "to_base b (numeral k) n = to_base b (pred_numeral k) (n div b) @ [n mod b]"
  by (simp add: numeral_eq_Suc)



text \<open>
  C29 (safety). Two users, or two collection types, never share a physical collection: the name
  determines the user identifier and the collection type.
\<close>

theorem collection_name_isolates:
  assumes "get_collection_name pat (PStr u) (PStr t) = Inr name"
    and "get_collection_name pat (PStr u') (PStr t') = Inr name"
  shows "u = u' \<and> lower (strip t) = lower (strip t')"
  using decoded_name [OF assms(1)] decoded_name [OF assms(2)] by simp

theorem collection_name_isolates_witness:
  "get_collection_name default_user_pattern (PStr ''ab'') (PStr '' Policy '') = Inr ''RagUser_MFRA_Policy''
   \<and> lower (strip '' Policy '') = lower (strip ''policy'')"
proof -
  have a: "get_collection_name default_user_pattern (PStr ''ab'') (PStr '' Policy '') = Inr ''RagUser_MFRA_Policy''"
    and b: "get_collection_name default_user_pattern (PStr ''ab'') (PStr ''policy'') = Inr ''RagUser_MFRA_Policy''"
    by (simp_all add: py_iff collection_types_def default_user_pattern_def default_user_char_def
        utf8_def utf8_char_def b32_quanta_def b32_symbol_def from_base_def to_base_numeral
        type_suffix_def py_eval)
  from a collection_name_isolates [OF a b] show ?thesis
    by simp
qed

lemma suffix_type_Some: "suffix_type s = Some t \<Longrightarrow> t \<in> set collection_types"
  by (auto simp: suffix_type_def collection_types_def split: if_splits)

text \<open>
  \<open>_decoded_collection\<close> returns a user and a type exactly for the names that
  \<open>get_collection_name\<close> builds from them.
\<close>

theorem decoded_collection_inverse:
  "decoded_collection pat name = Inr (Some (u, t)) \<longleftrightarrow>
     t \<in> set collection_types \<and> get_collection_name pat (PStr u) (PStr t) = Inr name"
proof
  assume "decoded_collection pat name = Inr (Some (u, t))"
  then show "t \<in> set collection_types \<and> get_collection_name pat (PStr u) (PStr t) = Inr name"
    by (auto simp: decoded_collection_def split_collection_def rbind_Inr_iff dest!: suffix_type_Some
        split: option.splits if_splits)
next
  assume a: "t \<in> set collection_types \<and> get_collection_name pat (PStr u) (PStr t) = Inr name"
  then show "decoded_collection pat name = Inr (Some (u, t))"
    using decoded_name [of pat u t name] by (simp add: type_normal)
qed

end
