(* ===== verification/Py_Dict.thy ===== *)
theory Py_Dict
  imports Py_Text
begin

text \<open>
  Python dictionaries as association lists in insertion order, the interface every mapping of the
  program goes through, the \<open>owner\<close> index two of the mappings keep beside their dictionary, and
  sequences of calls on an object.
\<close>

section \<open>The interface of a keyed store\<close>

locale keyed_store =
  fixes lookup :: "'st \<Rightarrow> 'k \<Rightarrow> 'v option"
    and put :: "'k \<Rightarrow> 'v \<Rightarrow> 'st \<Rightarrow> 'st"
    and remove :: "'k \<Rightarrow> 'st \<Rightarrow> 'st"
  assumes lookup_put: "lookup (put k v st) = (lookup st)(k \<mapsto> v)"
    and lookup_remove: "lookup (remove k st) = (lookup st)(k := None)"
begin

lemma lookup_put_other: "j \<noteq> k \<Longrightarrow> lookup (put k v st) j = lookup st j"
  by (simp add: lookup_put)

lemma lookup_put_same: "lookup (put k v st) k = Some v"
  by (simp add: lookup_put)

lemma remove_put: "lookup st k = None \<Longrightarrow> lookup (remove k (put k v st)) = lookup st"
  by (auto simp: lookup_put lookup_remove)

lemma put_restores: "lookup st k = Some v \<Longrightarrow> lookup (put k v (put k w st)) = lookup st"
  by (auto simp: lookup_put)

lemma put_after_remove: "lookup st k = Some v \<Longrightarrow> lookup (put k v (remove k st)) = lookup st"
  by (auto simp: lookup_put lookup_remove)

lemma lookup_remove_all: "lookup (fold remove ks st) = (\<lambda>k. if k \<in> set ks then None else lookup st k)"
  by (induction ks arbitrary: st) (auto simp: lookup_remove)

end

interpretation dict: keyed_store map_of AList.update AList.delete
  by unfold_locales (simp_all add: update_conv' delete_conv')

section \<open>Dictionaries\<close>

type_synonym ('k, 'v) dict = "('k \<times> 'v) list"

definition dict_keys :: "('k, 'v) dict \<Rightarrow> 'k list" where
  "dict_keys d = map fst d"

definition dict_values :: "('k, 'v) dict \<Rightarrow> 'v list" where
  "dict_values d = map snd d"

text \<open>\<open>d[k]\<close>; \<open>emb\<close> turns a key into the value the KeyError carries.\<close>

definition dict_get :: "('k \<Rightarrow> pyval) \<Rightarrow> ('k, 'v) dict \<Rightarrow> 'k \<Rightarrow> 'v res" where
  "dict_get emb d k = (case map_of d k of None \<Rightarrow> Inl (KeyError (emb k)) | Some v \<Rightarrow> Inr v)"

text \<open>\<open>del d[k]\<close>.\<close>

definition dict_del :: "('k \<Rightarrow> pyval) \<Rightarrow> 'k \<Rightarrow> (('k, 'v) dict, unit) op" where
  "dict_del emb k = (\<lambda>d. case map_of d k of
       None \<Rightarrow> (Inl (KeyError (emb k)), d)
     | Some _ \<Rightarrow> (Inr (), AList.delete k d))"

text \<open>\<open>d.pop(k)\<close>.\<close>

definition dict_pop :: "('k \<Rightarrow> pyval) \<Rightarrow> 'k \<Rightarrow> (('k, 'v) dict, 'v) op" where
  "dict_pop emb k = (\<lambda>d. case map_of d k of
       None \<Rightarrow> (Inl (KeyError (emb k)), d)
     | Some v \<Rightarrow> (Inr v, AList.delete k d))"

text \<open>An operation on a part of an object.\<close>

definition on_part :: "('s \<Rightarrow> 'd) \<Rightarrow> ('d \<Rightarrow> 's \<Rightarrow> 's) \<Rightarrow> ('d, 'a) op \<Rightarrow> ('s, 'a) op" where
  "on_part get wr m = (\<lambda>s. case m (get s) of (r, d) \<Rightarrow> (r, wr d s))"

lemma dict_get_iff [py_iff]:
  "dict_get emb d k = Inr v \<longleftrightarrow> map_of d k = Some v"
  "dict_get emb d k = Inl e \<longleftrightarrow> map_of d k = None \<and> e = KeyError (emb k)"
  by (auto simp: dict_get_def split: option.splits)

lemma dict_pop_eval:
  "map_of d k = Some v \<Longrightarrow> dict_pop emb k d = (Inr v, AList.delete k d)"
  "map_of d k = None \<Longrightarrow> dict_pop emb k d = (Inl (KeyError (emb k)), d)"
  by (simp_all add: dict_pop_def)

lemma dict_del_eval:
  "map_of d k = Some v \<Longrightarrow> dict_del emb k d = (Inr (), AList.delete k d)"
  "map_of d k = None \<Longrightarrow> dict_del emb k d = (Inl (KeyError (emb k)), d)"
  by (simp_all add: dict_del_def)

lemma on_part_apply: "m (get s) = (r, d) \<Longrightarrow> on_part get st m s = (r, st d s)"
  by (simp add: on_part_def)

lemma update_new: "k \<notin> fst ` set d \<Longrightarrow> AList.update k v d = d @ [(k, v)]"
  by (induction d) auto

text \<open>A loop that deletes distinct keys which are present raises nothing.\<close>

lemma dict_del_loop:
  assumes "distinct ks" and "\<And>k. k \<in> set ks \<Longrightarrow> map_of d k \<noteq> None"
  shows "ofor ks (dict_del emb) d = (Inr (), fold AList.delete ks d)"
  using assms
proof (induction ks arbitrary: d)
  case Nil
  then show ?case by simp
next
  case (Cons k ks)
  then obtain v where v: "map_of d k = Some v"
    by auto
  have "ofor ks (dict_del emb) (AList.delete k d) = (Inr (), fold AList.delete ks (AList.delete k d))"
    using Cons.prems by (intro Cons.IH) (auto simp: delete_conv')
  then show ?case
    by (simp add: obind_def dict_del_eval(1) [OF v])
qed

lemma distinct_keys_fold_delete:
  "distinct (map fst d) \<Longrightarrow> distinct (map fst (fold AList.delete ks d))"
  by (induction ks arbitrary: d) (auto simp: distinct_delete)

lemma map_of_fold_delete:
  "map_of (fold AList.delete ks d) = (\<lambda>k. if k \<in> set ks then None else map_of d k)"
  by (rule dict.lookup_remove_all)

section \<open>Owner indexes\<close>

text \<open>
  A dictionary from keys to lists of children and an index from children to their key agree when
  the index is exactly the inverse of the dictionary. \<open>SessionMap\<close> keeps such a pair for sessions
  and conversations, \<open>ParagraphMap\<close> for paragraphs and chunks.
\<close>

definition inverse_maps :: "('k \<Rightarrow> 'c list option) \<Rightarrow> ('c \<Rightarrow> 'k option) \<Rightarrow> bool" where
  "inverse_maps g w \<longleftrightarrow>
     (\<forall>k cs. g k = Some cs \<longrightarrow> distinct cs)
     \<and> (\<forall>c k. w c = Some k \<longleftrightarrow> (\<exists>cs. g k = Some cs \<and> c \<in> set cs))"

definition owner_index :: "('k, 'c list) dict \<Rightarrow> ('c, 'k) dict \<Rightarrow> bool" where
  "owner_index groups owners \<longleftrightarrow>
     distinct (map fst groups) \<and> distinct (map fst owners)
     \<and> inverse_maps (map_of groups) (map_of owners)"

lemma inverse_mapsD:
  assumes "inverse_maps g w"
  shows "g k = Some cs \<Longrightarrow> distinct cs"
    "w c = Some k \<longleftrightarrow> (\<exists>cs. g k = Some cs \<and> c \<in> set cs)"
  using assms by (auto simp: inverse_maps_def)

lemma inverse_maps_owned: "inverse_maps g w \<Longrightarrow> g k = Some cs \<Longrightarrow> c \<in> set cs \<Longrightarrow> w c = Some k"
  by (auto simp: inverse_maps_def)

lemma inverse_maps_new: "inverse_maps g w \<Longrightarrow> g k = None \<Longrightarrow> inverse_maps (g(k \<mapsto> [])) w"
  by (auto simp: inverse_maps_def)

lemma inverse_maps_add:
  assumes "inverse_maps g w" "g k = Some cs" "w c = None"
  shows "inverse_maps (g(k \<mapsto> cs @ [c])) (w(c \<mapsto> k))"
proof -
  have n: "c \<notin> set ds" if "g j = Some ds" for j ds
    using inverse_maps_owned [OF assms(1) that] assms(3) by fastforce
  show ?thesis
    unfolding inverse_maps_def
  proof (intro conjI allI impI)
    fix j ds assume "(g(k \<mapsto> cs @ [c])) j = Some ds"
    then show "distinct ds"
      using assms n inverse_mapsD(1) [OF assms(1)] by (auto split: if_splits)
  next
    fix d j
    show "(w(c \<mapsto> k)) d = Some j \<longleftrightarrow> (\<exists>ds. (g(k \<mapsto> cs @ [c])) j = Some ds \<and> d \<in> set ds)"
      using n [of j] n [of k cs] assms(2) inverse_mapsD(2) [OF assms(1), of d j] by auto
  qed
qed

lemma inverse_maps_remove:
  assumes "inverse_maps g w" "g k = Some cs"
  shows "inverse_maps (g(k := None)) (\<lambda>c. if c \<in> set cs then None else w c)"
proof -
  have own: "w c = Some j \<longleftrightarrow> (\<exists>ds. g j = Some ds \<and> c \<in> set ds)" for c j
    by (rule inverse_mapsD [OF assms(1)])
  then have k: "c \<in> set cs \<Longrightarrow> g j = Some ds \<Longrightarrow> c \<in> set ds \<Longrightarrow> j = k" for c j ds
    using assms(2) by (metis option.inject)
  show ?thesis
    unfolding inverse_maps_def
  proof (intro conjI allI impI)
    fix j ds assume "(g(k := None)) j = Some ds"
    then show "distinct ds"
      using inverse_mapsD(1) [OF assms(1)] by (auto split: if_splits)
  next
    fix d j
    show "(if d \<in> set cs then None else w d) = Some j
        \<longleftrightarrow> (\<exists>ds. (g(k := None)) j = Some ds \<and> d \<in> set ds)"
      using own [of d j] k [of d j] assms(2) by auto
  qed
qed

lemma inverse_maps_set:
  assumes "inverse_maps g w" "distinct cs" "\<And>c. c \<in> set cs \<Longrightarrow> w c = None \<or> w c = Some k"
  shows "inverse_maps (g(k \<mapsto> cs)) (\<lambda>c. if c \<in> set cs then Some k else if w c = Some k then None else w c)"
  unfolding inverse_maps_def
proof (intro conjI allI impI)
  fix j ds assume "(g(k \<mapsto> cs)) j = Some ds"
  then show "distinct ds"
    using assms(2) inverse_mapsD(1) [OF assms(1)] by (auto split: if_splits)
next
  fix d j
  show "(if d \<in> set cs then Some k else if w d = Some k then None else w d) = Some j
      \<longleftrightarrow> (\<exists>ds. (g(k \<mapsto> cs)) j = Some ds \<and> d \<in> set ds)"
    using assms(3) [of d] inverse_mapsD(2) [OF assms(1), of d j] by auto
qed

lemma owner_index_empty [simp]: "owner_index [] []"
  by (simp add: owner_index_def inverse_maps_def)

lemma owner_indexD:
  assumes "owner_index groups owners"
  shows "distinct (map fst groups)" "distinct (map fst owners)"
    "inverse_maps (map_of groups) (map_of owners)"
  using assms by (auto simp: owner_index_def)

lemma owner_index_owned:
  "owner_index groups owners \<Longrightarrow> map_of groups k = Some cs \<Longrightarrow> c \<in> set cs \<Longrightarrow> map_of owners c = Some k"
  using inverse_maps_owned owner_indexD(3) by fast

lemma owner_index_new_key:
  "owner_index groups owners \<Longrightarrow> map_of groups k = None \<Longrightarrow> owner_index (AList.update k [] groups) owners"
  by (simp add: owner_index_def update_conv' distinct_update inverse_maps_new)

lemma owner_index_add_child:
  "owner_index groups owners \<Longrightarrow> map_of groups k = Some cs \<Longrightarrow> map_of owners c = None \<Longrightarrow>
   owner_index (AList.update k (cs @ [c]) groups) (AList.update c k owners)"
  unfolding owner_index_def update_conv'
  by (intro conjI inverse_maps_add) (auto simp: distinct_update simp del: map_of_eq_Some_iff)

lemma owner_index_pop:
  assumes o: "owner_index groups owners" and k: "map_of groups k = Some cs"
  shows "ofor cs (dict_del emb) owners = (Inr (), fold AList.delete cs owners)"
    and "owner_index (AList.delete k groups) (fold AList.delete cs owners)"
proof -
  note inv = owner_indexD(3) [OF o]
  show "ofor cs (dict_del emb) owners = (Inr (), fold AList.delete cs owners)"
    using inverse_mapsD(1) [OF inv k] inverse_maps_owned [OF inv k]
    by (intro dict_del_loop) auto
  show "owner_index (AList.delete k groups) (fold AList.delete cs owners)"
    using inverse_maps_remove [OF inv k] owner_indexD(1,2) [OF o]
    by (simp add: owner_index_def delete_conv' map_of_fold_delete distinct_delete
        distinct_keys_fold_delete)
qed

section \<open>Objects and sequences of calls\<close>

text \<open>
  The state after a sequence of calls: a call that raises leaves the state its method left.
\<close>

definition run_calls :: "('c \<Rightarrow> ('s, 'a) op) \<Rightarrow> 'c list \<Rightarrow> 's \<Rightarrow> 's" where
  "run_calls app calls s = fold (\<lambda>c t. snd (app c t)) calls s"

locale object_invariant =
  fixes app :: "'c \<Rightarrow> ('s, 'a) op"
    and inv :: "'s \<Rightarrow> bool"
  assumes call_keeps: "inv s \<Longrightarrow> app c s = (r, t) \<Longrightarrow> inv t"
begin

lemma run_calls_keeps: "inv s \<Longrightarrow> inv (run_calls app calls s)"
proof (induction calls arbitrary: s)
  case Nil
  then show ?case by (simp add: run_calls_def)
next
  case (Cons c calls)
  then have "inv (snd (app c s))"
    using call_keeps by (metis prod.collapse)
  from Cons.IH [OF this] show ?case
    by (simp add: run_calls_def)
qed

end

text \<open>A transition system with an invariant of every step.\<close>

locale step_invariant =
  fixes step :: "'s \<Rightarrow> 's \<Rightarrow> bool"
    and inv :: "'s \<Rightarrow> bool"
  assumes step_keeps: "inv s \<Longrightarrow> step s t \<Longrightarrow> inv t"
begin

lemma reachable_inv: "step\<^sup>*\<^sup>* s t \<Longrightarrow> inv s \<Longrightarrow> inv t"
  by (induction rule: rtranclp_induct) (auto intro: step_keeps)

end

end
