(* ===== verification/Map_Common.thy ===== *)
theory Map_Common
  imports App_Config Py_Dict
begin

text \<open>
  \<open>backend/mappings/_common.py\<close>: the validators the three mapping classes share. They accept any
  value, as the methods that call them do.
\<close>

definition document_collection_types :: "string list" where
  "document_collection_types = [''knowledge_facts'', ''policy'']"

definition required_identifier :: "pyval \<Rightarrow> string \<Rightarrow> string res" where
  "required_identifier v name =
     (case v of
        PStr s \<Rightarrow> if strip s = [] then Inl (ValueError (name @ '' must not be empty'')) else Inr (strip s)
      | _ \<Rightarrow> Inl (TypeError (name @ '' must be a string'')))"

definition required_uuid :: "pyval \<Rightarrow> string \<Rightarrow> string res" where
  "required_uuid v name =
     rbind (required_identifier v name)
       (\<lambda>raw. case uuid_canon raw of
                None \<Rightarrow> Inl (ValueError (name @ '' must be a valid UUID''))
              | Some u \<Rightarrow> Inr u)"

definition validated_user_id :: "user_pattern \<Rightarrow> pyval \<Rightarrow> string res" where
  "validated_user_id pat v =
     (case v of
        PStr u \<Rightarrow> rbind (get_collection_name pat v (PStr ''conversations'')) (\<lambda>_. Inr u)
      | _ \<Rightarrow> Inl (TypeError ''user_id must be a string''))"

definition validated_document_collection_type :: "pyval \<Rightarrow> string res" where
  "validated_document_collection_type v =
     rbind (required_identifier v ''collection_type'')
       (\<lambda>n. if lower n \<notin> set document_collection_types
            then Inl (ValueError (''collection_type must be one of: ''
                   @ join '', '' (sort document_collection_types)))
            else Inr (lower n))"

definition positive_paragraph_id :: "pyval \<Rightarrow> int res" where
  "positive_paragraph_id v =
     (case v of
        PInt n \<Rightarrow> if n \<le> 0 then Inl (ValueError ''paragraph_id must be greater than zero'') else Inr n
      | _ \<Rightarrow> Inl (TypeError ''paragraph_id must be an integer''))"

text \<open>\<open>set(validated) == set(range(1, len(validated) + 1))\<close>, in both document maps.\<close>

definition sequential_ids :: "int list \<Rightarrow> bool" where
  "sequential_ids ids \<longleftrightarrow> set ids = {1..int (length ids)}"

lemma required_identifier_Inr [py_iff]:
  "required_identifier v name = Inr x \<longleftrightarrow> (\<exists>s. v = PStr s \<and> strip s \<noteq> [] \<and> x = strip s)"
  by (auto simp: required_identifier_def split: pyval.splits if_splits)

lemma required_uuid_Inr [py_iff]:
  "required_uuid v name = Inr x \<longleftrightarrow> (\<exists>s. v = PStr s \<and> strip s \<noteq> [] \<and> uuid_canon (strip s) = Some x)"
  by (auto simp: required_uuid_def rbind_Inr_iff required_identifier_Inr split: option.splits)

lemma positive_paragraph_id_Inr [py_iff]:
  "positive_paragraph_id v = Inr n \<longleftrightarrow> v = PInt n \<and> 0 < n"
  by (auto simp: positive_paragraph_id_def split: pyval.splits if_splits)

lemma required_uuid_canonical: "required_uuid v name = Inr x \<Longrightarrow> is_canonical x"
  by (auto simp: required_uuid_Inr dest: uuid_canon_canonical)

lemma required_uuid_of_canonical: "is_canonical x \<Longrightarrow> required_uuid (PStr x) name = Inr x"
  using canonical_not_blank [of x] by (auto simp: required_uuid_Inr is_canonical_def)

lemma required_identifier_strip: "required_identifier v name = Inr x \<Longrightarrow> strip x = x \<and> x \<noteq> []"
  by (auto simp: py_iff)

lemma sequential_sorted:
  assumes d: "distinct (map fst ps)" and q: "sequential_ids (map fst ps)"
  shows "map fst (sort_key fst ps) = [1..int (length ps)]"
proof (rule sorted_distinct_set_unique)
  show "set (map fst (sort_key fst ps)) = set [1..int (length ps)]"
    using q by (simp add: sequential_ids_def)
  have "mset (map fst (sort_key fst ps)) = mset (map fst ps)"
    by simp
  then show "distinct (map fst (sort_key fst ps))"
    using d mset_eq_imp_distinct_iff by blast
qed simp_all

end
