(* ===== verification/Session_Map.thy ===== *)
theory Session_Map
  imports Map_Common
begin

text \<open>
  \<open>backend/mappings/session_map.py\<close>: one user's sessions, each an ordered list of conversation ids,
  with the index from a conversation to its session. The attribute \<open>_sessions\<close> is
  \<open>sm_sessions\<close> and \<open>_conversation_owners\<close> is \<open>sm_owners\<close>; a method is an operation with the
  prefix \<open>sm_\<close>.
\<close>

section \<open>State and operations\<close>

record session_map =
  sm_user :: string
  sm_sessions :: "(string, string list) dict"
  sm_owners :: "(string, string) dict"

definition sm_new :: "user_pattern \<Rightarrow> pyval \<Rightarrow> session_map res" where
  "sm_new pat user_id =
     rbind (validated_user_id pat user_id)
       (\<lambda>u. Inr \<lparr>sm_user = u, sm_sessions = [], sm_owners = []\<rparr>)"

definition sm_create_session :: "pyval \<Rightarrow> (session_map, unit) op" where
  "sm_create_session session_id =
     obind (olift (required_identifier session_id ''session_id'')) (\<lambda>key s.
       if map_of (sm_sessions s) key \<noteq> None
       then (Inl (ValueError (''session '' @ py_repr key @ '' already exists'')), s)
       else (Inr (), s\<lparr>sm_sessions := AList.update key [] (sm_sessions s)\<rparr>))"

definition sm_add_conversation :: "pyval \<Rightarrow> pyval \<Rightarrow> (session_map, unit) op" where
  "sm_add_conversation session_id conversation_id =
     obind (olift (required_identifier session_id ''session_id'')) (\<lambda>key.
     obind (olift (required_uuid conversation_id ''conversation_id'')) (\<lambda>child s.
       case dict_get PStr (sm_sessions s) key of
         Inl e \<Rightarrow> (Inl e, s)
       | Inr conversations \<Rightarrow>
           (case map_of (sm_owners s) child of
              Some owner \<Rightarrow>
                if owner \<noteq> key
                then (Inl (ValueError (''conversation '' @ py_repr child
                        @ '' already belongs to session '' @ py_repr owner)), s)
                else (Inr (), s)
            | None \<Rightarrow>
                (Inr (), s\<lparr>sm_sessions := AList.update key (conversations @ [child]) (sm_sessions s),
                           sm_owners := AList.update child key (sm_owners s)\<rparr>))))"

definition sm_get_conversations :: "session_map \<Rightarrow> pyval \<Rightarrow> string list res" where
  "sm_get_conversations s session_id =
     rbind (required_identifier session_id ''session_id'') (\<lambda>key. dict_get PStr (sm_sessions s) key)"

definition sm_delete_session :: "pyval \<Rightarrow> (session_map, string list) op" where
  "sm_delete_session session_id =
     obind (olift (required_identifier session_id ''session_id'')) (\<lambda>key.
     obind (on_part sm_sessions (\<lambda>d s. s\<lparr>sm_sessions := d\<rparr>) (dict_pop PStr key)) (\<lambda>conversations.
     obind (on_part sm_owners (\<lambda>d s. s\<lparr>sm_owners := d\<rparr>) (ofor conversations (dict_del PStr)))
       (\<lambda>_. oret conversations)))"

definition sm_list_sessions :: "user_pattern \<Rightarrow> session_map \<Rightarrow> pyval \<Rightarrow> string list res" where
  "sm_list_sessions pat s user_id =
     rbind (validated_user_id pat user_id)
       (\<lambda>u. if u \<noteq> sm_user s then Inl (ValueError ''user_id does not match this SessionMap'')
            else Inr (dict_keys (sm_sessions s)))"

text \<open>The calls that can change the object.\<close>

datatype sm_call =
    CreateSession pyval
  | AddConversation pyval pyval
  | DeleteSession pyval

fun sm_apply :: "sm_call \<Rightarrow> (session_map, string list) op" where
  "sm_apply (CreateSession v) = obind (sm_create_session v) (\<lambda>_. oret [])"
| "sm_apply (AddConversation v c) = obind (sm_add_conversation v c) (\<lambda>_. oret [])"
| "sm_apply (DeleteSession v) = sm_delete_session v"

section \<open>Invariant\<close>

definition sm_inv :: "session_map \<Rightarrow> bool" where
  "sm_inv s \<longleftrightarrow> owner_index (sm_sessions s) (sm_owners s)
     \<and> (\<forall>k \<in> dom (map_of (sm_sessions s)). k \<noteq> [] \<and> strip k = k)
     \<and> (\<forall>c \<in> dom (map_of (sm_owners s)). is_canonical c)"

lemma sm_create_session_spec:
  assumes "sm_inv s" "sm_create_session v s = (r, t)"
  shows "sm_inv t" and "r = Inl e \<Longrightarrow> t = s"
    and "r = Inr () \<Longrightarrow> \<exists>key. required_identifier v ''session_id'' = Inr key \<and> map_of (sm_sessions s) key = None
      \<and> t = s\<lparr>sm_sessions := AList.update key [] (sm_sessions s)\<rparr>"
  using assms
  by (auto simp: sm_create_session_def sm_inv_def obind_def update_conv' owner_index_new_key
      split: sum.splits if_splits dest!: required_identifier_strip)

lemma sm_add_conversation_spec:
  assumes inv: "sm_inv s" and run: "sm_add_conversation v c s = (r, t)"
  shows "sm_inv t" and "r = Inl e \<Longrightarrow> t = s"
proof -
  show "r = Inl e \<Longrightarrow> t = s"
    using run by (auto simp: sm_add_conversation_def obind_def split: sum.splits if_splits option.splits)
  show "sm_inv t"
  proof (cases "t = s")
    case False
    then obtain key child cs where k: "required_identifier v ''session_id'' = Inr key"
      and c: "required_uuid c ''conversation_id'' = Inr child"
      and cs: "map_of (sm_sessions s) key = Some cs" and own: "map_of (sm_owners s) child = None"
      and t: "t = s\<lparr>sm_sessions := AList.update key (cs @ [child]) (sm_sessions s),
                     sm_owners := AList.update child key (sm_owners s)\<rparr>"
      using run
      by (auto simp: sm_add_conversation_def obind_def dict_get_def split: sum.splits if_splits option.splits)
    have "owner_index (sm_sessions t) (sm_owners t)"
      using owner_index_add_child [OF _ cs own] inv by (simp add: t sm_inv_def)
    then show ?thesis
      using inv required_identifier_strip [OF k] required_uuid_canonical [OF c]
      by (simp add: sm_inv_def t update_conv')
  qed (use inv in simp)
qed

lemma sm_delete_session_spec:
  assumes inv: "sm_inv s" and k: "required_identifier v ''session_id'' = Inr key"
    and cs: "map_of (sm_sessions s) key = Some cs"
  shows "sm_delete_session v s =
    (Inr cs, s\<lparr>sm_sessions := AList.delete key (sm_sessions s),
               sm_owners := fold AList.delete cs (sm_owners s)\<rparr>)"
  using owner_index_pop(1) [of "sm_sessions s" "sm_owners s" key cs PStr] inv k cs
  by (simp add: sm_delete_session_def obind_def on_part_def dict_pop_eval(1) sm_inv_def)

lemma sm_delete_session_missing:
  assumes "required_identifier v ''session_id'' = Inl e
    \<or> (\<exists>key. required_identifier v ''session_id'' = Inr key \<and> map_of (sm_sessions s) key = None
        \<and> e = KeyError (PStr key))"
  shows "sm_delete_session v s = (Inl e, s)"
  using assms by (auto simp: sm_delete_session_def obind_def on_part_def dict_pop_eval(2))

lemma sm_delete_session_cases:
  assumes "sm_inv s" "sm_delete_session v s = (r, t)"
  obtains (missing) e where "r = Inl e" "t = s"
  | (gone) key cs where "required_identifier v ''session_id'' = Inr key"
      "map_of (sm_sessions s) key = Some cs" "r = Inr cs"
      "t = s\<lparr>sm_sessions := AList.delete key (sm_sessions s), sm_owners := fold AList.delete cs (sm_owners s)\<rparr>"
proof (cases "required_identifier v ''session_id''")
  case (Inl e)
  then show ?thesis
    using assms sm_delete_session_missing [of v e s] missing by auto
next
  case (Inr key)
  show ?thesis
  proof (cases "map_of (sm_sessions s) key")
    case None
    with Inr show ?thesis
      using assms sm_delete_session_missing [of v "KeyError (PStr key)" s] missing by auto
  next
    case (Some cs)
    from sm_delete_session_spec [OF assms(1) Inr Some] show ?thesis
      using assms(2) Inr Some gone by auto
  qed
qed

lemma sm_delete_session_keeps:
  assumes inv: "sm_inv s" and run: "sm_delete_session v s = (r, t)"
  shows "sm_inv t"
  using inv run
proof (cases rule: sm_delete_session_cases)
  case (missing e)
  with inv show ?thesis by simp
next
  case (gone key cs)
  have "owner_index (sm_sessions t) (sm_owners t)"
    using owner_index_pop(2) gone(2,4) inv by (fastforce simp: sm_inv_def)
  then show ?thesis
    using inv gone(4) by (simp add: sm_inv_def delete_conv' map_of_fold_delete dom_def)
qed

lemma sm_apply_keeps: "sm_inv s \<Longrightarrow> sm_apply c s = (r, t) \<Longrightarrow> sm_inv t"
proof (cases c)
  case (CreateSession v)
  assume "sm_inv s" "sm_apply c s = (r, t)"
  with CreateSession show ?thesis
    using sm_create_session_spec(1) [of s v] by (auto simp: obind_def split: prod.splits sum.splits)
next
  case (AddConversation v w)
  assume "sm_inv s" "sm_apply c s = (r, t)"
  with AddConversation show ?thesis
    using sm_add_conversation_spec(1) [of s v w] by (auto simp: obind_def split: prod.splits sum.splits)
next
  case (DeleteSession v)
  assume "sm_inv s" "sm_apply c s = (r, t)"
  with DeleteSession show ?thesis
    using sm_delete_session_keeps by auto
qed

lemma sm_apply_error: "sm_inv s \<Longrightarrow> sm_apply c s = (Inl e, t) \<Longrightarrow> t = s"
proof (cases c)
  case (CreateSession v)
  assume "sm_inv s" "sm_apply c s = (Inl e, t)"
  with CreateSession show ?thesis
    using sm_create_session_spec(2) [of s v] by (auto simp: obind_def split: prod.splits sum.splits)
next
  case (AddConversation v w)
  assume "sm_inv s" "sm_apply c s = (Inl e, t)"
  with AddConversation show ?thesis
    using sm_add_conversation_spec(2) [of s v w] by (auto simp: obind_def split: prod.splits sum.splits)
next
  case (DeleteSession v)
  assume "sm_inv s" "sm_apply c s = (Inl e, t)"
  with DeleteSession show ?thesis
    by (auto elim!: sm_delete_session_cases)
qed

interpretation sm: object_invariant sm_apply sm_inv
  by unfold_locales (rule sm_apply_keeps)

definition sm_initial :: "string \<Rightarrow> session_map" where
  "sm_initial u = \<lparr>sm_user = u, sm_sessions = [], sm_owners = []\<rparr>"

lemma sm_initial_inv: "sm_inv (sm_initial u)"
  by (simp add: sm_inv_def sm_initial_def)

text \<open>
  C28 (invariant). After any sequence of calls on a new \<open>SessionMap\<close>, whatever their arguments and
  whether they raise, the owner index is exactly the inverse of the sessions, session ids are
  stripped and not empty, conversation ids are canonical UUIDs, and no conversation is listed
  twice or by two sessions.
\<close>

theorem session_map_invariant:
  "sm_inv (run_calls sm_apply calls (sm_initial u))"
  by (rule sm.run_calls_keeps) (rule sm_initial_inv)

text \<open>
  Calls on a reachable \<open>SessionMap\<close> are atomic, and deleting a session never hits a
  missing entry of the owner index: it returns the session's conversations in order, after which
  exactly that session and its conversations are gone.
\<close>

theorem session_map_atomic:
  assumes "s = run_calls sm_apply calls (sm_initial u)"
  shows "(\<forall>c e t. sm_apply c s = (Inl e, t) \<longrightarrow> t = s)
    \<and> (\<forall>key cs. sm_get_conversations s (PStr key) = Inr cs \<longrightarrow>
        (\<exists>t. sm_delete_session (PStr key) s = (Inr cs, t)
          \<and> map_of (sm_sessions t) = (map_of (sm_sessions s))(strip key := None)
          \<and> (\<forall>c. map_of (sm_owners t) c = (if c \<in> set cs then None else map_of (sm_owners s) c))))"
proof -
  have inv: "sm_inv s"
    unfolding assms by (rule sm.run_calls_keeps) (rule sm_initial_inv)
  have "\<exists>t. sm_delete_session (PStr key) s = (Inr cs, t)
      \<and> map_of (sm_sessions t) = (map_of (sm_sessions s))(strip key := None)
      \<and> (\<forall>c. map_of (sm_owners t) c = (if c \<in> set cs then None else map_of (sm_owners s) c))"
    if g: "sm_get_conversations s (PStr key) = Inr cs" for key cs
  proof -
    have k: "required_identifier (PStr key) ''session_id'' = Inr (strip key)"
      and cs: "map_of (sm_sessions s) (strip key) = Some cs"
      using g by (auto simp: sm_get_conversations_def py_iff simp del: map_of_eq_Some_iff)
    show ?thesis
      by (simp add: sm_delete_session_spec [OF inv k cs] delete_conv' map_of_fold_delete)
  qed
  with sm_apply_error [OF inv] show ?thesis
    by blast
qed

theorem session_map_atomic_witness:
  "\<exists>t. sm_delete_session (PStr '' a'') (run_calls sm_apply [CreateSession (PStr ''a ''), DeleteSession (PStr ''b'')]
      (sm_initial ''u'')) = (Inr [], t)"
proof -
  let ?s = "run_calls sm_apply [CreateSession (PStr ''a ''), DeleteSession (PStr ''b'')] (sm_initial ''u'')"
  have "sm_get_conversations ?s (PStr '' a'') = Inr []"
    by (simp add: sm_get_conversations_def run_calls_def sm_create_session_def sm_delete_session_def
        sm_initial_def required_identifier_def obind_def on_part_def dict_pop_def dict_get_def py_eval)
  with session_map_atomic [OF refl, of calls u for calls u] show ?thesis
    by blast
qed

end
