(* ===== verification/Document_Map.thy ===== *)
theory Document_Map
  imports Map_Common
begin

text \<open>
  \<open>backend/mappings/document_map.py\<close>: the ordered paragraph texts of one user's documents in one
  collection. The attribute \<open>_documents\<close> is \<open>dm_documents\<close>; a method is an operation with the prefix
  \<open>dm_\<close>.
\<close>

section \<open>State and operations\<close>

type_synonym paragraphs = "(int, string) dict"

record document_map =
  dm_user :: string
  dm_collection :: string
  dm_documents :: "(string, paragraphs) dict"

definition dm_new :: "user_pattern \<Rightarrow> pyval \<Rightarrow> pyval \<Rightarrow> document_map res" where
  "dm_new pat user_id collection_type =
     rbind (validated_user_id pat user_id) (\<lambda>u.
     rbind (validated_document_collection_type collection_type) (\<lambda>c.
     Inr \<lparr>dm_user = u, dm_collection = c, dm_documents = []\<rparr>))"

definition dm_create_document :: "pyval \<Rightarrow> (document_map, unit) op" where
  "dm_create_document document_id =
     obind (olift (required_uuid document_id ''document_id'')) (\<lambda>key s.
       if map_of (dm_documents s) key \<noteq> None
       then (Inl (ValueError (''document '' @ py_repr key @ '' already exists'')), s)
       else (Inr (), s\<lparr>dm_documents := AList.update key [(1, [])] (dm_documents s)\<rparr>))"

definition dm_get_paragraph_data :: "document_map \<Rightarrow> pyval \<Rightarrow> paragraphs res" where
  "dm_get_paragraph_data s document_id =
     rbind (required_uuid document_id ''document_id'') (\<lambda>key. dict_get PStr (dm_documents s) key)"

definition dm_get_paragraphs :: "document_map \<Rightarrow> pyval \<Rightarrow> int list res" where
  "dm_get_paragraphs s document_id =
     rbind (required_uuid document_id ''document_id'') (\<lambda>key.
     rbind (dict_get PStr (dm_documents s) key) (\<lambda>ps. Inr (dict_keys ps)))"

definition dm_get_full_text :: "document_map \<Rightarrow> pyval \<Rightarrow> string res" where
  "dm_get_full_text s document_id =
     rbind (required_uuid document_id ''document_id'') (\<lambda>key.
     rbind (dict_get PStr (dm_documents s) key) (\<lambda>ps. Inr (concat (dict_values ps))))"

definition dm_list_documents :: "document_map \<Rightarrow> string list" where
  "dm_list_documents s = dict_keys (dm_documents s)"

text \<open>
  \<open>_validated_replacement\<close>: the loop that fills \<open>validated\<close>, then the check that the keys are
  \<open>1 .. N\<close>, then the copy sorted by key.
\<close>

fun dm_validated_items :: "paragraphs \<Rightarrow> (pyval \<times> pyval) list \<Rightarrow> paragraphs res" where
  "dm_validated_items validated [] = Inr validated"
| "dm_validated_items validated ((paragraph_id, text) # items) =
     rbind (positive_paragraph_id paragraph_id) (\<lambda>paragraph.
       case text of
         PStr t \<Rightarrow> dm_validated_items (AList.update paragraph t validated) items
       | _ \<Rightarrow> Inl (TypeError ''paragraph text must be a string''))"

definition dm_validated_replacement :: "pyval \<Rightarrow> paragraphs res" where
  "dm_validated_replacement data =
     (case data of
        PDict items \<Rightarrow>
          rbind (dm_validated_items [] items) (\<lambda>validated.
            if validated = [] then Inr [(1, [])]
            else if \<not> sequential_ids (dict_keys validated)
            then Inl (ValueError ''paragraph IDs must be sequential from 1 through N'')
            else Inr (sort_key fst validated))
      | _ \<Rightarrow> Inl (TypeError ''new_paragraph_data must be a mapping''))"

definition dm_update_paragraphs :: "pyval \<Rightarrow> pyval \<Rightarrow> (document_map, unit) op" where
  "dm_update_paragraphs document_id data =
     obind (olift (required_uuid document_id ''document_id'')) (\<lambda>key s.
       if map_of (dm_documents s) key = None then (Inl (KeyError (PStr key)), s)
       else (case dm_validated_replacement data of
               Inl e \<Rightarrow> (Inl e, s)
             | Inr ps \<Rightarrow> (Inr (), s\<lparr>dm_documents := AList.update key ps (dm_documents s)\<rparr>)))"

definition dm_validate_update :: "document_map \<Rightarrow> pyval \<Rightarrow> pyval \<Rightarrow> unit res" where
  "dm_validate_update s document_id data =
     rbind (required_uuid document_id ''document_id'') (\<lambda>key.
       if map_of (dm_documents s) key = None then Inl (KeyError (PStr key))
       else rbind (dm_validated_replacement data) (\<lambda>_. Inr ()))"

definition dm_restore_document :: "pyval \<Rightarrow> pyval \<Rightarrow> (document_map, unit) op" where
  "dm_restore_document document_id data =
     obind (olift (required_uuid document_id ''document_id'')) (\<lambda>key.
     obind (olift (dm_validated_replacement data)) (\<lambda>ps.
     omodify (\<lambda>s. s\<lparr>dm_documents := AList.update key ps (dm_documents s)\<rparr>)))"

definition dm_delete_document :: "pyval \<Rightarrow> (document_map, unit) op" where
  "dm_delete_document document_id =
     obind (olift (required_uuid document_id ''document_id'')) (\<lambda>key.
       on_part dm_documents (\<lambda>d s. s\<lparr>dm_documents := d\<rparr>) (dict_del PStr key))"

text \<open>The value a caller passes for paragraphs: a mapping from integers to strings.\<close>

definition paragraph_value :: "paragraphs \<Rightarrow> pyval" where
  "paragraph_value ps = PDict (map (\<lambda>(i, t). (PInt i, PStr t)) ps)"

text \<open>Paragraphs numbered \<open>1 .. N\<close> in order, from their texts.\<close>

definition numbered :: "string list \<Rightarrow> paragraphs" where
  "numbered ts = zip [1..int (length ts)] ts"

datatype dm_call =
    CreateDocument pyval
  | UpdateParagraphs pyval pyval
  | RestoreDocument pyval pyval
  | DeleteDocument pyval

fun dm_apply :: "dm_call \<Rightarrow> (document_map, unit) op" where
  "dm_apply (CreateDocument d) = dm_create_document d"
| "dm_apply (UpdateParagraphs d p) = dm_update_paragraphs d p"
| "dm_apply (RestoreDocument d p) = dm_restore_document d p"
| "dm_apply (DeleteDocument d) = dm_delete_document d"

section \<open>Sequential paragraphs\<close>

definition paragraphs_ok :: "paragraphs \<Rightarrow> bool" where
  "paragraphs_ok ps \<longleftrightarrow> ps \<noteq> [] \<and> map fst ps = [1..int (length ps)]"

lemma length_numbered [simp]: "length (numbered ts) = length ts"
  by (simp add: numbered_def)

lemma map_snd_numbered [simp]: "map snd (numbered ts) = ts"
  by (simp add: numbered_def)

lemma map_fst_numbered [simp]: "map fst (numbered ts) = [1..int (length ts)]"
  by (simp add: numbered_def)

lemma paragraphs_ok_numbered: "paragraphs_ok ps \<longleftrightarrow> ps \<noteq> [] \<and> ps = numbered (map snd ps)"
proof
  assume a: "paragraphs_ok ps"
  have "zip (map fst ps) (map snd ps) = ps"
    by (rule zip_map_fst_snd)
  with a have "numbered (map snd ps) = ps"
    by (simp add: paragraphs_ok_def numbered_def)
  with a show "ps \<noteq> [] \<and> ps = numbered (map snd ps)"
    by (simp add: paragraphs_ok_def)
next
  assume a: "ps \<noteq> [] \<and> ps = numbered (map snd ps)"
  then have "map fst ps = [1..int (length (map snd ps))]"
    by (metis map_fst_numbered)
  with a show "paragraphs_ok ps"
    by (simp add: paragraphs_ok_def)
qed

lemma numbered_ok: "ts \<noteq> [] \<Longrightarrow> paragraphs_ok (numbered ts)"
  unfolding paragraphs_ok_def by (metis length_0_conv length_numbered map_fst_numbered)

lemma dm_validated_items_value:
  assumes "\<forall>p \<in> set ps. 0 < fst p" and "distinct (map fst (acc @ ps))"
  shows "dm_validated_items acc (map (\<lambda>(i, t). (PInt i, PStr t)) ps) = Inr (acc @ ps)"
  using assms
proof (induction ps arbitrary: acc)
  case Nil
  then show ?case by simp
next
  case (Cons p ps)
  obtain i t where p: "p = (i, t)"
    by (cases p)
  have "i \<notin> fst ` set acc"
    using Cons.prems(2) by (auto simp: p)
  then have "AList.update i t acc = acc @ [(i, t)]"
    by (rule update_new)
  then show ?case
    using Cons.IH [of "acc @ [(i, t)]"] Cons.prems by (simp add: p positive_paragraph_id_def)
qed

lemma dm_validated_items_keys:
  "dm_validated_items acc items = Inr ps \<Longrightarrow> distinct (map fst acc) \<Longrightarrow> distinct (map fst ps)"
proof (induction items arbitrary: acc)
  case (Cons it items)
  obtain p t where it: "it = (p, t)"
    by (cases it)
  show ?case
  proof (cases t)
    case (PStr x)
    then show ?thesis
      using Cons by (auto simp: it rbind_Inr_iff distinct_update)
  qed (use Cons.prems it in \<open>auto simp: rbind_Inr_iff\<close>)
qed simp

lemma dm_validated_replacement_ok:
  assumes "dm_validated_replacement data = Inr ps"
  shows "paragraphs_ok ps"
proof (cases data)
  case (PDict items)
  then obtain v where v: "dm_validated_items [] items = Inr v"
    and ps: "if v = [] then ps = [(1, [])] else sequential_ids (dict_keys v) \<and> ps = sort_key fst v"
    using assms by (auto simp: dm_validated_replacement_def rbind_Inr_iff split: if_splits)
  show ?thesis
  proof (cases "v = []")
    case True
    with ps show ?thesis
      by (simp add: paragraphs_ok_def)
  next
    case False
    then have "length (sort_key fst v) \<noteq> 0"
      by simp
    then have "sort_key fst v \<noteq> []"
      by (metis list.size(3))
    with False ps show ?thesis
      using sequential_sorted [OF dm_validated_items_keys [OF v]]
      by (simp add: paragraphs_ok_def dict_keys_def)
  qed
qed (use assms in \<open>auto simp: dm_validated_replacement_def\<close>)

lemma paragraphs_ok_keys:
  assumes "paragraphs_ok ps"
  shows "distinct (map fst ps)" "sorted (map fst ps)" "sequential_ids (map fst ps)" "ps \<noteq> []"
    "p \<in> set ps \<Longrightarrow> 0 < fst p"
proof -
  have k: "map fst ps = [1..int (length ps)]" and ne: "ps \<noteq> []"
    using assms by (simp_all add: paragraphs_ok_def)
  show "distinct (map fst ps)" "sorted (map fst ps)" "sequential_ids (map fst ps)" "ps \<noteq> []"
    using ne unfolding k sequential_ids_def by simp_all
  assume "p \<in> set ps"
  then have "fst p \<in> set (map fst ps)"
    by simp
  then show "0 < fst p"
    unfolding k by simp
qed

lemma dm_validated_replacement_value:
  assumes "paragraphs_ok ps"
  shows "dm_validated_replacement (paragraph_value ps) = Inr ps"
proof -
  note k = paragraphs_ok_keys [OF assms]
  have "sort_key fst ps = ps"
    using k(2) by (rule sort_key_id_if_sorted)
  then show ?thesis
    using dm_validated_items_value [of ps "[]"] k
    by (simp add: dm_validated_replacement_def paragraph_value_def dict_keys_def)
qed

section \<open>Invariant and round trips\<close>

definition dm_inv :: "document_map \<Rightarrow> bool" where
  "dm_inv s \<longleftrightarrow> distinct (dm_list_documents s)
     \<and> (\<forall>k ps. map_of (dm_documents s) k = Some ps \<longrightarrow> is_canonical k \<and> paragraphs_ok ps)"

lemma dm_inv_update:
  "dm_inv s \<Longrightarrow> is_canonical k \<Longrightarrow> paragraphs_ok ps \<Longrightarrow>
   dm_inv (s\<lparr>dm_documents := AList.update k ps (dm_documents s)\<rparr>)"
  by (simp add: dm_inv_def dm_list_documents_def dict_keys_def distinct_update update_conv'
      del: map_of_eq_Some_iff)

lemma dm_inv_delete: "dm_inv s \<Longrightarrow> dm_inv (s\<lparr>dm_documents := AList.delete k (dm_documents s)\<rparr>)"
  by (simp add: dm_inv_def dm_list_documents_def dict_keys_def distinct_delete delete_conv'
      del: map_of_eq_Some_iff)

lemma dm_apply_keeps: "dm_inv s \<Longrightarrow> dm_apply c s = (r, t) \<Longrightarrow> dm_inv t"
  by (cases c)
    (auto simp: dm_create_document_def dm_update_paragraphs_def dm_restore_document_def
      dm_delete_document_def obind_def on_part_def dict_del_def paragraphs_ok_def
      intro!: dm_inv_update dm_inv_delete dest: required_uuid_canonical dm_validated_replacement_ok
      split: sum.splits if_splits option.splits)

lemma dm_apply_error: "dm_apply c s = (Inl e, t) \<Longrightarrow> t = s"
  by (cases c)
    (auto simp: dm_create_document_def dm_update_paragraphs_def dm_restore_document_def
      dm_delete_document_def obind_def on_part_def dict_del_def split: sum.splits if_splits option.splits)

interpretation dm: object_invariant dm_apply dm_inv
  by unfold_locales (rule dm_apply_keeps)

definition dm_initial :: "string \<Rightarrow> string \<Rightarrow> document_map" where
  "dm_initial u c = \<lparr>dm_user = u, dm_collection = c, dm_documents = []\<rparr>"

lemma dm_initial_inv: "dm_inv (dm_initial u c)"
  by (simp add: dm_inv_def dm_initial_def dm_list_documents_def dict_keys_def)

lemma dm_get_Inr [py_iff]:
  "dm_get_paragraph_data s v = Inr ps \<longleftrightarrow>
     (\<exists>k. required_uuid v ''document_id'' = Inr k \<and> map_of (dm_documents s) k = Some ps)"
  by (simp add: dm_get_paragraph_data_def rbind_Inr_iff dict_get_iff)

lemma dm_get_value:
  "is_canonical k \<Longrightarrow> dm_get_paragraph_data s (PStr k) = dict_get PStr (dm_documents s) k"
  by (simp add: dm_get_paragraph_data_def required_uuid_of_canonical)

lemma dm_validate_update_iff:
  "dm_validate_update s d p = Inr () \<longleftrightarrow> fst (dm_update_paragraphs d p s) = Inr ()"
  by (auto simp: dm_validate_update_def dm_update_paragraphs_def obind_def split: sum.splits)

lemma dm_update_value:
  assumes "is_canonical k" "paragraphs_ok ps" "map_of (dm_documents s) k \<noteq> None"
  shows "dm_update_paragraphs (PStr k) (paragraph_value ps) s
    = (Inr (), s\<lparr>dm_documents := AList.update k ps (dm_documents s)\<rparr>)"
  using assms by (simp add: dm_update_paragraphs_def obind_def required_uuid_of_canonical
      dm_validated_replacement_value)

lemma dm_restore_value:
  assumes "is_canonical k" "paragraphs_ok ps"
  shows "dm_restore_document (PStr k) (paragraph_value ps) s
    = (Inr (), s\<lparr>dm_documents := AList.update k ps (dm_documents s)\<rparr>)"
  using assms by (simp add: dm_restore_document_def obind_def required_uuid_of_canonical
      dm_validated_replacement_value)

text \<open>
  C27 (invariant). After any sequence of calls on a new \<open>DocumentMap\<close>, whatever their arguments and
  whether they raise, every document has a canonical UUID and paragraphs numbered \<open>1 .. N\<close> with
  \<open>N \<ge> 1\<close>, and a call that raises has changed nothing.
\<close>

theorem document_map_invariant:
  assumes "s = run_calls dm_apply calls (dm_initial u c)"
  shows "(\<forall>k ps. dm_get_paragraph_data s (PStr k) = Inr ps \<longrightarrow> ps \<noteq> [] \<and> ps = numbered (map snd ps))
    \<and> (\<forall>call e t. dm_apply call s = (Inl e, t) \<longrightarrow> t = s)"
proof -
  have inv: "dm_inv s"
    unfolding assms by (rule dm.run_calls_keeps) (rule dm_initial_inv)
  have "ps \<noteq> [] \<and> ps = numbered (map snd ps)" if q: "dm_get_paragraph_data s (PStr k) = Inr ps" for k ps
  proof -
    obtain key where "map_of (dm_documents s) key = Some ps"
      using q unfolding dm_get_Inr by blast
    with inv have "paragraphs_ok ps"
      by (simp add: dm_inv_def del: map_of_eq_Some_iff)
    then show ?thesis
      by (rule paragraphs_ok_numbered [THEN iffD1])
  qed
  then show ?thesis
    using dm_apply_error by blast
qed

text \<open>
  Storing non-empty paragraph texts for an existing document, under any spelling of
  its UUID, makes them its paragraphs and their concatenation its full text, leaves every other
  document as it was, and putting the previous snapshot back, even after a deletion, gives every
  document its previous paragraphs.
\<close>

theorem document_map_roundtrip:
  assumes "s = run_calls dm_apply calls (dm_initial u c)"
    and doc: "dm_get_paragraph_data s (PStr d) = Inr before" and "ts \<noteq> []"
  shows "\<exists>t. dm_update_paragraphs (PStr d) (paragraph_value (numbered ts)) s = (Inr (), t)
    \<and> dm_get_paragraphs t (PStr d) = Inr [1..int (length ts)]
    \<and> dm_get_full_text t (PStr d) = Inr (concat ts)
    \<and> (\<forall>v. required_uuid v ''document_id'' \<noteq> required_uuid (PStr d) ''document_id'' \<longrightarrow>
          dm_get_paragraph_data t v = dm_get_paragraph_data s v)
    \<and> (\<forall>v. dm_get_paragraph_data (snd (dm_restore_document (PStr d) (paragraph_value before) t)) v
          = dm_get_paragraph_data s v)
    \<and> (\<forall>v. dm_get_paragraph_data (snd (dm_restore_document (PStr d) (paragraph_value before)
            (snd (dm_delete_document (PStr d) t)))) v = dm_get_paragraph_data s v)"
proof -
  have inv: "dm_inv s"
    unfolding assms(1) by (rule dm.run_calls_keeps) (rule dm_initial_inv)
  obtain k where k: "required_uuid (PStr d) ''document_id'' = Inr k"
    and b: "map_of (dm_documents s) k = Some before"
    using doc unfolding dm_get_Inr by blast
  have ok: "paragraphs_ok before"
    using inv b by (simp add: dm_inv_def del: map_of_eq_Some_iff)
  let ?n = "numbered ts"
  let ?t = "s\<lparr>dm_documents := AList.update k ?n (dm_documents s)\<rparr>"
  have nv: "dm_validated_replacement (paragraph_value ?n) = Inr ?n"
    "dm_validated_replacement (paragraph_value before) = Inr before"
    using numbered_ok [OF \<open>ts \<noteq> []\<close>] ok by (simp_all add: dm_validated_replacement_value)
  have up: "dm_update_paragraphs (PStr d) (paragraph_value ?n) s = (Inr (), ?t)"
    using b by (simp add: dm_update_paragraphs_def obind_def k nv)
  have del: "snd (dm_delete_document (PStr d) ?t)
    = s\<lparr>dm_documents := AList.delete k (AList.update k ?n (dm_documents s))\<rparr>"
    by (simp add: dm_delete_document_def obind_def k on_part_def dict_del_def update_conv')
  have res: "snd (dm_restore_document (PStr d) (paragraph_value before) x)
    = x\<lparr>dm_documents := AList.update k before (dm_documents x)\<rparr>" for x
    by (simp add: dm_restore_document_def obind_def k nv)
  have same: "dm_get_paragraph_data x v = dm_get_paragraph_data s v"
    if "map_of (dm_documents x) = map_of (dm_documents s)" for x v
    using that by (simp add: dm_get_paragraph_data_def dict_get_def)
  have r1: "map_of (AList.update k before (AList.update k ?n (dm_documents s))) = map_of (dm_documents s)"
    by (rule dict.put_restores) (rule b)
  have r2: "map_of (AList.update k before (AList.delete k (AList.update k ?n (dm_documents s))))
    = map_of (dm_documents s)"
    using b by (auto simp: update_conv' delete_conv')
  have other: "dm_get_paragraph_data ?t v = dm_get_paragraph_data s v"
    if "required_uuid v ''document_id'' \<noteq> Inr k" for v
    using that by (cases "required_uuid v ''document_id''")
      (auto simp: dm_get_paragraph_data_def dict_get_def update_conv')
  have g: "dm_get_paragraphs ?t (PStr d) = Inr [1..int (length ts)]"
    "dm_get_full_text ?t (PStr d) = Inr (concat ts)"
    by (simp_all add: dm_get_paragraphs_def dm_get_full_text_def k dict_get_def update_conv'
        dict_keys_def dict_values_def)
  have undo1: "dm_get_paragraph_data (snd (dm_restore_document (PStr d) (paragraph_value before) ?t)) v
      = dm_get_paragraph_data s v" for v
    unfolding res by (rule same) (use b in \<open>simp add: update_conv' fun_upd_idem\<close>)
  have undo2: "dm_get_paragraph_data (snd (dm_restore_document (PStr d) (paragraph_value before)
       (snd (dm_delete_document (PStr d) ?t)))) v = dm_get_paragraph_data s v" for v
    unfolding del res by (rule same) (simp add: r2)
  show ?thesis
    unfolding k using up g other undo1 undo2 by (intro exI [of _ ?t]) blast
qed

section \<open>A concrete document\<close>

text \<open>A document created under its canonical UUID.\<close>

lemma created_example:
  "dm_get_paragraph_data
     (run_calls dm_apply [CreateDocument (PStr (uuid_render 10))] (dm_initial u c)) (PStr (uuid_render 10))
   = Inr [(1, [])]"
  using required_uuid_of_canonical [OF uuid_render_canonical, of 10]
  by (simp add: run_calls_def dm_create_document_def dm_initial_def obind_def
      dm_get_paragraph_data_def dict_get_def)

theorem document_map_invariant_witness:
  "[(1, [])] = numbered (map snd [(1 :: int, [])])"
  using document_map_invariant [OF refl, THEN conjunct1, rule_format, OF created_example]
  by simp

theorem document_map_roundtrip_witness:
  "\<exists>t. dm_get_full_text t (PStr (uuid_render 10)) = Inr ''abc''"
proof -
  have "concat [''ab'', ''c''] = ''abc''" "[''ab'', ''c''] \<noteq> []"
    by simp_all
  then show ?thesis
    using document_map_roundtrip [OF refl created_example, of "[''ab'', ''c'']"] by metis
qed

end
