(* ===== verification/Paragraph_Map.thy ===== *)
theory Paragraph_Map
  imports Map_Common
begin

text \<open>
  \<open>backend/mappings/paragraph_map.py\<close>: the ordered chunk ids of every paragraph of one user's
  documents in one collection, with the index from a chunk to its paragraph. The attribute
  \<open>_paragraphs\<close> is \<open>pm_paragraphs\<close> and \<open>_chunk_owners\<close> is \<open>pm_owners\<close>; a method is an operation
  with the prefix \<open>pm_\<close>.
\<close>

declare split_paired_All [simp del] split_paired_Ex [simp del]

section \<open>State and operations\<close>

type_synonym paragraph_key = "string \<times> int"
type_synonym chunk_lists = "(int, string list) dict"

record paragraph_map =
  pm_user :: string
  pm_collection :: string
  pm_paragraphs :: "(paragraph_key, string list) dict"
  pm_owners :: "(string, paragraph_key) dict"

definition key_value :: "paragraph_key \<Rightarrow> pyval" where
  "key_value k = PTuple [PStr (fst k), PInt (snd k)]"

definition key_repr :: "paragraph_key \<Rightarrow> string" where
  "key_repr k = ''('' @ py_repr (fst k) @ '', '' @ show_int (snd k) @ '')''"

definition pm_new :: "user_pattern \<Rightarrow> pyval \<Rightarrow> pyval \<Rightarrow> paragraph_map res" where
  "pm_new pat user_id collection_type =
     rbind (validated_user_id pat user_id) (\<lambda>u.
     rbind (validated_document_collection_type collection_type) (\<lambda>c.
     Inr \<lparr>pm_user = u, pm_collection = c, pm_paragraphs = [], pm_owners = []\<rparr>))"

definition validated_paragraph_key :: "pyval \<Rightarrow> paragraph_key res" where
  "validated_paragraph_key v =
     (case v of
        PTuple [d, p] \<Rightarrow>
          rbind (required_uuid d ''document_id'') (\<lambda>document_id.
          rbind (positive_paragraph_id p) (\<lambda>paragraph_id. Inr (document_id, paragraph_id)))
      | _ \<Rightarrow> Inl (TypeError ''paragraph_key must be a (document_id, paragraph_id) tuple''))"

text \<open>The scan for a chunk that belongs elsewhere: the first one decides the exception.\<close>

fun pm_foreign_owner :: "(paragraph_key \<Rightarrow> bool) \<Rightarrow> paragraph_map \<Rightarrow> string list \<Rightarrow> unit res" where
  "pm_foreign_owner foreign s [] = Inr ()"
| "pm_foreign_owner foreign s (chunk # chunks) =
     (case map_of (pm_owners s) chunk of
        Some owner \<Rightarrow>
          if foreign owner
          then Inl (ValueError (''chunk '' @ py_repr chunk @ '' already belongs to paragraph '' @ key_repr owner))
          else pm_foreign_owner foreign s chunks
      | None \<Rightarrow> pm_foreign_owner foreign s chunks)"

definition pm_on_paragraphs :: "((paragraph_key, string list) dict, 'a) op \<Rightarrow> (paragraph_map, 'a) op" where
  "pm_on_paragraphs = on_part pm_paragraphs (\<lambda>d s. s\<lparr>pm_paragraphs := d\<rparr>)"

definition pm_on_owners :: "((string, paragraph_key) dict, 'a) op \<Rightarrow> (paragraph_map, 'a) op" where
  "pm_on_owners = on_part pm_owners (\<lambda>d s. s\<lparr>pm_owners := d\<rparr>)"

definition pm_own :: "paragraph_key \<Rightarrow> string list \<Rightarrow> (string, paragraph_key) dict \<Rightarrow> (string, paragraph_key) dict" where
  "pm_own key chunks owners = fold (\<lambda>c. AList.update c key) chunks owners"

definition pm_validated_chunks :: "pyval \<Rightarrow> string \<Rightarrow> string list res" where
  "pm_validated_chunks chunk_ids message =
     (case chunk_ids of
        PList items \<Rightarrow>
          rbind (rmap (\<lambda>item. required_uuid item ''chunk_id'') items) (\<lambda>validated.
            if \<not> distinct validated then Inl (ValueError ''chunk_ids must not contain duplicates'')
            else Inr validated)
      | _ \<Rightarrow> Inl (TypeError message))"

definition pm_set_chunks :: "pyval \<Rightarrow> pyval \<Rightarrow> (paragraph_map, unit) op" where
  "pm_set_chunks paragraph_key chunk_ids =
     obind (olift (validated_paragraph_key paragraph_key)) (\<lambda>key.
     obind (olift (pm_validated_chunks chunk_ids ''chunk_ids must be a list'')) (\<lambda>validated.
     obind (\<lambda>s. (pm_foreign_owner (\<lambda>owner. owner \<noteq> key) s validated, s)) (\<lambda>_ s.
       obind (pm_on_owners (ofor (filter (\<lambda>c. c \<notin> set validated)
                (case map_of (pm_paragraphs s) key of None \<Rightarrow> [] | Some previous \<Rightarrow> previous))
                (dict_del PStr)))
         (\<lambda>_. omodify (\<lambda>s. s\<lparr>pm_paragraphs := AList.update key validated (pm_paragraphs s),
                             pm_owners := pm_own key validated (pm_owners s)\<rparr>)) s)))"

definition pm_get_chunks :: "paragraph_map \<Rightarrow> pyval \<Rightarrow> string list res" where
  "pm_get_chunks s paragraph_key =
     rbind (validated_paragraph_key paragraph_key) (\<lambda>key. dict_get key_value (pm_paragraphs s) key)"

definition pm_get_document_chunks :: "paragraph_map \<Rightarrow> pyval \<Rightarrow> chunk_lists res" where
  "pm_get_document_chunks s document_id =
     rbind (required_uuid document_id ''document_id'') (\<lambda>document.
     rmap (\<lambda>key. rbind (dict_get key_value (pm_paragraphs s) key) (\<lambda>cs. Inr (snd key, cs)))
       (filter (\<lambda>key. fst key = document) (sort (dict_keys (pm_paragraphs s)))))"

text \<open>
  \<open>_validated_document_replacement\<close>: the loop over the paragraphs with the set of chunks seen so far
  (kept as a list in the order of insertion), the check of the paragraph ids, and the check that no
  chunk belongs to another document. The iteration order of a Python set is unspecified; it decides
  only which offending chunk the message names.
\<close>

fun pm_replacement_items ::
    "chunk_lists \<Rightarrow> string list \<Rightarrow> (pyval \<times> pyval) list \<Rightarrow> (chunk_lists \<times> string list) res" where
  "pm_replacement_items validated seen [] = Inr (validated, seen)"
| "pm_replacement_items validated seen ((raw_paragraph_id, raw_chunk_ids) # items) =
     rbind (positive_paragraph_id raw_paragraph_id) (\<lambda>paragraph_id.
     rbind (pm_validated_chunks raw_chunk_ids ''each paragraph chunk collection must be a list'') (\<lambda>chunk_ids.
       if set seen \<inter> set chunk_ids \<noteq> {}
       then Inl (ValueError ''a chunk_id cannot belong to multiple paragraphs'')
       else pm_replacement_items (AList.update paragraph_id chunk_ids validated) (seen @ chunk_ids) items))"

definition pm_validated_replacement :: "paragraph_map \<Rightarrow> string \<Rightarrow> pyval \<Rightarrow> chunk_lists res" where
  "pm_validated_replacement s document data =
     (case data of
        PDict items \<Rightarrow>
          rbind (pm_replacement_items [] [] items) (\<lambda>(validated, seen).
          rbind (if validated = [] then Inr [(1, [])]
                 else if \<not> sequential_ids (dict_keys validated)
                 then Inl (ValueError ''paragraph IDs must be sequential from 1 through N'')
                 else Inr validated) (\<lambda>validated.
          rbind (pm_foreign_owner (\<lambda>owner. fst owner \<noteq> document) s seen) (\<lambda>_.
          Inr (sort_key fst validated))))
      | _ \<Rightarrow> Inl (TypeError ''paragraph_chunks must be a mapping''))"

definition pm_validate_replacement :: "paragraph_map \<Rightarrow> pyval \<Rightarrow> pyval \<Rightarrow> unit res" where
  "pm_validate_replacement s document_id data =
     rbind (required_uuid document_id ''document_id'') (\<lambda>document.
     rbind (pm_validated_replacement s document data) (\<lambda>_. Inr ()))"

text \<open>\<open>for chunk_id in self._paragraphs.pop(key): del self._chunk_owners[chunk_id]\<close>.\<close>

definition pm_drop :: "paragraph_key \<Rightarrow> (paragraph_map, unit) op" where
  "pm_drop key =
     obind (pm_on_paragraphs (dict_pop key_value key)) (\<lambda>chunks. pm_on_owners (ofor chunks (dict_del PStr)))"

definition pm_add :: "string \<Rightarrow> int \<times> string list \<Rightarrow> (paragraph_map, unit) op" where
  "pm_add document p =
     omodify (\<lambda>s. s\<lparr>pm_paragraphs := AList.update (document, fst p) (snd p) (pm_paragraphs s),
                    pm_owners := pm_own (document, fst p) (snd p) (pm_owners s)\<rparr>)"

definition pm_document_keys :: "paragraph_map \<Rightarrow> string \<Rightarrow> paragraph_key list" where
  "pm_document_keys s document = filter (\<lambda>key. fst key = document) (dict_keys (pm_paragraphs s))"

definition pm_replace_document :: "pyval \<Rightarrow> pyval \<Rightarrow> (paragraph_map, unit) op" where
  "pm_replace_document document_id data =
     obind (olift (required_uuid document_id ''document_id'')) (\<lambda>document.
     obind (\<lambda>s. (pm_validated_replacement s document data, s)) (\<lambda>validated s.
       obind (ofor (pm_document_keys s document) pm_drop)
         (\<lambda>_. ofor (sort_key fst validated) (pm_add document)) s))"

definition pm_delete_paragraph :: "pyval \<Rightarrow> (paragraph_map, unit) op" where
  "pm_delete_paragraph paragraph_key = obind (olift (validated_paragraph_key paragraph_key)) pm_drop"

definition pm_delete_document :: "pyval \<Rightarrow> (paragraph_map, unit) op" where
  "pm_delete_document document_id =
     obind (olift (required_uuid document_id ''document_id''))
       (\<lambda>document s. ofor (pm_document_keys s document) pm_drop s)"

text \<open>The value a caller passes for the chunk ids of paragraphs.\<close>

definition chunks_value :: "chunk_lists \<Rightarrow> pyval" where
  "chunks_value m = PDict (map (\<lambda>(i, cs). (PInt i, PList (map PStr cs))) m)"

datatype pm_call =
    SetChunks pyval pyval
  | ReplaceDocument pyval pyval
  | DeleteParagraph pyval
  | DeleteDocumentChunks pyval

fun pm_apply :: "pm_call \<Rightarrow> (paragraph_map, unit) op" where
  "pm_apply (SetChunks k cs) = pm_set_chunks k cs"
| "pm_apply (ReplaceDocument d p) = pm_replace_document d p"
| "pm_apply (DeleteParagraph k) = pm_delete_paragraph k"
| "pm_apply (DeleteDocumentChunks d) = pm_delete_document d"

section \<open>Invariant\<close>

definition chunk_list_ok :: "string list \<Rightarrow> bool" where
  "chunk_list_ok cs \<longleftrightarrow> distinct cs \<and> list_all is_canonical cs"

definition pm_inv :: "paragraph_map \<Rightarrow> bool" where
  "pm_inv s \<longleftrightarrow> owner_index (pm_paragraphs s) (pm_owners s)
     \<and> (\<forall>k cs. map_of (pm_paragraphs s) k = Some cs \<longrightarrow>
          is_canonical (fst k) \<and> 0 < snd k \<and> chunk_list_ok cs)"

lemma pm_invD:
  assumes "pm_inv s"
  shows "distinct (map fst (pm_paragraphs s))" "distinct (map fst (pm_owners s))"
    "inverse_maps (map_of (pm_paragraphs s)) (map_of (pm_owners s))"
    "map_of (pm_paragraphs s) k = Some cs \<Longrightarrow> is_canonical (fst k) \<and> 0 < snd k \<and> chunk_list_ok cs"
  using assms by (auto simp: pm_inv_def owner_index_def)

lemma map_of_pm_own [simp]: "map_of (pm_own k cs w) = (\<lambda>c. if c \<in> set cs then Some k else map_of w c)"
  unfolding pm_own_def by (induction cs arbitrary: w) (auto simp: update_conv')

lemma distinct_pm_own: "distinct (map fst w) \<Longrightarrow> distinct (map fst (pm_own k cs w))"
  unfolding pm_own_def by (induction cs arbitrary: w) (auto simp: distinct_update)

lemma pm_foreign_owner_Inr [py_iff]:
  "pm_foreign_owner p s cs = Inr u \<longleftrightarrow> (\<forall>c \<in> set cs. \<forall>k. map_of (pm_owners s) c = Some k \<longrightarrow> \<not> p k)"
  by (induction cs) (auto split: option.splits)

lemma validated_paragraph_key_Inr:
  "validated_paragraph_key v = Inr k \<Longrightarrow> is_canonical (fst k) \<and> 0 < snd k"
  by (auto simp: validated_paragraph_key_def rbind_Inr_iff positive_paragraph_id_Inr
      dest: required_uuid_canonical split: pyval.splits list.splits)

lemma pm_validated_chunks_ok: "pm_validated_chunks v m = Inr cs \<Longrightarrow> chunk_list_ok cs"
  by (auto simp: pm_validated_chunks_def rbind_Inr_iff chunk_list_ok_def list_all_iff
      dest!: rmap_Inr_set dest: required_uuid_canonical split: pyval.splits if_splits)

text \<open>Giving a paragraph new chunks keeps the invariant when no chunk belongs elsewhere.\<close>

lemma pm_inv_put:
  assumes inv: "pm_inv s" and k: "is_canonical (fst k)" "0 < snd k" and cs: "chunk_list_ok cs"
    and own: "\<And>c. c \<in> set cs \<Longrightarrow> map_of (pm_owners s) c = None \<or> map_of (pm_owners s) c = Some k"
    and w: "distinct (map fst w)"
      "map_of w = (\<lambda>c. if c \<in> set cs then Some k else if map_of (pm_owners s) c = Some k then None
                       else map_of (pm_owners s) c)"
  shows "pm_inv (s\<lparr>pm_paragraphs := AList.update k cs (pm_paragraphs s), pm_owners := w\<rparr>)"
  using inverse_maps_set [OF pm_invD(3) [OF inv], of cs k] own cs k w pm_invD [OF inv]
  by (simp add: pm_inv_def owner_index_def update_conv' distinct_update chunk_list_ok_def)

lemma pm_set_chunks_spec:
  assumes inv: "pm_inv s" and k: "validated_paragraph_key v = Inr k"
    and cs: "pm_validated_chunks w ''chunk_ids must be a list'' = Inr cs"
    and own: "pm_foreign_owner (\<lambda>owner. owner \<noteq> k) s cs = Inr ()"
  shows "\<exists>t. pm_set_chunks v w s = (Inr (), t) \<and> pm_inv t
    \<and> map_of (pm_paragraphs t) = (map_of (pm_paragraphs s))(k \<mapsto> cs)"
proof -
  let ?prev = "case map_of (pm_paragraphs s) k of None \<Rightarrow> [] | Some previous \<Rightarrow> previous"
  let ?old = "filter (\<lambda>c. c \<notin> set cs) ?prev"
  let ?w = "pm_own k cs (fold AList.delete ?old (pm_owners s))"
  let ?t = "s\<lparr>pm_paragraphs := AList.update k cs (pm_paragraphs s), pm_owners := ?w\<rparr>"
  note im = pm_invD(3) [OF inv]
  have prev: "map_of (pm_owners s) c = Some k \<longleftrightarrow> c \<in> set ?prev" for c
    using inverse_mapsD(2) [OF im, of c k] by (auto split: option.splits)
  have "distinct ?prev"
    using inverse_mapsD(1) [OF im] by (auto split: option.splits)
  then have loop: "ofor ?old (dict_del PStr) (pm_owners s) = (Inr (), fold AList.delete ?old (pm_owners s))"
    using prev by (intro dict_del_loop) auto
  have run: "pm_set_chunks v w s = (Inr (), ?t)"
    using loop by (simp add: pm_set_chunks_def obind_def k cs own pm_on_owners_def on_part_def)
  have "pm_inv ?t"
  proof (rule pm_inv_put [OF inv])
    show "is_canonical (fst k)" "0 < snd k"
      using validated_paragraph_key_Inr [OF k] by simp_all
    show "chunk_list_ok cs"
      using cs by (rule pm_validated_chunks_ok)
    show "map_of (pm_owners s) c = None \<or> map_of (pm_owners s) c = Some k" if "c \<in> set cs" for c
      using own that by (cases "map_of (pm_owners s) c") (auto simp: pm_foreign_owner_Inr)
    show "distinct (map fst ?w)"
      by (intro distinct_pm_own distinct_keys_fold_delete pm_invD(2) [OF inv])
    show "map_of ?w = (\<lambda>c. if c \<in> set cs then Some k else if map_of (pm_owners s) c = Some k then None
                       else map_of (pm_owners s) c)"
      using prev by (auto simp: map_of_fold_delete fun_eq_iff)
  qed
  with run show ?thesis
    by (intro exI [of _ ?t]) (simp add: update_conv')
qed

lemma pm_drop_spec:
  assumes inv: "pm_inv s" and k: "map_of (pm_paragraphs s) k = Some cs"
  shows "\<exists>t. pm_drop k s = (Inr (), t) \<and> pm_inv t
    \<and> map_of (pm_paragraphs t) = (map_of (pm_paragraphs s))(k := None)"
proof -
  let ?t = "s\<lparr>pm_paragraphs := AList.delete k (pm_paragraphs s), pm_owners := fold AList.delete cs (pm_owners s)\<rparr>"
  have o: "owner_index (pm_paragraphs s) (pm_owners s)"
    using inv by (simp add: pm_inv_def)
  have "pm_drop k s = (Inr (), ?t)"
    using owner_index_pop(1) [OF o k, of PStr]
    by (simp add: pm_drop_def obind_def pm_on_paragraphs_def pm_on_owners_def on_part_def dict_pop_eval(1) [OF k])
  moreover have "pm_inv ?t"
    using owner_index_pop(2) [OF o k] pm_invD(4) [OF inv] by (simp add: pm_inv_def delete_conv')
  ultimately show ?thesis
    by (intro exI [of _ ?t]) (simp add: delete_conv')
qed

lemma pm_drop_missing: "map_of (pm_paragraphs s) k = None \<Longrightarrow> pm_drop k s = (Inl (KeyError (key_value k)), s)"
  by (simp add: pm_drop_def obind_def pm_on_paragraphs_def on_part_def dict_pop_eval(2))

lemma pm_drop_loop:
  assumes "pm_inv s" "distinct ks" "\<And>k. k \<in> set ks \<Longrightarrow> map_of (pm_paragraphs s) k \<noteq> None"
  shows "\<exists>t. ofor ks pm_drop s = (Inr (), t) \<and> pm_inv t
    \<and> map_of (pm_paragraphs t) = (\<lambda>k. if k \<in> set ks then None else map_of (pm_paragraphs s) k)"
  using assms
proof (induction ks arbitrary: s)
  case Nil
  then show ?case by simp
next
  case (Cons k ks)
  obtain cs where "map_of (pm_paragraphs s) k = Some cs"
    using Cons.prems(3) [of k] by auto
  from pm_drop_spec [OF Cons.prems(1) this] obtain u where u: "pm_drop k s = (Inr (), u)" "pm_inv u"
    "map_of (pm_paragraphs u) = (map_of (pm_paragraphs s))(k := None)"
    by blast
  have pres: "map_of (pm_paragraphs u) j \<noteq> None" if "j \<in> set ks" for j
    using Cons.prems(2,3) that by (auto simp: u(3))
  have "distinct ks"
    using Cons.prems(2) by simp
  from Cons.IH [OF u(2) this pres] obtain t where "ofor ks pm_drop u = (Inr (), t)" "pm_inv t"
    "map_of (pm_paragraphs t) = (\<lambda>k. if k \<in> set ks then None else map_of (pm_paragraphs u) k)"
    by blast
  then show ?case
    by (intro exI [of _ t]) (auto simp: obind_def u(1,3))
qed

text \<open>Adding the paragraphs of a document that has none, with chunks nobody owns.\<close>

lemma pm_add_loop:
  assumes "pm_inv s" "is_canonical d"
    and "distinct (map fst ps)" "distinct (concat (map snd ps))"
    and "\<And>i cs. (i, cs) \<in> set ps \<Longrightarrow> 0 < i \<and> chunk_list_ok cs \<and> map_of (pm_paragraphs s) (d, i) = None
          \<and> (\<forall>c \<in> set cs. map_of (pm_owners s) c = None)"
  shows "\<exists>t. ofor ps (pm_add d) s = (Inr (), t) \<and> pm_inv t
    \<and> map_of (pm_paragraphs t) = (\<lambda>k. if fst k = d \<and> map_of ps (snd k) \<noteq> None then map_of ps (snd k)
          else map_of (pm_paragraphs s) k)"
  using assms
proof (induction ps arbitrary: s)
  case Nil
  then show ?case by simp
next
  case (Cons p ps)
  obtain i cs where p: "p = (i, cs)"
    by (cases p)
  let ?u = "s\<lparr>pm_paragraphs := AList.update (d, i) cs (pm_paragraphs s), pm_owners := pm_own (d, i) cs (pm_owners s)\<rparr>"
  note inv = Cons.prems(1)
  have pi: "0 < i" "chunk_list_ok cs" "map_of (pm_paragraphs s) (d, i) = None"
    "\<And>c. c \<in> set cs \<Longrightarrow> map_of (pm_owners s) c = None"
    using Cons.prems(5) [of i cs] by (auto simp: p)
  have nk: "map_of (pm_owners s) c \<noteq> Some (d, i)" for c
    using inverse_mapsD(2) [OF pm_invD(3) [OF inv], of c "(d, i)"] pi(3) by auto
  have "pm_inv ?u"
    using Cons.prems(2) pi nk
    by (intro pm_inv_put [OF inv]) (auto simp: fun_eq_iff intro: distinct_pm_own pm_invD(2) [OF inv])
  moreover have "0 < j \<and> chunk_list_ok ds \<and> map_of (pm_paragraphs ?u) (d, j) = None
      \<and> (\<forall>c \<in> set ds. map_of (pm_owners ?u) c = None)" if j: "(j, ds) \<in> set ps" for j ds
  proof -
    have "j \<noteq> i" "set cs \<inter> set ds = {}"
      using Cons.prems(3,4) j by (force simp: p)+
    then show ?thesis
      using Cons.prems(5) [of j ds] j by (auto simp: update_conv')
  qed
  ultimately obtain t where t: "ofor ps (pm_add d) ?u = (Inr (), t)" "pm_inv t"
    "map_of (pm_paragraphs t) = (\<lambda>k. if fst k = d \<and> map_of ps (snd k) \<noteq> None then map_of ps (snd k)
          else map_of (pm_paragraphs ?u) k)"
    using Cons.IH [of ?u] Cons.prems(2,3,4) by (auto simp: p)
  have "map_of ps i = None"
    using Cons.prems(3) by (simp add: p map_of_eq_None_iff)
  moreover have "pm_add d p s = (Inr (), ?u)"
    by (simp add: pm_add_def p)
  ultimately show ?case
    using t by (intro exI [of _ t]) (auto simp: obind_def p update_conv' fun_eq_iff)
qed

section \<open>Replacing a document\<close>

text \<open>What the validation loop guarantees of \<open>validated\<close> and of the chunks seen.\<close>

definition replacement_ok :: "chunk_lists \<Rightarrow> string list \<Rightarrow> bool" where
  "replacement_ok m seen \<longleftrightarrow> distinct (map fst m) \<and> distinct (concat (map snd m))
     \<and> set (concat (map snd m)) \<subseteq> set seen \<and> list_all chunk_list_ok (map snd m)"

lemma concat_update_subset:
  "set (concat (map snd (AList.update k cs m))) \<subseteq> set cs \<union> set (concat (map snd m))"
  by (induction m) auto

lemma distinct_concat_update:
  assumes "distinct (concat (map snd m))" "distinct cs" "set cs \<inter> set (concat (map snd m)) = {}"
  shows "distinct (concat (map snd (AList.update k cs m)))"
  using assms
proof (induction m)
  case Nil
  then show ?case by simp
next
  case (Cons p m)
  show ?case
  proof (cases "fst p = k")
    case True
    then show ?thesis
      using Cons.prems by (cases p) auto
  next
    case False
    moreover have "set (snd p) \<inter> set (concat (map snd (AList.update k cs m))) = {}"
      using concat_update_subset [of k cs m] Cons.prems by fastforce
    moreover have "distinct (concat (map snd (AList.update k cs m)))"
      using Cons by (simp add: Int_Un_distrib)
    ultimately show ?thesis
      using Cons.prems(1) by (cases p) auto
  qed
qed

lemma list_all_update:
  "list_all P (map snd m) \<Longrightarrow> P v \<Longrightarrow> list_all P (map snd (AList.update k v m))"
  by (induction m) auto

lemma replacement_ok_update:
  assumes m: "replacement_ok m seen" and cs: "chunk_list_ok cs" and d: "set seen \<inter> set cs = {}"
  shows "replacement_ok (AList.update k cs m) (seen @ cs)"
proof -
  have m': "distinct (map fst m)" "distinct (concat (map snd m))" "set (concat (map snd m)) \<subseteq> set seen"
    "list_all chunk_list_ok (map snd m)"
    using m unfolding replacement_ok_def by blast+
  have "set cs \<inter> set (concat (map snd m)) = {}"
    using m'(3) d by blast
  then have "distinct (concat (map snd (AList.update k cs m)))"
    using m'(2) cs by (intro distinct_concat_update) (simp_all add: chunk_list_ok_def)
  moreover have "set (concat (map snd (AList.update k cs m))) \<subseteq> set (seen @ cs)"
    using concat_update_subset [of k cs m] m'(3) unfolding set_append by blast
  ultimately show ?thesis
    using m' cs unfolding replacement_ok_def by (blast intro: distinct_update list_all_update)
qed

lemma pm_replacement_items_ok:
  "pm_replacement_items m seen items = Inr (m', seen') \<Longrightarrow> replacement_ok m seen \<Longrightarrow> replacement_ok m' seen'"
proof (induction items arbitrary: m seen)
  case Nil
  then show ?case by simp
next
  case (Cons it items)
  obtain p v where it: "it = (p, v)"
    by (cases it)
  with Cons.prems(1) obtain i cs where "pm_validated_chunks v ''each paragraph chunk collection must be a list'' = Inr cs"
      "set seen \<inter> set cs = {}" "pm_replacement_items (AList.update i cs m) (seen @ cs) items = Inr (m', seen')"
    by (auto simp: rbind_Inr_iff split: if_splits)
  with Cons.IH Cons.prems(2) show ?case
    using pm_validated_chunks_ok replacement_ok_update by blast
qed

lemma mset_concat_map_eq:
  assumes "mset xs = mset ys"
  shows "mset (concat (map f xs)) = mset (concat (map f ys))"
proof -
  have "mset (concat (map f zs)) = sum_mset (image_mset (\<lambda>z. mset (f z)) (mset zs))" for zs
    by (induction zs) auto
  with assms show ?thesis
    by simp
qed

lemma pm_validated_replacement_ok:
  assumes "pm_validated_replacement s d data = Inr m"
  shows "map fst m = [1..int (length m)]" "m \<noteq> []" "distinct (concat (map snd m))"
    "(i, cs) \<in> set m \<Longrightarrow> chunk_list_ok cs"
    "(i, cs) \<in> set m \<Longrightarrow> c \<in> set cs \<Longrightarrow> map_of (pm_owners s) c = Some k \<Longrightarrow> fst k = d"
proof -
  obtain items v seen where run: "pm_replacement_items [] [] items = Inr (v, seen)"
    and q: "v = [] \<or> sequential_ids (dict_keys v)"
    and own: "pm_foreign_owner (\<lambda>owner. fst owner \<noteq> d) s seen = Inr ()"
    and m: "m = sort_key fst (if v = [] then [(1, [])] else v)"
    using assms by (auto simp: pm_validated_replacement_def rbind_Inr_iff split: pyval.splits if_splits)
  have ok: "replacement_ok v seen"
    using pm_replacement_items_ok [OF run] by (simp add: replacement_ok_def)
  let ?v = "if v = [] then [(1, [])] else v"
  have ok': "replacement_ok ?v seen"
    using ok by (auto simp: replacement_ok_def chunk_list_ok_def)
  have ms: "mset m = mset ?v"
    by (simp add: m)
  have len: "length m = length ?v"
    using ms by (metis size_mset)
  then show "m \<noteq> []"
    by (auto split: if_splits)
  have "sequential_ids (map fst ?v)"
    using q by (auto simp: sequential_ids_def dict_keys_def)
  then show "map fst m = [1..int (length m)]"
    using sequential_sorted [of ?v] ok' len unfolding m by (simp add: replacement_ok_def)
  show "distinct (concat (map snd m))"
    using mset_concat_map_eq [OF ms, of snd] ok' mset_eq_imp_distinct_iff
    unfolding replacement_ok_def by blast
  have sm: "set m = set ?v"
    using ms by (rule mset_eq_setD)
  show "(i, cs) \<in> set m \<Longrightarrow> chunk_list_ok cs"
    using ok' unfolding sm replacement_ok_def list_all_iff by force
  assume "(i, cs) \<in> set m" "c \<in> set cs" "map_of (pm_owners s) c = Some k"
  moreover from this have "c \<in> set seen"
    using ok' unfolding sm replacement_ok_def by force
  ultimately show "fst k = d"
    using own by (auto simp: pm_foreign_owner_Inr)
qed

lemma set_pm_document_keys:
  "pm_inv s \<Longrightarrow> distinct (pm_document_keys s d)"
  "k \<in> set (pm_document_keys s d) \<longleftrightarrow> map_of (pm_paragraphs s) k \<noteq> None \<and> fst k = d"
  by (auto simp: pm_document_keys_def dict_keys_def map_of_eq_None_iff dest: pm_invD(1))

lemma pm_drop_document:
  assumes "pm_inv s"
  shows "\<exists>t. ofor (pm_document_keys s d) pm_drop s = (Inr (), t) \<and> pm_inv t
    \<and> map_of (pm_paragraphs t) = (\<lambda>k. if fst k = d then None else map_of (pm_paragraphs s) k)"
proof -
  obtain t where t: "ofor (pm_document_keys s d) pm_drop s = (Inr (), t)" "pm_inv t"
    "map_of (pm_paragraphs t) = (\<lambda>k. if k \<in> set (pm_document_keys s d) then None else map_of (pm_paragraphs s) k)"
    using pm_drop_loop [OF assms set_pm_document_keys(1) [OF assms]] set_pm_document_keys(2) by blast
  then show ?thesis
    by (intro exI [of _ t]) (auto simp: set_pm_document_keys(2) fun_eq_iff)
qed

lemma pm_replace_document_spec:
  assumes inv: "pm_inv s" and d: "required_uuid v ''document_id'' = Inr d"
    and m: "pm_validated_replacement s d data = Inr m"
  shows "\<exists>t. pm_replace_document v data s = (Inr (), t) \<and> pm_inv t
    \<and> map_of (pm_paragraphs t) = (\<lambda>k. if fst k = d then map_of m (snd k) else map_of (pm_paragraphs s) k)"
proof -
  note ok = pm_validated_replacement_ok [OF m]
  obtain u where u: "ofor (pm_document_keys s d) pm_drop s = (Inr (), u)" "pm_inv u"
    "map_of (pm_paragraphs u) = (\<lambda>k. if fst k = d then None else map_of (pm_paragraphs s) k)"
    using pm_drop_document [OF inv] by blast
  have sorted: "sort_key fst m = m"
    by (rule sort_key_id_if_sorted) (simp add: ok(1))
  have free: "map_of (pm_owners u) c = None" if i: "(i, cs) \<in> set m" "c \<in> set cs" for i cs c
  proof (rule ccontr)
    assume "map_of (pm_owners u) c \<noteq> None"
    then obtain k ds where k: "map_of (pm_paragraphs u) k = Some ds" "c \<in> set ds"
      using inverse_mapsD(2) [OF pm_invD(3) [OF u(2)], of c] by blast
    then have "map_of (pm_paragraphs s) k = Some ds" "fst k \<noteq> d"
      by (auto simp: u(3) split: if_splits)
    then have "map_of (pm_owners s) c = Some k"
      using inverse_maps_owned [OF pm_invD(3) [OF inv]] k(2) by blast
    then show False
      using ok(5) [OF i] \<open>fst k \<noteq> d\<close> by blast
  qed
  have pos: "0 < i" if "(i, cs) \<in> set m" for i cs
  proof -
    have "i \<in> set (map fst m)"
      using that by force
    then show ?thesis
      unfolding ok(1) by simp
  qed
  have "\<exists>t. ofor m (pm_add d) u = (Inr (), t) \<and> pm_inv t
      \<and> map_of (pm_paragraphs t) = (\<lambda>k. if fst k = d \<and> map_of m (snd k) \<noteq> None then map_of m (snd k)
          else map_of (pm_paragraphs u) k)"
  proof (rule pm_add_loop [OF u(2)])
    show "is_canonical d"
      using d by (rule required_uuid_canonical)
    show "distinct (map fst m)"
      by (simp add: ok(1))
    show "distinct (concat (map snd m))"
      by (rule ok(3))
  qed (use ok(4) pos free u(3) in auto)
  then obtain t where t: "ofor m (pm_add d) u = (Inr (), t)" "pm_inv t"
    "map_of (pm_paragraphs t) = (\<lambda>k. if fst k = d \<and> map_of m (snd k) \<noteq> None then map_of m (snd k)
          else map_of (pm_paragraphs u) k)"
    by blast
  then show ?thesis
    by (intro exI [of _ t]) (auto simp: pm_replace_document_def obind_def d m u(1,3) sorted fun_eq_iff)
qed

lemma pm_delete_document_spec:
  assumes "pm_inv s" and d: "required_uuid v ''document_id'' = Inr d"
  shows "\<exists>t. pm_delete_document v s = (Inr (), t) \<and> pm_inv t
    \<and> map_of (pm_paragraphs t) = (\<lambda>k. if fst k = d then None else map_of (pm_paragraphs s) k)"
  using pm_drop_document [OF assms(1)] by (simp add: pm_delete_document_def obind_def d)

text \<open>Every call either raises and changes nothing, or succeeds in a state with the invariant.\<close>

lemma pm_apply_outcome:
  assumes inv: "pm_inv s"
  shows "(\<exists>e. pm_apply c s = (Inl e, s)) \<or> (\<exists>t. pm_apply c s = (Inr (), t) \<and> pm_inv t)"
proof (cases c)
  case (SetChunks v w)
  show ?thesis
  proof (cases "validated_paragraph_key v")
    case (Inl e)
    then show ?thesis by (simp add: SetChunks pm_set_chunks_def obind_def)
  next
    case k: (Inr k)
    show ?thesis
    proof (cases "pm_validated_chunks w ''chunk_ids must be a list''")
      case (Inl e)
      then show ?thesis by (simp add: SetChunks pm_set_chunks_def obind_def k)
    next
      case cs: (Inr cs)
      show ?thesis
      proof (cases "pm_foreign_owner (\<lambda>owner. owner \<noteq> k) s cs")
        case (Inl e)
        then show ?thesis by (simp add: SetChunks pm_set_chunks_def obind_def k cs)
      next
        case (Inr u)
        with pm_set_chunks_spec [OF inv k cs] show ?thesis
          by (auto simp: SetChunks)
      qed
    qed
  qed
next
  case (ReplaceDocument v data)
  show ?thesis
  proof (cases "required_uuid v ''document_id''")
    case (Inl e)
    then show ?thesis by (simp add: ReplaceDocument pm_replace_document_def obind_def)
  next
    case d: (Inr d)
    show ?thesis
    proof (cases "pm_validated_replacement s d data")
      case (Inl e)
      then show ?thesis by (simp add: ReplaceDocument pm_replace_document_def obind_def d)
    next
      case (Inr m)
      with pm_replace_document_spec [OF inv d] show ?thesis
        by (auto simp: ReplaceDocument)
    qed
  qed
next
  case (DeleteParagraph v)
  show ?thesis
  proof (cases "validated_paragraph_key v")
    case (Inl e)
    then show ?thesis by (simp add: DeleteParagraph pm_delete_paragraph_def obind_def)
  next
    case (Inr k)
    show ?thesis
    proof (cases "map_of (pm_paragraphs s) k")
      case None
      then show ?thesis
        by (simp add: DeleteParagraph pm_delete_paragraph_def obind_def Inr pm_drop_missing)
    next
      case (Some cs)
      with pm_drop_spec [OF inv Some] show ?thesis
        by (auto simp: DeleteParagraph pm_delete_paragraph_def obind_def Inr)
    qed
  qed
next
  case (DeleteDocumentChunks v)
  show ?thesis
  proof (cases "required_uuid v ''document_id''")
    case (Inl e)
    then show ?thesis by (simp add: DeleteDocumentChunks pm_delete_document_def obind_def)
  next
    case (Inr d)
    with pm_delete_document_spec [OF inv] show ?thesis
      by (auto simp: DeleteDocumentChunks)
  qed
qed

lemma pm_apply_keeps: "pm_inv s \<Longrightarrow> pm_apply c s = (r, t) \<Longrightarrow> pm_inv t"
  using pm_apply_outcome [of s c] by auto

interpretation pm: object_invariant pm_apply pm_inv
  by unfold_locales (rule pm_apply_keeps)

definition pm_initial :: "string \<Rightarrow> string \<Rightarrow> paragraph_map" where
  "pm_initial u c = \<lparr>pm_user = u, pm_collection = c, pm_paragraphs = [], pm_owners = []\<rparr>"

lemma pm_initial_inv: "pm_inv (pm_initial u c)"
  by (simp add: pm_inv_def pm_initial_def)

lemma pm_reachable_inv: "pm_inv (run_calls pm_apply calls (pm_initial u c))"
  by (rule pm.run_calls_keeps) (rule pm_initial_inv)

text \<open>
  C19 (invariant). After any sequence of calls on a new \<open>ParagraphMap\<close> the chunk owners are exactly the
  inverse of the paragraphs (so no chunk belongs to two paragraphs), and the next call, whatever it
  is, either raises and leaves the map as it was or succeeds: no loop over previous chunks ever hits
  a missing owner half-way.
\<close>

theorem paragraph_map_invariant:
  "pm_inv (run_calls pm_apply calls (pm_initial u c))
   \<and> ((\<exists>e. pm_apply call (run_calls pm_apply calls (pm_initial u c))
          = (Inl e, run_calls pm_apply calls (pm_initial u c)))
     \<or> fst (pm_apply call (run_calls pm_apply calls (pm_initial u c))) = Inr ())"
  using pm_reachable_inv [of calls u c] pm_apply_outcome [OF pm_reachable_inv, of call calls u c] by auto

text \<open>
  Replacing a document with chunk lists that pass validation succeeds, gives the
  document exactly the new paragraphs and every other document exactly its old ones; every new chunk
  is owned by its new paragraph, and a chunk that was the document's and is in no new list is owned
  by nobody.
\<close>

theorem paragraph_map_replace:
  assumes "s = run_calls pm_apply calls (pm_initial u c)"
    and "required_uuid v ''document_id'' = Inr d" and "pm_validate_replacement s v data = Inr ()"
  shows "\<exists>m t. pm_replace_document v data s = (Inr (), t)
    \<and> map fst m = [1..int (length m)] \<and> m \<noteq> []
    \<and> (\<forall>e p. map_of (pm_paragraphs t) (e, p) = (if e = d then map_of m p else map_of (pm_paragraphs s) (e, p)))
    \<and> (\<forall>chunk p. map_of (pm_owners t) chunk = Some (d, p) \<longleftrightarrow> (\<exists>cs. map_of m p = Some cs \<and> chunk \<in> set cs))"
proof -
  have inv: "pm_inv s"
    unfolding assms(1) by (rule pm_reachable_inv)
  obtain m where m: "pm_validated_replacement s d data = Inr m"
    using assms(2,3) by (auto simp: pm_validate_replacement_def rbind_Inr_iff)
  obtain t where t: "pm_replace_document v data s = (Inr (), t)" "pm_inv t"
    "map_of (pm_paragraphs t) = (\<lambda>k. if fst k = d then map_of m (snd k) else map_of (pm_paragraphs s) k)"
    using pm_replace_document_spec [OF inv assms(2) m] by blast
  have "map_of (pm_owners t) chunk = Some (d, p) \<longleftrightarrow> (\<exists>cs. map_of m p = Some cs \<and> chunk \<in> set cs)" for chunk p
    using inverse_mapsD(2) [OF pm_invD(3) [OF t(2)], of chunk "(d, p)"] by (simp add: t(3))
  with t(1,3) pm_validated_replacement_ok(1,2) [OF m] show ?thesis
    by (intro exI [of _ m] exI [of _ t]) simp
qed

theorem paragraph_map_replace_witness:
  "\<exists>(m :: chunk_lists) t. pm_replace_document (PStr (uuid_render 5)) (chunks_value [(1, [uuid_render 2])]) (pm_initial ''u'' ''policy'') = (Inr (), t)
    \<and> m \<noteq> [] \<and> map fst m = [1..int (length m)]"
proof -
  have c: "is_canonical (uuid_render 5)" "is_canonical (uuid_render 2)"
    by (simp_all add: uuid_render_canonical)
  have "pm_validate_replacement (run_calls pm_apply [] (pm_initial ''u'' ''policy'')) (PStr (uuid_render 5))
      (chunks_value [(1, [uuid_render 2])]) = Inr ()"
    using c by (simp add: pm_validate_replacement_def pm_validated_replacement_def run_calls_def
        required_uuid_of_canonical chunks_value_def positive_paragraph_id_def pm_validated_chunks_def
        sequential_ids_def dict_keys_def pm_initial_def)
  from paragraph_map_replace [OF refl required_uuid_of_canonical [OF c(1)] this] show ?thesis
    unfolding run_calls_def fold_simps by blast
qed

text \<open>The chunk lists of a document, read in the order of its paragraphs.\<close>

lemma pm_document_chunks_spec:
  assumes inv: "pm_inv s" and "required_uuid v ''document_id'' = Inr d"
  shows "\<exists>m. pm_get_document_chunks s v = Inr m \<and> sorted (map fst m) \<and> distinct (map fst m)
    \<and> (\<forall>p. map_of m p = map_of (pm_paragraphs s) (d, p))"
proof -
  let ?ks = "filter (\<lambda>key. fst key = d) (sort (dict_keys (pm_paragraphs s)))"
  let ?f = "\<lambda>key. (snd key, the (map_of (pm_paragraphs s) key))"
  let ?m = "map ?f ?ks"
  have ks: "k \<in> set ?ks \<longleftrightarrow> map_of (pm_paragraphs s) k \<noteq> None \<and> fst k = d" for k
    by (auto simp: dict_keys_def map_of_eq_None_iff)
  have run: "pm_get_document_chunks s v = Inr ?m"
    unfolding pm_get_document_chunks_def assms(2) rbind_simps
    by (rule rmap_all_Inr) (use ks in \<open>auto simp: dict_get_def split: option.splits\<close>)
  have "sorted ?ks" "distinct ?ks"
    using pm_invD(1) [OF inv] by (simp_all add: dict_keys_def sorted_wrt_filter)
  then have "sorted_wrt (\<lambda>j k. j \<le> k \<and> j \<noteq> k) ?ks"
    by (simp add: sorted_wrt_iff_nth_less distinct_conv_nth)
  then have "sorted_wrt (\<lambda>j k. snd j < snd k) ?ks"
  proof (rule sorted_wrt_mono_rel [rotated])
    fix j k assume a: "j \<in> set ?ks" "k \<in> set ?ks" and l: "j \<le> k \<and> j \<noteq> k"
    have "fst j = d" "fst k = d"
      using a by simp_all
    with l show "snd j < snd k"
      by (cases j; cases k) (auto simp: less_eq_prod_def)
  qed
  then have strict: "sorted_wrt (<) (map fst ?m)"
    by (simp add: sorted_wrt_map)
  have d: "distinct (map fst ?m)"
    using strict unfolding strict_sorted_iff by simp
  have "map_of ?m p = map_of (pm_paragraphs s) (d, p)" for p
  proof (cases "map_of (pm_paragraphs s) (d, p)")
    case None
    have "p \<notin> set (map fst ?m)"
    proof
      assume "p \<in> set (map fst ?m)"
      then obtain k where k: "k \<in> set ?ks" "snd k = p"
        unfolding set_map image_image by auto
      with ks [of k] have "k = (d, p)"
        by (cases k) simp
      with ks [of k] k(1) None show False
        by simp
    qed
    then have "map_of ?m p = None"
      by (simp only: map_of_eq_None_iff set_map not_False_eq_True)
    with None show ?thesis
      by simp
  next
    case (Some cs)
    with ks [of "(d, p)"] have "(d, p) \<in> set ?ks"
      by simp
    then have "?f (d, p) \<in> set ?m"
      unfolding set_map by (rule imageI)
    with d Some show ?thesis
      using map_of_is_SomeI by fastforce
  qed
  with run d strict show ?thesis
    by (intro exI [of _ ?m]) (simp add: strict_sorted_iff)
qed

text \<open>A document put back after its chunk lists were changed or removed.\<close>

lemma pm_validated_chunks_value: "chunk_list_ok cs \<Longrightarrow> pm_validated_chunks (PList (map PStr cs)) m = Inr cs"
proof -
  assume ok: "chunk_list_ok cs"
  have "rmap (\<lambda>item. required_uuid item ''chunk_id'') (map PStr cs) = Inr cs"
    using ok unfolding chunk_list_ok_def by (induction cs) (auto simp: required_uuid_of_canonical)
  with ok show ?thesis
    by (simp add: pm_validated_chunks_def chunk_list_ok_def)
qed

lemma pm_replacement_items_value:
  assumes "\<forall>(i, cs) \<in> set m. 0 < i \<and> chunk_list_ok cs" and "distinct (map fst (acc @ m))"
    and "distinct (concat (map snd m))" and "set seen \<inter> set (concat (map snd m)) = {}"
  shows "pm_replacement_items acc seen (map (\<lambda>(i, cs). (PInt i, PList (map PStr cs))) m)
    = Inr (acc @ m, seen @ concat (map snd m))"
  using assms
proof (induction m arbitrary: acc seen)
  case Nil
  then show ?case by simp
next
  case (Cons p m)
  obtain i cs where p: "p = (i, cs)"
    by (cases p)
  have i: "positive_paragraph_id (PInt i) = Inr i" and cs: "pm_validated_chunks (PList (map PStr cs)) x = Inr cs" for x
    using Cons.prems(1) by (simp_all add: p positive_paragraph_id_def pm_validated_chunks_value)
  have "i \<notin> fst ` set acc"
    using Cons.prems(2) by (auto simp: p)
  then have u: "AList.update i cs acc = acc @ [(i, cs)]"
    by (rule update_new)
  have sc: "set seen \<inter> set cs = {}"
    using Cons.prems(4) by (auto simp: p)
  have "pm_replacement_items (acc @ [(i, cs)]) (seen @ cs) (map (\<lambda>(i, cs). (PInt i, PList (map PStr cs))) m)
      = Inr ((acc @ [(i, cs)]) @ m, (seen @ cs) @ concat (map snd m))"
    by (rule Cons.IH) (use Cons.prems in \<open>auto simp: p\<close>)
  then show ?case
    by (simp add: p i cs u sc)
qed

lemma pm_put_back:
  assumes s: "pm_inv s" and t: "pm_inv t" and d: "is_canonical d"
    and other: "\<And>k. fst k \<noteq> d \<Longrightarrow> map_of (pm_paragraphs t) k = map_of (pm_paragraphs s) k"
    and m: "map fst m = [1..int (length m)]" "m \<noteq> []"
    and old: "\<And>p. map_of m p = map_of (pm_paragraphs s) (d, p)"
  shows "pm_validated_replacement t d (chunks_value m) = Inr m"
    and "\<exists>u. pm_replace_document (PStr d) (chunks_value m) t = (Inr (), u) \<and> pm_inv u
      \<and> map_of (pm_paragraphs u) = map_of (pm_paragraphs s)"
proof -
  have dm: "distinct (map fst m)"
    unfolding m(1) by simp
  have look: "map_of (pm_paragraphs s) (d, i) = Some cs" if "(i, cs) \<in> set m" for i cs
    using map_of_is_SomeI [OF dm that] old by simp
  have ok: "\<forall>(i, cs) \<in> set m. 0 < i \<and> chunk_list_ok cs"
    using pm_invD(4) [OF s look] by auto
  have owner: "map_of (pm_owners s) c = Some (d, i)" if "(i, cs) \<in> set m" "c \<in> set cs" for i cs c
    using inverse_maps_owned [OF pm_invD(3) [OF s] look [OF that(1)] that(2)] .
  have dc: "distinct (concat (map snd m))"
    using dm ok owner
  proof (induction m)
    case (Cons q m)
    obtain i cs where q: "q = (i, cs)"
      by (cases q)
    have "distinct (concat (map snd m))"
      using Cons by auto
    moreover have "set cs \<inter> set (concat (map snd m)) = {}"
    proof (rule ccontr)
      assume "set cs \<inter> set (concat (map snd m)) \<noteq> {}"
      then obtain c j ds where c: "c \<in> set cs" "(j, ds) \<in> set m" "c \<in> set ds"
        by auto
      then have "i = j"
        using Cons.prems(3) [of i cs c] Cons.prems(3) [of j ds c] by (simp add: q)
      with c(2) Cons.prems(1) show False
        by (force simp: q)
    qed
    moreover have "distinct cs"
      using Cons.prems(2) by (simp add: q chunk_list_ok_def)
    ultimately show ?case
      by (simp add: q)
  qed simp
  have free: "\<forall>c \<in> set (concat (map snd m)). \<forall>k. map_of (pm_owners t) c = Some k \<longrightarrow> \<not> fst k \<noteq> d"
  proof (intro ballI allI impI notI)
    fix c k assume c: "c \<in> set (concat (map snd m))" "map_of (pm_owners t) c = Some k" "fst k \<noteq> d"
    obtain cs where "map_of (pm_paragraphs t) k = Some cs" "c \<in> set cs"
      using inverse_mapsD(2) [OF pm_invD(3) [OF t]] c(2) by blast
    then have "map_of (pm_owners s) c = Some k"
      using inverse_maps_owned [OF pm_invD(3) [OF s]] other [OF c(3)] by metis
    moreover obtain i ds where "(i, ds) \<in> set m" "c \<in> set ds"
      using c(1) by auto
    ultimately show False
      using owner c(3) by fastforce
  qed
  have items: "pm_replacement_items [] [] (map (\<lambda>(i, cs). (PInt i, PList (map PStr cs))) m)
      = Inr ([] @ m, [] @ concat (map snd m))"
    by (rule pm_replacement_items_value) (use ok dm dc in auto)
  have q: "sequential_ids (dict_keys m)"
    by (simp add: dict_keys_def m(1) sequential_ids_def)
  have sorted: "sort_key fst m = m"
    by (rule sort_key_id_if_sorted) (simp add: m(1))
  have own: "pm_foreign_owner (\<lambda>owner. fst owner \<noteq> d) t (concat (map snd m)) = Inr ()"
    unfolding pm_foreign_owner_Inr by (rule free)
  show v: "pm_validated_replacement t d (chunks_value m) = Inr m"
    using items by (simp add: pm_validated_replacement_def chunks_value_def m(2) q own sorted)
  obtain u where u: "pm_replace_document (PStr d) (chunks_value m) t = (Inr (), u)" "pm_inv u"
    "map_of (pm_paragraphs u) = (\<lambda>k. if fst k = d then map_of m (snd k) else map_of (pm_paragraphs t) k)"
    using pm_replace_document_spec [OF t required_uuid_of_canonical [OF d] v] by blast
  have "map_of (pm_paragraphs u) k = map_of (pm_paragraphs s) k" for k
    unfolding u(3) using other [of k] old [of "snd k"] by (cases k) auto
  with u(1,2) show "\<exists>u. pm_replace_document (PStr d) (chunks_value m) t = (Inr (), u) \<and> pm_inv u
      \<and> map_of (pm_paragraphs u) = map_of (pm_paragraphs s)"
    by (intro exI [of _ u]) (simp add: fun_eq_iff)
qed

text \<open>
  \<open>get_document_chunks\<close> never raises for a valid document id: it lists exactly the
  paragraphs of that document, in increasing order of their number.
\<close>

theorem paragraph_map_document_chunks:
  assumes "s = run_calls pm_apply calls (pm_initial u c)" and "required_uuid v ''document_id'' = Inr d"
  shows "\<exists>m. pm_get_document_chunks s v = Inr m \<and> sorted (map fst m) \<and> distinct (map fst m)
    \<and> (\<forall>p. map_of m p = map_of (pm_paragraphs s) (d, p))"
  by (rule pm_document_chunks_spec [OF _ assms(2)]) (unfold assms(1), rule pm_reachable_inv)

theorem paragraph_map_document_chunks_witness:
  "\<exists>m. pm_get_document_chunks (pm_initial ''u'' ''policy'') (PStr (uuid_render 5)) = Inr m \<and> distinct (map fst m)"
proof -
  have "is_canonical (uuid_render 5)"
    by (simp add: uuid_render_canonical)
  from paragraph_map_document_chunks [OF refl required_uuid_of_canonical [OF this], of "[]" "''u''" "''policy''"]
  show ?thesis
    unfolding run_calls_def fold_simps by blast
qed

end
