(* ===== verification/Task_Queue.thy ===== *)
theory Task_Queue
  imports Map_Common
begin

text \<open>
  \<open>backend/task_queue.py\<close>: the per-user FIFO queue of background work. The event loop is
  cooperative, so the code between two suspension points is one atomic step: accepting a task, a
  worker taking an item up to the \<open>await\<close> of its work, the end of that work, and the three stages
  of \<open>close\<close>. \<open>tq_step\<close> is the nondeterministic step relation of the whole queue.

  A \<open>_TaskRecord\<close> is a shared object: waiters keep it after it is evicted from \<open>_records\<close>. So
  \<open>tq_objects\<close> holds every record object by its task id and \<open>tq_live\<close> the ids \<open>_records\<close> contains.
  The outcome of the awaited work and the value of \<open>uuid4\<close> come from outside. One call of \<open>close\<close> is
  modelled. Instants are numbers.
\<close>

section \<open>State\<close>

datatype task_status = Queued | Running | Succeeded | Failed

record task_record =
  tr_user :: string
  tr_operation :: string
  tr_status :: task_status
  tr_error_code :: "string option"
  tr_error :: "string option"
  tr_created :: nat
  tr_completed :: bool
  tr_started :: "nat option"
  tr_finished :: "nat option"

record task_snapshot =
  ts_task :: string
  ts_user :: string
  ts_operation :: string
  ts_status :: task_status
  ts_error_code :: "string option"
  ts_error :: "string option"
  ts_created :: nat
  ts_started :: "nat option"
  ts_finished :: "nat option"

definition tr_snapshot :: "string \<Rightarrow> task_record \<Rightarrow> task_snapshot" where
  "tr_snapshot task_id r =
     \<lparr>ts_task = task_id, ts_user = tr_user r, ts_operation = tr_operation r, ts_status = tr_status r,
      ts_error_code = tr_error_code r, ts_error = tr_error r, ts_created = tr_created r,
      ts_started = tr_started r, ts_finished = tr_finished r\<rparr>"

datatype item = Task string | Stop

text \<open>An \<open>asyncio.Queue\<close>: its items and the count that \<open>task_done\<close> and \<open>join\<close> use.\<close>

record user_queue =
  uq_items :: "item list"
  uq_unfinished :: int

text \<open>\<open>Crashed\<close> is a worker that ended with an exception other than a cancellation.\<close>

datatype worker = Waiting | Busy string | Returned | Cancelled | Crashed

datatype close_phase = NotClosing | Draining | Stopping | Closed | CloseCancelled

record task_queue =
  tq_objects :: "(string, task_record) dict"
  tq_live :: "string list"
  tq_completed :: "string list"
  tq_queues :: "string \<Rightarrow> user_queue option"
  tq_workers :: "string \<Rightarrow> worker option"
  tq_max :: nat
  tq_accepting :: bool
  tq_phase :: close_phase

definition tq_new :: "pyval \<Rightarrow> task_queue res" where
  "tq_new max_completed_records =
     (case max_completed_records of
        PInt n \<Rightarrow>
          if n \<le> 0 then Inl (ValueError ''max_completed_records must be greater than zero'')
          else Inr \<lparr>tq_objects = [], tq_live = [], tq_completed = [], tq_queues = (\<lambda>_. None),
                    tq_workers = (\<lambda>_. None), tq_max = nat n, tq_accepting = True, tq_phase = NotClosing\<rparr>
      | _ \<Rightarrow> Inl (TypeError ''max_completed_records must be an integer''))"

section \<open>Operations\<close>

definition tq_done :: "worker option \<Rightarrow> bool" where
  "tq_done w \<longleftrightarrow> w \<in> {None, Some Returned, Some Cancelled, Some Crashed}"

definition tq_put :: "item \<Rightarrow> user_queue \<Rightarrow> user_queue" where
  "tq_put i q = q\<lparr>uq_items := uq_items q @ [i], uq_unfinished := uq_unfinished q + 1\<rparr>"

text \<open>The part of \<open>enqueue\<close> after its guards.\<close>

definition tq_accept :: "string \<Rightarrow> string \<Rightarrow> string \<Rightarrow> nat \<Rightarrow> task_queue \<Rightarrow> task_queue" where
  "tq_accept task_id user operation now s =
     (let rec = \<lparr>tr_user = user, tr_operation = operation, tr_status = Queued,
                 tr_error_code = None, tr_error = None, tr_created = now, tr_completed = False,
                 tr_started = None, tr_finished = None\<rparr>;
          queue = (case tq_queues s user of None \<Rightarrow> \<lparr>uq_items = [], uq_unfinished = 0\<rparr> | Some q \<Rightarrow> q)
      in s\<lparr>tq_objects := AList.update task_id rec (tq_objects s),
           tq_live := tq_live s @ [task_id],
           tq_queues := (tq_queues s)(user \<mapsto> tq_put (Task task_id) queue),
           tq_workers := (if tq_done (tq_workers s user) then (tq_workers s)(user \<mapsto> Waiting)
                          else tq_workers s)\<rparr>)"

definition tq_enqueue ::
    "user_pattern \<Rightarrow> string \<Rightarrow> nat \<Rightarrow> pyval \<Rightarrow> pyval \<Rightarrow> bool \<Rightarrow> (task_queue, string) op" where
  "tq_enqueue pat task_id now user_id operation is_callable =
     obind (olift (validated_user_id pat user_id)) (\<lambda>user.
     obind (olift (required_identifier operation ''operation'')) (\<lambda>operation_name s.
       if \<not> is_callable then (Inl (TypeError ''work_factory must be callable''), s)
       else if \<not> tq_accepting s then (Inl (RuntimeError ''background task queue is shutting down''), s)
       else (Inr task_id, tq_accept task_id user operation_name now s)))"

text \<open>
  \<open>_worker\<close> from \<open>queue.get()\<close> to the \<open>await\<close> of the work. \<open>None\<close> when the worker is not at the \<open>get\<close>
  or the queue is empty. The KeyError of a missing record would end the worker.
\<close>

definition tq_task_done :: "user_queue \<Rightarrow> user_queue" where
  "tq_task_done q = q\<lparr>uq_unfinished := uq_unfinished q - 1\<rparr>"

definition tq_start :: "nat \<Rightarrow> task_record \<Rightarrow> task_record" where
  "tq_start now r = r\<lparr>tr_status := Running, tr_started := Some now\<rparr>"

definition tq_take :: "nat \<Rightarrow> string \<Rightarrow> task_queue \<Rightarrow> task_queue option" where
  "tq_take now user s =
     (case (tq_workers s user, tq_queues s user) of
        (Some Waiting, Some q) \<Rightarrow>
          (case uq_items q of
             [] \<Rightarrow> None
           | Stop # rest \<Rightarrow>
               Some (s\<lparr>tq_queues := (tq_queues s)(user \<mapsto> tq_task_done (q\<lparr>uq_items := rest\<rparr>)),
                       tq_workers := (tq_workers s)(user \<mapsto> Returned)\<rparr>)
           | Task task_id # rest \<Rightarrow>
               if task_id \<notin> set (tq_live s)
               then Some (s\<lparr>tq_queues := (tq_queues s)(user \<mapsto> tq_task_done (q\<lparr>uq_items := rest\<rparr>)),
                            tq_workers := (tq_workers s)(user \<mapsto> Crashed)\<rparr>)
               else Some (s\<lparr>tq_objects := AList.map_entry task_id (tq_start now) (tq_objects s),
                            tq_queues := (tq_queues s)(user \<mapsto> q\<lparr>uq_items := rest\<rparr>),
                            tq_workers := (tq_workers s)(user \<mapsto> Busy task_id)\<rparr>))
      | _ \<Rightarrow> None)"

text \<open>\<open>_retain_completed\<close>: the loop that evicts the oldest completed records.\<close>

fun tq_expire :: "nat \<Rightarrow> string list \<Rightarrow> string list \<Rightarrow> string list \<times> string list" where
  "tq_expire max_records [] live = ([], live)"
| "tq_expire max_records (expired # order) live =
     (if length (expired # order) > max_records
      then tq_expire max_records order (removeAll expired live)
      else (expired # order, live))"

definition tq_retain_completed :: "string \<Rightarrow> task_queue \<Rightarrow> task_queue" where
  "tq_retain_completed task_id s =
     (case tq_expire (tq_max s) (tq_completed s @ [task_id]) (tq_live s) of
        (order, live) \<Rightarrow> s\<lparr>tq_completed := order, tq_live := live\<rparr>)"

text \<open>How the work ends: it returns, raises (or is no awaitable), or is cancelled.\<close>

datatype work_outcome = WorkReturned | WorkRaised | WorkNotAwaitable | WorkCancelled

definition tq_finished_record :: "nat \<Rightarrow> work_outcome \<Rightarrow> task_record \<Rightarrow> task_record" where
  "tq_finished_record now outcome r =
     (case outcome of
        WorkReturned \<Rightarrow> r\<lparr>tr_status := Succeeded\<rparr>
      | WorkCancelled \<Rightarrow>
          r\<lparr>tr_status := Failed, tr_error_code := Some ''TASK_CANCELLED'',
            tr_error := Some ''Background operation was cancelled. Retry the original operation.''\<rparr>
      | _ \<Rightarrow>
          r\<lparr>tr_status := Failed, tr_error_code := Some ''TASK_FAILED'',
            tr_error := Some ''Background operation failed. Retry the original operation.''\<rparr>)
     \<lparr>tr_finished := Some now, tr_completed := True\<rparr>"

definition tq_finish :: "nat \<Rightarrow> string \<Rightarrow> work_outcome \<Rightarrow> task_queue \<Rightarrow> task_queue option" where
  "tq_finish now user outcome s =
     (case (tq_workers s user, tq_queues s user) of
        (Some (Busy task_id), Some q) \<Rightarrow>
          Some (tq_retain_completed task_id
            (s\<lparr>tq_objects := AList.map_entry task_id (tq_finished_record now outcome) (tq_objects s),
               tq_queues := (tq_queues s)(user \<mapsto> tq_task_done q),
               tq_workers := (tq_workers s)(user \<mapsto> (if outcome = WorkCancelled then Cancelled else Waiting))\<rparr>))
      | _ \<Rightarrow> None)"

definition tq_get :: "user_pattern \<Rightarrow> task_queue \<Rightarrow> pyval \<Rightarrow> pyval \<Rightarrow> task_snapshot res" where
  "tq_get pat s task_id user_id =
     rbind (required_identifier task_id ''task_id'') (\<lambda>key.
     rbind (validated_user_id pat user_id) (\<lambda>user.
       case (if key \<in> set (tq_live s) then map_of (tq_objects s) key else None) of
         None \<Rightarrow> Inl (KeyError (PStr key))
       | Some r \<Rightarrow> if tr_user r \<noteq> user then Inl (KeyError (PStr key)) else Inr (tr_snapshot key r)))"

text \<open>
  \<open>wait\<close> looks the record up in one state and answers in a later one, when its event is set;
  \<open>None\<close> is a waiter that is still suspended.
\<close>

definition tq_wait_result :: "string \<Rightarrow> task_queue \<Rightarrow> task_snapshot option" where
  "tq_wait_result key later =
     (case map_of (tq_objects later) key of
        Some r \<Rightarrow> if tr_completed r then Some (tr_snapshot key r) else None
      | None \<Rightarrow> None)"

definition tq_wait :: "user_pattern \<Rightarrow> task_queue \<Rightarrow> pyval \<Rightarrow> pyval \<Rightarrow> string res" where
  "tq_wait pat s task_id user_id = rbind (tq_get pat s task_id user_id) (\<lambda>snap. Inr (ts_task snap))"

definition tq_close_begin :: "task_queue \<Rightarrow> task_queue option" where
  "tq_close_begin s =
     (if tq_phase s = NotClosing then Some (s\<lparr>tq_accepting := False, tq_phase := Draining\<rparr>) else None)"

text \<open>All \<open>queue.join()\<close> have returned; every queue gets the stop marker.\<close>

definition tq_close_stop :: "task_queue \<Rightarrow> task_queue option" where
  "tq_close_stop s =
     (if tq_phase s = Draining \<and> (\<forall>q \<in> ran (tq_queues s). uq_unfinished q = 0)
      then Some (s\<lparr>tq_queues := (\<lambda>u. map_option (tq_put Stop) (tq_queues s u)), tq_phase := Stopping\<rparr>)
      else None)"

text \<open>\<open>asyncio.gather(*workers)\<close>: a worker that was cancelled or crashed makes \<open>close\<close> raise.\<close>

definition tq_close_end :: "task_queue \<Rightarrow> task_queue option" where
  "tq_close_end s =
     (if tq_phase s \<noteq> Stopping then None
      else if Cancelled \<in> ran (tq_workers s) \<or> Crashed \<in> ran (tq_workers s) then Some (s\<lparr>tq_phase := CloseCancelled\<rparr>)
      else if ran (tq_workers s) \<subseteq> {Returned}
      then Some (s\<lparr>tq_workers := (\<lambda>_. None), tq_queues := (\<lambda>_. None), tq_phase := Closed\<rparr>)
      else None)"

inductive tq_step :: "user_pattern \<Rightarrow> task_queue \<Rightarrow> task_queue \<Rightarrow> bool" for pat where
  enqueue: "task_id \<notin> fst ` set (tq_objects s) \<Longrightarrow>
      tq_enqueue pat task_id now user_id operation is_callable s = (r, t) \<Longrightarrow> tq_step pat s t"
| take: "tq_take now user s = Some t \<Longrightarrow> tq_step pat s t"
| finish: "tq_finish now user outcome s = Some t \<Longrightarrow> tq_step pat s t"
| close_begin: "tq_close_begin s = Some t \<Longrightarrow> tq_step pat s t"
| close_stop: "tq_close_stop s = Some t \<Longrightarrow> tq_step pat s t"
| close_end: "tq_close_end s = Some t \<Longrightarrow> tq_step pat s t"

section \<open>Invariant\<close>

definition user_ids :: "(string, task_record) dict \<Rightarrow> string \<Rightarrow> string list" where
  "user_ids objs u = map fst (filter (\<lambda>p. tr_user (snd p) = u) objs)"

definition busy_ids :: "worker option \<Rightarrow> string list" where
  "busy_ids w = (case w of Some (Busy i) \<Rightarrow> [i] | _ \<Rightarrow> [])"

primrec task_ids :: "item list \<Rightarrow> string list" where
  "task_ids [] = []"
| "task_ids (x # xs) = (case x of Task i \<Rightarrow> [i] | Stop \<Rightarrow> []) @ task_ids xs"

definition queued_ids :: "user_queue option \<Rightarrow> string list" where
  "queued_ids q = (case q of None \<Rightarrow> [] | Some q \<Rightarrow> task_ids (uq_items q))"

definition has_status :: "(string, task_record) dict \<Rightarrow> task_status set \<Rightarrow> string \<Rightarrow> bool" where
  "has_status objs st i \<longleftrightarrow> (\<exists>r. map_of objs i = Some r \<and> tr_status r \<in> st
     \<and> (tr_completed r \<longleftrightarrow> tr_status r \<in> {Succeeded, Failed}))"

text \<open>
  One user's part: the tasks of the user in the order of their acceptance are the finished ones, then
  the running one, then the queued ones in the order of the queue.
\<close>

definition user_ok :: "(string, task_record) dict \<Rightarrow> string list \<Rightarrow> worker option \<Rightarrow> user_queue option \<Rightarrow> string \<Rightarrow> bool" where
  "user_ok objs live w q u \<longleftrightarrow>
     (\<exists>fin. user_ids objs u = fin @ busy_ids w @ queued_ids q \<and> (\<forall>i \<in> set fin. has_status objs {Succeeded, Failed} i))
     \<and> (\<forall>i \<in> set (busy_ids w). has_status objs {Running} i) \<and> (\<forall>i \<in> set (queued_ids q). has_status objs {Queued} i)
     \<and> set (busy_ids w @ queued_ids q) \<subseteq> set live
     \<and> (case q of None \<Rightarrow> w = None
        | Some q \<Rightarrow> w \<noteq> None \<and> uq_unfinished q = int (length (uq_items q) + length (busy_ids w)))"

definition store_ok :: "task_queue \<Rightarrow> bool" where
  "store_ok s \<longleftrightarrow> distinct (map fst (tq_objects s)) \<and> set (tq_live s) \<subseteq> fst ` set (tq_objects s)
     \<and> distinct (tq_live s) \<and> distinct (tq_completed s) \<and> set (tq_completed s) \<subseteq> set (tq_live s)
     \<and> (\<forall>i \<in> set (tq_live s). has_status (tq_objects s) {Succeeded, Failed} i \<longleftrightarrow> i \<in> set (tq_completed s))
     \<and> length (tq_completed s) \<le> tq_max s"

definition phase_ok :: "task_queue \<Rightarrow> bool" where
  "phase_ok s \<longleftrightarrow> (tq_accepting s \<longleftrightarrow> tq_phase s = NotClosing)
     \<and> (tq_phase s \<in> {NotClosing, Draining} \<longrightarrow> (\<forall>u q. tq_queues s u = Some q \<longrightarrow> Stop \<notin> set (uq_items q)))
     \<and> (tq_phase s \<notin> {NotClosing, Draining} \<longrightarrow>
          (\<forall>u. busy_ids (tq_workers s u) = [] \<and> queued_ids (tq_queues s u) = []))"

definition tq_inv :: "task_queue \<Rightarrow> bool" where
  "tq_inv s \<longleftrightarrow> store_ok s \<and> phase_ok s
     \<and> (\<forall>u. user_ok (tq_objects s) (tq_live s) (tq_workers s u) (tq_queues s u) u)"

lemma busy_ids_simps [simp]:
  "busy_ids None = []" "busy_ids (Some Waiting) = []" "busy_ids (Some (Busy i)) = [i]"
  "busy_ids (Some Returned) = []" "busy_ids (Some Cancelled) = []" "busy_ids (Some Crashed) = []"
  by (simp_all add: busy_ids_def)

lemma queued_ids_simps [simp]: "queued_ids None = []" "queued_ids (Some q) = task_ids (uq_items q)"
  by (simp_all add: queued_ids_def)

lemma task_ids_append [simp]: "task_ids (xs @ ys) = task_ids xs @ task_ids ys"
  by (induction xs) auto

lemma user_ids_map_entry:
  assumes "\<And>r. tr_user (f r) = tr_user r"
  shows "user_ids (AList.map_entry i f objs) u = user_ids objs u"
  using assms by (induction objs) (auto simp: user_ids_def)

lemma user_ids_new:
  "i \<notin> fst ` set objs \<Longrightarrow>
   user_ids (AList.update i r objs) u = user_ids objs u @ (if tr_user r = u then [i] else [])"
  by (simp add: user_ids_def update_new)

lemma in_user_ids:
  "distinct (map fst objs) \<Longrightarrow> i \<in> set (user_ids objs u) \<longleftrightarrow> (\<exists>r. map_of objs i = Some r \<and> tr_user r = u)"
  by (force simp: user_ids_def map_of_eq_Some_iff)

lemma distinct_user_ids: "distinct (map fst objs) \<Longrightarrow> distinct (user_ids objs u)"
  by (simp add: user_ids_def distinct_map_filter)

lemma has_status_map_entry_other:
  "j \<noteq> i \<Longrightarrow> has_status (AList.map_entry i f objs) st j = has_status objs st j"
  by (simp add: has_status_def map_of_map_entry)

lemma has_status_update_other:
  "j \<noteq> i \<Longrightarrow> has_status (AList.update i r objs) st j = has_status objs st j"
  by (simp add: has_status_def update_conv')

lemma has_status_unique: "has_status objs st i \<Longrightarrow> has_status objs st' i \<Longrightarrow> st \<inter> st' \<noteq> {}"
  by (auto simp: has_status_def)

lemma tq_invD:
  assumes "tq_inv s"
  shows "store_ok s" "phase_ok s" "user_ok (tq_objects s) (tq_live s) (tq_workers s u) (tq_queues s u) u"
  using assms by (auto simp: tq_inv_def)

text \<open>A change of one record of user \<open>u\<close> leaves the part of every other user as it was.\<close>

lemma user_ok_frame:
  assumes ok: "user_ok objs live w q v" and d: "distinct (map fst objs)"
    and i: "i \<in> set (user_ids objs u)" "v \<noteq> u"
    and f: "\<And>r. tr_user (f r) = tr_user r"
    and live: "\<And>j. j \<in> set live \<Longrightarrow> j \<noteq> i \<Longrightarrow> j \<in> set live' \<or> has_status objs {Succeeded, Failed} j"
  shows "user_ok (AList.map_entry i f objs) live' w q v"
proof -
  have ni: "j \<noteq> i" if "j \<in> set (user_ids objs v)" for j
    using that i in_user_ids [OF d] by fastforce
  obtain fin where fin: "user_ids objs v = fin @ busy_ids w @ queued_ids q"
    using ok by (auto simp: user_ok_def)
  have mem: "j \<in> set (fin @ busy_ids w @ queued_ids q) \<Longrightarrow> j \<noteq> i" for j
    using ni unfolding fin by blast
  have "set (busy_ids w @ queued_ids q) \<subseteq> set live'"
  proof
    fix j assume j: "j \<in> set (busy_ids w @ queued_ids q)"
    then have "has_status objs {Running, Queued} j" "j \<in> set live"
      using ok by (auto simp: user_ok_def has_status_def)
    moreover from this have "\<not> has_status objs {Succeeded, Failed} j"
      using has_status_unique by fastforce
    ultimately show "j \<in> set live'"
      using live mem [of j] j by auto
  qed
  moreover have "\<exists>fin. user_ids objs v = fin @ busy_ids w @ queued_ids q \<and> (\<forall>j \<in> set fin. has_status (AList.map_entry i f objs) {Succeeded, Failed} j)"
    using ok mem fin unfolding user_ok_def by (auto simp: has_status_map_entry_other)
  moreover have "\<forall>j \<in> set (busy_ids w). has_status (AList.map_entry i f objs) {Running} j"
    "\<forall>j \<in> set (queued_ids q). has_status (AList.map_entry i f objs) {Queued} j"
    using ok mem unfolding user_ok_def by (auto simp: has_status_map_entry_other)
  ultimately show ?thesis
    using ok unfolding user_ok_def user_ids_map_entry [OF f] by blast
qed

section \<open>Every step keeps the invariant\<close>

lemma store_ok_entry:
  assumes s: "store_ok s" and i: "i \<in> set (tq_live s)" and f: "\<And>r. tr_user (f r) = tr_user r"
    and st: "has_status (tq_objects s) {Queued} i" "has_status (AList.map_entry i f (tq_objects s)) {Running} i"
    and t: "tq_objects t = AList.map_entry i f (tq_objects s)" "tq_live t = tq_live s"
      "tq_completed t = tq_completed s" "tq_max t = tq_max s"
  shows "store_ok t"
proof -
  have "\<not> has_status (tq_objects s) {Succeeded, Failed} i"
    "\<not> has_status (AList.map_entry i f (tq_objects s)) {Succeeded, Failed} i"
    using st has_status_unique by fastforce+
  then have "has_status (tq_objects t) {Succeeded, Failed} j = has_status (tq_objects s) {Succeeded, Failed} j" for j
    by (cases "j = i") (simp_all add: t has_status_map_entry_other)
  with s show ?thesis
    by (simp add: store_ok_def t dom_map_entry distinct_map_entry)
qed

lemma tq_accept_keeps:
  assumes inv: "tq_inv s" and new: "i \<notin> fst ` set (tq_objects s)" and acc: "tq_accepting s"
    and t: "t = tq_accept i u name now s"
  shows "tq_inv t"
proof -
  let ?r = "\<lparr>tr_user = u, tr_operation = name, tr_status = Queued,
                     tr_error_code = None, tr_error = None, tr_created = now, tr_completed = False,
                     tr_started = None, tr_finished = None\<rparr>"
  let ?objs = "AList.update i ?r (tq_objects s)"
  note st = tq_invD(1) [OF inv] and ph = tq_invD(2) [OF inv]
  have old: "has_status ?objs X j = has_status (tq_objects s) X j" if "j \<noteq> i" for X j
    using that by (rule has_status_update_other)
  have newst: "has_status ?objs X i \<longleftrightarrow> Queued \<in> X" for X
    by (auto simp: has_status_def update_conv')
  have live: "i \<notin> set (tq_live s)"
    using st new by (auto simp: store_ok_def)
  have old_live: "has_status ?objs X j = has_status (tq_objects s) X j" if "j \<in> set (tq_live s)" for X j
    using live that by (intro old) auto
  have "store_ok t"
    using st live new old_live newst by (auto simp: store_ok_def t tq_accept_def Let_def distinct_update dom_update)
  moreover have "phase_ok t"
    using ph acc by (auto simp: phase_ok_def t tq_accept_def Let_def tq_put_def split: option.splits)
  moreover have "user_ok (tq_objects t) (tq_live t) (tq_workers t v) (tq_queues t v) v" for v
  proof -
    have ok: "user_ok (tq_objects s) (tq_live s) (tq_workers s v) (tq_queues s v) v"
      by (rule tq_invD(3) [OF inv])
    then obtain fin where fin: "user_ids (tq_objects s) v = fin @ busy_ids (tq_workers s v) @ queued_ids (tq_queues s v)"
      by (auto simp: user_ok_def)
    have ni: "j \<noteq> i" if "j \<in> set (fin @ busy_ids (tq_workers s v) @ queued_ids (tq_queues s v))" for j
      using that new unfolding fin [symmetric] by (auto simp: user_ids_def)
    have ids: "user_ids ?objs v = user_ids (tq_objects s) v @ (if u = v then [i] else [])"
      using user_ids_new [OF new, of ?r v] by simp
    have b: "busy_ids (tq_workers t v) = busy_ids (tq_workers s v)"
      by (auto simp: t tq_accept_def Let_def tq_done_def)
    have q: "queued_ids (tq_queues t v) = queued_ids (tq_queues s v) @ (if u = v then [i] else [])"
      by (auto simp: t tq_accept_def Let_def tq_put_def split: option.splits)
    have cnt: "case tq_queues t v of None \<Rightarrow> tq_workers t v = None
        | Some q \<Rightarrow> tq_workers t v \<noteq> None \<and> uq_unfinished q = int (length (uq_items q) + length (busy_ids (tq_workers t v)))"
      unfolding b using ok by (auto simp: t tq_accept_def Let_def user_ok_def tq_put_def tq_done_def split: option.splits if_splits)
    have "\<forall>j \<in> set fin. has_status ?objs {Succeeded, Failed} j" "\<forall>j \<in> set (busy_ids (tq_workers s v)). has_status ?objs {Running} j"
      "\<forall>j \<in> set (queued_ids (tq_queues s v)). has_status ?objs {Queued} j"
      using ok fin ni old by (auto simp: user_ok_def)
    then show ?thesis
      using ok fin newst cnt unfolding user_ok_def b q
      by (auto simp: ids t tq_accept_def Let_def)
  qed
  ultimately show ?thesis
    by (simp add: tq_inv_def)
qed

lemma tq_enqueue_keeps:
  assumes "tq_inv s" "i \<notin> fst ` set (tq_objects s)" "tq_enqueue pat i now uid oper c s = (r, t)"
  shows "tq_inv t"
  using assms by (auto simp: tq_enqueue_def obind_def intro: tq_accept_keeps split: sum.splits if_splits)

lemma user_ok_take:
  assumes ok: "user_ok objs live (Some Waiting) (Some q) u" and d: "distinct (map fst objs)"
    and q: "uq_items q = Task i # rest"
  shows "user_ok (AList.map_entry i (tq_start now) objs) live (Some (Busy i)) (Some (q\<lparr>uq_items := rest\<rparr>)) u"
    and "i \<in> set (user_ids objs u)" and "i \<in> set live" and "has_status objs {Queued} i"
    and "has_status (AList.map_entry i (tq_start now) objs) {Running} i"
proof -
  obtain fin where fin: "user_ids objs u = fin @ i # task_ids rest" "\<forall>j \<in> set fin. has_status objs {Succeeded, Failed} j"
    using ok by (auto simp: user_ok_def q)
  have dist: "distinct (fin @ i # task_ids rest)"
    using distinct_user_ids [OF d, of u] by (simp add: fin(1))
  then have ni: "j \<noteq> i" if "j \<in> set fin \<union> set (task_ids rest)" for j
    using that by auto
  show "i \<in> set (user_ids objs u)" "i \<in> set live" and qi: "has_status objs {Queued} i"
    using ok by (simp_all add: fin user_ok_def q)
  show run: "has_status (AList.map_entry i (tq_start now) objs) {Running} i"
    using qi by (auto simp: has_status_def map_of_map_entry tq_start_def)
  have "user_ids (AList.map_entry i (tq_start now) objs) u = user_ids objs u"
    by (rule user_ids_map_entry) (simp add: tq_start_def)
  then show "user_ok (AList.map_entry i (tq_start now) objs) live (Some (Busy i)) (Some (q\<lparr>uq_items := rest\<rparr>)) u"
    using ok fin ni run by (auto simp: user_ok_def q has_status_map_entry_other)
qed

lemma tq_take_keeps:
  assumes inv: "tq_inv s" and run: "tq_take now u s = Some t"
  shows "tq_inv t"
proof -
  note st = tq_invD(1) [OF inv] and ph = tq_invD(2) [OF inv] and us = tq_invD(3) [OF inv]
  have d: "distinct (map fst (tq_objects s))"
    using st by (simp add: store_ok_def)
  obtain q x rest where w: "tq_workers s u = Some Waiting" and q: "tq_queues s u = Some q"
    and items: "uq_items q = x # rest"
    using run by (auto simp: tq_take_def split: option.splits worker.splits list.splits)
  have uu: "user_ok (tq_objects s) (tq_live s) (Some Waiting) (Some q) u"
    using us [of u] by (simp add: w q)
  show ?thesis
  proof (cases x)
    case Stop
    then have t: "t = s\<lparr>tq_queues := (tq_queues s)(u \<mapsto> tq_task_done (q\<lparr>uq_items := rest\<rparr>)),
                       tq_workers := (tq_workers s)(u \<mapsto> Returned)\<rparr>"
      using run by (simp add: tq_take_def w q items)
    have "Stop \<in> set (uq_items q)"
      by (simp add: items Stop)
    then have "tq_phase s \<notin> {NotClosing, Draining}"
      using ph q unfolding phase_ok_def by blast
    moreover from this have "queued_ids (tq_queues s u) = []"
      using ph unfolding phase_ok_def by blast
    ultimately have "phase_ok t"
      using ph q by (auto simp: phase_ok_def t tq_task_done_def items Stop split: if_splits)
    moreover have "user_ok (tq_objects t) (tq_live t) (tq_workers t v) (tq_queues t v) v" for v
      using us [of v] uu by (auto simp: t user_ok_def tq_task_done_def items Stop)
    ultimately show ?thesis
      using st by (simp add: tq_inv_def t store_ok_def)
  next
    case (Task i)
    note it = items [unfolded Task]
    note uo = user_ok_take(2-4) [OF uu d it] and uo' = user_ok_take(1,5) [OF uu d it, of now]
    have t: "t = s\<lparr>tq_objects := AList.map_entry i (tq_start now) (tq_objects s),
                   tq_queues := (tq_queues s)(u \<mapsto> q\<lparr>uq_items := rest\<rparr>),
                   tq_workers := (tq_workers s)(u \<mapsto> Busy i)\<rparr>"
      using run uo(2) by (simp add: tq_take_def w q it)
    have "queued_ids (tq_queues s u) \<noteq> []"
      by (simp add: q it)
    then have "tq_phase s \<in> {NotClosing, Draining}"
      using ph unfolding phase_ok_def by metis
    moreover from this have "Stop \<notin> set (uq_items q)"
      using ph q unfolding phase_ok_def by blast
    ultimately have "phase_ok t"
      using ph q by (auto simp: phase_ok_def t it split: if_splits)
    moreover have "store_ok t"
      by (rule store_ok_entry [OF st uo(2) _ uo(3) uo'(2)]) (simp_all add: t tq_start_def)
    moreover have "user_ok (tq_objects t) (tq_live t) (tq_workers t v) (tq_queues t v) v" for v
      using uo'(1) user_ok_frame [OF us [of v] d uo(1), of "tq_start now" "tq_live s"]
      by (cases "v = u") (auto simp: t tq_start_def)
    ultimately show ?thesis
      by (simp add: tq_inv_def)
  qed
qed

lemma tq_expire_eq:
  "tq_expire m order live =
    (drop (length order - m) order, filter (\<lambda>x. x \<notin> set (take (length order - m) order)) live)"
proof (induction order arbitrary: live)
  case Nil
  then show ?case by simp
next
  case (Cons x order)
  show ?case
  proof (cases "length (x # order) > m")
    case True
    then have "length (x # order) - m = Suc (length order - m)"
      by simp
    then show ?thesis
      using Cons True by (auto simp: removeAll_filter_not_eq intro: filter_cong)
  next
    case False
    then have "length (x # order) - m = 0"
      by simp
    with False show ?thesis
      by simp
  qed
qed

lemma tq_finish_keeps:
  assumes inv: "tq_inv s" and run: "tq_finish now u outcome s = Some t"
  shows "tq_inv t"
proof -
  note st = tq_invD(1) [OF inv] and ph = tq_invD(2) [OF inv] and us = tq_invD(3) [OF inv]
  have d: "distinct (map fst (tq_objects s))"
    using st by (simp add: store_ok_def)
  obtain q i where w: "tq_workers s u = Some (Busy i)" and q: "tq_queues s u = Some q"
    using run by (auto simp: tq_finish_def split: option.splits worker.splits)
  let ?f = "tq_finished_record now outcome"
  let ?objs = "AList.map_entry i ?f (tq_objects s)"
  let ?done = "tq_completed s @ [i]"
  let ?k = "length ?done - tq_max s"
  let ?w = "if outcome = WorkCancelled then Cancelled else Waiting"
  let ?live = "filter (\<lambda>x. x \<notin> set (take ?k ?done)) (tq_live s)"
  have t: "t = s\<lparr>tq_objects := ?objs, tq_queues := (tq_queues s)(u \<mapsto> tq_task_done q),
      tq_workers := (tq_workers s)(u \<mapsto> ?w), tq_completed := drop ?k ?done, tq_live := ?live\<rparr>"
    using run by (simp add: tq_finish_def w q tq_retain_completed_def tq_expire_eq)
  have f: "tr_user (?f r) = tr_user r" for r
    by (simp add: tq_finished_record_def split: work_outcome.splits)
  have ids: "user_ids ?objs v = user_ids (tq_objects s) v" for v
    by (rule user_ids_map_entry) (rule f)
  obtain fin where fin: "user_ids (tq_objects s) u = fin @ i # task_ids (uq_items q)"
      "\<forall>j \<in> set fin. has_status (tq_objects s) {Succeeded, Failed} j"
    using us [of u] by (auto simp: user_ok_def w q)
  have dist: "distinct (fin @ i # task_ids (uq_items q))"
    using distinct_user_ids [OF d, of u] by (simp add: fin(1))
  have ri: "has_status (tq_objects s) {Running} i" and li: "i \<in> set (tq_live s)"
    using us [of u] by (simp_all add: user_ok_def w q)
  have di: "has_status ?objs {Succeeded, Failed} i"
    using ri by (auto simp: has_status_def map_of_map_entry tq_finished_record_def split: work_outcome.splits)
  have nd: "\<not> has_status (tq_objects s) {Succeeded, Failed} i"
    using has_status_unique [OF ri] by fastforce
  have cl: "set (tq_completed s) \<subseteq> set (tq_live s)" "distinct (tq_completed s)" "length (tq_completed s) \<le> tq_max s"
    and ter: "\<And>j. j \<in> set (tq_live s) \<Longrightarrow> has_status (tq_objects s) {Succeeded, Failed} j \<longleftrightarrow> j \<in> set (tq_completed s)"
    using st by (simp_all add: store_ok_def)
  have ni: "i \<notin> set (tq_completed s)"
    using ter [OF li] nd by simp
  have dd: "distinct ?done"
    using cl(2) ni by simp
  have other: "has_status ?objs X j = has_status (tq_objects s) X j" if "j \<noteq> i" for X j
    using that by (rule has_status_map_entry_other)
  have ter': "has_status ?objs {Succeeded, Failed} j \<longleftrightarrow> j \<in> set ?done" if "j \<in> set (tq_live s)" for j
    using ter [OF that] other [of j] di by (cases "j = i") auto
  have split: "set ?done = set (take ?k ?done) \<union> set (drop ?k ?done)" "set (take ?k ?done) \<inter> set (drop ?k ?done) = {}"
    using dd by (metis append_take_drop_id set_append, metis append_take_drop_id distinct_append)
  have tt: "tq_objects t = ?objs" "tq_live t = ?live" "tq_completed t = drop ?k ?done" "tq_max t = tq_max s"
    by (simp_all add: t)
  have "store_ok t"
    unfolding store_ok_def tt
  proof (intro conjI ballI)
    show "distinct (map fst ?objs)"
      using d by (rule distinct_map_entry)
    show "set ?live \<subseteq> fst ` set ?objs"
      using st by (auto simp: store_ok_def dom_map_entry)
    show "distinct ?live"
      using st by (simp add: store_ok_def)
    show "distinct (drop ?k ?done)"
      using dd by (rule distinct_drop)
    show "set (drop ?k ?done) \<subseteq> set ?live"
      using split cl(1) li by auto
    show "has_status ?objs {Succeeded, Failed} j \<longleftrightarrow> j \<in> set (drop ?k ?done)" if "j \<in> set ?live" for j
      using that ter' [of j] split by auto
    show "length (drop ?k ?done) \<le> tq_max s"
      by simp
  qed
  moreover have "phase_ok t"
  proof -
    have "busy_ids (tq_workers s u) \<noteq> []"
      by (simp add: w)
    then have "tq_phase s \<in> {NotClosing, Draining}"
      using ph unfolding phase_ok_def by metis
    then show ?thesis
      using ph q by (auto simp: phase_ok_def t tq_task_done_def split: if_splits)
  qed
  moreover have "user_ok (tq_objects t) (tq_live t) (tq_workers t v) (tq_queues t v) v" for v
  proof (cases "v = u")
    case True
    have qs: "\<forall>j \<in> set (task_ids (uq_items q)). has_status (tq_objects s) {Queued} j \<and> j \<in> set (tq_live s)"
      using us [of u] by (auto simp: user_ok_def w q)
    have keep: "j \<in> set ?live \<and> has_status ?objs {Queued} j" if j: "j \<in> set (task_ids (uq_items q))" for j
    proof -
      have "j \<noteq> i"
        using dist j by auto
      then have h: "has_status ?objs {Queued} j" "j \<in> set (tq_live s)"
        using qs j other by auto
      then have "\<not> has_status ?objs {Succeeded, Failed} j"
        using has_status_unique by fastforce
      with h ter' [of j] split show ?thesis
        by auto
    qed
    have cnt: "uq_unfinished q = int (length (uq_items q)) + 1"
      using us [of u] by (simp add: user_ok_def w q)
    have b: "busy_ids (Some ?w) = []"
      by simp
    have "has_status ?objs {Succeeded, Failed} j" if "j \<in> set (fin @ [i])" for j
      using that fin(2) di other [of j] by (cases "j = i") auto
    then show ?thesis
      using keep cnt unfolding True user_ok_def t
      by (auto simp: b ids fin(1) tq_task_done_def intro!: exI [of _ "fin @ [i]"])
  next
    case False
    have "i \<in> set (user_ids (tq_objects s) u)"
      by (simp add: fin(1))
    then have "user_ok ?objs ?live (tq_workers s v) (tq_queues s v) v"
    proof (rule user_ok_frame [OF us d _ False f])
      fix j assume j: "j \<in> set (tq_live s)" "j \<noteq> i"
      show "j \<in> set ?live \<or> has_status (tq_objects s) {Succeeded, Failed} j"
        using j ter [OF j(1)] split(1) by auto
    qed
    with False show ?thesis
      by (simp add: t)
  qed
  ultimately show ?thesis
    by (simp add: tq_inv_def)
qed

lemma tq_close_keeps:
  assumes inv: "tq_inv s" and run: "tq_close_begin s = Some t \<or> tq_close_stop s = Some t \<or> tq_close_end s = Some t"
  shows "tq_inv t"
proof -
  note st = tq_invD(1) [OF inv] and ph = tq_invD(2) [OF inv] and us = tq_invD(3) [OF inv]
  consider (starting) "tq_close_begin s = Some t" | (stopping) "tq_close_stop s = Some t" | (ending) "tq_close_end s = Some t"
    using run by blast
  then show ?thesis
  proof cases
    case starting
    then show ?thesis
      using st ph us by (auto simp: tq_close_begin_def tq_inv_def store_ok_def phase_ok_def split: if_splits)
  next
    case stopping
    then have p: "tq_phase s = Draining" and z: "\<And>u q. tq_queues s u = Some q \<Longrightarrow> uq_unfinished q = 0"
      and t: "t = s\<lparr>tq_queues := (\<lambda>u. map_option (tq_put Stop) (tq_queues s u)), tq_phase := Stopping\<rparr>"
      by (auto simp: tq_close_stop_def ran_def split: if_splits)
    have e: "uq_items q = [] \<and> busy_ids (tq_workers s u) = []" if q: "tq_queues s u = Some q" for u q
    proof -
      have "int (length (uq_items q) + length (busy_ids (tq_workers s u))) = 0"
        using us [of u] z [OF q] unfolding user_ok_def q by simp
      then have "length (uq_items q) + length (busy_ids (tq_workers s u)) = 0"
        by (simp only: of_nat_eq_0_iff)
      then show ?thesis
        by simp
    qed
    have b: "busy_ids (tq_workers s u) = []" for u
      using us [of u] e [of u] by (cases "tq_queues s u") (auto simp: user_ok_def)
    have "user_ok (tq_objects t) (tq_live t) (tq_workers t u) (tq_queues t u) u" for u
      using us [of u] e [of u] by (cases "tq_queues s u") (auto simp: t user_ok_def tq_put_def)
    moreover have "phase_ok t"
      using ph p b e by (auto simp: phase_ok_def t tq_put_def queued_ids_def split: option.splits)
    ultimately show ?thesis
      using st by (simp add: tq_inv_def t store_ok_def)
  next
    case ending
    then have p: "tq_phase s = Stopping"
      by (simp add: tq_close_end_def split: if_splits)
    have e: "busy_ids (tq_workers s u) = []" "queued_ids (tq_queues s u) = []" for u
      using ph by (auto simp: phase_ok_def p)
    have "user_ok (tq_objects s) (tq_live s) None None u" for u
      using us [of u] e [of u] by (auto simp: user_ok_def)
    then show ?thesis
      using st ph us ending p
      by (auto simp: tq_close_end_def tq_inv_def store_ok_def phase_ok_def split: if_splits)
  qed
qed

lemma tq_step_keeps: "tq_step pat s t \<Longrightarrow> tq_inv s \<Longrightarrow> tq_inv t"
  by (induction rule: tq_step.induct)
    (auto intro: tq_enqueue_keeps tq_take_keeps tq_finish_keeps tq_close_keeps)

interpretation tq: step_invariant "tq_step pat" tq_inv for pat
  by unfold_locales (rule tq_step_keeps)

lemma tq_new_inv: "tq_new m = Inr s \<Longrightarrow> tq_inv s"
  by (auto simp: tq_new_def tq_inv_def store_ok_def phase_ok_def user_ok_def user_ids_def split: pyval.splits if_splits)

lemma tq_reachable_inv: "tq_new m = Inr s \<Longrightarrow> (tq_step pat)\<^sup>*\<^sup>* s t \<Longrightarrow> tq_inv t"
  using tq.reachable_inv tq_new_inv by blast

section \<open>Record objects persist\<close>

definition record_kept :: "task_queue \<Rightarrow> task_queue \<Rightarrow> bool" where
  "record_kept s t \<longleftrightarrow> (\<forall>i r. map_of (tq_objects s) i = Some r \<longrightarrow>
     (\<exists>r'. map_of (tq_objects t) i = Some r' \<and> tr_user r' = tr_user r \<and> tr_operation r' = tr_operation r))"

lemma record_kept_entry:
  "(\<And>r. tr_user (f r) = tr_user r \<and> tr_operation (f r) = tr_operation r) \<Longrightarrow>
   tq_objects t = AList.map_entry i f (tq_objects s) \<Longrightarrow> record_kept s t"
  by (auto simp: record_kept_def map_of_map_entry)

lemma record_kept_same: "tq_objects t = tq_objects s \<Longrightarrow> record_kept s t"
  by (simp add: record_kept_def)

lemma tq_step_record_kept: "tq_step pat s t \<Longrightarrow> record_kept s t"
proof (induction rule: tq_step.induct)
  case (enqueue i s now uid oper c r t)
  then have "map_of (tq_objects s) i = None"
    by (simp add: map_of_eq_None_iff)
  with enqueue show ?case
    by (auto simp: tq_enqueue_def obind_def tq_accept_def record_kept_def update_conv'
        split: sum.splits if_splits)
next
  case (take now u s t)
  then show ?case
    by (auto simp: tq_take_def tq_start_def record_kept_def map_of_map_entry
        split: option.splits worker.splits list.splits item.splits if_splits)
next
  case (finish now u outcome s t)
  then obtain i where "tq_objects t = AList.map_entry i (tq_finished_record now outcome) (tq_objects s)"
    by (auto simp: tq_finish_def tq_retain_completed_def split: option.splits worker.splits prod.splits)
  then show ?case
    by (rule record_kept_entry [rotated]) (simp add: tq_finished_record_def split: work_outcome.splits)
qed (auto simp: tq_close_begin_def tq_close_stop_def tq_close_end_def intro: record_kept_same split: if_splits)

lemma record_kept_trans: "record_kept s t \<Longrightarrow> record_kept t u \<Longrightarrow> record_kept s u"
  unfolding record_kept_def by metis

lemma tq_steps_record_kept: "(tq_step pat)\<^sup>*\<^sup>* s t \<Longrightarrow> record_kept s t"
  by (induction rule: rtranclp_induct) (auto intro: record_kept_same record_kept_trans tq_step_record_kept)

definition no_crash :: "task_queue \<Rightarrow> bool" where
  "no_crash s \<longleftrightarrow> (\<forall>u. tq_workers s u \<noteq> Some Crashed)"

lemma tq_take_no_crash:
  assumes "tq_inv s" "no_crash s" "tq_take now u s = Some t"
  shows "no_crash t"
proof -
  have "i \<in> set (tq_live s)" if "tq_queues s u = Some q" "uq_items q = Task i # rest" for q i rest
    using tq_invD(3) [OF assms(1), of u] that by (auto simp: user_ok_def)
  then show ?thesis
    using assms(2,3)
    by (auto simp: tq_take_def no_crash_def split: option.splits worker.splits list.splits item.splits if_splits)
qed

lemma tq_step_no_crash: "tq_step pat s t \<Longrightarrow> tq_inv s \<Longrightarrow> no_crash s \<Longrightarrow> no_crash t"
proof (induction rule: tq_step.induct)
  case (take now u s t)
  then show ?case
    using tq_take_no_crash by blast
qed (auto simp: no_crash_def tq_enqueue_def obind_def tq_accept_def Let_def tq_finish_def tq_retain_completed_def
    tq_close_begin_def tq_close_stop_def tq_close_end_def split: sum.splits if_splits option.splits worker.splits prod.splits)

interpretation tq_safe: step_invariant "tq_step pat" "\<lambda>s. tq_inv s \<and> no_crash s" for pat
  by unfold_locales (use tq_step_keeps tq_step_no_crash in blast)

section \<open>Properties\<close>

text \<open>
  C18 (invariant). In every reachable state, whatever the interleaving of enqueues, workers, outcomes and
  \<open>close\<close>: each user's accepted tasks are, in the order of their acceptance, finished ones, then at most
  one running, then the queued ones (so work of one user is serial and first-in first-out), no worker
  ever misses its record, unfinished records are never evicted, and at most \<open>max_completed_records\<close>
  finished ones are retained.
\<close>

theorem task_queue_serial_fifo:
  assumes "tq_new m = Inr s0" and "(tq_step pat)\<^sup>*\<^sup>* s0 s"
  shows "(\<forall>u. \<exists>fin. user_ids (tq_objects s) u = fin @ busy_ids (tq_workers s u) @ queued_ids (tq_queues s u)
        \<and> list_all (has_status (tq_objects s) {Succeeded, Failed}) fin
        \<and> list_all (has_status (tq_objects s) {Running}) (busy_ids (tq_workers s u))
        \<and> list_all (has_status (tq_objects s) {Queued}) (queued_ids (tq_queues s u))
        \<and> tq_workers s u \<noteq> Some Crashed)
    \<and> (\<forall>i. has_status (tq_objects s) {Queued, Running} i \<longrightarrow> i \<in> set (tq_live s))
    \<and> length (filter (has_status (tq_objects s) {Succeeded, Failed}) (tq_live s)) \<le> tq_max s"
proof -
  have inv: "tq_inv s" and nc: "no_crash s"
    using tq_safe.reachable_inv [OF assms(2)] tq_new_inv [OF assms(1)] assms(1)
    by (auto simp: no_crash_def tq_new_def split: pyval.splits if_splits)
  note st = tq_invD(1) [OF inv] and us = tq_invD(3) [OF inv]
  have d: "distinct (map fst (tq_objects s))"
    using st by (simp add: store_ok_def)
  have live: "i \<in> set (tq_live s)" if i: "has_status (tq_objects s) {Queued, Running} i" for i
  proof -
    obtain r where r: "map_of (tq_objects s) i = Some r"
      using i by (auto simp: has_status_def)
    then have "i \<in> set (user_ids (tq_objects s) (tr_user r))"
      by (simp add: in_user_ids [OF d])
    moreover have "\<not> has_status (tq_objects s) {Succeeded, Failed} i"
      using has_status_unique [OF i] by fastforce
    ultimately show ?thesis
      using us [of "tr_user r"] by (auto simp: user_ok_def)
  qed
  have "set (filter (has_status (tq_objects s) {Succeeded, Failed}) (tq_live s)) = set (tq_completed s)"
    using st by (auto simp: store_ok_def)
  then have "length (filter (has_status (tq_objects s) {Succeeded, Failed}) (tq_live s)) = length (tq_completed s)"
    using st by (metis distinct_card distinct_filter store_ok_def)
  then have "length (filter (has_status (tq_objects s) {Succeeded, Failed}) (tq_live s)) \<le> tq_max s"
    using st by (simp add: store_ok_def)
  with live us nc show ?thesis
    unfolding user_ok_def no_crash_def list_all_iff by blast
qed


text \<open>A finished task never changes its status again.\<close>

lemma tq_step_final:
  assumes inv: "tq_inv s" and st: "tq_step pat s t"
    and i: "has_status (tq_objects s) X i" and X: "X \<subseteq> {Succeeded, Failed}"
  shows "has_status (tq_objects t) X i"
  using st
proof cases
  case (enqueue j now uid oper c r)
  then have "j \<noteq> i"
    using i unfolding has_status_def by (metis map_of_eq_None_iff option.distinct(1))
  with enqueue i show ?thesis
    by (auto simp: tq_enqueue_def obind_def tq_accept_def Let_def has_status_update_other
        split: sum.splits if_splits)
next
  case (take now u)
  have "i \<noteq> j" if "tq_workers s u = Some Waiting" "tq_queues s u = Some q" "uq_items q = Task j # rest" for q j rest
  proof -
    have "has_status (tq_objects s) {Queued} j"
      using tq_invD(3) [OF inv, of u] that by (simp add: user_ok_def)
    then show ?thesis
      using has_status_unique [OF i] X by fastforce
  qed
  with take i show ?thesis
    by (auto simp: tq_take_def has_status_map_entry_other
        split: option.splits worker.splits list.splits item.splits if_splits)
next
  case (finish now u outcome)
  have "i \<noteq> j" if "tq_workers s u = Some (Busy j)" for j
  proof -
    have "has_status (tq_objects s) {Running} j"
      using tq_invD(3) [OF inv, of u] that by (simp add: user_ok_def)
    then show ?thesis
      using has_status_unique [OF i] X by fastforce
  qed
  with finish i show ?thesis
    by (auto simp: tq_finish_def tq_retain_completed_def has_status_map_entry_other
        split: option.splits worker.splits prod.splits)
qed (use i in \<open>auto simp: tq_close_begin_def tq_close_stop_def tq_close_end_def split: if_splits\<close>)

lemma tq_steps_final:
  assumes "(tq_step pat)\<^sup>*\<^sup>* s t" "tq_inv s" "has_status (tq_objects s) X i" "X \<subseteq> {Succeeded, Failed}"
  shows "has_status (tq_objects t) X i"
  using assms(1)
proof (induction rule: rtranclp_induct)
  case (step t u)
  then show ?case
    using tq.reachable_inv [OF step(1) assms(2)] tq_step_final assms(4) by blast
qed (use assms in simp)

definition outcome_status :: "work_outcome \<Rightarrow> task_status" where
  "outcome_status oc = (if oc = WorkReturned then Succeeded else Failed)"

text \<open>What one user's progress leaves alone.\<close>

definition others_same :: "string \<Rightarrow> task_queue \<Rightarrow> task_queue \<Rightarrow> bool" where
  "others_same u s t \<longleftrightarrow> tq_phase t = tq_phase s
     \<and> (\<forall>v. user_ids (tq_objects t) v = user_ids (tq_objects s) v)
     \<and> (\<forall>v. v \<noteq> u \<longrightarrow> tq_queues t v = tq_queues s v \<and> tq_workers t v = tq_workers s v)"

lemma others_same_refl [simp]: "others_same u s s"
  by (simp add: others_same_def)

lemma others_same_trans: "others_same u s t \<Longrightarrow> others_same u t w \<Longrightarrow> others_same u s w"
  by (simp add: others_same_def)

lemma finish_progress:
  assumes inv: "tq_inv s" and w: "tq_workers s u = Some (Busy i)" and oc: "oc \<noteq> WorkCancelled"
  shows "\<exists>t. tq_step pat s t \<and> others_same u s t \<and> tq_workers t u = Some Waiting
    \<and> queued_ids (tq_queues t u) = queued_ids (tq_queues s u) \<and> has_status (tq_objects t) {outcome_status oc} i"
proof -
  obtain q where q: "tq_queues s u = Some q"
    using tq_invD(3) [OF inv, of u] w by (cases "tq_queues s u") (auto simp: user_ok_def)
  let ?f = "tq_finished_record 0 oc"
  let ?t = "tq_retain_completed i (s\<lparr>tq_objects := AList.map_entry i ?f (tq_objects s),
      tq_queues := (tq_queues s)(u \<mapsto> tq_task_done q), tq_workers := (tq_workers s)(u \<mapsto> Waiting)\<rparr>)"
  have "tq_finish 0 u oc s = Some ?t"
    using oc by (simp add: tq_finish_def w q)
  then have "tq_step pat s ?t"
    by (rule tq_step.finish)
  moreover have "user_ids (AList.map_entry i ?f (tq_objects s)) v = user_ids (tq_objects s) v" for v
    by (rule user_ids_map_entry) (simp add: tq_finished_record_def split: work_outcome.splits)
  then have "others_same u s ?t"
    by (simp add: others_same_def tq_retain_completed_def split: prod.splits)
  moreover have "has_status (tq_objects s) {Running} i"
    using tq_invD(3) [OF inv, of u] w by (simp add: user_ok_def)
  then have "has_status (tq_objects ?t) {outcome_status oc} i"
    using oc by (auto simp: has_status_def tq_retain_completed_def map_of_map_entry tq_finished_record_def
        outcome_status_def split: prod.splits work_outcome.splits)
  moreover have "tq_workers ?t u = Some Waiting" "queued_ids (tq_queues ?t u) = queued_ids (tq_queues s u)"
    by (simp_all add: tq_retain_completed_def q tq_task_done_def split: prod.splits)
  ultimately show ?thesis
    by blast
qed

lemma take_progress:
  assumes inv: "tq_inv s" and w: "tq_workers s u = Some Waiting" and ph: "tq_phase s \<in> {NotClosing, Draining}"
    and q: "queued_ids (tq_queues s u) = i # ids"
  shows "\<exists>t. tq_step pat s t \<and> others_same u s t \<and> tq_workers t u = Some (Busy i)
    \<and> queued_ids (tq_queues t u) = ids"
proof -
  obtain q where q': "tq_queues s u = Some q" "task_ids (uq_items q) = i # ids"
    using q by (cases "tq_queues s u") auto
  then have "Stop \<notin> set (uq_items q)"
    using tq_invD(2) [OF inv] ph by (auto simp: phase_ok_def)
  then obtain rest where it: "uq_items q = Task i # rest" "task_ids rest = ids"
    using q'(2) by (cases "uq_items q") (auto split: item.splits)
  have live: "i \<in> set (tq_live s)"
    using tq_invD(3) [OF inv, of u] by (simp add: user_ok_def q' w)
  let ?t = "s\<lparr>tq_objects := AList.map_entry i (tq_start 0) (tq_objects s),
      tq_queues := (tq_queues s)(u \<mapsto> q\<lparr>uq_items := rest\<rparr>), tq_workers := (tq_workers s)(u \<mapsto> Busy i)\<rparr>"
  have "tq_take 0 u s = Some ?t"
    using live by (simp add: tq_take_def w q'(1) it)
  then have "tq_step pat s ?t"
    by (rule tq_step.take)
  moreover have "others_same u s ?t"
    by (simp add: others_same_def user_ids_map_entry tq_start_def)
  ultimately show ?thesis
    using it(2) by (intro exI [of _ ?t]) simp
qed

lemma waiting_drains:
  fixes oc :: "string \<Rightarrow> work_outcome"
  assumes "tq_inv s" "tq_workers s u = Some Waiting" "tq_phase s \<in> {NotClosing, Draining}"
    and "queued_ids (tq_queues s u) = ids" and oc: "\<And>i. oc i \<noteq> WorkCancelled"
  shows "\<exists>t. (tq_step pat)\<^sup>*\<^sup>* s t \<and> others_same u s t \<and> tq_workers t u = Some Waiting
    \<and> queued_ids (tq_queues t u) = [] \<and> (\<forall>i \<in> set ids. has_status (tq_objects t) {outcome_status (oc i)} i)"
  using assms(1-4)
proof (induction ids arbitrary: s)
  case Nil
  then show ?case
    by (intro exI [of _ s]) simp
next
  case (Cons i ids)
  obtain t where t: "tq_step pat s t" "others_same u s t" "tq_workers t u = Some (Busy i)"
    "queued_ids (tq_queues t u) = ids"
    using take_progress [OF Cons.prems(1-4)] by blast
  have ti: "tq_inv t"
    using tq_step_keeps t(1) Cons.prems(1) by blast
  obtain v where v: "tq_step pat t v" "others_same u t v" "tq_workers v u = Some Waiting"
    "queued_ids (tq_queues v u) = ids" "has_status (tq_objects v) {outcome_status (oc i)} i"
    using finish_progress [OF ti t(3) oc [of i]] t(4) by metis
  have vi: "tq_inv v" and vp: "tq_phase v \<in> {NotClosing, Draining}"
    using tq_step_keeps v(1) ti Cons.prems(3) t(2) v(2) by (auto simp: others_same_def)
  then obtain x where x: "(tq_step pat)\<^sup>*\<^sup>* v x" "others_same u v x" "tq_workers x u = Some Waiting"
    "queued_ids (tq_queues x u) = []" "\<forall>i \<in> set ids. has_status (tq_objects x) {outcome_status (oc i)} i"
    using Cons.IH [of v] v(3,4) by blast
  have "has_status (tq_objects x) {outcome_status (oc i)} i"
    using tq_steps_final [OF x(1) vi v(5)] by (simp add: outcome_status_def)
  moreover have "(tq_step pat)\<^sup>*\<^sup>* s x"
    using t(1) v(1) x(1) by (meson converse_rtranclp_into_rtranclp)
  moreover have "others_same u s x"
    using t(2) v(2) x(2) others_same_trans by blast
  ultimately show ?case
    using x by (intro exI [of _ x]) simp
qed


text \<open>The state of a user whose worker was cancelled while tasks were queued, once \<open>close\<close> has begun.\<close>

definition blocked :: "string \<Rightarrow> string list \<Rightarrow> task_queue \<Rightarrow> bool" where
  "blocked u ids s \<longleftrightarrow> tq_inv s \<and> tq_workers s u = Some Cancelled \<and> queued_ids (tq_queues s u) = ids
     \<and> \<not> tq_accepting s \<and> tq_phase s = Draining"

lemma task_ids_length: "length (task_ids xs) \<le> length xs"
  by (induction xs) (auto split: item.splits)

lemma blocked_no_stop: "blocked u ids s \<Longrightarrow> ids \<noteq> [] \<Longrightarrow> tq_close_stop s = None"
proof -
  assume b: "blocked u ids s" and ne: "ids \<noteq> []"
  then obtain q where q: "tq_queues s u = Some q" and ids: "task_ids (uq_items q) = ids"
    by (cases "tq_queues s u") (auto simp: blocked_def)
  have "uq_unfinished q = int (length (uq_items q))"
    using b q tq_invD(3) [of s u] by (simp add: blocked_def user_ok_def)
  moreover have "0 < length (uq_items q)"
    using ne ids task_ids_length [of "uq_items q"] by (metis length_greater_0_conv less_le_trans)
  ultimately show ?thesis
    using q by (force simp: tq_close_stop_def ran_def)
qed

lemma blocked_step:
  assumes b: "blocked u ids s" and ne: "ids \<noteq> []" and st: "tq_step pat s t"
  shows "blocked u ids t"
proof -
  have inv: "tq_inv t"
    using b st tq_step_keeps by (auto simp: blocked_def)
  have w: "tq_workers s u = Some Cancelled" and acc: "\<not> tq_accepting s" and ph: "tq_phase s = Draining"
    using b by (simp_all add: blocked_def)
  from st have "tq_workers t u = tq_workers s u \<and> tq_queues t u = tq_queues s u
      \<and> tq_accepting t = tq_accepting s \<and> tq_phase t = tq_phase s"
  proof cases
    case (enqueue i now uid oper c r)
    then show ?thesis
      using acc by (auto simp: tq_enqueue_def obind_def split: sum.splits if_splits)
  next
    case (take now v)
    then show ?thesis
      using w by (auto simp: tq_take_def split: option.splits worker.splits list.splits item.splits if_splits)
  next
    case (finish now v outcome)
    then show ?thesis
      using w by (auto simp: tq_finish_def tq_retain_completed_def split: option.splits worker.splits prod.splits)
  next
    case close_stop
    then show ?thesis
      using blocked_no_stop [OF b ne] by simp
  qed (auto simp: tq_close_begin_def tq_close_end_def ph)
  with b inv show ?thesis
    by (simp add: blocked_def)
qed

interpretation blocked_forever: step_invariant "tq_step pat" "\<lambda>s. blocked u ids s \<and> ids \<noteq> []" for pat u ids
  by unfold_locales (use blocked_step in blast)

text \<open>
  C37 (safety). A cancellation inside running work ends the user's worker. If tasks of the user are still
  queued when \<open>close\<close> has begun, no step ever processes them: the queue keeps its unfinished items and
  \<open>close\<close> stays in its \<open>join\<close> for ever, although it promises to drain all accepted work.
\<close>

theorem task_queue_cancel_blocks_close:
  assumes "tq_new m = Inr s0" and "(tq_step pat)\<^sup>*\<^sup>* s0 s"
    and "tq_workers s u = Some Cancelled" and "queued_ids (tq_queues s u) \<noteq> []" and "\<not> tq_accepting s"
    and "(tq_step pat)\<^sup>*\<^sup>* s t"
  shows "tq_phase t = Draining \<and> queued_ids (tq_queues t u) = queued_ids (tq_queues s u)
    \<and> tq_close_stop t = None \<and> tq_close_end t = None"
proof -
  let ?q = "queued_ids (tq_queues s u)"
  have inv: "tq_inv s"
    by (rule tq_reachable_inv [OF assms(1,2)])
  have "tq_phase s = Draining"
    using tq_invD(2) [OF inv] assms(4,5) by (auto simp: phase_ok_def)
  then have "blocked u ?q s"
    using inv assms(3,5) by (simp add: blocked_def)
  with blocked_forever.reachable_inv [of pat s t u ?q] assms(4,6) have b: "blocked u ?q t"
    by blast
  moreover have "tq_close_stop t = None"
    using b assms(4) by (rule blocked_no_stop)
  ultimately show ?thesis
    by (simp add: blocked_def tq_close_end_def)
qed

section \<open>A concrete run\<close>

definition demo_new :: task_queue where
  "demo_new = \<lparr>tq_objects = [], tq_live = [], tq_completed = [], tq_queues = (\<lambda>_. None),
     tq_workers = (\<lambda>_. None), tq_max = 1, tq_accepting = True, tq_phase = NotClosing\<rparr>"

text \<open>Two accepted tasks, the first cancelled, and \<open>close\<close> called.\<close>

definition demo_two :: task_queue where
  "demo_two = tq_accept ''b'' ''u'' ''op'' 1 (tq_accept ''a'' ''u'' ''op'' 0 demo_new)"

definition demo_closing :: task_queue where
  "demo_closing = the (tq_close_begin (the (tq_finish 3 ''u'' WorkCancelled (the (tq_take 2 ''u'' demo_two)))))"

lemma demo_new_ok: "tq_new (PInt 1) = Inr demo_new"
  by (simp add: tq_new_def demo_new_def)

lemma demo_user: "validated_user_id default_user_pattern (PStr ''u'') = Inr ''u''"
  by (simp add: validated_user_id_def rbind_Inr_iff get_collection_name_Inr collection_types_def
      default_user_pattern_def default_user_char_def py_eval)

lemma demo_op: "required_identifier (PStr ''op'') ''operation'' = Inr ''op''"
  by (simp add: required_identifier_def py_eval)

lemmas demo_defs = demo_two_def demo_closing_def demo_new_def tq_accept_def tq_put_def tq_done_def
  tq_take_def tq_finish_def tq_close_begin_def tq_retain_completed_def tq_start_def
  tq_finished_record_def tq_task_done_def

lemma demo_two_reachable: "(tq_step default_user_pattern)\<^sup>*\<^sup>* demo_new demo_two"
proof -
  let ?a = "tq_accept ''a'' ''u'' ''op'' 0 demo_new"
  have "tq_step default_user_pattern demo_new ?a"
    by (rule tq_step.enqueue [of "''a''" _ _ 0 "PStr ''u''" "PStr ''op''" True "Inr ''a''"])
      (simp_all add: tq_enqueue_def obind_def demo_user demo_op demo_new_def)
  moreover have "tq_step default_user_pattern ?a demo_two"
    by (rule tq_step.enqueue [of "''b''" _ _ 1 "PStr ''u''" "PStr ''op''" True "Inr ''b''"])
      (simp_all add: tq_enqueue_def obind_def demo_user demo_op demo_two_def,
        simp_all add: tq_accept_def demo_new_def Let_def)
  ultimately show ?thesis
    by (meson converse_rtranclp_into_rtranclp rtranclp.rtrancl_refl)
qed

lemma demo_closing_reachable: "(tq_step default_user_pattern)\<^sup>*\<^sup>* demo_new demo_closing"
proof -
  have "\<exists>s. tq_take 2 ''u'' demo_two = Some s"
    by (simp add: demo_defs Let_def)
  then obtain s where s: "tq_take 2 ''u'' demo_two = Some s" ..
  have "\<exists>t. tq_finish 3 ''u'' WorkCancelled (the (tq_take 2 ''u'' demo_two)) = Some t"
    by (simp add: demo_defs Let_def)
  then obtain t where t: "tq_finish 3 ''u'' WorkCancelled s = Some t"
    by (auto simp: s)
  have "\<exists>v. tq_close_begin (the (tq_finish 3 ''u'' WorkCancelled (the (tq_take 2 ''u'' demo_two)))) = Some v"
    by (simp add: demo_defs Let_def)
  then have v: "tq_close_begin t = Some demo_closing"
    by (auto simp: demo_closing_def s t)
  show ?thesis
    using demo_two_reachable tq_step.take [OF s] tq_step.finish [OF t] tq_step.close_begin [OF v]
    by (meson rtranclp.rtrancl_into_rtrancl)
qed

theorem task_queue_serial_fifo_witness:
  "length (filter (has_status (tq_objects demo_closing) {Succeeded, Failed}) (tq_live demo_closing)) \<le> 1"
proof -
  have "tq_max demo_closing = 1"
    by (simp add: demo_defs Let_def)
  with task_queue_serial_fifo [OF demo_new_ok demo_closing_reachable] show ?thesis
    by simp
qed



theorem task_queue_cancel_blocks_close_witness:
  "queued_ids (tq_queues demo_closing ''u'') = [''b''] \<and> tq_phase demo_closing = Draining
   \<and> tq_close_stop demo_closing = None"
proof -
  have w: "tq_workers demo_closing ''u'' = Some Cancelled"
    and q: "queued_ids (tq_queues demo_closing ''u'') = [''b'']" and a: "\<not> tq_accepting demo_closing"
    by (simp_all add: demo_defs Let_def)
  have "queued_ids (tq_queues demo_closing ''u'') \<noteq> []"
    by (simp add: q)
  from task_queue_cancel_blocks_close [OF demo_new_ok demo_closing_reachable w this a rtranclp.rtrancl_refl] q
  show ?thesis
    by blast
qed

end
