(* ===== verification/Session_Title.thy ===== *)
theory Session_Title
  imports Map_Common
begin

text \<open>
  \<open>backend/rag/session_title.py\<close>: the contract of a session title (three to six words of letters and
  digits) and the generation of a title from the transcripts of a session. The language model is a
  parameter \<open>llm\<close>; the prompt template is kept as the text around its one placeholder.
\<close>

text \<open>\<open>[^\W_]\<close>, the characters \<open>str.isalnum\<close> accepts, for code points below 256.\<close>

definition chr_alnum :: "char \<Rightarrow> bool" where
  "chr_alnum c \<longleftrightarrow> (let n = ord c in
     (48 \<le> n \<and> n \<le> 57) \<or> (65 \<le> n \<and> n \<le> 90) \<or> (97 \<le> n \<and> n \<le> 122)
     \<or> n = 170 \<or> n = 178 \<or> n = 179 \<or> n = 181 \<or> n = 185 \<or> n = 186 \<or> (188 \<le> n \<and> n \<le> 190)
     \<or> (192 \<le> n \<and> n \<noteq> 215 \<and> n \<noteq> 247))"

text \<open>\<open>_TITLE_WORD.fullmatch\<close>: runs of such characters joined by single hyphens or apostrophes.\<close>

fun title_word_from :: "bool \<Rightarrow> string \<Rightarrow> bool" where
  "title_word_from ready [] = ready"
| "title_word_from ready (c # cs) =
     (if chr_alnum c then title_word_from True cs
      else if c = CHR ''-'' \<or> c = CHR 0x27 then ready \<and> title_word_from False cs
      else False)"

definition title_word :: "string \<Rightarrow> bool" where
  "title_word w = title_word_from False w"

definition validate_session_title :: "pyval \<Rightarrow> string res" where
  "validate_session_title value =
     (case value of
        PStr t \<Rightarrow>
          if CHR 0x0A \<in> set t \<or> CHR 0x0D \<in> set t
          then Inl (ValueError ''session title must be a single line'')
          else (let ws = split_words (strip t)
                in if \<not> (3 \<le> length ws \<and> length ws \<le> 6)
                   then Inl (ValueError ''session title must contain 3 to 6 words'')
                   else if \<not> list_all title_word ws
                   then Inl (ValueError ''session title contains unsupported punctuation'')
                   else Inr (join '' '' ws))
      | _ \<Rightarrow> Inl (TypeError ''session title response must be a string''))"

definition title_required_text :: "pyval \<Rightarrow> string \<Rightarrow> string res" where
  "title_required_text value name =
     (case value of
        PStr s \<Rightarrow> if strip s = [] then Inl (ValueError (name @ '' must not be empty'')) else Inr s
      | _ \<Rightarrow> Inl (TypeError (name @ '' must be a string'')))"

definition numbered_conversation :: "nat \<times> string \<Rightarrow> string" where
  "numbered_conversation p = ''[Conversation '' @ show_nat (fst p) @ '']'' @ [CHR 0x0A] @ snd p"

definition conversation_list :: "pyval \<Rightarrow> string res" where
  "conversation_list value =
     (let render = (\<lambda>items.
        rbind (rmap (\<lambda>(index, item). rbind (title_required_text item ''conversation'')
                       (\<lambda>t. Inr (numbered_conversation (index, t)))) (enumerate 1 items))
          (\<lambda>rendered. if rendered = [] then Inl (ValueError ''conversation_list must not be empty'')
                      else Inr (join [CHR 0x0A, CHR 0x0A] rendered)))
      in case value of
           PList items \<Rightarrow> render items
         | PTuple items \<Rightarrow> render items
         | _ \<Rightarrow> Inl (TypeError ''conversation_list must be a sequence of strings''))"

text \<open>\<open>template\<close> is \<open>SESSION_TITLE_PROMPT.format\<close> and \<open>llm\<close> the language model.\<close>

definition generate_session_title ::
    "(string \<Rightarrow> string) \<Rightarrow> (string \<Rightarrow> pyval res) \<Rightarrow> pyval \<Rightarrow> string res" where
  "generate_session_title template llm conversations =
     rbind (conversation_list conversations) (\<lambda>context.
     rbind (llm (template context)) validate_session_title)"

section \<open>Titles\<close>

lemma split_char_no_sep: "w \<in> set (split_char d s) \<Longrightarrow> d \<notin> set w"
  by (induction s arbitrary: w) (auto split: list.splits if_splits)

lemma split_char_single: "d \<notin> set s \<Longrightarrow> split_char d s = [s]"
  by (induction s) auto

lemma split_char_append: "d \<notin> set s \<Longrightarrow> split_char d (s @ d # t) = s # split_char d t"
  by (induction s) auto

definition plain_word :: "string \<Rightarrow> bool" where
  "plain_word w \<longleftrightarrow> w \<noteq> [] \<and> list_all (\<lambda>c. \<not> chr_space c) w"

lemma split_char_chars: "w \<in> set (split_char d s) \<Longrightarrow> set w \<subseteq> set s"
proof (induction s arbitrary: w)
  case (Cons a s)
  then show ?case
    by (fastforce split: list.splits if_splits)
qed simp

lemma split_words_plain: "w \<in> set (split_words s) \<Longrightarrow> plain_word w"
proof -
  let ?m = "map (\<lambda>c. if chr_space c then CHR '' '' else c) s"
  assume "w \<in> set (split_words s)"
  then have w: "w \<in> set (split_char (CHR '' '') ?m)" and ne: "w \<noteq> []"
    by (simp_all add: split_words_def)
  have "\<not> chr_space c" if c: "c \<in> set w" for c
  proof -
    have "c \<in> set ?m"
      using split_char_chars [OF w] c by blast
    then obtain d where d: "d \<in> set s" "c = (if chr_space d then CHR '' '' else d)"
      by auto
    have "c \<noteq> CHR '' ''"
      using split_char_no_sep [OF w] c by auto
    with d(2) show ?thesis
      by (simp split: if_splits)
  qed
  then show ?thesis
    using ne by (simp add: plain_word_def list_all_iff)
qed

lemma chr_space_blank: "chr_space (CHR '' '')"
  by (simp add: chr_space_def ord_def)

lemma split_words_join: "list_all plain_word ws \<Longrightarrow> split_words (join '' '' ws) = ws"
proof (induction ws rule: induct_list012)
  case 1
  then show ?case by (simp add: split_words_def)
next
  case (2 w)
  have "map (\<lambda>c. if chr_space c then CHR '' '' else c) w = w"
    using 2 by (auto simp: plain_word_def list_all_iff intro: map_idI)
  moreover have "CHR '' '' \<notin> set w"
    using 2 chr_space_blank by (auto simp: plain_word_def list_all_iff)
  ultimately show ?case
    using 2 by (simp add: split_words_def split_char_single plain_word_def)
next
  case (3 w v ws)
  have m: "map (\<lambda>c. if chr_space c then CHR '' '' else c) w = w"
    using 3 by (auto simp: plain_word_def list_all_iff intro: map_idI)
  have n: "CHR '' '' \<notin> set w"
    using 3 chr_space_blank by (auto simp: plain_word_def list_all_iff)
  have "split_words (join '' '' (v # ws)) = v # ws"
    using 3 by simp
  then show ?case
    using 3 by (simp add: split_words_def m n split_char_append chr_space_blank plain_word_def)
qed

lemma validate_session_title_Inr [py_iff]:
  "validate_session_title v = Inr t \<longleftrightarrow>
     (\<exists>s. v = PStr s \<and> CHR 0x0A \<notin> set s \<and> CHR 0x0D \<notin> set s \<and> 3 \<le> length (split_words (strip s))
        \<and> length (split_words (strip s)) \<le> 6 \<and> list_all title_word (split_words (strip s))
        \<and> t = join '' '' (split_words (strip s)))"
  by (auto simp: validate_session_title_def Let_def split: pyval.splits if_splits)

lemma title_word_chars: "title_word_from b w \<Longrightarrow> c \<in> set w \<Longrightarrow> chr_alnum c \<or> c = CHR ''-'' \<or> c = CHR 0x27"
  by (induction b w rule: title_word_from.induct) (auto split: if_splits)

lemma strip_join: "list_all plain_word ws \<Longrightarrow> ws \<noteq> [] \<Longrightarrow> strip (join '' '' ws) = join '' '' ws"
proof -
  assume a: "list_all plain_word ws" "ws \<noteq> []"
  have "join '' '' ws \<noteq> [] \<and> \<not> chr_space (hd (join '' '' ws)) \<and> \<not> chr_space (last (join '' '' ws))"
    using a
  proof (induction ws rule: induct_list012)
    case (2 w)
    then show ?case
      by (auto simp: plain_word_def list_all_iff)
  next
    case (3 w v ws)
    then show ?case
      by (auto simp: plain_word_def list_all_iff)
  qed simp
  then show ?thesis
    unfolding strip_def by (intro strip_of_id) simp
qed

text \<open>
  A title that passes validation is three to six words joined by single spaces, each of
  letters, digits and inner hyphens or apostrophes, and validating it again returns it unchanged.
\<close>

theorem session_title_contract:
  assumes "validate_session_title v = Inr t"
  shows "\<exists>ws. t = join '' '' ws \<and> 3 \<le> length ws \<and> length ws \<le> 6 \<and> list_all title_word ws
    \<and> list_all plain_word ws \<and> validate_session_title (PStr t) = Inr t"
proof -
  obtain s where s: "CHR 0x0A \<notin> set s" "CHR 0x0D \<notin> set s" "3 \<le> length (split_words (strip s))"
      "length (split_words (strip s)) \<le> 6" "list_all title_word (split_words (strip s))"
      "t = join '' '' (split_words (strip s))"
    using assms by (auto simp: validate_session_title_Inr)
  let ?ws = "split_words (strip s)"
  have p: "list_all plain_word ?ws"
    using split_words_plain by (auto simp: list_all_iff)
  have "?ws \<noteq> []"
    using s(3) by auto
  then have st: "strip t = t"
    using strip_join [OF p] s(6) by simp
  have "set (join '' '' us) \<subseteq> insert (CHR '' '') (\<Union> (set ` set us))" for us
    by (induction us rule: induct_list012) auto
  then have "set t \<subseteq> insert (CHR '' '') (\<Union> (set ` set ?ws))"
    by (simp add: s(6))
  moreover have "c \<noteq> CHR 0x0A \<and> c \<noteq> CHR 0x0D" if "w \<in> set ?ws" "c \<in> set w" for w c
  proof -
    have "\<not> chr_space c"
      using p that by (auto simp: list_all_iff plain_word_def)
    then show ?thesis
      by (auto simp: chr_space_def ord_def)
  qed
  ultimately have "CHR 0x0A \<notin> set t \<and> CHR 0x0D \<notin> set t"
    by force
  then have "validate_session_title (PStr t) = Inr t"
    using s split_words_join [OF p] st unfolding validate_session_title_Inr by metis
  with p s show ?thesis
    by (intro exI [of _ ?ws]) simp
qed

theorem session_title_contract_witness:
  "\<exists>ws. ''RAG chat-bot basics'' = join '' '' ws \<and> 3 \<le> length ws"
proof -
  have "validate_session_title (PStr ''  RAG  chat-bot basics '') = Inr ''RAG chat-bot basics''"
    by (simp add: validate_session_title_def split_words_def title_word_def chr_alnum_def py_eval)
  from session_title_contract [OF this] show ?thesis
    by blast
qed

end
