(* ===== verification/Chat_Registry.thy ===== *)
theory Chat_Registry
  imports Session_Map Session_Title
begin

text \<open>
  \<open>ChatRegistry\<close> of \<open>backend/services.py\<close>: the sessions of all users with their titles and complete
  transcripts, the answer streams that are open, and the two-phase deletion of a session. Every method
  runs under the registry's lock, so a method is one operation. A method is an operation with the prefix
  \<open>cr_\<close>; a Python set is a set.
\<close>

declare split_paired_All [simp del] split_paired_Ex [simp del]

section \<open>State and operations\<close>

type_synonym session_key = "string \<times> string"

record transcript =
  ct_id :: string
  ct_question :: string
  ct_answer :: string

record session_snapshot =
  ss_session :: string
  ss_user :: string
  ss_title :: string
  ss_conversations :: "transcript list"

record chat_registry =
  cr_maps :: "(string, session_map) dict"
  cr_titles :: "(session_key, string) dict"
  cr_transcripts :: "(session_key, (string, transcript) dict) dict"
  cr_active :: "(session_key, string set) dict"
  cr_deleting :: "session_key set"

definition cr_new :: chat_registry where
  "cr_new = \<lparr>cr_maps = [], cr_titles = [], cr_transcripts = [], cr_active = [], cr_deleting = {}\<rparr>"

definition session_key_value :: "session_key \<Rightarrow> pyval" where
  "session_key_value k = PTuple [PStr (fst k), PStr (snd k)]"

text \<open>\<open>_map\<close>: \<open>setdefault\<close> stores a new \<open>SessionMap\<close> for a user who has none.\<close>

definition cr_map :: "user_pattern \<Rightarrow> string \<Rightarrow> (chat_registry, session_map) op" where
  "cr_map pat user_id =
     obind (olift (validated_user_id pat (PStr user_id))) (\<lambda>user s.
       case map_of (cr_maps s) user of
         Some m \<Rightarrow> (Inr m, s)
       | None \<Rightarrow>
           (case sm_new pat (PStr user) of
              Inl e \<Rightarrow> (Inl e, s)
            | Inr m \<Rightarrow> (Inr m, s\<lparr>cr_maps := AList.update user m (cr_maps s)\<rparr>)))"

text \<open>A call of a mutating method of the user's \<open>SessionMap\<close>.\<close>

definition cr_on_map :: "user_pattern \<Rightarrow> string \<Rightarrow> (session_map, 'a) op \<Rightarrow> (chat_registry, 'a) op" where
  "cr_on_map pat user m =
     obind (cr_map pat user) (\<lambda>mapping s.
       case m mapping of (r, mapping') \<Rightarrow> (r, s\<lparr>cr_maps := AList.update user mapping' (cr_maps s)\<rparr>))"

definition cr_snapshot_locked :: "user_pattern \<Rightarrow> string \<Rightarrow> string \<Rightarrow> (chat_registry, session_snapshot) op" where
  "cr_snapshot_locked pat user session =
     obind (cr_map pat user) (\<lambda>mapping.
     obind (olift (sm_get_conversations mapping (PStr session))) (\<lambda>ids s.
       (rbind (dict_get session_key_value (cr_transcripts s) (user, session)) (\<lambda>transcripts.
        rbind (dict_get session_key_value (cr_titles s) (user, session)) (\<lambda>title.
        rbind (rmap (dict_get PStr transcripts) ids) (\<lambda>conversations.
          Inr \<lparr>ss_session = session, ss_user = user, ss_title = title, ss_conversations = conversations\<rparr>))), s)))"

definition cr_key :: "user_pattern \<Rightarrow> pyval \<Rightarrow> pyval \<Rightarrow> session_key res" where
  "cr_key pat user_id session_id =
     rbind (validated_user_id pat user_id) (\<lambda>user.
     rbind (required_uuid session_id ''session_id'') (\<lambda>session. Inr (user, session)))"

definition cr_create_session :: "user_pattern \<Rightarrow> pyval \<Rightarrow> pyval \<Rightarrow> (chat_registry, session_snapshot) op" where
  "cr_create_session pat user_id session_id =
     obind (olift (cr_key pat user_id session_id)) (\<lambda>key.
     obind (cr_on_map pat (fst key) (sm_create_session (PStr (snd key)))) (\<lambda>_.
     obind (omodify (\<lambda>s. s\<lparr>cr_titles := AList.update key ''New Chat'' (cr_titles s),
                           cr_transcripts := AList.update key [] (cr_transcripts s)\<rparr>)) (\<lambda>_.
     cr_snapshot_locked pat (fst key) (snd key))))"

definition omap :: "('b \<Rightarrow> ('s, 'a) op) \<Rightarrow> 'b list \<Rightarrow> ('s, 'a list) op" where
  "omap f xs = foldr (\<lambda>x m. obind (f x) (\<lambda>y. obind m (\<lambda>ys. oret (y # ys)))) xs (oret [])"

definition cr_list_sessions :: "user_pattern \<Rightarrow> pyval \<Rightarrow> (chat_registry, session_snapshot list) op" where
  "cr_list_sessions pat user_id =
     obind (olift (validated_user_id pat user_id)) (\<lambda>user.
     obind (cr_map pat user) (\<lambda>mapping.
     obind (olift (sm_list_sessions pat mapping (PStr user))) (\<lambda>ids.
     omap (cr_snapshot_locked pat user) ids)))"

definition cr_get_session :: "user_pattern \<Rightarrow> pyval \<Rightarrow> pyval \<Rightarrow> (chat_registry, session_snapshot) op" where
  "cr_get_session pat user_id session_id =
     obind (olift (cr_key pat user_id session_id)) (\<lambda>key. cr_snapshot_locked pat (fst key) (snd key))"

definition not_blank :: "pyval \<Rightarrow> string \<Rightarrow> string res" where
  "not_blank v name =
     (case v of
        PStr t \<Rightarrow> if strip t = [] then Inl (ValueError (name @ '' must not be empty'')) else Inr t
      | _ \<Rightarrow> Inl (ValueError (name @ '' must not be empty'')))"

definition cr_record_conversation ::
    "user_pattern \<Rightarrow> pyval \<Rightarrow> pyval \<Rightarrow> pyval \<Rightarrow> pyval \<Rightarrow> pyval \<Rightarrow> (chat_registry, unit) op" where
  "cr_record_conversation pat user_id session_id conversation_id question answer =
     obind (olift (cr_key pat user_id session_id)) (\<lambda>key.
     obind (olift (required_uuid conversation_id ''conversation_id'')) (\<lambda>conversation.
     obind (olift (not_blank question ''question'')) (\<lambda>q.
     obind (olift (not_blank answer ''answer'')) (\<lambda>a s.
       if key \<in> cr_deleting s then (Inl (SessionDeletionInProgressError (snd key)), s)
       else obind (cr_on_map pat (fst key) (sm_add_conversation (PStr (snd key)) (PStr conversation))) (\<lambda>_ s.
              case dict_get session_key_value (cr_transcripts s) key of
                Inl e \<Rightarrow> (Inl e, s)
              | Inr ts \<Rightarrow>
                  (Inr (), s\<lparr>cr_transcripts := AList.update key
                     (AList.update conversation \<lparr>ct_id = conversation, ct_question = q, ct_answer = a\<rparr> ts)
                     (cr_transcripts s)\<rparr>)) s))))"

definition cr_update_title :: "user_pattern \<Rightarrow> pyval \<Rightarrow> pyval \<Rightarrow> pyval \<Rightarrow> (chat_registry, string) op" where
  "cr_update_title pat user_id session_id title =
     obind (olift (cr_key pat user_id session_id)) (\<lambda>key.
     obind (olift (validate_session_title title)) (\<lambda>validated.
     obind (cr_snapshot_locked pat (fst key) (snd key)) (\<lambda>_.
     obind (omodify (\<lambda>s. s\<lparr>cr_titles := AList.update key validated (cr_titles s)\<rparr>)) (\<lambda>_.
     oret validated))))"

definition cr_conversation_ids :: "user_pattern \<Rightarrow> pyval \<Rightarrow> pyval \<Rightarrow> (chat_registry, string list) op" where
  "cr_conversation_ids pat user_id session_id =
     obind (olift (cr_key pat user_id session_id)) (\<lambda>key.
     obind (cr_map pat (fst key)) (\<lambda>mapping. olift (sm_get_conversations mapping (PStr (snd key)))))"

definition cr_active_of :: "chat_registry \<Rightarrow> session_key \<Rightarrow> string set" where
  "cr_active_of s key = (case map_of (cr_active s) key of None \<Rightarrow> {} | Some a \<Rightarrow> a)"

definition cr_begin_chat_stream :: "user_pattern \<Rightarrow> pyval \<Rightarrow> pyval \<Rightarrow> pyval \<Rightarrow> (chat_registry, unit) op" where
  "cr_begin_chat_stream pat user_id session_id conversation_id =
     obind (olift (cr_key pat user_id session_id)) (\<lambda>key.
     obind (olift (required_uuid conversation_id ''conversation_id'')) (\<lambda>conversation.
     obind (cr_snapshot_locked pat (fst key) (snd key)) (\<lambda>_ s.
       if key \<in> cr_deleting s then (Inl (SessionDeletionInProgressError (snd key)), s)
       else
         (let s' = s\<lparr>cr_active := AList.update key (cr_active_of s key) (cr_active s)\<rparr>
          in if conversation \<in> cr_active_of s key
             then (Inl (ValueError ''conversation already has an active stream''), s')
             else (Inr (), s\<lparr>cr_active :=
                     AList.update key (insert conversation (cr_active_of s key)) (cr_active s)\<rparr>)))))"

definition cr_end_chat_stream :: "user_pattern \<Rightarrow> pyval \<Rightarrow> pyval \<Rightarrow> pyval \<Rightarrow> (chat_registry, unit) op" where
  "cr_end_chat_stream pat user_id session_id conversation_id =
     obind (olift (cr_key pat user_id session_id)) (\<lambda>key.
     obind (olift (required_uuid conversation_id ''conversation_id'')) (\<lambda>conversation s.
       case map_of (cr_active s) key of
         None \<Rightarrow> (Inr (), s)
       | Some active \<Rightarrow>
           (let rest = active - {conversation}
            in (Inr (), s\<lparr>cr_active := (if rest = {} then AList.delete key (cr_active s)
                                        else AList.update key rest (cr_active s))\<rparr>))))"

definition cr_reserve_deletion :: "user_pattern \<Rightarrow> pyval \<Rightarrow> pyval \<Rightarrow> (chat_registry, string list) op" where
  "cr_reserve_deletion pat user_id session_id =
     obind (olift (cr_key pat user_id session_id)) (\<lambda>key.
     obind (cr_snapshot_locked pat (fst key) (snd key)) (\<lambda>_ s.
       if cr_active_of s key \<noteq> {} then (Inl (ActiveChatStreamError (snd key)), s)
       else if key \<in> cr_deleting s then (Inl (SessionDeletionInProgressError (snd key)), s)
       else obind (omodify (\<lambda>s. s\<lparr>cr_deleting := insert key (cr_deleting s)\<rparr>)) (\<lambda>_.
            obind (cr_map pat (fst key)) (\<lambda>mapping.
            olift (sm_get_conversations mapping (PStr (snd key))))) s))"

definition cr_abort_deletion :: "user_pattern \<Rightarrow> pyval \<Rightarrow> pyval \<Rightarrow> (chat_registry, unit) op" where
  "cr_abort_deletion pat user_id session_id =
     obind (olift (cr_key pat user_id session_id)) (\<lambda>key.
     omodify (\<lambda>s. s\<lparr>cr_deleting := cr_deleting s - {key}\<rparr>))"

text \<open>The \<open>finally\<close> of \<open>commit_session_deletion\<close> releases the reservation on every path inside the \<open>try\<close>.\<close>

definition cr_commit_deletion :: "user_pattern \<Rightarrow> pyval \<Rightarrow> pyval \<Rightarrow> (chat_registry, string list) op" where
  "cr_commit_deletion pat user_id session_id =
     obind (olift (cr_key pat user_id session_id)) (\<lambda>key s.
       if key \<notin> cr_deleting s then (Inl (RuntimeError ''session deletion is not reserved''), s)
       else if cr_active_of s key \<noteq> {} then (Inl (ActiveChatStreamError (snd key)), s)
       else
         (case obind (cr_on_map pat (fst key) (sm_delete_session (PStr (snd key)))) (\<lambda>conversations.
               obind (omodify (\<lambda>s. s\<lparr>cr_titles := AList.delete key (cr_titles s),
                                     cr_transcripts := AList.delete key (cr_transcripts s),
                                     cr_active := AList.delete key (cr_active s)\<rparr>)) (\<lambda>_.
               oret conversations)) s of
            (r, t) \<Rightarrow> (r, t\<lparr>cr_deleting := cr_deleting t - {key}\<rparr>)))"

definition cr_delete_session :: "user_pattern \<Rightarrow> pyval \<Rightarrow> pyval \<Rightarrow> (chat_registry, string list) op" where
  "cr_delete_session pat user_id session_id =
     obind (cr_reserve_deletion pat user_id session_id) (\<lambda>_.
     otry (cr_commit_deletion pat user_id session_id)
       (\<lambda>e. obind (cr_abort_deletion pat user_id session_id) (\<lambda>_. oraise e)))"

section \<open>The view of one session\<close>

definition cr_sessions :: "chat_registry \<Rightarrow> session_key \<Rightarrow> string list option" where
  "cr_sessions s key = (case map_of (cr_maps s) (fst key) of
     None \<Rightarrow> None | Some m \<Rightarrow> map_of (sm_sessions m) (snd key))"

record session_view =
  sv_ids :: "string list option"
  sv_title :: "string option"
  sv_transcripts :: "(string, transcript) dict option"
  sv_active :: "string set option"
  sv_deleting :: bool

definition cr_view :: "chat_registry \<Rightarrow> session_key \<Rightarrow> session_view" where
  "cr_view s key = \<lparr>sv_ids = cr_sessions s key, sv_title = map_of (cr_titles s) key,
     sv_transcripts = map_of (cr_transcripts s) key, sv_active = map_of (cr_active s) key,
     sv_deleting = (key \<in> cr_deleting s)\<rparr>"

definition transcripts_ok :: "string list \<Rightarrow> (string, transcript) dict \<Rightarrow> bool" where
  "transcripts_ok ids ts \<longleftrightarrow> dom (map_of ts) = set ids \<and> (\<forall>c t. map_of ts c = Some t \<longrightarrow> ct_id t = c)"

definition view_ok :: "session_view \<Rightarrow> bool" where
  "view_ok v \<longleftrightarrow>
     (case sv_ids v of
        None \<Rightarrow> sv_title v = None \<and> sv_transcripts v = None \<and> sv_active v = None \<and> \<not> sv_deleting v
      | Some ids \<Rightarrow> sv_title v \<noteq> None \<and> (\<exists>ts. sv_transcripts v = Some ts \<and> transcripts_ok ids ts))
     \<and> (\<forall>a. sv_active v = Some a \<longrightarrow> a \<noteq> {} \<and> \<not> sv_deleting v)"

definition cr_inv :: "chat_registry \<Rightarrow> bool" where
  "cr_inv s \<longleftrightarrow> (\<forall>u m. map_of (cr_maps s) u = Some m \<longrightarrow> sm_inv m \<and> sm_user m = u)
     \<and> (\<forall>key. view_ok (cr_view s key))"

lemma cr_invD:
  assumes "cr_inv s"
  shows "map_of (cr_maps s) u = Some m \<Longrightarrow> sm_inv m \<and> sm_user m = u" "view_ok (cr_view s key)"
  using assms by (auto simp: cr_inv_def)

text \<open>The new state has the view of the old one, apart from one session.\<close>

lemma cr_inv_change:
  assumes "cr_inv s" "\<And>u m. map_of (cr_maps t) u = Some m \<Longrightarrow> sm_inv m \<and> sm_user m = u"
    and "view_ok (cr_view t key)" "\<And>k. k \<noteq> key \<Longrightarrow> cr_view t k = cr_view s k"
  shows "cr_inv t"
  using assms unfolding cr_inv_def by metis

definition same_views :: "chat_registry \<Rightarrow> chat_registry \<Rightarrow> bool" where
  "same_views s t \<longleftrightarrow> cr_sessions t = cr_sessions s \<and> cr_titles t = cr_titles s
     \<and> cr_transcripts t = cr_transcripts s \<and> cr_active t = cr_active s \<and> cr_deleting t = cr_deleting s"

lemma same_views_view: "same_views s t \<Longrightarrow> cr_view t key = cr_view s key"
  by (simp add: same_views_def cr_view_def)

lemma same_views_refl [simp]: "same_views s s"
  by (simp add: same_views_def)

lemma same_views_trans: "same_views s t \<Longrightarrow> same_views t u \<Longrightarrow> same_views s u"
  by (simp add: same_views_def)

lemma cr_key_Inr:
  "cr_key pat uid sid = Inr key \<Longrightarrow>
     validated_user_id pat (PStr (fst key)) = Inr (fst key) \<and> is_canonical (snd key)"
  by (auto simp: cr_key_def rbind_Inr_iff validated_user_id_def dest: required_uuid_canonical split: pyval.splits)

lemma get_conversations_canonical:
  "is_canonical k \<Longrightarrow> sm_get_conversations m (PStr k) = dict_get PStr (sm_sessions m) k"
  using canonical_not_blank [of k] by (simp add: sm_get_conversations_def required_identifier_def)

lemma sm_new_valid: "validated_user_id pat (PStr u) = Inr u \<Longrightarrow> sm_new pat (PStr u) = Inr (sm_initial u)"
  by (simp add: sm_new_def sm_initial_def)

lemma cr_map_spec:
  assumes inv: "cr_inv s" and u: "validated_user_id pat (PStr u) = Inr u"
  shows "\<exists>m t. cr_map pat u s = (Inr m, t) \<and> cr_inv t \<and> same_views s t \<and> map_of (cr_maps t) u = Some m"
proof (cases "map_of (cr_maps s) u")
  case (Some m)
  then show ?thesis
    using inv by (intro exI [of _ m] exI [of _ s]) (simp add: cr_map_def obind_def u)
next
  case None
  let ?m = "sm_initial u"
  let ?t = "s\<lparr>cr_maps := AList.update u ?m (cr_maps s)\<rparr>"
  have "cr_sessions ?t key = cr_sessions s key" for key
    using None by (simp add: cr_sessions_def update_conv' sm_initial_def)
  then have sv: "same_views s ?t"
    by (auto simp: same_views_def)
  have "cr_inv ?t"
    unfolding cr_inv_def
  proof (intro conjI allI impI)
    fix v m assume "map_of (cr_maps ?t) v = Some m"
    then show "sm_inv m" "sm_user m = v"
      using cr_invD(1) [OF inv] sm_initial_inv
      by (auto simp: update_conv' sm_initial_def split: if_splits)
  next
    fix key
    show "view_ok (cr_view ?t key)"
      using same_views_view [OF sv] cr_invD(2) [OF inv] by simp
  qed
  with sv None show ?thesis
    by (intro exI [of _ ?m] exI [of _ ?t]) (simp add: cr_map_def obind_def u sm_new_valid update_conv')
qed

lemma cr_sessions_map: "map_of (cr_maps s) (fst key) = Some m \<Longrightarrow> cr_sessions s key = map_of (sm_sessions m) (snd key)"
  by (simp add: cr_sessions_def)

lemma cr_snapshot_spec:
  assumes inv: "cr_inv s" and key: "cr_key pat uid sid = Inr key"
  obtains (missing) t where "cr_snapshot_locked pat (fst key) (snd key) s = (Inl (KeyError (PStr (snd key))), t)"
      "cr_inv t" "same_views s t" "cr_sessions s key = None"
  | (found) t ids title ts where
      "cr_snapshot_locked pat (fst key) (snd key) s =
        (Inr \<lparr>ss_session = snd key, ss_user = fst key, ss_title = title,
              ss_conversations = map (\<lambda>c. the (map_of ts c)) ids\<rparr>, t)"
      "cr_inv t" "same_views s t" "cr_sessions s key = Some ids" "map_of (cr_titles s) key = Some title"
      "map_of (cr_transcripts s) key = Some ts" "transcripts_ok ids ts"
proof -
  have u: "validated_user_id pat (PStr (fst key)) = Inr (fst key)" and c: "is_canonical (snd key)"
    using cr_key_Inr [OF key] by auto
  obtain m t where m: "cr_map pat (fst key) s = (Inr m, t)" and t: "cr_inv t" "same_views s t"
    and mt: "map_of (cr_maps t) (fst key) = Some m"
    using cr_map_spec [OF inv u] by blast
  have ids: "cr_sessions s key = map_of (sm_sessions m) (snd key)"
    using cr_sessions_map [OF mt] t(2) by (simp add: same_views_def)
  show thesis
  proof (cases "cr_sessions s key")
    case None
    then show ?thesis
      using ids m t missing
      by (simp add: cr_snapshot_locked_def obind_def get_conversations_canonical [OF c] dict_get_def)
  next
    case (Some cs)
    then obtain title ts where v: "map_of (cr_titles s) key = Some title" "map_of (cr_transcripts s) key = Some ts"
        "transcripts_ok cs ts"
      using cr_invD(2) [OF inv, of key] by (auto simp: view_ok_def cr_view_def)
    have "rmap (dict_get PStr ts) cs = Inr (map (\<lambda>c. the (map_of ts c)) cs)"
      using v(3) by (intro rmap_all_Inr) (auto simp: transcripts_ok_def dict_get_def split: option.splits)
    then have "cr_snapshot_locked pat (fst key) (snd key) s =
        (Inr \<lparr>ss_session = snd key, ss_user = fst key, ss_title = title,
              ss_conversations = map (\<lambda>c. the (map_of ts c)) cs\<rparr>, t)"
      using ids [symmetric] m t v Some
      by (simp add: cr_snapshot_locked_def obind_def get_conversations_canonical [OF c] dict_get_def same_views_def)
    then show ?thesis
      by (rule found) (use t v Some in simp_all)
  qed
qed

section \<open>Every operation touches one session\<close>

definition touches :: "session_key \<Rightarrow> chat_registry \<Rightarrow> chat_registry \<Rightarrow> bool" where
  "touches key s t \<longleftrightarrow> cr_inv t \<and> (\<forall>k. k \<noteq> key \<longrightarrow> cr_view t k = cr_view s k)"

lemma touches_same: "cr_inv t \<Longrightarrow> same_views s t \<Longrightarrow> touches key s t"
  by (simp add: touches_def same_views_view)

lemma touches_trans: "touches key s t \<Longrightarrow> touches key t u \<Longrightarrow> touches key s u"
  by (simp add: touches_def)

lemma cr_on_map_apply:
  assumes inv: "cr_inv s" and key: "cr_key pat uid sid = Inr key"
  obtains m t where "map_of (cr_maps t) (fst key) = Some m" "cr_inv t" "same_views s t"
    "sm_inv m" "sm_user m = fst key" "cr_sessions s key = map_of (sm_sessions m) (snd key)"
    "cr_map pat (fst key) s = (Inr m, t)"
proof -
  obtain m t where m: "cr_map pat (fst key) s = (Inr m, t)" and t: "cr_inv t" "same_views s t"
    and mt: "map_of (cr_maps t) (fst key) = Some m"
    using cr_map_spec [OF inv] cr_key_Inr [OF key] by blast
  have "sm_inv m \<and> sm_user m = fst key"
    using cr_invD(1) [OF t(1) mt] .
  moreover have "cr_sessions s key = map_of (sm_sessions m) (snd key)"
    using cr_sessions_map [OF mt] t(2) by (simp add: same_views_def)
  ultimately show ?thesis
    using that mt t m by blast
qed

lemma cr_on_map_eval:
  "cr_map pat u s = (Inr m, t) \<Longrightarrow> cr_on_map pat u f s =
     (case f m of (r, m') \<Rightarrow> (r, t\<lparr>cr_maps := AList.update u m' (cr_maps t)\<rparr>))"
  by (simp add: cr_on_map_def obind_def)

lemma cr_sessions_put:
  "map_of (cr_maps t) u = Some m \<Longrightarrow> map_of (sm_sessions m') = (map_of (sm_sessions m))(k := x) \<Longrightarrow>
   cr_sessions (t\<lparr>cr_maps := AList.update u m' (cr_maps t)\<rparr>) = (cr_sessions t)((u, k) := x)"
  by (auto simp: cr_sessions_def update_conv' fun_eq_iff)

lemma update_same_map: "map_of d k = Some v \<Longrightarrow> map_of (AList.update k v d) = map_of d"
  by (auto simp: update_conv')

lemma same_views_put_same:
  assumes "cr_inv t" "map_of (cr_maps t) u = Some m"
  shows "same_views t (t\<lparr>cr_maps := AList.update u m (cr_maps t)\<rparr>)"
    "cr_inv (t\<lparr>cr_maps := AList.update u m (cr_maps t)\<rparr>)"
proof -
  have "cr_sessions (t\<lparr>cr_maps := AList.update u m (cr_maps t)\<rparr>) k = cr_sessions t k" for k
    using assms(2) by (simp add: cr_sessions_def update_conv')
  then show sv: "same_views t (t\<lparr>cr_maps := AList.update u m (cr_maps t)\<rparr>)"
    by (auto simp: same_views_def)
  show "cr_inv (t\<lparr>cr_maps := AList.update u m (cr_maps t)\<rparr>)"
    unfolding cr_inv_def same_views_view [OF sv]
    using cr_invD [OF assms(1)] assms(2) by (auto simp: update_conv')
qed

text \<open>A map of the user is replaced and one session's other parts change.\<close>

lemma cr_replace_map:
  assumes inv: "cr_inv t" and m: "map_of (cr_maps t) (fst key) = Some m"
    and m': "sm_inv m'" "sm_user m' = fst key" "map_of (sm_sessions m') = (map_of (sm_sessions m))(snd key := x)"
    and t': "cr_maps t' = AList.update (fst key) m' (cr_maps t)"
      "\<And>k. k \<noteq> key \<Longrightarrow> map_of (cr_titles t') k = map_of (cr_titles t) k"
      "\<And>k. k \<noteq> key \<Longrightarrow> map_of (cr_transcripts t') k = map_of (cr_transcripts t) k"
      "\<And>k. k \<noteq> key \<Longrightarrow> map_of (cr_active t') k = map_of (cr_active t) k"
      "\<And>k. k \<noteq> key \<Longrightarrow> k \<in> cr_deleting t' \<longleftrightarrow> k \<in> cr_deleting t"
    and ok: "sv_ids (cr_view t' key) = x \<Longrightarrow> view_ok (cr_view t' key)"
  shows "touches key t t' \<and> sv_ids (cr_view t' key) = x"
proof -
  have sess: "cr_sessions t' = (cr_sessions t)(key := x)"
    using cr_sessions_put [OF m m'(3)] by (simp add: cr_sessions_def [abs_def] t'(1))
  have other: "cr_view t' k = cr_view t k" if "k \<noteq> key" for k
    using that t'(2-) by (simp add: cr_view_def sess)
  have sx: "sv_ids (cr_view t' key) = x"
    by (simp add: cr_view_def sess)
  have "cr_inv t'"
  proof (rule cr_inv_change [OF inv _ ok [OF sx] other])
    fix u n assume "map_of (cr_maps t') u = Some n"
    then show "sm_inv n \<and> sm_user n = u"
      using cr_invD(1) [OF inv] m' by (auto simp: t'(1) update_conv' split: if_splits)
  qed
  with other sx show ?thesis
    by (simp add: touches_def)
qed

text \<open>The maps of users stay; one session's other parts change.\<close>

lemma cr_replace_parts:
  assumes inv: "cr_inv t" and t': "cr_maps t' = cr_maps t"
      "\<And>k. k \<noteq> key \<Longrightarrow> map_of (cr_titles t') k = map_of (cr_titles t) k"
      "\<And>k. k \<noteq> key \<Longrightarrow> map_of (cr_transcripts t') k = map_of (cr_transcripts t) k"
      "\<And>k. k \<noteq> key \<Longrightarrow> map_of (cr_active t') k = map_of (cr_active t) k"
      "\<And>k. k \<noteq> key \<Longrightarrow> k \<in> cr_deleting t' \<longleftrightarrow> k \<in> cr_deleting t"
    and ok: "view_ok (cr_view t' key)"
  shows "touches key t t'"
proof -
  have other: "cr_view t' k = cr_view t k" if "k \<noteq> key" for k
    using that t' by (simp add: cr_view_def cr_sessions_def)
  have "cr_inv t'"
    by (rule cr_inv_change [OF inv _ ok other]) (use cr_invD(1) [OF inv] t'(1) in auto)
  with other show ?thesis
    by (simp add: touches_def)
qed

lemma sm_add_success:
  assumes inv: "sm_inv m" and k: "is_canonical k" and c: "is_canonical c"
    and run: "sm_add_conversation (PStr k) (PStr c) m = (Inr x, m')"
  obtains cs where "map_of (sm_sessions m) k = Some cs" "sm_inv m'" "sm_user m' = sm_user m"
    "map_of (sm_sessions m') = (map_of (sm_sessions m))(k \<mapsto> if c \<in> set cs then cs else cs @ [c])"
proof -
  have ki: "required_identifier (PStr k) n = Inr k" for n
    using canonical_not_blank [OF k] by (simp add: required_identifier_def)
  obtain cs where cs: "map_of (sm_sessions m) k = Some cs"
    using run by (auto simp: sm_add_conversation_def obind_def ki required_uuid_of_canonical [OF c] dict_get_def
        split: option.splits)
  have im: "inverse_maps (map_of (sm_sessions m)) (map_of (sm_owners m))"
    using inv by (simp add: sm_inv_def owner_index_def)
  have own: "map_of (sm_owners m) c = Some k \<longleftrightarrow> c \<in> set cs"
    using inverse_mapsD(2) [OF im, of c k] cs by simp
  have "sm_user m' = sm_user m \<and>
      map_of (sm_sessions m') = (map_of (sm_sessions m))(k \<mapsto> if c \<in> set cs then cs else cs @ [c])"
    using run own cs
    by (cases "map_of (sm_owners m) c")
      (auto simp: sm_add_conversation_def obind_def ki required_uuid_of_canonical [OF c] dict_get_def
        update_conv' split: if_splits)
  with sm_add_conversation_spec(1) [OF inv run] cs show ?thesis
    using that by blast
qed

lemma view_none:
  assumes "cr_inv s" "cr_sessions s key = None"
  shows "map_of (cr_titles s) key = None" "map_of (cr_transcripts s) key = None" "map_of (cr_active s) key = None"
    "key \<notin> cr_deleting s"
  using cr_invD(2) [OF assms(1), of key] assms(2) by (simp_all add: view_ok_def cr_view_def)

lemma view_some:
  assumes "cr_inv s" "cr_sessions s key = Some ids"
  obtains title ts where "map_of (cr_titles s) key = Some title" "map_of (cr_transcripts s) key = Some ts"
    "transcripts_ok ids ts"
  using cr_invD(2) [OF assms(1), of key] assms(2) by (auto simp: view_ok_def cr_view_def)

lemma view_active:
  "cr_inv s \<Longrightarrow> map_of (cr_active s) key = Some a \<Longrightarrow> a \<noteq> {} \<and> key \<notin> cr_deleting s \<and> cr_sessions s key \<noteq> None"
  using cr_invD(2) [of s key] by (auto simp: view_ok_def cr_view_def split: option.splits)

lemma cr_snapshot_touches:
  assumes "cr_inv s" "cr_key pat uid sid = Inr key" "cr_snapshot_locked pat (fst key) (snd key) s = (r, t)"
  shows "cr_inv t \<and> same_views s t"
  by (rule cr_snapshot_spec [OF assms(1,2)]) (use assms(3) in auto)

lemma cr_create_touches:
  assumes inv: "cr_inv s" and key: "cr_key pat uid sid = Inr key" and run: "cr_create_session pat uid sid s = (r, t)"
  shows "touches key s t \<and> (key \<in> cr_deleting s \<longrightarrow> cr_view t key = cr_view s key)"
proof -
  note u = cr_key_Inr [OF key]
  obtain m t0 where m: "map_of (cr_maps t0) (fst key) = Some m" and t0: "cr_inv t0" "same_views s t0"
    and mi: "sm_inv m" "sm_user m = fst key" "cr_sessions s key = map_of (sm_sessions m) (snd key)"
    and cm: "cr_map pat (fst key) s = (Inr m, t0)"
    by (rule cr_on_map_apply [OF inv key])
  note onm = cr_on_map_eval [OF cm]
  obtain q m' where q: "sm_create_session (PStr (snd key)) m = (q, m')"
    by fastforce
  show ?thesis
  proof (cases q)
    case (Inl e)
    then have "m' = m"
      using sm_create_session_spec(2) [OF mi(1) q] by simp
    then have t: "t = t0\<lparr>cr_maps := AList.update (fst key) m (cr_maps t0)\<rparr>"
      using run Inl q by (simp add: cr_create_session_def obind_def key onm)
    have "same_views s t" "cr_inv t"
      using same_views_put_same [OF t0(1) m] t0(2) same_views_trans unfolding t by blast+
    then show ?thesis
      by (simp add: touches_same same_views_view)
  next
    case (Inr x)
    then have m': "map_of (sm_sessions m) (snd key) = None" "m' = m\<lparr>sm_sessions := AList.update (snd key) [] (sm_sessions m)\<rparr>"
      "sm_inv m'"
      using sm_create_session_spec(1,3) [OF mi(1) q] canonical_not_blank [OF u [THEN conjunct2]]
      by (auto simp: required_identifier_def)
    then have none: "cr_sessions s key = None"
      by (simp add: mi(3))
    let ?t1 = "t0\<lparr>cr_maps := AList.update (fst key) m' (cr_maps t0),
        cr_titles := AList.update key ''New Chat'' (cr_titles t0),
        cr_transcripts := AList.update key [] (cr_transcripts t0)\<rparr>"
    have none0: "cr_sessions t0 key = None"
      using none t0(2) by (simp add: same_views_def)
    have "touches key t0 ?t1 \<and> sv_ids (cr_view ?t1 key) = Some []"
    proof (rule cr_replace_map [OF t0(1) m m'(3)])
      assume "sv_ids (cr_view ?t1 key) = Some []"
      then show "view_ok (cr_view ?t1 key)"
        using view_none [OF t0(1) none0]
        by (simp add: cr_view_def view_ok_def update_conv' transcripts_ok_def)
    qed (use m'(2) mi(2) in \<open>simp_all add: update_conv'\<close>)
    then have t1: "touches key s ?t1" "cr_inv ?t1"
      using touches_trans touches_same [OF t0] by (blast, simp add: touches_def)
    have "cr_snapshot_locked pat (fst key) (snd key) ?t1 = (r, t)"
      using run Inr q by (simp add: cr_create_session_def obind_def key onm)
    from cr_snapshot_touches [OF t1(2) key this] show ?thesis
      using t1(1) touches_trans touches_same view_none(4) [OF inv none] by blast
  qed
qed

lemma cr_record_touches:
  assumes inv: "cr_inv s" and key: "cr_key pat uid sid = Inr key"
    and run: "cr_record_conversation pat uid sid cid qu an s = (r, t)"
  shows "touches key s t \<and> (key \<in> cr_deleting s \<longrightarrow> cr_view t key = cr_view s key)"
proof (cases "t = s")
  case True
  then show ?thesis
    using inv by (simp add: touches_same)
next
  case False
  note u = cr_key_Inr [OF key]
  obtain c qt ans where c: "required_uuid cid ''conversation_id'' = Inr c" and qa: "not_blank qu ''question'' = Inr qt"
      "not_blank an ''answer'' = Inr ans" and nd: "key \<notin> cr_deleting s"
    using run False by (auto simp: cr_record_conversation_def obind_def key split: sum.splits if_splits)
  obtain m t0 where m: "map_of (cr_maps t0) (fst key) = Some m" and t0: "cr_inv t0" "same_views s t0"
    and mi: "sm_inv m" "sm_user m = fst key" "cr_sessions s key = map_of (sm_sessions m) (snd key)"
    and cm: "cr_map pat (fst key) s = (Inr m, t0)"
    by (rule cr_on_map_apply [OF inv key])
  note onm = cr_on_map_eval [OF cm]
  obtain q m' where q: "sm_add_conversation (PStr (snd key)) (PStr c) m = (q, m')"
    by fastforce
  show ?thesis
  proof (cases q)
    case (Inl e)
    then have "m' = m"
      using sm_add_conversation_spec(2) [OF mi(1) q] by simp
    then have t: "t = t0\<lparr>cr_maps := AList.update (fst key) m (cr_maps t0)\<rparr>"
      using run Inl q nd by (simp add: cr_record_conversation_def obind_def key onm c qa)
    have "same_views s t" "cr_inv t"
      using same_views_put_same [OF t0(1) m] t0(2) same_views_trans unfolding t by blast+
    then show ?thesis
      by (simp add: touches_same same_views_view)
  next
    case (Inr x)
    note qx = q [unfolded Inr]
    obtain cs where cs: "map_of (sm_sessions m) (snd key) = Some cs" and m': "sm_inv m'" "sm_user m' = sm_user m"
      "map_of (sm_sessions m') = (map_of (sm_sessions m))(snd key \<mapsto> if c \<in> set cs then cs else cs @ [c])"
      using sm_add_success [OF mi(1) _ _ qx] u required_uuid_canonical [OF c] by blast
    have "cr_sessions t0 key = Some cs"
      using mi(3) cs t0(2) by (simp add: same_views_def)
    then obtain title ts where v: "map_of (cr_titles t0) key = Some title" "map_of (cr_transcripts t0) key = Some ts"
        "transcripts_ok cs ts"
      by (rule view_some [OF t0(1)])
    let ?ts = "AList.update c \<lparr>ct_id = c, ct_question = qt, ct_answer = ans\<rparr> ts"
    have t: "t = t0\<lparr>cr_maps := AList.update (fst key) m' (cr_maps t0),
        cr_transcripts := AList.update key ?ts (cr_transcripts t0)\<rparr>"
      using run qx nd v by (simp add: cr_record_conversation_def obind_def key onm c qa dict_get_def)
    have nd0: "key \<notin> cr_deleting t0"
      using nd t0(2) by (simp add: same_views_def)
    have tok: "transcripts_ok (if c \<in> set cs then cs else cs @ [c]) ?ts"
      using v(3) by (auto simp: transcripts_ok_def update_conv')
    have "touches key t0 t \<and> sv_ids (cr_view t key) = Some (if c \<in> set cs then cs else cs @ [c])"
    proof (rule cr_replace_map [OF t0(1) m m'(1) _ m'(3)])
      assume "sv_ids (cr_view t key) = Some (if c \<in> set cs then cs else cs @ [c])"
      then show "view_ok (cr_view t key)"
        using v nd0 tok view_active [OF t0(1), of key] by (auto simp: cr_view_def view_ok_def t update_conv')
    qed (use m'(2) mi(2) in \<open>simp_all add: update_conv' t\<close>)
    then show ?thesis
      using touches_trans touches_same [OF t0] nd by blast
  qed
qed

lemma cr_title_touches:
  assumes inv: "cr_inv s" and key: "cr_key pat uid sid = Inr key" and run: "cr_update_title pat uid sid ti s = (r, t)"
  shows "touches key s t \<and> sv_ids (cr_view t key) = sv_ids (cr_view s key)
    \<and> sv_deleting (cr_view t key) = sv_deleting (cr_view s key)"
proof (cases "validate_session_title ti")
  case (Inl e)
  then have "t = s"
    using run by (simp add: cr_update_title_def obind_def key)
  then show ?thesis
    using inv by (simp add: touches_same)
next
  case ti: (Inr title)
  from inv key show ?thesis
  proof (cases rule: cr_snapshot_spec)
    case (missing t0)
    then have "t = t0"
      using run by (simp add: cr_update_title_def obind_def key ti)
    then show ?thesis
      using missing(2,3) by (simp add: touches_same same_views_view)
  next
    case (found t0 ids old ts)
    have t: "t = t0\<lparr>cr_titles := AList.update key title (cr_titles t0)\<rparr>"
      using run found(1) by (simp add: cr_update_title_def obind_def key ti)
    have "view_ok (cr_view t0 key)" "cr_sessions t0 key = Some ids"
      using cr_invD(2) [OF found(2)] found(3,4) by (simp_all add: same_views_def)
    then have "touches key t0 t"
      by (intro cr_replace_parts [OF found(2)]) (auto simp: t update_conv' view_ok_def cr_view_def cr_sessions_def)
    moreover have "cr_sessions t key = cr_sessions s key" "cr_deleting t = cr_deleting s"
      using found(3) by (simp_all add: t cr_sessions_def same_views_def fun_eq_iff)
    ultimately show ?thesis
      using touches_trans [OF touches_same [OF found(2,3)]] by (simp add: cr_view_def)
  qed
qed

lemma cr_active_of_None: "map_of (cr_active s) key = None \<Longrightarrow> cr_active_of s key = {}"
  by (simp add: cr_active_of_def)

lemma cr_begin_outcome:
  assumes inv: "cr_inv s" and key: "cr_key pat uid sid = Inr key"
    and cid: "required_uuid cid ''conversation_id'' = Inr c" and run: "cr_begin_chat_stream pat uid sid cid s = (r, t)"
  shows "touches key s t \<and> (key \<in> cr_deleting s \<longrightarrow> cr_view t key = cr_view s key
      \<and> r = Inl (SessionDeletionInProgressError (snd key)))
    \<and> (r = Inr () \<longrightarrow> cr_view t key = (cr_view s key)\<lparr>sv_active := Some (insert c (cr_active_of s key))\<rparr>)"
  using inv key
proof (cases rule: cr_snapshot_spec)
  case (missing t0)
  have "r = Inl (KeyError (PStr (snd key)))" "t = t0"
    using run missing(1) by (simp_all add: cr_begin_chat_stream_def obind_def key cid)
  then show ?thesis
    using missing(2,3) view_none(4) [OF inv missing(4)] by (simp add: touches_same)
next
  case (found t0 ids title ts)
  have act: "cr_active_of t0 key = cr_active_of s key" and dl: "cr_deleting t0 = cr_deleting s"
    using found(3) by (simp_all add: cr_active_of_def same_views_def)
  consider (deleting) "key \<in> cr_deleting s" "t = t0" "r = Inl (SessionDeletionInProgressError (snd key))"
    | (again) "key \<notin> cr_deleting s" "c \<in> cr_active_of s key"
        "t = t0\<lparr>cr_active := AList.update key (cr_active_of s key) (cr_active t0)\<rparr>"
        "r = Inl (ValueError ''conversation already has an active stream'')"
    | (ok) "key \<notin> cr_deleting s" "t = t0\<lparr>cr_active := AList.update key (insert c (cr_active_of s key)) (cr_active t0)\<rparr>"
        "r = Inr ()"
    using run found(1) by (auto simp: cr_begin_chat_stream_def obind_def key cid act dl Let_def split: if_splits)
  then show ?thesis
  proof cases
    case deleting
    then show ?thesis
      using found(2,3) by (simp add: touches_same same_views_view)
  next
    case again
    have "view_ok (cr_view t0 key)" "cr_sessions t0 key = Some ids"
      using cr_invD(2) [OF found(2)] found(3,4) by (simp_all add: same_views_def)
    then have "touches key t0 t"
      using again dl
      by (intro cr_replace_parts [OF found(2)]) (auto simp: update_conv' view_ok_def cr_view_def cr_sessions_def)
    then show ?thesis
      using again touches_trans [OF touches_same [OF found(2,3)]] by simp
  next
    case ok
    have "view_ok (cr_view t0 key)" "cr_sessions t0 key = Some ids"
      using cr_invD(2) [OF found(2)] found(3,4) by (simp_all add: same_views_def)
    then have "touches key t0 t"
      using ok dl
      by (intro cr_replace_parts [OF found(2)]) (auto simp: update_conv' view_ok_def cr_view_def cr_sessions_def)
    moreover have "cr_view t key = (cr_view t0 key)\<lparr>sv_active := Some (insert c (cr_active_of s key))\<rparr>"
      by (simp add: ok(2) cr_view_def cr_sessions_def update_conv')
    ultimately show ?thesis
      using ok touches_trans [OF touches_same [OF found(2,3)]] same_views_view [OF found(3)] by simp
  qed
qed

lemma cr_end_touches:
  assumes inv: "cr_inv s" and key: "cr_key pat uid sid = Inr key" and run: "cr_end_chat_stream pat uid sid cid s = (r, t)"
  shows "touches key s t \<and> (key \<in> cr_deleting s \<longrightarrow> cr_view t key = cr_view s key)"
proof (cases "t = s")
  case True
  then show ?thesis
    using inv by (simp add: touches_same)
next
  case False
  then obtain c a where a: "map_of (cr_active s) key = Some a"
    and t: "t = s\<lparr>cr_active := (if a - {c} = {} then AList.delete key (cr_active s)
                                   else AList.update key (a - {c}) (cr_active s))\<rparr>"
    using run by (auto simp: cr_end_chat_stream_def obind_def key Let_def split: sum.splits option.splits)
  have nd: "key \<notin> cr_deleting s"
    using view_active [OF inv a] by simp
  have "touches key s t"
    using cr_invD(2) [OF inv, of key] a nd
    by (intro cr_replace_parts [OF inv])
      (auto simp: t update_conv' delete_conv' view_ok_def cr_view_def cr_sessions_def split: option.splits)
  with nd show ?thesis
    by simp
qed

lemma cr_reserve_outcome:
  assumes inv: "cr_inv s" and key: "cr_key pat uid sid = Inr key" and run: "cr_reserve_deletion pat uid sid s = (r, t)"
  shows "touches key s t \<and> (key \<in> cr_deleting s \<longrightarrow> cr_view t key = cr_view s key \<and> (\<exists>e. r = Inl e))
    \<and> ((\<exists>e. r = Inl e) \<longrightarrow> cr_view t key = cr_view s key)
    \<and> (\<forall>ids. r = Inr ids \<longrightarrow> cr_sessions s key = Some ids \<and> key \<notin> cr_deleting s \<and> map_of (cr_active s) key = None
        \<and> cr_view t key = (cr_view s key)\<lparr>sv_deleting := True\<rparr>)"
  using inv key
proof (cases rule: cr_snapshot_spec)
  case (missing t0)
  have "r = Inl (KeyError (PStr (snd key)))" "t = t0"
    using run missing(1) by (simp_all add: cr_reserve_deletion_def obind_def key)
  then show ?thesis
    using missing(2,3) by (simp add: touches_same same_views_view)
next
  case (found t0 ids title ts)
  note u = cr_key_Inr [OF key]
  have act: "cr_active_of t0 key = cr_active_of s key" and dl: "cr_deleting t0 = cr_deleting s"
    using found(3) by (simp_all add: cr_active_of_def same_views_def)
  show ?thesis
  proof (cases "cr_active_of s key \<noteq> {} \<or> key \<in> cr_deleting s")
    case True
    then have "t = t0 \<and> (\<exists>e. r = Inl e)"
      using run found(1) by (auto simp: cr_reserve_deletion_def obind_def key act dl split: if_splits)
    then show ?thesis
      using found(2,3) by (auto simp: touches_same same_views_view)
  next
    case False
    let ?t1 = "t0\<lparr>cr_deleting := insert key (cr_deleting t0)\<rparr>"
    have na: "map_of (cr_active s) key = None"
      using False view_active [OF inv, of key] by (cases "map_of (cr_active s) key") (auto simp: cr_active_of_def)
    have s0: "cr_sessions t0 key = Some ids" "map_of (cr_active t0) key = None"
      using found(3,4) na by (simp_all add: same_views_def)
    have t1: "touches key t0 ?t1"
      using cr_invD(2) [OF found(2), of key] s0
      by (intro cr_replace_parts [OF found(2)]) (auto simp: view_ok_def cr_view_def cr_sessions_def)
    then have i1: "cr_inv ?t1"
      by (simp add: touches_def)
    obtain m t2 where m: "cr_map pat (fst key) ?t1 = (Inr m, t2)" "cr_inv t2" "same_views ?t1 t2"
      "map_of (cr_maps t2) (fst key) = Some m"
      using cr_map_spec [OF i1] u by blast
    have "cr_sessions ?t1 key = Some ids"
      using s0(1) by (simp add: cr_sessions_def)
    then have ids: "map_of (sm_sessions m) (snd key) = Some ids"
      using cr_sessions_map [OF m(4)] m(3) by (simp add: same_views_def)
    have "r = Inr ids \<and> t = t2"
      using run found(1) False m ids u
      by (auto simp: cr_reserve_deletion_def obind_def key act dl get_conversations_canonical dict_get_def)
    moreover have "cr_view t2 key = (cr_view s key)\<lparr>sv_deleting := True\<rparr>"
      using same_views_view [OF m(3), of key] same_views_view [OF found(3), of key]
      by (simp add: cr_view_def cr_sessions_def)
    moreover have "touches key s t2"
      using touches_trans [OF touches_trans [OF touches_same [OF found(2,3)] t1] touches_same [OF m(2,3)]] .
    ultimately show ?thesis
      using False na found(4) by auto
  qed
qed

lemma cr_abort_touches:
  assumes inv: "cr_inv s" and key: "cr_key pat uid sid = Inr key" and run: "cr_abort_deletion pat uid sid s = (r, t)"
  shows "touches key s t \<and> r = Inr () \<and> cr_view t key = (cr_view s key)\<lparr>sv_deleting := False\<rparr>"
proof -
  have t: "t = s\<lparr>cr_deleting := cr_deleting s - {key}\<rparr>" "r = Inr ()"
    using run by (simp_all add: cr_abort_deletion_def obind_def key)
  have "touches key s t"
    using cr_invD(2) [OF inv, of key]
    by (intro cr_replace_parts [OF inv]) (auto simp: t view_ok_def cr_view_def cr_sessions_def split: option.splits)
  then show ?thesis
    by (simp add: t cr_view_def cr_sessions_def)
qed

definition gone_view :: session_view where
  "gone_view = \<lparr>sv_ids = None, sv_title = None, sv_transcripts = None, sv_active = None, sv_deleting = False\<rparr>"

lemma cr_commit_outcome:
  assumes inv: "cr_inv s" and key: "cr_key pat uid sid = Inr key" and run: "cr_commit_deletion pat uid sid s = (r, t)"
  shows "touches key s t
    \<and> (if key \<in> cr_deleting s then (\<exists>ids. cr_sessions s key = Some ids \<and> r = Inr ids) \<and> cr_view t key = gone_view
       else t = s \<and> r = Inl (RuntimeError ''session deletion is not reserved''))"
proof (cases "key \<in> cr_deleting s")
  case False
  then show ?thesis
    using run inv by (simp add: cr_commit_deletion_def obind_def key touches_same)
next
  case True
  note u = cr_key_Inr [OF key]
  have na: "map_of (cr_active s) key = None"
    using view_active [OF inv, of key] True by (cases "map_of (cr_active s) key") auto
  obtain ids where ids: "cr_sessions s key = Some ids"
    using view_none(4) [OF inv, of key] True by (cases "cr_sessions s key") auto
  obtain m t0 where m: "map_of (cr_maps t0) (fst key) = Some m" and t0: "cr_inv t0" "same_views s t0"
    and mi: "sm_inv m" "sm_user m = fst key" "cr_sessions s key = map_of (sm_sessions m) (snd key)"
    and cm: "cr_map pat (fst key) s = (Inr m, t0)"
    by (rule cr_on_map_apply [OF inv key])
  let ?m = "m\<lparr>sm_sessions := AList.delete (snd key) (sm_sessions m), sm_owners := fold AList.delete ids (sm_owners m)\<rparr>"
  have k: "required_identifier (PStr (snd key)) ''session_id'' = Inr (snd key)"
    using canonical_not_blank u by (simp add: required_identifier_def)
  have mids: "map_of (sm_sessions m) (snd key) = Some ids"
    using mi(3) ids by simp
  have del: "sm_delete_session (PStr (snd key)) m = (Inr ids, ?m)"
    by (rule sm_delete_session_spec [OF mi(1) k mids])
  let ?t = "t0\<lparr>cr_maps := AList.update (fst key) ?m (cr_maps t0), cr_titles := AList.delete key (cr_titles t0),
      cr_transcripts := AList.delete key (cr_transcripts t0), cr_active := AList.delete key (cr_active t0),
      cr_deleting := cr_deleting t0 - {key}\<rparr>"
  have rt: "r = Inr ids \<and> t = ?t"
    using run True na
    by (simp add: cr_commit_deletion_def obind_def key cr_active_of_None cr_on_map_eval [OF cm] del [simplified])
  have mx: "map_of (sm_sessions ?m) = (map_of (sm_sessions m))(snd key := None)"
    by (simp add: delete_conv')
  have "touches key t0 ?t \<and> sv_ids (cr_view ?t key) = None"
  proof (rule cr_replace_map [OF t0(1) m sm_delete_session_keeps [OF mi(1) del] _ mx])
    assume "sv_ids (cr_view ?t key) = None"
    then show "view_ok (cr_view ?t key)"
      by (simp add: cr_view_def view_ok_def delete_conv')
  qed (use mi(2) in \<open>simp_all add: delete_conv'\<close>)
  then have "touches key s ?t" "cr_view ?t key = gone_view"
    using touches_trans [OF touches_same [OF t0]] by (blast, simp add: cr_view_def gone_view_def delete_conv')
  then show ?thesis
    using rt True ids by simp
qed

lemma cr_delete_touches:
  assumes inv: "cr_inv s" and key: "cr_key pat uid sid = Inr key" and run: "cr_delete_session pat uid sid s = (r, t)"
  shows "touches key s t \<and> (key \<in> cr_deleting s \<longrightarrow> cr_view t key = cr_view s key)"
proof -
  obtain q u where q: "cr_reserve_deletion pat uid sid s = (q, u)"
    by fastforce
  note res = cr_reserve_outcome [OF inv key q]
  show ?thesis
  proof (cases q)
    case (Inl e)
    then have "t = u"
      using run q by (simp add: cr_delete_session_def obind_def)
    then show ?thesis
      using res by blast
  next
    case (Inr ids)
    then have ui: "cr_inv u" and nd: "key \<notin> cr_deleting s" and du: "key \<in> cr_deleting u"
      using res by (auto simp: touches_def cr_view_def)
    obtain r' v where c: "cr_commit_deletion pat uid sid u = (r', v)"
      by fastforce
    note com = cr_commit_outcome [OF ui key c]
    have "t = v"
      using run q c Inr com du by (auto simp: cr_delete_session_def obind_def otry_def split: sum.splits)
    then show ?thesis
      using res com nd touches_trans by blast
  qed
qed

lemma omap_keeps:
  assumes "\<And>x s r t. x \<in> set xs \<Longrightarrow> P s \<Longrightarrow> f x s = (r, t) \<Longrightarrow> P t" and "P s" "omap f xs s = (r, t)"
  shows "P t"
  using assms
proof (induction xs arbitrary: s r t)
  case Nil
  then show ?case by (simp add: omap_def)
next
  case (Cons x xs)
  obtain q u where q: "f x s = (q, u)"
    by fastforce
  have u: "P u"
    using Cons.prems(1) [OF _ Cons.prems(2) q] by simp
  have om: "omap f (x # xs) = obind (f x) (\<lambda>y. obind (omap f xs) (\<lambda>ys. oret (y # ys)))"
    by (simp add: omap_def)
  obtain w v where w: "omap f xs u = (w, v)"
    by fastforce
  have "P v"
    using Cons.IH [OF _ u w] Cons.prems(1) by (meson list.set_intros(2))
  then show ?case
    using Cons.prems(3) u q w by (cases q; cases w) (auto simp: om obind_def)
qed

lemma cr_list_same:
  assumes inv: "cr_inv s" and run: "cr_list_sessions pat uid s = (r, t)"
  shows "cr_inv t \<and> same_views s t"
proof (cases "validated_user_id pat uid")
  case (Inl e)
  then show ?thesis
    using run inv by (simp add: cr_list_sessions_def obind_def)
next
  case (Inr u)
  then have uu: "validated_user_id pat (PStr u) = Inr u"
    by (auto simp: validated_user_id_def rbind_Inr_iff split: pyval.splits)
  obtain m t0 where m: "cr_map pat u s = (Inr m, t0)" "cr_inv t0" "same_views s t0" "map_of (cr_maps t0) u = Some m"
    using cr_map_spec [OF inv uu] by blast
  have mu: "sm_user m = u" "sm_inv m"
    using cr_invD(1) [OF m(2,4)] by simp_all
  have ids: "sm_list_sessions pat m (PStr u) = Inr (dict_keys (sm_sessions m))"
    by (simp add: sm_list_sessions_def uu mu)
  have run': "omap (cr_snapshot_locked pat u) (dict_keys (sm_sessions m)) t0 = (r, t)"
    using run by (simp add: cr_list_sessions_def obind_def Inr m(1) ids)
  let ?P = "\<lambda>t. cr_inv t \<and> same_views s t"
  have "?P t"
  proof (rule omap_keeps [where P = ?P, OF _ _ run'])
    show "?P t0"
      using m by simp
    fix k x r y assume "k \<in> set (dict_keys (sm_sessions m))" and x: "?P x" and y: "cr_snapshot_locked pat u k x = (r, y)"
    obtain n z where z: "cr_map pat u x = (Inr n, z)" "cr_inv z" "same_views x z"
      using cr_map_spec [OF _ uu, of x] x by blast
    have "y = z"
      using y z(1) by (auto simp: cr_snapshot_locked_def obind_def split: sum.splits)
    then show "?P y"
      using x z same_views_trans by blast
  qed
  then show ?thesis .
qed

lemma cr_ids_same:
  assumes inv: "cr_inv s" and run: "cr_conversation_ids pat uid sid s = (r, t)"
  shows "cr_inv t \<and> same_views s t"
proof (cases "cr_key pat uid sid")
  case (Inl e)
  then show ?thesis
    using run inv by (simp add: cr_conversation_ids_def obind_def)
next
  case (Inr key)
  then obtain m t0 where "cr_map pat (fst key) s = (Inr m, t0)" "cr_inv t0" "same_views s t0"
    using cr_map_spec [OF inv] cr_key_Inr by blast
  then show ?thesis
    using run by (simp add: cr_conversation_ids_def obind_def Inr)
qed

lemma cr_get_same:
  assumes inv: "cr_inv s" and run: "cr_get_session pat uid sid s = (r, t)"
  shows "cr_inv t \<and> same_views s t"
proof (cases "cr_key pat uid sid")
  case (Inl e)
  then show ?thesis
    using run inv by (simp add: cr_get_session_def obind_def)
next
  case (Inr key)
  then have "cr_snapshot_locked pat (fst key) (snd key) s = (r, t)"
    using run by (simp add: cr_get_session_def obind_def)
  then show ?thesis
    by (rule cr_snapshot_touches [OF inv Inr])
qed

section \<open>Sequences of calls\<close>

datatype cr_call =
    CrCreate pyval pyval
  | CrList pyval
  | CrGet pyval pyval
  | CrRecord pyval pyval pyval pyval pyval
  | CrTitle pyval pyval pyval
  | CrIds pyval pyval
  | CrBegin pyval pyval pyval
  | CrEnd pyval pyval pyval
  | CrReserve pyval pyval
  | CrAbort pyval pyval
  | CrCommit pyval pyval
  | CrDelete pyval pyval

definition discard :: "('s, 'a) op \<Rightarrow> ('s, unit) op" where
  "discard m = obind m (\<lambda>_. oret ())"

lemma discard_eq: "discard m s = (r, t) \<Longrightarrow> \<exists>q. m s = (q, t)"
  by (auto simp: discard_def obind_def split: prod.splits sum.splits)

fun cr_apply :: "user_pattern \<Rightarrow> cr_call \<Rightarrow> (chat_registry, unit) op" where
  "cr_apply pat (CrCreate u k) = discard (cr_create_session pat u k)"
| "cr_apply pat (CrList u) = discard (cr_list_sessions pat u)"
| "cr_apply pat (CrGet u k) = discard (cr_get_session pat u k)"
| "cr_apply pat (CrRecord u k c q a) = cr_record_conversation pat u k c q a"
| "cr_apply pat (CrTitle u k t) = discard (cr_update_title pat u k t)"
| "cr_apply pat (CrIds u k) = discard (cr_conversation_ids pat u k)"
| "cr_apply pat (CrBegin u k c) = cr_begin_chat_stream pat u k c"
| "cr_apply pat (CrEnd u k c) = cr_end_chat_stream pat u k c"
| "cr_apply pat (CrReserve u k) = discard (cr_reserve_deletion pat u k)"
| "cr_apply pat (CrAbort u k) = cr_abort_deletion pat u k"
| "cr_apply pat (CrCommit u k) = discard (cr_commit_deletion pat u k)"
| "cr_apply pat (CrDelete u k) = discard (cr_delete_session pat u k)"

text \<open>The session a call is about.\<close>

fun cr_target :: "user_pattern \<Rightarrow> cr_call \<Rightarrow> session_key option" where
  "cr_target pat (CrList u) = None"
| "cr_target pat (CrGet u k) = None"
| "cr_target pat (CrIds u k) = None"
| "cr_target pat (CrCreate u k) = (case cr_key pat u k of Inl _ \<Rightarrow> None | Inr key \<Rightarrow> Some key)"
| "cr_target pat (CrRecord u k c q a) = (case cr_key pat u k of Inl _ \<Rightarrow> None | Inr key \<Rightarrow> Some key)"
| "cr_target pat (CrTitle u k t) = (case cr_key pat u k of Inl _ \<Rightarrow> None | Inr key \<Rightarrow> Some key)"
| "cr_target pat (CrBegin u k c) = (case cr_key pat u k of Inl _ \<Rightarrow> None | Inr key \<Rightarrow> Some key)"
| "cr_target pat (CrEnd u k c) = (case cr_key pat u k of Inl _ \<Rightarrow> None | Inr key \<Rightarrow> Some key)"
| "cr_target pat (CrReserve u k) = (case cr_key pat u k of Inl _ \<Rightarrow> None | Inr key \<Rightarrow> Some key)"
| "cr_target pat (CrAbort u k) = (case cr_key pat u k of Inl _ \<Rightarrow> None | Inr key \<Rightarrow> Some key)"
| "cr_target pat (CrCommit u k) = (case cr_key pat u k of Inl _ \<Rightarrow> None | Inr key \<Rightarrow> Some key)"
| "cr_target pat (CrDelete u k) = (case cr_key pat u k of Inl _ \<Rightarrow> None | Inr key \<Rightarrow> Some key)"

text \<open>The calls that end a reservation.\<close>

fun ends_reservation :: "user_pattern \<Rightarrow> session_key \<Rightarrow> cr_call \<Rightarrow> bool" where
  "ends_reservation pat key (CrAbort u k) = (cr_key pat u k = Inr key)"
| "ends_reservation pat key (CrCommit u k) = (cr_key pat u k = Inr key)"
| "ends_reservation pat key _ = False"

text \<open>A call keeps the invariant and the view of every session but its own.\<close>

definition call_frame :: "user_pattern \<Rightarrow> cr_call \<Rightarrow> chat_registry \<Rightarrow> chat_registry \<Rightarrow> bool" where
  "call_frame pat c s t \<longleftrightarrow> cr_inv t \<and> (\<forall>k. cr_target pat c \<noteq> Some k \<longrightarrow> cr_view t k = cr_view s k)
     \<and> (\<forall>k. k \<in> cr_deleting s \<longrightarrow> \<not> ends_reservation pat k c \<longrightarrow>
          k \<in> cr_deleting t \<and> cr_sessions t k = cr_sessions s k)"

lemma call_frame_same: "cr_inv t \<Longrightarrow> same_views s t \<Longrightarrow> call_frame pat c s t"
  by (simp add: call_frame_def same_views_view) (simp add: same_views_def)

lemma call_frame_touches:
  assumes "cr_target pat c = Some key" "touches key s t"
    and "key \<in> cr_deleting s \<Longrightarrow> \<not> ends_reservation pat key c \<Longrightarrow>
      sv_deleting (cr_view t key) \<and> sv_ids (cr_view t key) = sv_ids (cr_view s key)"
  shows "call_frame pat c s t"
proof -
  have "k \<in> cr_deleting t \<and> cr_sessions t k = cr_sessions s k"
    if "k \<in> cr_deleting s" "\<not> ends_reservation pat k c" for k
  proof (cases "k = key")
    case True
    then show ?thesis
      using assms(3) that by (simp add: cr_view_def)
  next
    case False
    then have "cr_view t k = cr_view s k"
      using assms(2) by (simp add: touches_def)
    then show ?thesis
      using that(1) by (simp add: cr_view_def)
  qed
  then show ?thesis
    using assms(1,2) by (auto simp: call_frame_def touches_def)
qed

lemmas cr_call_defs = discard_def cr_create_session_def cr_record_conversation_def cr_update_title_def
  cr_begin_chat_stream_def cr_end_chat_stream_def cr_reserve_deletion_def cr_abort_deletion_def
  cr_commit_deletion_def cr_delete_session_def obind_def

lemma cr_apply_frame:
  assumes inv: "cr_inv s" and run: "cr_apply pat c s = (r, t)"
  shows "call_frame pat c s t"
proof -
  have nokey: "call_frame pat c s t" if "snd (cr_apply pat c s) = s"
    using that run inv by (simp add: call_frame_same)
  show ?thesis
  proof (cases c)
    case (CrList u)
    then show ?thesis
      using run cr_list_same [OF inv] by (auto dest!: discard_eq intro: call_frame_same)
  next
    case (CrGet u k)
    then show ?thesis
      using run cr_get_same [OF inv] by (auto dest!: discard_eq intro: call_frame_same)
  next
    case (CrIds u k)
    then show ?thesis
      using run cr_ids_same [OF inv] by (auto dest!: discard_eq intro: call_frame_same)
  next
    case c: (CrCreate u k)
    show ?thesis
    proof (cases "cr_key pat u k")
      case (Inl e)
      then show ?thesis by (intro nokey) (simp add: c cr_call_defs)
    next
      case (Inr key)
      then show ?thesis
        using run c cr_create_touches [OF inv Inr]
        by (auto simp: cr_view_def dest!: discard_eq intro!: call_frame_touches [of _ _ key])
    qed
  next
    case c: (CrRecord u k x y z)
    show ?thesis
    proof (cases "cr_key pat u k")
      case (Inl e)
      then show ?thesis by (intro nokey) (simp add: c cr_call_defs)
    next
      case (Inr key)
      then show ?thesis
        using run c cr_record_touches [OF inv Inr]
        by (auto simp: cr_view_def intro!: call_frame_touches [of _ _ key])
    qed
  next
    case c: (CrTitle u k x)
    show ?thesis
    proof (cases "cr_key pat u k")
      case (Inl e)
      then show ?thesis by (intro nokey) (simp add: c cr_call_defs)
    next
      case (Inr key)
      then show ?thesis
        using run c cr_title_touches [OF inv Inr]
        by (auto simp: cr_view_def dest!: discard_eq intro!: call_frame_touches [of _ _ key])
    qed
  next
    case c: (CrBegin u k x)
    show ?thesis
    proof (cases "cr_key pat u k")
      case (Inl e)
      then show ?thesis by (intro nokey) (simp add: c cr_call_defs)
    next
      case key: (Inr key)
      show ?thesis
      proof (cases "required_uuid x ''conversation_id''")
        case (Inl e)
        then show ?thesis
          using nokey c key by (simp add: cr_begin_chat_stream_def obind_def)
      next
        case (Inr cid)
        then show ?thesis
          using run c key cr_begin_outcome [OF inv key Inr]
          by (auto simp: cr_view_def intro!: call_frame_touches [of _ _ key])
      qed
    qed
  next
    case c: (CrEnd u k x)
    show ?thesis
    proof (cases "cr_key pat u k")
      case (Inl e)
      then show ?thesis by (intro nokey) (simp add: c cr_call_defs)
    next
      case (Inr key)
      then show ?thesis
        using run c cr_end_touches [OF inv Inr]
        by (auto simp: cr_view_def intro!: call_frame_touches [of _ _ key])
    qed
  next
    case c: (CrReserve u k)
    show ?thesis
    proof (cases "cr_key pat u k")
      case (Inl e)
      then show ?thesis by (intro nokey) (simp add: c cr_call_defs)
    next
      case (Inr key)
      then obtain q where "cr_reserve_deletion pat u k s = (q, t)"
        using run c by (auto dest!: discard_eq)
      from cr_reserve_outcome [OF inv Inr this] c Inr show ?thesis
        by (intro call_frame_touches [of _ _ key]) (auto simp: cr_view_def)
    qed
  next
    case c: (CrAbort u k)
    show ?thesis
    proof (cases "cr_key pat u k")
      case (Inl e)
      then show ?thesis by (intro nokey) (simp add: c cr_call_defs)
    next
      case (Inr key)
      then show ?thesis
        using run c cr_abort_touches [OF inv Inr]
        by (auto simp: cr_view_def intro!: call_frame_touches [of _ _ key])
    qed
  next
    case c: (CrCommit u k)
    show ?thesis
    proof (cases "cr_key pat u k")
      case (Inl e)
      then show ?thesis by (intro nokey) (simp add: c cr_call_defs)
    next
      case (Inr key)
      then obtain q where "cr_commit_deletion pat u k s = (q, t)"
        using run c by (auto dest!: discard_eq)
      from cr_commit_outcome [OF inv Inr this] c Inr show ?thesis
        by (intro call_frame_touches [of _ _ key]) auto
    qed
  next
    case c: (CrDelete u k)
    show ?thesis
    proof (cases "cr_key pat u k")
      case (Inl e)
      then show ?thesis by (intro nokey) (simp add: c cr_call_defs)
    next
      case (Inr key)
      then obtain q where "cr_delete_session pat u k s = (q, t)"
        using run c by (auto dest!: discard_eq)
      from cr_delete_touches [OF inv Inr this] c Inr show ?thesis
        by (intro call_frame_touches [of _ _ key]) (auto simp: cr_view_def)
    qed
  qed
qed

interpretation cr: object_invariant "cr_apply pat" cr_inv for pat
  by unfold_locales (use cr_apply_frame in \<open>simp add: call_frame_def\<close>)

lemma cr_new_inv: "cr_inv cr_new"
  by (simp add: cr_inv_def cr_new_def view_ok_def cr_view_def cr_sessions_def)

lemma cr_reachable_inv: "cr_inv (run_calls (cr_apply pat) calls cr_new)"
  by (rule cr.run_calls_keeps) (rule cr_new_inv)

lemma run_calls_Cons [simp]: "run_calls app (c # cs) s = run_calls app cs (snd (app c s))"
  by (simp add: run_calls_def)

lemma run_calls_Nil [simp]: "run_calls app [] s = s"
  by (simp add: run_calls_def)

text \<open>What reading a session returns depends on its view only.\<close>

lemma cr_get_session_view:
  assumes inv: "cr_inv s" and key: "cr_key pat u k = Inr key"
  shows "fst (cr_get_session pat u k s) =
    (case cr_sessions s key of
       None \<Rightarrow> Inl (KeyError (PStr (snd key)))
     | Some ids \<Rightarrow> Inr \<lparr>ss_session = snd key, ss_user = fst key, ss_title = the (map_of (cr_titles s) key),
         ss_conversations = map (\<lambda>c. the (map_of (the (map_of (cr_transcripts s) key)) c)) ids\<rparr>)"
  using inv key by (cases rule: cr_snapshot_spec) (simp_all add: cr_get_session_def obind_def key)

text \<open>
  In every state the registry can reach, reading an existing session never raises: it
  returns the session's owner and exactly its conversations in order, each with its own transcript; a
  session that does not exist is a KeyError of its id.
\<close>

theorem chat_registry_consistent:
  assumes "s = run_calls (cr_apply pat) calls cr_new" and "cr_key pat u k = Inr key"
  shows "(case cr_sessions s key of
      None \<Rightarrow> fst (cr_get_session pat u k s) = Inl (KeyError (PStr (snd key)))
    | Some ids \<Rightarrow> \<exists>snap. fst (cr_get_session pat u k s) = Inr snap \<and> ss_user snap = fst key
        \<and> ss_session snap = snd key \<and> map ct_id (ss_conversations snap) = ids \<and> distinct ids)
    \<and> (key \<in> cr_deleting s \<longrightarrow> cr_active_of s key = {})"
proof -
  have inv: "cr_inv s"
    unfolding assms(1) by (rule cr_reachable_inv)
  have d: "distinct ids" if q: "cr_sessions s key = Some ids" for ids
  proof -
    obtain m where "map_of (cr_maps s) (fst key) = Some m" "map_of (sm_sessions m) (snd key) = Some ids"
      using q by (auto simp: cr_sessions_def split: option.splits)
    then show ?thesis
      using cr_invD(1) [OF inv] inverse_mapsD(1) unfolding sm_inv_def owner_index_def by metis
  qed
  have "key \<in> cr_deleting s \<longrightarrow> cr_active_of s key = {}"
    using view_active [OF inv, of key] by (auto simp: cr_active_of_def split: option.splits)
  moreover have "map ct_id (map (\<lambda>c. the (map_of ts c)) ids) = ids" if q: "transcripts_ok ids ts" for ts ids
  proof -
    have "ct_id (the (map_of ts c)) = c" if "c \<in> set ids" for c
      using q that by (cases "map_of ts c") (auto simp: transcripts_ok_def)
    then show ?thesis
      by (simp add: map_idI)
  qed
  moreover have "\<exists>ts. map_of (cr_transcripts s) key = Some ts \<and> transcripts_ok ids ts"
    if "cr_sessions s key = Some ids" for ids
    using view_some [OF inv that] by blast
  ultimately show ?thesis
    using cr_get_session_view [OF inv assms(2)] d by (fastforce split: option.splits)
qed

text \<open>
  Sessions are isolated: a call about another session, in particular any call of another
  user, changes nothing of what the owner reads of this one.
\<close>

theorem chat_registry_isolation:
  assumes "s = run_calls (cr_apply pat) calls cr_new" and "cr_key pat u k = Inr key"
    and "cr_target pat call \<noteq> Some key"
  shows "fst (cr_get_session pat u k (snd (cr_apply pat call s))) = fst (cr_get_session pat u k s)"
proof -
  have inv: "cr_inv s"
    unfolding assms(1) by (rule cr_reachable_inv)
  obtain r t where t: "cr_apply pat call s = (r, t)"
    by fastforce
  have "call_frame pat call s t"
    by (rule cr_apply_frame [OF inv t])
  then have "cr_inv t" and "cr_view t key = cr_view s key"
    using assms(3) by (simp_all add: call_frame_def)
  then show ?thesis
    using cr_get_session_view [OF _ assms(2)] inv by (simp add: t cr_view_def split: option.splits)
qed

text \<open>The part of a session that a reservation holds.\<close>

definition reserved :: "session_key \<Rightarrow> string list \<Rightarrow> chat_registry \<Rightarrow> bool" where
  "reserved key ids s \<longleftrightarrow> cr_inv s \<and> key \<in> cr_deleting s \<and> cr_sessions s key = Some ids"

lemma reserved_run:
  "reserved key ids s \<Longrightarrow> list_all (\<lambda>c. \<not> ends_reservation pat key c) calls \<Longrightarrow>
   reserved key ids (run_calls (cr_apply pat) calls s)"
proof (induction calls arbitrary: s)
  case (Cons c calls)
  obtain r t where t: "cr_apply pat c s = (r, t)"
    by fastforce
  have "call_frame pat c s t"
    using Cons.prems(1) cr_apply_frame [OF _ t] by (simp add: reserved_def)
  then have "reserved key ids t"
    using Cons.prems by (simp add: call_frame_def reserved_def)
  with Cons show ?case
    by (simp add: t)
qed simp


section \<open>A concrete registry\<close>

lemma demo_key: "cr_key default_user_pattern (PStr ''u'') (PStr (uuid_render 7)) = Inr (''u'', uuid_render 7)"
proof -
  have "validated_user_id default_user_pattern (PStr ''u'') = Inr ''u''"
    by (simp add: validated_user_id_def rbind_Inr_iff get_collection_name_Inr collection_types_def
        default_user_pattern_def default_user_char_def py_eval)
  moreover have "required_uuid (PStr (uuid_render 7)) ''session_id'' = Inr (uuid_render 7)"
    by (rule required_uuid_of_canonical) (simp add: uuid_render_canonical)
  ultimately show ?thesis
    by (simp add: cr_key_def)
qed

abbreviation "demo_user \<equiv> PStr ''u''"
abbreviation "demo_session \<equiv> PStr (uuid_render 7)"

theorem chat_registry_consistent_witness:
  "fst (cr_get_session default_user_pattern demo_user demo_session cr_new) = Inl (KeyError demo_session)"
proof -
  have n: "cr_new = run_calls (cr_apply default_user_pattern) [] cr_new"
    by simp
  have "cr_sessions cr_new (''u'', uuid_render 7) = None"
    by (simp add: cr_sessions_def cr_new_def)
  then show ?thesis
    using chat_registry_consistent [OF n demo_key] by simp
qed

theorem chat_registry_isolation_witness:
  "fst (cr_get_session default_user_pattern demo_user demo_session
      (snd (cr_apply default_user_pattern (CrList (PStr ''v'')) cr_new)))
   = fst (cr_get_session default_user_pattern demo_user demo_session cr_new)"
proof -
  have n: "cr_new = run_calls (cr_apply default_user_pattern) [] cr_new"
    by simp
  have "cr_target default_user_pattern (CrList (PStr ''v'')) \<noteq> Some (''u'', uuid_render 7)"
    by simp
  from chat_registry_isolation [OF n demo_key this] show ?thesis .
qed

text \<open>A session that was created can be reserved.\<close>

lemma demo_reserve:
  "\<exists>s1. cr_reserve_deletion default_user_pattern demo_user demo_session
     (run_calls (cr_apply default_user_pattern) [CrCreate demo_user demo_session] cr_new) = (Inr [], s1)"
proof -
  have u: "validated_user_id default_user_pattern (PStr ''u'') = Inr ''u''"
    using cr_key_Inr [OF demo_key] by simp
  have c: "is_canonical (uuid_render 7)"
    using cr_key_Inr [OF demo_key] by simp
  have k: "required_identifier (PStr (uuid_render 7)) n = Inr (uuid_render 7)" for n
    using canonical_not_blank [OF c] by (simp add: required_identifier_def)
  show ?thesis
    by (simp add: discard_def cr_create_session_def obind_def demo_key cr_on_map_def cr_map_def u cr_new_def
        sm_new_valid [OF u] sm_create_session_def sm_initial_def k cr_snapshot_locked_def
        sm_get_conversations_def dict_get_def cr_reserve_deletion_def cr_active_of_def)
qed


end
