(* ===== verification/Py_Float.thy ===== *)
theory Py_Float
  imports App_Config
begin

text \<open>
  Floats: the comparisons of Python, false whenever a NaN is involved, \<open>math.isfinite\<close>, and \<open>float(s)\<close>
  for a literal. A finite float is a real number; rounding is not modelled.
\<close>

fun pf_le :: "pyfloat \<Rightarrow> pyfloat \<Rightarrow> bool" where
  "pf_le (Fin a) (Fin b) = (a \<le> b)"
| "pf_le NaN _ = False"
| "pf_le _ NaN = False"
| "pf_le NegInf _ = True"
| "pf_le _ PosInf = True"
| "pf_le _ _ = False"

fun pf_lt :: "pyfloat \<Rightarrow> pyfloat \<Rightarrow> bool" where
  "pf_lt (Fin a) (Fin b) = (a < b)"
| "pf_lt NaN _ = False"
| "pf_lt _ NaN = False"
| "pf_lt NegInf b = (b \<noteq> NegInf)"
| "pf_lt a PosInf = (a \<noteq> PosInf)"
| "pf_lt _ _ = False"

text \<open>\<open>min(a, b)\<close>: the first argument unless the second is smaller.\<close>

definition pf_min :: "pyfloat \<Rightarrow> pyfloat \<Rightarrow> pyfloat" where
  "pf_min a b = (if pf_lt b a then b else a)"

definition is_probability :: "pyfloat \<Rightarrow> bool" where
  "is_probability v \<longleftrightarrow> pf_le (Fin 0) v \<and> pf_le v (Fin 1)"

lemma pf_le_Fin_left: "pf_le (Fin a) v \<longleftrightarrow> (\<exists>x. v = Fin x \<and> a \<le> x) \<or> v = PosInf"
  by (cases v) auto

lemma pf_le_Fin_right: "pf_le v (Fin b) \<longleftrightarrow> (\<exists>x. v = Fin x \<and> x \<le> b) \<or> v = NegInf"
  by (cases v) auto

lemma is_probability_iff: "is_probability v \<longleftrightarrow> (\<exists>x. v = Fin x \<and> 0 \<le> x \<and> x \<le> 1)"
  by (auto simp: is_probability_def pf_le_Fin_left pf_le_Fin_right)

lemma is_finite_iff: "is_finite v \<longleftrightarrow> (\<exists>x. v = Fin x)"
  by (cases v) auto

section \<open>Literals\<close>

definition dec_char :: "char \<Rightarrow> bool" where
  "dec_char c \<longleftrightarrow> dec_value c \<noteq> None \<or> c = CHR ''_''"

text \<open>A run of digits with single underscores between them, and how many digits it has.\<close>

definition digit_run :: "string \<Rightarrow> (nat \<times> nat) option" where
  "digit_run s = (case dec_digits 0 False s of
     None \<Rightarrow> None | Some n \<Rightarrow> Some (n, length (filter (\<lambda>c. c \<noteq> CHR ''_'') s)))"

text \<open>The mantissa \<open>digits[.digits]\<close> or \<open>.digits\<close>.\<close>

definition mantissa :: "string \<Rightarrow> string \<Rightarrow> bool \<Rightarrow> real option" where
  "mantissa whole fract dot =
     (if whole = [] \<and> fract = [] then None
      else (case (if whole = [] then Some (0, 0) else digit_run whole,
                  if fract = [] then Some (0, 0) else digit_run fract) of
              (Some (a, _), Some (b, k)) \<Rightarrow> if fract \<noteq> [] \<and> \<not> dot then None else Some (real a + real b / 10 ^ k)
            | _ \<Rightarrow> None))"

definition exponent :: "string \<Rightarrow> int option" where
  "exponent s = (case s of
       [] \<Rightarrow> Some 0
     | c # cs \<Rightarrow>
         if lower [c] \<noteq> ''e'' then None
         else (case cs of
                 [] \<Rightarrow> None
               | d # ds \<Rightarrow>
                   if d = CHR ''-'' then map_option (\<lambda>n. - int n) (dec_digits 0 False ds)
                   else if d = CHR ''+'' then map_option int (dec_digits 0 False ds)
                   else map_option int (dec_digits 0 False cs)))"

definition unsigned_float :: "string \<Rightarrow> pyfloat option" where
  "unsigned_float s =
     (if lower s \<in> {''inf'', ''infinity''} then Some PosInf
      else if lower s = ''nan'' then Some NaN
      else
        (let whole = takeWhile dec_char s;
             rest = dropWhile dec_char s;
             dot = (rest \<noteq> [] \<and> hd rest = CHR ''.'');
             rest' = (if dot then tl rest else rest);
             fract = (if dot then takeWhile dec_char rest' else []);
             expo = (if dot then dropWhile dec_char rest' else rest')
         in case (mantissa whole fract dot, exponent expo) of
              (Some m, Some e) \<Rightarrow> Some (Fin (m * 10 powi e))
            | _ \<Rightarrow> None))"

fun pf_neg :: "pyfloat \<Rightarrow> pyfloat" where
  "pf_neg (Fin x) = Fin (- x)"
| "pf_neg PosInf = NegInf"
| "pf_neg NegInf = PosInf"
| "pf_neg NaN = NaN"

text \<open>\<open>float(s)\<close>.\<close>

definition py_float :: "string \<Rightarrow> pyfloat res" where
  "py_float s =
     (let t = strip_of int_space s;
          v = (case t of
                 [] \<Rightarrow> None
               | c # cs \<Rightarrow> if c = CHR ''-'' then map_option pf_neg (unsigned_float cs)
                          else if c = CHR ''+'' then unsigned_float cs
                          else unsigned_float t)
      in case v of
           None \<Rightarrow> Inl (ValueError (''could not convert string to float: '' @ py_repr s))
         | Some x \<Rightarrow> Inr x)"

text \<open>
  \<open>float(v)\<close> of any value. A literal in bytes is ASCII; the information separators that are white space in a
  string are none in bytes. An int beyond the range of a float, where Python raises \<open>OverflowError\<close>, is a real
  number here like any other.
\<close>

definition not_a_number :: exc where
  "not_a_number = TypeError ''float() argument must be a string or a real number''"

fun py_float_value :: "pyval \<Rightarrow> pyfloat res" where
  "py_float_value (PBool b) = Inr (Fin (of_bool b))"
| "py_float_value (PInt n) = Inr (Fin (real_of_int n))"
| "py_float_value (PFloat f) = Inr f"
| "py_float_value (PStr s) = py_float s"
| "py_float_value (PBytes bs) =
     (if list_all (\<lambda>b. b < 128 \<and> (b < 28 \<or> 31 < b)) bs then py_float (map char_of bs)
      else Inl (ValueError ''could not convert string to float''))"
| "py_float_value (PList _) = Inl not_a_number"
| "py_float_value (PTuple _) = Inl not_a_number"
| "py_float_value (PDict _) = Inl not_a_number"
| "py_float_value (PObj _) = Inl not_a_number"
| "py_float_value PNone = Inl not_a_number"

text \<open>The elements of a value that is a \<open>Sequence\<close> and neither a string nor bytes.\<close>

fun sequence_items :: "pyval \<Rightarrow> pyval list option" where
  "sequence_items (PList xs) = Some xs"
| "sequence_items (PTuple xs) = Some xs"
| "sequence_items _ = None"

end
