(* ===== verification/Model_Config.thy ===== *)
theory Model_Config
  imports Py_Float
begin

text \<open>
  \<open>backend/model_config.py\<close>: the typed configuration of models and retrieval. Each dataclass is a record
  and its \<open>__post_init__\<close> a check \<open>check_...\<close>; each module-level constant is read from the environment by
  a definition \<open>load_...\<close>, and \<open>load_model_config\<close> runs them in the order of the module, so that the first
  failing one decides the exception. \<open>re.compile\<close>, \<open>urlsplit\<close> and \<open>json.loads\<close> come from the record
  \<open>libraries\<close>.
\<close>

section \<open>Environment readers\<close>

definition env_string :: "environment \<Rightarrow> string \<Rightarrow> string \<Rightarrow> string res" where
  "env_string env name dflt =
     (let v = strip (getenv env name dflt)
      in if v = [] then Inl (ValueError (name @ '' must not be empty'')) else Inr v)"

definition env_int_with :: "(int \<Rightarrow> bool) \<Rightarrow> string \<Rightarrow> environment \<Rightarrow> string \<Rightarrow> int \<Rightarrow> int res" where
  "env_int_with bad message env name dflt =
     rbind (case env name of None \<Rightarrow> Inr dflt | Some raw \<Rightarrow> py_int raw)
       (\<lambda>v. if bad v then Inl (ValueError (name @ message)) else Inr v)"

definition env_int :: "environment \<Rightarrow> string \<Rightarrow> int \<Rightarrow> int res" where
  "env_int = env_int_with (\<lambda>v. v \<le> 0) '' must be greater than zero''"

definition env_nonnegative_int :: "environment \<Rightarrow> string \<Rightarrow> int \<Rightarrow> int res" where
  "env_nonnegative_int = env_int_with (\<lambda>v. v < 0) '' must be zero or greater''"

definition env_float_with :: "(pyfloat \<Rightarrow> bool) \<Rightarrow> string \<Rightarrow> environment \<Rightarrow> string \<Rightarrow> real \<Rightarrow> pyfloat res" where
  "env_float_with bad message env name dflt =
     rbind (case env name of None \<Rightarrow> Inr (Fin dflt) | Some raw \<Rightarrow> py_float raw)
       (\<lambda>v. if bad v then Inl (ValueError (name @ message)) else Inr v)"

definition env_float :: "environment \<Rightarrow> string \<Rightarrow> real \<Rightarrow> pyfloat res" where
  "env_float = env_float_with (\<lambda>v. pf_le v (Fin 0)) '' must be greater than zero''"

definition env_nonnegative_float :: "environment \<Rightarrow> string \<Rightarrow> real \<Rightarrow> pyfloat res" where
  "env_nonnegative_float = env_float_with (\<lambda>v. pf_lt v (Fin 0)) '' must be zero or greater''"

definition env_finite_float :: "environment \<Rightarrow> string \<Rightarrow> real \<Rightarrow> pyfloat res" where
  "env_finite_float = env_float_with (\<lambda>v. \<not> is_finite v) '' must be finite''"

definition env_probability :: "environment \<Rightarrow> string \<Rightarrow> real \<Rightarrow> pyfloat res" where
  "env_probability = env_float_with (\<lambda>v. \<not> is_probability v) '' must be between 0 and 1 inclusive''"

definition env_choice :: "environment \<Rightarrow> string \<Rightarrow> string \<Rightarrow> string list \<Rightarrow> string res" where
  "env_choice env name dflt choices =
     rbind (env_string env name dflt)
       (\<lambda>v. if lower v \<notin> set choices
            then Inl (ValueError (name @ '' must be one of: '' @ join '', '' (sort (dedup choices))))
            else Inr (lower v))"

definition env_raw_string :: "environment \<Rightarrow> string \<Rightarrow> string \<Rightarrow> string" where
  "env_raw_string env name dflt = getenv env name dflt"

definition env_bool :: "environment \<Rightarrow> string \<Rightarrow> bool \<Rightarrow> bool res" where
  "env_bool env name dflt =
     (case env name of
        None \<Rightarrow> Inr dflt
      | Some raw \<Rightarrow>
          (let n = lower (strip raw)
           in if n \<in> {''1'', ''true'', ''yes'', ''on''} then Inr True
              else if n \<in> {''0'', ''false'', ''no'', ''off''} then Inr False
              else Inl (ValueError (name @ '' must be a boolean value''))))"

section \<open>Dataclasses and their checks\<close>

record libraries =
  lib_compiles :: "string \<Rightarrow> bool"
  lib_urlsplit :: "string \<Rightarrow> (string \<times> string \<times> string \<times> string) res"
  lib_json :: "string \<Rightarrow> pyval option"

record llm_config =
  lc_model :: string
  lc_reasoning :: "string option"
  lc_max_output_tokens :: "int option"

definition check_llm_config :: "llm_config \<Rightarrow> llm_config res" where
  "check_llm_config c =
     rbind (require (\<not> blank (lc_model c)) (ValueError ''LLM model must not be empty'')) (\<lambda>_.
     rbind (require (\<forall>r. lc_reasoning c = Some r \<longrightarrow> \<not> blank r)
        (ValueError ''LLM reasoning must not be empty when provided'')) (\<lambda>_.
     rbind (require (\<forall>n. lc_max_output_tokens c = Some n \<longrightarrow> 0 < n)
        (ValueError ''LLM max_output_tokens must be greater than zero'')) (\<lambda>_. Inr c)))"

record hybrid_config =
  hc_fusion_method :: string
  hc_alpha :: pyfloat

definition check_hybrid_config :: "hybrid_config \<Rightarrow> hybrid_config res" where
  "check_hybrid_config c =
     rbind (require (\<not> blank (hc_fusion_method c)) (ValueError ''Hybrid fusion_method must not be empty'')) (\<lambda>_.
     rbind (require (is_probability (hc_alpha c))
        (ValueError ''Hybrid alpha must be between 0 and 1 inclusive'')) (\<lambda>_. Inr c))"

record retrieval_config =
  rc_candidate_count :: int
  rc_candidate_ceiling :: int
  rc_final_count :: int
  rc_relevance_floor :: pyfloat
  rc_gap_threshold :: pyfloat
  rc_mmr_lambda :: pyfloat

definition check_retrieval_config :: "retrieval_config \<Rightarrow> retrieval_config res" where
  "check_retrieval_config c =
     rbind (require (\<not> min (min (rc_candidate_count c) (rc_candidate_ceiling c)) (rc_final_count c) \<le> 0)
        (ValueError ''Retrieval counts must be greater than zero'')) (\<lambda>_.
     rbind (require (\<not> rc_candidate_count c > rc_candidate_ceiling c)
        (ValueError ''Retrieval candidate_count exceeds its collection ceiling'')) (\<lambda>_.
     rbind (require (\<not> rc_candidate_count c < rc_final_count c)
        (ValueError ''Retrieval candidate_count must be at least final_count'')) (\<lambda>_.
     rbind (require (is_finite (rc_relevance_floor c)) (ValueError ''Adaptive-K relevance floor must be finite'')) (\<lambda>_.
     rbind (require (is_probability (rc_gap_threshold c))
        (ValueError ''Adaptive-K gap threshold must be between 0 and 1'')) (\<lambda>_.
     rbind (require (is_probability (rc_mmr_lambda c))
        (ValueError ''MMR lambda must be between 0 and 1 inclusive'')) (\<lambda>_. Inr c))))))"

record chunking_config =
  cc_paragraph_threshold :: pyfloat
  cc_chunk_threshold :: pyfloat
  cc_target_tokens :: int
  cc_min_tokens :: int
  cc_max_tokens :: int

definition check_chunking_config :: "chunking_config \<Rightarrow> chunking_config res" where
  "check_chunking_config c =
     rbind (require (is_probability (cc_paragraph_threshold c))
        (ValueError ''paragraph_threshold must be between 0 and 1 inclusive'')) (\<lambda>_.
     rbind (require (is_probability (cc_chunk_threshold c))
        (ValueError ''chunk_threshold must be between 0 and 1 inclusive'')) (\<lambda>_.
     rbind (require (\<not> min (min (cc_min_tokens c) (cc_target_tokens c)) (cc_max_tokens c) \<le> 0)
        (ValueError ''Chunk token sizes must be greater than zero'')) (\<lambda>_.
     rbind (require (cc_min_tokens c \<le> cc_target_tokens c \<and> cc_target_tokens c \<le> cc_max_tokens c)
        (ValueError ''Chunk token sizes must satisfy min <= target <= max'')) (\<lambda>_. Inr c))))"

record budget_config =
  bc_knowledge_tokens :: int
  bc_policy_tokens :: int
  bc_total_context_tokens :: int

definition check_budget_config :: "budget_config \<Rightarrow> budget_config res" where
  "check_budget_config c =
     rbind (require (\<not> min (min (bc_knowledge_tokens c) (bc_policy_tokens c)) (bc_total_context_tokens c) \<le> 0)
        (ValueError ''Token budgets must be greater than zero'')) (\<lambda>_.
     rbind (require (\<not> bc_knowledge_tokens c + bc_policy_tokens c > bc_total_context_tokens c)
        (ValueError ''Knowledge and policy budgets must fit in the total context budget'')) (\<lambda>_. Inr c))"

record text_config =
  tc_tokenizer_encoding :: string
  tc_whitespace_pattern :: string
  tc_sentence_boundary_pattern :: string
  tc_markdown_heading_pattern :: string
  tc_markdown_list_item_pattern :: string
  tc_markdown_fence_pattern :: string
  tc_sentence_join_separator :: string
  tc_normalize_embeddings :: bool
  tc_show_progress_bar :: bool
  tc_sentence_model_cache_size :: int
  tc_tokenizer_cache_size :: int

fun check_patterns :: "libraries \<Rightarrow> (string \<times> string) list \<Rightarrow> unit res" where
  "check_patterns libs [] = Inr ()"
| "check_patterns libs ((name, pattern) # ps) =
     (if pattern = [] then Inl (ValueError (name @ '' must not be empty''))
      else if \<not> lib_compiles libs pattern then Inl (ValueError (name @ '' must be a valid regular expression''))
      else check_patterns libs ps)"

definition check_text_config :: "libraries \<Rightarrow> text_config \<Rightarrow> text_config res" where
  "check_text_config libs c =
     rbind (require (\<not> blank (tc_tokenizer_encoding c)) (ValueError ''Tokenizer encoding must not be empty'')) (\<lambda>_.
     rbind (check_patterns libs
        [(''whitespace_pattern'', tc_whitespace_pattern c),
         (''sentence_boundary_pattern'', tc_sentence_boundary_pattern c),
         (''markdown_heading_pattern'', tc_markdown_heading_pattern c),
         (''markdown_list_item_pattern'', tc_markdown_list_item_pattern c),
         (''markdown_fence_pattern'', tc_markdown_fence_pattern c)]) (\<lambda>_.
     rbind (require (\<not> min (tc_sentence_model_cache_size c) (tc_tokenizer_cache_size c) \<le> 0)
        (ValueError ''Text-processing cache sizes must be greater than zero'')) (\<lambda>_. Inr c)))"

record granite_config =
  gc_model_path :: string
  gc_device :: string
  gc_dtype :: string
  gc_max_input_tokens :: int
  gc_max_new_tokens :: int
  gc_response_prefill :: string
  gc_warmup :: bool

definition check_granite_config :: "libraries \<Rightarrow> granite_config \<Rightarrow> granite_config res" where
  "check_granite_config libs c =
     rbind (require (\<not> blank (gc_model_path c)) (ValueError ''Granite model_path must not be empty'')) (\<lambda>_.
     rbind (require (gc_device c = ''cuda'')
        (ValueError ''Granite Transformers rollback supports only the cuda device'')) (\<lambda>_.
     rbind (require (gc_dtype c = ''float16'') (ValueError ''Granite query rewriting supports only float16'')) (\<lambda>_.
     rbind (require (\<not> min (gc_max_input_tokens c) (gc_max_new_tokens c) \<le> 0)
        (ValueError ''Granite token limits must be greater than zero'')) (\<lambda>_.
     (case lib_json libs (gc_response_prefill c @ [CHR 0x22, CHR 0x7D]) of
        None \<Rightarrow> Inl (ValueError ''Granite response_prefill must open the rewritten_question JSON string'')
      | Some scaffold \<Rightarrow>
          if scaffold \<noteq> PDict [(PStr ''rewritten_question'', PStr [])]
          then Inl (ValueError ''Granite response_prefill must open only the rewritten_question JSON string'')
          else Inr c)))))"

text \<open>The URL checks of the two SGLang configurations.\<close>

definition check_base_url :: "libraries \<Rightarrow> string \<Rightarrow> string \<Rightarrow> unit res" where
  "check_base_url libs name url =
     rbind (lib_urlsplit libs url) (\<lambda>(scheme, netloc, query, fragment).
       if scheme \<notin> {''http'', ''https''} \<or> netloc = []
       then Inl (ValueError (name @ '' base_url must be an absolute HTTP(S) URL''))
       else if query \<noteq> [] \<or> fragment \<noteq> []
       then Inl (ValueError (name @ '' base_url must not contain a query or fragment''))
       else Inr ())"

record sglang_config =
  sg_base_url :: string
  sg_api_key :: string
  sg_served_model :: string
  sg_connect_timeout :: pyfloat
  sg_read_timeout :: pyfloat
  sg_max_connections :: int
  sg_constrained_output :: bool
  sg_continuation_regex :: string

definition check_sglang_config :: "libraries \<Rightarrow> sglang_config \<Rightarrow> sglang_config res" where
  "check_sglang_config libs c =
     rbind (check_base_url libs ''SGLang'' (sg_base_url c)) (\<lambda>_.
     rbind (require (\<not> blank (sg_served_model c)) (ValueError ''SGLang served_model must not be empty'')) (\<lambda>_.
     rbind (require (\<not> pf_le (pf_min (sg_connect_timeout c) (sg_read_timeout c)) (Fin 0))
        (ValueError ''SGLang timeouts must be greater than zero'')) (\<lambda>_.
     rbind (require (\<not> sg_max_connections c \<le> 0)
        (ValueError ''SGLang max_connections must be greater than zero'')) (\<lambda>_.
     rbind (require (sg_continuation_regex c \<noteq> []) (ValueError ''SGLang continuation_regex must not be empty'')) (\<lambda>_.
     rbind (require (lib_compiles libs (sg_continuation_regex c))
        (ValueError ''SGLang continuation_regex must be valid'')) (\<lambda>_. Inr c))))))"

record qwen_config =
  qw_model_path :: string
  qw_base_url :: string
  qw_api_key :: string
  qw_served_model :: string
  qw_connect_timeout :: pyfloat
  qw_read_timeout :: pyfloat
  qw_max_connections :: int
  qw_answer_max_output_tokens :: int
  qw_title_max_output_tokens :: int
  qw_temperature :: pyfloat
  qw_top_p :: pyfloat
  qw_top_k :: int
  qw_min_p :: pyfloat
  qw_presence_penalty :: pyfloat

definition check_qwen_config :: "libraries \<Rightarrow> qwen_config \<Rightarrow> qwen_config res" where
  "check_qwen_config libs c =
     rbind (require (\<not> blank (qw_model_path c)) (ValueError ''Qwen model_path must not be empty'')) (\<lambda>_.
     rbind (check_base_url libs ''Qwen SGLang'' (qw_base_url c)) (\<lambda>_.
     rbind (require (\<not> blank (qw_served_model c)) (ValueError ''Qwen SGLang served_model must not be empty'')) (\<lambda>_.
     rbind (require (\<not> pf_le (pf_min (qw_connect_timeout c) (qw_read_timeout c)) (Fin 0))
        (ValueError ''Qwen SGLang timeouts must be greater than zero'')) (\<lambda>_.
     rbind (require (\<not> qw_max_connections c \<le> 0)
        (ValueError ''Qwen SGLang max_connections must be greater than zero'')) (\<lambda>_.
     rbind (require (\<not> min (qw_answer_max_output_tokens c) (qw_title_max_output_tokens c) \<le> 0)
        (ValueError ''Qwen output-token limits must be greater than zero'')) (\<lambda>_.
     rbind (require (pf_lt (Fin 0) (qw_temperature c) \<and> pf_le (qw_temperature c) (Fin 2))
        (ValueError ''Qwen temperature must be greater than 0 and at most 2'')) (\<lambda>_.
     rbind (require (is_probability (qw_top_p c)) (ValueError ''Qwen top_p must be between 0 and 1 inclusive'')) (\<lambda>_.
     rbind (require (is_probability (qw_min_p c)) (ValueError ''Qwen min_p must be between 0 and 1 inclusive'')) (\<lambda>_.
     rbind (require (\<not> qw_top_k c \<le> 0) (ValueError ''Qwen top_k must be greater than zero'')) (\<lambda>_.
     rbind (require (pf_le (Fin 0) (qw_presence_penalty c) \<and> pf_le (qw_presence_penalty c) (Fin 2))
        (ValueError ''Qwen presence_penalty must be between 0 and 2 inclusive'')) (\<lambda>_. Inr c)))))))))))"

record onnx_config =
  ox_model_path :: string
  ox_revision :: string
  ox_onnx_filename :: string
  ox_manifest_filename :: string
  ox_max_tokens :: int
  ox_batch_size :: int
  ox_execution_provider :: string
  ox_device_id :: int
  ox_output_name :: string
  ox_disable_cpu_fallback :: bool

fun check_not_blank :: "(string \<times> string) list \<Rightarrow> unit res" where
  "check_not_blank [] = Inr ()"
| "check_not_blank ((name, v) # ps) =
     (if blank v then Inl (ValueError (''ONNX '' @ name @ '' must not be empty'')) else check_not_blank ps)"

definition check_onnx_config :: "onnx_config \<Rightarrow> onnx_config res" where
  "check_onnx_config c =
     rbind (check_not_blank
        [(''model_path'', ox_model_path c), (''revision'', ox_revision c), (''onnx_filename'', ox_onnx_filename c),
         (''manifest_filename'', ox_manifest_filename c), (''execution_provider'', ox_execution_provider c),
         (''output_name'', ox_output_name c)]) (\<lambda>_.
     rbind (require (\<not> min (ox_max_tokens c) (ox_batch_size c) \<le> 0)
        (ValueError ''ONNX token and batch limits must be greater than zero'')) (\<lambda>_.
     rbind (require (\<not> ox_device_id c < 0) (ValueError ''ONNX device_id must be zero or greater'')) (\<lambda>_.
     rbind (require (ox_disable_cpu_fallback c)
        (ValueError ''local retrieval ONNX inference cannot enable CPU fallback'')) (\<lambda>_. Inr c))))"

section \<open>The module constants\<close>

definition fixed_conversation_candidates :: int where "fixed_conversation_candidates = 50"
definition fixed_knowledge_candidates :: int where "fixed_knowledge_candidates = 50"
definition fixed_policy_candidates :: int where "fixed_policy_candidates = 40"
definition retrieval_unit_max_tokens :: int where "retrieval_unit_max_tokens = 300"
definition lateon_query_max_tokens :: int where "lateon_query_max_tokens = 32"
definition lateon_dimension :: int where "lateon_dimension = 128"
definition gte_dimension :: int where "gte_dimension = 768"
definition embedding_revision :: string where
  "embedding_revision = ''e7f32e3c00f91d699e8c43b53106206bcc72bb22''"
definition reranker_revision :: string where
  "reranker_revision = ''953dc6f6f85a1b2dbfca4c34a2796e7dde08d41e''"
definition lateon_revision :: string where
  "lateon_revision = ''62911e105059585d244384c7d17826e35f669c17''"

definition embedding_vector_profile :: string where
  "embedding_vector_profile =
     ''gte-modernbert-base-'' @ take 7 embedding_revision @ ''-fp16-cls-l2-'' @ show_int gte_dimension @ ''-v1''"

definition retrieval_vector_profile :: string where
  "retrieval_vector_profile =
     ''lateon-'' @ take 10 lateon_revision @ ''-fp16-colbert-maxsim-q'' @ show_int lateon_query_max_tokens
     @ ''-d'' @ show_int retrieval_unit_max_tokens @ ''-'' @ show_int lateon_dimension @ ''-v1+''
     @ embedding_vector_profile"

text \<open>The back-slash and the double quote, for the default regular expressions.\<close>

definition backslash :: string where "backslash = [CHR 0x5C]"
definition dquote :: string where "dquote = [CHR 0x22]"

definition load_qwen :: "libraries \<Rightarrow> environment \<Rightarrow> qwen_config res" where
  "load_qwen libs env =
     rbind (env_string env ''QWEN_MODEL_PATH'' ''qwen3-4b-awq'') (\<lambda>path.
     rbind (env_string env ''QWEN_SGLANG_BASE_URL'' ''http://127.0.0.1:30001/v1'') (\<lambda>url.
     rbind (env_string env ''QWEN_SGLANG_SERVED_MODEL'' ''qwen3-4b-awq'') (\<lambda>served.
     rbind (env_float env ''QWEN_SGLANG_CONNECT_TIMEOUT_SECONDS'' 1) (\<lambda>connect.
     rbind (env_float env ''QWEN_SGLANG_READ_TIMEOUT_SECONDS'' 120) (\<lambda>read.
     rbind (env_int env ''QWEN_SGLANG_MAX_CONNECTIONS'' 32) (\<lambda>conns.
     rbind (env_int env ''QWEN_ANSWER_MAX_OUTPUT_TOKENS'' 1800) (\<lambda>answer.
     rbind (env_int env ''QWEN_TITLE_MAX_OUTPUT_TOKENS'' 32) (\<lambda>title.
     rbind (env_float env ''QWEN_TEMPERATURE'' (7/10)) (\<lambda>temp.
     rbind (env_probability env ''QWEN_TOP_P'' (8/10)) (\<lambda>topp.
     rbind (env_int env ''QWEN_TOP_K'' 20) (\<lambda>topk.
     rbind (env_probability env ''QWEN_MIN_P'' 0) (\<lambda>minp.
     rbind (env_nonnegative_float env ''QWEN_PRESENCE_PENALTY'' (3/2)) (\<lambda>presence.
       check_qwen_config libs
         \<lparr>qw_model_path = path, qw_base_url = rstrip_of (\<lambda>c. c = CHR ''/'') url,
          qw_api_key = env_raw_string env ''QWEN_SGLANG_API_KEY'' [], qw_served_model = served,
          qw_connect_timeout = connect, qw_read_timeout = read, qw_max_connections = conns,
          qw_answer_max_output_tokens = answer, qw_title_max_output_tokens = title, qw_temperature = temp,
          qw_top_p = topp, qw_top_k = topk, qw_min_p = minp, qw_presence_penalty = presence\<rparr>)))))))))))))"

definition load_primary_generator :: "qwen_config \<Rightarrow> llm_config res" where
  "load_primary_generator q =
     check_llm_config \<lparr>lc_model = qw_served_model q, lc_reasoning = Some ''low'',
       lc_max_output_tokens = Some (qw_answer_max_output_tokens q)\<rparr>"

definition load_query_rewriter :: "environment \<Rightarrow> llm_config res" where
  "load_query_rewriter env =
     rbind (env_string env ''QUERY_REWRITER_MODEL'' ''merged-granite-4.1-3b-query-rewrite'') (\<lambda>model.
       check_llm_config \<lparr>lc_model = model, lc_reasoning = None, lc_max_output_tokens = None\<rparr>)"

definition load_session_title_generator :: "qwen_config \<Rightarrow> llm_config res" where
  "load_session_title_generator q =
     check_llm_config \<lparr>lc_model = qw_served_model q, lc_reasoning = None, lc_max_output_tokens = None\<rparr>"

definition load_model_names :: "environment \<Rightarrow> string list res" where
  "load_model_names env = rmap (\<lambda>(name, dflt). env_string env name dflt)
     [(''EMBEDDING_MODEL'', ''Alibaba-NLP/gte-modernbert-base''),
      (''RERANKER_MODEL'', ''BAAI/bge-reranker-v2-m3''),
      (''SEGMENTATION_EMBEDDING_MODEL'', ''all-MiniLM-L6-v2''),
      (''SEGMENTATION_MODEL_PATH'', ''models/all-MiniLM-L6-v2''),
      (''SEGMENTATION_EMBEDDING_DEVICE'', ''cpu'')]"

definition load_onnx_embedding :: "environment \<Rightarrow> onnx_config res" where
  "load_onnx_embedding env =
     rbind (env_string env ''ONNX_EMBEDDING_MODEL_PATH'' ''models/gte-modernbert-base'') (\<lambda>path.
     rbind (env_string env ''ONNX_EMBEDDING_FILENAME'' ''onnx/model_fp16.onnx'') (\<lambda>file.
     rbind (env_string env ''ONNX_EMBEDDING_MANIFEST_FILENAME'' ''onnx-manifest.json'') (\<lambda>manifest.
     rbind (env_int env ''ONNX_EMBEDDING_MAX_TOKENS'' 8192) (\<lambda>tokens.
     rbind (env_int env ''ONNX_EMBEDDING_BATCH_SIZE'' 32) (\<lambda>batch.
     rbind (env_string env ''ONNX_EMBEDDING_EXECUTION_PROVIDER'' ''CUDAExecutionProvider'') (\<lambda>provider.
     rbind (env_nonnegative_int env ''ONNX_EMBEDDING_CUDA_DEVICE_ID'' 0) (\<lambda>device.
     rbind (env_string env ''ONNX_EMBEDDING_OUTPUT_NAME'' ''last_hidden_state'') (\<lambda>output.
     rbind (env_bool env ''ONNX_EMBEDDING_DISABLE_CPU_FALLBACK'' True) (\<lambda>nocpu.
       check_onnx_config
         \<lparr>ox_model_path = path, ox_revision = embedding_revision, ox_onnx_filename = file,
          ox_manifest_filename = manifest, ox_max_tokens = tokens, ox_batch_size = batch,
          ox_execution_provider = provider, ox_device_id = device, ox_output_name = output,
          ox_disable_cpu_fallback = nocpu\<rparr>)))))))))"

definition load_onnx_late_interaction :: "environment \<Rightarrow> onnx_config res" where
  "load_onnx_late_interaction env =
     rbind (env_string env ''ONNX_LATE_INTERACTION_MODEL_PATH'' ''models/LateOn'') (\<lambda>path.
     rbind (env_string env ''ONNX_LATE_INTERACTION_FILENAME'' ''model_fp16.onnx'') (\<lambda>file.
     rbind (env_string env ''ONNX_LATE_INTERACTION_MANIFEST_FILENAME'' ''onnx-manifest.json'') (\<lambda>manifest.
     rbind (env_int env ''ONNX_LATE_INTERACTION_BATCH_SIZE'' 32) (\<lambda>batch.
     rbind (env_nonnegative_int env ''ONNX_LATE_INTERACTION_CUDA_DEVICE_ID'' 0) (\<lambda>device.
       check_onnx_config
         \<lparr>ox_model_path = path, ox_revision = lateon_revision, ox_onnx_filename = file,
          ox_manifest_filename = manifest, ox_max_tokens = retrieval_unit_max_tokens, ox_batch_size = batch,
          ox_execution_provider = ''CUDAExecutionProvider'', ox_device_id = device, ox_output_name = ''output'',
          ox_disable_cpu_fallback = True\<rparr>)))))"

definition load_onnx_reranker :: "environment \<Rightarrow> onnx_config res" where
  "load_onnx_reranker env =
     rbind (env_string env ''ONNX_RERANKER_MODEL_PATH'' ''models/bge-reranker-v2-m3-onnx'') (\<lambda>path.
     rbind (env_string env ''ONNX_RERANKER_FILENAME'' ''model_fp16.onnx'') (\<lambda>file.
     rbind (env_string env ''ONNX_RERANKER_MANIFEST_FILENAME'' ''onnx-manifest.json'') (\<lambda>manifest.
     rbind (env_int env ''ONNX_RERANKER_MAX_TOKENS'' 512) (\<lambda>tokens.
     rbind (env_int env ''ONNX_RERANKER_BATCH_SIZE'' 16) (\<lambda>batch.
     rbind (env_string env ''ONNX_RERANKER_EXECUTION_PROVIDER'' ''CUDAExecutionProvider'') (\<lambda>provider.
     rbind (env_nonnegative_int env ''ONNX_RERANKER_CUDA_DEVICE_ID'' 0) (\<lambda>device.
     rbind (env_string env ''ONNX_RERANKER_OUTPUT_NAME'' ''logits'') (\<lambda>output.
     rbind (env_bool env ''ONNX_RERANKER_DISABLE_CPU_FALLBACK'' True) (\<lambda>nocpu.
       check_onnx_config
         \<lparr>ox_model_path = path, ox_revision = reranker_revision, ox_onnx_filename = file,
          ox_manifest_filename = manifest, ox_max_tokens = tokens, ox_batch_size = batch,
          ox_execution_provider = provider, ox_device_id = device, ox_output_name = output,
          ox_disable_cpu_fallback = nocpu\<rparr>)))))))))"

definition load_granite :: "libraries \<Rightarrow> environment \<Rightarrow> granite_config res" where
  "load_granite libs env =
     rbind (env_string env ''GRANITE_QUERY_REWRITE_MODEL_PATH'' ''merged-granite-4.1-3b-query-rewrite'') (\<lambda>path.
     rbind (env_string env ''GRANITE_QUERY_REWRITE_DEVICE'' ''cuda'') (\<lambda>device.
     rbind (env_string env ''GRANITE_QUERY_REWRITE_DTYPE'' ''float16'') (\<lambda>dtype.
     rbind (env_int env ''GRANITE_QUERY_REWRITE_MAX_INPUT_TOKENS'' 2048) (\<lambda>input.
     rbind (env_int env ''GRANITE_QUERY_REWRITE_MAX_NEW_TOKENS'' 128) (\<lambda>new.
     rbind (env_bool env ''GRANITE_QUERY_REWRITE_WARMUP'' True) (\<lambda>warmup.
       check_granite_config libs
         \<lparr>gc_model_path = path, gc_device = lower device, gc_dtype = lower dtype,
          gc_max_input_tokens = input, gc_max_new_tokens = new,
          gc_response_prefill = env_raw_string env ''GRANITE_QUERY_REWRITE_RESPONSE_PREFILL''
            (''{'' @ dquote @ ''rewritten_question'' @ dquote @ '':'' @ dquote),
          gc_warmup = warmup\<rparr>))))))"

definition default_continuation_regex :: string where
  "default_continuation_regex =
     ''(?:[^'' @ dquote @ backslash @ backslash @ backslash @ ''x00-'' @ backslash @ ''x1f]|'' @ backslash @ backslash @ ''(?:['' @ dquote @ backslash @ backslash
     @ ''/bfnrt]|u[0-9A-Fa-f]{4}))+'' @ dquote @ ''}'' @ backslash @ ''s*''"

definition load_sglang :: "libraries \<Rightarrow> environment \<Rightarrow> string \<Rightarrow> sglang_config res" where
  "load_sglang libs env rewriter_model =
     rbind (env_string env ''SGLANG_QUERY_REWRITE_BASE_URL'' ''http://127.0.0.1:30000/v1'') (\<lambda>url.
     rbind (env_string env ''SGLANG_QUERY_REWRITE_MODEL'' rewriter_model) (\<lambda>served.
     rbind (env_float env ''SGLANG_QUERY_REWRITE_CONNECT_TIMEOUT_SECONDS'' 1) (\<lambda>connect.
     rbind (env_float env ''SGLANG_QUERY_REWRITE_READ_TIMEOUT_SECONDS'' 2) (\<lambda>read.
     rbind (env_int env ''SGLANG_QUERY_REWRITE_MAX_CONNECTIONS'' 32) (\<lambda>conns.
     rbind (env_bool env ''SGLANG_QUERY_REWRITE_CONSTRAINED_OUTPUT'' True) (\<lambda>constrained.
       check_sglang_config libs
         \<lparr>sg_base_url = rstrip_of (\<lambda>c. c = CHR ''/'') url,
          sg_api_key = env_raw_string env ''SGLANG_QUERY_REWRITE_API_KEY'' [], sg_served_model = served,
          sg_connect_timeout = connect, sg_read_timeout = read, sg_max_connections = conns,
          sg_constrained_output = constrained,
          sg_continuation_regex = env_raw_string env ''SGLANG_QUERY_REWRITE_CONTINUATION_REGEX''
            default_continuation_regex\<rparr>))))))"

text \<open>Variables that earlier versions read and that must no longer be set.\<close>

definition obsolete_candidate_counts :: "string list" where
  "obsolete_candidate_counts =
     [''CONVERSATION_CANDIDATE_COUNT'', ''KNOWLEDGE_CANDIDATE_COUNT'', ''POLICY_CANDIDATE_COUNT'']"

definition check_obsolete :: "environment \<Rightarrow> unit res" where
  "check_obsolete env =
     (if env ''HYBRID_COMPONENTS'' \<noteq> None
      then Inl (ValueError (''HYBRID_COMPONENTS is no longer supported; hybrid retrieval is fixed to ''
                            @ ''late_interaction + BM25''))
      else (let configured = filter (\<lambda>name. env name \<noteq> None) obsolete_candidate_counts
            in if configured \<noteq> []
               then Inl (ValueError (join '', '' configured @ '' no longer supported; ''
                      @ ''first-stage retrieval is fixed to C'' @ show_int fixed_conversation_candidates
                      @ '' / K'' @ show_int fixed_knowledge_candidates
                      @ '' / P'' @ show_int fixed_policy_candidates
                      @ ''. Remove the obsolete environment variable(s).''))
               else Inr ()))"

definition load_hybrid :: "environment \<Rightarrow> hybrid_config res" where
  "load_hybrid env =
     rbind (env_string env ''HYBRID_FUSION_METHOD'' ''relativeScoreFusion'') (\<lambda>fusion.
     rbind (env_probability env ''HYBRID_ALPHA'' (7/10)) (\<lambda>alpha.
       check_hybrid_config \<lparr>hc_fusion_method = fusion, hc_alpha = alpha\<rparr>))"

text \<open>\<open>CONVERSATION_SEARCH\<close>, \<open>KNOWLEDGE_SEARCH\<close> and \<open>POLICY_SEARCH\<close> differ in their prefix and numbers.\<close>

definition load_search :: "environment \<Rightarrow> string \<Rightarrow> int \<Rightarrow> int \<Rightarrow> retrieval_config res" where
  "load_search env scope fixed final_default =
     rbind (env_int env (scope @ ''_FINAL_COUNT'') final_default) (\<lambda>final.
     rbind (env_finite_float env (scope @ ''_ADAPTIVE_RELEVANCE_FLOOR'') (- 1)) (\<lambda>floor.
     rbind (env_probability env (scope @ ''_ADAPTIVE_GAP_THRESHOLD'') (15/100)) (\<lambda>gap.
     rbind (env_probability env (scope @ ''_MMR_LAMBDA'') (7/10)) (\<lambda>lam.
       check_retrieval_config
         \<lparr>rc_candidate_count = fixed, rc_candidate_ceiling = fixed, rc_final_count = final,
          rc_relevance_floor = floor, rc_gap_threshold = gap, rc_mmr_lambda = lam\<rparr>))))"

definition load_chunking :: "environment \<Rightarrow> chunking_config res" where
  "load_chunking env =
     rbind (env_probability env ''PARAGRAPH_SIMILARITY_THRESHOLD'' (72/100)) (\<lambda>par.
     rbind (env_probability env ''CHUNK_SIMILARITY_THRESHOLD'' (76/100)) (\<lambda>chunk.
     rbind (env_int env ''TARGET_CHUNK_TOKENS'' 220) (\<lambda>target.
     rbind (env_int env ''MIN_CHUNK_TOKENS'' 80) (\<lambda>low.
     rbind (env_int env ''MAX_CHUNK_TOKENS'' retrieval_unit_max_tokens) (\<lambda>high.
     rbind (check_chunking_config
         \<lparr>cc_paragraph_threshold = par, cc_chunk_threshold = chunk, cc_target_tokens = target,
          cc_min_tokens = low, cc_max_tokens = high\<rparr>) (\<lambda>c.
     rbind (require (\<not> cc_max_tokens c > retrieval_unit_max_tokens)
        (ValueError ''MAX_CHUNK_TOKENS cannot exceed LateOn's 300-model-token document limit'')) (\<lambda>_.
       Inr c)))))))"

definition load_budgets :: "environment \<Rightarrow> budget_config res" where
  "load_budgets env =
     rbind (env_int env ''KNOWLEDGE_CONTEXT_TOKENS'' 2500) (\<lambda>knowledge.
     rbind (env_int env ''POLICY_CONTEXT_TOKENS'' 750) (\<lambda>policy.
     rbind (env_int env ''TOTAL_CONTEXT_TOKENS'' 3500) (\<lambda>total.
       check_budget_config
         \<lparr>bc_knowledge_tokens = knowledge, bc_policy_tokens = policy, bc_total_context_tokens = total\<rparr>)))"

definition load_text :: "libraries \<Rightarrow> environment \<Rightarrow> text_config res" where
  "load_text libs env =
     rbind (env_string env ''TOKENIZER_ENCODING'' ''cl100k_base'') (\<lambda>encoding.
     rbind (env_string env ''TEXT_WHITESPACE_PATTERN'' (backslash @ ''s+'')) (\<lambda>whitespace.
     rbind (env_string env ''SENTENCE_BOUNDARY_PATTERN'' (''(?<=[.!?])'' @ backslash @ ''s+'')) (\<lambda>sentence.
     rbind (env_string env ''MARKDOWN_HEADING_PATTERN'' (''^'' @ backslash @ ''s{0,3}#{1,6}(?:'' @ backslash @ ''s+|$)'')) (\<lambda>heading.
     rbind (env_string env ''MARKDOWN_LIST_ITEM_PATTERN''
        (''^'' @ backslash @ ''s*(?:[-*+]'' @ backslash @ ''s+|'' @ backslash @ ''d+[.)]'' @ backslash @ ''s+)'')) (\<lambda>item.
     rbind (env_string env ''MARKDOWN_FENCE_PATTERN'' (''^'' @ backslash @ ''s*(?:```|~~~)'')) (\<lambda>fence.
     rbind (env_bool env ''NORMALIZE_SENTENCE_EMBEDDINGS'' True) (\<lambda>normalise.
     rbind (env_bool env ''SENTENCE_EMBEDDING_PROGRESS_BAR'' False) (\<lambda>bar.
     rbind (env_int env ''SENTENCE_MODEL_CACHE_SIZE'' 1) (\<lambda>models.
     rbind (env_int env ''TOKENIZER_CACHE_SIZE'' 1) (\<lambda>tokenizers.
       check_text_config libs
         \<lparr>tc_tokenizer_encoding = encoding, tc_whitespace_pattern = whitespace,
          tc_sentence_boundary_pattern = sentence, tc_markdown_heading_pattern = heading,
          tc_markdown_list_item_pattern = item, tc_markdown_fence_pattern = fence,
          tc_sentence_join_separator = env_raw_string env ''SENTENCE_JOIN_SEPARATOR'' '' '',
          tc_normalize_embeddings = normalise, tc_show_progress_bar = bar,
          tc_sentence_model_cache_size = models, tc_tokenizer_cache_size = tokenizers\<rparr>))))))))))"

section \<open>The module\<close>

record model_config =
  mc_qwen :: qwen_config
  mc_primary :: llm_config
  mc_rewriter :: llm_config
  mc_titles :: llm_config
  mc_names :: "string list"
  mc_embedding :: onnx_config
  mc_late :: onnx_config
  mc_reranker :: onnx_config
  mc_granite :: granite_config
  mc_engine :: string
  mc_sglang :: sglang_config
  mc_hybrid :: hybrid_config
  mc_conversation :: retrieval_config
  mc_knowledge :: retrieval_config
  mc_policy :: retrieval_config
  mc_chunking :: chunking_config
  mc_budgets :: budget_config
  mc_text :: text_config

definition load_model_config :: "libraries \<Rightarrow> environment \<Rightarrow> model_config res" where
  "load_model_config libs env =
     rbind (load_qwen libs env) (\<lambda>qwen.
     rbind (load_primary_generator qwen) (\<lambda>primary.
     rbind (load_query_rewriter env) (\<lambda>rewriter.
     rbind (load_session_title_generator qwen) (\<lambda>titles.
     rbind (load_model_names env) (\<lambda>names.
     rbind (load_onnx_embedding env) (\<lambda>embedding.
     rbind (load_onnx_late_interaction env) (\<lambda>late.
     rbind (load_onnx_reranker env) (\<lambda>reranker.
     rbind (load_granite libs env) (\<lambda>granite.
     rbind (env_choice env ''QUERY_REWRITE_ENGINE'' ''sglang'' [''sglang'', ''transformers'']) (\<lambda>engine.
     rbind (load_sglang libs env (lc_model rewriter)) (\<lambda>sglang.
     rbind (check_obsolete env) (\<lambda>_.
     rbind (load_hybrid env) (\<lambda>hybrid.
     rbind (load_search env ''CONVERSATION'' fixed_conversation_candidates 5) (\<lambda>conversation.
     rbind (load_search env ''KNOWLEDGE'' fixed_knowledge_candidates 8) (\<lambda>knowledge.
     rbind (load_search env ''POLICY'' fixed_policy_candidates 5) (\<lambda>policy.
     rbind (load_chunking env) (\<lambda>chunking.
     rbind (load_budgets env) (\<lambda>budgets.
     rbind (load_text libs env) (\<lambda>text.
       Inr \<lparr>mc_qwen = qwen, mc_primary = primary, mc_rewriter = rewriter, mc_titles = titles, mc_names = names,
            mc_embedding = embedding, mc_late = late, mc_reranker = reranker, mc_granite = granite,
            mc_engine = engine, mc_sglang = sglang, mc_hybrid = hybrid, mc_conversation = conversation,
            mc_knowledge = knowledge, mc_policy = policy, mc_chunking = chunking, mc_budgets = budgets,
            mc_text = text\<rparr>)))))))))))))))))))"

section \<open>Soundness of a loaded configuration\<close>

lemma env_int_Inr:
  assumes "env_int env name d = Inr v"
  shows "0 < v"
  using assms by (auto simp: env_int_def env_int_with_def py_iff split: if_splits)

lemma env_probability_Inr:
  assumes "env_probability env name d = Inr v"
  shows "is_probability v"
  using assms by (auto simp: env_probability_def env_float_with_def py_iff split: if_splits)

definition retrieval_config_ok :: "int \<Rightarrow> retrieval_config \<Rightarrow> bool" where
  "retrieval_config_ok fixed c \<longleftrightarrow>
     rc_candidate_count c = fixed \<and> rc_candidate_ceiling c = fixed
     \<and> 1 \<le> rc_final_count c \<and> rc_final_count c \<le> fixed
     \<and> is_finite (rc_relevance_floor c) \<and> is_probability (rc_gap_threshold c) \<and> is_probability (rc_mmr_lambda c)"

definition chunking_config_ok :: "chunking_config \<Rightarrow> bool" where
  "chunking_config_ok c \<longleftrightarrow>
     is_probability (cc_paragraph_threshold c) \<and> is_probability (cc_chunk_threshold c)
     \<and> 1 \<le> cc_min_tokens c \<and> cc_min_tokens c \<le> cc_target_tokens c \<and> cc_target_tokens c \<le> cc_max_tokens c
     \<and> cc_max_tokens c \<le> retrieval_unit_max_tokens"

definition budget_config_ok :: "budget_config \<Rightarrow> bool" where
  "budget_config_ok c \<longleftrightarrow>
     1 \<le> bc_knowledge_tokens c \<and> 1 \<le> bc_policy_tokens c
     \<and> bc_knowledge_tokens c + bc_policy_tokens c \<le> bc_total_context_tokens c"

lemma load_search_ok: "load_search env scope fixed d = Inr c \<Longrightarrow> retrieval_config_ok fixed c"
  by (auto simp: load_search_def check_retrieval_config_def retrieval_config_ok_def py_iff)

lemma load_chunking_ok: "load_chunking env = Inr c \<Longrightarrow> chunking_config_ok c"
  by (auto simp: load_chunking_def check_chunking_config_def chunking_config_ok_def py_iff)

lemma load_budgets_ok: "load_budgets env = Inr c \<Longrightarrow> budget_config_ok c"
  by (auto simp: load_budgets_def check_budget_config_def budget_config_ok_def py_iff)

lemma load_onnx_ok:
  "load_onnx_embedding env = Inr c \<Longrightarrow> ox_disable_cpu_fallback c \<and> 0 < ox_max_tokens c \<and> 0 < ox_batch_size c"
  "load_onnx_late_interaction env = Inr c \<Longrightarrow>
     ox_disable_cpu_fallback c \<and> ox_max_tokens c = retrieval_unit_max_tokens \<and> 0 < ox_batch_size c"
  "load_onnx_reranker env = Inr c \<Longrightarrow> ox_disable_cpu_fallback c \<and> 0 < ox_max_tokens c \<and> 0 < ox_batch_size c"
  by (auto simp: load_onnx_embedding_def load_onnx_late_interaction_def load_onnx_reranker_def
      check_onnx_config_def py_iff)

lemma load_generators_ok:
  "load_primary_generator q = Inr c \<Longrightarrow>
     lc_model c = qw_served_model q \<and> lc_max_output_tokens c = Some (qw_answer_max_output_tokens q)"
  "load_session_title_generator q = Inr c \<Longrightarrow> lc_model c = qw_served_model q"
  by (auto simp: load_primary_generator_def load_session_title_generator_def check_llm_config_def py_iff)

lemma load_sglang_ok:
  "load_sglang libs env m = Inr c \<Longrightarrow> lib_compiles libs (sg_continuation_regex c) \<and> 0 < sg_max_connections c"
  by (auto simp: load_sglang_def check_sglang_config_def py_iff)

lemma load_text_ok:
  "load_text libs env = Inr c \<Longrightarrow> lib_compiles libs (tc_whitespace_pattern c)
     \<and> lib_compiles libs (tc_sentence_boundary_pattern c) \<and> lib_compiles libs (tc_markdown_heading_pattern c)
     \<and> lib_compiles libs (tc_markdown_list_item_pattern c) \<and> lib_compiles libs (tc_markdown_fence_pattern c)"
  by (auto simp: load_text_def check_text_config_def py_iff split: if_splits)

lemma check_obsolete_Inr:
  "check_obsolete env = Inr u \<longleftrightarrow>
     env ''HYBRID_COMPONENTS'' = None \<and> (\<forall>name \<in> set obsolete_candidate_counts. env name = None)"
  by (auto simp: check_obsolete_def Let_def filter_empty_conv)

lemma load_engine_ok:
  "env_choice env ''QUERY_REWRITE_ENGINE'' d [a, b] = Inr v \<Longrightarrow> v = a \<or> v = b"
  by (auto simp: env_choice_def py_iff split: if_splits)


definition sample_libraries :: libraries where
  "sample_libraries = \<lparr>lib_compiles = \<lambda>_. True, lib_urlsplit = \<lambda>_. Inr (''http'', ''127.0.0.1:30001'', [], []),
     lib_json = \<lambda>_. Some (PDict [(PStr ''rewritten_question'', PStr [])])\<rparr>"

lemma default_readers:
  "env_string (\<lambda>_. None) name d = (if strip d = [] then Inl (ValueError (name @ '' must not be empty'')) else Inr (strip d))"
  "env_int (\<lambda>_. None) name n = (if n \<le> 0 then Inl (ValueError (name @ '' must be greater than zero'')) else Inr n)"
  "env_nonnegative_int (\<lambda>_. None) name n = (if n < 0 then Inl (ValueError (name @ '' must be zero or greater'')) else Inr n)"
  "env_float (\<lambda>_. None) name x = (if x \<le> 0 then Inl (ValueError (name @ '' must be greater than zero'')) else Inr (Fin x))"
  "env_nonnegative_float (\<lambda>_. None) name x = (if x < 0 then Inl (ValueError (name @ '' must be zero or greater'')) else Inr (Fin x))"
  "env_finite_float (\<lambda>_. None) name x = Inr (Fin x)"
  "env_probability (\<lambda>_. None) name x = (if x < 0 \<or> 1 < x then Inl (ValueError (name @ '' must be between 0 and 1 inclusive'')) else Inr (Fin x))"
  "env_bool (\<lambda>_. None) name b = Inr b"
  "env_raw_string (\<lambda>_. None) name d = d"
  by (auto simp: env_string_def getenv_def env_int_def env_int_with_def env_nonnegative_int_def env_float_def
      env_float_with_def env_nonnegative_float_def env_finite_float_def env_probability_def is_probability_def
      env_bool_def env_raw_string_def)

lemma default_qwen: "\<exists>q. load_qwen sample_libraries (\<lambda>_. None) = Inr q \<and> qw_served_model q = ''qwen3-4b-awq'' \<and> qw_answer_max_output_tokens q = 1800"
  by (simp add: load_qwen_def default_readers py_eval check_qwen_config_def check_base_url_def sample_libraries_def
     pf_min_def is_probability_def blank_def)

lemma default_text: "\<exists>q. load_text sample_libraries (\<lambda>_. None) = Inr q"
  by (simp add: load_text_def default_readers py_eval check_text_config_def sample_libraries_def blank_def backslash_def)

lemma default_onnx:
  "\<exists>q. load_onnx_embedding (\<lambda>_. None) = Inr q"
  "\<exists>q. load_onnx_late_interaction (\<lambda>_. None) = Inr q"
  "\<exists>q. load_onnx_reranker (\<lambda>_. None) = Inr q"
  by (simp_all add: load_onnx_embedding_def load_onnx_late_interaction_def load_onnx_reranker_def
     default_readers py_eval check_onnx_config_def blank_def embedding_revision_def reranker_revision_def
      lateon_revision_def retrieval_unit_max_tokens_def)

lemma default_granite: "\<exists>q. load_granite sample_libraries (\<lambda>_. None) = Inr q"
  by (simp add: load_granite_def default_readers py_eval check_granite_config_def sample_libraries_def blank_def)

lemma default_sglang: "\<exists>q. load_sglang sample_libraries (\<lambda>_. None) ''merged-granite-4.1-3b-query-rewrite'' = Inr q"
  by (simp add: load_sglang_def default_readers py_eval check_sglang_config_def check_base_url_def sample_libraries_def
      blank_def pf_min_def default_continuation_regex_def dquote_def)

lemma default_search:
  "\<exists>q. load_search (\<lambda>_. None) s fixed_conversation_candidates 5 = Inr q"
  "\<exists>q. load_search (\<lambda>_. None) s fixed_knowledge_candidates 8 = Inr q"
  "\<exists>q. load_search (\<lambda>_. None) s fixed_policy_candidates 5 = Inr q"
  by (simp_all add: load_search_def default_readers check_retrieval_config_def is_probability_def
     fixed_conversation_candidates_def fixed_knowledge_candidates_def fixed_policy_candidates_def)

lemma default_rest:
  "\<exists>q. load_chunking (\<lambda>_. None) = Inr q"
  "\<exists>q. load_budgets (\<lambda>_. None) = Inr q"
  "\<exists>q. load_hybrid (\<lambda>_. None) = Inr q"
  "check_obsolete (\<lambda>_. None) = Inr ()"
  "\<exists>q. load_model_names (\<lambda>_. None) = Inr q"
  "\<exists>q. load_query_rewriter (\<lambda>_. None) = Inr q \<and> lc_model q = ''merged-granite-4.1-3b-query-rewrite''"
  "env_choice (\<lambda>_. None) ''QUERY_REWRITE_ENGINE'' ''sglang'' [''sglang'', ''transformers''] = Inr ''sglang''"
  by (simp_all add: load_chunking_def load_budgets_def load_hybrid_def check_obsolete_Inr load_model_names_def
     load_query_rewriter_def check_llm_config_def check_chunking_config_def check_budget_config_def
     check_hybrid_config_def env_choice_def default_readers is_probability_def retrieval_unit_max_tokens_def
     py_eval blank_def)


end
