(* ===== verification/Text_Segments.thy ===== *)
theory Text_Segments
  imports Model_Config
begin

text \<open>
  \<open>backend/processing/paragraph_splitter.py\<close>: Markdown-aware semantic units of a text and the lossless
  split into paragraphs. The five compiled patterns are the record \<open>text_rules\<close>; \<open>default_rules\<close> gives the
  default patterns of \<open>model_config.py\<close> as executable definitions. The sentence encoder is a parameter
  that returns an array or raises; vectors are real after the finiteness check.
\<close>

section \<open>Patterns\<close>

text \<open>
  \<open>tr_squeeze\<close> is \<open>_WHITESPACE.sub(separator, t)\<close>, the three predicates are \<open>match\<close> of the Markdown
  patterns, \<open>tr_boundaries\<close> lists the spans of \<open>_SENTENCE_BOUNDARY.finditer\<close>.
\<close>

record text_rules =
  tr_squeeze :: "string \<Rightarrow> string"
  tr_heading :: "string \<Rightarrow> bool"
  tr_item :: "string \<Rightarrow> bool"
  tr_fence :: "string \<Rightarrow> bool"
  tr_boundaries :: "string \<Rightarrow> (nat \<times> nat) list"

fun squeeze_spaces :: "bool \<Rightarrow> string \<Rightarrow> string" where
  "squeeze_spaces _ [] = []"
| "squeeze_spaces in_space (c # cs) =
     (if chr_space c then (if in_space then squeeze_spaces True cs else CHR '' '' # squeeze_spaces True cs)
      else c # squeeze_spaces False cs)"

definition chr_digit :: "char \<Rightarrow> bool" where
  "chr_digit c \<longleftrightarrow> dec_value c \<noteq> None"

text \<open>\<open>^\s{0,3}#{1,6}(?:\s+|$)\<close>, \<open>^\s*(?:[-*+]\s+|\d+[.)]\s+)\<close> and \<open>^\s*(?:```|~~~)\<close>.\<close>

definition heading_match :: "string \<Rightarrow> bool" where
  "heading_match t =
     (let rest = dropWhile chr_space t; hashes = takeWhile (\<lambda>c. c = CHR ''#'') rest;
          after = dropWhile (\<lambda>c. c = CHR ''#'') rest
      in length (takeWhile chr_space t) \<le> 3 \<and> 1 \<le> length hashes \<and> length hashes \<le> 6
         \<and> (after = [] \<or> chr_space (hd after)))"

definition item_match :: "string \<Rightarrow> bool" where
  "item_match t =
     (let rest = dropWhile chr_space t; after = dropWhile chr_digit rest
      in (case rest of c # d # _ \<Rightarrow> c \<in> {CHR ''-'', CHR ''*'', CHR ''+''} \<and> chr_space d | _ \<Rightarrow> False)
         \<or> (rest \<noteq> [] \<and> chr_digit (hd rest)
            \<and> (case after of c # d # _ \<Rightarrow> c \<in> {CHR ''.'', CHR '')''} \<and> chr_space d | _ \<Rightarrow> False)))"

definition fence_match :: "string \<Rightarrow> bool" where
  "fence_match t = (take 3 (dropWhile chr_space t) \<in> {''```'', ''~~~''})"

text \<open>\<open>(?<=[.!?])\s+\<close>: \<open>i\<close> is the position, \<open>stopped\<close> tells whether a stop precedes it.\<close>

definition sentence_stop :: "char \<Rightarrow> bool" where
  "sentence_stop c \<longleftrightarrow> c \<in> {CHR ''.'', CHR ''!'', CHR ''?''}"

fun sentence_spans :: "nat \<Rightarrow> bool \<Rightarrow> string \<Rightarrow> (nat \<times> nat) list" where
  "sentence_spans _ _ [] = []"
| "sentence_spans i stopped (c # cs) =
     (if stopped \<and> chr_space c
      then (let k = length (takeWhile chr_space cs)
            in (i, i + 1 + k) # sentence_spans (i + 1 + k) False (drop k cs))
      else sentence_spans (i + 1) (sentence_stop c) cs)"

definition default_rules :: text_rules where
  "default_rules = \<lparr>tr_squeeze = squeeze_spaces False, tr_heading = heading_match, tr_item = item_match,
     tr_fence = fence_match, tr_boundaries = sentence_spans 0 False\<rparr>"

section \<open>Semantic units\<close>

text \<open>\<open>str.splitlines(keepends=True)\<close>.\<close>

definition line_break :: "char \<Rightarrow> bool" where
  "line_break c \<longleftrightarrow> ord c \<in> {10, 11, 12, 13, 28, 29, 30, 133}"

fun splitlines :: "string \<Rightarrow> string list" where
  "splitlines [] = []"
| "splitlines (c # cs) =
     (if ord c = 13 \<and> cs \<noteq> [] \<and> ord (hd cs) = 10 then [c, hd cs] # splitlines (tl cs)
      else if line_break c then [c] # splitlines cs
      else (case splitlines cs of [] \<Rightarrow> [[c]] | l # ls \<Rightarrow> (c # l) # ls))"

record semantic_unit =
  su_start :: nat
  su_end :: nat
  su_text :: string

definition normalize_for_embedding :: "text_rules \<Rightarrow> string \<Rightarrow> string" where
  "normalize_for_embedding r t = strip (tr_squeeze r t)"

text \<open>The units \<open>_append_unit\<close> appends: one or none.\<close>

definition unit_of :: "text_rules \<Rightarrow> string \<Rightarrow> nat \<Rightarrow> nat \<Rightarrow> semantic_unit list" where
  "unit_of r doc a b =
     (let t = normalize_for_embedding r (slice a b doc)
      in if t = [] then [] else [\<lparr>su_start = a, su_end = b, su_text = t\<rparr>])"

definition line_content_end :: "string \<Rightarrow> nat \<Rightarrow> nat" where
  "line_content_end line start = start + length (rstrip_of (\<lambda>c. ord c = 13 \<or> ord c = 10) line)"

fun line_starts :: "nat \<Rightarrow> string list \<Rightarrow> (nat \<times> string) list" where
  "line_starts _ [] = []"
| "line_starts offset (l # ls) = (offset, l) # line_starts (offset + length l) ls"

text \<open>The inner loop of a fenced block: the end of the block and the lines after it.\<close>

fun fence_block :: "text_rules \<Rightarrow> string \<Rightarrow> nat \<Rightarrow> (nat \<times> string) list \<Rightarrow> nat \<times> (nat \<times> string) list" where
  "fence_block r doc block_end [] = (block_end, [])"
| "fence_block r doc block_end ((s, l) # ls) =
     (let e = line_content_end l s
      in if tr_fence r (slice s e doc) then (e, ls) else fence_block r doc e ls)"

lemma fence_block_length [termination_simp]:
  "fence_block r doc e ls = (e', ls') \<Longrightarrow> length ls' \<le> length ls"
  by (induction r doc e ls rule: fence_block.induct) (auto simp: Let_def split: if_splits)

fun sentence_units :: "text_rules \<Rightarrow> string \<Rightarrow> nat \<Rightarrow> nat \<Rightarrow> nat \<Rightarrow> (nat \<times> nat) list \<Rightarrow> semantic_unit list" where
  "sentence_units r doc line_start content_end rel [] = unit_of r doc (line_start + rel) content_end"
| "sentence_units r doc line_start content_end rel ((a, b) # ms) =
     unit_of r doc (line_start + rel) (line_start + a) @ sentence_units r doc line_start content_end b ms"

function line_units :: "text_rules \<Rightarrow> string \<Rightarrow> (nat \<times> string) list \<Rightarrow> semantic_unit list" where
  "line_units r doc [] = []"
| "line_units r doc ((s, l) # ls) =
     (let e = line_content_end l s; content = slice s e doc
      in if blank content then line_units r doc ls
         else if tr_fence r content
         then (case fence_block r doc e ls of (e', ls') \<Rightarrow> unit_of r doc s e' @ line_units r doc ls')
         else if tr_heading r content \<or> tr_item r content
         then unit_of r doc s e @ line_units r doc ls
         else sentence_units r doc s e 0 (tr_boundaries r content) @ line_units r doc ls)"
  by pat_completeness auto
termination
  by (relation "measure (\<lambda>(_, _, ls). length ls)") (auto simp: less_Suc_eq_le dest!: fence_block_length [OF sym])

definition semantic_units :: "text_rules \<Rightarrow> pyval \<Rightarrow> semantic_unit list res" where
  "semantic_units r v =
     (case v of
        PStr doc \<Rightarrow>
          Inr (if doc = [] \<or> blank doc then []
               else line_units r doc
                      (line_starts 0 (if splitlines doc = [] then [doc] else splitlines doc)))
      | _ \<Rightarrow> Inl (TypeError ''text must be a string''))"

section \<open>Embeddings and the split\<close>

definition validate_similarity_threshold :: "pyfloat \<Rightarrow> real res" where
  "validate_similarity_threshold v =
     (case v of
        Fin x \<Rightarrow> if 0 \<le> x \<and> x \<le> 1 then Inr x
                 else Inl (ValueError ''similarity_threshold must be between 0 and 1 inclusive'')
      | _ \<Rightarrow> Inl (ValueError ''similarity_threshold must be between 0 and 1 inclusive''))"

text \<open>
  A NumPy array: a matrix with its number of columns and its rows, or an array of another rank. An
  \<open>encoder\<close> is \<open>np.asarray(active_encoder.encode(...), dtype=np.float64)\<close>.
\<close>

datatype ndarray = Matrix nat "pyfloat list list" | OtherRank

type_synonym encoder = "string list \<Rightarrow> ndarray res"

definition pf_real :: "pyfloat \<Rightarrow> real" where
  "pf_real v = (case v of Fin x \<Rightarrow> x | _ \<Rightarrow> 0)"

definition vec_norm :: "real list \<Rightarrow> real" where
  "vec_norm v = sqrt (sum_list (map (\<lambda>x. x * x) v))"

definition encode_sentences :: "encoder \<Rightarrow> string list \<Rightarrow> real list list res" where
  "encode_sentences enc sentences =
     rbind (enc sentences) (\<lambda>arr.
       case arr of
         OtherRank \<Rightarrow> Inl (ValueError ''encoder must return one vector per input semantic unit'')
       | Matrix cols rows \<Rightarrow>
           if length rows \<noteq> length sentences
           then Inl (ValueError ''encoder must return one vector per input semantic unit'')
           else if cols = 0 then Inl (ValueError ''encoder vectors must contain at least one dimension'')
           else if \<not> (\<forall>row \<in> set rows. \<forall>x \<in> set row. is_finite x)
           then Inl (ValueError ''encoder returned non-finite values'')
           else (let vs = map (map pf_real) rows
                 in if \<exists>v \<in> set vs. vec_norm v = 0 then Inl (ValueError ''encoder returned a zero-length vector'')
                    else Inr (map (\<lambda>v. map (\<lambda>x. x / vec_norm v) v) vs)))"

definition cosine_similarity :: "real list \<Rightarrow> real list \<Rightarrow> real" where
  "cosine_similarity l r = max (- 1) (min 1 (sum_list (map (\<lambda>(x, y). x * y) (zip l r))))"

text \<open>The loop over adjacent units: \<open>start\<close> is \<open>paragraph_start\<close>.\<close>

fun split_at_topics :: "string \<Rightarrow> real \<Rightarrow> nat \<Rightarrow> (semantic_unit \<times> real list) list \<Rightarrow> string list" where
  "split_at_topics doc threshold start ((u, e) # (u', e') # us) =
     (if cosine_similarity e e' < threshold
      then slice start (su_start u') doc # split_at_topics doc threshold (su_start u') ((u', e') # us)
      else split_at_topics doc threshold start ((u', e') # us))"
| "split_at_topics doc threshold start [] = [drop start doc]"
| "split_at_topics doc threshold start [_] = [drop start doc]"

definition split_into_paragraphs ::
    "text_rules \<Rightarrow> chunking_config \<Rightarrow> pyval \<Rightarrow> pyfloat option \<Rightarrow> encoder \<Rightarrow> string list res" where
  "split_into_paragraphs r cfg v similarity enc =
     rbind (semantic_units r v) (\<lambda>units.
       case v of
         PStr doc \<Rightarrow>
           if units = [] then Inr []
           else if length units = 1 then Inr [doc]
           else rbind (validate_similarity_threshold
                        (case similarity of None \<Rightarrow> cc_paragraph_threshold cfg | Some s \<Rightarrow> s)) (\<lambda>threshold.
                rbind (encode_sentences enc (map su_text units)) (\<lambda>embeddings.
                  Inr (split_at_topics doc threshold 0 (zip units embeddings))))
       | _ \<Rightarrow> Inr [])"

section \<open>Units tile the text\<close>

lemma blank_slice_join:
  "blank (slice a b d) \<Longrightarrow> blank (slice b c d) \<Longrightarrow> a \<le> b \<Longrightarrow> b \<le> c \<Longrightarrow> blank (slice a c d)"
  by (metis blank_append slice_append)

lemma blank_slice_empty [simp]: "blank (slice a a d)"
  by (simp add: slice_def)

lemma rstrip_of_rest: "\<exists>rest. line = rstrip_of p line @ rest \<and> list_all p rest"
proof -
  have "rev line = takeWhile p (rev line) @ dropWhile p (rev line)"
    by simp
  then have "line = rstrip_of p line @ rev (takeWhile p (rev line))"
    by (metis rev_append rev_rev_ident rstrip_of_def)
  moreover have "list_all p (rev (takeWhile p (rev line)))"
    by (simp add: list_all_iff) (meson set_takeWhileD)
  ultimately show ?thesis
    by blast
qed

text \<open>
  The units are spans of the text from left to right, each with content, and only white space lies between
  them: \<open>covers d k n us\<close> states it for the part of \<open>d\<close> from \<open>k\<close> to \<open>n\<close>.
\<close>

fun covers :: "string \<Rightarrow> nat \<Rightarrow> nat \<Rightarrow> semantic_unit list \<Rightarrow> bool" where
  "covers d k n [] = (k \<le> n \<and> blank (slice k n d))"
| "covers d k n (u # us) =
     (k \<le> su_start u \<and> blank (slice k (su_start u) d) \<and> su_start u \<le> su_end u
      \<and> \<not> blank (slice (su_start u) (su_end u) d) \<and> covers d (su_end u) n us)"

lemma covers_le: "covers d k n us \<Longrightarrow> k \<le> n"
  by (induction us arbitrary: k) (auto intro: le_trans)

lemma covers_gap: "covers d k n us \<Longrightarrow> j \<le> k \<Longrightarrow> blank (slice j k d) \<Longrightarrow> covers d j n us"
  by (cases us) (auto intro: blank_slice_join)

lemma covers_append: "covers d k m us \<Longrightarrow> covers d m n vs \<Longrightarrow> covers d k n (us @ vs)"
  by (induction us arbitrary: k) (auto intro: covers_gap)

text \<open>The lines of a text, from an offset to its end.\<close>

fun lines_at :: "string \<Rightarrow> nat \<Rightarrow> (nat \<times> string) list \<Rightarrow> bool" where
  "lines_at d s [] = (s = length d)"
| "lines_at d s ((t, l) # ls) =
     (t = s \<and> s + length l \<le> length d \<and> slice s (s + length l) d = l \<and> lines_at d (s + length l) ls)"

lemma lines_at_le: "lines_at d s ls \<Longrightarrow> s \<le> length d"
  by (cases ls) auto

lemma concat_splitlines: "concat (splitlines s) = s"
  by (induction s rule: splitlines.induct) (auto split: list.splits)

lemma lines_at_line_starts: "drop s d = concat ls \<Longrightarrow> s \<le> length d \<Longrightarrow> lines_at d s (line_starts s ls)"
proof (induction ls arbitrary: s)
  case Nil
  then show ?case by simp
next
  case (Cons l ls)
  from Cons.prems have "drop s d = l @ concat ls"
    by simp
  moreover from this have "length d - s = length l + length (concat ls)"
    by (metis length_append length_drop)
  moreover from calculation(1) have "drop (s + length l) d = concat ls"
    by (metis add.commute append_eq_conv_conj drop_drop)
  ultimately show ?case
    using Cons by (simp add: slice_def)
qed

lemma line_content_end_bounds:
  assumes "slice s (s + length l) d = l"
  shows "s \<le> line_content_end l s" "line_content_end l s \<le> s + length l"
    "blank (slice (line_content_end l s) (s + length l) d)"
proof -
  let ?p = "\<lambda>c. ord c = 13 \<or> ord c = 10"
  obtain rest where l: "l = rstrip_of ?p l @ rest" and rest: "list_all ?p rest"
    using rstrip_of_rest by blast
  let ?c = "rstrip_of ?p l"
  show "s \<le> line_content_end l s" "line_content_end l s \<le> s + length l"
    using l by (simp_all add: line_content_end_def) (metis le_add1 length_append)
  have "drop (length ?c) (slice s (s + length l) d) = rest"
    by (metis append_eq_conv_conj assms l)
  then have "slice (line_content_end l s) (s + length l) d = rest"
    by (simp add: slice_def line_content_end_def drop_take add.commute)
  moreover have "list_all chr_space rest"
    using rest by (auto simp: list_all_iff chr_space_def Let_def)
  ultimately show "blank (slice (line_content_end l s) (s + length l) d)"
    by (simp add: blank_iff)
qed

lemma fence_block_lines:
  assumes "lines_at d s ls" "e \<le> s" "blank (slice e s d)" "fence_block r d e ls = (e', ls')"
  shows "\<exists>s'. e \<le> e' \<and> e' \<le> s' \<and> blank (slice e' s' d) \<and> lines_at d s' ls'"
  using assms
proof (induction ls arbitrary: s e)
  case Nil
  then show ?case by auto
next
  case (Cons p ls)
  obtain l where p: "p = (s, l)" and next_lines: "lines_at d (s + length l) ls"
    and l: "slice s (s + length l) d = l"
    using Cons.prems(1) by (cases p) auto
  note ends = line_content_end_bounds [OF l]
  show ?case
  proof (cases "tr_fence r (slice s (line_content_end l s) d)")
    case True
    then have "e' = line_content_end l s" "ls' = ls"
      using Cons.prems(4) p by (auto simp: Let_def)
    then show ?thesis
      using ends next_lines \<open>e \<le> s\<close> by (metis le_trans)
  next
    case False
    then have "fence_block r d (line_content_end l s) ls = (e', ls')"
      using Cons.prems(4) p by (simp add: Let_def)
    from Cons.IH [OF next_lines ends(2,3) this] ends(1) \<open>e \<le> s\<close> show ?thesis
      by (meson le_trans)
  qed
qed

fun spans_from :: "nat \<Rightarrow> nat \<Rightarrow> (nat \<times> nat) list \<Rightarrow> bool" where
  "spans_from k n [] = (k \<le> n)"
| "spans_from k n ((a, b) # ms) = (k \<le> a \<and> a \<le> b \<and> spans_from b n ms)"

lemma spans_from_le: "spans_from k n ms \<Longrightarrow> k \<le> n"
  by (induction k n ms rule: spans_from.induct) auto

text \<open>
  What the splitter needs of its patterns: normalising empties exactly the blank texts; the sentence
  boundaries come from left to right without overlap and match white space only.
\<close>

locale segmentation_rules =
  fixes r :: text_rules
  assumes normalize_empty: "normalize_for_embedding r t = [] \<longleftrightarrow> blank t"
    and boundaries_ordered: "spans_from 0 (length t) (tr_boundaries r t)"
    and boundaries_blank: "(a, b) \<in> set (tr_boundaries r t) \<Longrightarrow> blank (slice a b t)"
begin

lemma unit_of_covers: "a \<le> b \<Longrightarrow> covers d a b (unit_of r d a b)"
  by (simp add: unit_of_def normalize_empty Let_def)

lemma sentence_units_covers:
  assumes "spans_from rel (length content) ms" "\<forall>(a, b) \<in> set ms. blank (slice a b content)"
    and "content = slice s e d" "length content = e - s" "s \<le> e"
  shows "covers d (s + rel) e (sentence_units r d s e rel ms)"
  using assms
proof (induction ms arbitrary: rel)
  case Nil
  then have "s + rel \<le> e" by simp
  then show ?case by (simp add: unit_of_covers)
next
  case (Cons m ms)
  obtain a b where m: "m = (a, b)" and ab: "rel \<le> a" "a \<le> b" "spans_from b (length content) ms"
    "blank (slice a b content)" "b \<le> length content"
    using Cons.prems(1,2) by (cases m) (auto dest: spans_from_le)
  have "b \<le> e - s"
    using ab(5) Cons.prems(4) by simp
  then have "slice a b content = slice (s + a) (s + b) d"
    unfolding Cons.prems(3) slice_def using ab by (simp add: drop_take add.commute min_def)
  with ab have "blank (slice (s + a) (s + b) d)"
    by simp
  moreover have "covers d (s + b) e (sentence_units r d s e b ms)"
    using Cons ab by simp
  ultimately have "covers d (s + a) e (sentence_units r d s e b ms)"
    using ab by (auto intro: covers_gap)
  then show ?case
    using m ab by (auto intro!: covers_append [of d _ "s + a"] unit_of_covers)
qed

lemma line_units_covers: "lines_at d s ls \<Longrightarrow> covers d s (length d) (line_units r d ls)"
proof (induction ls arbitrary: s rule: measure_induct_rule [of length])
  case (less ls)
  show ?case
  proof (cases ls)
    case Nil
    with less.prems show ?thesis by simp
  next
    case (Cons p ls1)
    obtain l where ls: "ls = (s, l) # ls1" and rest: "lines_at d (s + length l) ls1"
      and l: "slice s (s + length l) d = l" and bound: "s + length l \<le> length d"
      using less.prems Cons by (cases p) auto
    note ends = line_content_end_bounds [OF l]
    define e where "e = line_content_end l s"
    define content where "content = slice s e d"
    have e: "s \<le> e" "e \<le> s + length l" "blank (slice e (s + length l) d)"
      using ends by (simp_all add: e_def)
    have len: "length content = e - s"
      using e bound by (simp add: content_def length_slice)
    have "covers d (s + length l) (length d) (line_units r d ls1)"
      using less.IH rest ls by simp
    then have tail: "covers d e (length d) (line_units r d ls1)"
      using e by (blast intro: covers_gap)
    consider "blank content" | "\<not> blank content" "tr_fence r content"
      | "\<not> blank content" "\<not> tr_fence r content" by blast
    then show ?thesis
    proof cases
      case 1
      then show ?thesis
        using tail e(1) ls by (auto simp: Let_def simp flip: e_def content_def intro: covers_gap)
    next
      case 2
      obtain e' ls' where fence: "fence_block r d e ls1 = (e', ls')"
        by fastforce
      from fence_block_lines [OF rest e(2,3) this] obtain s' where s': "e \<le> e'" "e' \<le> s'"
        "blank (slice e' s' d)" "lines_at d s' ls'"
        by blast
      have "covers d s' (length d) (line_units r d ls')"
        using less.IH [OF _ s'(4)] fence_block_length [OF fence] ls by simp
      then have "covers d e' (length d) (line_units r d ls')"
        using s' by (blast intro: covers_gap)
      moreover have "covers d s e' (unit_of r d s e')"
        using e s' by (simp add: unit_of_covers)
      ultimately have "covers d s (length d) (unit_of r d s e' @ line_units r d ls')"
        by (rule covers_append [rotated])
      then show ?thesis
        using 2 fence ls by (simp add: Let_def flip: e_def content_def)
    next
      case 3
      have "covers d s e (sentence_units r d s e 0 (tr_boundaries r content))"
        using sentence_units_covers [of 0 content "tr_boundaries r content" s e d] boundaries_ordered
          boundaries_blank len e(1) content_def by auto
      then show ?thesis
        using 3 tail e(1) ls
        by (auto simp: Let_def simp flip: e_def content_def intro!: covers_append [of d s e] unit_of_covers)
    qed
  qed
qed

lemma semantic_units_cover:
  assumes "semantic_units r (PStr d) = Inr us"
  shows "if blank d then us = [] else covers d 0 (length d) us \<and> us \<noteq> []"
proof (cases "blank d")
  case True
  with assms show ?thesis by (simp add: semantic_units_def)
next
  case False
  then have "d \<noteq> []" by auto
  then have "splitlines d \<noteq> []"
    using concat_splitlines [of d] by auto
  then have us: "us = line_units r d (line_starts 0 (splitlines d))"
    using assms False \<open>d \<noteq> []\<close> by (simp add: semantic_units_def)
  have "lines_at d 0 (line_starts 0 (splitlines d))"
    by (simp add: lines_at_line_starts concat_splitlines)
  from line_units_covers [OF this] us have "covers d 0 (length d) us"
    by simp
  moreover from this have "us \<noteq> []"
    using False by (auto simp: slice_all)
  ultimately show ?thesis
    using False by simp
qed

end

section \<open>The default patterns\<close>

lemma blank_squeeze: "blank (squeeze_spaces b t) \<longleftrightarrow> blank t"
  by (induction b t rule: squeeze_spaces.induct) (auto simp: blank_iff chr_space_def ord_def)

lemma sentence_spans_from: "i + length t = n \<Longrightarrow> spans_from i n (sentence_spans i p t)"
proof (induction i p t arbitrary: n rule: sentence_spans.induct)
  case (1 i p)
  then show ?case by simp
next
  case (2 i p c cs)
  have k: "length (takeWhile chr_space cs) \<le> length cs"
    by (rule length_takeWhile_le)
  have weaken: "spans_from (Suc i) n ms \<Longrightarrow> spans_from i n ms" for ms
    by (cases ms) auto
  show ?case
    using 2 k weaken by (auto simp: Let_def)
qed

lemma sentence_spans_blank:
  "(a, b) \<in> set (sentence_spans i p t) \<Longrightarrow> i \<le> a \<and> blank (slice (a - i) (b - i) t)"
proof (induction i p t rule: sentence_spans.induct)
  case (1 i p)
  then show ?case by simp
next
  case (2 i p c cs)
  define k where "k = length (takeWhile chr_space cs)"
  show ?case
  proof (cases "p \<and> chr_space c")
    case True
    have "take k cs = takeWhile chr_space cs"
      unfolding k_def by (rule takeWhile_eq_take [symmetric])
    then have "blank (slice 0 (Suc k) (c # cs))"
      using True by (simp add: blank_iff slice_def list_all_iff) (metis set_takeWhileD)
    moreover have "slice (a - i) (b - i) (c # cs) = slice (a - (i + 1 + k)) (b - (i + 1 + k)) (drop k cs)"
      if "i + 1 + k \<le> a"
      using that by (simp add: slice_def drop_Cons' Suc_diff_Suc add.commute)
    ultimately show ?thesis
      using 2 True by (auto simp: Let_def simp flip: k_def)
  next
    case False
    have "slice (a - i) (b - i) (c # cs) = slice (a - (i + 1)) (b - (i + 1)) cs" if "i + 1 \<le> a"
      using that by (simp add: slice_def drop_Cons')
    then show ?thesis
      using 2 False by (auto simp: Let_def)
  qed
qed

interpretation default_segmentation: segmentation_rules default_rules
proof
  show "normalize_for_embedding default_rules t = [] \<longleftrightarrow> blank t" for t
    using blank_squeeze by (simp add: normalize_for_embedding_def default_rules_def blank_def)
  show "spans_from 0 (length t) (tr_boundaries default_rules t)" for t
    by (simp add: default_rules_def sentence_spans_from)
  show "blank (slice a b t)" if "(a, b) \<in> set (tr_boundaries default_rules t)" for a b t
    using sentence_spans_blank [of a b 0 False t] that by (simp add: default_rules_def)
qed

section \<open>The split is lossless\<close>

definition topic_changes :: "real \<Rightarrow> real list list \<Rightarrow> nat" where
  "topic_changes threshold es = length (filter (\<lambda>(e, e'). cosine_similarity e e' < threshold) (zip es (tl es)))"

lemma covers_nonblank_prefix: "covers d k n (u # us) \<Longrightarrow> su_end u \<le> m \<Longrightarrow> s \<le> su_start u \<Longrightarrow> \<not> blank (slice s m d)"
proof
  assume u: "covers d k n (u # us)" "su_end u \<le> m" "s \<le> su_start u" and "blank (slice s m d)"
  then have "blank (slice s (su_start u) d @ slice (su_start u) (su_end u) d @ slice (su_end u) m d)"
    by (auto simp: slice_append)
  with u(1) show False by simp
qed

lemma split_at_topics_lossless:
  assumes "covers d k (length d) (map fst xs)" "xs \<noteq> []" "start \<le> su_start (fst (hd xs))"
  shows "concat (split_at_topics d th start xs) = drop start d
       \<and> (\<forall>p \<in> set (split_at_topics d th start xs). \<not> blank p)
       \<and> length (split_at_topics d th start xs) = 1 + topic_changes th (map snd xs)"
  using assms
proof (induction d th start xs arbitrary: k rule: split_at_topics.induct)
  case (1 d th start u e u' e' us)
  have u: "su_start u \<le> su_end u" "su_end u \<le> su_start u'" "start \<le> su_start u"
    using 1(3,5) by auto
  have tail: "covers d (su_end u) (length d) (map fst ((u', e') # us))"
    using 1(3) by simp
  have changes: "topic_changes th (e # e' # es) =
      (if cosine_similarity e e' < th then 1 else 0) + topic_changes th (e' # es)" for es
    by (simp add: topic_changes_def)
  show ?case
  proof (cases "cosine_similarity e e' < th")
    case True
    have "\<not> blank (slice start (su_start u') d)"
      by (rule covers_nonblank_prefix [of d k "length d" u "map fst ((u', e') # us)"]) (use 1(3) u in auto)
    moreover have "slice start (su_start u') d @ drop (su_start u') d = drop start d"
      using u by (intro slice_to_end) simp
    moreover note 1(1) [OF True tail]
    ultimately show ?thesis
      using True by (auto simp: changes)
  next
    case False
    then show ?thesis
      using 1(2) [OF False tail] u by (auto simp: changes)
  qed
next
  case (2 d th start)
  then show ?case by simp
next
  case (3 d th start v)
  obtain u e where v: "v = (u, e)" by fastforce
  have "covers d (su_end u) (length d) []"
    using 3(1) v by simp
  then have "\<not> blank (slice start (length d) d)"
    by (intro covers_nonblank_prefix [of d k "length d" u "[]"]) (use 3(1,3) v in \<open>auto dest: covers_le\<close>)
  then show ?case
    by (simp add: slice_def topic_changes_def)
qed

lemma encode_sentences_length: "encode_sentences enc ss = Inr es \<Longrightarrow> length es = length ss"
  unfolding encode_sentences_def
  by (elim rbind_InrE, rename_tac arr, case_tac arr) (auto simp: Let_def split: if_splits)


definition opposite_encoder :: encoder where
  "opposite_encoder ss = Inr (Matrix 1 [[Fin 1], [Fin (- 1)]])"

definition sample_chunking :: chunking_config where
  "sample_chunking = \<lparr>cc_paragraph_threshold = Fin (72/100), cc_chunk_threshold = Fin (76/100),
     cc_target_tokens = 4, cc_min_tokens = 2, cc_max_tokens = 6\<rparr>"

lemma sample_units:
  "semantic_units default_rules (PStr ''A b. C d.'') = Inr
     [\<lparr>su_start = 0, su_end = 4, su_text = ''A b.''\<rparr>, \<lparr>su_start = 5, su_end = 9, su_text = ''C d.''\<rparr>]"
  by (simp add: semantic_units_def default_rules_def blank_def line_break_def line_content_end_def
      fence_match_def heading_match_def item_match_def chr_digit_def dec_value_def sentence_stop_def
      unit_of_def normalize_for_embedding_def py_eval)


end
