(* ===== verification/Chunker.thy ===== *)
theory Chunker
  imports Text_Segments
begin

text \<open>
  \<open>backend/processing/chunker.py\<close>: the token-aware split of a paragraph into chunks. A \<open>tokenizer\<close> gives
  the number of tokens of a text (\<open>_token_count\<close>); it is a parameter, total on texts. \<open>CHUNKING\<close> is the
  record \<open>chunking_config\<close>.
\<close>

type_synonym tokenizer = "string \<Rightarrow> nat"

definition token_count :: "string \<Rightarrow> tokenizer \<Rightarrow> int" where
  "token_count t tok = int (tok t)"

record boundary =
  bd_offset :: nat
  bd_similarity :: real

record chunk_span =
  cs_start :: nat
  cs_end :: nat

section \<open>A character boundary within a token limit\<close>

text \<open>The binary search over the end of the prefix: \<open>low\<close> and \<open>high\<close> are inclusive bounds.\<close>

function prefix_search :: "tokenizer \<Rightarrow> string \<Rightarrow> nat \<Rightarrow> int \<Rightarrow> int \<Rightarrow> int \<Rightarrow> nat \<Rightarrow> nat" where
  "prefix_search tok doc start limit low high best =
     (if low \<le> high
      then (let midpoint = (low + high) div 2
            in if token_count (slice start (nat midpoint) doc) tok \<le> limit
               then prefix_search tok doc start limit (midpoint + 1) high (nat midpoint)
               else prefix_search tok doc start limit low (midpoint - 1) best)
      else best)"
  by pat_completeness auto
termination
  by (relation "measure (\<lambda>(_, _, _, _, low, high, _). nat (high + 1 - low))") auto

fun shrink_prefix :: "tokenizer \<Rightarrow> string \<Rightarrow> nat \<Rightarrow> int \<Rightarrow> nat \<Rightarrow> nat" where
  "shrink_prefix tok doc start limit best =
     (if start < best \<and> token_count (slice start best doc) tok > limit
      then shrink_prefix tok doc start limit (best - 1) else best)"

fun back_to_space :: "string \<Rightarrow> nat \<Rightarrow> nat \<Rightarrow> nat" where
  "back_to_space doc start e =
     (if start < e \<and> \<not> chr_space (doc ! (e - 1)) then back_to_space doc start (e - 1) else e)"

declare prefix_search.simps [simp del] shrink_prefix.simps [simp del] back_to_space.simps [simp del]

definition prefix_end_for_limit :: "chunking_config \<Rightarrow> string \<Rightarrow> nat \<Rightarrow> int \<Rightarrow> tokenizer \<Rightarrow> nat res" where
  "prefix_end_for_limit cfg doc start limit tok =
     (let best = shrink_prefix tok doc start limit
                   (prefix_search tok doc start limit (int start + 1) (int (length doc)) start)
      in if best = start then Inl (ValueError ''tokenizer cannot fit one source character within max_tokens'')
         else (let whitespace_end = back_to_space doc start best
               in if start < whitespace_end
                     \<and> token_count (slice start whitespace_end doc) tok \<ge> cc_min_tokens cfg
                  then Inr whitespace_end else Inr best))"

section \<open>The next end of a chunk\<close>

definition boundary_similarities ::
    "text_rules \<Rightarrow> string \<Rightarrow> encoder \<Rightarrow> (boundary list \<times> (nat \<rightharpoonup> real)) res" where
  "boundary_similarities r doc enc =
     rbind (semantic_units r (PStr doc)) (\<lambda>units.
       if length units < 2 then Inr ([], Map.empty)
       else rbind (encode_sentences enc (map su_text units)) (\<lambda>embeddings.
         let boundaries = map (\<lambda>i. \<lparr>bd_offset = su_start (units ! (i + 1)),
                bd_similarity = cosine_similarity (embeddings ! i) (embeddings ! (i + 1))\<rparr>) [0..<length units - 1]
         in Inr (boundaries, map_of (rev (map (\<lambda>b. (bd_offset b, bd_similarity b)) boundaries)))))"

text \<open>
  \<open>select_next_end\<close> keeps the order of the code: the first topic change in reach, then the candidate
  whose size is closest to the target (the smaller offset breaks a tie), then a character boundary.
\<close>

definition available_boundaries ::
    "chunking_config \<Rightarrow> string \<Rightarrow> nat \<Rightarrow> boundary list \<Rightarrow> tokenizer \<Rightarrow> boundary list" where
  "available_boundaries cfg doc start bs tok =
     filter (\<lambda>b. bd_offset b > start \<and> token_count (slice start (bd_offset b) doc) tok \<le> cc_max_tokens cfg) bs"

definition size_candidates ::
    "chunking_config \<Rightarrow> string \<Rightarrow> nat \<Rightarrow> boundary list \<Rightarrow> tokenizer \<Rightarrow> (nat \<times> int) list" where
  "size_candidates cfg doc start available tok =
     (let remaining = token_count (drop start doc) tok;
          inner = filter (\<lambda>(_, n). n \<ge> cc_min_tokens cfg)
            (map (\<lambda>b. (bd_offset b, token_count (slice start (bd_offset b) doc) tok)) available)
      in if remaining \<le> cc_max_tokens cfg
            \<and> (inner \<noteq> [] \<or> remaining \<le> cc_target_tokens cfg + cc_min_tokens cfg)
         then inner @ [(length doc, remaining)] else inner)"

definition select_next_end ::
    "chunking_config \<Rightarrow> string \<Rightarrow> nat \<Rightarrow> boundary list \<Rightarrow> real \<Rightarrow> tokenizer \<Rightarrow> nat res" where
  "select_next_end cfg doc start bs threshold tok =
     (let remaining = token_count (drop start doc) tok;
          available = available_boundaries cfg doc start bs tok;
          candidates = size_candidates cfg doc start available tok
      in case find (\<lambda>b. bd_similarity b < threshold) available of
           Some b \<Rightarrow> Inr (bd_offset b)
         | None \<Rightarrow>
             if candidates \<noteq> []
             then Inr (fst (arg_min_list (\<lambda>(offset, n). (\<bar>n - cc_target_tokens cfg\<bar>, offset)) candidates))
             else prefix_end_for_limit cfg doc start
                    (if remaining > cc_target_tokens cfg + cc_min_tokens cfg
                     then cc_target_tokens cfg else cc_max_tokens cfg) tok)"

section \<open>Merging small chunks\<close>

datatype direction = Previous | Following

definition merge_options ::
    "chunking_config \<Rightarrow> string \<Rightarrow> (nat \<rightharpoonup> real) \<Rightarrow> tokenizer \<Rightarrow> chunk_span list \<Rightarrow> nat
     \<Rightarrow> ((real \<times> int \<times> nat) \<times> direction) list" where
  "merge_options cfg doc sims tok merged index =
     (let current = merged ! index;
          similarity = (\<lambda>offset. case sims offset of None \<Rightarrow> 1 | Some s \<Rightarrow> s);
          before =
            (if 0 < index
             then (let combined = token_count (slice (cs_start (merged ! (index - 1))) (cs_end current) doc) tok
                   in if combined \<le> cc_max_tokens cfg
                      then [((similarity (cs_start current), - \<bar>combined - cc_target_tokens cfg\<bar>, 1), Previous)]
                      else [])
             else []);
          behind =
            (if index + 1 < length merged
             then (let combined = token_count (slice (cs_start current) (cs_end (merged ! (index + 1))) doc) tok
                   in if combined \<le> cc_max_tokens cfg
                      then [((similarity (cs_end current), - \<bar>combined - cc_target_tokens cfg\<bar>, 0), Following)]
                      else [])
             else [])
      in before @ behind)"

text \<open>\<open>max(options)[3]\<close>: no two options are equal, their third components differ.\<close>

fun max_option :: "((real \<times> int \<times> nat) \<times> direction) list \<Rightarrow> direction" where
  "max_option [] = Previous"
| "max_option [(_, d)] = d"
| "max_option ((k, d) # (k', d') # os) = (if k < k' then max_option ((k', d') # os) else max_option ((k, d) # os))"

lemma max_option_in: "os \<noteq> [] \<Longrightarrow> \<exists>k. (k, max_option os) \<in> set os"
  by (induction os rule: max_option.induct) auto

definition span_between :: "chunk_span \<Rightarrow> chunk_span \<Rightarrow> chunk_span" where
  "span_between a b = \<lparr>cs_start = cs_start a, cs_end = cs_end b\<rparr>"

function merge_small ::
    "chunking_config \<Rightarrow> string \<Rightarrow> (nat \<rightharpoonup> real) \<Rightarrow> tokenizer \<Rightarrow> nat \<Rightarrow> chunk_span list \<Rightarrow> chunk_span list" where
  "merge_small cfg doc sims tok index merged =
     (if index < length merged
      then (let current = merged ! index; options = merge_options cfg doc sims tok merged index
            in if token_count (slice (cs_start current) (cs_end current) doc) tok \<ge> cc_min_tokens cfg
               then merge_small cfg doc sims tok (index + 1) merged
               else if options = [] then merge_small cfg doc sims tok (index + 1) merged
               else if max_option options = Previous
               then merge_small cfg doc sims tok (index - 1)
                      (take (index - 1) merged @ [span_between (merged ! (index - 1)) current]
                       @ drop (index + 1) merged)
               else merge_small cfg doc sims tok index
                      (take index merged @ [span_between current (merged ! (index + 1))]
                       @ drop (index + 2) merged))
      else merged)"
  by pat_completeness auto

termination
proof (relation "measure (\<lambda>(_, _, _, _, index, merged). 2 * length merged - index)", goal_cases)
  case 1
  then show ?case by simp
next
  case (4 cfg doc sims tok index merged current options)
  then have "0 < index"
    using max_option_in [of options] by (auto simp: merge_options_def Let_def split: if_splits)
  with 4 show ?case by auto
next
  case (5 cfg doc sims tok index merged current options)
  then have "index + 1 < length merged"
    using max_option_in [of options] by (cases "max_option options")
      (auto simp: merge_options_def Let_def split: if_splits)
  with 5 show ?case by auto
qed auto

declare merge_small.simps [simp del]

section \<open>Chunking a paragraph\<close>

function chunk_spans ::
    "chunking_config \<Rightarrow> string \<Rightarrow> boundary list \<Rightarrow> real \<Rightarrow> tokenizer \<Rightarrow> nat \<Rightarrow> chunk_span list res" where
  "chunk_spans cfg doc bs threshold tok start =
     (if start < length doc
      then rbind (select_next_end cfg doc start bs threshold tok) (\<lambda>e.
             if e \<le> start then Inl (RuntimeError ''chunking did not advance through the source text'')
             else rbind (chunk_spans cfg doc bs threshold tok e) (\<lambda>spans.
                    Inr (\<lparr>cs_start = start, cs_end = e\<rparr> # spans)))
      else Inr [])"
  by pat_completeness auto
termination
  by (relation "measure (\<lambda>(_, doc, _, _, _, start). length doc - start)") auto

declare chunk_spans.simps [simp del]

definition chunk_paragraph ::
    "text_rules \<Rightarrow> chunking_config \<Rightarrow> pyval \<Rightarrow> pyfloat option \<Rightarrow> encoder \<Rightarrow> tokenizer \<Rightarrow> string list res" where
  "chunk_paragraph r cfg v similarity enc tok =
     rbind (semantic_units r v) (\<lambda>units.
       case v of
         PStr doc \<Rightarrow>
           if units = [] then Inr []
           else rbind (validate_similarity_threshold
                        (case similarity of None \<Rightarrow> cc_chunk_threshold cfg | Some s \<Rightarrow> s)) (\<lambda>threshold.
                rbind (boundary_similarities r doc enc) (\<lambda>(bs, sims).
                rbind (chunk_spans cfg doc bs threshold tok 0) (\<lambda>spans.
                let merged = merge_small cfg doc sims tok 0 spans;
                    chunks = map (\<lambda>s. slice (cs_start s) (cs_end s) doc) merged
                in if \<exists>c \<in> set chunks. token_count c tok > cc_max_tokens cfg
                   then Inl (RuntimeError ''chunking produced output above the configured hard maximum'')
                   else if concat chunks \<noteq> doc
                   then Inl (RuntimeError ''chunking failed to preserve the original paragraph'')
                   else Inr chunks)))
       | _ \<Rightarrow> Inr [])"

section \<open>The character boundary\<close>

lemma prefix_search_result:
  assumes "0 \<le> low"
  shows "prefix_search tok doc start limit low high best = best
     \<or> (low \<le> int (prefix_search tok doc start limit low high best)
        \<and> int (prefix_search tok doc start limit low high best) \<le> high
        \<and> token_count (slice start (prefix_search tok doc start limit low high best) doc) tok \<le> limit)"
  using assms
proof (induction tok doc start limit low high best rule: prefix_search.induct)
  case (1 tok doc start limit low high best)
  let ?m = "(low + high) div 2"
  show ?case
  proof (cases "low \<le> high")
    case True
    then have m: "low \<le> ?m" "?m \<le> high"
      by auto
    show ?thesis
    proof (cases "token_count (slice start (nat ?m) doc) tok \<le> limit")
      case fits: True
      have "prefix_search tok doc start limit low high best
          = prefix_search tok doc start limit (?m + 1) high (nat ?m)"
        using True fits by (subst prefix_search.simps) (simp add: Let_def)
      then show ?thesis
        using 1(1) [OF True refl fits] 1(3) m fits by auto
    next
      case False
      have "prefix_search tok doc start limit low high best
          = prefix_search tok doc start limit low (?m - 1) best"
        using True False by (subst prefix_search.simps) (simp add: Let_def)
      then show ?thesis
        using 1(2) [OF True refl False 1(3)] m by auto
    qed
  next
    case False
    then show ?thesis by (subst (1) prefix_search.simps) simp
  qed
qed

lemma prefix_search_grows: "int best < low \<Longrightarrow> int best \<le> int (prefix_search tok doc start limit low high best)"
  using prefix_search_result [of low tok doc start limit high best] by auto

lemma prefix_search_finds:
  assumes "token_count (slice start (nat low) doc) tok \<le> limit" "0 \<le> low" "low \<le> high"
  shows "low \<le> int (prefix_search tok doc start limit low high best)"
  using assms
proof (induction tok doc start limit low high best rule: prefix_search.induct)
  case (1 tok doc start limit low high best)
  let ?m = "(low + high) div 2"
  have m: "low \<le> ?m" "?m \<le> high"
    using 1(5) by auto
  show ?case
  proof (cases "token_count (slice start (nat ?m) doc) tok \<le> limit")
    case True
    have "prefix_search tok doc start limit low high best
        = prefix_search tok doc start limit (?m + 1) high (nat ?m)"
      using 1(5) True by (subst prefix_search.simps) (simp add: Let_def)
    then show ?thesis
      using prefix_search_grows [of "nat ?m" "?m + 1" tok doc start limit high] m 1(4) by auto
  next
    case False
    then have "?m \<noteq> low"
      using 1(3) by auto
    moreover have "prefix_search tok doc start limit low high best
        = prefix_search tok doc start limit low (?m - 1) best"
      using 1(5) False by (subst prefix_search.simps) (simp add: Let_def)
    ultimately show ?thesis
      using 1(2) [OF 1(5) refl False 1(3) 1(4)] m by auto
  qed
qed

lemma shrink_prefix_id:
  "best = start \<or> token_count (slice start best doc) tok \<le> limit \<Longrightarrow> shrink_prefix tok doc start limit best = best"
  by (subst shrink_prefix.simps) auto

lemma back_to_space_bounds: "start \<le> e \<Longrightarrow> start \<le> back_to_space doc start e \<and> back_to_space doc start e \<le> e"
proof (induction doc start e rule: back_to_space.induct)
  case (1 doc start e)
  show ?case
  proof (cases "start < e \<and> \<not> chr_space (doc ! (e - 1))")
    case True
    with 1 have "start \<le> back_to_space doc start (e - 1)" "back_to_space doc start (e - 1) \<le> e - 1"
      by auto
    moreover have "back_to_space doc start e = back_to_space doc start (e - 1)"
      using True by (subst back_to_space.simps) simp
    ultimately show ?thesis by simp
  next
    case False
    then have "back_to_space doc start e = e"
      by (subst back_to_space.simps) auto
    with 1(2) show ?thesis by simp
  qed
qed

text \<open>\<open>best\<close> of the code after both loops: the search result, which the second loop leaves alone.\<close>

lemma prefix_end_cases:
  assumes "start < length doc"
  obtains best where "start \<le> best" "best \<le> length doc"
    "best \<noteq> start \<longrightarrow> token_count (slice start best doc) tok \<le> limit"
    "token_count (slice start (start + 1) doc) tok \<le> limit \<longrightarrow> start < best"
    "prefix_end_for_limit cfg doc start limit tok =
       (if best = start then Inl (ValueError ''tokenizer cannot fit one source character within max_tokens'')
        else if start < back_to_space doc start best
             \<and> token_count (slice start (back_to_space doc start best) doc) tok \<ge> cc_min_tokens cfg
        then Inr (back_to_space doc start best) else Inr best)"
proof -
  define p where "p = prefix_search tok doc start limit (int start + 1) (int (length doc)) start"
  have p: "p = start \<or> (start < p \<and> p \<le> length doc \<and> token_count (slice start p doc) tok \<le> limit)"
    using prefix_search_result [of "int start + 1" tok doc start limit "int (length doc)" start]
    by (auto simp flip: p_def)
  moreover have "start < p" if "token_count (slice start (start + 1) doc) tok \<le> limit"
    using prefix_search_finds [of start "int start + 1" doc tok limit "int (length doc)" start] that assms
    by (simp add: nat_add_distrib flip: p_def)
  moreover have "shrink_prefix tok doc start limit p = p"
    using p by (auto intro: shrink_prefix_id)
  ultimately show thesis
    using assms by (intro that [of p]) (auto simp: prefix_end_for_limit_def Let_def simp flip: p_def)
qed

text \<open>A tokenizer that never counts fewer tokens in a longer prefix.\<close>

definition prefix_monotone :: "tokenizer \<Rightarrow> string \<Rightarrow> bool" where
  "prefix_monotone tok doc \<longleftrightarrow> (\<forall>s e e'. e \<le> e' \<longrightarrow> tok (slice s e doc) \<le> tok (slice s e' doc))"

lemma prefix_end_bounds:
  assumes "start < length doc" "prefix_end_for_limit cfg doc start limit tok = Inr e"
  shows "start < e \<and> e \<le> length doc \<and> (prefix_monotone tok doc \<longrightarrow> token_count (slice start e doc) tok \<le> limit)"
proof -
  from assms(1) obtain best where best: "start \<le> best" "best \<le> length doc"
    "best \<noteq> start \<longrightarrow> token_count (slice start best doc) tok \<le> limit"
    and e: "e = best \<and> start < best \<or> e = back_to_space doc start best \<and> start < e"
    using prefix_end_cases [of start doc tok limit cfg] assms(2) by (metis Inl_Inr_False Inr_inject le_neq_implies_less)
  have "e \<le> best" "start < e"
    using e back_to_space_bounds [OF best(1), of doc] by auto
  moreover have "token_count (slice start e doc) tok \<le> token_count (slice start best doc) tok"
    if "prefix_monotone tok doc"
    using that \<open>e \<le> best\<close> by (auto simp: prefix_monotone_def token_count_def)
  ultimately show ?thesis
    using best by force
qed

lemma prefix_end_succeeds:
  assumes "start < length doc" "token_count (slice start (start + 1) doc) tok \<le> limit"
  shows "\<exists>e. prefix_end_for_limit cfg doc start limit tok = Inr e"
  using prefix_end_cases [OF assms(1), of tok limit cfg] assms(2) by (metis less_irrefl)

lemma prefix_end_error:
  assumes "start < length doc" "prefix_end_for_limit cfg doc start limit tok = Inl err"
  shows "err = ValueError ''tokenizer cannot fit one source character within max_tokens''"
  using prefix_end_cases [OF assms(1), of tok limit cfg] assms(2) by (metis Inl_Inr_False Inl_inject)

section \<open>The next end\<close>

lemma size_candidates_offset:
  "(offset, n) \<in> set (size_candidates cfg doc start available tok) \<Longrightarrow>
     n = token_count (slice start offset doc) tok \<and> (offset = length doc \<and> n \<le> cc_max_tokens cfg \<or> (\<exists>b \<in> set available. offset = bd_offset b))"
  by (auto simp: size_candidates_def Let_def slice_def split: if_splits)

lemma select_next_end_cases:
  assumes "start < length doc" "select_next_end cfg doc start bs th tok = res"
  shows "(\<exists>b \<in> set (available_boundaries cfg doc start bs tok). res = Inr (bd_offset b))
       \<or> (res = Inr (length doc) \<and> token_count (drop start doc) tok \<le> cc_max_tokens cfg)
       \<or> res = prefix_end_for_limit cfg doc start (cc_target_tokens cfg) tok
       \<or> res = prefix_end_for_limit cfg doc start (cc_max_tokens cfg) tok"
proof -
  define available where "available = available_boundaries cfg doc start bs tok"
  define candidates where "candidates = size_candidates cfg doc start available tok"
  define key :: "nat \<times> int \<Rightarrow> int \<times> nat" where "key = (\<lambda>(offset, n). (\<bar>n - cc_target_tokens cfg\<bar>, offset))"
  have res: "res = (case find (\<lambda>b. bd_similarity b < th) available of
           Some b \<Rightarrow> Inr (bd_offset b)
         | None \<Rightarrow>
             if candidates \<noteq> [] then Inr (fst (arg_min_list key candidates))
             else prefix_end_for_limit cfg doc start
                    (if token_count (drop start doc) tok > cc_target_tokens cfg + cc_min_tokens cfg
                     then cc_target_tokens cfg else cc_max_tokens cfg) tok)"
    unfolding assms(2) [symmetric] select_next_end_def Let_def available_def candidates_def key_def ..
  show ?thesis
  proof (cases "find (\<lambda>b. bd_similarity b < th) available")
    case (Some b)
    then have "b \<in> set available"
      by (metis find_Some_iff nth_mem)
    with Some res show ?thesis by (auto simp: available_def)
  next
    case None
    show ?thesis
    proof (cases "candidates = []")
      case True
      with None res show ?thesis by simp
    next
      case False
      then have "arg_min_list key candidates \<in> set candidates"
        by (rule arg_min_list_in)
      then obtain offset n where on: "arg_min_list key candidates = (offset, n)" "(offset, n) \<in> set candidates"
        by (metis surj_pair)
      from size_candidates_offset [OF on(2) [unfolded candidates_def]] None False res on(1)
      show ?thesis
        by (auto simp: available_def slice_def)
    qed
  qed
qed

definition offsets_within :: "string \<Rightarrow> boundary list \<Rightarrow> bool" where
  "offsets_within doc bs \<longleftrightarrow> (\<forall>b \<in> set bs. bd_offset b \<le> length doc)"

lemma select_next_end_bounds:
  assumes "start < length doc" "offsets_within doc bs" "select_next_end cfg doc start bs th tok = Inr e"
  shows "start < e \<and> e \<le> length doc
    \<and> (prefix_monotone tok doc \<longrightarrow> cc_target_tokens cfg \<le> cc_max_tokens cfg \<longrightarrow>
         token_count (slice start e doc) tok \<le> cc_max_tokens cfg)"
  using select_next_end_cases [OF assms(1,3)]
proof (elim disjE)
  assume "\<exists>b \<in> set (available_boundaries cfg doc start bs tok). Inr e = Inr (bd_offset b)"
  then show ?thesis
    using assms(2) by (auto simp: available_boundaries_def offsets_within_def)
next
  assume "Inr e = Inr (length doc) \<and> token_count (drop start doc) tok \<le> cc_max_tokens cfg"
  then show ?thesis
    using assms(1) by (simp add: slice_def)
next
  assume "Inr e = prefix_end_for_limit cfg doc start (cc_target_tokens cfg) tok"
  from prefix_end_bounds [OF assms(1) this [symmetric]] show ?thesis by auto
next
  assume "Inr e = prefix_end_for_limit cfg doc start (cc_max_tokens cfg) tok"
  from prefix_end_bounds [OF assms(1) this [symmetric]] show ?thesis by auto
qed

lemma select_next_end_error:
  assumes "start < length doc" "select_next_end cfg doc start bs th tok = Inl err"
  shows "err = ValueError ''tokenizer cannot fit one source character within max_tokens''"
  using select_next_end_cases [OF assms] prefix_end_error [OF assms(1)] by (metis Inl_Inr_False)

lemma select_next_end_succeeds:
  assumes "start < length doc" "cc_target_tokens cfg \<le> cc_max_tokens cfg"
    and "token_count (slice start (start + 1) doc) tok \<le> cc_target_tokens cfg"
  shows "\<exists>e. select_next_end cfg doc start bs th tok = Inr e"
  using select_next_end_cases [OF assms(1), where cfg = cfg and bs = bs and th = th and tok = tok, OF refl]
    prefix_end_succeeds [OF assms(1), of tok "cc_target_tokens cfg" cfg]
    prefix_end_succeeds [OF assms(1), of tok "cc_max_tokens cfg" cfg] assms(2,3)
  by (metis order_trans)

section \<open>The spans tile the paragraph\<close>

fun tiles :: "nat \<Rightarrow> nat \<Rightarrow> chunk_span list \<Rightarrow> bool" where
  "tiles s n [] = (s = n)"
| "tiles s n (c # cs) = (cs_start c = s \<and> s < cs_end c \<and> tiles (cs_end c) n cs)"

lemma tiles_le: "tiles s n cs \<Longrightarrow> s \<le> n"
  by (induction cs arbitrary: s) force+

lemma tiles_append: "tiles s n (xs @ ys) \<longleftrightarrow> (\<exists>m. tiles s m xs \<and> tiles m n ys)"
  by (induction xs arbitrary: s) auto

lemma tiles_concat:
  assumes "tiles s (length d) cs" "s \<le> length d"
  shows "concat (map (\<lambda>c. slice (cs_start c) (cs_end c) d) cs) = drop s d
       \<and> (\<forall>c \<in> set cs. slice (cs_start c) (cs_end c) d \<noteq> [])"
  using assms
proof (induction cs arbitrary: s)
  case Nil
  then show ?case by simp
next
  case (Cons c cs)
  then have c: "cs_start c = s" "s < cs_end c" "tiles (cs_end c) (length d) cs"
    by auto
  moreover have "cs_end c \<le> length d"
    using c(3) by (rule tiles_le)
  ultimately show ?case
    using Cons.IH [of "cs_end c"] slice_to_end [of s "cs_end c" d]
    by (auto simp: slice_def)
qed

definition fits :: "chunking_config \<Rightarrow> string \<Rightarrow> tokenizer \<Rightarrow> chunk_span \<Rightarrow> bool" where
  "fits cfg doc tok c \<longleftrightarrow> token_count (slice (cs_start c) (cs_end c) doc) tok \<le> cc_max_tokens cfg"

lemma chunk_spans_tiles:
  assumes "offsets_within doc bs" "start \<le> length doc" "chunk_spans cfg doc bs th tok start = Inr spans"
  shows "tiles start (length doc) spans
    \<and> (prefix_monotone tok doc \<longrightarrow> cc_target_tokens cfg \<le> cc_max_tokens cfg \<longrightarrow> list_all (fits cfg doc tok) spans)"
  using assms
proof (induction cfg doc bs th tok start arbitrary: spans rule: chunk_spans.induct)
  case (1 cfg doc bs th tok start)
  show ?case
  proof (cases "start < length doc")
    case True
    obtain e where e: "select_next_end cfg doc start bs th tok = Inr e"
      using 1(4) True by (subst (asm) chunk_spans.simps) (auto elim: rbind_InrE)
    note next_end = select_next_end_bounds [OF True 1(2) e]
    then obtain rest where rest: "chunk_spans cfg doc bs th tok e = Inr rest"
      "spans = \<lparr>cs_start = start, cs_end = e\<rparr> # rest"
      using 1(4) True e by (subst (asm) chunk_spans.simps) (auto elim!: rbind_InrE)
    have "tiles e (length doc) rest
      \<and> (prefix_monotone tok doc \<longrightarrow> cc_target_tokens cfg \<le> cc_max_tokens cfg \<longrightarrow> list_all (fits cfg doc tok) rest)"
      using 1(1) [OF True e _ 1(2) _ rest(1)] next_end by auto
    then show ?thesis
      using rest(2) next_end by (auto simp: fits_def [of cfg doc tok "\<lparr>cs_start = start, cs_end = e\<rparr>"])
  next
    case False
    with 1(3,4) show ?thesis
      by (subst (asm) chunk_spans.simps) auto
  qed
qed

lemma chunk_spans_error:
  assumes "offsets_within doc bs" "chunk_spans cfg doc bs th tok start = Inl err"
  shows "err = ValueError ''tokenizer cannot fit one source character within max_tokens''"
  using assms
proof (induction cfg doc bs th tok start rule: chunk_spans.induct)
  case (1 cfg doc bs th tok start)
  have len: "start < length doc"
    using 1(3) by (subst (asm) chunk_spans.simps) (auto split: if_splits)
  show ?case
  proof (cases "select_next_end cfg doc start bs th tok")
    case (Inl err')
    with select_next_end_error [OF len Inl] 1(3) len show ?thesis
      by (subst (asm) chunk_spans.simps) simp
  next
    case (Inr e)
    from select_next_end_bounds [OF len 1(2) Inr] have "\<not> e \<le> start"
      by simp
    with 1(3) len Inr have "chunk_spans cfg doc bs th tok e = Inl err"
      by (subst (asm) chunk_spans.simps) (auto simp: rbind_Inl_iff)
    with 1(1) [OF len Inr \<open>\<not> e \<le> start\<close> 1(2)] show ?thesis by simp
  qed
qed

lemma chunk_spans_succeeds:
  assumes "offsets_within doc bs" "cc_target_tokens cfg \<le> cc_max_tokens cfg"
    and "\<forall>i < length doc. token_count (slice i (i + 1) doc) tok \<le> cc_target_tokens cfg"
  shows "\<exists>spans. chunk_spans cfg doc bs th tok start = Inr spans"
  using assms
proof (induction cfg doc bs th tok start rule: chunk_spans.induct)
  case (1 cfg doc bs th tok start)
  show ?case
  proof (cases "start < length doc")
    case True
    then obtain e where e: "select_next_end cfg doc start bs th tok = Inr e"
      using select_next_end_succeeds [OF True 1(3)] 1(4) by metis
    then have "\<not> e \<le> start"
      using select_next_end_bounds [OF True 1(2) e] by simp
    then obtain spans where "chunk_spans cfg doc bs th tok e = Inr spans"
      using 1(1) [OF True e _ 1(2,3,4)] by blast
    then show ?thesis
      using True e \<open>\<not> e \<le> start\<close> by (subst chunk_spans.simps) simp
  next
    case False
    then show ?thesis by (subst chunk_spans.simps) simp
  qed
qed

section \<open>Merging keeps the tiling and the limit\<close>

lemma merge_pair:
  assumes "i + 1 < length cs"
  shows "tiles s n cs \<Longrightarrow> tiles s n (take i cs @ [span_between (cs ! i) (cs ! (i + 1))] @ drop (i + 2) cs)"
    and "list_all P cs \<Longrightarrow> P (span_between (cs ! i) (cs ! (i + 1)))
          \<Longrightarrow> list_all P (take i cs @ [span_between (cs ! i) (cs ! (i + 1))] @ drop (i + 2) cs)"
proof -
  have cs: "cs = take i cs @ cs ! i # cs ! (i + 1) # drop (i + 2) cs"
    using assms by (metis Cons_nth_drop_Suc Suc_eq_plus1 Suc_lessD add_2_eq_Suc' append_take_drop_id)
  show "tiles s n cs \<Longrightarrow> tiles s n (take i cs @ [span_between (cs ! i) (cs ! (i + 1))] @ drop (i + 2) cs)"
    by (subst (asm) cs) (auto simp: tiles_append span_between_def)
  show "list_all P cs \<Longrightarrow> P (span_between (cs ! i) (cs ! (i + 1)))
          \<Longrightarrow> list_all P (take i cs @ [span_between (cs ! i) (cs ! (i + 1))] @ drop (i + 2) cs)"
    by (subst (asm) cs) simp
qed

lemma max_option_Previous:
  assumes "merge_options cfg doc sims tok merged i \<noteq> []" "max_option (merge_options cfg doc sims tok merged i) = Previous"
  shows "0 < i \<and> fits cfg doc tok (span_between (merged ! (i - 1)) (merged ! i))"
  using max_option_in [OF assms(1)] assms(2)
  by (auto simp: merge_options_def Let_def fits_def span_between_def split: if_splits)

lemma max_option_Following:
  assumes "merge_options cfg doc sims tok merged i \<noteq> []" "max_option (merge_options cfg doc sims tok merged i) \<noteq> Previous"
  shows "i + 1 < length merged \<and> fits cfg doc tok (span_between (merged ! i) (merged ! (i + 1)))"
  using max_option_in [OF assms(1)] assms(2)
  by (cases "max_option (merge_options cfg doc sims tok merged i)")
    (auto simp: merge_options_def Let_def fits_def span_between_def split: if_splits)

lemma merge_small_keeps:
  assumes "tiles s n merged"
  shows "tiles s n (merge_small cfg doc sims tok index merged)
    \<and> (list_all (fits cfg doc tok) merged \<longrightarrow> list_all (fits cfg doc tok) (merge_small cfg doc sims tok index merged))"
  using assms
proof (induction cfg doc sims tok index merged rule: merge_small.induct)
  case (1 cfg doc sims tok index merged)
  define options where "options = merge_options cfg doc sims tok merged index"
  define small where "small \<longleftrightarrow> \<not> token_count (slice (cs_start (merged ! index)) (cs_end (merged ! index)) doc) tok
      \<ge> cc_min_tokens cfg"
  consider "\<not> index < length merged" | "index < length merged" "\<not> small \<or> options = []"
    | "index < length merged" "small" "options \<noteq> []" "max_option options = Previous"
    | "index < length merged" "small" "options \<noteq> []" "max_option options \<noteq> Previous"
    by blast
  then show ?case
  proof cases
    case 1
    with "1.prems" show ?thesis by (subst (1 2) merge_small.simps) simp
  next
    case 2
    have "merge_small cfg doc sims tok index merged = merge_small cfg doc sims tok (index + 1) merged"
      using 2 by (subst merge_small.simps) (auto simp: Let_def options_def small_def)
    then show ?thesis
      using 2 "1.IH"(1) [OF 2(1) refl refl _ "1.prems"] "1.IH"(2) [OF 2(1) refl refl _ _ "1.prems"]
      by (auto simp: options_def small_def)
  next
    case 3
    let ?m = "take (index - 1) merged @ [span_between (merged ! (index - 1)) (merged ! index)] @ drop (index + 1) merged"
    have prev: "0 < index" "fits cfg doc tok (span_between (merged ! (index - 1)) (merged ! index))"
      using max_option_Previous [of cfg doc sims tok merged index] 3 by (auto simp: options_def)
    have eq: "merge_small cfg doc sims tok index merged = merge_small cfg doc sims tok (index - 1) ?m"
      using 3 by (subst merge_small.simps) (auto simp: Let_def options_def small_def)
    have "tiles s n ?m" "list_all (fits cfg doc tok) merged \<Longrightarrow> list_all (fits cfg doc tok) ?m"
      using merge_pair [of "index - 1" merged] 3(1) prev "1.prems" by auto
    then show ?thesis
      using eq "1.IH"(3) [OF 3(1) refl refl] 3 by (auto simp: options_def small_def)
  next
    case 4
    let ?m = "take index merged @ [span_between (merged ! index) (merged ! (index + 1))] @ drop (index + 2) merged"
    have foll: "index + 1 < length merged" "fits cfg doc tok (span_between (merged ! index) (merged ! (index + 1)))"
      using max_option_Following [of cfg doc sims tok merged index] 4 by (auto simp: options_def)
    have eq: "merge_small cfg doc sims tok index merged = merge_small cfg doc sims tok index ?m"
      using 4 by (subst merge_small.simps) (auto simp: Let_def options_def small_def)
    have "tiles s n ?m" "list_all (fits cfg doc tok) merged \<Longrightarrow> list_all (fits cfg doc tok) ?m"
      using merge_pair [OF foll(1)] foll(2) "1.prems" by auto
    then show ?thesis
      using eq "1.IH"(4) [OF 4(1) refl refl] 4 by (auto simp: options_def small_def)
  qed
qed

section \<open>What chunking promises\<close>

lemma covers_start_le: "covers d k n us \<Longrightarrow> u \<in> set us \<Longrightarrow> su_start u \<le> n"
  by (induction us arbitrary: k) (auto dest: covers_le)

lemma boundary_similarities_within:
  assumes "segmentation_rules r" "boundary_similarities r d enc = Inr (bs, sims)"
  shows "offsets_within d bs"
proof -
  obtain us where us: "semantic_units r (PStr d) = Inr us"
    by (simp add: semantic_units_def)
  have "covers d 0 (length d) us \<or> us = []"
    using segmentation_rules.semantic_units_cover [OF assms(1) us] by (auto split: if_splits)
  then have "su_start u \<le> length d" if "u \<in> set us" for u
    using that by (auto dest: covers_start_le)
  then show ?thesis
    using assms(2) us
    by (auto simp: boundary_similarities_def rbind_Inr_iff Let_def offsets_within_def split: if_splits)
qed

text \<open>The outcome of the stages after the embedding, for a text that is not blank.\<close>

lemma chunk_paragraph_stages:
  assumes "segmentation_rules r" "\<not> blank d"
    and "validate_similarity_threshold (case similarity of None \<Rightarrow> cc_chunk_threshold cfg | Some s \<Rightarrow> s) = Inr th"
    and "boundary_similarities r d enc = Inr (bs, sims)"
  shows "offsets_within d bs"
    and "chunk_paragraph r cfg (PStr d) similarity enc tok =
      rbind (chunk_spans cfg d bs th tok 0) (\<lambda>spans.
        let chunks = map (\<lambda>s. slice (cs_start s) (cs_end s) d) (merge_small cfg d sims tok 0 spans)
        in if \<exists>c \<in> set chunks. token_count c tok > cc_max_tokens cfg
           then Inl (RuntimeError ''chunking produced output above the configured hard maximum'')
           else Inr chunks)"
    and "chunk_spans cfg d bs th tok 0 = Inr spans \<Longrightarrow>
      tiles 0 (length d) (merge_small cfg d sims tok 0 spans)
      \<and> (prefix_monotone tok d \<longrightarrow> cc_target_tokens cfg \<le> cc_max_tokens cfg \<longrightarrow>
           list_all (fits cfg d tok) (merge_small cfg d sims tok 0 spans))"
proof -
  show within: "offsets_within d bs"
    using boundary_similarities_within [OF assms(1,4)] .
  show tiles: "tiles 0 (length d) (merge_small cfg d sims tok 0 spans)
      \<and> (prefix_monotone tok d \<longrightarrow> cc_target_tokens cfg \<le> cc_max_tokens cfg \<longrightarrow>
           list_all (fits cfg d tok) (merge_small cfg d sims tok 0 spans))"
    if "chunk_spans cfg d bs th tok 0 = Inr spans" for spans
    using chunk_spans_tiles [OF within _ that] merge_small_keeps by blast
  obtain us where us: "semantic_units r (PStr d) = Inr us"
    by (simp add: semantic_units_def)
  then have "us \<noteq> []"
    using segmentation_rules.semantic_units_cover [OF assms(1) us] assms(2) by simp
  moreover have "concat (map (\<lambda>s. slice (cs_start s) (cs_end s) d) (merge_small cfg d sims tok 0 spans)) = d"
    if "chunk_spans cfg d bs th tok 0 = Inr spans" for spans
    using tiles_concat [of 0 d "merge_small cfg d sims tok 0 spans"] tiles [OF that] by simp
  ultimately show "chunk_paragraph r cfg (PStr d) similarity enc tok =
      rbind (chunk_spans cfg d bs th tok 0) (\<lambda>spans.
        let chunks = map (\<lambda>s. slice (cs_start s) (cs_end s) d) (merge_small cfg d sims tok 0 spans)
        in if \<exists>c \<in> set chunks. token_count c tok > cc_max_tokens cfg
           then Inl (RuntimeError ''chunking produced output above the configured hard maximum'')
           else Inr chunks)"
    using us assms(3,4) by (cases "chunk_spans cfg d bs th tok 0") (simp_all add: chunk_paragraph_def Let_def)
qed

text \<open>
  C21 (safety). For any tokenizer and any encoder whose embeddings are accepted, a chunked text either comes
  back as non-empty chunks whose concatenation is the text, none above the hard maximum, or chunking ends in
  one of two errors: a single character is too large for the tokenizer, or a chunk is above the maximum. The
  two internal errors of the code, no progress and a lost part of the paragraph, are unreachable.
\<close>

theorem chunk_paragraph_outcomes:
  assumes "segmentation_rules r"
    and "validate_similarity_threshold (case similarity of None \<Rightarrow> cc_chunk_threshold cfg | Some s \<Rightarrow> s) = Inr th"
    and "boundary_similarities r d enc = Inr (bs, sims)"
  shows "case chunk_paragraph r cfg (PStr d) similarity enc tok of
           Inr cs \<Rightarrow> if blank d then cs = []
                     else concat cs = d \<and> (\<forall>c \<in> set cs. c \<noteq> [] \<and> token_count c tok \<le> cc_max_tokens cfg)
         | Inl e \<Rightarrow> e = ValueError ''tokenizer cannot fit one source character within max_tokens''
             \<or> e = RuntimeError ''chunking produced output above the configured hard maximum''"
proof (cases "blank d")
  case True
  then show ?thesis
    by (simp add: chunk_paragraph_def semantic_units_def)
next
  case False
  note stages = chunk_paragraph_stages [OF assms(1) False assms(2,3)]
  show ?thesis
  proof (cases "chunk_spans cfg d bs th tok 0")
    case (Inl e)
    then show ?thesis
      using stages(2) chunk_spans_error [OF stages(1) Inl] by simp
  next
    case (Inr spans)
    then show ?thesis
      using stages(2) tiles_concat [of 0 d "merge_small cfg d sims tok 0 spans"] stages(3) [OF Inr] False
      by (auto simp: Let_def not_less)
  qed
qed


text \<open>The sample: one token per character, target 4, between 2 and 6 tokens per chunk.\<close>

lemma sample_boundaries:
  "boundary_similarities default_rules ''A b. C d.'' opposite_encoder
     = Inr ([\<lparr>bd_offset = 5, bd_similarity = - 1\<rparr>], [5 \<mapsto> - 1])"
  by (simp add: boundary_similarities_def sample_units encode_sentences_def opposite_encoder_def vec_norm_def
      pf_real_def cosine_similarity_def)

lemma sample_chunks:
  "chunk_paragraph default_rules sample_chunking (PStr ''A b. C d.'') None opposite_encoder length
     = Inr [''A b. '', ''C d.'']"
proof -
  let ?bs = "[\<lparr>bd_offset = 5, bd_similarity = - 1\<rparr>]"
  have first: "select_next_end sample_chunking ''A b. C d.'' 0 ?bs (76/100) length = Inr 5"
    by (simp add: select_next_end_def available_boundaries_def token_count_def slice_def sample_chunking_def)
  have second: "select_next_end sample_chunking ''A b. C d.'' 5 ?bs (76/100) length = Inr 9"
    by (simp add: select_next_end_def available_boundaries_def size_candidates_def token_count_def slice_def
        sample_chunking_def)
  have spans: "chunk_spans sample_chunking ''A b. C d.'' ?bs (76/100) length 0
      = Inr [\<lparr>cs_start = 0, cs_end = 5\<rparr>, \<lparr>cs_start = 5, cs_end = 9\<rparr>]"
    using first second by (simp add: chunk_spans.simps)
  have merged: "merge_small sample_chunking ''A b. C d.'' sims length 0
      [\<lparr>cs_start = 0, cs_end = 5\<rparr>, \<lparr>cs_start = 5, cs_end = 9\<rparr>]
      = [\<lparr>cs_start = 0, cs_end = 5\<rparr>, \<lparr>cs_start = 5, cs_end = 9\<rparr>]" for sims
    by (simp add: merge_small.simps token_count_def slice_def sample_chunking_def)
  show ?thesis
    using spans merged
    by (simp add: chunk_paragraph_def sample_units sample_boundaries validate_similarity_threshold_def
        sample_chunking_def token_count_def slice_def)
qed

lemma length_monotone: "prefix_monotone length d"
  by (auto simp: prefix_monotone_def length_slice min_def intro: diff_le_mono)

theorem chunk_paragraph_outcomes_witness:
  "chunk_paragraph default_rules sample_chunking (PStr ''A b. C d.'') None opposite_encoder length
     = Inr [''A b. '', ''C d.''] \<and> list_all (\<lambda>c. c \<noteq> [] \<and> token_count c length \<le> 6) [''A b. '', ''C d.'']"
proof -
  have "validate_similarity_threshold (case None of None \<Rightarrow> cc_chunk_threshold sample_chunking | Some s \<Rightarrow> s)
      = Inr (76/100)"
    by (simp add: validate_similarity_threshold_def sample_chunking_def)
  from chunk_paragraph_outcomes [OF default_segmentation.segmentation_rules_axioms this sample_boundaries, of length]
    sample_chunks show ?thesis
    by (simp add: blank_iff chr_space_def ord_def sample_chunking_def)
qed


end
