(* ===== verification/File_Reader.thy ===== *)
theory File_Reader
  imports Py_Text
begin

text \<open>
  \<open>backend/processing/file_reader.py\<close>. The file system is a parameter; the state of an operation is the
  list of accesses made so far, so that the order of checks and reads is visible.
\<close>

datatype file_kind = Missing | Directory | Regular

record filesystem =
  fs_kind :: "string \<Rightarrow> file_kind"
  fs_text :: "string \<Rightarrow> string res"

datatype access = Probe string | Read string

text \<open>\<open>Path(p).name\<close> and \<open>Path(p).suffix\<close> on POSIX.\<close>

definition path_name :: "string \<Rightarrow> string" where
  "path_name p = (case filter (\<lambda>c. c \<noteq> [] \<and> c \<noteq> ''.'') (split_char (CHR ''/'') p) of [] \<Rightarrow> [] | cs \<Rightarrow> last cs)"

definition path_suffix :: "string \<Rightarrow> string" where
  "path_suffix p =
     (let name = path_name p;
          extension = rev (takeWhile (\<lambda>c. c \<noteq> CHR ''.'') (rev name));
          stem = length name - length extension
      in if extension = [] \<or> stem \<le> 1 then [] else CHR ''.'' # extension)"

definition validate_path :: "string list \<Rightarrow> pyval \<Rightarrow> string res" where
  "validate_path supported v =
     (case v of
        PStr p \<Rightarrow>
          if lower (path_suffix p) \<notin> set supported
          then Inl (ValueError (''Unsupported file extension ''
                 @ py_repr (if path_suffix p = [] then ''<none>'' else path_suffix p)
                 @ ''; expected one of: '' @ join '', '' (sort (dedup supported))))
          else Inr p
      | _ \<Rightarrow> Inl (TypeError ''each file path must be a string''))"

definition probe :: "filesystem \<Rightarrow> string \<Rightarrow> (access list, unit) op" where
  "probe fs p = (\<lambda>trace.
     (case fs_kind fs p of Missing \<Rightarrow> Inl (OSError (''FileNotFoundError: '' @ p))
        | Directory \<Rightarrow> Inl (OSError (''IsADirectoryError: '' @ p)) | Regular \<Rightarrow> Inr (),
      trace @ [Probe p]))"

primrec read_all :: "filesystem \<Rightarrow> string list \<Rightarrow> (access list, string list) op" where
  "read_all fs [] = oret []"
| "read_all fs (p # ps) =
     obind (\<lambda>trace. (fs_text fs p, trace @ [Read p])) (\<lambda>t. obind (read_all fs ps) (\<lambda>ts. oret (t # ts)))"

definition read_text_files :: "string list \<Rightarrow> string \<Rightarrow> filesystem \<Rightarrow> pyval \<Rightarrow> (access list, string) op" where
  "read_text_files supported separator fs v =
     (case v of
        PList file_paths \<Rightarrow>
          obind (olift (rmap (validate_path supported) file_paths)) (\<lambda>paths.
          obind (ofor paths (probe fs)) (\<lambda>_.
          obind (read_all fs paths) (\<lambda>contents. oret (join separator contents))))
      | _ \<Rightarrow> oraise (TypeError ''file_paths must be a list of strings''))"

lemma read_all_Inr:
  "read_all fs ps t = (Inr cs, t') \<Longrightarrow> list_all2 (\<lambda>p c. fs_text fs p = Inr c) ps cs \<and> t' = t @ map Read ps"
  by (induction ps arbitrary: t cs) (fastforce simp: obind_Inr_iff)+

lemma ofor_probe_Cons:
  "fs_kind fs p = Regular \<Longrightarrow> ofor (p # ps) (probe fs) t = ofor ps (probe fs) (t @ [Probe p])"
  "fs_kind fs p \<noteq> Regular \<Longrightarrow> \<exists>e. ofor (p # ps) (probe fs) t = (Inl e, t @ [Probe p])"
  by (simp_all add: obind_def probe_def split: file_kind.splits)

lemma ofor_probe_Inr:
  "ofor ps (probe fs) t = (Inr u, t') \<Longrightarrow> (\<forall>p \<in> set ps. fs_kind fs p = Regular) \<and> t' = t @ map Probe ps"
proof (induction ps arbitrary: t)
  case Nil
  then show ?case by simp
next
  case (Cons p ps)
  then have "fs_kind fs p = Regular"
    using ofor_probe_Cons(2) by (metis Inl_Inr_False prod.inject)
  with Cons.IH [of "t @ [Probe p]"] Cons.prems show ?case
    by (simp add: ofor_probe_Cons(1) del: ofor.simps)
qed

lemma ofor_probe_trace: "ofor ps (probe fs) t = (q, t') \<Longrightarrow> Read p \<in> set t' \<Longrightarrow> Read p \<in> set t"
proof (induction ps arbitrary: t)
  case Nil
  then show ?case by simp
next
  case (Cons p' ps)
  show ?case
  proof (cases "fs_kind fs p' = Regular")
    case True
    with Cons.IH [of "t @ [Probe p']"] Cons.prems show ?thesis
      by (simp add: ofor_probe_Cons(1) del: ofor.simps)
  next
    case False
    with ofor_probe_Cons(2) [OF False, of ps t] Cons.prems show ?thesis
      by auto
  qed
qed

lemma validate_path_Inr:
  "validate_path supported v = Inr p \<longleftrightarrow> v = PStr p \<and> lower (path_suffix p) \<in> set supported"
  by (auto simp: validate_path_def split: pyval.splits if_splits)

lemma validate_paths_Inr:
  "rmap (validate_path supported) vs = Inr ps \<longleftrightarrow>
     vs = map PStr ps \<and> (\<forall>p \<in> set ps. lower (path_suffix p) \<in> set supported)"
proof (induction vs arbitrary: ps)
  case Nil
  then show ?case by auto
next
  case (Cons v vs)
  show ?case
    by (cases ps) (auto simp: rbind_Inr_iff validate_path_Inr Cons.IH)
qed

text \<open>
  Reading files succeeds only for a list of paths that are all strings with a supported
  extension and all regular files; the result joins their contents in the order given, and every path was
  checked before the first file was read. When the extension check rejects a path, the file system has not
  been touched; when a path is missing or a directory, nothing has been read.
\<close>

theorem read_text_files_contract:
  assumes "read_text_files supported separator fs v [] = (result, trace)"
  shows "case result of
      Inr s \<Rightarrow> (\<exists>ps cs. v = PList (map PStr ps) \<and> s = join separator cs
                  \<and> list_all2 (\<lambda>p c. fs_text fs p = Inr c) ps cs
                  \<and> (\<forall>p \<in> set ps. lower (path_suffix p) \<in> set supported \<and> fs_kind fs p = Regular)
                  \<and> trace = map Probe ps @ map Read ps)
    | Inl e \<Rightarrow> (\<forall>vs. v = PList vs \<longrightarrow>
                  (\<exists>x \<in> set vs. \<forall>p. x = PStr p \<longrightarrow> lower (path_suffix p) \<notin> set supported) \<longrightarrow> trace = [])
             \<and> ((\<exists>p vs. v = PList vs \<and> PStr p \<in> set vs \<and> fs_kind fs p \<noteq> Regular) \<longrightarrow> (\<forall>p. Read p \<notin> set trace))"
proof (cases v)
  case (PList vs)
  note run = assms [unfolded read_text_files_def PList pyval.case]
  show ?thesis
  proof (cases "rmap (validate_path supported) vs")
    case (Inl e)
    then have "result = Inl e" "trace = []"
      using run by (simp_all add: obind_def)
    then show ?thesis by simp
  next
    case (Inr ps)
    then have vs: "vs = map PStr ps" and supported: "\<forall>p \<in> set ps. lower (path_suffix p) \<in> set supported"
      by (simp_all add: validate_paths_Inr)
    obtain q t where probes: "ofor ps (probe fs) [] = (q, t)"
      by fastforce
    show ?thesis
    proof (cases q)
      case (Inl e)
      then have "result = Inl e" "trace = t"
        using run Inr probes by (simp_all add: obind_def)
      then show ?thesis
        using ofor_probe_trace [OF probes] PList vs supported by auto
    next
      case (Inr u)
      from ofor_probe_Inr [OF probes [unfolded Inr]]
      have regular: "\<forall>p \<in> set ps. fs_kind fs p = Regular" and t: "t = map Probe ps"
        by simp_all
      have rest: "obind (read_all fs ps) (\<lambda>contents. oret (join separator contents)) t = (result, trace)"
        using run \<open>rmap (validate_path supported) vs = Inr ps\<close> probes Inr by (simp add: obind_def)
      show ?thesis
      proof (cases result)
        case (Inl e)
        then show ?thesis
          using PList vs supported regular by auto
      next
        case (Inr s)
        then obtain cs where "read_all fs ps t = (Inr cs, trace)" "s = join separator cs"
          using rest by (auto simp: obind_Inr_iff)
        then show ?thesis
          using read_all_Inr [of fs ps t cs trace] Inr PList vs supported regular t by auto
      qed
    qed
  qed
qed (use assms in \<open>auto simp: read_text_files_def\<close>)

definition sample_files :: filesystem where
  "sample_files = \<lparr>fs_kind = \<lambda>p. if p = ''a.txt'' \<or> p = ''b.md'' then Regular else Missing,
     fs_text = \<lambda>p. Inr (if p = ''a.txt'' then ''one'' else ''two'')\<rparr>"

theorem read_text_files_contract_witness:
  "read_text_files [''.txt'', ''.md''] ''/'' sample_files (PList [PStr ''b.md'', PStr ''a.txt'']) []
     = (Inr ''two/one'', [Probe ''b.md'', Probe ''a.txt'', Read ''b.md'', Read ''a.txt''])
   \<and> (\<exists>ps. PList [PStr ''b.md'', PStr ''a.txt''] = PList (map PStr ps) \<and>
        [Probe ''b.md'', Probe ''a.txt'', Read ''b.md'', Read ''a.txt''] = map Probe ps @ map Read ps)"
proof -
  have run: "read_text_files [''.txt'', ''.md''] ''/'' sample_files (PList [PStr ''b.md'', PStr ''a.txt'']) []
     = (Inr ''two/one'', [Probe ''b.md'', Probe ''a.txt'', Read ''b.md'', Read ''a.txt''])"
    by (simp add: read_text_files_def validate_path_def path_suffix_def path_name_def sample_files_def
        probe_def obind_def py_eval)
  obtain ps where "PList [PStr ''b.md'', PStr ''a.txt''] = PList (map PStr ps)"
    "[Probe ''b.md'', Probe ''a.txt'', Read ''b.md'', Read ''a.txt''] = map Probe ps @ map Read ps"
    using read_text_files_contract [OF run] unfolding sum.case by (elim exE conjE)
  with run show ?thesis
    by (intro conjI exI)
qed

end
