(* ===== verification/Sequence_Matcher.thy ===== *)
theory Sequence_Matcher
  imports Py_Text
begin

text \<open>
  \<open>difflib.SequenceMatcher(None, a, b, autojunk=False).get_opcodes()\<close> of the standard library, which
  \<open>backend/wizard/save.py\<close> aligns texts with: the longest matching block, the recursion to its left and
  right, the merging of adjacent blocks, and the opcodes. The final lemma gives the facts the alignment
  needs: the opcodes tile both texts, equal ones copy, and equal and unequal ones alternate.
\<close>

section \<open>Matching blocks\<close>

fun common_prefix :: "'a list \<Rightarrow> 'a list \<Rightarrow> nat" where
  "common_prefix (x # xs) (y # ys) = (if x = y then Suc (common_prefix xs ys) else 0)"
| "common_prefix _ _ = 0"

text \<open>The longest block; of several the first in \<open>a\<close>, then the first in \<open>b\<close>.\<close>

definition find_longest_match :: "'a list \<Rightarrow> 'a list \<Rightarrow> nat \<Rightarrow> nat \<Rightarrow> nat \<Rightarrow> nat \<Rightarrow> nat \<times> nat \<times> nat" where
  "find_longest_match a b alo ahi blo bhi =
     fold (\<lambda>(i, j) (bi, bj, k).
             let n = common_prefix (slice i ahi a) (slice j bhi b) in if k < n then (i, j, n) else (bi, bj, k))
       (List.product [alo..<ahi] [blo..<bhi]) (alo, blo, 0)"

definition block_in :: "'a list \<Rightarrow> 'a list \<Rightarrow> nat \<Rightarrow> nat \<Rightarrow> nat \<Rightarrow> nat \<Rightarrow> nat \<times> nat \<times> nat \<Rightarrow> bool" where
  "block_in a b alo ahi blo bhi p \<longleftrightarrow> (case p of (i, j, k) \<Rightarrow>
     0 < k \<longrightarrow> alo \<le> i \<and> i + k \<le> ahi \<and> blo \<le> j \<and> j + k \<le> bhi \<and> slice i (i + k) a = slice j (j + k) b)"

lemma common_prefix_take: "take (common_prefix xs ys) xs = take (common_prefix xs ys) ys"
  by (induction xs ys rule: common_prefix.induct) auto

lemma common_prefix_le: "common_prefix xs ys \<le> length xs" "common_prefix xs ys \<le> length ys"
  by (induction xs ys rule: common_prefix.induct) auto

lemma find_longest_match_block:
  assumes "ahi \<le> length a" "bhi \<le> length b"
  shows "block_in a b alo ahi blo bhi (find_longest_match a b alo ahi blo bhi)"
proof -
  let ?step = "\<lambda>(i, j) (bi, bj, k).
    let n = common_prefix (slice i ahi a) (slice j bhi b) in if k < n then (i, j, n) else (bi, bj, k)"
  have "block_in a b alo ahi blo bhi (fold ?step ps acc)"
    if "set ps \<subseteq> set (List.product [alo..<ahi] [blo..<bhi])" "block_in a b alo ahi blo bhi acc" for ps acc
    using that
  proof (induction ps arbitrary: acc)
    case Nil
    then show ?case by simp
  next
    case (Cons p ps)
    obtain i j bi bj k where p: "p = (i, j)" and acc: "acc = (bi, bj, k)"
      by (metis surj_pair)
    define n where "n = common_prefix (slice i ahi a) (slice j bhi b)"
    have ij: "alo \<le> i" "i < ahi" "blo \<le> j" "j < bhi"
      using Cons.prems(1) by (auto simp: p)
    have n: "n \<le> ahi - i" "n \<le> bhi - j"
      using common_prefix_le [of "slice i ahi a" "slice j bhi b"] assms by (auto simp: n_def length_slice min_def)
    have "slice i (i + n) a = take n (slice i ahi a)" "slice j (j + n) b = take n (slice j bhi b)"
      using n by (auto simp: slice_def min_def)
    then have "slice i (i + n) a = slice j (j + n) b"
      using common_prefix_take by (metis n_def)
    then have "block_in a b alo ahi blo bhi (i, j, n)"
      using ij n by (auto simp: block_in_def)
    then have "block_in a b alo ahi blo bhi (?step p acc)"
      using Cons.prems(2) by (simp add: p acc flip: n_def)
    then show ?case
      using Cons.IH Cons.prems(1) by simp
  qed
  then show ?thesis
    unfolding find_longest_match_def by (simp add: block_in_def)
qed

text \<open>
  The recursion of \<open>get_matching_blocks\<close>, in the order of the text: the code collects the blocks from a
  queue and sorts them, which puts them in this order.
\<close>

function matching_blocks :: "'a list \<Rightarrow> 'a list \<Rightarrow> nat \<Rightarrow> nat \<Rightarrow> nat \<Rightarrow> nat \<Rightarrow> (nat \<times> nat \<times> nat) list" where
  "matching_blocks a b alo ahi blo bhi =
     (if ahi \<le> length a \<and> bhi \<le> length b
      then (case find_longest_match a b alo ahi blo bhi of
              (i, j, k) \<Rightarrow>
                if k = 0 then []
                else (if alo < i \<and> blo < j then matching_blocks a b alo i blo j else [])
                     @ [(i, j, k)]
                     @ (if i + k < ahi \<and> j + k < bhi then matching_blocks a b (i + k) ahi (j + k) bhi else []))
      else [])"
  by pat_completeness auto
termination
proof (relation "measure (\<lambda>(a, b, alo, ahi, blo, bhi). ahi - alo)", goal_cases)
  case 1
  then show ?case by simp
next
  case (2 a b alo ahi blo bhi i q j k)
  with find_longest_match_block [of ahi a bhi b alo blo] show ?case
    by (auto simp: block_in_def)
next
  case (3 a b alo ahi blo bhi i q j k)
  with find_longest_match_block [of ahi a bhi b alo blo] show ?case
    by (auto simp: block_in_def)
qed

declare matching_blocks.simps [simp del]

text \<open>Adjacent blocks are merged; \<open>(i1, j1, k1)\<close> is the block being built.\<close>

fun collapse_blocks :: "nat \<times> nat \<times> nat \<Rightarrow> (nat \<times> nat \<times> nat) list \<Rightarrow> (nat \<times> nat \<times> nat) list" where
  "collapse_blocks (i1, j1, k1) [] = (if k1 = 0 then [] else [(i1, j1, k1)])"
| "collapse_blocks (i1, j1, k1) ((i2, j2, k2) # bs) =
     (if i1 + k1 = i2 \<and> j1 + k1 = j2 then collapse_blocks (i1, j1, k1 + k2) bs
      else (if k1 = 0 then [] else [(i1, j1, k1)]) @ collapse_blocks (i2, j2, k2) bs)"

datatype tag = Equal | Replace | Delete | Insert

type_synonym opcode = "tag \<times> nat \<times> nat \<times> nat \<times> nat"

definition gap_opcode :: "nat \<Rightarrow> nat \<Rightarrow> nat \<Rightarrow> nat \<Rightarrow> opcode list" where
  "gap_opcode i ai j bj =
     (if i < ai \<and> j < bj then [(Replace, i, ai, j, bj)]
      else if i < ai then [(Delete, i, ai, j, bj)]
      else if j < bj then [(Insert, i, ai, j, bj)]
      else [])"

fun opcodes_from :: "nat \<Rightarrow> nat \<Rightarrow> (nat \<times> nat \<times> nat) list \<Rightarrow> opcode list" where
  "opcodes_from i j [] = []"
| "opcodes_from i j ((ai, bj, n) # bs) =
     gap_opcode i ai j bj
     @ (if n = 0 then [] else [(Equal, ai, ai + n, bj, bj + n)])
     @ opcodes_from (ai + n) (bj + n) bs"

definition get_opcodes :: "'a list \<Rightarrow> 'a list \<Rightarrow> opcode list" where
  "get_opcodes a b =
     opcodes_from 0 0
       (collapse_blocks (0, 0, 0) (matching_blocks a b 0 (length a) 0 (length b)) @ [(length a, length b, 0)])"

section \<open>The opcodes describe the edit\<close>

text \<open>Blocks in order, each a common piece of both texts.\<close>

fun blocks_from :: "'a list \<Rightarrow> 'a list \<Rightarrow> nat \<Rightarrow> nat \<Rightarrow> nat \<Rightarrow> nat \<Rightarrow> (nat \<times> nat \<times> nat) list \<Rightarrow> bool" where
  "blocks_from a b i j ahi bhi [] = (i \<le> ahi \<and> j \<le> bhi)"
| "blocks_from a b i j ahi bhi ((x, y, k) # bs) =
     (i \<le> x \<and> j \<le> y \<and> 0 < k \<and> slice x (x + k) a = slice y (y + k) b \<and> blocks_from a b (x + k) (y + k) ahi bhi bs)"

lemma blocks_from_le: "blocks_from a b i j ahi bhi bs \<Longrightarrow> i \<le> ahi \<and> j \<le> bhi"
  by (induction a b i j ahi bhi bs rule: blocks_from.induct) auto

lemma blocks_from_weaken: "blocks_from a b i j ahi bhi bs \<Longrightarrow> i' \<le> i \<Longrightarrow> j' \<le> j \<Longrightarrow> blocks_from a b i' j' ahi bhi bs"
  by (cases bs) auto

lemma blocks_from_append:
  "blocks_from a b i j x y bs \<Longrightarrow> blocks_from a b x y ahi bhi cs \<Longrightarrow> blocks_from a b i j ahi bhi (bs @ cs)"
  by (induction a b i j x y bs rule: blocks_from.induct) (auto intro: blocks_from_weaken)

lemma matching_blocks_from:
  "alo \<le> ahi \<Longrightarrow> blo \<le> bhi \<Longrightarrow> blocks_from a b alo blo ahi bhi (matching_blocks a b alo ahi blo bhi)"
proof (induction a b alo ahi blo bhi rule: matching_blocks.induct)
  case (1 a b alo ahi blo bhi)
  show ?case
  proof (cases "ahi \<le> length a \<and> bhi \<le> length b")
    case False
    then show ?thesis
      using "1.prems" by (subst matching_blocks.simps) (simp only: if_False blocks_from.simps)
  next
    case True
    obtain i j k where m: "find_longest_match a b alo ahi blo bhi = (i, j, k)"
      by (metis surj_pair)
    show ?thesis
    proof (cases "k = 0")
      case zero: True
      then show ?thesis
        using "1.prems" True m by (subst matching_blocks.simps) simp
    next
      case pos: False
      have blk: "alo \<le> i" "i + k \<le> ahi" "blo \<le> j" "j + k \<le> bhi" "slice i (i + k) a = slice j (j + k) b"
        using find_longest_match_block [of ahi a bhi b alo blo] True m pos by (auto simp: block_in_def)
      have left: "blocks_from a b alo blo i j
          (if alo < i \<and> blo < j then matching_blocks a b alo i blo j else [])"
        using "1.IH"(1) [OF True m [symmetric] refl pos] blk by auto
      have right: "blocks_from a b (i + k) (j + k) ahi bhi
          (if i + k < ahi \<and> j + k < bhi then matching_blocks a b (i + k) ahi (j + k) bhi else [])"
        using "1.IH"(2) [OF True m [symmetric] refl pos] blk by auto
      have "blocks_from a b i j ahi bhi ([(i, j, k)]
          @ (if i + k < ahi \<and> j + k < bhi then matching_blocks a b (i + k) ahi (j + k) bhi else []))"
        using right pos blk by simp
      from blocks_from_append [OF left this] show ?thesis
        using True m pos by (subst matching_blocks.simps) simp
    qed
  qed
qed

text \<open>
  \<open>prev\<close> tells whether the previous opcode was an equal one. Each opcode starts where the previous one
  ended in both texts, and the list ends at the ends of both.
\<close>

fun opcodes_ok :: "'a list \<Rightarrow> 'a list \<Rightarrow> nat \<Rightarrow> nat \<Rightarrow> bool option \<Rightarrow> opcode list \<Rightarrow> bool" where
  "opcodes_ok a b i j prev [] = (i = length a \<and> j = length b)"
| "opcodes_ok a b i j prev ((t, i1, i2, j1, j2) # ops) =
     (i1 = i \<and> j1 = j \<and> i \<le> i2 \<and> j \<le> j2 \<and> i2 \<le> length a \<and> j2 \<le> length b \<and> prev \<noteq> Some (t = Equal)
      \<and> (if t = Equal then i < i2 \<and> slice i i2 a = slice j j2 b else i < i2 \<or> j < j2)
      \<and> opcodes_ok a b i2 j2 (Some (t = Equal)) ops)"

lemma gap_opcode_cases:
  assumes "i \<le> ai" "j \<le> bj"
  shows "(gap_opcode i ai j bj = [] \<and> i = ai \<and> j = bj)
    \<or> (\<exists>t. t \<noteq> Equal \<and> gap_opcode i ai j bj = [(t, i, ai, j, bj)] \<and> (i < ai \<or> j < bj))"
  using assms by (auto simp: gap_opcode_def)

lemma opcodes_ok_gap:
  assumes "i \<le> ai" "j \<le> bj" "ai \<le> length a" "bj \<le> length b" "prev \<noteq> Some False"
    and "prev = Some True \<longrightarrow> (ai, bj) \<noteq> (i, j) \<or> flag"
    and "\<And>prev'. prev' \<noteq> Some True \<or> flag \<Longrightarrow> (prev' = prev \<or> prev' = Some False) \<Longrightarrow> opcodes_ok a b ai bj prev' ops"
  shows "opcodes_ok a b i j prev (gap_opcode i ai j bj @ ops)"
  using gap_opcode_cases [OF assms(1,2)]
proof
  assume "gap_opcode i ai j bj = [] \<and> i = ai \<and> j = bj"
  then show ?thesis
    using assms(6) assms(7) [of prev] by auto
next
  assume "\<exists>t. t \<noteq> Equal \<and> gap_opcode i ai j bj = [(t, i, ai, j, bj)] \<and> (i < ai \<or> j < bj)"
  then show ?thesis
    using assms(1-5) assms(7) [of "Some False"] by auto
qed

lemma collapsed_opcodes_ok:
  assumes "blocks_from a b (i1 + k1) (j1 + k1) (length a) (length b) bs"
    and "slice i1 (i1 + k1) a = slice j1 (j1 + k1) b" "i \<le> i1" "j \<le> j1"
    and "if k1 = 0 then i = i1 \<and> j = j1 \<and> prev = None
         else prev = None \<or> prev = Some True \<and> (i1, j1) \<noteq> (i, j)"
  shows "opcodes_ok a b i j prev
    (opcodes_from i j (collapse_blocks (i1, j1, k1) bs @ [(length a, length b, 0)]))"
  using assms
proof (induction bs arbitrary: i j i1 j1 k1 prev)
  case Nil
  then have bounds: "i1 + k1 \<le> length a" "j1 + k1 \<le> length b" by simp_all
  have last: "opcodes_ok a b x y p (opcodes_from x y [(length a, length b, 0)])"
    if "x \<le> length a" "y \<le> length b" "p \<noteq> Some False" for x y p
    using that opcodes_ok_gap [of x "length a" y "length b" a b p True "[]"] by simp
  show ?case
  proof (cases "k1 = 0")
    case True
    with Nil last bounds show ?thesis by simp
  next
    case False
    have "opcodes_ok a b i j prev (gap_opcode i i1 j j1 @ (Equal, i1, i1 + k1, j1, j1 + k1)
        # opcodes_from (i1 + k1) (j1 + k1) [(length a, length b, 0)])"
      using Nil False bounds last [of "i1 + k1" "j1 + k1" "Some True"]
      by (intro opcodes_ok_gap [where flag = False]) auto
    with False show ?thesis by simp
  qed
next
  case (Cons blk bs)
  obtain i2 j2 k2 where blk: "blk = (i2, j2, k2)"
    by (metis surj_pair)
  have two: "i1 + k1 \<le> i2" "j1 + k1 \<le> j2" "0 < k2" "slice i2 (i2 + k2) a = slice j2 (j2 + k2) b"
    and rest: "blocks_from a b (i2 + k2) (j2 + k2) (length a) (length b) bs"
    using Cons.prems(1) by (simp_all add: blk)
  show ?case
  proof (cases "i1 + k1 = i2 \<and> j1 + k1 = j2")
    case True
    have "slice i1 (i1 + k1) a @ slice i2 (i2 + k2) a = slice i1 (i2 + k2) a"
      "slice j1 (j1 + k1) b @ slice j2 (j2 + k2) b = slice j1 (j2 + k2) b"
      using True by (auto intro: slice_append)
    then have "slice i1 (i1 + (k1 + k2)) a = slice j1 (j1 + (k1 + k2)) b"
      using Cons.prems(2) two(4) True by (metis add.assoc)
    moreover have "blocks_from a b (i1 + (k1 + k2)) (j1 + (k1 + k2)) (length a) (length b) bs"
      using rest True by (simp add: add.assoc [symmetric])
    moreover have "if k1 + k2 = 0 then i = i1 \<and> j = j1 \<and> prev = None
         else prev = None \<or> prev = Some True \<and> (i1, j1) \<noteq> (i, j)"
      using Cons.prems(5) two(3) by (auto split: if_splits)
    ultimately have "opcodes_ok a b i j prev
        (opcodes_from i j (collapse_blocks (i1, j1, k1 + k2) bs @ [(length a, length b, 0)]))"
      using Cons.IH [of i1 "k1 + k2" j1 i j prev] Cons.prems(3,4) by blast
    with True show ?thesis by (simp add: blk)
  next
    case False
    show ?thesis
    proof (cases "k1 = 0")
      case True
      with Cons.IH [OF rest two(4), of i j prev] Cons.prems two False show ?thesis
        by (auto simp: blk)
    next
      case pos: False
      have "opcodes_ok a b (i1 + k1) (j1 + k1) (Some True)
          (opcodes_from (i1 + k1) (j1 + k1) (collapse_blocks (i2, j2, k2) bs @ [(length a, length b, 0)]))"
        using Cons.IH [OF rest two(4), of "i1 + k1" "j1 + k1" "Some True"] two False by auto
      moreover have "i1 + k1 \<le> length a" "j1 + k1 \<le> length b"
        using blocks_from_le [OF Cons.prems(1)] by simp_all
      ultimately have "opcodes_ok a b i j prev (gap_opcode i i1 j j1 @ (Equal, i1, i1 + k1, j1, j1 + k1)
          # opcodes_from (i1 + k1) (j1 + k1) (collapse_blocks (i2, j2, k2) bs @ [(length a, length b, 0)]))"
        using Cons.prems pos by (intro opcodes_ok_gap [where flag = False]) auto
      with pos False show ?thesis by (auto simp: blk)
    qed
  qed
qed

lemma get_opcodes_ok: "opcodes_ok a b 0 0 None (get_opcodes a b)"
  unfolding get_opcodes_def
  using matching_blocks_from [of 0 "length a" 0 "length b" a b]
  by (intro collapsed_opcodes_ok) (auto simp: slice_def)

end
