(* ===== verification/Wizard_Align.thy ===== *)
theory Wizard_Align
  imports Sequence_Matcher Document_Map
begin

text \<open>
  The alignment of \<open>backend/wizard/save.py\<close> (steps 1 and 2 of a save): which saved paragraphs an edit
  touches, and which part of the new text replaces each run of touched paragraphs. A Python set of paragraph
  ids is a list whose order and repetitions do not matter.
\<close>

section \<open>Definitions\<close>

record saved_paragraph =
  sp_id :: int
  sp_text :: string
  sp_start :: nat
  sp_end :: nat

record paragraph_union =
  pu_ids :: "int list"
  pu_text :: string

fun saved_from :: "nat \<Rightarrow> paragraphs \<Rightarrow> saved_paragraph list" where
  "saved_from offset [] = []"
| "saved_from offset ((paragraph_id, t) # items) =
     \<lparr>sp_id = paragraph_id, sp_text = t, sp_start = offset, sp_end = offset + length t\<rparr>
     # saved_from (offset + length t) items"

definition saved_paragraphs :: "paragraphs \<Rightarrow> saved_paragraph list" where
  "saved_paragraphs data = saved_from 0 data"

fun modified_items :: "int list \<Rightarrow> pyval list \<Rightarrow> int list res" where
  "modified_items existing [] = Inr []"
| "modified_items existing (raw # raws) =
     rbind (positive_paragraph_id raw) (\<lambda>paragraph_id.
       if paragraph_id \<notin> set existing
       then Inl (ValueError (''modified paragraph_id '' @ show_int paragraph_id @ '' does not exist in the document''))
       else rbind (modified_items existing raws) (\<lambda>ids. Inr (paragraph_id # ids)))"

definition validated_modified_ids :: "pyval \<Rightarrow> int list \<Rightarrow> int list res" where
  "validated_modified_ids v existing =
     (case v of
        PNone \<Rightarrow> Inr []
      | PList raws \<Rightarrow> modified_items existing raws
      | _ \<Rightarrow> Inl (TypeError ''modified_paragraph_ids must be a list or None''))"

definition paragraphs_overlapping :: "saved_paragraph list \<Rightarrow> nat \<Rightarrow> nat \<Rightarrow> int list" where
  "paragraphs_overlapping ps start e = map sp_id (filter (\<lambda>p. sp_start p < e \<and> sp_end p > start) ps)"

definition paragraphs_at_insertion :: "saved_paragraph list \<Rightarrow> nat \<Rightarrow> int list res" where
  "paragraphs_at_insertion ps position =
     (if ps = [] then Inl (IndexError ''list index out of range'')
      else if position \<le> 0 then Inr [sp_id (hd ps)]
      else if position \<ge> sp_end (last ps) then Inr [sp_id (last ps)]
      else (let containing = map sp_id (filter (\<lambda>p. sp_start p < position \<and> position < sp_end p) ps);
                adjacent = map sp_id (filter (\<lambda>p. sp_start p = position \<or> sp_end p = position) ps)
            in if containing \<noteq> [] then Inr containing
               else if adjacent \<noteq> [] then Inr adjacent
               else Inr [sp_id (last ps)]))"

definition derived_modified_ids :: "saved_paragraph list \<Rightarrow> opcode list \<Rightarrow> int list res" where
  "derived_modified_ids ps ops =
     rbind (rmap (\<lambda>(t, old_start, old_end, _, _).
              if t = Equal then Inr []
              else if old_start = old_end then paragraphs_at_insertion ps old_start
              else Inr (paragraphs_overlapping ps old_start old_end)) ops)
       (\<lambda>idss. Inr (concat idss))"

text \<open>The groups: \<open>run\<close> is the last list of \<open>groups\<close> in the loop.\<close>

fun grow_groups :: "int list \<Rightarrow> int list \<Rightarrow> int list list" where
  "grow_groups run [] = [run]"
| "grow_groups run (x # xs) =
     (if x = last run + 1 then grow_groups (run @ [x]) xs else run # grow_groups [x] xs)"

definition contiguous_groups :: "int list \<Rightarrow> int list list" where
  "contiguous_groups ids = (case sort (dedup ids) of [] \<Rightarrow> [] | x # xs \<Rightarrow> grow_groups [x] xs)"

fun boundary_candidates :: "nat \<Rightarrow> opcode list \<Rightarrow> nat list" where
  "boundary_candidates position [] = []"
| "boundary_candidates position ((t, old_start, old_end, current_start, current_end) # ops) =
     (if \<not> (old_start \<le> position \<and> position \<le> old_end) then []
      else if t = Equal then [current_start + (position - old_start)]
      else if old_start = old_end then [current_start, current_end]
      else if position = old_start then [current_start]
      else if position = old_end then [current_end]
      else [current_start, current_end])
     @ boundary_candidates position ops"

definition current_span_for_old_span :: "nat \<Rightarrow> nat \<Rightarrow> opcode list \<Rightarrow> (nat \<times> nat) res" where
  "current_span_for_old_span old_start old_end ops =
     (let starts = boundary_candidates old_start ops; ends = boundary_candidates old_end ops
      in if starts = [] \<or> ends = []
         then Inl (ValueError ''current_text cannot be aligned to saved paragraph boundaries'')
         else if Max (set ends) < Min (set starts)
         then Inl (ValueError ''current_text paragraph alignment is inconsistent'')
         else Inr (Min (set starts), Max (set ends)))"

definition paragraph_by_id :: "saved_paragraph list \<Rightarrow> int \<Rightarrow> saved_paragraph res" where
  "paragraph_by_id ps i = dict_get PInt (rev (map (\<lambda>p. (sp_id p, p)) ps)) i"

definition union_of_group :: "saved_paragraph list \<Rightarrow> opcode list \<Rightarrow> string \<Rightarrow> int list \<Rightarrow> paragraph_union res" where
  "union_of_group ps ops current ids =
     rbind (paragraph_by_id ps (hd ids)) (\<lambda>first.
     rbind (paragraph_by_id ps (last ids)) (\<lambda>final.
     rbind (current_span_for_old_span (sp_start first) (sp_end final) ops) (\<lambda>(s, e).
       Inr \<lparr>pu_ids = ids, pu_text = slice s e current\<rparr>)))"

definition union_starting_at :: "paragraph_union list \<Rightarrow> int \<Rightarrow> paragraph_union option" where
  "union_starting_at unions i = map_of (rev (map (\<lambda>u. (hd (pu_ids u), u)) unions)) i"

definition reconstructed_piece :: "paragraph_union list \<Rightarrow> saved_paragraph \<Rightarrow> string" where
  "reconstructed_piece unions p =
     (case union_starting_at unions (sp_id p) of
        Some u \<Rightarrow> pu_text u
      | None \<Rightarrow> if sp_id p \<notin> set (concat (map pu_ids unions)) then sp_text p else [])"

definition align_unions :: "saved_paragraph list \<Rightarrow> string \<Rightarrow> int list \<Rightarrow> paragraph_union list res" where
  "align_unions ps current hinted =
     (let ops = get_opcodes (concat (map sp_text ps)) current
      in rbind (derived_modified_ids ps ops) (\<lambda>derived.
         let marked = derived @ hinted
         in if marked = [] then Inl (ValueError ''current_text changed but no modified paragraph was identified'')
            else rbind (rmap (union_of_group ps ops current) (contiguous_groups marked)) (\<lambda>unions.
              if concat (map (reconstructed_piece unions) ps) \<noteq> current
              then Inl (ValueError ''current_text cannot be reconstructed from modified unions and saved text'')
              else Inr unions)))"

section \<open>Groups\<close>

lemma grow_groups_props:
  assumes "sorted_wrt (<) (run @ xs)" "run \<noteq> []" "run = [hd run..last run]"
  shows "concat (grow_groups run xs) = run @ xs
    \<and> (\<forall>g \<in> set (grow_groups run xs). g \<noteq> [] \<and> [hd g..last g] = g \<and> last g + 1 \<notin> set (run @ xs)
         \<and> (hd g \<noteq> hd run \<longrightarrow> hd g - 1 \<notin> set (run @ xs)))"
  using assms
proof (induction xs arbitrary: run)
  case Nil
  have "last run + 1 \<notin> set run"
  proof
    assume "last run + 1 \<in> set run"
    then have "last run + 1 \<in> {hd run..last run}"
      using Nil.prems(3) by (metis set_upto)
    then show False by simp
  qed
  with Nil show ?case by simp
next
  case (Cons x xs)
  have sorted: "sorted_wrt (<) (x # xs)" and before: "\<And>r y. r \<in> set run \<Longrightarrow> y \<in> set (x # xs) \<Longrightarrow> r < y"
    using Cons.prems(1) by (auto simp: sorted_wrt_append)
  show ?case
  proof (cases "x = last run + 1")
    case True
    have "hd run \<le> last run"
      using Cons.prems(2,3) by (metis upto_Nil2 not_le)
    then have grown: "run @ [x] = [hd (run @ [x])..last (run @ [x])]"
      using Cons.prems(2,3) True upto_rec2 [of "hd run" x] by simp
    have same: "(run @ [x]) @ xs = run @ x # xs" "hd (run @ [x]) = hd run"
      using Cons.prems(2) by simp_all
    have "grow_groups run (x # xs) = grow_groups (run @ [x]) xs"
      using True by simp
    with Cons.IH [OF _ _ grown, unfolded same, OF Cons.prems(1)] show ?thesis
      by simp
  next
    case False
    have ih: "concat (grow_groups [x] xs) = x # xs"
      "\<And>g. g \<in> set (grow_groups [x] xs) \<Longrightarrow> g \<noteq> [] \<and> [hd g..last g] = g \<and> last g + 1 \<notin> set (x # xs)
         \<and> (hd g \<noteq> x \<longrightarrow> hd g - 1 \<notin> set (x # xs))"
      using Cons.IH [of "[x]"] sorted by auto
    have later: "g \<noteq> [] \<and> [hd g..last g] = g \<and> last g + 1 \<notin> set (run @ x # xs) \<and> hd g - 1 \<notin> set (run @ x # xs)"
      if g: "g \<in> set (grow_groups [x] xs)" for g
    proof -
      have ne: "g \<noteq> []" using ih(2) [OF g] by simp
      have sub: "set g \<subseteq> set (x # xs)"
        using ih(1) g by (metis UN_upper set_concat)
      then have in_rest: "hd g \<in> set (x # xs)" "last g \<in> set (x # xs)"
        using ne hd_in_set last_in_set by blast+
      have "last g + 1 \<notin> set run"
        using before [OF _ in_rest(2)] by force
      moreover have "hd g - 1 \<notin> set run"
      proof
        assume r: "hd g - 1 \<in> set run"
        have "last run < x" "last run \<in> set run"
          using before [of "last run" x] Cons.prems(2) by auto
        moreover have "hd g - 1 \<le> last run"
          using r Cons.prems(3) by (metis atLeastAtMost_iff set_upto)
        moreover have "x \<le> hd g"
          using in_rest(1) sorted by (auto simp: less_imp_le)
        ultimately show False
          using False by simp
      qed
      moreover have "hd g - 1 \<notin> set (x # xs)"
      proof (cases "hd g = x")
        case True
        then show ?thesis using sorted by auto
      next
        case False
        with ih(2) [OF g] show ?thesis by blast
      qed
      ultimately show ?thesis
        using ih(2) [OF g] by auto
    qed
    have "last run + 1 \<notin> set (run @ x # xs)"
    proof -
      have "last run + 1 \<notin> set run"
        using Cons.prems(3) by (metis add_le_same_cancel1 atLeastAtMost_iff not_one_le_zero set_upto)
      moreover have "last run + 1 \<notin> set xs"
        using before [of "last run" x] sorted False Cons.prems(2) by force
      ultimately show ?thesis using False by auto
    qed
    then show ?thesis
      using False Cons.prems(2,3) ih(1) later by auto
  qed
qed

lemma contiguous_groups_props:
  shows "set (concat (contiguous_groups ids)) = set ids"
    and "distinct (concat (contiguous_groups ids))"
    and "g \<in> set (contiguous_groups ids) \<Longrightarrow>
      g \<noteq> [] \<and> [hd g..last g] = g \<and> last g + 1 \<notin> set ids \<and> hd g - 1 \<notin> set ids"
proof -
  define l where "l = sort (dedup ids)"
  have l: "sorted_wrt (<) l" "set l = set ids"
    using distinct_dedup [of ids] by (auto simp: l_def strict_sorted_iff)
  have "concat (contiguous_groups ids) = l \<and> (\<forall>g \<in> set (contiguous_groups ids).
      g \<noteq> [] \<and> [hd g..last g] = g \<and> last g + 1 \<notin> set ids \<and> hd g - 1 \<notin> set ids)"
  proof (cases l)
    case Nil
    then show ?thesis by (simp add: contiguous_groups_def flip: l_def)
  next
    case (Cons x xs)
    then have first: "x - 1 \<notin> set l"
      using l(1) by auto
    have "concat (grow_groups [x] xs) = x # xs \<and> (\<forall>g \<in> set (grow_groups [x] xs).
      g \<noteq> [] \<and> [hd g..last g] = g \<and> last g + 1 \<notin> set (x # xs) \<and> (hd g \<noteq> x \<longrightarrow> hd g - 1 \<notin> set (x # xs)))"
      using grow_groups_props [of "[x]" xs] l(1) Cons by simp
    moreover have "contiguous_groups ids = grow_groups [x] xs"
      using Cons by (simp add: contiguous_groups_def flip: l_def)
    ultimately show ?thesis
      using first Cons l(2) by (metis (no_types, lifting))
  qed
  moreover have "distinct l"
    using l(1) by (simp add: strict_sorted_iff)
  ultimately show "set (concat (contiguous_groups ids)) = set ids" "distinct (concat (contiguous_groups ids))"
    "g \<in> set (contiguous_groups ids) \<Longrightarrow> g \<noteq> [] \<and> [hd g..last g] = g \<and> last g + 1 \<notin> set ids \<and> hd g - 1 \<notin> set ids"
    using l(2) by blast+
qed

section \<open>Positions of the new text\<close>

lemma equal_lengths:
  assumes "slice i i2 a = slice j j2 b" "i \<le> i2" "j \<le> j2" "i2 \<le> length a" "j2 \<le> length b"
  shows "j2 = j + (i2 - i)"
  using arg_cong [OF assms(1), of length] assms(2-5) by (simp add: length_slice min_def)

lemma candidates_bounds:
  "opcodes_ok a b i j prev ops \<Longrightarrow> c \<in> set (boundary_candidates p ops) \<Longrightarrow> j \<le> c \<and> c \<le> length b"
proof (induction a b i j prev ops rule: opcodes_ok.induct)
  case (2 a b i j prev t i1 i2 j1 j2 ops)
  show ?case
  proof (cases "c \<in> set (boundary_candidates p ops)")
    case True
    with 2 show ?thesis by (auto split: if_splits)
  next
    case False
    then show ?thesis
      using 2(2,3) equal_lengths [of i i2 a j j2 b] by (auto split: if_splits)
  qed
qed simp

lemma candidates_before: "opcodes_ok a b i j prev ops \<Longrightarrow> p < i \<Longrightarrow> boundary_candidates p ops = []"
  by (induction a b i j prev ops rule: opcodes_ok.induct) auto

lemma candidates_start: "opcodes_ok a b i j prev ops \<Longrightarrow> ops \<noteq> [] \<Longrightarrow> j \<in> set (boundary_candidates i ops)"
  by (cases ops) auto

lemma candidates_end:
  "opcodes_ok a b i j prev ops \<Longrightarrow> ops \<noteq> [] \<Longrightarrow> length b \<in> set (boundary_candidates (length a) ops)"
proof (induction a b i j prev ops rule: opcodes_ok.induct)
  case (2 a b i j prev t i1 i2 j1 j2 ops)
  show ?case
  proof (cases ops)
    case Nil
    with 2(2) equal_lengths [of i i2 a j j2 b] show ?thesis by (auto split: if_splits)
  next
    case (Cons op ops')
    with 2 show ?thesis by auto
  qed
qed simp

lemma candidates_nonempty:
  "opcodes_ok a b i j prev ops \<Longrightarrow> ops \<noteq> [] \<Longrightarrow> i \<le> p \<Longrightarrow> p \<le> length a \<Longrightarrow>
   \<exists>c. c \<in> set (boundary_candidates p ops)"
proof (induction a b i j prev ops rule: opcodes_ok.induct)
  case (2 a b i j prev t i1 i2 j1 j2 ops)
  show ?case
  proof (cases "p \<le> i2")
    case True
    with 2(2,4) have "boundary_candidates p [(t, i1, i2, j1, j2)] \<noteq> []"
      by auto
    then show ?thesis
      by (auto simp: neq_Nil_conv)
  next
    case False
    then have "ops \<noteq> []" "opcodes_ok a b i2 j2 (Some (t = Equal)) ops"
      using 2(2,5) by auto
    with 2(1,5) False show ?thesis
      by fastforce
  qed
qed simp

lemma candidates_monotone:
  "opcodes_ok a b i j prev ops \<Longrightarrow> ops \<noteq> [] \<Longrightarrow> i \<le> p \<Longrightarrow> p \<le> q \<Longrightarrow> q \<le> length a \<Longrightarrow>
   \<exists>c \<in> set (boundary_candidates p ops). \<exists>d \<in> set (boundary_candidates q ops). c \<le> d"
proof (induction a b i j prev ops rule: opcodes_ok.induct)
  case (2 a b i j prev t i1 i2 j1 j2 ops)
  have op: "i1 = i" "j1 = j" "i \<le> i2" "j \<le> j2" "i2 \<le> length a" "opcodes_ok a b i2 j2 (Some (t = Equal)) ops"
    "t = Equal \<Longrightarrow> j2 = j + (i2 - i)"
    using 2(2) equal_lengths [of i i2 a j j2 b] by auto
  show ?case
  proof (cases "p \<le> i2")
    case True
    have first: "\<exists>c \<in> set (boundary_candidates p ((t, i1, i2, j1, j2) # ops)). c \<le> j2
        \<and> (t = Equal \<longrightarrow> c = j + (p - i)) \<and> (p < i2 \<longrightarrow> t \<noteq> Equal \<longrightarrow> c = j) \<and> (i = i2 \<longrightarrow> c = j)"
      using op 2(4) True by auto
    show ?thesis
    proof (cases "q \<le> i2")
      case q: True
      then show ?thesis
        using first op 2(4,5) True by (auto split: if_splits)
    next
      case False
      then have "ops \<noteq> []"
        using op(6) 2(6) by auto
      then obtain d where d: "d \<in> set (boundary_candidates q ops)"
        using candidates_nonempty [OF op(6)] 2(6) False by (meson nat_le_linear)
      obtain c where "c \<in> set (boundary_candidates p ((t, i1, i2, j1, j2) # ops))" "c \<le> j2"
        using first by blast
      moreover have "j2 \<le> d"
        using candidates_bounds [OF op(6) d] by simp
      moreover have "d \<in> set (boundary_candidates q ((t, i1, i2, j1, j2) # ops))"
        using d by simp
      ultimately show ?thesis
        by (meson order_trans)
    qed
  next
    case False
    then have "ops \<noteq> []"
      using op(6) 2(5,6) by auto
    with 2(1) [OF op(6)] 2(5,6) False show ?thesis
      by fastforce
  qed
qed simp

text \<open>An opcode touches a paragraph when it changes some of it or inserts at one of its ends.\<close>

definition touches_span :: "opcode list \<Rightarrow> nat \<Rightarrow> nat \<Rightarrow> bool" where
  "touches_span ops s e \<longleftrightarrow> (\<exists>(t, i1, i2, j1, j2) \<in> set ops.
     t \<noteq> Equal \<and> (if i1 = i2 then s \<le> i1 \<and> i1 \<le> e else s < i2 \<and> i1 < e))"

lemma untouched_span:
  "opcodes_ok a b i j prev ops \<Longrightarrow> \<not> touches_span ops s e \<Longrightarrow> i \<le> s \<Longrightarrow> s < e \<Longrightarrow> e \<le> length a \<Longrightarrow>
   \<exists>x y. set (boundary_candidates s ops) = {x} \<and> set (boundary_candidates e ops) = {y}
      \<and> slice s e a = slice x y b"
proof (induction a b i j prev ops rule: opcodes_ok.induct)
  case (2 a b i j prev t i1 i2 j1 j2 ops)
  have op: "i1 = i" "j1 = j" "i \<le> i2" "j \<le> j2" "i2 \<le> length a" "j2 \<le> length b"
    "opcodes_ok a b i2 j2 (Some (t = Equal)) ops" "t = Equal \<Longrightarrow> slice i i2 a = slice j j2 b"
    "t = Equal \<Longrightarrow> j2 = j + (i2 - i)"
    using 2(2) equal_lengths [of i i2 a j j2 b] by auto
  have rest: "\<not> touches_span ops s e"
    using 2(3) by (auto simp: touches_span_def)
  have here: "t \<noteq> Equal \<Longrightarrow> \<not> (if i = i2 then s \<le> i \<and> i \<le> e else s < i2 \<and> i < e)"
    using 2(3) op(1) by (auto simp: touches_span_def)
  show ?case
  proof (cases "s < i2")
    case False
    then obtain x y where xy: "set (boundary_candidates s ops) = {x}" "set (boundary_candidates e ops) = {y}"
      "slice s e a = slice x y b"
      using 2(1) [OF op(7) rest] 2(5,6) by auto
    have "x = j2" if "s = i2"
    proof -
      have "ops \<noteq> []" using xy(1) by auto
      from candidates_start [OF op(7) this] show ?thesis
        using xy(1) that by simp
    qed
    moreover have "i < i2" if "s = i2"
      using here op(3) that 2(2,5) by (cases "t = Equal") (auto split: if_splits)
    ultimately have "set (boundary_candidates s [(t, i1, i2, j1, j2)]) \<subseteq> {x}"
      using op(1,2,9) False by (cases "s = i2") simp_all
    then have "set (boundary_candidates s ((t, i1, i2, j1, j2) # ops)) = {x}"
      using xy(1) by simp
    moreover have "set (boundary_candidates e ((t, i1, i2, j1, j2) # ops)) = {y}"
      using xy(2) False 2(5) op(1) by auto
    ultimately show ?thesis using xy(3) by blast
  next
    case True
    then have eq: "t = Equal"
      using here 2(4,5) by (auto split: if_splits)
    have e: "e \<le> i2"
    proof (rule ccontr)
      assume "\<not> e \<le> i2"
      then obtain t' k2 m2 ops' where "ops = (t', i2, k2, j2, m2) # ops'" "t' \<noteq> Equal" "i2 \<le> k2"
        using op(7) 2(6) eq \<open>\<not> e \<le> i2\<close> by (cases ops) auto
      with rest \<open>\<not> e \<le> i2\<close> True show False
        by (auto simp: touches_span_def split: if_splits)
    qed
    have "set (boundary_candidates s ((t, i1, i2, j1, j2) # ops)) = {j + (s - i)}"
      using candidates_before [OF op(7) True] eq op(1,2) True 2(4) by simp
    moreover have "c = j2" if c: "c \<in> set (boundary_candidates i2 ops)" "e = i2" for c
    proof -
      obtain t' k2 m2 ops' where ops: "ops = (t', i2, k2, j2, m2) # ops'" "t' \<noteq> Equal" "i2 \<le> k2"
          "opcodes_ok a b k2 m2 (Some False) ops'"
        using op(7) c(1) eq by (cases ops) auto
      with rest c(2) True have "i2 < k2"
        by (auto simp: touches_span_def split: if_splits)
      with c(1) ops candidates_before [OF ops(4)] show ?thesis by auto
    qed
    then have "set (boundary_candidates e ((t, i1, i2, j1, j2) # ops)) = {j + (e - i)}"
      using candidates_before [OF op(7), of e] eq op e 2(4,5) by (cases "e = i2") auto
    moreover have "slice s e a = slice (j + (s - i)) (j + (e - i)) b"
    proof -
      have "slice s e a = slice (s - i) (e - i) (slice i i2 a)"
        using 2(4) e True by (simp add: slice_def drop_take min_def)
      also have "\<dots> = slice (s - i) (e - i) (slice j j2 b)"
        using op(8) eq by simp
      also have "\<dots> = slice (j + (s - i)) (j + (e - i)) b"
        using 2(4,5) e op(9) eq by (simp add: slice_def drop_take min_def add.commute)
      finally show ?thesis .
    qed
    ultimately show ?thesis by blast
  qed
qed simp

lemma opcodes_all_equal:
  "opcodes_ok a b i j prev ops \<Longrightarrow> \<forall>op \<in> set ops. fst op = Equal \<Longrightarrow> drop i a = drop j b"
proof (induction a b i j prev ops rule: opcodes_ok.induct)
  case (2 a b i j prev t i1 i2 j1 j2 ops)
  then have "slice i i2 a = slice j j2 b" "drop i2 a = drop j2 b" "i \<le> i2" "j \<le> j2"
    by auto
  then show ?case
    by (metis slice_to_end)
qed simp

section \<open>Saved paragraphs\<close>

definition offset_of :: "string list \<Rightarrow> nat \<Rightarrow> nat" where
  "offset_of ts k = length (concat (take k ts))"

definition nth_saved :: "string list \<Rightarrow> nat \<Rightarrow> saved_paragraph" where
  "nth_saved ts k = \<lparr>sp_id = int k + 1, sp_text = ts ! k, sp_start = offset_of ts k, sp_end = offset_of ts (Suc k)\<rparr>"

lemma offset_Suc: "k < length ts \<Longrightarrow> offset_of ts (Suc k) = offset_of ts k + length (ts ! k)"
  by (simp add: offset_of_def take_Suc_conv_app_nth)

lemma offset_0 [simp]: "offset_of ts 0 = 0"
  by (simp add: offset_of_def)

lemma offset_all: "offset_of ts (length ts) = length (concat ts)"
  by (simp add: offset_of_def)

lemma offset_mono: "k \<le> m \<Longrightarrow> offset_of ts k \<le> offset_of ts m"
  unfolding offset_of_def
  by (metis append_take_drop_id concat_append le_add1 length_append min_absorb1 take_take)

lemma offset_le: "offset_of ts k \<le> length (concat ts)"
  using offset_mono [of k "max k (length ts)" ts] by (simp add: offset_of_def max_def split: if_splits)

lemma slice_offset: "k < length ts \<Longrightarrow> slice (offset_of ts k) (offset_of ts (Suc k)) (concat ts) = ts ! k"
proof -
  assume k: "k < length ts"
  have "concat ts = concat (take k ts) @ ts ! k @ concat (drop (Suc k) ts)"
    using k by (metis append_take_drop_id concat.simps(2) concat_append id_take_nth_drop)
  then have "drop (offset_of ts k) (concat ts) = ts ! k @ concat (drop (Suc k) ts)"
    by (simp add: offset_of_def)
  then show ?thesis
    using k by (simp add: slice_def offset_Suc)
qed

lemma saved_from_zip:
  "saved_from offset (zip [i..i + int (length ts) - 1] ts) =
     map (\<lambda>k. \<lparr>sp_id = int k + i, sp_text = ts ! k, sp_start = offset + offset_of ts k,
               sp_end = offset + offset_of ts (Suc k)\<rparr>) [0..<length ts]"
proof (induction ts arbitrary: offset i)
  case Nil
  then show ?case by simp
next
  case (Cons t ts)
  have "[i..i + int (length (t # ts)) - 1] = i # [i + 1..(i + 1) + int (length ts) - 1]"
    by (subst upto_rec1) auto
  moreover have "offset_of (t # ts) (Suc k) = length t + offset_of ts k" for k
    by (simp add: offset_of_def)
  moreover have "[0..<length (t # ts)] = 0 # map Suc [0..<length ts]"
    by (simp add: map_Suc_upt upt_conv_Cons del: upt_Suc)
  ultimately show ?case
    using Cons.IH [of "offset + length t" "i + 1"] by (simp add: o_def algebra_simps del: upt_Suc)
qed

lemma saved_numbered: "saved_paragraphs (numbered ts) = map (nth_saved ts) [0..<length ts]"
  using saved_from_zip [of 0 1 ts] by (simp add: saved_paragraphs_def numbered_def nth_saved_def [abs_def])

lemma concat_saved: "concat (map sp_text (map (nth_saved ts) [0..<length ts])) = concat ts"
  by (simp add: nth_saved_def o_def map_nth)

lemma paragraph_by_id_nth:
  assumes "k < length ts"
  shows "paragraph_by_id (map (nth_saved ts) [0..<length ts]) (int k + 1) = Inr (nth_saved ts k)"
proof -
  let ?d = "rev (map (\<lambda>p. (sp_id p, p)) (map (nth_saved ts) [0..<length ts]))"
  have "map fst ?d = rev (map (\<lambda>k. int k + 1) [0..<length ts])"
    by (simp add: rev_map o_def nth_saved_def)
  then have "distinct (map fst ?d)"
    by (simp add: distinct_map inj_on_def)
  moreover have "(int k + 1, nth_saved ts k) \<in> set ?d"
    using assms by (force simp: nth_saved_def)
  ultimately show ?thesis
    by (simp only: paragraph_by_id_def dict_get_iff) (rule map_of_is_SomeI)
qed

section \<open>Which paragraphs an edit marks\<close>

definition alignable :: "string list \<Rightarrow> bool" where
  "alignable ts \<longleftrightarrow> ts \<noteq> [] \<and> (length ts = 1 \<or> [] \<notin> set ts)"

lemma offset_less:
  assumes "alignable ts" "1 < length ts" "k < m" "m \<le> length ts"
  shows "offset_of ts k < offset_of ts m"
proof -
  have "ts ! k \<noteq> []"
    using assms(1,2) nth_mem [OF less_le_trans [OF assms(3,4)]] by (auto simp: alignable_def)
  then have "offset_of ts k < offset_of ts (Suc k)"
    using assms by (simp add: offset_Suc)
  also have "\<dots> \<le> offset_of ts m"
    using assms by (intro offset_mono) simp
  finally show ?thesis .
qed

lemma paragraph_containing:
  assumes "p < length (concat ts)"
  shows "\<exists>k < length ts. offset_of ts k \<le> p \<and> p < offset_of ts (Suc k)"
proof -
  define k where "k = (LEAST k. p < offset_of ts (Suc k))"
  have ex: "\<exists>k. p < offset_of ts (Suc k)"
    using assms offset_all [of ts] by (intro exI [of _ "length ts - 1"]) (cases ts; simp add: offset_of_def)
  have "p < offset_of ts (Suc k)"
    unfolding k_def using ex by (rule LeastI_ex)
  moreover have "offset_of ts k \<le> p"
  proof (cases k)
    case (Suc k')
    with not_less_Least [of k' "\<lambda>k. p < offset_of ts (Suc k)"] show ?thesis
      by (simp add: k_def)
  qed simp
  moreover have "k < length ts"
  proof (rule ccontr)
    assume "\<not> k < length ts"
    then have "offset_of ts k = length (concat ts)"
      by (simp add: offset_of_def)
    with calculation(2) assms show False by simp
  qed
  ultimately show ?thesis by blast
qed

lemma insertion_marks:
  assumes "alignable ts" "position \<le> length (concat ts)"
  shows "\<exists>ids. paragraphs_at_insertion (map (nth_saved ts) [0..<length ts]) position = Inr ids \<and> ids \<noteq> []
    \<and> set ids \<subseteq> {1..int (length ts)}
    \<and> (\<forall>k < length ts. (length ts = 1 \<or> offset_of ts k \<le> position \<and> position \<le> offset_of ts (Suc k)) \<longrightarrow> int k + 1 \<in> set ids)"
proof -
  let ?n = "length ts" and ?ps = "map (nth_saved ts) [0..<length ts]"
  have n: "0 < ?n"
    using assms(1) by (simp add: alignable_def)
  then have n1: "Suc 0 \<le> ?n" by (simp only: Suc_le_eq)
  have ends: "?ps \<noteq> []" "hd ?ps = nth_saved ts 0" "last ?ps = nth_saved ts (?n - 1)"
    using n by (simp_all add: hd_map last_map)
  have last_end: "sp_end (last ?ps) = length (concat ts)"
    using n offset_all [of ts] by (simp add: ends(3) nth_saved_def)
  have single: "k = 0" if "k < ?n" "?n = 1" for k
    using that by simp
  define containing where "containing = map sp_id (filter (\<lambda>p. sp_start p < position \<and> position < sp_end p) ?ps)"
  define adjacent where "adjacent = map sp_id (filter (\<lambda>p. sp_start p = position \<or> sp_end p = position) ?ps)"
  have containing: "i \<in> set containing \<longleftrightarrow>
      (\<exists>k < ?n. i = int k + 1 \<and> offset_of ts k < position \<and> position < offset_of ts (Suc k))" for i
    by (auto simp: containing_def nth_saved_def filter_map o_def)
  have adjacent: "i \<in> set adjacent \<longleftrightarrow>
      (\<exists>k < ?n. i = int k + 1 \<and> (offset_of ts k = position \<or> offset_of ts (Suc k) = position))" for i
    by (auto simp: adjacent_def nth_saved_def filter_map o_def)
  consider "position = 0" | "0 < position" "position = length (concat ts)"
    | "0 < position" "position < length (concat ts)"
    using assms(2) by linarith
  then show ?thesis
  proof cases
    case 1
    have "k = 0" if "k < ?n" "?n = 1 \<or> offset_of ts k \<le> 0" for k
      using that offset_less [OF assms(1), of 0 k] by (cases "?n = 1") (auto simp: single)
    then show ?thesis
      using 1 n n1 ends(1,2) by (auto simp: paragraphs_at_insertion_def nth_saved_def)
  next
    case 2
    have "int k + 1 = int ?n" if "k < ?n" "?n = 1 \<or> length (concat ts) \<le> offset_of ts (Suc k)" for k
      using that offset_less [OF assms(1), of "Suc k" ?n] offset_all [of ts] n
      by (cases "?n = 1"; cases "Suc k < ?n") auto
    then show ?thesis
      using 2 n n1 ends(1,3) last_end by (auto simp: paragraphs_at_insertion_def nth_saved_def)
  next
    case 3
    obtain m where m: "m < ?n" "offset_of ts m \<le> position" "position < offset_of ts (Suc m)"
      using paragraph_containing [OF 3(2)] by blast
    have res: "paragraphs_at_insertion ?ps position =
        (if containing \<noteq> [] then Inr containing else if adjacent \<noteq> [] then Inr adjacent else Inr [sp_id (last ?ps)])"
      using 3 ends(1) last_end by (simp add: paragraphs_at_insertion_def Let_def containing_def adjacent_def)
    show ?thesis
    proof (cases "containing = []")
      case False
      have "int k + 1 \<in> set containing"
        if k: "k < ?n" "?n = 1 \<or> offset_of ts k \<le> position \<and> position \<le> offset_of ts (Suc k)" for k
      proof -
        obtain l where l: "l < ?n" "offset_of ts l < position" "position < offset_of ts (Suc l)"
          using False containing [of "hd containing"] by auto
        have "\<not> k < l" if "?n \<noteq> 1"
          using that k(2) l(2) offset_mono [of "Suc k" l ts] by auto
        moreover have "\<not> l < k" if "?n \<noteq> 1"
          using that k(2) l(3) offset_mono [of "Suc l" k ts] by auto
        ultimately have "k = l"
          using k(1) l(1) by (cases "?n = 1") auto
        with l containing show ?thesis by blast
      qed
      moreover have "set containing \<subseteq> {1..int ?n}"
        using containing by auto
      ultimately show ?thesis
        using res False by auto
    next
      case True
      then have "int k + 1 \<in> set adjacent"
        if "k < ?n" "offset_of ts k \<le> position" "position \<le> offset_of ts (Suc k)" for k
        using that containing [of "int k + 1"] adjacent [of "int k + 1"] by fastforce
      moreover from this have "int m + 1 \<in> set adjacent"
        using m by simp
      moreover have "set adjacent \<subseteq> {1..int ?n}"
        using adjacent by auto
      moreover have "k = m" if "k < ?n" "?n = 1" for k
        using that m(1) by simp
      ultimately show ?thesis
        using res True by auto
    qed
  qed
qed

lemma overlap_marks:
  assumes "alignable ts" "s < e" "e \<le> length (concat ts)"
  shows "paragraphs_overlapping (map (nth_saved ts) [0..<length ts]) s e \<noteq> []
    \<and> set (paragraphs_overlapping (map (nth_saved ts) [0..<length ts]) s e) \<subseteq> {1..int (length ts)}
    \<and> (\<forall>k < length ts. offset_of ts k < e \<and> s < offset_of ts (Suc k) \<longrightarrow>
        int k + 1 \<in> set (paragraphs_overlapping (map (nth_saved ts) [0..<length ts]) s e))"
proof -
  obtain k where "k < length ts" "offset_of ts k \<le> s" "s < offset_of ts (Suc k)"
    using paragraph_containing [of s ts] assms by auto
  then show ?thesis
    using assms(2) by (force simp: paragraphs_overlapping_def filter_empty_conv nth_saved_def)
qed

lemma opcodes_ok_in:
  "opcodes_ok a b i j prev ops \<Longrightarrow> (t, i1, i2, j1, j2) \<in> set ops \<Longrightarrow> i1 \<le> i2 \<and> i2 \<le> length a"
  by (induction a b i j prev ops rule: opcodes_ok.induct) auto

definition opcode_marks :: "string list \<Rightarrow> opcode \<Rightarrow> int list" where
  "opcode_marks ts = (\<lambda>(t, old_start, old_end, _, _).
     if t = Equal then []
     else if old_start = old_end
     then (case paragraphs_at_insertion (map (nth_saved ts) [0..<length ts]) old_start of Inr ids \<Rightarrow> ids | Inl _ \<Rightarrow> [])
     else paragraphs_overlapping (map (nth_saved ts) [0..<length ts]) old_start old_end)"

lemma opcode_marks_props:
  assumes "alignable ts" "opcodes_ok (concat ts) cur 0 0 None ops" "(t, i1, i2, j1, j2) \<in> set ops"
  shows "set (opcode_marks ts (t, i1, i2, j1, j2)) \<subseteq> {1..int (length ts)}"
    and "t \<noteq> Equal \<Longrightarrow> opcode_marks ts (t, i1, i2, j1, j2) \<noteq> []"
    and "t \<noteq> Equal \<Longrightarrow> k < length ts \<Longrightarrow>
      (if i1 = i2 then offset_of ts k \<le> i1 \<and> i1 \<le> offset_of ts (Suc k)
       else offset_of ts k < i2 \<and> i1 < offset_of ts (Suc k)) \<Longrightarrow>
      int k + 1 \<in> set (opcode_marks ts (t, i1, i2, j1, j2))"
  using opcodes_ok_in [OF assms(2,3)] insertion_marks [OF assms(1), of i1] overlap_marks [OF assms(1), of i1 i2]
  by (auto simp: opcode_marks_def split: if_splits)

lemma derived_marks:
  assumes "alignable ts" "opcodes_ok (concat ts) cur 0 0 None ops"
  shows "derived_modified_ids (map (nth_saved ts) [0..<length ts]) ops = Inr (concat (map (opcode_marks ts) ops))"
proof -
  have "rmap (\<lambda>(t, old_start, old_end, _, _).
              if t = Equal then Inr []
              else if old_start = old_end then paragraphs_at_insertion (map (nth_saved ts) [0..<length ts]) old_start
              else Inr (paragraphs_overlapping (map (nth_saved ts) [0..<length ts]) old_start old_end)) ops
        = Inr (map (opcode_marks ts) ops)"
  proof (rule rmap_all_Inr, clarify)
    fix t i1 i2 j1 j2 assume "(t, i1, i2, j1, j2) \<in> set ops"
    from opcodes_ok_in [OF assms(2) this] insertion_marks [OF assms(1), of i1]
    show "(if t = Equal then Inr []
              else if i1 = i2 then paragraphs_at_insertion (map (nth_saved ts) [0..<length ts]) i1
              else Inr (paragraphs_overlapping (map (nth_saved ts) [0..<length ts]) i1 i2))
        = Inr (opcode_marks ts (t, i1, i2, j1, j2))"
      by (auto simp: opcode_marks_def)
  qed
  then show ?thesis
    by (simp add: derived_modified_ids_def)
qed

text \<open>The ids the alignment works with: those of the edit and the hints.\<close>

definition marked_ids :: "string list \<Rightarrow> string \<Rightarrow> int list \<Rightarrow> int list" where
  "marked_ids ts cur hinted = concat (map (opcode_marks ts) (get_opcodes (concat ts) cur)) @ hinted"

lemma marked_props:
  assumes "alignable ts" "set hinted \<subseteq> {1..int (length ts)}"
  shows "set (marked_ids ts cur hinted) \<subseteq> {1..int (length ts)}"
    and "concat ts \<noteq> cur \<Longrightarrow> marked_ids ts cur hinted \<noteq> []"
    and "k < length ts \<Longrightarrow> int k + 1 \<notin> set (marked_ids ts cur hinted) \<Longrightarrow>
      \<not> touches_span (get_opcodes (concat ts) cur) (offset_of ts k) (offset_of ts (Suc k))"
proof -
  let ?ops = "get_opcodes (concat ts) cur"
  note ok = get_opcodes_ok [of "concat ts" cur]
  note props = opcode_marks_props [OF assms(1) ok]
  show "set (marked_ids ts cur hinted) \<subseteq> {1..int (length ts)}"
    using props(1) assms(2) by (fastforce simp: marked_ids_def)
  show "marked_ids ts cur hinted \<noteq> []" if "concat ts \<noteq> cur"
  proof -
    have "\<exists>op \<in> set ?ops. fst op \<noteq> Equal"
      using opcodes_all_equal [OF ok] that by auto
    then obtain t i1 i2 j1 j2 where op: "(t, i1, i2, j1, j2) \<in> set ?ops" "t \<noteq> Equal"
      by auto
    from props(2) [OF op(1) op(2)] op(1) show ?thesis
      by (auto simp: marked_ids_def)
  qed
  show "\<not> touches_span ?ops (offset_of ts k) (offset_of ts (Suc k))"
    if "k < length ts" and unmarked: "int k + 1 \<notin> set (marked_ids ts cur hinted)"
  proof
    assume "touches_span ?ops (offset_of ts k) (offset_of ts (Suc k))"
    then obtain t i1 i2 j1 j2 where op: "(t, i1, i2, j1, j2) \<in> set ?ops" "t \<noteq> Equal"
      "if i1 = i2 then offset_of ts k \<le> i1 \<and> i1 \<le> offset_of ts (Suc k)
       else offset_of ts k < i2 \<and> i1 < offset_of ts (Suc k)"
      unfolding touches_span_def by blast
    from props(3) [OF op(1,2) that(1) op(3)] op(1) unmarked show False
      by (auto simp: marked_ids_def)
  qed
qed

section \<open>The alignment always succeeds\<close>

definition new_start :: "opcode list \<Rightarrow> nat \<Rightarrow> nat" where
  "new_start ops p = Min (set (boundary_candidates p ops))"

definition new_end :: "opcode list \<Rightarrow> nat \<Rightarrow> nat" where
  "new_end ops p = Max (set (boundary_candidates p ops))"

definition group_union :: "string list \<Rightarrow> opcode list \<Rightarrow> string \<Rightarrow> int list \<Rightarrow> paragraph_union" where
  "group_union ts ops cur g = \<lparr>pu_ids = g,
     pu_text = slice (new_start ops (offset_of ts (nat (hd g - 1)))) (new_end ops (offset_of ts (nat (last g)))) cur\<rparr>"

lemma span_of_positions:
  assumes "opcodes_ok a b 0 0 None ops" "ops \<noteq> []" "p \<le> q" "q \<le> length a"
  shows "current_span_for_old_span p q ops = Inr (new_start ops p, new_end ops q)"
    and "new_start ops p \<le> new_end ops q"
proof -
  obtain c d where cd: "c \<in> set (boundary_candidates p ops)" "d \<in> set (boundary_candidates q ops)" "c \<le> d"
    using candidates_monotone [OF assms(1,2) _ assms(3,4)] by auto
  then have "new_start ops p \<le> c" "d \<le> new_end ops q"
    by (simp_all add: new_start_def new_end_def)
  with cd(3) show le: "new_start ops p \<le> new_end ops q"
    by simp
  show "current_span_for_old_span p q ops = Inr (new_start ops p, new_end ops q)"
  proof -
    have "\<not> (boundary_candidates p ops = [] \<or> boundary_candidates q ops = [])" "\<not> new_end ops q < new_start ops p"
      using cd(1,2) le by auto
    then show ?thesis
      unfolding current_span_for_old_span_def Let_def new_start_def [symmetric] new_end_def [symmetric] by simp
  qed
qed

lemma union_of_group_eq:
  assumes "opcodes_ok (concat ts) cur 0 0 None ops" "ops \<noteq> []" "set g \<subseteq> {1..int (length ts)}" "g \<noteq> []" "hd g \<le> last g"
  shows "union_of_group (map (nth_saved ts) [0..<length ts]) ops cur g = Inr (group_union ts ops cur g)"
proof -
  have "hd g \<in> {1..int (length ts)}" "last g \<in> {1..int (length ts)}"
    using assms(3) hd_in_set [OF assms(4)] last_in_set [OF assms(4)] by blast+
  then have "hd g = int (nat (hd g - 1)) + 1 \<and> nat (hd g - 1) < length ts"
    "last g = int (nat (last g - 1)) + 1 \<and> nat (last g - 1) < length ts"
    by auto
  then obtain k m where k: "hd g = int k + 1" "k < length ts" and m: "last g = int m + 1" "m < length ts"
    by blast
  have km: "k \<le> m"
    using assms(5) k m by simp
  have "current_span_for_old_span (offset_of ts k) (offset_of ts (Suc m)) ops
      = Inr (new_start ops (offset_of ts k), new_end ops (offset_of ts (Suc m)))"
    using km by (intro span_of_positions [OF assms(1,2)] offset_mono offset_le) simp
  then show ?thesis
    using paragraph_by_id_nth [OF k(2)] paragraph_by_id_nth [OF m(2)] k m
    by (simp add: union_of_group_def group_union_def nth_saved_def nat_add_distrib)
qed

lemma union_starting_at_groups:
  assumes "distinct (concat gs)" "\<And>g. g \<in> set gs \<Longrightarrow> g \<noteq> []"
  shows "g \<in> set gs \<Longrightarrow> union_starting_at (map (group_union ts ops cur) gs) (hd g) = Some (group_union ts ops cur g)"
    and "(\<And>g. g \<in> set gs \<Longrightarrow> hd g \<noteq> i) \<Longrightarrow> union_starting_at (map (group_union ts ops cur) gs) i = None"
proof -
  let ?d = "map (\<lambda>u. (hd (pu_ids u), u)) (map (group_union ts ops cur) gs)"
  have "distinct (map hd gs)"
    using assms
  proof (induction gs)
    case (Cons h hs)
    have "hd h \<noteq> hd g" if "g \<in> set hs" for g
    proof -
      have "hd h \<in> set h" "hd g \<in> set g"
        using Cons.prems(2) that by simp_all
      with Cons.prems(1) that show ?thesis by auto
    qed
    with Cons show ?case by auto
  qed simp
  moreover have keys: "map fst ?d = map hd gs"
    by (simp add: group_union_def)
  ultimately have "distinct (map fst (rev ?d))"
    by (metis distinct_rev rev_map)
  then show "union_starting_at (map (group_union ts ops cur) gs) (hd g) = Some (group_union ts ops cur g)"
    if "g \<in> set gs"
    unfolding union_starting_at_def by (rule map_of_is_SomeI) (use that in \<open>force simp: group_union_def\<close>)
  show "union_starting_at (map (group_union ts ops cur) gs) i = None" if "\<And>g. g \<in> set gs \<Longrightarrow> hd g \<noteq> i"
    unfolding union_starting_at_def map_of_eq_None_iff using that by (auto simp: group_union_def) metis
qed


text \<open>A paragraph that is not marked is copied from one place of the new text.\<close>

lemma unmarked_paragraph:
  assumes "alignable ts" "set hinted \<subseteq> {1..int (length ts)}" "concat ts \<noteq> cur" "k < length ts"
    and "int k + 1 \<notin> set (marked_ids ts cur hinted)"
  defines "ops \<equiv> get_opcodes (concat ts) cur"
  shows "new_end ops (offset_of ts k) = new_start ops (offset_of ts k)"
    and "new_end ops (offset_of ts (Suc k)) = new_start ops (offset_of ts (Suc k))"
    and "ts ! k = slice (new_start ops (offset_of ts k)) (new_end ops (offset_of ts (Suc k))) cur"
proof -
  have "length ts \<noteq> 1"
  proof
    assume one: "length ts = 1"
    have "marked_ids ts cur hinted \<noteq> []" "set (marked_ids ts cur hinted) \<subseteq> {1..1}"
      using marked_props(1,2) [OF assms(1,2), where cur = cur] assms(3) one by auto
    then have "1 \<in> set (marked_ids ts cur hinted)"
      by (cases "marked_ids ts cur hinted") auto
    then show False
      using assms(4,5) one by simp
  qed
  then have "offset_of ts k < offset_of ts (Suc k)"
    using assms(1,4) by (intro offset_less) (auto simp: alignable_def)
  moreover have "\<not> touches_span ops (offset_of ts k) (offset_of ts (Suc k))"
    using marked_props(3) [OF assms(1,2,4,5)] by (simp add: ops_def)
  ultimately obtain x y where "set (boundary_candidates (offset_of ts k) ops) = {x}"
    "set (boundary_candidates (offset_of ts (Suc k)) ops) = {y}"
    "slice (offset_of ts k) (offset_of ts (Suc k)) (concat ts) = slice x y cur"
    using untouched_span [OF get_opcodes_ok [of "concat ts" cur], folded ops_def] offset_le [of ts "Suc k"] by blast
  then show "new_end ops (offset_of ts k) = new_start ops (offset_of ts k)"
    "new_end ops (offset_of ts (Suc k)) = new_start ops (offset_of ts (Suc k))"
    "ts ! k = slice (new_start ops (offset_of ts k)) (new_end ops (offset_of ts (Suc k))) cur"
    using slice_offset [OF assms(4)] by (simp_all add: new_start_def new_end_def)
qed

lemma new_positions:
  assumes "concat ts \<noteq> cur"
  defines "ops \<equiv> get_opcodes (concat ts) cur"
  shows "ops \<noteq> []" "new_start ops 0 = 0" "new_end ops (length (concat ts)) = length cur"
proof -
  have ok: "opcodes_ok (concat ts) cur 0 0 None ops"
    unfolding ops_def by (rule get_opcodes_ok)
  show ne: "ops \<noteq> []"
    using ok assms(1) by (cases ops) auto
  show "new_start ops 0 = 0"
    unfolding new_start_def using candidates_start [OF ok ne] by (intro Min_eqI) auto
  show "new_end ops (length (concat ts)) = length cur"
    unfolding new_end_def using candidates_end [OF ok ne] candidates_bounds [OF ok] by (intro Max_eqI) auto
qed

lemma reconstruction:
  assumes "alignable ts" "set hinted \<subseteq> {1..int (length ts)}" "concat ts \<noteq> cur"
  defines "ops \<equiv> get_opcodes (concat ts) cur" and "marked \<equiv> marked_ids ts cur hinted"
  defines "unions \<equiv> map (group_union ts ops cur) (contiguous_groups marked)"
  shows "concat (map (reconstructed_piece unions) (map (nth_saved ts) [0..<length ts])) = cur"
proof -
  let ?n = "length ts" and ?piece = "\<lambda>k. reconstructed_piece unions (nth_saved ts k)"
  note groups = contiguous_groups_props [where ids = marked]
  have ne: "g \<noteq> []" if "g \<in> set (contiguous_groups marked)" for g
    using groups(3) [OF that] by simp
  have starting: "g \<in> set (contiguous_groups marked) \<Longrightarrow> union_starting_at unions (hd g) = Some (group_union ts ops cur g)"
    "(\<And>g. g \<in> set (contiguous_groups marked) \<Longrightarrow> hd g \<noteq> i) \<Longrightarrow> union_starting_at unions i = None" for g i
    unfolding unions_def using ne
    by (blast intro: union_starting_at_groups [OF groups(2)])+
  note pos = new_positions [OF assms(3), folded ops_def]
  have marked: "set marked \<subseteq> {1..int ?n}"
    unfolding marked_def by (rule marked_props(1) [OF assms(1,2)])
  have unmarked: "new_end ops (offset_of ts k) = new_start ops (offset_of ts k)"
    "new_end ops (offset_of ts (Suc k)) = new_start ops (offset_of ts (Suc k))"
    "ts ! k = slice (new_start ops (offset_of ts k)) (new_end ops (offset_of ts (Suc k))) cur"
    if "k < ?n" "int k + 1 \<notin> set marked" for k
    using unmarked_paragraph [OF assms(1-3) that(1)] that(2) by (auto simp: ops_def marked_def)
  have ids: "concat (map pu_ids unions) = concat (contiguous_groups marked)"
    by (simp add: unions_def o_def group_union_def)
  define c where "c k = (if k < ?n then new_start ops (offset_of ts k) else length cur)" for k
  have c_end: "new_end ops (offset_of ts m) = c m" if "m \<le> ?n" "m = ?n \<or> int m + 1 \<notin> set marked" for m
    using that unmarked(1) [of m] pos(3) by (cases "m < ?n") (auto simp: c_def offset_all)
  have sub: "new_start ops (offset_of ts k) \<le> new_end ops (offset_of ts m)" if "k \<le> m" "m \<le> ?n" for k m
    using span_of_positions(2) [OF get_opcodes_ok pos(1) [unfolded ops_def]] offset_mono [OF that(1)] offset_le [of ts m]
    by (simp add: ops_def)
  have "concat (map ?piece [k..<?n]) = drop (c k) cur"
    if "k \<le> ?n" "k = ?n \<or> k = 0 \<or> int k \<notin> set marked \<or> int k + 1 \<notin> set marked" for k
    using that
  proof (induction "?n - k" arbitrary: k rule: less_induct)
    case less
    show ?case
    proof (cases "k < ?n")
      case False
      with less.prems(1) show ?thesis by (simp add: c_def)
    next
      case k: True
      then have split: "concat (map ?piece [k..<?n]) = ?piece k @ concat (map ?piece [Suc k..<?n])"
        by (simp add: upt_conv_Cons)
      show ?thesis
      proof (cases "int k + 1 \<in> set marked")
        case False
        have "hd g \<noteq> int k + 1" if "g \<in> set (contiguous_groups marked)" for g
          using groups(1) groups(3) [OF that] that False hd_in_set [of g] by (metis UN_I set_concat)
        then have "?piece k = ts ! k"
          using starting(2) [of "int k + 1"] groups(1) False ids
          by (simp add: reconstructed_piece_def nth_saved_def)
        moreover have "concat (map ?piece [Suc k..<?n]) = drop (c (Suc k)) cur"
          using less.hyps [of "Suc k"] k False by (simp add: add.commute diff_less_mono2)
        moreover have "new_end ops (offset_of ts (Suc k)) = c (Suc k)"
        proof (cases "Suc k < ?n")
          case True
          with unmarked(2) [OF k False] show ?thesis by (simp add: c_def)
        next
          case False
          with k have "Suc k = ?n" by simp
          with pos(3) show ?thesis by (simp add: c_def offset_all)
        qed
        ultimately show ?thesis
          using split unmarked(3) [OF k False] sub [of k "Suc k"] k by (simp add: c_def slice_to_end)
      next
        case True
        then obtain g where g: "g \<in> set (contiguous_groups marked)" "int k + 1 \<in> set g"
          using groups(1) by (metis UN_E set_concat)
        note gp = groups(3) [OF g(1)]
        have gm: "set g \<subseteq> set marked"
          using g(1) groups(1) by (metis UN_upper set_concat)
        have set_g: "set g = {hd g..last g}"
          using gp by (metis set_upto)
        have hd: "hd g = int k + 1"
        proof (rule ccontr)
          assume "hd g \<noteq> int k + 1"
          then have "int k \<in> set g"
            using g(2) unfolding set_g by auto
          then have "int k \<in> set marked"
            using gm by blast
          with less.prems(2) True k marked show False by auto
        qed
        define m where "m = nat (last g)"
        have last_g: "last g = int m" "k < m" "m \<le> ?n"
        proof -
          have "last g \<in> {1..int ?n}"
            using gp gm marked last_in_set [of g] by blast
          moreover have "int k + 1 \<le> last g"
            using g(2) unfolding set_g by simp
          ultimately show "last g = int m" "k < m" "m \<le> ?n"
            by (auto simp: m_def)
        qed
        have piece_k: "?piece k = slice (new_start ops (offset_of ts k)) (new_end ops (offset_of ts m)) cur"
          using starting(1) [OF g(1)] hd by (simp add: reconstructed_piece_def nth_saved_def group_union_def m_def)
        have "?piece l = []" if "l \<in> set [Suc k..<m]" for l
        proof -
          have l: "int l + 1 \<in> set g"
            using that last_g hd unfolding set_g by auto
          have "hd h \<noteq> int l + 1" if h: "h \<in> set (contiguous_groups marked)" for h
          proof
            assume eq: "hd h = int l + 1"
            then have "int l + 1 \<in> set h"
              using groups(3) [OF h] hd_in_set by metis
            with groups(3) [OF h] eq have "int l \<notin> set marked" by simp
            moreover have "int l \<in> set g"
              using that \<open>l \<in> set [Suc k..<m]\<close> last_g hd unfolding set_g by auto
            ultimately show False using gm by blast
          qed
          then have "union_starting_at unions (int l + 1) = None"
            using starting(2) by blast
          with l gm groups(1) ids show ?thesis
            by (auto simp: reconstructed_piece_def nth_saved_def)
        qed
        then have "concat (map ?piece [Suc k..<m]) = []"
          by simp
        moreover have "[Suc k..<?n] = [Suc k..<m] @ [m..<?n]"
          using last_g by (metis Suc_leI le_add_diff_inverse upt_add_eq_append)
        moreover have after: "m = ?n \<or> int m + 1 \<notin> set marked"
          using gp last_g by auto
        then have "concat (map ?piece [m..<?n]) = drop (c m) cur"
          using less.hyps [of m] last_g k by auto
        ultimately have "concat (map ?piece [k..<?n]) = slice (c k) (c m) cur @ drop (c m) cur"
          using split piece_k c_end [OF last_g(3) after] k by (simp add: c_def)
        moreover have "c k \<le> c m"
          using sub [of k m] last_g c_end [OF last_g(3) after] k by (simp add: c_def)
        ultimately show ?thesis
          by (simp add: slice_to_end)
      qed
    qed
  qed
  from this [of 0] show ?thesis
    using pos(2) assms(1) by (simp add: c_def o_def alignable_def)
qed


lemma align_unions_eq:
  assumes "alignable ts" "set hinted \<subseteq> {1..int (length ts)}" "concat ts \<noteq> cur"
  defines "ops \<equiv> get_opcodes (concat ts) cur" and "groups \<equiv> contiguous_groups (marked_ids ts cur hinted)"
  shows "align_unions (saved_paragraphs (numbered ts)) cur hinted = Inr (map (group_union ts ops cur) groups)"
proof -
  have ok: "opcodes_ok (concat ts) cur 0 0 None ops"
    unfolding ops_def by (rule get_opcodes_ok)
  have ne: "ops \<noteq> []"
    unfolding ops_def by (rule new_positions(1) [OF assms(3)])
  note marked = marked_props(1,2) [OF assms(1,2), where cur = cur]
  note groups = contiguous_groups_props [where ids = "marked_ids ts cur hinted", folded groups_def]
  have "union_of_group (map (nth_saved ts) [0..<length ts]) ops cur g = Inr (group_union ts ops cur g)"
    if g: "g \<in> set groups" for g
  proof (rule union_of_group_eq [OF ok ne])
    show "set g \<subseteq> {1..int (length ts)}"
      using g groups(1) marked(1) by (metis UN_upper order_trans set_concat)
    show "g \<noteq> []" "hd g \<le> last g"
      using groups(3) [OF g] by (auto simp: upto_Nil2 intro: ccontr)
  qed
  then have "rmap (union_of_group (map (nth_saved ts) [0..<length ts]) ops cur) groups
      = Inr (map (group_union ts ops cur) groups)"
    by (rule rmap_all_Inr)
  moreover have "concat (map (opcode_marks ts) ops) @ hinted = marked_ids ts cur hinted"
    by (simp add: marked_ids_def ops_def)
  moreover note reconstruction [OF assms(1-3), folded ops_def groups_def]
  ultimately show ?thesis
    unfolding align_unions_def saved_numbered concat_saved Let_def ops_def [symmetric]
      derived_marks [OF assms(1) ok] rbind_simps(2)
    using marked(2) [OF assms(3)] by (simp only: groups_def [symmetric] rbind_simps if_False not_True_eq_False refl)
qed

lemma aligned_unions_props:
  assumes "alignable ts" "set hinted \<subseteq> {1..int (length ts)}" "concat ts \<noteq> cur"
    and "align_unions (saved_paragraphs (numbered ts)) cur hinted = Inr unions"
  shows "unions \<noteq> []" "concat (map (reconstructed_piece unions) (saved_paragraphs (numbered ts))) = cur"
    and "distinct (concat (map pu_ids unions))" "set (concat (map pu_ids unions)) \<subseteq> {1..int (length ts)}"
    and "set hinted \<subseteq> set (concat (map pu_ids unions))"
    and "u \<in> set unions \<Longrightarrow> pu_ids u \<noteq> [] \<and> [hd (pu_ids u)..last (pu_ids u)] = pu_ids u"
proof -
  let ?marked = "marked_ids ts cur hinted"
  have unions: "unions = map (group_union ts (get_opcodes (concat ts) cur) cur) (contiguous_groups ?marked)"
    using align_unions_eq [OF assms(1-3)] assms(4) by simp
  note marked = marked_props(1,2) [OF assms(1,2), where cur = cur]
  note groups = contiguous_groups_props [where ids = ?marked]
  have ids: "map pu_ids unions = contiguous_groups ?marked"
    by (simp add: unions o_def group_union_def)
  show "concat (map (reconstructed_piece unions) (saved_paragraphs (numbered ts))) = cur"
    using reconstruction [OF assms(1-3)] by (simp add: unions saved_numbered)
  show "distinct (concat (map pu_ids unions))" "set (concat (map pu_ids unions)) \<subseteq> {1..int (length ts)}"
    using groups(1,2) marked(1) by (simp_all only: ids)
  show "set hinted \<subseteq> set (concat (map pu_ids unions))"
    using groups(1) by (auto simp: ids marked_ids_def simp del: set_concat)
  show "unions \<noteq> []"
    using groups(1) marked(2) [OF assms(3)] ids by auto
  show "pu_ids u \<noteq> [] \<and> [hd (pu_ids u)..last (pu_ids u)] = pu_ids u" if "u \<in> set unions"
    using groups(3) [of "pu_ids u"] that ids by (metis (no_types, lifting) image_eqI set_map)
qed

text \<open>
  C11 (equivalence). The alignment of an edit never fails: for a document whose paragraphs are not empty (or
  that has only one), any different text and any hinted paragraphs, the unions are runs of consecutive paragraphs,
  disjoint, among them every hinted one, and replacing each run by the text of its union while copying all other
  paragraphs rebuilds exactly the new text. The three errors of the alignment are unreachable.
\<close>

theorem align_unions_total:
  assumes "ts \<noteq> []" "length ts = 1 \<or> [] \<notin> set ts" "set hinted \<subseteq> {1..int (length ts)}" "concat ts \<noteq> current"
  shows "\<exists>unions. align_unions (saved_paragraphs (numbered ts)) current hinted = Inr unions \<and> unions \<noteq> []
    \<and> concat (map (reconstructed_piece unions) (saved_paragraphs (numbered ts))) = current
    \<and> distinct (concat (map pu_ids unions)) \<and> set hinted \<subseteq> set (concat (map pu_ids unions))
    \<and> (\<forall>u \<in> set unions. pu_ids u \<noteq> [] \<and> pu_ids u = [hd (pu_ids u)..last (pu_ids u)])"
proof -
  have "alignable ts"
    using assms(1,2) by (simp add: alignable_def)
  note eq = align_unions_eq [OF this assms(3,4)]
  note props = aligned_unions_props [OF \<open>alignable ts\<close> assms(3,4) eq]
  show ?thesis
    using eq props(1,2,3,5) props(6) by (intro exI conjI ballI) (assumption | metis)+
qed

theorem align_unions_total_witness:
  "\<exists>unions. align_unions (saved_paragraphs (numbered [''One. '', ''Two. ''])) ''One. Three. '' [1] = Inr unions
    \<and> concat (map (reconstructed_piece unions) (saved_paragraphs (numbered [''One. '', ''Two. '']))) = ''One. Three. ''"
  using align_unions_total [of "[''One. '', ''Two. '']" "[1]" "''One. Three. ''"] by auto

end
