(* ===== verification/Wizard_Runtime.thy ===== *)
theory Wizard_Runtime
  imports Wizard_Align Paragraph_Map Py_Float
begin

text \<open>
  \<open>backend/wizard/runtime.py\<close>: the dependencies of the wizard and its process-local maps, one
  \<open>DocumentMap\<close> and one \<open>ParagraphMap\<close> per user and collection. Everything outside the process, that is the
  chunk collection in Weaviate, the splitter, the chunker, the two embedding providers and the UUID factory, is
  a record of operations on a state \<open>'st\<close> about which nothing is assumed: each may raise at any call and
  may have changed its own state before. The maps are out of their reach.
\<close>

declare split_paired_All [simp del] split_paired_Ex [simp del]

section \<open>Stored chunks and the collection protocol\<close>

text \<open>\<open>ChunkRecord\<close> of \<open>weaviate_client/models.py\<close>.\<close>

record chunk_record =
  ck_object_id :: string
  ck_user :: string
  ck_document :: string
  ck_paragraph :: int
  ck_chunk :: string
  ck_text :: string
  ck_late :: "real list list"
  ck_mmr :: "real list"

text \<open>The protocol \<open>ChunkCollection\<close>.\<close>

record 'st chunk_collection =
  co_snapshot_by_document :: "string \<Rightarrow> ('st, chunk_record list) op"
  co_snapshot_by_paragraphs :: "string \<Rightarrow> int list \<Rightarrow> ('st, chunk_record list) op"
  co_delete_by_document :: "string \<Rightarrow> ('st, deletion_report) op"
  co_delete_by_paragraphs :: "string \<Rightarrow> int list \<Rightarrow> ('st, deletion_report) op"
  co_delete_chunks :: "string list \<Rightarrow> ('st, deletion_report) op"
  co_restore_chunks :: "chunk_record list \<Rightarrow> ('st, string list) op"
  co_verify_paragraph_ids :: "(string, int) dict \<Rightarrow> ('st, unit) op"
  co_insert_chunk :: "string \<Rightarrow> int \<Rightarrow> string \<Rightarrow> string \<Rightarrow> real list list \<Rightarrow> real list \<Rightarrow> ('st, string) op"
  co_update_paragraph_ids :: "(string, int) dict \<Rightarrow> ('st, unit) op"

text \<open>
  The runtime. A provider's answer is a dynamic value; \<open>rt_uuid\<close> gives \<open>str(uuid_factory())\<close>.
\<close>

record 'st wizard_runtime =
  rt_pattern :: user_pattern
  rt_collection :: "string \<Rightarrow> string \<Rightarrow> ('st, 'st chunk_collection) op"
  rt_splitter :: "string \<Rightarrow> ('st, pyval) op"
  rt_chunker :: "string \<Rightarrow> ('st, pyval) op"
  rt_uuid :: "('st, string) op"
  rt_encode_documents :: "string list \<Rightarrow> ('st, pyval) op"
  rt_embed_many :: "string list \<Rightarrow> ('st, pyval) op"

section \<open>The world\<close>

type_synonym scope = "string \<times> string"

record 'st wizard_world =
  ww_documents :: "(scope, document_map) dict"
  ww_paragraphs :: "(scope, paragraph_map) dict"
  ww_store :: 'st

definition scope_value :: "scope \<Rightarrow> pyval" where
  "scope_value s = PTuple [PStr (fst s), PStr (snd s)]"

definition rt_scope :: "'st wizard_runtime \<Rightarrow> pyval \<Rightarrow> pyval \<Rightarrow> scope res" where
  "rt_scope rt user_id collection_type =
     rbind (validated_user_id (rt_pattern rt) user_id) (\<lambda>u.
     rbind (validated_document_collection_type collection_type) (\<lambda>c. Inr (u, c)))"

text \<open>\<open>document_map\<close> and \<open>paragraph_map\<close> return the map of a scope, made on first use: here its scope.\<close>

definition rt_document_map :: "'st wizard_runtime \<Rightarrow> pyval \<Rightarrow> pyval \<Rightarrow> ('st wizard_world, scope) op" where
  "rt_document_map rt user_id collection_type =
     obind (olift (rt_scope rt user_id collection_type)) (\<lambda>s w.
       if map_of (ww_documents w) s \<noteq> None then (Inr s, w)
       else (case dm_new (rt_pattern rt) (PStr (fst s)) (PStr (snd s)) of
               Inl e \<Rightarrow> (Inl e, w)
             | Inr m \<Rightarrow> (Inr s, w\<lparr>ww_documents := AList.update s m (ww_documents w)\<rparr>)))"

definition rt_paragraph_map :: "'st wizard_runtime \<Rightarrow> pyval \<Rightarrow> pyval \<Rightarrow> ('st wizard_world, scope) op" where
  "rt_paragraph_map rt user_id collection_type =
     obind (olift (rt_scope rt user_id collection_type)) (\<lambda>s w.
       if map_of (ww_paragraphs w) s \<noteq> None then (Inr s, w)
       else (case pm_new (rt_pattern rt) (PStr (fst s)) (PStr (snd s)) of
               Inl e \<Rightarrow> (Inl e, w)
             | Inr m \<Rightarrow> (Inr s, w\<lparr>ww_paragraphs := AList.update s m (ww_paragraphs w)\<rparr>)))"

text \<open>A method of the map of a scope, and an operation of the outside.\<close>

definition on_documents :: "scope \<Rightarrow> (document_map, 'a) op \<Rightarrow> ('st wizard_world, 'a) op" where
  "on_documents s m = (\<lambda>w. case map_of (ww_documents w) s of
       None \<Rightarrow> (Inl (KeyError (scope_value s)), w)
     | Some d \<Rightarrow> (case m d of (r, d') \<Rightarrow> (r, w\<lparr>ww_documents := AList.update s d' (ww_documents w)\<rparr>)))"

definition on_paragraphs :: "scope \<Rightarrow> (paragraph_map, 'a) op \<Rightarrow> ('st wizard_world, 'a) op" where
  "on_paragraphs s m = (\<lambda>w. case map_of (ww_paragraphs w) s of
       None \<Rightarrow> (Inl (KeyError (scope_value s)), w)
     | Some d \<Rightarrow> (case m d of (r, d') \<Rightarrow> (r, w\<lparr>ww_paragraphs := AList.update s d' (ww_paragraphs w)\<rparr>)))"

definition outside :: "('st, 'a) op \<Rightarrow> ('st wizard_world, 'a) op" where
  "outside = on_part ww_store (\<lambda>st w. w\<lparr>ww_store := st\<rparr>)"

definition oread :: "('s \<Rightarrow> 'a res) \<Rightarrow> ('s, 'a) op" where
  "oread f = (\<lambda>s. (f s, s))"

definition rt_open_collection :: "'st wizard_runtime \<Rightarrow> pyval \<Rightarrow> pyval \<Rightarrow> ('st wizard_world, 'st chunk_collection) op" where
  "rt_open_collection rt user_id collection_type =
     obind (olift (rt_scope rt user_id collection_type)) (\<lambda>s. outside (rt_collection rt (fst s) (snd s)))"

text \<open>
  \<open>try: m except Exception\<close>: the outcome of \<open>m\<close> as a value. \<open>CancelledError\<close> is no \<open>Exception\<close> in Python and
  passes through.
\<close>

definition ocatch :: "('s, 'a) op \<Rightarrow> ('s, 'a res) op" where
  "ocatch m = (\<lambda>s. case m s of (r, s') \<Rightarrow> (if r = Inl CancelledError then Inl CancelledError else Inr r, s'))"

section \<open>What the maps say\<close>

definition docs_of :: "'st wizard_world \<Rightarrow> scope \<Rightarrow> string \<Rightarrow> paragraphs option" where
  "docs_of w s k = (case map_of (ww_documents w) s of None \<Rightarrow> None | Some d \<Rightarrow> map_of (dm_documents d) k)"

definition chunks_of :: "'st wizard_world \<Rightarrow> scope \<Rightarrow> paragraph_key \<Rightarrow> string list option" where
  "chunks_of w s k = (case map_of (ww_paragraphs w) s of None \<Rightarrow> None | Some d \<Rightarrow> map_of (pm_paragraphs d) k)"

text \<open>
  Both maps of every scope satisfy their own invariants and agree: a document has chunk lists for exactly
  its paragraphs.
\<close>

definition ww_inv :: "'st wizard_world \<Rightarrow> bool" where
  "ww_inv w \<longleftrightarrow>
     (\<forall>s d. map_of (ww_documents w) s = Some d \<longrightarrow> dm_inv d)
     \<and> (\<forall>s d. map_of (ww_paragraphs w) s = Some d \<longrightarrow> pm_inv d)
     \<and> (\<forall>s k i. chunks_of w s (k, i) \<noteq> None \<longleftrightarrow> (\<exists>ps. docs_of w s k = Some ps \<and> i \<in> fst ` set ps))"

definition same_maps :: "'st wizard_world \<Rightarrow> 'st wizard_world \<Rightarrow> bool" where
  "same_maps w w' \<longleftrightarrow> docs_of w' = docs_of w \<and> chunks_of w' = chunks_of w"

lemma same_maps_refl [simp]: "same_maps w w"
  by (simp add: same_maps_def)

lemma same_maps_trans: "same_maps a b \<Longrightarrow> same_maps b c \<Longrightarrow> same_maps a c"
  by (simp add: same_maps_def)


section \<open>Operations that leave a part alone\<close>

definition keeps :: "('s \<Rightarrow> 'a) \<Rightarrow> ('s, 'b) op \<Rightarrow> bool" where
  "keeps f m \<longleftrightarrow> (\<forall>s r t. m s = (r, t) \<longrightarrow> f t = f s)"

named_theorems keeps_intros \<open>closure of the operations that keep a part\<close>

lemma keepsD: "keeps f m \<Longrightarrow> m s = (r, t) \<Longrightarrow> f t = f s"
  by (simp add: keeps_def)

lemma keeps_basic [keeps_intros]:
  "keeps f (oret x)" "keeps f (oraise e)" "keeps f (olift r)" "keeps f (oread g)"
  by (simp_all add: keeps_def oread_def)

lemma keeps_modify [keeps_intros]: "(\<And>s. f (g s) = f s) \<Longrightarrow> keeps f (omodify g)"
  by (simp add: keeps_def)

lemma keeps_bind [keeps_intros]: "keeps f m \<Longrightarrow> (\<And>x. keeps f (h x)) \<Longrightarrow> keeps f (obind m h)"
  unfolding keeps_def obind_def by (fastforce split: prod.splits sum.splits)

lemma keeps_for [keeps_intros]: "(\<And>x. keeps f (h x)) \<Longrightarrow> keeps f (ofor xs h)"
  by (induction xs) (auto intro: keeps_intros)

lemma keeps_catch [keeps_intros]: "keeps f m \<Longrightarrow> keeps f (ocatch m)"
  unfolding keeps_def ocatch_def by (fastforce split: prod.splits)

lemma keeps_if [keeps_intros]: "keeps f m \<Longrightarrow> keeps f m' \<Longrightarrow> keeps f (if b then m else m')"
  by simp

definition maps_of :: "'st wizard_world \<Rightarrow> (scope, document_map) dict \<times> (scope, paragraph_map) dict" where
  "maps_of w = (ww_documents w, ww_paragraphs w)"

lemma keeps_outside [keeps_intros]: "keeps maps_of (outside m)"
  by (auto simp: keeps_def outside_def on_part_def maps_of_def split: prod.splits)

lemma same_maps_of: "maps_of w' = maps_of w \<Longrightarrow> same_maps w w' \<and> (ww_inv w \<longrightarrow> ww_inv w')"
  by (simp add: maps_of_def same_maps_def ww_inv_def docs_of_def [abs_def] chunks_of_def [abs_def])

lemma ocatch_iff:
  "ocatch m s = (Inr r, t) \<longleftrightarrow> m s = (r, t) \<and> r \<noteq> Inl CancelledError"
  "ocatch m s = (Inl e, t) \<longleftrightarrow> m s = (Inl e, t) \<and> e = CancelledError"
  by (auto simp: ocatch_def split: prod.splits if_splits)

text \<open>What an operation ensures, on every outcome, and how it is computed backwards.\<close>

definition ensures :: "('s, 'a) op \<Rightarrow> 's \<Rightarrow> ('a res \<Rightarrow> 's \<Rightarrow> bool) \<Rightarrow> bool" where
  "ensures m s Q \<longleftrightarrow> (case m s of (r, t) \<Rightarrow> Q r t)"

lemma ensuresD: "ensures m s Q \<Longrightarrow> m s = (r, t) \<Longrightarrow> Q r t"
  by (simp add: ensures_def)

lemma ensures_basic [simp]:
  "ensures (oret x) s Q = Q (Inr x) s" "ensures (oraise e) s Q = Q (Inl e) s"
  "ensures (olift r) s Q = Q r s" "ensures (omodify g) s Q = Q (Inr ()) (g s)"
  "ensures (oread f) s Q = Q (f s) s"
  by (simp_all add: ensures_def oread_def)

lemma ensures_bind:
  "ensures m s (\<lambda>r t. case r of Inl e \<Rightarrow> Q (Inl e) t | Inr x \<Rightarrow> ensures (f x) t Q) \<Longrightarrow> ensures (obind m f) s Q"
  by (auto simp: ensures_def obind_def split: prod.splits sum.splits)

lemma ensures_bind_eq: "m s = (Inr x, t) \<Longrightarrow> ensures (f x) t Q \<Longrightarrow> ensures (obind m f) s Q"
  by (simp add: ensures_def obind_def)

lemma ensures_conseq: "ensures m s Q \<Longrightarrow> (\<And>r t. m s = (r, t) \<Longrightarrow> Q r t \<Longrightarrow> Q' r t) \<Longrightarrow> ensures m s Q'"
  by (auto simp: ensures_def split: prod.splits)

lemma ensures_I: "(\<And>r t. m s = (r, t) \<Longrightarrow> Q r t) \<Longrightarrow> ensures m s Q"
  by (simp add: ensures_def split: prod.split)

lemma ensures_bind_keeps:
  assumes "keeps f m" and "\<And>e t. m s = (Inl e, t) \<Longrightarrow> f t = f s \<Longrightarrow> Q (Inl e) t"
    and "\<And>x t. m s = (Inr x, t) \<Longrightarrow> f t = f s \<Longrightarrow> ensures (g x) t Q"
  shows "ensures (obind m g) s Q"
  using assms by (intro ensures_bind ensures_I) (auto simp: keeps_def split: sum.split)

lemma ensures_keeps:
  assumes "keeps f m" and "\<And>r t. f t = f s \<Longrightarrow> Q r t"
  shows "ensures m s Q"
  using assms by (intro ensures_I) (auto simp: keeps_def)

section \<open>Opening the maps of a scope\<close>

lemma rt_scope_type:
  assumes "c \<in> set document_collection_types"
  shows "validated_document_collection_type (PStr c) = Inr c"
proof -
  have "c = ''knowledge_facts'' \<or> c = ''policy''"
    using assms by (simp add: document_collection_types_def)
  moreover have "strip ''knowledge_facts'' = ''knowledge_facts'' \<and> lower ''knowledge_facts'' = ''knowledge_facts''"
    "strip ''policy'' = ''policy'' \<and> lower ''policy'' = ''policy''"
    by code_simp+
  ultimately have "strip c = c \<and> lower c = c \<and> c \<noteq> []"
    by auto
  with assms show ?thesis
    by (simp add: validated_document_collection_type_def required_identifier_def)
qed

lemma rt_scope_valid:
  assumes "rt_scope rt u c = Inr s"
  shows "dm_new (rt_pattern rt) (PStr (fst s)) (PStr (snd s)) = Inr (dm_initial (fst s) (snd s))"
    and "pm_new (rt_pattern rt) (PStr (fst s)) (PStr (snd s)) = Inr (pm_initial (fst s) (snd s))"
proof -
  obtain a b where s: "s = (a, b)"
    and a: "validated_user_id (rt_pattern rt) u = Inr a"
    and b: "validated_document_collection_type c = Inr b"
    using assms unfolding rt_scope_def by (auto simp: rbind_Inr_iff)
  have "u = PStr a"
    using a by (auto simp: validated_user_id_def rbind_Inr_iff split: pyval.splits)
  with a have u: "validated_user_id (rt_pattern rt) (PStr a) = Inr a"
    by simp
  have "b \<in> set document_collection_types"
    using b by (auto simp: validated_document_collection_type_def rbind_Inr_iff split: if_splits)
  then have "validated_document_collection_type (PStr b) = Inr b"
    by (rule rt_scope_type)
  with u show "dm_new (rt_pattern rt) (PStr (fst s)) (PStr (snd s)) = Inr (dm_initial (fst s) (snd s))"
    "pm_new (rt_pattern rt) (PStr (fst s)) (PStr (snd s)) = Inr (pm_initial (fst s) (snd s))"
    by (simp_all add: dm_new_def pm_new_def s dm_initial_def pm_initial_def)
qed

lemma docs_of_update [simp]:
  "docs_of (w\<lparr>ww_documents := AList.update s d (ww_documents w)\<rparr>) = (docs_of w)(s := map_of (dm_documents d))"
  by (auto simp: docs_of_def update_conv' fun_eq_iff)

lemma chunks_of_update [simp]:
  "chunks_of (w\<lparr>ww_paragraphs := AList.update s d (ww_paragraphs w)\<rparr>) = (chunks_of w)(s := map_of (pm_paragraphs d))"
  by (auto simp: chunks_of_def update_conv' fun_eq_iff)

lemma views_frame [simp]:
  "docs_of (w\<lparr>ww_paragraphs := p\<rparr>) = docs_of w" "docs_of (w\<lparr>ww_store := st\<rparr>) = docs_of w"
  "chunks_of (w\<lparr>ww_documents := q\<rparr>) = chunks_of w" "chunks_of (w\<lparr>ww_store := st\<rparr>) = chunks_of w"
  by (simp_all add: docs_of_def chunks_of_def fun_eq_iff)

lemma docs_of_eq: "map_of (ww_documents w) s = Some d \<Longrightarrow> docs_of w s = map_of (dm_documents d)"
  by (simp add: docs_of_def fun_eq_iff)

lemma chunks_of_eq: "map_of (ww_paragraphs w) s = Some d \<Longrightarrow> chunks_of w s = map_of (pm_paragraphs d)"
  by (simp add: chunks_of_def fun_eq_iff)

text \<open>The invariant of the maps one by one, and their agreement.\<close>

definition maps_inv :: "'st wizard_world \<Rightarrow> bool" where
  "maps_inv w \<longleftrightarrow> (\<forall>s d. map_of (ww_documents w) s = Some d \<longrightarrow> dm_inv d)
     \<and> (\<forall>s d. map_of (ww_paragraphs w) s = Some d \<longrightarrow> pm_inv d)"

definition agree :: "'st wizard_world \<Rightarrow> bool" where
  "agree w \<longleftrightarrow> (\<forall>s k i. chunks_of w s (k, i) \<noteq> None \<longleftrightarrow> (\<exists>ps. docs_of w s k = Some ps \<and> i \<in> fst ` set ps))"

lemma ww_inv_iff: "ww_inv w \<longleftrightarrow> maps_inv w \<and> agree w"
  by (simp add: ww_inv_def maps_inv_def agree_def)

lemma maps_invD:
  "maps_inv w \<Longrightarrow> map_of (ww_documents w) s = Some d \<Longrightarrow> dm_inv d"
  "maps_inv w \<Longrightarrow> map_of (ww_paragraphs w) s = Some p \<Longrightarrow> pm_inv p"
  by (simp_all add: maps_inv_def)

lemma maps_inv_update:
  "maps_inv w \<Longrightarrow> dm_inv d \<Longrightarrow> maps_inv (w\<lparr>ww_documents := AList.update s d (ww_documents w)\<rparr>)"
  "maps_inv w \<Longrightarrow> pm_inv p \<Longrightarrow> maps_inv (w\<lparr>ww_paragraphs := AList.update s p (ww_paragraphs w)\<rparr>)"
  by (simp_all add: maps_inv_def update_conv')

lemma agree_same: "same_maps w w' \<Longrightarrow> agree w' = agree w"
  by (simp add: agree_def same_maps_def)

text \<open>Opening a scope changes nothing that can be read.\<close>

definition opened :: "scope \<Rightarrow> 'st wizard_world \<Rightarrow> bool" where
  "opened s w \<longleftrightarrow> map_of (ww_documents w) s \<noteq> None \<and> map_of (ww_paragraphs w) s \<noteq> None"

lemma rt_document_map_outcome:
  assumes "rt_document_map rt u c w = (r, w')"
  shows "same_maps w w'" "maps_inv w \<Longrightarrow> maps_inv w'" "ww_store w' = ww_store w"
    "ww_paragraphs w' = ww_paragraphs w"
    "r = Inr s \<Longrightarrow> map_of (ww_documents w') s \<noteq> None" "r = Inr s \<Longrightarrow> rt_scope rt u c = Inr s"
    "r = Inl e \<Longrightarrow> rt_scope rt u c = Inl e"
    "map_of (ww_documents w) t \<noteq> None \<Longrightarrow> map_of (ww_documents w') t \<noteq> None"
proof -
  have "same_maps w w' \<and> (maps_inv w \<longrightarrow> maps_inv w') \<and> ww_store w' = ww_store w
    \<and> ww_paragraphs w' = ww_paragraphs w
    \<and> (\<forall>s. r = Inr s \<longrightarrow> map_of (ww_documents w') s \<noteq> None \<and> rt_scope rt u c = Inr s)
    \<and> (\<forall>e. r = Inl e \<longrightarrow> rt_scope rt u c = Inl e)
    \<and> (map_of (ww_documents w) t \<noteq> None \<longrightarrow> map_of (ww_documents w') t \<noteq> None)"
  proof (cases "rt_scope rt u c")
    case (Inl e)
    with assms show ?thesis
      by (auto simp: rt_document_map_def obind_def)
  next
    case (Inr s)
    show ?thesis
    proof (cases "map_of (ww_documents w) s")
      case None
      then have "docs_of w s = Map.empty"
        by (simp add: docs_of_def fun_eq_iff)
      then show ?thesis
        using assms None Inr maps_inv_update(1) [OF _ dm_initial_inv, of w s "fst s" "snd s"]
        by (auto simp: rt_document_map_def obind_def rt_scope_valid(1) same_maps_def dm_initial_def
            update_conv' fun_eq_iff)
    next
      case (Some d)
      with assms Inr show ?thesis
        by (auto simp: rt_document_map_def obind_def)
    qed
  qed
  then show "same_maps w w'" "maps_inv w \<Longrightarrow> maps_inv w'" "ww_store w' = ww_store w"
    "ww_paragraphs w' = ww_paragraphs w"
    "r = Inr s \<Longrightarrow> map_of (ww_documents w') s \<noteq> None" "r = Inr s \<Longrightarrow> rt_scope rt u c = Inr s"
    "r = Inl e \<Longrightarrow> rt_scope rt u c = Inl e"
    "map_of (ww_documents w) t \<noteq> None \<Longrightarrow> map_of (ww_documents w') t \<noteq> None"
    by blast+
qed

lemma rt_paragraph_map_outcome:
  assumes "rt_paragraph_map rt u c w = (r, w')"
  shows "same_maps w w'" "maps_inv w \<Longrightarrow> maps_inv w'" "ww_store w' = ww_store w"
    "ww_documents w' = ww_documents w"
    "r = Inr s \<Longrightarrow> map_of (ww_paragraphs w') s \<noteq> None" "r = Inr s \<Longrightarrow> rt_scope rt u c = Inr s"
    "r = Inl e \<Longrightarrow> rt_scope rt u c = Inl e"
proof -
  have "same_maps w w' \<and> (maps_inv w \<longrightarrow> maps_inv w') \<and> ww_store w' = ww_store w
    \<and> ww_documents w' = ww_documents w
    \<and> (\<forall>s. r = Inr s \<longrightarrow> map_of (ww_paragraphs w') s \<noteq> None \<and> rt_scope rt u c = Inr s)
    \<and> (\<forall>e. r = Inl e \<longrightarrow> rt_scope rt u c = Inl e)"
  proof (cases "rt_scope rt u c")
    case (Inl e)
    with assms show ?thesis
      by (auto simp: rt_paragraph_map_def obind_def)
  next
    case (Inr s)
    show ?thesis
    proof (cases "map_of (ww_paragraphs w) s")
      case None
      then have "chunks_of w s = Map.empty"
        by (simp add: chunks_of_def fun_eq_iff)
      then show ?thesis
        using assms None Inr maps_inv_update(2) [OF _ pm_initial_inv, of w s "fst s" "snd s"]
        by (auto simp: rt_paragraph_map_def obind_def rt_scope_valid(2) same_maps_def pm_initial_def
            update_conv' fun_eq_iff)
    next
      case (Some d)
      with assms Inr show ?thesis
        by (auto simp: rt_paragraph_map_def obind_def)
    qed
  qed
  then show "same_maps w w'" "maps_inv w \<Longrightarrow> maps_inv w'" "ww_store w' = ww_store w"
    "ww_documents w' = ww_documents w"
    "r = Inr s \<Longrightarrow> map_of (ww_paragraphs w') s \<noteq> None" "r = Inr s \<Longrightarrow> rt_scope rt u c = Inr s"
    "r = Inl e \<Longrightarrow> rt_scope rt u c = Inl e"
    by blast+
qed

text \<open>Both maps opened in the order the operations open them.\<close>

definition rt_open_maps :: "'st wizard_runtime \<Rightarrow> pyval \<Rightarrow> pyval \<Rightarrow> ('st wizard_world, scope) op" where
  "rt_open_maps rt user_id collection_type =
     obind (rt_document_map rt user_id collection_type) (\<lambda>_. rt_paragraph_map rt user_id collection_type)"

lemma rt_open_maps_outcome:
  assumes "rt_open_maps rt u c w = (r, w')"
  shows "same_maps w w'" "maps_inv w \<Longrightarrow> maps_inv w'" "ww_store w' = ww_store w"
    "r = Inr s \<Longrightarrow> opened s w'" "r = Inr s \<Longrightarrow> rt_scope rt u c = Inr s"
    "r = Inl e \<Longrightarrow> rt_scope rt u c = Inl e"
proof -
  obtain q v where d: "rt_document_map rt u c w = (q, v)"
    by fastforce
  note D = rt_document_map_outcome [OF d]
  have "same_maps w w' \<and> (maps_inv w \<longrightarrow> maps_inv w') \<and> ww_store w' = ww_store w
    \<and> (\<forall>s. r = Inr s \<longrightarrow> opened s w' \<and> rt_scope rt u c = Inr s) \<and> (\<forall>e. r = Inl e \<longrightarrow> rt_scope rt u c = Inl e)"
  proof (cases q)
    case (Inl e)
    with assms d D show ?thesis
      by (auto simp: rt_open_maps_def obind_def)
  next
    case (Inr s)
    then have p: "rt_paragraph_map rt u c v = (r, w')"
      using assms d by (simp add: rt_open_maps_def obind_def)
    note P = rt_paragraph_map_outcome [OF p]
    have "opened t w'" if "r = Inr t" for t
    proof -
      have "t = s"
        using P(6) [OF that] D(6) [OF Inr] by simp
      then show ?thesis
        using P(5) [OF that] D(5) [OF Inr] P(4) by (simp add: opened_def)
    qed
    with P D show ?thesis
      by (auto intro: same_maps_trans)
  qed
  then show "same_maps w w'" "maps_inv w \<Longrightarrow> maps_inv w'" "ww_store w' = ww_store w"
    "r = Inr s \<Longrightarrow> opened s w'" "r = Inr s \<Longrightarrow> rt_scope rt u c = Inr s"
    "r = Inl e \<Longrightarrow> rt_scope rt u c = Inl e"
    by blast+
qed


section \<open>The maps of an open scope\<close>

lemma update_same: "map_of d k = Some v \<Longrightarrow> AList.update k v d = d"
  by (induction d) (auto split: if_splits)

lemma on_documents_eval:
  "map_of (ww_documents w) s = Some d \<Longrightarrow> m d = (r, d') \<Longrightarrow>
   on_documents s m w = (r, w\<lparr>ww_documents := AList.update s d' (ww_documents w)\<rparr>)"
  by (simp add: on_documents_def)

lemma on_paragraphs_eval:
  "map_of (ww_paragraphs w) s = Some d \<Longrightarrow> m d = (r, d') \<Longrightarrow>
   on_paragraphs s m w = (r, w\<lparr>ww_paragraphs := AList.update s d' (ww_paragraphs w)\<rparr>)"
  by (simp add: on_paragraphs_def)

lemma on_documents_read: "map_of (ww_documents w) s = Some d \<Longrightarrow> on_documents s (oread f) w = (f d, w)"
  by (simp add: on_documents_def oread_def update_same)

lemma on_paragraphs_read: "map_of (ww_paragraphs w) s = Some d \<Longrightarrow> on_paragraphs s (oread f) w = (f d, w)"
  by (simp add: on_paragraphs_def oread_def update_same)

lemma openedE:
  assumes "opened s w"
  obtains D P where "map_of (ww_documents w) s = Some D" "map_of (ww_paragraphs w) s = Some P"
  using assms by (auto simp: opened_def)

lemma keeps_opened: "maps_of w' = maps_of w \<Longrightarrow> opened s w' = opened s w \<and> maps_inv w' = maps_inv w"
  by (simp add: maps_of_def opened_def maps_inv_def)

lemma keeps_read [keeps_intros]:
  "keeps maps_of (on_documents s (oread f))" "keeps maps_of (on_paragraphs s (oread g))"
  by (auto simp: keeps_def on_documents_def on_paragraphs_def oread_def maps_of_def update_same
      split: option.splits)

lemma keeps_open_collection [keeps_intros]: "keeps maps_of (rt_open_collection rt u c)"
  unfolding rt_open_collection_def by (intro keeps_intros)

text \<open>
  The two maps of a document put into a state at once: every operation of the wizard that commits
  does this or takes the document out.
\<close>

lemma agree_put:
  assumes "agree w" and k: "fst ` set ps = {i. cs i \<noteq> None}"
    and "docs_of w' = (docs_of w)(s := (docs_of w s)(d \<mapsto> ps))"
    and "chunks_of w' = (chunks_of w)(s := (\<lambda>k. if fst k = d then cs (snd k) else chunks_of w s k))"
  shows "agree w'"
  using assms unfolding agree_def by (auto simp: set_eq_iff)

lemma agree_remove:
  assumes "agree w"
    and "docs_of w' = (docs_of w)(s := (docs_of w s)(d := None))"
    and "chunks_of w' = (chunks_of w)(s := (\<lambda>k. if fst k = d then None else chunks_of w s k))"
  shows "agree w'"
  using assms unfolding agree_def by auto

text \<open>The chunk lists of a document that is there, as \<open>get_document_chunks\<close> gives them.\<close>

lemma document_chunks_of:
  assumes inv: "maps_inv w" "agree w" and D: "map_of (ww_documents w) s = Some D" "map_of (ww_paragraphs w) s = Some P"
    and doc: "required_uuid v ''document_id'' = Inr d" "map_of (dm_documents D) d = Some ps"
  shows "\<exists>m. pm_get_document_chunks P v = Inr m \<and> map fst m = [1..int (length m)] \<and> m \<noteq> []
    \<and> (\<forall>i. map_of m i = map_of (pm_paragraphs P) (d, i)) \<and> map fst m = map fst ps"
proof -
  obtain m where m: "pm_get_document_chunks P v = Inr m" "sorted (map fst m)" "distinct (map fst m)"
    "\<forall>i. map_of m i = map_of (pm_paragraphs P) (d, i)"
    using pm_document_chunks_spec [OF maps_invD(2) [OF inv(1) D(2)] doc(1)] by blast
  have ok: "paragraphs_ok ps"
    using maps_invD(1) [OF inv(1) D(1)] doc(2) by (simp add: dm_inv_def)
  have "docs_of w s d = Some ps"
    using D doc by (simp add: docs_of_eq)
  then have "chunks_of w s (d, i) \<noteq> None \<longleftrightarrow> i \<in> fst ` set ps" for i
    using inv(2) unfolding agree_def by (metis option.inject)
  then have "map_of m i \<noteq> None \<longleftrightarrow> i \<in> set (map fst ps)" for i
    using m(4) D by (simp add: chunks_of_eq)
  then have "set (map fst m) = set (map fst ps)"
    unfolding map_of_eq_None_iff set_map by blast
  then have e: "map fst m = map fst ps"
    by (rule sorted_distinct_set_unique [OF m(2,3) paragraphs_ok_keys(2,1) [OF ok]])
  then have "length m = length ps"
    by (metis length_map)
  with ok e m show ?thesis
    by (intro exI [of _ m]) (auto simp: paragraphs_ok_def)
qed

text \<open>The start of every operation: opening the maps, then working on them.\<close>

lemma ensures_open_maps:
  assumes "maps_inv w" "agree w"
    and "\<And>e t. same_maps w t \<Longrightarrow> maps_inv t \<Longrightarrow> Q (Inl e) t"
    and "\<And>s t. rt_scope rt u c = Inr s \<Longrightarrow> opened s t \<Longrightarrow> same_maps w t \<Longrightarrow> maps_inv t \<Longrightarrow> agree t \<Longrightarrow>
           ensures (f s) t Q"
  shows "ensures (obind (rt_open_maps rt u c) f) w Q"
proof (intro ensures_bind ensures_I)
  fix r t assume m: "rt_open_maps rt u c w = (r, t)"
  note o = rt_open_maps_outcome [OF m]
  show "case r of Inl e \<Rightarrow> Q (Inl e) t | Inr x \<Rightarrow> ensures (f x) t Q"
  proof (cases r)
    case (Inl e)
    with assms o(1,2) show ?thesis
      by simp
  next
    case (Inr s)
    with assms o agree_same [OF o(1)] show ?thesis
      by simp
  qed
qed

lemma keeps_maps:
  "maps_of t = maps_of w \<Longrightarrow> same_maps v w \<Longrightarrow> same_maps v t"
  "maps_of t = maps_of w \<Longrightarrow> maps_inv w \<Longrightarrow> maps_inv t"
  "maps_of t = maps_of w \<Longrightarrow> agree w \<Longrightarrow> agree t"
  "maps_of t = maps_of w \<Longrightarrow> opened s w \<Longrightarrow> opened s t"
  "maps_of t = maps_of w \<Longrightarrow> map_of (ww_documents w) s = Some D \<Longrightarrow> map_of (ww_documents t) s = Some D"
  "maps_of t = maps_of w \<Longrightarrow> map_of (ww_paragraphs w) s = Some P \<Longrightarrow> map_of (ww_paragraphs t) s = Some P"
  using same_maps_of [of t w] keeps_opened [of t w] agree_same [of w t] same_maps_trans
  by (auto simp: maps_of_def)

end
