(* ===== verification/Wizard_Crud.thy ===== *)
theory Wizard_Crud
  imports Wizard_Runtime
begin

text \<open>
  \<open>backend/wizard/crud.py\<close>: creating an empty document and deleting one, with the compensation of each.
  The calls of \<open>wizard/diagnostics.py\<close> between the steps record counters and are left out, as are the
  notes added to an exception that is raised again.
\<close>

section \<open>Operations\<close>

text \<open>\<open>_generated_uuid\<close>.\<close>

definition generated_uuid :: "'st wizard_runtime \<Rightarrow> string \<Rightarrow> ('st wizard_world, string) op" where
  "generated_uuid rt name =
     obind (outside (rt_uuid rt)) (\<lambda>value.
       case uuid_canon value of
         None \<Rightarrow> oraise (ValueError (''uuid_factory returned an invalid '' @ name))
       | Some u \<Rightarrow> oret u)"

definition already_exists :: "string \<Rightarrow> exc" where
  "already_exists d = ValueError (''generated document_id '' @ py_repr d @ '' already exists'')"

text \<open>The errors a compensation step leaves behind: \<open>except Exception as e: errors.append(e)\<close>.\<close>

definition error_of :: "'a res \<Rightarrow> exc list" where
  "error_of r = (case r of Inl e \<Rightarrow> [e] | Inr _ \<Rightarrow> [])"

text \<open>\<open>create_wizard\<close> from the generated id on, and the whole of it.\<close>

definition create_wizard_as :: "scope \<Rightarrow> string \<Rightarrow> ('st wizard_world, string) op" where
  "create_wizard_as s document_id =
     obind (ocatch (on_documents s (oread (\<lambda>m. dm_get_paragraph_data m (PStr document_id))))) (\<lambda>found.
     obind (case found of
              Inl (KeyError _) \<Rightarrow> oret ()
            | Inl e \<Rightarrow> oraise e
            | Inr _ \<Rightarrow> oraise (already_exists document_id)) (\<lambda>_.
     obind (on_paragraphs s (oread (\<lambda>m. pm_get_document_chunks m (PStr document_id)))) (\<lambda>chunks.
     if chunks \<noteq> [] then oraise (already_exists document_id)
     else
     obind (on_documents s (dm_create_document (PStr document_id))) (\<lambda>_.
     obind (ocatch (on_paragraphs s (pm_replace_document (PStr document_id) (chunks_value [(1, [])])))) (\<lambda>r.
       case r of
         Inr _ \<Rightarrow> oret document_id
       | Inl e \<Rightarrow>
           obind (ocatch (on_paragraphs s (pm_delete_document (PStr document_id)))) (\<lambda>_.
           obind (ocatch (on_documents s (dm_delete_document (PStr document_id)))) (\<lambda>_.
           oraise e)))))))"

definition create_wizard :: "'st wizard_runtime \<Rightarrow> pyval \<Rightarrow> pyval \<Rightarrow> ('st wizard_world, string) op" where
  "create_wizard rt user_id collection_type =
     obind (rt_open_maps rt user_id collection_type) (\<lambda>s.
     obind (generated_uuid rt ''document_id'') (\<lambda>document_id. create_wizard_as s document_id))"

text \<open>The compensation of a deletion that failed in \<open>stage\<close>, and the exception it ends in.\<close>

definition recover_delete ::
    "'st chunk_collection \<Rightarrow> scope \<Rightarrow> string \<Rightarrow> paragraphs \<Rightarrow> chunk_lists \<Rightarrow> chunk_record list \<Rightarrow> string
     \<Rightarrow> ('st wizard_world, unit) op" where
  "recover_delete collection s document_id paragraph_data chunk_mappings snapshots stage =
     obind (ocatch (outside (co_restore_chunks collection snapshots))) (\<lambda>r1.
     obind (ocatch (on_paragraphs s (pm_replace_document (PStr document_id) (chunks_value chunk_mappings)))) (\<lambda>r2.
     obind (ocatch (on_documents s (dm_restore_document (PStr document_id) (paragraph_value paragraph_data)))) (\<lambda>r3.
       let affected = map ck_chunk snapshots; errors = error_of r1 @ error_of r2 @ error_of r3 in
       if errors \<noteq> [] then oraise (WizardDeleteRecoveryError stage affected errors)
       else oraise (WizardDeleteError stage affected))))"

definition delete_wizard :: "'st wizard_runtime \<Rightarrow> pyval \<Rightarrow> string \<Rightarrow> pyval \<Rightarrow> ('st wizard_world, unit) op" where
  "delete_wizard rt user_id document_id collection_type =
     obind (rt_open_maps rt user_id collection_type) (\<lambda>s.
     obind (on_documents s (oread (\<lambda>m. dm_get_paragraph_data m (PStr document_id)))) (\<lambda>paragraph_data.
     obind (on_paragraphs s (oread (\<lambda>m. pm_get_document_chunks m (PStr document_id)))) (\<lambda>chunk_mappings.
     obind (rt_open_collection rt user_id collection_type) (\<lambda>collection.
     obind (outside (co_snapshot_by_document collection document_id)) (\<lambda>snapshots.
     obind (ocatch (outside (co_delete_by_document collection document_id))) (\<lambda>deletion.
       case deletion of
         Inl _ \<Rightarrow> recover_delete collection s document_id paragraph_data chunk_mappings snapshots ''storage_delete''
       | Inr _ \<Rightarrow>
           obind (ocatch (obind (on_paragraphs s (pm_delete_document (PStr document_id)))
                    (\<lambda>_. on_documents s (dm_delete_document (PStr document_id))))) (\<lambda>r.
             case r of
               Inl _ \<Rightarrow> recover_delete collection s document_id paragraph_data chunk_mappings snapshots ''mapping_commit''
             | Inr _ \<Rightarrow> oret ())))))))"

section \<open>Creating\<close>

lemma generated_uuid_keeps [keeps_intros]: "keeps maps_of (generated_uuid rt name)"
  unfolding generated_uuid_def by (intro keeps_intros) (auto split: option.split intro: keeps_intros)

lemma generated_uuid_canonical: "generated_uuid rt name w = (Inr d, w') \<Longrightarrow> is_canonical d"
  by (auto simp: generated_uuid_def py_iff split: option.splits dest: uuid_canon_canonical)

lemma dm_create_document_new:
  "is_canonical d \<Longrightarrow> map_of (dm_documents D) d = None \<Longrightarrow>
   dm_create_document (PStr d) D = (Inr (), D\<lparr>dm_documents := AList.update d [(1, [])] (dm_documents D)\<rparr>)"
  by (simp add: dm_create_document_def obind_def required_uuid_of_canonical)

lemma pm_replace_document_empty:
  assumes "pm_inv P" "is_canonical d"
  shows "\<exists>t. pm_replace_document (PStr d) (chunks_value [(1, [])]) P = (Inr (), t) \<and> pm_inv t
    \<and> map_of (pm_paragraphs t)
        = (\<lambda>k. if fst k = d then (if snd k = 1 then Some [] else None) else map_of (pm_paragraphs P) k)"
proof -
  have "pm_validated_replacement P d (chunks_value [(1, [])]) = Inr [(1, [])]"
    by (simp add: pm_validated_replacement_def chunks_value_def positive_paragraph_id_def
        pm_validated_chunks_def sequential_ids_def dict_keys_def)
  from pm_replace_document_spec [OF assms(1) required_uuid_of_canonical [OF assms(2)] this] show ?thesis
    by (auto simp: fun_eq_iff)
qed

text \<open>What a successful creation does to the two maps, and that nothing else can happen to them.\<close>

definition created :: "scope \<Rightarrow> string \<Rightarrow> 'st wizard_world \<Rightarrow> 'st wizard_world \<Rightarrow> bool" where
  "created s d w w' \<longleftrightarrow> is_canonical d \<and> docs_of w s d = None
     \<and> docs_of w' = (docs_of w)(s := (docs_of w s)(d \<mapsto> [(1, [])]))
     \<and> chunks_of w' = (chunks_of w)(s := (chunks_of w s)((d, 1) \<mapsto> []))"

lemma create_wizard_commit:
  assumes inv: "maps_inv w" "agree w" and o: "opened s w" and d: "is_canonical d"
    and free: "docs_of w s d = None"
  shows "\<exists>u v. on_documents s (dm_create_document (PStr d)) w = (Inr (), u)
    \<and> on_paragraphs s (pm_replace_document (PStr d) (chunks_value [(1, [])])) u = (Inr (), v)
    \<and> maps_inv v \<and> agree v \<and> created s d w v"
proof -
  obtain D P where D: "map_of (ww_documents w) s = Some D" "map_of (ww_paragraphs w) s = Some P"
    using o by (rule openedE)
  let ?D = "D\<lparr>dm_documents := AList.update d [(1, [])] (dm_documents D)\<rparr>"
  have fr: "map_of (dm_documents D) d = None"
    using free D by (simp add: docs_of_eq)
  obtain t where t: "pm_replace_document (PStr d) (chunks_value [(1, [])]) P = (Inr (), t)" "pm_inv t"
    "map_of (pm_paragraphs t)
        = (\<lambda>k. if fst k = d then (if snd k = 1 then Some [] else None) else map_of (pm_paragraphs P) k)"
    using pm_replace_document_empty [OF maps_invD(2) [OF inv(1) D(2)] d] by blast
  let ?u = "w\<lparr>ww_documents := AList.update s ?D (ww_documents w)\<rparr>"
  let ?v = "?u\<lparr>ww_paragraphs := AList.update s t (ww_paragraphs ?u)\<rparr>"
  have run: "on_documents s (dm_create_document (PStr d)) w = (Inr (), ?u)"
    "on_paragraphs s (pm_replace_document (PStr d) (chunks_value [(1, [])])) ?u = (Inr (), ?v)"
    by (simp_all add: on_documents_def D dm_create_document_new [OF d fr] on_paragraphs_def t(1))
  have di: "dm_inv ?D"
    by (rule dm_inv_update [OF maps_invD(1) [OF inv(1) D(1)] d]) (simp add: paragraphs_ok_def)
  have mi: "maps_inv ?v"
    by (rule maps_inv_update(2) [OF maps_inv_update(1) [OF inv(1) di] t(2)])
  have dv: "docs_of ?v = (docs_of w)(s := (docs_of w s)(d \<mapsto> [(1, [])]))"
    unfolding views_frame docs_of_update using D by (simp add: docs_of_eq update_conv')
  have cv: "chunks_of ?v = (chunks_of w)(s := (\<lambda>k. if fst k = d then (if snd k = 1 then Some [] else None) else chunks_of w s k))"
    unfolding views_frame chunks_of_update t(3) chunks_of_eq [OF D(2)] ..
  have "chunks_of w s (d, i) = None" for i
    using inv(2) free unfolding agree_def by (metis option.distinct(1))
  then have "(\<lambda>k. if fst k = d then (if snd k = 1 then Some [] else None) else chunks_of w s k)
      = (chunks_of w s)((d, 1) \<mapsto> [])"
    by (auto simp: fun_eq_iff split_paired_All)
  then have "created s d w ?v"
    using d free dv cv by (simp add: created_def)
  moreover have "agree ?v"
    by (rule agree_put [OF inv(2) _ dv cv]) auto
  ultimately show ?thesis
    using run mi by blast
qed

lemma create_wizard_as_spec:
  assumes inv: "maps_inv w" "agree w" and o: "opened s w" and d: "is_canonical d"
  shows "ensures (create_wizard_as s d) w (\<lambda>r t. maps_inv t \<and> agree t
    \<and> (\<forall>e. r = Inl e \<longrightarrow> same_maps w t) \<and> (\<forall>d'. r = Inr d' \<longrightarrow> d' = d \<and> created s d w t))"
proof -
  obtain D P where D: "map_of (ww_documents w) s = Some D" "map_of (ww_paragraphs w) s = Some P"
    using o by (rule openedE)
  note read = on_documents_read [OF D(1)] on_paragraphs_read [OF D(2)]
  show ?thesis
  proof (cases "map_of (dm_documents D) d")
    case (Some ps)
    then show ?thesis
      using inv by (simp add: create_wizard_as_def ensures_def obind_def ocatch_def read dm_get_value d dict_get_def)
  next
    case None
    obtain m where m: "pm_get_document_chunks P (PStr d) = Inr m" "\<forall>p. map_of m p = map_of (pm_paragraphs P) (d, p)"
      using pm_document_chunks_spec [OF maps_invD(2) [OF inv(1) D(2)] required_uuid_of_canonical [OF d]] by blast
    have free: "docs_of w s d = None"
      using None D by (simp add: docs_of_eq)
    obtain u v where run: "on_documents s (dm_create_document (PStr d)) w = (Inr (), u)"
      "on_paragraphs s (pm_replace_document (PStr d) (chunks_value [(1, [])])) u = (Inr (), v)"
      and v: "maps_inv v" "agree v" "created s d w v"
      using create_wizard_commit [OF inv o d free] by blast
    have "chunks_of w s (d, p) = None" for p
      using inv(2) free unfolding agree_def by (metis option.distinct(1))
    then have "map_of m = Map.empty"
      using m(2) by (simp add: chunks_of_eq [OF D(2)] fun_eq_iff)
    then have "m = []"
      by simp
    then show ?thesis
      using v None by (simp add: create_wizard_as_def ensures_def obind_def ocatch_def read dm_get_value d
          dict_get_def m(1) run)
  qed
qed

lemma create_wizard_spec:
  fixes w :: "'st wizard_world"
  assumes inv: "maps_inv w" "agree w"
  shows "ensures (create_wizard rt u c) w (\<lambda>r t. maps_inv t \<and> agree t
    \<and> (\<forall>e. r = Inl e \<longrightarrow> same_maps w t)
    \<and> (\<forall>d. r = Inr d \<longrightarrow> (\<exists>s. rt_scope rt u c = Inr s \<and> created s d w t)))"
    (is "ensures _ _ ?Q")
  unfolding create_wizard_def
proof (rule ensures_open_maps [OF inv])
  fix e t assume "same_maps w t" "maps_inv t"
  with inv agree_same show "?Q (Inl e) t"
    by auto
next
  fix s v assume sc: "rt_scope rt u c = Inr s" and v: "opened s v" "same_maps w v" "maps_inv v" "agree v"
  show "ensures (obind (generated_uuid rt ''document_id'') (create_wizard_as s)) v ?Q"
  proof (rule ensures_bind_keeps [OF generated_uuid_keeps])
    fix e and t :: "'st wizard_world" assume m: "maps_of t = maps_of v"
    from keeps_maps(1-3) [OF m] v show "?Q (Inl e) t"
      by simp
  next
    fix d t assume d: "generated_uuid rt ''document_id'' v = (Inr d, t)" and m: "maps_of t = maps_of v"
    have t: "maps_inv t" "agree t" "opened s t" "same_maps w t"
      using keeps_maps [OF m] v by blast+
    have "created s d w t'" if "created s d t t'" for t'
      using that t(4) by (simp add: created_def same_maps_def)
    with t(4) sc show "ensures (create_wizard_as s d) t ?Q"
      by (intro ensures_conseq [OF create_wizard_as_spec [OF t(1-3) generated_uuid_canonical [OF d]]])
        (auto intro: same_maps_trans)
  qed
qed

section \<open>Compensation\<close>

text \<open>
  What the operations have read of a document before they start changing things: its key, its
  paragraphs and its chunk lists.
\<close>

definition read_document ::
    "'st wizard_world \<Rightarrow> scope \<Rightarrow> string \<Rightarrow> string \<Rightarrow> paragraphs \<Rightarrow> chunk_lists \<Rightarrow> bool" where
  "read_document w s document_id d ps m \<longleftrightarrow>
     required_uuid (PStr document_id) ''document_id'' = Inr d \<and> docs_of w s d = Some ps
     \<and> (\<exists>P. map_of (ww_paragraphs w) s = Some P \<and> pm_get_document_chunks P (PStr document_id) = Inr m)"

definition only_at :: "scope \<Rightarrow> string \<Rightarrow> 'st wizard_world \<Rightarrow> 'st wizard_world \<Rightarrow> bool" where
  "only_at s d w v \<longleftrightarrow>
     (\<forall>s' k. s' \<noteq> s \<or> k \<noteq> d \<longrightarrow> docs_of v s' k = docs_of w s' k)
     \<and> (\<forall>s' j. s' \<noteq> s \<or> fst j \<noteq> d \<longrightarrow> chunks_of v s' j = chunks_of w s' j)"

lemma only_at_refl: "same_maps w v \<Longrightarrow> only_at s d w v"
  by (simp add: only_at_def same_maps_def)

lemma only_atD:
  assumes "only_at s d w v"
  shows "s' \<noteq> s \<or> k \<noteq> d \<Longrightarrow> docs_of v s' k = docs_of w s' k"
    and "s' \<noteq> s \<or> fst j \<noteq> d \<Longrightarrow> chunks_of v s' j = chunks_of w s' j"
  using assms unfolding only_at_def by blast+

lemma required_uuid_transfer:
  assumes "required_uuid v ''document_id'' = Inr d"
  shows "pm_replace_document v = pm_replace_document (PStr d)" "dm_restore_document v = dm_restore_document (PStr d)"
    "dm_update_paragraphs v = dm_update_paragraphs (PStr d)" "pm_delete_document v = pm_delete_document (PStr d)"
    "dm_delete_document v = dm_delete_document (PStr d)"
  using assms required_uuid_of_canonical [OF required_uuid_canonical [OF assms], of "''document_id''"]
  by (simp_all add: pm_replace_document_def dm_restore_document_def dm_update_paragraphs_def
      pm_delete_document_def dm_delete_document_def fun_eq_iff)

lemma read_document_chunks:
  assumes inv: "maps_inv w" "agree w" and r: "read_document w s document_id d ps m" and o: "opened s w"
  shows "is_canonical d" "paragraphs_ok ps" "map fst m = [1..int (length m)]" "m \<noteq> []"
    "map fst m = map fst ps" "map_of m i = chunks_of w s (d, i)"
proof -
  obtain D P where D: "map_of (ww_documents w) s = Some D" "map_of (ww_paragraphs w) s = Some P"
    using o by (rule openedE)
  have k: "required_uuid (PStr document_id) ''document_id'' = Inr d" and ps: "map_of (dm_documents D) d = Some ps"
    and m: "pm_get_document_chunks P (PStr document_id) = Inr m"
    using r D by (auto simp: read_document_def docs_of_eq)
  have "map fst m = [1..int (length m)] \<and> m \<noteq> [] \<and> (\<forall>i. map_of m i = map_of (pm_paragraphs P) (d, i))
      \<and> map fst m = map fst ps"
    using document_chunks_of [OF inv D k ps] m by auto
  then show "map fst m = [1..int (length m)]" "m \<noteq> []" "map fst m = map fst ps"
    "map_of m i = chunks_of w s (d, i)"
    using D by (auto simp: chunks_of_eq)
  show "is_canonical d" "paragraphs_ok ps"
    using k maps_invD(1) [OF inv(1) D(1)] ps by (auto simp: dm_inv_def dest: required_uuid_canonical)
qed

lemma restore_maps:
  assumes inv: "maps_inv w" "agree w" and o: "opened s w" and r: "read_document w s document_id d ps m"
    and v: "maps_inv v" "opened s v" "only_at s d w v"
  shows "\<exists>u t. on_paragraphs s (pm_replace_document (PStr document_id) (chunks_value m)) v = (Inr (), u)
    \<and> on_documents s (dm_restore_document (PStr document_id) (paragraph_value ps)) u = (Inr (), t)
    \<and> same_maps w t \<and> maps_inv t"
proof -
  note R = read_document_chunks [OF inv r o]
  have k: "required_uuid (PStr document_id) ''document_id'' = Inr d" and ps: "docs_of w s d = Some ps"
    using r by (simp_all add: read_document_def)
  obtain D P where D: "map_of (ww_documents w) s = Some D" "map_of (ww_paragraphs w) s = Some P"
    using o by (rule openedE)
  obtain D' P' where D': "map_of (ww_documents v) s = Some D'" "map_of (ww_paragraphs v) s = Some P'"
    using v(2) by (rule openedE)
  note mi = maps_invD(2) [OF inv(1) D(2)] maps_invD(2) [OF v(1) D'(2)]
  have other: "map_of (pm_paragraphs P') j = map_of (pm_paragraphs P) j" if "fst j \<noteq> d" for j
    using only_atD(2) [OF v(3), of s j] that by (simp add: chunks_of_eq [OF D(2)] chunks_of_eq [OF D'(2)])
  have old: "map_of m i = map_of (pm_paragraphs P) (d, i)" for i
    using R(6) by (simp add: chunks_of_eq [OF D(2)])
  obtain P'' where p: "pm_replace_document (PStr d) (chunks_value m) P' = (Inr (), P'')" "pm_inv P''"
    "map_of (pm_paragraphs P'') = map_of (pm_paragraphs P)"
    using pm_put_back(2) [OF mi R(1) other R(3,4) old] by blast
  let ?D = "D'\<lparr>dm_documents := AList.update d ps (dm_documents D')\<rparr>"
  have di: "dm_inv ?D"
    by (rule dm_inv_update [OF maps_invD(1) [OF v(1) D'(1)] R(1,2)])
  let ?u = "v\<lparr>ww_paragraphs := AList.update s P'' (ww_paragraphs v)\<rparr>"
  let ?t = "?u\<lparr>ww_documents := AList.update s ?D (ww_documents ?u)\<rparr>"
  have "on_paragraphs s (pm_replace_document (PStr document_id) (chunks_value m)) v = (Inr (), ?u)"
    "on_documents s (dm_restore_document (PStr document_id) (paragraph_value ps)) ?u = (Inr (), ?t)"
    unfolding required_uuid_transfer [OF k]
    by (simp_all add: on_paragraphs_def on_documents_def D' p(1) dm_restore_value [OF R(1,2)])
  moreover have "maps_inv ?t"
    by (rule maps_inv_update(1) [OF maps_inv_update(2) [OF v(1) p(2)] di])
  moreover have "docs_of ?t s' j = docs_of w s' j" for s' j
    unfolding views_frame docs_of_update using only_atD(1) [OF v(3), of s' j] ps
    by (auto simp: update_conv' docs_of_eq [OF D'(1)])
  moreover have "chunks_of ?t s' j = chunks_of w s' j" for s' j
    unfolding views_frame chunks_of_update using only_atD(2) [OF v(3), of s' j]
    by (auto simp: p(3) chunks_of_eq [OF D(2)])
  ultimately show ?thesis
    by (intro exI [of _ ?u] exI [of _ ?t]) (simp add: same_maps_def fun_eq_iff)
qed

section \<open>Deleting\<close>

lemma recover_delete_spec:
  fixes w :: "'st wizard_world"
  assumes inv: "maps_inv w" "agree w" and o: "opened s w" and r: "read_document w s document_id d ps m"
    and v: "maps_of v = maps_of w"
  shows "ensures (recover_delete coll s document_id ps m snaps stage) v (\<lambda>r t. maps_inv t \<and> same_maps w t
    \<and> (r = Inl CancelledError \<or> r = Inl (WizardDeleteError stage (map ck_chunk snaps))
       \<or> (\<exists>e. r = Inl (WizardDeleteRecoveryError stage (map ck_chunk snaps) [e]))))" (is "ensures _ _ ?Q")
  unfolding recover_delete_def
proof (rule ensures_bind_keeps [where f = maps_of])
  show "keeps maps_of (ocatch (outside (co_restore_chunks coll snaps)))"
    by (intro keeps_intros)
next
  fix e and t :: "'st wizard_world"
  assume "ocatch (outside (co_restore_chunks coll snaps)) v = (Inl e, t)" and m: "maps_of t = maps_of v"
  then have "e = CancelledError"
    by (simp add: ocatch_iff)
  then show "?Q (Inl e) t"
    using keeps_maps(1) [of t w w] keeps_maps(2) [of t w] m v inv by simp
next
  fix r1 and t :: "'st wizard_world" assume m: "maps_of t = maps_of v"
  have t: "maps_inv t" "opened s t" "only_at s d w t"
    using keeps_maps(1,2,4) [of t w] m v inv o by (simp_all add: only_at_refl)
  obtain u z where z: "on_paragraphs s (pm_replace_document (PStr document_id) (chunks_value m)) t = (Inr (), u)"
    "on_documents s (dm_restore_document (PStr document_id) (paragraph_value ps)) u = (Inr (), z)"
    "same_maps w z" "maps_inv z"
    using restore_maps [OF inv o r t] by blast
  then show "ensures (obind (ocatch (on_paragraphs s (pm_replace_document (PStr document_id) (chunks_value m))))
     (\<lambda>r2. obind (ocatch (on_documents s (dm_restore_document (PStr document_id) (paragraph_value ps))))
       (\<lambda>r3. let affected = map ck_chunk snaps; errors = error_of r1 @ error_of r2 @ error_of r3 in
       if errors \<noteq> [] then oraise (WizardDeleteRecoveryError stage affected errors)
       else oraise (WizardDeleteError stage affected)))) t ?Q"
    by (cases r1) (simp_all add: ensures_def obind_def ocatch_def error_of_def)
qed

definition removed :: "scope \<Rightarrow> string \<Rightarrow> 'st wizard_world \<Rightarrow> 'st wizard_world \<Rightarrow> bool" where
  "removed s d w w' \<longleftrightarrow> docs_of w s d \<noteq> None
     \<and> docs_of w' = (docs_of w)(s := (docs_of w s)(d := None))
     \<and> chunks_of w' = (chunks_of w)(s := (\<lambda>k. if fst k = d then None else chunks_of w s k))"

lemma removed_from: "same_maps w t \<Longrightarrow> removed s d t t' = removed s d w t'"
  by (simp add: same_maps_def removed_def cong: if_cong)

lemma delete_commit:
  assumes inv: "maps_inv w" "agree w" and o: "opened s w"
    and k: "required_uuid v ''document_id'' = Inr d" and doc: "docs_of w s d = Some ps"
  shows "\<exists>u t. on_paragraphs s (pm_delete_document v) w = (Inr (), u)
    \<and> on_documents s (dm_delete_document v) u = (Inr (), t) \<and> maps_inv t \<and> agree t \<and> removed s d w t"
proof -
  obtain D P where D: "map_of (ww_documents w) s = Some D" "map_of (ww_paragraphs w) s = Some P"
    using o by (rule openedE)
  obtain P' where p: "pm_delete_document v P = (Inr (), P')" "pm_inv P'"
    "map_of (pm_paragraphs P') = (\<lambda>k. if fst k = d then None else map_of (pm_paragraphs P) k)"
    using pm_delete_document_spec [OF maps_invD(2) [OF inv(1) D(2)] k] by blast
  let ?D = "D\<lparr>dm_documents := AList.delete d (dm_documents D)\<rparr>"
  let ?u = "w\<lparr>ww_paragraphs := AList.update s P' (ww_paragraphs w)\<rparr>"
  let ?t = "?u\<lparr>ww_documents := AList.update s ?D (ww_documents ?u)\<rparr>"
  have ps: "map_of (dm_documents D) d = Some ps"
    using doc by (simp add: docs_of_eq [OF D(1)])
  have "dm_delete_document v D = (Inr (), ?D)"
    by (simp add: dm_delete_document_def obind_def k on_part_def dict_del_eval(1) [OF ps])
  then have "on_paragraphs s (pm_delete_document v) w = (Inr (), ?u)"
    "on_documents s (dm_delete_document v) ?u = (Inr (), ?t)"
    by (simp_all add: on_paragraphs_def on_documents_def D p(1))
  moreover have "maps_inv ?t"
    by (rule maps_inv_update(1) [OF maps_inv_update(2) [OF inv(1) p(2)] dm_inv_delete])
      (rule maps_invD(1) [OF inv(1) D(1)])
  moreover have dt: "docs_of ?t = (docs_of w)(s := (docs_of w s)(d := None))"
    unfolding views_frame docs_of_update docs_of_eq [OF D(1)] by (simp add: delete_conv')
  moreover have ct: "chunks_of ?t = (chunks_of w)(s := (\<lambda>k. if fst k = d then None else chunks_of w s k))"
    unfolding views_frame chunks_of_update chunks_of_eq [OF D(2)] p(3) ..
  moreover have "agree ?t"
    by (rule agree_remove [OF inv(2) dt ct])
  ultimately show ?thesis
    using doc by (intro exI [of _ ?u] exI [of _ ?t]) (simp add: removed_def)
qed

lemma delete_wizard_spec:
  fixes w :: "'st wizard_world"
  assumes inv: "maps_inv w" "agree w"
  shows "ensures (delete_wizard rt u document_id c) w (\<lambda>r t. maps_inv t \<and> agree t
    \<and> (\<forall>e. r = Inl e \<longrightarrow> same_maps w t)
    \<and> (\<forall>x. r = Inr x \<longrightarrow> (\<exists>s d. rt_scope rt u c = Inr s
         \<and> required_uuid (PStr document_id) ''document_id'' = Inr d \<and> removed s d w t)))"
    (is "ensures _ _ ?Q")
  unfolding delete_wizard_def
proof (rule ensures_open_maps [OF inv])
  fix e t assume "same_maps w t" "maps_inv t"
  with inv agree_same show "?Q (Inl e) t"
    by auto
next
  fix s v assume sc: "rt_scope rt u c = Inr s" and v: "opened s v" "same_maps w v" "maps_inv v" "agree v"
  obtain D P where D: "map_of (ww_documents v) s = Some D" "map_of (ww_paragraphs v) s = Some P"
    using v(1) by (rule openedE)
  have err: "?Q (Inl e) t" if "maps_of t = maps_of v" for e and t :: "'st wizard_world"
    using keeps_maps(1-3) [OF that] v by simp
  let ?id = "PStr document_id"
  show "ensures (obind (on_documents s (oread (\<lambda>m. dm_get_paragraph_data m ?id))) (\<lambda>ps.
     obind (on_paragraphs s (oread (\<lambda>m. pm_get_document_chunks m ?id))) (\<lambda>cm.
     obind (rt_open_collection rt u c) (\<lambda>coll.
     obind (outside (co_snapshot_by_document coll document_id)) (\<lambda>snaps.
     obind (ocatch (outside (co_delete_by_document coll document_id))) (\<lambda>deletion.
       case deletion of
         Inl _ \<Rightarrow> recover_delete coll s document_id ps cm snaps ''storage_delete''
       | Inr _ \<Rightarrow>
           obind (ocatch (obind (on_paragraphs s (pm_delete_document ?id))
                    (\<lambda>_. on_documents s (dm_delete_document ?id)))) (\<lambda>r.
             case r of
               Inl _ \<Rightarrow> recover_delete coll s document_id ps cm snaps ''mapping_commit''
             | Inr _ \<Rightarrow> oret ()))))))) v ?Q"
  proof (cases "dm_get_paragraph_data D ?id")
    case (Inl e)
    then show ?thesis
      using err by (simp add: ensures_def obind_def on_documents_read [OF D(1)])
  next
    case (Inr ps)
    obtain d where k: "required_uuid ?id ''document_id'' = Inr d" and ps: "docs_of v s d = Some ps"
      using Inr unfolding dm_get_Inr by (auto simp: docs_of_eq [OF D(1)])
    then obtain cm where cm: "pm_get_document_chunks P ?id = Inr cm"
      using document_chunks_of [OF v(3,4) D k] by (auto simp: docs_of_eq [OF D(1)])
    have rd: "read_document v s document_id d ps cm"
      using k ps D(2) cm by (simp add: read_document_def)
    have r1: "on_documents s (oread (\<lambda>m. dm_get_paragraph_data m ?id)) v = (Inr ps, v)"
      and r2: "on_paragraphs s (oread (\<lambda>m. pm_get_document_chunks m ?id)) v = (Inr cm, v)"
      by (simp_all add: on_documents_read [OF D(1)] Inr on_paragraphs_read [OF D(2)] cm)
    show ?thesis
    proof (rule ensures_bind_eq, rule r1, rule ensures_bind_eq, rule r2,
        rule ensures_bind_keeps [OF keeps_open_collection], rule err, assumption,
        rule ensures_bind_keeps [OF keeps_outside], rule err, simp,
        rule ensures_bind_keeps [OF keeps_catch [OF keeps_outside]], rule err, simp)
      fix coll snaps deletion and t2 t3 t :: "'st wizard_world"
      assume "maps_of t2 = maps_of v" "maps_of t3 = maps_of t2" "maps_of t = maps_of t3"
      then have m: "maps_of t = maps_of v"
        by simp
      show "ensures (case deletion of
         Inl _ \<Rightarrow> recover_delete coll s document_id ps cm snaps ''storage_delete''
       | Inr _ \<Rightarrow>
           obind (ocatch (obind (on_paragraphs s (pm_delete_document ?id))
                    (\<lambda>_. on_documents s (dm_delete_document ?id)))) (\<lambda>r.
             case r of
               Inl _ \<Rightarrow> recover_delete coll s document_id ps cm snaps ''mapping_commit''
             | Inr _ \<Rightarrow> oret ())) t ?Q"
      proof (cases deletion)
        case (Inl e)
        show ?thesis
          unfolding Inl sum.case
          using recover_delete_spec [OF v(3,4,1) rd m, of coll snaps "''storage_delete''"] v agree_same
          by (elim ensures_conseq) (auto intro: same_maps_trans)
      next
        case (Inr rep)
        have t: "maps_inv t" "agree t" "opened s t" "same_maps w t" "same_maps v t"
          using keeps_maps(2-4) [OF m] keeps_maps(1) [OF m v(2)] keeps_maps(1) [OF m, of v] v by auto
        then have "docs_of t s d = Some ps"
          using ps by (simp add: same_maps_def)
        from delete_commit [OF t(1-3) k this] t(4) sc k show ?thesis
          by (auto simp: Inr ensures_def obind_def ocatch_def removed_from [OF t(4)])
      qed
    qed
  qed
qed

end
