(* ===== verification/Wizard_Save.thy ===== *)
theory Wizard_Save
  imports Wizard_Crud Model_Config
begin

text \<open>
  \<open>backend/wizard/save.py\<close> from \<open>_validated_processor_output\<close> on: the eight steps of a save and the
  compensation of a save that failed. The calls of \<open>wizard/diagnostics.py\<close> between the steps record counters,
  timings and samples and are left out.
\<close>

section \<open>What the processors return\<close>

fun string_items :: "pyval list \<Rightarrow> string list option" where
  "string_items [] = Some []"
| "string_items (PStr s # vs) = map_option ((#) s) (string_items vs)"
| "string_items (_ # vs) = None"

definition validated_processor_output :: "pyval \<Rightarrow> string \<Rightarrow> string \<Rightarrow> string list res" where
  "validated_processor_output value source_text processor =
     (case (case value of PList items \<Rightarrow> string_items items | _ \<Rightarrow> None) of
        None \<Rightarrow> Inl (TypeError (processor @ '' must return a list of strings''))
      | Some parts \<Rightarrow>
          if concat parts \<noteq> source_text
          then Inl (ValueError (processor @ '' must preserve its source text exactly''))
          else Inr parts)"

definition vector_item :: "pyval \<Rightarrow> real res" where
  "vector_item item =
     (case item of
        PBool _ \<Rightarrow> Inl (TypeError ''embedding vector must contain only numbers'')
      | _ \<Rightarrow>
          (case py_float_value item of
             Inl _ \<Rightarrow> Inl (TypeError ''embedding vector must contain only numbers'')
           | Inr (Fin x) \<Rightarrow> Inr x
           | Inr _ \<Rightarrow> Inl (ValueError ''embedding vector values must be finite'')))"

definition validated_vector :: "pyval \<Rightarrow> real list res" where
  "validated_vector value =
     (case sequence_items value of
        None \<Rightarrow> Inl (TypeError ''embedder must return a sequence of numbers'')
      | Some items \<Rightarrow>
          rbind (rmap vector_item items) (\<lambda>vector.
            if vector = [] then Inl (ValueError ''embedding vector must not be empty'') else Inr vector))"

text \<open>\<open>len({len(row) for row in rows}) == 1\<close>.\<close>

definition one_length :: "'a list list \<Rightarrow> bool" where
  "one_length rows \<longleftrightarrow> length (remdups (map length rows)) = 1"

definition validated_multi_vector :: "pyval \<Rightarrow> real list list res" where
  "validated_multi_vector value =
     (case sequence_items value of
        None \<Rightarrow> Inl (TypeError ''multi-vector provider must return a sequence of vectors'')
      | Some items \<Rightarrow>
          rbind (rmap validated_vector items) (\<lambda>rows.
            if rows = [] then Inl (ValueError ''multi-vector provider must not return an empty matrix'')
            else if \<not> one_length rows then Inl (ValueError ''multi-vector rows must have consistent dimensions'')
            else if int (length (hd rows)) \<noteq> lateon_dimension
            then Inl (ValueError ''LateOn multi-vector rows must have exactly 128 dimensions'')
            else Inr rows))"

definition batch_vectors ::
    "'st wizard_runtime \<Rightarrow> string list \<Rightarrow> ('st wizard_world, real list list list \<times> real list list) op" where
  "batch_vectors rt texts =
     (if texts = [] then oret ([], [])
      else
        obind (outside (rt_encode_documents rt texts)) (\<lambda>raw_multi.
        obind (olift (case sequence_items raw_multi of
            None \<Rightarrow> Inl (TypeError ''multi-vector provider must return a sequence of matrices'')
          | Some items \<Rightarrow>
              if length items \<noteq> length texts
              then Inl (ValueError ''multi-vector provider returned the wrong document count'')
              else rbind (rmap validated_multi_vector items) (\<lambda>multi.
                if \<not> one_length (concat multi)
                then Inl (ValueError ''document multi-vectors must have consistent dimensions'')
                else Inr multi))) (\<lambda>multi.
        obind (outside (rt_embed_many rt texts)) (\<lambda>raw_diversity.
        obind (olift (case sequence_items raw_diversity of
            None \<Rightarrow> Inl (TypeError ''embedder must return a sequence of vectors'')
          | Some items \<Rightarrow>
              if length items \<noteq> length texts
              then Inl (ValueError ''embedder returned the wrong number of vectors'')
              else rbind (rmap validated_vector items) (\<lambda>diversity.
                if \<not> one_length diversity
                then Inl (ValueError ''embedding vectors must have consistent dimensions'')
                else Inr diversity))) (\<lambda>diversity.
        oret (multi, diversity))))))"

text \<open>\<open>_new_chunk_uuid\<close>; the set it adds to is a list, returned with the new id in front.\<close>

definition new_chunk_uuid ::
    "'st wizard_runtime \<Rightarrow> string list \<Rightarrow> ('st wizard_world, string \<times> string list) op" where
  "new_chunk_uuid rt unavailable =
     obind (generated_uuid rt ''chunk_id'') (\<lambda>chunk_id.
       if chunk_id \<in> set unavailable
       then oraise (ValueError (''uuid_factory returned duplicate chunk_id '' @ py_repr chunk_id))
       else oret (chunk_id, chunk_id # unavailable))"

section \<open>Steps 4 to 6: staging\<close>

record staged_chunk =
  sc_id :: string
  sc_text :: string
  sc_late :: "real list list"
  sc_mmr :: "real list"

record paragraph_node =
  pn_text :: string
  pn_chunks :: "staged_chunk list"
  pn_old :: "int option"

primrec stage_chunks ::
    "'st wizard_runtime \<Rightarrow> string list \<Rightarrow> string list \<Rightarrow> ('st wizard_world, staged_chunk list \<times> string list) op" where
  "stage_chunks rt [] unavailable = oret ([], unavailable)"
| "stage_chunks rt (chunk_text # chunks) unavailable =
     (if strip chunk_text = [] then oraise (ValueError ''paragraph_chunker returned an empty chunk'')
      else
        obind (new_chunk_uuid rt unavailable) (\<lambda>(chunk_id, unavailable).
        obind (stage_chunks rt chunks unavailable) (\<lambda>(staged, unavailable).
        oret (\<lparr>sc_id = chunk_id, sc_text = chunk_text, sc_late = [], sc_mmr = []\<rparr> # staged, unavailable))))"

primrec stage_paragraphs ::
    "'st wizard_runtime \<Rightarrow> string list \<Rightarrow> string list \<Rightarrow> ('st wizard_world, paragraph_node list \<times> string list) op" where
  "stage_paragraphs rt [] unavailable = oret ([], unavailable)"
| "stage_paragraphs rt (paragraph_text # paragraphs) unavailable =
     obind (outside (rt_chunker rt paragraph_text)) (\<lambda>raw_chunks.
     obind (olift (validated_processor_output raw_chunks paragraph_text ''paragraph_chunker'')) (\<lambda>chunks.
     obind (stage_chunks rt chunks unavailable) (\<lambda>(staged, unavailable).
     obind (stage_paragraphs rt paragraphs unavailable) (\<lambda>(nodes, unavailable).
     oret (\<lparr>pn_text = paragraph_text, pn_chunks = staged, pn_old = None\<rparr> # nodes, unavailable)))))"

text \<open>
  The loop of steps 4 and 5: the paragraphs staged for each union under its first paragraph id. The chunks
  pending are those of the nodes, in order.
\<close>

primrec stage_unions ::
    "'st wizard_runtime \<Rightarrow> paragraph_union list \<Rightarrow> string list
     \<Rightarrow> ('st wizard_world, (int \<times> paragraph_node list) list) op" where
  "stage_unions rt [] unavailable = oret []"
| "stage_unions rt (u # unions) unavailable =
     obind (outside (rt_splitter rt (pu_text u))) (\<lambda>raw_split.
     obind (olift (validated_processor_output raw_split (pu_text u) ''paragraph_splitter'')) (\<lambda>split.
     obind (stage_paragraphs rt split unavailable) (\<lambda>(nodes, unavailable).
     obind (stage_unions rt unions unavailable) (\<lambda>staged.
     oret ((hd (pu_ids u), nodes) # staged)))))"

definition pending_chunks :: "(int \<times> paragraph_node list) list \<Rightarrow> staged_chunk list" where
  "pending_chunks staged = concat (map pn_chunks (concat (map snd staged)))"

definition with_vectors ::
    "(string, real list list \<times> real list) dict \<Rightarrow> paragraph_node \<Rightarrow> paragraph_node res" where
  "with_vectors vectors node =
     rbind (rmap (\<lambda>c. rbind (dict_get PStr vectors (sc_id c)) (\<lambda>(late, mmr).
                Inr (c\<lparr>sc_late := late, sc_mmr := mmr\<rparr>))) (pn_chunks node)) (\<lambda>chunks.
     Inr (node\<lparr>pn_chunks := chunks, pn_old := None\<rparr>))"

definition embed_staged ::
    "'st wizard_runtime \<Rightarrow> (int \<times> paragraph_node list) list
     \<Rightarrow> ('st wizard_world, (int \<times> paragraph_node list) list) op" where
  "embed_staged rt staged =
     (let pending = pending_chunks staged in
      obind (batch_vectors rt (map sc_text pending)) (\<lambda>(multi, diversity).
      if length multi \<noteq> length pending \<or> length diversity \<noteq> length pending
      then oraise (ValueError ''zip() arguments have different lengths'')
      else olift (let vectors = rev (zip (map sc_id pending) (zip multi diversity)) in
        rmap (\<lambda>(first, nodes). rbind (rmap (with_vectors vectors) nodes) (\<lambda>nodes'. Inr (first, nodes'))) staged)))"

text \<open>\<open>old_chunks_by_paragraph.get(i, [])\<close>.\<close>

definition chunks_get :: "chunk_lists \<Rightarrow> int \<Rightarrow> string list" where
  "chunks_get m i = (case map_of m i of None \<Rightarrow> [] | Some cs \<Rightarrow> cs)"

definition union_ids :: "paragraph_union list \<Rightarrow> int list" where
  "union_ids unions = concat (map pu_ids unions)"

text \<open>Step 6: the nodes an old paragraph becomes.\<close>

definition nodes_of ::
    "(int \<times> paragraph_node list) list \<Rightarrow> int list \<Rightarrow> chunk_lists \<Rightarrow> saved_paragraph \<Rightarrow> paragraph_node list" where
  "nodes_of staged ids old_chunks p =
     (case map_of (rev staged) (sp_id p) of
        Some nodes \<Rightarrow> nodes
      | None \<Rightarrow>
          if sp_id p \<notin> set ids
          then [\<lparr>pn_text = sp_text p,
                 pn_chunks = map (\<lambda>c. \<lparr>sc_id = c, sc_text = [], sc_late = [], sc_mmr = []\<rparr>)
                               (chunks_get old_chunks (sp_id p)),
                 pn_old = Some (sp_id p)\<rparr>]
          else [])"

definition renumbered_nodes ::
    "(int \<times> paragraph_node list) list \<Rightarrow> int list \<Rightarrow> chunk_lists \<Rightarrow> saved_paragraph list \<Rightarrow> string
     \<Rightarrow> paragraph_node list res" where
  "renumbered_nodes staged ids old_chunks old_paragraphs current_text =
     (let collected = concat (map (nodes_of staged ids old_chunks) old_paragraphs);
          nodes = (if collected = [] then [\<lparr>pn_text = [], pn_chunks = [], pn_old = None\<rparr>] else collected)
      in if concat (map pn_text nodes) \<noteq> current_text
         then Inl (RuntimeError ''renumbered paragraphs do not reconstruct current_text'')
         else Inr nodes)"

text \<open>\<open>for final_paragraph_id, node in enumerate(nodes, start=1)\<close> and what the loop fills.\<close>

definition enumerated :: "'a list \<Rightarrow> (int \<times> 'a) list" where
  "enumerated xs = zip [1..int (length xs)] xs"

definition final_paragraph_data :: "paragraph_node list \<Rightarrow> paragraphs" where
  "final_paragraph_data nodes = map (\<lambda>(i, node). (i, pn_text node)) (enumerated nodes)"

definition final_chunk_mappings :: "paragraph_node list \<Rightarrow> chunk_lists" where
  "final_chunk_mappings nodes = map (\<lambda>(i, node). (i, map sc_id (pn_chunks node))) (enumerated nodes)"

definition new_chunks :: "paragraph_node list \<Rightarrow> (int \<times> staged_chunk) list" where
  "new_chunks nodes =
     concat (map (\<lambda>(i, node). if pn_old node = None then map (\<lambda>c. (i, c)) (pn_chunks node) else [])
       (enumerated nodes))"

definition unmodified_updates :: "paragraph_node list \<Rightarrow> (string, int) dict" where
  "unmodified_updates nodes =
     fold (\<lambda>(c, i). AList.update c i)
       (concat (map (\<lambda>(i, node). if pn_old node \<noteq> None \<and> pn_old node \<noteq> Some i
                               then map (\<lambda>c. (sc_id c, i)) (pn_chunks node) else []) (enumerated nodes))) []"

section \<open>Compensation\<close>

text \<open>
  \<open>_recover_save\<close>: storage first, then the two maps, each step tried whatever the others did. It returns the
  errors and the chunks whose storage was not put back.
\<close>

definition tried ::
    "('st wizard_world, 'a) op \<Rightarrow> string list \<Rightarrow> ('st wizard_world, exc list \<times> string list) op" where
  "tried m ids =
     obind (ocatch m) (\<lambda>r. oret (case r of Inl e \<Rightarrow> ([e], ids) | Inr _ \<Rightarrow> ([], [])))"

definition recover_save ::
    "'st chunk_collection \<Rightarrow> scope \<Rightarrow> string \<Rightarrow> paragraphs \<Rightarrow> chunk_lists \<Rightarrow> chunk_record list
     \<Rightarrow> string list \<Rightarrow> string list \<Rightarrow> (string, int) dict \<Rightarrow> ('st wizard_world, exc list \<times> string list) op" where
  "recover_save collection s document_id paragraph_data chunk_mappings snapshots inserts retained old_paragraph =
     obind (if retained = [] then oret ([], [])
            else obind (olift (rmap (\<lambda>c. rbind (dict_get PStr old_paragraph c) (\<lambda>i. Inr (c, i))) (dedup retained))) (\<lambda>old_ids.
              tried (obind (outside (co_update_paragraph_ids collection old_ids))
                       (\<lambda>_. outside (co_verify_paragraph_ids collection old_ids))) retained)) (\<lambda>(errors1, ids1).
     obind (if inserts = [] then oret ([], [])
            else tried (outside (co_delete_chunks collection (dedup inserts))) inserts) (\<lambda>(errors2, ids2).
     obind (if snapshots = [] then oret ([], [])
            else tried (outside (co_restore_chunks collection snapshots)) (map ck_chunk snapshots)) (\<lambda>(errors3, ids3).
     obind (tried (on_paragraphs s (pm_replace_document (PStr document_id) (chunks_value chunk_mappings))) [])
       (\<lambda>(errors4, _).
     obind (tried (on_documents s (dm_restore_document (PStr document_id) (paragraph_value paragraph_data))) [])
       (\<lambda>(errors5, _).
     oret (errors1 @ errors2 @ errors3 @ errors4 @ errors5, dedup (ids1 @ ids2 @ ids3)))))))"

section \<open>The save\<close>

text \<open>The local variables of \<open>save_wizard\<close> that the handler of its exceptions reads.\<close>

record 'st save_state =
  ss_world :: "'st wizard_world"
  ss_stage :: string
  ss_attempted :: "string list"
  ss_inserted :: "string list"
  ss_retained :: "string list"
  ss_updated :: "string list"

definition on_world :: "('st wizard_world, 'a) op \<Rightarrow> ('st save_state, 'a) op" where
  "on_world = on_part ss_world (\<lambda>w s. s\<lparr>ss_world := w\<rparr>)"

definition at_stage :: "string \<Rightarrow> ('st save_state, unit) op" where
  "at_stage stage = omodify (\<lambda>s. s\<lparr>ss_stage := stage\<rparr>)"

text \<open>Steps 3 to 8, the body of the outer \<open>try\<close>.\<close>

definition step_3 :: "'st chunk_collection \<Rightarrow> string \<Rightarrow> paragraph_union list \<Rightarrow> ('st save_state, unit) op" where
  "step_3 collection document_id unions =
     ofor unions (\<lambda>u. obind (on_world (outside (co_delete_by_paragraphs collection document_id (pu_ids u)))) (\<lambda>_. oret ()))"

definition step_6 ::
    "scope \<Rightarrow> string \<Rightarrow> saved_paragraph list \<Rightarrow> chunk_lists \<Rightarrow> string \<Rightarrow> paragraph_union list
     \<Rightarrow> (int \<times> paragraph_node list) list \<Rightarrow> ('st save_state, paragraph_node list) op" where
  "step_6 s document_id old_paragraphs old_chunks current_text unions staged =
     obind (olift (renumbered_nodes staged (union_ids unions) old_chunks old_paragraphs current_text)) (\<lambda>nodes.
     obind (on_world (on_paragraphs s (oread (\<lambda>m.
              pm_validate_replacement m (PStr document_id) (chunks_value (final_chunk_mappings nodes)))))) (\<lambda>_.
     obind (on_world (on_documents s (oread (\<lambda>m.
              dm_validate_update m (PStr document_id) (paragraph_value (final_paragraph_data nodes)))))) (\<lambda>_.
     oret nodes)))"

definition step_7a :: "'st chunk_collection \<Rightarrow> string \<Rightarrow> (int \<times> staged_chunk) list \<Rightarrow> ('st save_state, unit) op" where
  "step_7a collection document_id chunks =
     ofor chunks (\<lambda>(i, c).
       obind (omodify (\<lambda>s. s\<lparr>ss_attempted := ss_attempted s @ [sc_id c]\<rparr>)) (\<lambda>_.
       obind (on_world (outside (co_insert_chunk collection document_id i (sc_id c) (sc_text c) (sc_late c) (sc_mmr c)))) (\<lambda>_.
       omodify (\<lambda>s. s\<lparr>ss_inserted := ss_inserted s @ [sc_id c]\<rparr>))))"

text \<open>\<open>except PartialParagraphUpdateError as exc: updated_retained_ids.extend(exc.completed_chunk_ids)\<close>.\<close>

definition completed_updates :: "exc \<Rightarrow> string list" where
  "completed_updates e = (case e of PartialParagraphUpdateError completed _ \<Rightarrow> completed | _ \<Rightarrow> [])"

definition step_7b :: "'st chunk_collection \<Rightarrow> (string, int) dict \<Rightarrow> ('st save_state, unit) op" where
  "step_7b collection updates =
     (if updates = [] then oret ()
      else
        obind (omodify (\<lambda>s. s\<lparr>ss_retained := ss_retained s @ dict_keys updates\<rparr>)) (\<lambda>_.
        obind (ocatch (
          obind (on_world (outside (co_update_paragraph_ids collection updates))) (\<lambda>_.
          obind (omodify (\<lambda>s. s\<lparr>ss_updated := ss_updated s @ dict_keys updates\<rparr>)) (\<lambda>_.
          on_world (outside (co_verify_paragraph_ids collection updates)))))) (\<lambda>r.
        case r of
          Inr _ \<Rightarrow> oret ()
        | Inl e \<Rightarrow> obind (omodify (\<lambda>s. s\<lparr>ss_updated := ss_updated s @ completed_updates e\<rparr>)) (\<lambda>_. oraise e))))"

definition step_8 :: "scope \<Rightarrow> string \<Rightarrow> paragraph_node list \<Rightarrow> ('st save_state, unit) op" where
  "step_8 s document_id nodes =
     obind (on_world (on_paragraphs s
       (pm_replace_document (PStr document_id) (chunks_value (final_chunk_mappings nodes))))) (\<lambda>_.
     on_world (on_documents s
       (dm_update_paragraphs (PStr document_id) (paragraph_value (final_paragraph_data nodes)))))"

definition save_steps ::
    "'st wizard_runtime \<Rightarrow> 'st chunk_collection \<Rightarrow> scope \<Rightarrow> string \<Rightarrow> string \<Rightarrow> saved_paragraph list
     \<Rightarrow> chunk_lists \<Rightarrow> paragraph_union list \<Rightarrow> ('st save_state, unit) op" where
  "save_steps rt collection s document_id current_text old_paragraphs old_chunks unions =
     obind (step_3 collection document_id unions) (\<lambda>_.
     obind (at_stage ''step_4'') (\<lambda>_.
     obind (on_world (stage_unions rt unions (concat (map snd old_chunks)))) (\<lambda>staged.
     obind (at_stage ''step_5'') (\<lambda>_.
     obind (on_world (embed_staged rt staged)) (\<lambda>staged.
     obind (at_stage ''step_6'') (\<lambda>_.
     obind (step_6 s document_id old_paragraphs old_chunks current_text unions staged) (\<lambda>nodes.
     obind (at_stage ''step_7a'') (\<lambda>_.
     obind (step_7a collection document_id (new_chunks nodes)) (\<lambda>_.
     obind (at_stage ''step_7b'') (\<lambda>_.
     obind (step_7b collection (unmodified_updates nodes)) (\<lambda>_.
     obind (at_stage ''step_8'') (\<lambda>_.
     step_8 s document_id nodes))))))))))))"

text \<open>The chunks of the unions, and the snapshots that have to match them, before anything is changed.\<close>

definition targeted_ids :: "chunk_lists \<Rightarrow> paragraph_union list \<Rightarrow> string list" where
  "targeted_ids old_chunks unions = concat (map (chunks_get old_chunks) (union_ids unions))"

primrec snapshot_unions ::
    "'st chunk_collection \<Rightarrow> string \<Rightarrow> paragraph_union list \<Rightarrow> ('st wizard_world, chunk_record list) op" where
  "snapshot_unions collection document_id [] = oret []"
| "snapshot_unions collection document_id (u # unions) =
     obind (outside (co_snapshot_by_paragraphs collection document_id (pu_ids u))) (\<lambda>records.
     obind (snapshot_unions collection document_id unions) (\<lambda>rest. oret (records @ rest)))"

definition take_snapshots ::
    "'st chunk_collection \<Rightarrow> string \<Rightarrow> chunk_lists \<Rightarrow> paragraph_union list
     \<Rightarrow> ('st wizard_world, chunk_record list) op" where
  "take_snapshots collection document_id old_chunks unions =
     obind (ocatch (obind (snapshot_unions collection document_id unions) (\<lambda>snapshots.
       if set (map ck_chunk snapshots) \<noteq> set (targeted_ids old_chunks unions)
       then oraise (RuntimeError ''storage snapshot does not match paragraph mappings'')
       else oret snapshots))) (\<lambda>r.
     case r of
       Inl _ \<Rightarrow> oraise (WizardSaveError ''step_3_snapshot'' [] [] (sort (remdups (targeted_ids old_chunks unions))))
     | Inr snapshots \<Rightarrow> oret snapshots)"

definition old_paragraph_by_chunk :: "chunk_lists \<Rightarrow> (string, int) dict" where
  "old_paragraph_by_chunk old_chunks = rev (concat (map (\<lambda>(i, cs). map (\<lambda>c. (c, i)) cs) old_chunks))"

text \<open>The outer \<open>try\<close> with its handler.\<close>

definition committed_or_recovered ::
    "'st wizard_runtime \<Rightarrow> 'st chunk_collection \<Rightarrow> scope \<Rightarrow> string \<Rightarrow> string \<Rightarrow> paragraphs
     \<Rightarrow> chunk_lists \<Rightarrow> paragraph_union list \<Rightarrow> chunk_record list \<Rightarrow> ('st wizard_world, unit) op" where
  "committed_or_recovered rt collection s document_id current_text paragraph_data old_chunks unions snapshots = (\<lambda>w.
     case save_steps rt collection s document_id current_text (saved_paragraphs paragraph_data) old_chunks unions
            \<lparr>ss_world = w, ss_stage = ''step_3'', ss_attempted = [], ss_inserted = [], ss_retained = [], ss_updated = []\<rparr> of
       (Inr _, st) \<Rightarrow> (Inr (), ss_world st)
     | (Inl e, st) \<Rightarrow>
         if e = CancelledError then (Inl e, ss_world st)
         else obind (recover_save collection s document_id paragraph_data old_chunks snapshots
                  (ss_attempted st) (ss_retained st) (old_paragraph_by_chunk old_chunks)) (\<lambda>(errors, unresolved).
           if errors \<noteq> []
           then oraise (WizardSaveRecoveryError (ss_stage st) (ss_inserted st) (ss_updated st)
                  (map ck_chunk snapshots) unresolved errors)
           else oraise (WizardSaveError (ss_stage st) (ss_inserted st) (ss_updated st) (map ck_chunk snapshots)))
         (ss_world st))"

text \<open>\<open>save_wizard\<close> once the text is known to have changed, and the whole of it.\<close>

definition save_changed ::
    "'st wizard_runtime \<Rightarrow> pyval \<Rightarrow> pyval \<Rightarrow> scope \<Rightarrow> string \<Rightarrow> string \<Rightarrow> paragraphs \<Rightarrow> int list
     \<Rightarrow> ('st wizard_world, unit) op" where
  "save_changed rt user_id collection_type s document_id current_text paragraph_data hinted =
     obind (olift (align_unions (saved_paragraphs paragraph_data) current_text hinted)) (\<lambda>unions.
     obind (on_paragraphs s (oread (\<lambda>m. pm_get_document_chunks m (PStr document_id)))) (\<lambda>old_chunks.
     obind (rt_open_collection rt user_id collection_type) (\<lambda>collection.
     obind (take_snapshots collection document_id old_chunks unions) (\<lambda>snapshots.
     committed_or_recovered rt collection s document_id current_text paragraph_data old_chunks unions snapshots))))"

definition save_wizard ::
    "'st wizard_runtime \<Rightarrow> pyval \<Rightarrow> string \<Rightarrow> pyval \<Rightarrow> pyval \<Rightarrow> pyval \<Rightarrow> ('st wizard_world, unit) op" where
  "save_wizard rt user_id document_id collection_type current modified_paragraph_ids =
     (case current of
        PStr current_text \<Rightarrow>
          obind (rt_open_maps rt user_id collection_type) (\<lambda>s.
          obind (on_documents s (oread (\<lambda>m. dm_get_paragraph_data m (PStr document_id)))) (\<lambda>paragraph_data.
          obind (olift (validated_modified_ids modified_paragraph_ids
                   (map sp_id (saved_paragraphs paragraph_data)))) (\<lambda>hinted.
          if current_text = concat (map sp_text (saved_paragraphs paragraph_data)) then oret ()
          else save_changed rt user_id collection_type s document_id current_text paragraph_data hinted)))
      | _ \<Rightarrow> oraise (TypeError ''current_text must be a string''))"

section \<open>What the steps leave alone\<close>

lemma keeps_prod_case [keeps_intros]: "(\<And>a b. keeps f (h a b)) \<Longrightarrow> keeps f (case p of (a, b) \<Rightarrow> h a b)"
  by (cases p) simp

lemma keeps_res_case [keeps_intros]:
  "(\<And>e. keeps f (g e)) \<Longrightarrow> (\<And>x. keeps f (h x)) \<Longrightarrow> keeps f (case r of Inl e \<Rightarrow> g e | Inr x \<Rightarrow> h x)"
  by (cases r) simp_all

lemma new_chunk_uuid_keeps [keeps_intros]: "keeps maps_of (new_chunk_uuid rt un)"
  unfolding new_chunk_uuid_def by (intro keeps_intros generated_uuid_keeps)

lemma batch_vectors_keeps [keeps_intros]: "keeps maps_of (batch_vectors rt ts)"
  unfolding batch_vectors_def by (intro keeps_intros)

lemma stage_chunks_keeps [keeps_intros]: "keeps maps_of (stage_chunks rt ts un)"
  by (induction ts arbitrary: un) (auto intro!: keeps_intros)

lemma stage_paragraphs_keeps [keeps_intros]: "keeps maps_of (stage_paragraphs rt ts un)"
  by (induction ts arbitrary: un) (auto intro!: keeps_intros)

lemma stage_unions_keeps [keeps_intros]: "keeps maps_of (stage_unions rt us un)"
  by (induction us arbitrary: un) (auto intro!: keeps_intros)

lemma embed_staged_keeps [keeps_intros]: "keeps maps_of (embed_staged rt staged)"
  unfolding embed_staged_def Let_def by (intro keeps_intros)

lemma snapshot_unions_keeps [keeps_intros]: "keeps maps_of (snapshot_unions coll d us)"
  by (induction us) (simp_all only: snapshot_unions.simps, (intro keeps_intros | assumption)+)

lemma take_snapshots_keeps [keeps_intros]: "keeps maps_of (take_snapshots coll d old us)"
  unfolding take_snapshots_def by (intro keeps_intros)

definition ss_view ::
    "'st save_state \<Rightarrow> ((scope, document_map) dict \<times> (scope, paragraph_map) dict) \<times> string list" where
  "ss_view st = (maps_of (ss_world st), ss_retained st)"

lemma keeps_on_world [keeps_intros]: "keeps maps_of m \<Longrightarrow> keeps ss_view (on_world m)"
  by (auto simp: keeps_def on_world_def on_part_def ss_view_def split: prod.splits)

lemma step_keeps [keeps_intros]:
  "keeps ss_view (at_stage stage)" "keeps ss_view (step_3 coll d us)" "keeps ss_view (step_7a coll d cs)"
  "keeps ss_view (step_6 s d ops old text us staged)"
  unfolding at_stage_def step_3_def step_7a_def step_6_def
  by (intro keeps_intros; simp add: ss_view_def)+

lemma step_7b_outcome:
  assumes "step_7b coll updates st = (r, t)"
  shows "maps_of (ss_world t) = maps_of (ss_world st)"
    "set (ss_retained t) \<subseteq> set (ss_retained st) \<union> fst ` set updates"
proof -
  let ?m = "obind (ocatch (
          obind (on_world (outside (co_update_paragraph_ids coll updates))) (\<lambda>_.
          obind (omodify (\<lambda>s. s\<lparr>ss_updated := ss_updated s @ dict_keys updates\<rparr>)) (\<lambda>_.
          on_world (outside (co_verify_paragraph_ids coll updates)))))) (\<lambda>r.
        case r of
          Inr _ \<Rightarrow> oret ()
        | Inl e \<Rightarrow> obind (omodify (\<lambda>s. s\<lparr>ss_updated := ss_updated s @ completed_updates e\<rparr>)) (\<lambda>_. oraise e))"
  let ?st = "st\<lparr>ss_retained := ss_retained st @ dict_keys updates\<rparr>"
  have "keeps ss_view ?m"
    by (intro keeps_intros; simp add: ss_view_def)
  moreover have "updates = [] \<and> t = st \<or> ?m ?st = (r, t)"
    using assms by (auto simp: step_7b_def obind_apply split: if_splits)
  ultimately have "t = st \<or> ss_view t = ss_view ?st"
    by (auto dest: keepsD)
  then show "maps_of (ss_world t) = maps_of (ss_world st)"
    "set (ss_retained t) \<subseteq> set (ss_retained st) \<union> fst ` set updates"
    by (auto simp: ss_view_def dict_keys_def)
qed

section \<open>The nodes of the new document\<close>

definition fresh_nodes :: "string list \<Rightarrow> paragraph_node list \<Rightarrow> bool" where
  "fresh_nodes unavailable nodes \<longleftrightarrow>
     (\<forall>n \<in> set nodes. pn_old n = None
        \<and> (\<forall>c \<in> set (pn_chunks n). is_canonical (sc_id c) \<and> sc_id c \<notin> set unavailable))"

lemma new_chunk_uuid_fresh:
  "new_chunk_uuid rt un w = (Inr (c, un'), t) \<Longrightarrow> is_canonical c \<and> c \<notin> set un \<and> un' = c # un"
  by (auto simp: new_chunk_uuid_def py_iff dest: generated_uuid_canonical split: if_splits)

lemma stage_chunks_fresh:
  "stage_chunks rt ts un w = (Inr (staged, un'), t) \<Longrightarrow>
   (\<forall>c \<in> set staged. is_canonical (sc_id c) \<and> sc_id c \<notin> set un) \<and> set un \<subseteq> set un'"
proof (induction ts arbitrary: un staged un' w t)
  case (Cons x ts)
  from Cons.prems obtain c u where a: "new_chunk_uuid rt un w = (Inr (c, c # un), u)" "is_canonical c" "c \<notin> set un"
    by (auto simp: py_iff split: if_splits dest: new_chunk_uuid_fresh)
  with Cons.prems obtain rest v where r: "stage_chunks rt ts (c # un) u = (Inr (rest, un'), v)"
    and s: "staged = \<lparr>sc_id = c, sc_text = x, sc_late = [], sc_mmr = []\<rparr> # rest"
    by (auto simp: py_iff split: if_splits)
  from Cons.IH [OF r] a s show ?case
    by auto
qed simp

lemma stage_paragraphs_fresh:
  "stage_paragraphs rt ts un w = (Inr (nodes, un'), t) \<Longrightarrow> fresh_nodes un nodes \<and> set un \<subseteq> set un'
     \<and> map pn_text nodes = ts"
proof (induction ts arbitrary: un nodes un' w t)
  case (Cons x ts)
  from Cons.prems obtain chunks staged u v un1 rest z where
    a: "stage_chunks rt chunks un u = (Inr (staged, un1), v)"
    and r: "stage_paragraphs rt ts un1 v = (Inr (rest, un'), z)"
    and n: "nodes = \<lparr>pn_text = x, pn_chunks = staged, pn_old = None\<rparr> # rest"
    by (auto simp: py_iff)
  from Cons.IH [OF r] stage_chunks_fresh [OF a] n show ?case
    by (auto simp: fresh_nodes_def)
qed (simp add: fresh_nodes_def)

lemma stage_unions_fresh:
  "stage_unions rt us un w = (Inr staged, t) \<Longrightarrow> (\<forall>p \<in> set staged. fresh_nodes un (snd p))
     \<and> map fst staged = map (\<lambda>u. hd (pu_ids u)) us"
proof (induction us arbitrary: un staged w t)
  case (Cons x us)
  from Cons.prems obtain split u v un1 nodes rest z where
    a: "stage_paragraphs rt split un u = (Inr (nodes, un1), v)"
    and r: "stage_unions rt us un1 v = (Inr rest, z)"
    and n: "staged = (hd (pu_ids x), nodes) # rest"
    by (auto simp: py_iff)
  from Cons.IH [OF r] stage_paragraphs_fresh [OF a] n show ?case
    by (auto simp: fresh_nodes_def)
qed simp

lemma with_vectors_same:
  "with_vectors vs n = Inr n' \<Longrightarrow>
   pn_text n' = pn_text n \<and> pn_old n' = None \<and> map sc_id (pn_chunks n') = map sc_id (pn_chunks n)"
proof -
  assume "with_vectors vs n = Inr n'"
  then obtain cs where cs: "rmap (\<lambda>c. rbind (dict_get PStr vs (sc_id c)) (\<lambda>(late, mmr).
        Inr (c\<lparr>sc_late := late, sc_mmr := mmr\<rparr>))) (pn_chunks n) = Inr cs"
    and n': "n' = n\<lparr>pn_chunks := cs, pn_old := None\<rparr>"
    by (auto simp: with_vectors_def rbind_Inr_iff)
  have "list_all2 (\<lambda>c c'. sc_id c' = sc_id c) (pn_chunks n) cs"
    using cs unfolding rmap_Inr_iff by (rule list_all2_mono) (auto simp: rbind_Inr_iff split: prod.splits)
  then have "map sc_id cs = map sc_id (pn_chunks n)"
    by (induction rule: list_all2_induct) auto
  with n' show ?thesis
    by simp
qed

lemma fresh_nodes_vectors:
  assumes "rmap (with_vectors vs) nodes = Inr nodes'"
  shows "fresh_nodes un nodes \<Longrightarrow> fresh_nodes un nodes'" "map pn_text nodes' = map pn_text nodes"
proof -
  have l: "list_all2 (\<lambda>n n'. with_vectors vs n = Inr n') nodes nodes'"
    using assms by (simp only: rmap_Inr_iff)
  then show "map pn_text nodes' = map pn_text nodes"
    by (induction rule: list_all2_induct) (auto dest: with_vectors_same)
  show "fresh_nodes un nodes \<Longrightarrow> fresh_nodes un nodes'"
    using l
  proof (induction rule: list_all2_induct)
    case (Cons n nodes n' nodes')
    note same = with_vectors_same [OF Cons(1)]
    have "sc_id ` set (pn_chunks n') = sc_id ` set (pn_chunks n)"
      using same by (metis set_map)
    then have "\<forall>c \<in> set (pn_chunks n'). is_canonical (sc_id c) \<and> sc_id c \<notin> set un"
      using Cons.prems unfolding fresh_nodes_def by (metis (no_types, lifting) image_iff list.set_intros(1))
    moreover have "fresh_nodes un nodes'"
      by (rule Cons.IH) (use Cons.prems in \<open>simp add: fresh_nodes_def\<close>)
    ultimately show ?case
      using same by (simp add: fresh_nodes_def)
  qed simp
qed

lemma embed_staged_fresh:
  assumes "embed_staged rt staged w = (Inr staged', t)" and "\<forall>p \<in> set staged. fresh_nodes un (snd p)"
  shows "\<forall>p \<in> set staged'. fresh_nodes un (snd p)"
proof
  fix p assume p: "p \<in> set staged'"
  from assms(1) obtain vs where r: "rmap (\<lambda>(first, nodes). rbind (rmap (with_vectors vs) nodes) (\<lambda>nodes'. Inr (first, nodes'))) staged = Inr staged'"
    by (auto simp: embed_staged_def Let_def py_iff split: if_splits)
  obtain q where "q \<in> set staged" "rbind (rmap (with_vectors vs) (snd q)) (\<lambda>nodes'. Inr (fst q, nodes')) = Inr p"
    using rmap_Inr_set [OF r p] by (auto split: prod.splits)
  with assms(2) fresh_nodes_vectors(1) show "fresh_nodes un (snd p)"
    by (auto simp: rbind_Inr_iff)
qed

text \<open>A node of the new document is new, with chunks nobody had, or an old paragraph with its own chunks.\<close>

definition node_ok :: "paragraphs \<Rightarrow> chunk_lists \<Rightarrow> paragraph_node \<Rightarrow> bool" where
  "node_ok ps old n \<longleftrightarrow>
     (pn_old n = None \<and> (\<forall>c \<in> set (pn_chunks n). is_canonical (sc_id c) \<and> sc_id c \<notin> set (concat (map snd old))))
     \<or> (\<exists>i. pn_old n = Some i \<and> map_of ps i = Some (pn_text n) \<and> map sc_id (pn_chunks n) = chunks_get old i)"

lemma saved_items: "map (\<lambda>p. (sp_id p, sp_text p)) (saved_from o1 ps) = ps"
  by (induction ps arbitrary: o1) auto

lemma saved_item: "p \<in> set (saved_paragraphs ps) \<Longrightarrow> (sp_id p, sp_text p) \<in> set ps"
  using saved_items [of 0 ps] unfolding saved_paragraphs_def by (metis (no_types, lifting) image_eqI set_map)

lemma renumbered_nodes_ok:
  assumes "renumbered_nodes staged ids old (saved_paragraphs ps) text = Inr nodes"
    and "\<forall>p \<in> set staged. fresh_nodes (concat (map snd old)) (snd p)" and "distinct (map fst ps)"
  shows "nodes \<noteq> []" "concat (map pn_text nodes) = text" "n \<in> set nodes \<Longrightarrow> node_ok ps old n"
proof -
  let ?c = "concat (map (nodes_of staged ids old) (saved_paragraphs ps))"
  have n: "nodes = (if ?c = [] then [\<lparr>pn_text = [], pn_chunks = [], pn_old = None\<rparr>] else ?c)"
    and t: "concat (map pn_text nodes) = text"
    using assms(1) by (auto simp: renumbered_nodes_def Let_def split: if_splits)
  show "nodes \<noteq> []" "concat (map pn_text nodes) = text"
    using n t by simp_all
  have "node_ok ps old n" if p: "p \<in> set (saved_paragraphs ps)" and nn: "n \<in> set (nodes_of staged ids old p)" for p n
  proof (cases "map_of (rev staged) (sp_id p)")
    case (Some ns)
    then have "(sp_id p, ns) \<in> set staged"
      by (metis map_of_SomeD set_rev)
    with assms(2) have "fresh_nodes (concat (map snd old)) ns"
      by fastforce
    with nn Some show ?thesis
      unfolding nodes_of_def by (simp add: fresh_nodes_def node_ok_def)
  next
    case None
    have "map_of ps (sp_id p) = Some (sp_text p)"
      using assms(3) saved_item [OF p] by simp
    with nn None show ?thesis
      by (auto simp: nodes_of_def node_ok_def o_def split: if_splits)
  qed
  with n show "n \<in> set nodes \<Longrightarrow> node_ok ps old n"
    by (auto split: if_splits simp: node_ok_def)
qed

lemma final_data_numbered: "final_paragraph_data nodes = numbered (map pn_text nodes)"
  by (simp add: final_paragraph_data_def enumerated_def numbered_def zip_map2)

lemma final_mappings_zip: "final_chunk_mappings nodes = zip [1..int (length nodes)] (map (\<lambda>n. map sc_id (pn_chunks n)) nodes)"
  by (simp add: final_chunk_mappings_def enumerated_def zip_map2)

lemma node_ok_canonical:
  assumes "node_ok ps old n" and "\<And>i cs. map_of old i = Some cs \<Longrightarrow> chunk_list_ok cs"
  shows "list_all is_canonical (map sc_id (pn_chunks n))"
proof -
  have "list_all is_canonical (chunks_get old i)" for i
    using assms(2) [of i] by (auto simp: chunks_get_def chunk_list_ok_def split: option.split)
  with assms(1) show ?thesis
    unfolding node_ok_def by (elim disjE exE conjE) (auto simp: list_all_iff)
qed

text \<open>Canonical chunk ids pass the validation of a replacement as they are.\<close>

lemma pm_validated_chunks_canonical:
  "list_all is_canonical cs \<Longrightarrow> pm_validated_chunks (PList (map PStr cs)) m = Inr cs' \<Longrightarrow> cs' = cs"
proof -
  assume "list_all is_canonical cs"
  then have "rmap (\<lambda>item. required_uuid item ''chunk_id'') (map PStr cs) = Inr cs"
    by (induction cs) (auto simp: required_uuid_of_canonical)
  then show "pm_validated_chunks (PList (map PStr cs)) m = Inr cs' \<Longrightarrow> cs' = cs"
    by (auto simp: pm_validated_chunks_def split: if_splits)
qed

lemma pm_replacement_items_canonical:
  assumes "\<forall>(i, cs) \<in> set ms. list_all is_canonical cs" and "distinct (map fst (acc @ ms))"
    and "pm_replacement_items acc seen (map (\<lambda>(i, cs). (PInt i, PList (map PStr cs))) ms) = Inr (v, seen')"
  shows "v = acc @ ms"
  using assms
proof (induction ms arbitrary: acc seen)
  case Nil
  then show ?case by simp
next
  case (Cons p ms)
  obtain i cs where p: "p = (i, cs)"
    by (cases p)
  obtain cs' where cs': "pm_validated_chunks (PList (map PStr cs)) ''each paragraph chunk collection must be a list'' = Inr cs'"
    and r: "pm_replacement_items (AList.update i cs' acc) (seen @ cs')
      (map (\<lambda>(i, cs). (PInt i, PList (map PStr cs))) ms) = Inr (v, seen')"
    using Cons.prems(3) by (auto simp: p rbind_Inr_iff positive_paragraph_id_Inr split: if_splits)
  have "cs' = cs"
    using pm_validated_chunks_canonical [OF _ cs'] Cons.prems(1) by (simp add: p)
  moreover have "i \<notin> fst ` set acc"
    using Cons.prems(2) by (auto simp: p)
  ultimately have r': "pm_replacement_items (acc @ [(i, cs)]) (seen @ cs')
      (map (\<lambda>(i, cs). (PInt i, PList (map PStr cs))) ms) = Inr (v, seen')"
    using r by (simp add: update_new)
  have "v = (acc @ [(i, cs)]) @ ms"
    by (rule Cons.IH [OF _ _ r']) (use Cons.prems in \<open>auto simp: p\<close>)
  then show ?case
    by (simp add: p)
qed

lemma pm_validated_replacement_canonical:
  assumes "\<forall>(i, cs) \<in> set ms. list_all is_canonical cs" "map fst ms = [1..int (length ms)]" "ms \<noteq> []"
    and "pm_validated_replacement P d (chunks_value ms) = Inr m"
  shows "m = ms"
proof -
  obtain v seen where v: "pm_replacement_items [] [] (map (\<lambda>(i, cs). (PInt i, PList (map PStr cs))) ms) = Inr (v, seen)"
    and m: "m = sort_key fst (if v = [] then [(1, [])] else v)"
    using assms(4) by (auto simp: pm_validated_replacement_def chunks_value_def rbind_Inr_iff split: if_splits)
  have "v = [] @ ms"
    by (rule pm_replacement_items_canonical [OF assms(1) _ v]) (simp add: assms(2))
  moreover have "sort_key fst ms = ms"
    by (rule sort_key_id_if_sorted) (simp add: assms(2))
  ultimately show ?thesis
    using m assms(3) by simp
qed

section \<open>The commit\<close>

lemma put_document:
  assumes inv: "maps_inv w" "agree w" and P: "map_of (ww_paragraphs w) s = Some P" and D: "map_of (ww_documents w) s = Some D"
    and k: "required_uuid v ''document_id'' = Inr d" and doc: "docs_of w s d \<noteq> None"
    and ts: "ts \<noteq> []" and ms: "map fst ms = [1..int (length ts)]"
    and val: "pm_validated_replacement P d (chunks_value ms) = Inr ms"
  shows "\<exists>u t. on_paragraphs s (pm_replace_document v (chunks_value ms)) w = (Inr (), u)
    \<and> on_documents s (dm_update_paragraphs v (paragraph_value (numbered ts))) u = (Inr (), t)
    \<and> maps_inv t \<and> agree t \<and> docs_of t = (docs_of w)(s := (docs_of w s)(d \<mapsto> numbered ts))
    \<and> chunks_of t = (chunks_of w)(s := (\<lambda>k. if fst k = d then map_of ms (snd k) else chunks_of w s k))"
proof -
  obtain P' where p: "pm_replace_document v (chunks_value ms) P = (Inr (), P')" "pm_inv P'"
    "map_of (pm_paragraphs P') = (\<lambda>k. if fst k = d then map_of ms (snd k) else map_of (pm_paragraphs P) k)"
    using pm_replace_document_spec [OF maps_invD(2) [OF inv(1) P] k val] by blast
  let ?D = "D\<lparr>dm_documents := AList.update d (numbered ts) (dm_documents D)\<rparr>"
  let ?u = "w\<lparr>ww_paragraphs := AList.update s P' (ww_paragraphs w)\<rparr>"
  let ?t = "?u\<lparr>ww_documents := AList.update s ?D (ww_documents ?u)\<rparr>"
  have c: "is_canonical d"
    using k by (rule required_uuid_canonical)
  have present: "map_of (dm_documents D) d \<noteq> None"
    using doc by (simp add: docs_of_eq [OF D])
  have "on_paragraphs s (pm_replace_document v (chunks_value ms)) w = (Inr (), ?u)"
    by (simp add: on_paragraphs_def P p(1))
  moreover have "on_documents s (dm_update_paragraphs v (paragraph_value (numbered ts))) ?u = (Inr (), ?t)"
    unfolding required_uuid_transfer(3) [OF k]
    by (simp add: on_documents_def D dm_update_value [OF c numbered_ok [OF ts] present])
  moreover have "maps_inv ?t"
    by (rule maps_inv_update(1) [OF maps_inv_update(2) [OF inv(1) p(2)]
          dm_inv_update [OF maps_invD(1) [OF inv(1) D] c numbered_ok [OF ts]]])
  moreover have dt: "docs_of ?t = (docs_of w)(s := (docs_of w s)(d \<mapsto> numbered ts))"
    unfolding views_frame docs_of_update docs_of_eq [OF D] by (simp add: update_conv')
  moreover have ct: "chunks_of ?t = (chunks_of w)(s := (\<lambda>k. if fst k = d then map_of ms (snd k) else chunks_of w s k))"
    unfolding views_frame chunks_of_update chunks_of_eq [OF P] p(3) ..
  moreover have "agree ?t"
  proof (rule agree_put [OF inv(2) _ dt ct])
    have "fst ` set (numbered ts) = fst ` set ms"
      unfolding set_map [symmetric] by (simp add: ms)
    then show "fst ` set (numbered ts) = {i. map_of ms i \<noteq> None}"
      by (auto simp: map_of_eq_None_iff)
  qed
  ultimately show ?thesis
    by blast
qed

text \<open>What a save that succeeds has done to the maps.\<close>

definition saved :: "scope \<Rightarrow> string \<Rightarrow> string \<Rightarrow> 'st wizard_world \<Rightarrow> 'st wizard_world \<Rightarrow> bool" where
  "saved s d text w t \<longleftrightarrow> (\<exists>ps ts ms. docs_of w s d = Some ps \<and> ts \<noteq> [] \<and> concat ts = text
     \<and> map fst ms = [1..int (length ts)]
     \<and> docs_of t = (docs_of w)(s := (docs_of w s)(d \<mapsto> numbered ts))
     \<and> chunks_of t = (chunks_of w)(s := (\<lambda>k. if fst k = d then map_of ms (snd k) else chunks_of w s k))
     \<and> (\<forall>i < length ts.
          (\<forall>c \<in> set (snd (ms ! i)). \<forall>j cs. chunks_of w s (d, j) = Some cs \<longrightarrow> c \<notin> set cs)
          \<or> (\<exists>j. map_of ps j = Some (ts ! i) \<and> chunks_of w s (d, j) = Some (snd (ms ! i)))))"

lemma ensures_on_world: "ensures m (ss_world st) (\<lambda>r w. Q r (st\<lparr>ss_world := w\<rparr>)) \<Longrightarrow> ensures (on_world m) st Q"
  by (auto simp: ensures_def on_world_def on_part_def split: prod.splits)

lemma step_6_result:
  assumes "step_6 s document_id ops old text us staged st = (Inr nodes, st')"
    and P: "map_of (ww_paragraphs (ss_world st)) s = Some P" and D: "map_of (ww_documents (ss_world st)) s = Some D"
  shows "renumbered_nodes staged (union_ids us) old ops text = Inr nodes"
    "pm_validate_replacement P (PStr document_id) (chunks_value (final_chunk_mappings nodes)) = Inr ()"
    "st' = st"
  using assms(1)
  by (auto simp: step_6_def py_iff on_world_def on_part_def on_paragraphs_read [OF P] on_documents_read [OF D]
      split: prod.splits)

lemma step_8_commits:
  assumes inv: "maps_inv w" "agree w" and o: "opened s w" and rd: "read_document w s document_id d ps old"
    and st: "maps_of (ss_world st) = maps_of w"
    and P: "map_of (ww_paragraphs w) s = Some P"
    and ren: "renumbered_nodes staged ids old (saved_paragraphs ps) text = Inr nodes"
    and fresh: "\<forall>p \<in> set staged. fresh_nodes (concat (map snd old)) (snd p)"
    and val: "pm_validate_replacement P (PStr document_id) (chunks_value (final_chunk_mappings nodes)) = Inr ()"
  shows "\<exists>t. step_8 s document_id nodes st = (Inr (), t) \<and> maps_inv (ss_world t) \<and> agree (ss_world t)
    \<and> saved s d text w (ss_world t)"
proof -
  let ?v = "ss_world st"
  have v: "maps_inv ?v" "agree ?v" "opened s ?v" "same_maps w ?v"
    using keeps_maps(2-4) [OF st] keeps_maps(1) [OF st, of w] inv o by auto
  have P': "map_of (ww_paragraphs ?v) s = Some P"
    using P st by (simp add: maps_of_def)
  obtain D where D: "map_of (ww_documents ?v) s = Some D"
    using v(3) by (rule openedE)
  note R = read_document_chunks [OF inv rd o]
  have k: "required_uuid (PStr document_id) ''document_id'' = Inr d" and doc: "docs_of w s d = Some ps"
    using rd by (simp_all add: read_document_def)
  have doc': "docs_of ?v s d \<noteq> None"
    using doc v(4) by (simp add: same_maps_def)
  note N = renumbered_nodes_ok [OF ren fresh paragraphs_ok_keys(1) [OF R(2)]]
  let ?ts = "map pn_text nodes" and ?ms = "final_chunk_mappings nodes"
  have ts: "?ts \<noteq> []"
    using N(1) by simp
  have len: "length ?ms = length nodes" and fsts: "map fst ?ms = [1..int (length ?ts)]"
    by (simp_all add: final_mappings_zip)
  have snds: "map snd ?ms = map (\<lambda>n. map sc_id (pn_chunks n)) nodes"
    by (simp add: final_mappings_zip)
  have ok: "chunk_list_ok cs" if "map_of old i = Some cs" for i cs
    using that R(6) [of i] pm_invD(4) [OF maps_invD(2) [OF inv(1) P]] by (simp add: chunks_of_eq [OF P])
  have can: "\<forall>(i, cs) \<in> set ?ms. list_all is_canonical cs"
  proof (clarify)
    fix i cs assume "(i, cs) \<in> set ?ms"
    then have "cs \<in> set (map snd ?ms)"
      by force
    then obtain n where "n \<in> set nodes" "cs = map sc_id (pn_chunks n)"
      unfolding snds by auto
    with node_ok_canonical [OF N(3) ok] show "list_all is_canonical cs"
      by simp
  qed
  obtain m where m: "pm_validated_replacement P d (chunks_value ?ms) = Inr m"
    using val k by (auto simp: pm_validate_replacement_def rbind_Inr_iff)
  have "?ms \<noteq> []"
    using N(1) len by auto
  with can fsts len m have val': "pm_validated_replacement P d (chunks_value ?ms) = Inr ?ms"
    using pm_validated_replacement_canonical [OF can _ _ m] by simp
  obtain u t where run: "on_paragraphs s (pm_replace_document (PStr document_id) (chunks_value ?ms)) ?v = (Inr (), u)"
    "on_documents s (dm_update_paragraphs (PStr document_id) (paragraph_value (numbered ?ts))) u = (Inr (), t)"
    and t: "maps_inv t" "agree t" "docs_of t = (docs_of ?v)(s := (docs_of ?v s)(d \<mapsto> numbered ?ts))"
    "chunks_of t = (chunks_of ?v)(s := (\<lambda>k. if fst k = d then map_of ?ms (snd k) else chunks_of ?v s k))"
    using put_document [OF v(1,2) P' D k doc' ts fsts val'] by blast
  have step: "step_8 s document_id nodes st = (Inr (), st\<lparr>ss_world := t\<rparr>)"
    using run by (simp add: step_8_def obind_def on_world_def on_part_def final_data_numbered)
  have old_chunks: "map_of old j = chunks_of w s (d, j)" for j
    by (rule R(6))
  have "(\<forall>c \<in> set (snd (?ms ! i)). \<forall>j cs. chunks_of w s (d, j) = Some cs \<longrightarrow> c \<notin> set cs)
      \<or> (\<exists>j. map_of ps j = Some (?ts ! i) \<and> chunks_of w s (d, j) = Some (snd (?ms ! i)))"
    if i: "i < length ?ts" for i
  proof -
    have mi: "snd (?ms ! i) = map sc_id (pn_chunks (nodes ! i))"
      using snds i len by (metis length_map nth_map)
    have "node_ok ps old (nodes ! i)"
      using N(3) i by simp
    then show ?thesis
      unfolding node_ok_def
    proof (elim disjE exE conjE)
      assume f: "\<forall>c \<in> set (pn_chunks (nodes ! i)). is_canonical (sc_id c) \<and> sc_id c \<notin> set (concat (map snd old))"
      have "c \<notin> set cs" if "c \<in> set (snd (?ms ! i))" "chunks_of w s (d, j) = Some cs" for c j cs
      proof
        assume "c \<in> set cs"
        moreover have "(j, cs) \<in> set old"
          using that(2) old_chunks [of j] by (simp add: map_of_SomeD)
        ultimately have "c \<in> set (concat (map snd old))"
          by force
        with f that(1) mi show False
          by auto
      qed
      then show ?thesis
        by blast
    next
      fix j assume j: "map_of ps j = Some (pn_text (nodes ! i))" "map sc_id (pn_chunks (nodes ! i)) = chunks_get old j"
      have "j \<in> set (map fst old)"
        using j(1) R(5) by (metis map_of_eq_None_iff option.distinct(1) set_map)
      then have "map_of old j = Some (chunks_get old j)"
        by (auto simp: chunks_get_def map_of_eq_None_iff split: option.split)
      then have "chunks_of w s (d, j) = Some (snd (?ms ! i))"
        using old_chunks [of j] mi j(2) by simp
      with j(1) i show ?thesis
        by (intro disjI2 exI [of _ j]) simp
    qed
  qed
  then have "saved s d text w t"
    unfolding saved_def using doc ts N(2) fsts t(3,4) v(4)
    by (intro exI [of _ ps] exI [of _ ?ts] exI [of _ ?ms]) (simp add: same_maps_def cong: if_cong)
  with step t(1,2) show ?thesis
    by (intro exI [of _ "st\<lparr>ss_world := t\<rparr>"]) simp
qed

lemma update_keys: "fst ` set (AList.update k v d) = insert k (fst ` set d)"
  by (induction d) auto

lemma update_fold_keys: "fst ` set (fold (\<lambda>(c, i). AList.update c i) us d) = fst ` set us \<union> fst ` set d"
  by (induction us arbitrary: d) (auto simp: update_keys split: prod.splits)

lemma unmodified_keys:
  assumes "\<And>n. n \<in> set nodes \<Longrightarrow> node_ok ps old n"
  shows "fst ` set (unmodified_updates nodes) \<subseteq> set (concat (map snd old))"
proof
  fix c assume "c \<in> fst ` set (unmodified_updates nodes)"
  then obtain i n where n: "(i, n) \<in> set (enumerated nodes)" "pn_old n \<noteq> None" "c \<in> sc_id ` set (pn_chunks n)"
    unfolding unmodified_updates_def update_fold_keys by (auto split: if_splits)
  have "n \<in> set nodes"
    using n(1) unfolding enumerated_def by (rule set_zip_rightD)
  from assms [OF this] n(2) obtain j where "map sc_id (pn_chunks n) = chunks_get old j"
    unfolding node_ok_def by auto
  then have "c \<in> set (chunks_get old j)"
    using n(3) by (metis set_map)
  then show "c \<in> set (concat (map snd old))"
    by (cases "map_of old j") (force simp: chunks_get_def dest: map_of_SomeD)+
qed

lemma ensures_bind_view:
  assumes "keeps ss_view m" and "\<And>e t. ss_view t = ss_view s \<Longrightarrow> Q (Inl e) t"
    and "\<And>x t. m s = (Inr x, t) \<Longrightarrow> ss_view t = ss_view s \<Longrightarrow> ensures (g x) t Q"
  shows "ensures (obind m g) s Q"
  using assms(1) by (rule ensures_bind_keeps) (use assms(2,3) in blast)+

lemma save_steps_spec:
  fixes w :: "'st wizard_world"
  assumes inv: "maps_inv w" "agree w" and o: "opened s w" and rd: "read_document w s document_id d ps old"
    and P: "map_of (ww_paragraphs w) s = Some P"
    and st: "ss_view st = (maps_of w, [])"
  shows "ensures (save_steps rt coll s document_id text (saved_paragraphs ps) old us) st (\<lambda>r t.
    case r of
      Inl e \<Rightarrow> maps_of (ss_world t) = maps_of w \<and> set (ss_retained t) \<subseteq> set (concat (map snd old))
    | Inr _ \<Rightarrow> maps_inv (ss_world t) \<and> agree (ss_world t) \<and> saved s d text w (ss_world t))"
    (is "ensures _ _ ?Q")
proof -
  have err: "?Q (Inl e) t" if "ss_view t = (maps_of w, [])" for e and t :: "'st save_state"
    using that by (simp add: ss_view_def)
  have R: "distinct (map fst ps)"
    by (rule paragraphs_ok_keys(1) [OF read_document_chunks(2) [OF inv rd o]])
  have commit: "ensures (obind (step_7b coll (unmodified_updates nodes))
       (\<lambda>_. obind (at_stage ''step_8'') (\<lambda>_. step_8 s document_id nodes))) sa ?Q"
    if un: "stage_unions rt us (concat (map snd old)) w1 = (Inr staged0, w2)"
      and em: "embed_staged rt staged0 w3 = (Inr staged, w4)"
      and s6: "step_6 s document_id (saved_paragraphs ps) old text us staged s5 = (Inr nodes, s6)"
      and v5: "ss_view s5 = (maps_of w, [])" and va: "ss_view sa = (maps_of w, [])"
    for w1 w2 w3 w4 :: "'st wizard_world" and staged0 staged nodes and s5 s6 sa :: "'st save_state"
  proof -
    have "map_of (ww_paragraphs (ss_world s5)) s = Some P"
      using v5 P by (simp add: ss_view_def maps_of_def)
    moreover obtain D where "map_of (ww_documents (ss_world s5)) s = Some D"
      using v5 o by (auto simp: ss_view_def maps_of_def opened_def)
    ultimately have ren: "renumbered_nodes staged (union_ids us) old (saved_paragraphs ps) text = Inr nodes"
      and val: "pm_validate_replacement P (PStr document_id) (chunks_value (final_chunk_mappings nodes)) = Inr ()"
      using step_6_result(1,2) [OF s6] by blast+
    have fresh: "\<forall>p \<in> set staged. fresh_nodes (concat (map snd old)) (snd p)"
      by (rule embed_staged_fresh [OF em]) (use stage_unions_fresh [OF un] in blast)
    have keys: "fst ` set (unmodified_updates nodes) \<subseteq> set (concat (map snd old))"
      by (rule unmodified_keys) (rule renumbered_nodes_ok(3) [OF ren fresh R])
    show ?thesis
    proof (intro ensures_bind ensures_I, goal_cases)
      case (1 r t)
      have m: "maps_of (ss_world t) = maps_of w" "set (ss_retained t) \<subseteq> set (concat (map snd old))"
        using step_7b_outcome [OF 1] va keys by (auto simp: ss_view_def)
      show ?case
      proof (cases r)
        case (Inl e)
        with m show ?thesis by simp
      next
        case (Inr u)
        have "maps_of (ss_world (t\<lparr>ss_stage := ''step_8''\<rparr>)) = maps_of w"
          using m(1) by simp
        from step_8_commits [OF inv o rd this P ren fresh val] Inr show ?thesis
          by (auto simp: ensures_def obind_def at_stage_def)
      qed
    qed
  qed
  show ?thesis
    unfolding save_steps_def
    apply (rule ensures_bind_view [OF step_keeps(2)], rule err, simp add: st)
    apply (rule ensures_bind_view [OF step_keeps(1)], rule err, simp add: st)
    apply (rule ensures_bind_view [OF keeps_on_world [OF stage_unions_keeps]], rule err, simp add: st)
    apply (rule ensures_bind_view [OF step_keeps(1)], rule err, simp add: st)
    apply (rule ensures_bind_view [OF keeps_on_world [OF embed_staged_keeps]], rule err, simp add: st)
    apply (rule ensures_bind_view [OF step_keeps(1)], rule err, simp add: st)
    apply (rule ensures_bind_view [OF step_keeps(4)], rule err, simp add: st)
    apply (rule ensures_bind_view [OF step_keeps(1)], rule err, simp add: st)
    apply (rule ensures_bind_view [OF step_keeps(3)], rule err, simp add: st)
    apply (rule ensures_bind_view [OF step_keeps(1)], rule err, simp add: st)
    subgoal premises prems for x1 s1 x2 s2 staged0 s3 x4 s4 staged s5 x6 s6 nodes s7 x8 s8 x9 s9 xa sa
    proof -
      obtain w1 w2 where un: "stage_unions rt us (concat (map snd old)) w1 = (Inr staged0, w2)"
        using prems(5) by (auto simp: on_world_def on_part_def split: prod.splits)
      obtain w3 w4 where em: "embed_staged rt staged0 w3 = (Inr staged, w4)"
        using prems(9) by (auto simp: on_world_def on_part_def split: prod.splits)
      show ?thesis
        by (rule commit [OF un em prems(13)]) (use prems st in simp_all)
    qed
    done
qed

section \<open>Compensation and the whole save\<close>

lemma tried_keeps [keeps_intros]: "keeps maps_of m \<Longrightarrow> keeps maps_of (tried m ids)"
  unfolding tried_def by (intro keeps_intros)

lemma tried_error: "tried m ids w = (Inl e, t) \<Longrightarrow> e = CancelledError"
  by (auto simp: tried_def py_iff ocatch_iff)

lemma tried_ok: "m w = (Inr x, t) \<Longrightarrow> tried m ids w = (Inr ([], []), t)"
  by (simp add: tried_def obind_def ocatch_def)

lemma recover_save_spec:
  fixes w :: "'st wizard_world"
  assumes inv: "maps_inv w" "agree w" and o: "opened s w" and rd: "read_document w s document_id d ps old"
    and v: "maps_of v = maps_of w" and ret: "set retained \<subseteq> fst ` set old_paragraph"
  shows "ensures (recover_save coll s document_id ps old snaps inserts retained old_paragraph) v (\<lambda>r t.
    maps_inv t \<and> same_maps w t \<and> (r = Inl CancelledError \<or> (\<exists>x. r = Inr x)))" (is "ensures _ _ ?Q")
proof -
  have err: "?Q (Inl CancelledError) t" if "maps_of t = maps_of w" for t :: "'st wizard_world"
    using keeps_maps(1) [OF that, of w] keeps_maps(2) [OF that] inv by simp
  have known: "\<exists>ids. rmap (\<lambda>c. rbind (dict_get PStr old_paragraph c) (\<lambda>i. Inr (c, i))) (dedup retained) = Inr ids"
  proof -
    have "rmap (\<lambda>c. rbind (dict_get PStr old_paragraph c) (\<lambda>i. Inr (c, i))) (dedup retained)
        = Inr (map (\<lambda>c. (c, the (map_of old_paragraph c))) (dedup retained))"
    proof (rule rmap_all_Inr)
      fix c assume "c \<in> set (dedup retained)"
      then have "map_of old_paragraph c \<noteq> None"
        using ret by (auto simp: map_of_eq_None_iff)
      then show "rbind (dict_get PStr old_paragraph c) (\<lambda>i. Inr (c, i)) = Inr (c, the (map_of old_paragraph c))"
        by (auto simp: dict_get_def)
    qed
    then show ?thesis by blast
  qed
  show ?thesis
    unfolding recover_save_def
  proof (rule ensures_bind_keeps [where f = maps_of], goal_cases)
    case 1
    show ?case by (intro keeps_intros)
  next
    case (2 e t)
    obtain ids where "rmap (\<lambda>c. rbind (dict_get PStr old_paragraph c) (\<lambda>i. Inr (c, i))) (dedup retained) = Inr ids"
      using known by blast
    with 2 have "e = CancelledError"
      by (auto simp: obind_def split: if_splits dest: tried_error)
    with 2 v err show ?case by simp
  next
    case (3 x t)
    note t = 3(2)
    obtain e1 i1 where x: "x = (e1, i1)" by (cases x)
    show ?case
      unfolding x prod.case
    proof (rule ensures_bind_keeps [where f = maps_of], goal_cases)
      case 1
      show ?case by (intro keeps_intros)
    next
      case (2 e t')
      then have "e = CancelledError"
        by (auto split: if_splits dest: tried_error)
      with 2 t v err show ?case by simp
    next
      case (3 y t')
      note t' = 3(2)
      obtain e2 i2 where y: "y = (e2, i2)" by (cases y)
      show ?case
        unfolding y prod.case
      proof (rule ensures_bind_keeps [where f = maps_of], goal_cases)
        case 1
        show ?case by (intro keeps_intros)
      next
        case (2 e u)
        then have "e = CancelledError"
          by (auto split: if_splits dest: tried_error)
        with 2 t t' v err show ?case by simp
      next
        case (3 z u)
        obtain e3 i3 where z: "z = (e3, i3)" by (cases z)
        have m: "maps_of u = maps_of w"
          using 3(2) t t' v by simp
        have "maps_inv u" "opened s u" "only_at s d w u"
          using keeps_maps(1) [OF m, of w] keeps_maps(2,4) [OF m] inv o by (simp_all add: only_at_refl)
        from restore_maps [OF inv o rd this] obtain q q' where
          "on_paragraphs s (pm_replace_document (PStr document_id) (chunks_value old)) u = (Inr (), q)"
          "on_documents s (dm_restore_document (PStr document_id) (paragraph_value ps)) q = (Inr (), q')"
          and "same_maps w q'" "maps_inv q'"
          by blast
        then show ?case
          by (simp add: z ensures_def obind_def tried_ok)
      qed
    qed
  qed
qed

lemma old_paragraph_keys: "fst ` set (old_paragraph_by_chunk old) = set (concat (map snd old))"
  by (force simp: old_paragraph_by_chunk_def)

definition save_outcome :: "exc \<Rightarrow> bool" where
  "save_outcome e \<longleftrightarrow> e = CancelledError
     \<or> (\<exists>stage ins upd aff. e = WizardSaveError stage ins upd aff)
     \<or> (\<exists>stage ins upd aff un es. e = WizardSaveRecoveryError stage ins upd aff un es \<and> es \<noteq> [])"

lemma committed_or_recovered_spec:
  fixes w :: "'st wizard_world"
  assumes inv: "maps_inv w" "agree w" and o: "opened s w" and rd: "read_document w s document_id d ps old"
  shows "ensures (committed_or_recovered rt coll s document_id text ps old us snaps) w (\<lambda>r t.
    maps_inv t \<and> agree t \<and> (\<forall>e. r = Inl e \<longrightarrow> same_maps w t \<and> save_outcome e)
    \<and> (\<forall>x. r = Inr x \<longrightarrow> saved s d text w t))" (is "ensures _ _ ?Q")
proof -
  obtain P where P: "map_of (ww_paragraphs w) s = Some P"
    using o by (rule openedE)
  let ?st = "\<lparr>ss_world = w, ss_stage = ''step_3'', ss_attempted = [], ss_inserted = [], ss_retained = [], ss_updated = []\<rparr>"
  obtain r t where run: "save_steps rt coll s document_id text (saved_paragraphs ps) old us ?st = (r, t)"
    by fastforce
  have "ss_view ?st = (maps_of w, [])"
    by (simp add: ss_view_def)
  note S = ensuresD [OF save_steps_spec [OF inv o rd P this] run]
  show ?thesis
  proof (cases r)
    case (Inr u)
    with S run show ?thesis
      by (simp add: committed_or_recovered_def ensures_def)
  next
    case (Inl e)
    have m: "maps_of (ss_world t) = maps_of w" and ret: "set (ss_retained t) \<subseteq> fst ` set (old_paragraph_by_chunk old)"
      using S Inl unfolding old_paragraph_keys by simp_all
    show ?thesis
    proof (cases "e = CancelledError")
      case True
      with keeps_maps(1) [OF m, of w] keeps_maps(2,3) [OF m] inv run Inl show ?thesis
        by (simp add: committed_or_recovered_def ensures_def save_outcome_def)
    next
      case False
      obtain q v where rec: "recover_save coll s document_id ps old snaps (ss_attempted t) (ss_retained t)
          (old_paragraph_by_chunk old) (ss_world t) = (q, v)"
        by fastforce
      note Q = ensuresD [OF recover_save_spec [OF inv o rd m ret] rec]
      have "agree v"
        using Q inv(2) agree_same by blast
      show ?thesis
      proof (cases q)
        case (Inl e')
        with Q \<open>agree v\<close> run \<open>r = Inl e\<close> False rec show ?thesis
          by (simp add: committed_or_recovered_def ensures_def obind_def save_outcome_def)
      next
        case (Inr x)
        with Q \<open>agree v\<close> run \<open>r = Inl e\<close> False rec show ?thesis
          by (cases x) (simp add: committed_or_recovered_def ensures_def obind_def save_outcome_def)
      qed
    qed
  qed
qed

lemma saved_same: "same_maps w t \<Longrightarrow> saved s d text t t' = saved s d text w t'"
  by (simp add: saved_def same_maps_def cong: if_cong)

lemma save_changed_spec:
  fixes w :: "'st wizard_world"
  assumes inv: "maps_inv w" "agree w" and o: "opened s w"
    and k: "required_uuid (PStr document_id) ''document_id'' = Inr d" and ps: "docs_of w s d = Some ps"
  shows "ensures (save_changed rt u c s document_id text ps hinted) w (\<lambda>r t. maps_inv t \<and> agree t
    \<and> (\<forall>e. r = Inl e \<longrightarrow> same_maps w t) \<and> (\<forall>x. r = Inr x \<longrightarrow> saved s d text w t))" (is "ensures _ _ ?Q")
proof -
  obtain D P where D: "map_of (ww_documents w) s = Some D" "map_of (ww_paragraphs w) s = Some P"
    using o by (rule openedE)
  obtain old where old: "pm_get_document_chunks P (PStr document_id) = Inr old"
    using document_chunks_of [OF inv D k] ps by (auto simp: docs_of_eq [OF D(1)])
  have r: "on_paragraphs s (oread (\<lambda>m. pm_get_document_chunks m (PStr document_id))) w = (Inr old, w)"
    by (simp add: on_paragraphs_read [OF D(2)] old)
  have err: "?Q (Inl e) t" if "maps_of t = maps_of w" for e and t :: "'st wizard_world"
    using keeps_maps(1) [OF that, of w] keeps_maps(2,3) [OF that] inv by simp
  show ?thesis
  proof (cases "align_unions (saved_paragraphs ps) text hinted")
    case (Inl e)
    then show ?thesis
      using inv by (simp add: save_changed_def ensures_def obind_def)
  next
    case (Inr us)
    have a: "olift (align_unions (saved_paragraphs ps) text hinted) w = (Inr us, w)"
      using Inr by simp
    show ?thesis
      unfolding save_changed_def
    proof (rule ensures_bind_eq, rule a, rule ensures_bind_eq, rule r,
        rule ensures_bind_keeps [OF keeps_open_collection], rule err, assumption,
        rule ensures_bind_keeps [OF take_snapshots_keeps], rule err, simp)
      fix coll snaps and t2 t :: "'st wizard_world"
      assume "maps_of t2 = maps_of w" "maps_of t = maps_of t2"
      then have m: "maps_of t = maps_of w"
        by simp
      have t: "maps_inv t" "agree t" "opened s t" "same_maps w t"
        using keeps_maps(1) [OF m, of w] keeps_maps(2-4) [OF m] inv o by auto
      have rd: "read_document t s document_id d ps old"
        using k ps D(2) old t(4) m by (simp add: read_document_def same_maps_def maps_of_def)
      show "ensures (committed_or_recovered rt coll s document_id text ps old us snaps) t ?Q"
        by (rule ensures_conseq [OF committed_or_recovered_spec [OF t(1-3) rd]])
          (use t(4) saved_same [OF t(4)] in \<open>auto intro: same_maps_trans\<close>)
    qed
  qed
qed

lemma saved_text: "concat (map sp_text (saved_paragraphs ps)) = concat (map snd ps)"
  using arg_cong [OF saved_items [of 0 ps], of "map snd"] by (simp add: saved_paragraphs_def o_def)

lemma save_wizard_spec:
  fixes w :: "'st wizard_world"
  assumes inv: "maps_inv w" "agree w"
  shows "ensures (save_wizard rt u document_id c current hints) w (\<lambda>r t. maps_inv t \<and> agree t
    \<and> (\<forall>e. r = Inl e \<longrightarrow> same_maps w t)
    \<and> (\<forall>x. r = Inr x \<longrightarrow> (\<exists>s d text. rt_scope rt u c = Inr s \<and> current = PStr text
         \<and> required_uuid (PStr document_id) ''document_id'' = Inr d
         \<and> (saved s d text w t
            \<or> same_maps w t \<and> (\<exists>ps. docs_of w s d = Some ps \<and> text = concat (map snd ps))))))"
    (is "ensures _ _ ?Q")
proof (cases "\<exists>text. current = PStr text")
  case False
  then show ?thesis
    using inv by (cases current) (simp_all add: save_wizard_def)
next
  case True
  then obtain cur_text where cur: "current = PStr cur_text" ..
  have "ensures (save_wizard rt u document_id c (PStr cur_text) hints) w ?Q"
    unfolding save_wizard_def pyval.case
  proof (rule ensures_open_maps [OF inv], goal_cases)
    case (1 e t)
    with inv agree_same show ?case by auto
  next
    case (2 s v)
    obtain D where D: "map_of (ww_documents v) s = Some D"
      using 2(2) by (rule openedE)
    show ?case
    proof (cases "dm_get_paragraph_data D (PStr document_id)")
      case (Inl e)
      then show ?thesis
        using 2 by (simp add: ensures_def obind_def on_documents_read [OF D])
    next
      case r1: (Inr ps)
      obtain d where k: "required_uuid (PStr document_id) ''document_id'' = Inr d" and ps: "docs_of v s d = Some ps"
        using r1 unfolding dm_get_Inr by (auto simp: docs_of_eq [OF D])
      have old: "docs_of w s d = Some ps"
        using ps 2(3) by (simp add: same_maps_def)
      have sv: "saved s d cur_text w t" if "saved s d cur_text v t" for t
        using that saved_same [OF 2(3)] by blast
      show ?thesis
      proof (cases "validated_modified_ids hints (map sp_id (saved_paragraphs ps))")
        case (Inl e)
        then show ?thesis
          using 2 r1 by (simp add: ensures_def obind_def on_documents_read [OF D])
      next
        case (Inr hinted)
        show ?thesis
        proof (cases "cur_text = concat (map snd ps)")
          case True
          then show ?thesis
            using 2 r1 Inr k old cur
            by (auto simp: ensures_def obind_def on_documents_read [OF D] saved_text)
        next
          case False
          obtain r t where run: "save_changed rt u c s document_id cur_text ps hinted v = (r, t)"
            by fastforce
          show ?thesis
            using ensuresD [OF save_changed_spec [OF 2(4,5,2) k ps] run] run 2 r1 Inr k False cur sv
            by (auto simp: ensures_def obind_def on_documents_read [OF D] saved_text intro: same_maps_trans)
        qed
      qed
    qed
  qed
  then show ?thesis
    by (simp only: cur)
qed

end
