(* ===== verification/Wizard.thy ===== *)
theory Wizard
  imports Wizard_Save
begin

text \<open>
  The wizard as its callers see it: any sequence of \<open>create_wizard\<close>, \<open>save_wizard\<close> and \<open>delete_wizard\<close> calls on
  one process, each with a runtime of its own, so that storage, splitter, chunker, embedders and UUID factory may
  behave differently, and wrongly, at every call.
\<close>

datatype 'st wizard_call =
    CreateWizard "'st wizard_runtime" pyval pyval
  | SaveWizard "'st wizard_runtime" pyval string pyval pyval pyval
  | DeleteWizard "'st wizard_runtime" pyval string pyval

fun wizard_apply :: "'st wizard_call \<Rightarrow> ('st wizard_world, unit) op" where
  "wizard_apply (CreateWizard rt u c) = obind (create_wizard rt u c) (\<lambda>_. oret ())"
| "wizard_apply (SaveWizard rt u d c text ids) = save_wizard rt u d c text ids"
| "wizard_apply (DeleteWizard rt u d c) = delete_wizard rt u d c"

definition wizard_initial :: "'st \<Rightarrow> 'st wizard_world" where
  "wizard_initial st = \<lparr>ww_documents = [], ww_paragraphs = [], ww_store = st\<rparr>"

lemma wizard_initial_inv: "ww_inv (wizard_initial st)"
  by (simp add: ww_inv_def wizard_initial_def docs_of_def chunks_of_def)

lemma wizard_apply_outcome:
  assumes "ww_inv w" and "wizard_apply call w = (r, t)"
  shows "ww_inv t" "r = Inl e \<Longrightarrow> same_maps w t"
proof -
  have inv: "maps_inv w" "agree w"
    using assms(1) by (simp_all add: ww_inv_iff)
  have "maps_inv t \<and> agree t \<and> (\<forall>e. r = Inl e \<longrightarrow> same_maps w t)"
  proof (cases call)
    case (CreateWizard rt u c)
    obtain q where "create_wizard rt u c w = (q, t)" and "r = map_sum id (\<lambda>_. ()) q"
      using assms(2) by (auto simp: CreateWizard obind_def split: prod.splits sum.splits)
    with ensuresD [OF create_wizard_spec [OF inv]] show ?thesis
      by (cases q) auto
  next
    case (SaveWizard rt u d c new ids)
    with assms(2) ensuresD [OF save_wizard_spec [OF inv]] show ?thesis
      by fastforce
  next
    case (DeleteWizard rt u d c)
    with assms(2) ensuresD [OF delete_wizard_spec [OF inv]] show ?thesis
      by fastforce
  qed
  then show "ww_inv t" "r = Inl e \<Longrightarrow> same_maps w t"
    by (simp_all add: ww_inv_iff)
qed

interpretation wizard: object_invariant wizard_apply ww_inv
  by unfold_locales (rule wizard_apply_outcome(1))

lemma wizard_reachable: "ww_inv (run_calls wizard_apply calls (wizard_initial st))"
  by (rule wizard.run_calls_keeps) (rule wizard_initial_inv)

lemma wizard_reachable_parts:
  assumes "w = run_calls wizard_apply calls (wizard_initial st)"
  shows "maps_inv w" "agree w"
  using wizard_reachable [of calls st] assms by (simp_all add: ww_inv_iff)

text \<open>
  C2 (invariant). Whatever the storage, the splitter, the chunker, the embedders and the UUID factory do, after
  any sequence of calls the two maps agree: a document has a chunk list for exactly its paragraphs, numbered
  \<open>1 .. N\<close>, in both maps, and no chunk belongs to two paragraphs of a scope. A call that raises, at whatever step
  and with whatever compensation, leaves every document and every chunk list as it was.
\<close>

theorem wizard_maps_agree:
  assumes "w = run_calls wizard_apply calls (wizard_initial st)"
  shows "(\<forall>s d ps. docs_of w s d = Some ps \<longrightarrow> ps \<noteq> [] \<and> ps = numbered (map snd ps))
    \<and> (\<forall>s d i. chunks_of w s (d, i) \<noteq> None \<longleftrightarrow> (\<exists>ps. docs_of w s d = Some ps \<and> i \<in> fst ` set ps))
    \<and> (\<forall>s j k cs ds x. chunks_of w s j = Some cs \<longrightarrow> chunks_of w s k = Some ds \<longrightarrow> x \<in> set cs \<inter> set ds \<longrightarrow> j = k)
    \<and> (\<forall>call e t. wizard_apply call w = (Inl e, t) \<longrightarrow> docs_of t = docs_of w \<and> chunks_of t = chunks_of w)"
proof (intro conjI)
  have inv: "maps_inv w" "agree w"
    by (rule wizard_reachable_parts [OF assms])+
  show "\<forall>s d ps. docs_of w s d = Some ps \<longrightarrow> ps \<noteq> [] \<and> ps = numbered (map snd ps)"
    using inv(1) paragraphs_ok_numbered by (fastforce simp: maps_inv_def docs_of_def dm_inv_def split: option.splits)
  show "\<forall>s d i. chunks_of w s (d, i) \<noteq> None \<longleftrightarrow> (\<exists>ps. docs_of w s d = Some ps \<and> i \<in> fst ` set ps)"
    using inv(2) by (simp only: agree_def) blast
  show "\<forall>s j k cs ds x. chunks_of w s j = Some cs \<longrightarrow> chunks_of w s k = Some ds \<longrightarrow> x \<in> set cs \<inter> set ds \<longrightarrow> j = k"
  proof (intro allI impI)
    fix s j k cs ds x
    assume a: "chunks_of w s j = Some cs" "chunks_of w s k = Some ds" "x \<in> set cs \<inter> set ds"
    obtain P where P: "map_of (ww_paragraphs w) s = Some P"
      using a(1) by (auto simp: chunks_of_def split: option.splits)
    have i: "inverse_maps (map_of (pm_paragraphs P)) (map_of (pm_owners P))"
      by (rule pm_invD(3) [OF maps_invD(2) [OF inv(1) P]])
    show "j = k"
      using inverse_maps_owned [OF i, of j cs x] inverse_maps_owned [OF i, of k ds x] a by (simp add: chunks_of_eq [OF P])
  qed
  show "\<forall>call e t. wizard_apply call w = (Inl e, t) \<longrightarrow> docs_of t = docs_of w \<and> chunks_of t = chunks_of w"
    using wizard_apply_outcome(2) wizard_reachable [of calls st] assms by (metis same_maps_def)
qed

text \<open>
  A creation that succeeds returns a canonical UUID no document of the scope had, adds under it
  one document with the single empty paragraph 1 and no chunks, and changes no other document or chunk list.
\<close>

theorem create_wizard_adds:
  assumes "w = run_calls wizard_apply calls (wizard_initial st)" and "create_wizard rt u c w = (Inr d, t)"
  shows "\<exists>s. rt_scope rt u c = Inr s \<and> is_canonical d \<and> docs_of w s d = None
    \<and> docs_of t = (docs_of w)(s := (docs_of w s)(d \<mapsto> [(1, [])]))
    \<and> chunks_of t = (chunks_of w)(s := (chunks_of w s)((d, 1) \<mapsto> []))"
  using ensuresD [OF create_wizard_spec [OF wizard_reachable_parts [OF assms(1)]] assms(2)]
  by (auto simp: created_def)


text \<open>
  C14 (functional). A deletion that succeeds removes exactly the document it names, with its chunk lists, from a
  scope that had it; one that fails, even while restoring storage, changes neither map.
\<close>

theorem delete_wizard_outcome:
  assumes "w = run_calls wizard_apply calls (wizard_initial st)"
    and "delete_wizard rt u document_id c w = (r, t)"
  shows "(\<exists>e. r = Inl e) \<and> docs_of t = docs_of w \<and> chunks_of t = chunks_of w
    \<or> (\<exists>s d. r = Inr () \<and> rt_scope rt u c = Inr s \<and> required_uuid (PStr document_id) ''document_id'' = Inr d
        \<and> docs_of w s d \<noteq> None \<and> docs_of t = (docs_of w)(s := (docs_of w s)(d := None))
        \<and> chunks_of t = (chunks_of w)(s := (\<lambda>k. if fst k = d then None else chunks_of w s k)))"
  using ensuresD [OF delete_wizard_spec [OF wizard_reachable_parts [OF assms(1)]] assms(2)]
  by (cases r) (auto simp: same_maps_def removed_def)

section \<open>A concrete run\<close>

text \<open>A runtime whose storage accepts everything and whose processors keep a text whole.\<close>

definition example_collection :: "nat chunk_collection" where
  "example_collection = \<lparr>
     co_snapshot_by_document = (\<lambda>_. oret []),
     co_snapshot_by_paragraphs = (\<lambda>_ _. oret []),
     co_delete_by_document = (\<lambda>_. oret \<lparr>dr_matched = 0, dr_successful = 0, dr_failed = 0, dr_deleted_ids = [], dr_remaining_ids = []\<rparr>),
     co_delete_by_paragraphs = (\<lambda>_ _. oret \<lparr>dr_matched = 0, dr_successful = 0, dr_failed = 0, dr_deleted_ids = [], dr_remaining_ids = []\<rparr>),
     co_delete_chunks = (\<lambda>_. oret \<lparr>dr_matched = 0, dr_successful = 0, dr_failed = 0, dr_deleted_ids = [], dr_remaining_ids = []\<rparr>),
     co_restore_chunks = (\<lambda>_. oret []),
     co_verify_paragraph_ids = (\<lambda>_. oret ()),
     co_insert_chunk = (\<lambda>_ _ c _ _ _. oret c),
     co_update_paragraph_ids = (\<lambda>_. oret ())\<rparr>"

definition example_runtime :: "nat wizard_runtime" where
  "example_runtime = \<lparr>
     rt_pattern = default_user_pattern,
     rt_collection = (\<lambda>_ _. oret example_collection),
     rt_splitter = (\<lambda>t. oret (PList [PStr t])),
     rt_chunker = (\<lambda>t. oret (PList [PStr t])),
     rt_uuid = (\<lambda>n. (Inr (uuid_render (n mod 2 ^ 128)), Suc n)),
     rt_encode_documents = (\<lambda>ts. oret (PList (map (\<lambda>_. PList [PList (replicate 128 (PInt 0))]) ts))),
     rt_embed_many = (\<lambda>ts. oret (PList (map (\<lambda>_. PList [PInt 1]) ts)))\<rparr>"

lemma example_scope:
  "rt_scope example_runtime (PStr ''ab'') (PStr ''policy'') = Inr (''ab'', ''policy'')"
proof -
  have "\<exists>n. get_collection_name default_user_pattern (PStr ''ab'') (PStr ''conversations'') = Inr n"
    by (simp add: py_iff collection_types_def default_user_pattern_def default_user_char_def
        utf8_def utf8_char_def b32_quanta_def b32_symbol_def from_base_def to_base_numeral
        type_suffix_def py_eval)
  moreover have "validated_document_collection_type (PStr ''policy'') = Inr ''policy''"
    by (rule rt_scope_type) (simp add: document_collection_types_def)
  ultimately show ?thesis
    by (auto simp: rt_scope_def example_runtime_def validated_user_id_def)
qed

lemma example_uuid: "uuid_canon (uuid_render (n mod 2 ^ 128)) = Some (uuid_render (n mod 2 ^ 128))"
  using uuid_render_canonical [of "n mod 2 ^ 128"] by (simp add: is_canonical_def)

lemma example_opened:
  "rt_open_maps example_runtime (PStr ''ab'') (PStr ''policy'') (wizard_initial st) = (Inr (''ab'', ''policy''),
     \<lparr>ww_documents = [((''ab'', ''policy''), dm_initial ''ab'' ''policy'')],
      ww_paragraphs = [((''ab'', ''policy''), pm_initial ''ab'' ''policy'')], ww_store = st\<rparr>)"
  using rt_scope_valid [OF example_scope]
  by (simp add: rt_open_maps_def rt_document_map_def rt_paragraph_map_def obind_def example_scope wizard_initial_def)

lemma example_created:
  "create_wizard example_runtime (PStr ''ab'') (PStr ''policy'') (wizard_initial 5)
   = (Inr (uuid_render 5),
      \<lparr>ww_documents = [((''ab'', ''policy''),
          (dm_initial ''ab'' ''policy'')\<lparr>dm_documents := [(uuid_render 5, [(1, [])])]\<rparr>)],
       ww_paragraphs = [((''ab'', ''policy''),
          (pm_initial ''ab'' ''policy'')\<lparr>pm_paragraphs := [((uuid_render 5, 1), [])]\<rparr>)], ww_store = 6\<rparr>)"
proof -
  have u: "is_canonical (uuid_render 5)"
    by (rule uuid_render_canonical) simp
  have "pm_replace_document (PStr (uuid_render 5)) (chunks_value [(1, [])]) (pm_initial ''ab'' ''policy'')
      = (Inr (), (pm_initial ''ab'' ''policy'')\<lparr>pm_paragraphs := [((uuid_render 5, 1), [])]\<rparr>)"
    using u by (simp add: pm_replace_document_def obind_def required_uuid_of_canonical pm_validated_replacement_def chunks_value_def
        positive_paragraph_id_def pm_validated_chunks_def sequential_ids_def dict_keys_def pm_document_keys_def
        pm_initial_def pm_add_def pm_own_def)
  moreover have "pm_get_document_chunks (pm_initial ''ab'' ''policy'') (PStr (uuid_render 5)) = Inr []"
    using u by (simp add: pm_get_document_chunks_def required_uuid_of_canonical pm_initial_def dict_keys_def)
  moreover have "generated_uuid example_runtime ''document_id'' w = (Inr (uuid_render (ww_store w mod 2 ^ 128)), w\<lparr>ww_store := Suc (ww_store w)\<rparr>)" for w
    by (simp add: generated_uuid_def obind_def outside_def on_part_def example_runtime_def example_uuid [simplified])
  ultimately show ?thesis
    using u by (simp add: create_wizard_def create_wizard_as_def obind_def ocatch_def example_opened on_documents_def on_paragraphs_def
        oread_def dm_get_value dict_get_def dm_create_document_new dm_initial_def)
qed

lemma example_aligned:
  "align_unions (saved_paragraphs [(1, [])]) ''Hi'' [] = Inr [\<lparr>pu_ids = [1], pu_text = ''Hi''\<rparr>]"
  by code_simp

lemma example_staged:
  "validated_processor_output (PList [PStr ''Hi'']) ''Hi'' x = Inr [''Hi'']" "strip ''Hi'' = ''Hi''"
  by (simp add: validated_processor_output_def) code_simp

lemma example_vectors:
  "batch_vectors example_runtime [''Hi''] w = (Inr ([[replicate 128 0]], [[1]]), w)"
proof -
  have "rmap vector_item (replicate n (PInt 0)) = Inr (replicate n 0)" for n
    by (induction n) (simp_all add: vector_item_def)
  then have "validated_multi_vector (PList [PList (replicate 128 (PInt 0))]) = Inr [replicate 128 0]"
    "validated_vector (PList [PInt 1]) = Inr [1]"
    by (simp_all add: validated_multi_vector_def validated_vector_def one_length_def lateon_dimension_def vector_item_def)
  then show ?thesis
    by (simp add: batch_vectors_def obind_def outside_def on_part_def example_runtime_def one_length_def)
qed

text \<open>The two states of the run: after the creation, and after a save that gives the document a text.\<close>

definition example_world :: "paragraphs \<Rightarrow> string list \<Rightarrow> nat \<Rightarrow> nat wizard_world" where
  "example_world ps cs st =
     \<lparr>ww_documents = [((''ab'', ''policy''), \<lparr>dm_user = ''ab'', dm_collection = ''policy'', dm_documents = [(uuid_render 5, ps)]\<rparr>)],
      ww_paragraphs = [((''ab'', ''policy''), \<lparr>pm_user = ''ab'', pm_collection = ''policy'',
          pm_paragraphs = [((uuid_render 5, 1), cs)], pm_owners = map (\<lambda>c. (c, (uuid_render 5, 1))) cs\<rparr>)],
      ww_store = st\<rparr>"

lemma example_generated:
  "generated_uuid example_runtime x w = (Inr (uuid_render (ww_store w mod 2 ^ 128)), w\<lparr>ww_store := Suc (ww_store w)\<rparr>)"
  by (simp add: generated_uuid_def obind_def outside_def on_part_def example_runtime_def example_uuid [simplified])

lemma example_saved:
  "save_wizard example_runtime (PStr ''ab'') (uuid_render 5) (PStr ''policy'') (PStr ''Hi'') PNone
     (example_world [(1, [])] [] 6) = (Inr (), example_world [(1, ''Hi'')] [uuid_render 6] 7)"
proof -
  have u: "is_canonical (uuid_render 5)" "is_canonical (uuid_render 6)"
    by (simp_all add: uuid_render_canonical)
  note req = required_uuid_of_canonical [OF u(1)] required_uuid_of_canonical [OF u(2)]
  have aligned: "align_unions [\<lparr>sp_id = 1, sp_text = [], sp_start = 0, sp_end = 0\<rparr>] ''Hi'' [] = Inr [\<lparr>pu_ids = [1], pu_text = ''Hi''\<rparr>]"
    using example_aligned by (simp add: saved_paragraphs_def)
  have out: "outside (rt_collection example_runtime a b) w = (Inr example_collection, w)"
    "outside (rt_splitter example_runtime t) w = (Inr (PList [PStr t]), w)"
    "outside (rt_chunker example_runtime t) w = (Inr (PList [PStr t]), w)"
    "outside (co_snapshot_by_paragraphs example_collection d ps) w = (Inr [], w)"
    "outside (co_insert_chunk example_collection d i c t m v) w = (Inr c, w)"
    "\<exists>rep. outside (co_delete_by_paragraphs example_collection d ps) w = (Inr rep, w)" for a b t d ps i c m v w
    by (simp_all add: outside_def on_part_def example_runtime_def example_collection_def)
  obtain rep where rep: "outside (co_delete_by_paragraphs example_collection (uuid_render 5) [1]) w = (Inr (rep w), w)" for w
    using out(6) by metis
  show ?thesis
    by (simp add: save_wizard_def save_changed_def obind_def rt_open_maps_def rt_document_map_def rt_paragraph_map_def
        example_scope on_documents_def on_paragraphs_def oread_def example_world_def dm_get_paragraph_data_def req
        dict_get_def saved_paragraphs_def aligned validated_modified_ids_def pm_get_document_chunks_def dict_keys_def
        rt_open_collection_def out rep
        take_snapshots_def ocatch_def targeted_ids_def union_ids_def chunks_get_def
        committed_or_recovered_def save_steps_def step_3_def on_world_def on_part_def at_stage_def
        example_staged example_generated new_chunk_uuid_def embed_staged_def pending_chunks_def example_vectors
        with_vectors_def step_6_def renumbered_nodes_def nodes_of_def pm_validate_replacement_def pm_validated_replacement_def
        final_chunk_mappings_def final_paragraph_data_def enumerated_def chunks_value_def paragraph_value_def
        positive_paragraph_id_def pm_validated_chunks_def sequential_ids_def dm_validate_update_def dm_validated_replacement_def
        step_7a_def new_chunks_def step_7b_def unmodified_updates_def step_8_def pm_replace_document_def pm_document_keys_def
        pm_drop_def pm_on_paragraphs_def pm_on_owners_def dict_pop_def pm_add_def pm_own_def dm_update_paragraphs_def)
qed

lemma example_deleted:
  "\<exists>t. delete_wizard example_runtime (PStr ''ab'') (uuid_render 5) (PStr ''policy'')
     (example_world [(1, ''Hi'')] [uuid_render 6] 7) = (Inr (), t)"
proof -
  have u: "is_canonical (uuid_render 5)"
    by (simp add: uuid_render_canonical)
  note req = required_uuid_of_canonical [OF u]
  have out: "outside (rt_collection example_runtime a b) w = (Inr example_collection, w)"
    "outside (co_snapshot_by_document example_collection d) w = (Inr [], w)"
    "\<exists>rep. outside (co_delete_by_document example_collection d) w = (Inr rep, w)" for a b d w
    by (simp_all add: outside_def on_part_def example_runtime_def example_collection_def)
  obtain rep where rep: "outside (co_delete_by_document example_collection (uuid_render 5)) w = (Inr (rep w), w)" for w
    using out(3) by metis
  show ?thesis
    by (simp add: delete_wizard_def obind_def rt_open_maps_def rt_document_map_def rt_paragraph_map_def
        example_scope on_documents_def on_paragraphs_def oread_def example_world_def dm_get_paragraph_data_def req
        dict_get_def pm_get_document_chunks_def dict_keys_def rt_open_collection_def out rep ocatch_def on_part_def
        pm_delete_document_def pm_document_keys_def pm_drop_def pm_on_paragraphs_def pm_on_owners_def dict_pop_def
        dm_delete_document_def dict_del_def)
qed

abbreviation example_calls :: "nat wizard_call list" where
  "example_calls \<equiv> [CreateWizard example_runtime (PStr ''ab'') (PStr ''policy''),
     SaveWizard example_runtime (PStr ''ab'') (uuid_render 5) (PStr ''policy'') (PStr ''Hi'') PNone]"

lemma example_created_world:
  "create_wizard example_runtime (PStr ''ab'') (PStr ''policy'') (wizard_initial 5)
   = (Inr (uuid_render 5), example_world [(1, [])] [] 6)"
  by (simp add: example_created example_world_def dm_initial_def pm_initial_def)

lemma example_runs:
  "run_calls wizard_apply [] (wizard_initial 5) = (wizard_initial 5 :: nat wizard_world)"
  "run_calls wizard_apply (take 1 example_calls) (wizard_initial 5) = example_world [(1, [])] [] 6"
  "run_calls wizard_apply example_calls (wizard_initial 5) = example_world [(1, ''Hi'')] [uuid_render 6] 7"
  by (simp_all add: run_calls_def obind_def example_created_world example_saved)

theorem wizard_maps_agree_witness:
  "docs_of (example_world [(1, ''Hi'')] [uuid_render 6] 7) (''ab'', ''policy'') (uuid_render 5) = Some [(1, ''Hi'')]
   \<and> [(1, ''Hi'')] = numbered (map snd [(1 :: int, ''Hi'')])"
proof -
  have d: "docs_of (example_world [(1, ''Hi'')] [uuid_render 6] 7) (''ab'', ''policy'') (uuid_render 5) = Some [(1, ''Hi'')]"
    by (simp add: docs_of_def example_world_def)
  with wizard_maps_agree [OF example_runs(3) [symmetric]] show ?thesis
    by blast
qed

theorem create_wizard_adds_witness:
  "is_canonical (uuid_render 5) \<and> docs_of (wizard_initial (5 :: nat)) (''ab'', ''policy'') (uuid_render 5) = None"
  using create_wizard_adds [OF example_runs(1) [symmetric] example_created_world] example_scope by simp


theorem delete_wizard_outcome_witness:
  "\<exists>s d t. docs_of (example_world [(1, ''Hi'')] [uuid_render 6] 7) s d \<noteq> None
     \<and> snd (delete_wizard example_runtime (PStr ''ab'') (uuid_render 5) (PStr ''policy'')
         (example_world [(1, ''Hi'')] [uuid_render 6] 7)) = t \<and> docs_of t s d = None"
proof -
  obtain t where t: "delete_wizard example_runtime (PStr ''ab'') (uuid_render 5) (PStr ''policy'')
     (example_world [(1, ''Hi'')] [uuid_render 6] 7) = (Inr (), t)"
    using example_deleted by blast
  from delete_wizard_outcome [OF example_runs(3) [symmetric] t] show ?thesis
  proof (elim disjE exE conjE)
    fix s d
    assume d: "docs_of (example_world [(1, ''Hi'')] [uuid_render 6] 7) s d \<noteq> None"
      and u: "docs_of t = (docs_of (example_world [(1, ''Hi'')] [uuid_render 6] 7))
        (s := (docs_of (example_world [(1, ''Hi'')] [uuid_render 6] 7) s)(d := None))"
    have "docs_of t s d = None"
      by (simp add: u)
    with d show ?thesis
      unfolding t snd_conv by blast
  qed simp
qed

end
