(* ===== verification/Py_Sha1.thy ===== *)
theory Py_Sha1
  imports Py_Uuid "HOL-Library.Word"
begin

text \<open>
  \<open>uuid.uuid5\<close> of the standard library: the UUID of version 5 that names a string within a namespace, the
  first sixteen bytes of the SHA-1 digest of the namespace's bytes and the name. SHA-1 is the one of FIPS 180,
  on words of 32 bits whose addition wraps.
\<close>

unbundle bit_operations_syntax

section \<open>SHA-1\<close>

definition rotl :: "nat \<Rightarrow> 32 word \<Rightarrow> 32 word" where
  "rotl k w = push_bit k w OR drop_bit (32 - k) w"

definition bytes_nat :: "nat list \<Rightarrow> nat" where
  "bytes_nat bs = fold (\<lambda>b n. n * 256 + b) bs 0"

primrec nat_bytes :: "nat \<Rightarrow> nat \<Rightarrow> nat list" where
  "nat_bytes 0 n = []"
| "nat_bytes (Suc k) n = nat_bytes k (n div 256) @ [n mod 256]"

text \<open>The message followed by a one bit, zeros, and its length in bits on eight bytes.\<close>

definition sha_padded :: "nat list \<Rightarrow> nat list" where
  "sha_padded m =
     m @ [128] @ replicate ((119 - length m mod 64) mod 64) 0 @ nat_bytes 8 (8 * length m)"

function blocks_of :: "nat \<Rightarrow> 'a list \<Rightarrow> 'a list list" where
  "blocks_of n xs = (if n = 0 \<or> xs = [] then [] else take n xs # blocks_of n (drop n xs))"
  by auto
termination
  by (relation "measure (\<lambda>(n, xs). length xs)") auto

declare blocks_of.simps [simp del]

text \<open>The message schedule, newest word first.\<close>

primrec sha_schedule :: "nat \<Rightarrow> 32 word list \<Rightarrow> 32 word list" where
  "sha_schedule 0 ws = rev ws"
| "sha_schedule (Suc n) ws =
     sha_schedule n (rotl 1 (ws ! 2 XOR ws ! 7 XOR ws ! 13 XOR ws ! 15) # ws)"

type_synonym sha_state = "32 word \<times> 32 word \<times> 32 word \<times> 32 word \<times> 32 word"

definition sha_round :: "nat \<times> 32 word \<Rightarrow> sha_state \<Rightarrow> sha_state" where
  "sha_round tw s = (case (tw, s) of ((t, w), (a, b, c, d, e)) \<Rightarrow>
     let (f, k) =
       (if t < 20 then ((b AND c) OR (NOT b AND d), 0x5A827999)
        else if t < 40 then (b XOR c XOR d, 0x6ED9EBA1)
        else if t < 60 then ((b AND c) OR (b AND d) OR (c AND d), 0x8F1BBCDC)
        else (b XOR c XOR d, 0xCA62C1D6))
     in (rotl 5 a + f + e + k + w, a, rotl 30 b, c, d))"

definition sha_block :: "nat list \<Rightarrow> sha_state \<Rightarrow> sha_state" where
  "sha_block block s =
     (let ws = sha_schedule 64 (rev (map (of_nat \<circ> bytes_nat) (blocks_of 4 block)))
      in case (s, fold sha_round (zip [0..<80] ws) s) of
           ((a, b, c, d, e), (a', b', c', d', e')) \<Rightarrow> (a + a', b + b', c + c', d + d', e + e'))"

definition sha1 :: "nat list \<Rightarrow> nat list" where
  "sha1 m =
     (case fold sha_block (blocks_of 64 (sha_padded m))
             (0x67452301, 0xEFCDAB89, 0x98BADCFE, 0x10325476, 0xC3D2E1F0) of
        (a, b, c, d, e) \<Rightarrow> concat (map (\<lambda>w. nat_bytes 4 (unat w)) [a, b, c, d, e]))"

section \<open>Named UUIDs\<close>

text \<open>The bits of variant and version replace those of the digest.\<close>

definition named_bytes :: "nat list \<Rightarrow> nat list" where
  "named_bytes digest =
     (let bs = take 16 digest
      in bs[6 := bs ! 6 mod 16 + 5 * 16, 8 := bs ! 8 mod 64 + 128])"

text \<open>\<open>str(uuid5(UUID(namespace), name))\<close> for a valid namespace.\<close>

definition uuid5 :: "string \<Rightarrow> string \<Rightarrow> string" where
  "uuid5 namespace name =
     (case uuid_int namespace of
        None \<Rightarrow> []
      | Some n \<Rightarrow> uuid_render (bytes_nat (named_bytes (sha1 (nat_bytes 16 (nat n) @ map of_char name)))))"

lemma length_nat_bytes [simp]: "length (nat_bytes k n) = k"
  by (induction k arbitrary: n) auto

lemma nat_bytes_bound: "b \<in> set (nat_bytes k n) \<Longrightarrow> b < 256"
  by (induction k arbitrary: n) auto

lemma bytes_nat_append: "bytes_nat (xs @ [b]) = bytes_nat xs * 256 + b"
  by (simp add: bytes_nat_def)

lemma bytes_nat_bound: "(\<And>b. b \<in> set bs \<Longrightarrow> b < 256) \<Longrightarrow> bytes_nat bs < 256 ^ length bs"
proof (induction bs rule: rev_induct)
  case Nil
  then show ?case by (simp add: bytes_nat_def)
next
  case (snoc b bs)
  then have "bytes_nat bs < 256 ^ length bs" "b < 256"
    by simp_all
  then have "bytes_nat bs * 256 + b < (bytes_nat bs + 1) * 256"
    by simp
  also have "\<dots> \<le> 256 ^ length bs * 256"
    using \<open>bytes_nat bs < 256 ^ length bs\<close> by (intro mult_le_mono1) simp
  finally show ?case
    by (simp add: bytes_nat_append)
qed

lemma bytes_nat_bytes: "n < 256 ^ k \<Longrightarrow> bytes_nat (nat_bytes k n) = n"
proof (induction k arbitrary: n)
  case 0
  then show ?case by (simp add: bytes_nat_def)
next
  case (Suc k)
  then have "n div 256 < 256 ^ k"
    by (simp add: less_mult_imp_div_less mult.commute)
  with Suc.IH show ?case
    by (simp add: bytes_nat_append)
qed

lemma length_sha1 [simp]: "length (sha1 m) = 20"
  by (simp add: sha1_def split: prod.split)

lemma sha1_bound: "b \<in> set (sha1 m) \<Longrightarrow> b < 256"
  by (auto simp: sha1_def nat_bytes_bound split: prod.splits)

lemma uuid5_canonical:
  assumes "uuid_int namespace \<noteq> None"
  shows "is_canonical (uuid5 namespace name)"
proof -
  obtain n where n: "uuid_int namespace = Some n"
    using assms by blast
  let ?d = "sha1 (nat_bytes 16 (nat n) @ map of_char name)"
  have "b < 256" if "b \<in> set (named_bytes ?d)" for b
  proof -
    have u: "set (xs[i := x, j := y]) \<subseteq> insert y (insert x (set xs))" for xs :: "nat list" and i j x y
      by (meson insert_mono order_trans set_update_subset_insert)
    have "b \<in> insert (take 16 ?d ! 8 mod 64 + 128) (insert (take 16 ?d ! 6 mod 16 + 5 * 16) (set (take 16 ?d)))"
      using that unfolding named_bytes_def Let_def by (rule subsetD [OF u])
    moreover have "c < 256" if "c \<in> set (take 16 ?d)" for c
      using that sha1_bound by (meson in_set_takeD)
    ultimately show ?thesis
      by (auto intro: order_le_less_trans [where y = "15 + 80"] order_le_less_trans [where y = "63 + 128"])
  qed
  then have "bytes_nat (named_bytes ?d) < 256 ^ length (named_bytes ?d)"
    by (rule bytes_nat_bound)
  then have "bytes_nat (named_bytes ?d) < 2 ^ 128"
    by (simp add: named_bytes_def Let_def)
  then show ?thesis
    using uuid_render_canonical by (simp add: uuid5_def n)
qed

end
