(* ===== verification/Search_Results.thy ===== *)
theory Search_Results
  imports Py_Sha1 Py_Float Map_Common
begin

text \<open>
  \<open>backend/rag/retrieval.py\<close>, first stage: the validators and \<open>_normalized_candidates\<close>, which turns what the
  storage returned for a hybrid search into candidates with canonical ids, and quarantines, instead of raising,
  every malformed row and with it the whole conversation the row belongs to. Log messages are left out.
\<close>

section \<open>Validators\<close>

definition required_text :: "pyval \<Rightarrow> string \<Rightarrow> string res" where
  "required_text v name =
     (case v of
        PStr s \<Rightarrow> if strip s = [] then Inl (ValueError (name @ '' must not be empty'')) else Inr s
      | _ \<Rightarrow> Inl (TypeError (name @ '' must be a string'')))"

definition number_item :: "string \<Rightarrow> pyval \<Rightarrow> real res" where
  "number_item name item =
     (case item of
        PBool _ \<Rightarrow> Inl (TypeError (name @ '' must contain only numbers''))
      | _ \<Rightarrow>
          (case py_float_value item of
             Inl _ \<Rightarrow> Inl (TypeError (name @ '' must contain only numbers''))
           | Inr (Fin x) \<Rightarrow> Inr x
           | Inr _ \<Rightarrow> Inl (ValueError (name @ '' values must be finite''))))"

definition vector :: "pyval \<Rightarrow> string \<Rightarrow> real list res" where
  "vector value name =
     (case sequence_items value of
        None \<Rightarrow> Inl (TypeError (name @ '' must be a sequence of numbers''))
      | Some items \<Rightarrow>
          rbind (rmap (number_item name) items) (\<lambda>result.
            if result = [] then Inl (ValueError (name @ '' must not be empty'')) else Inr result))"

definition multi_vector :: "pyval \<Rightarrow> string \<Rightarrow> real list list res" where
  "multi_vector value name =
     (case sequence_items value of
        None \<Rightarrow> Inl (TypeError (name @ '' must be a sequence of vectors''))
      | Some items \<Rightarrow>
          rbind (rmap (\<lambda>row. vector row (name @ '' row'')) items) (\<lambda>rows.
            if rows = [] then Inl (ValueError (name @ '' must not be empty''))
            else if length (remdups (map length rows)) \<noteq> 1
            then Inl (ValueError (name @ '' rows must have consistent dimensions''))
            else Inr rows))"

text \<open>\<open>str(UUID(required_text(v, name)))\<close>.\<close>

definition uuid_text :: "pyval \<Rightarrow> string \<Rightarrow> string res" where
  "uuid_text v name =
     rbind (required_text v name) (\<lambda>s.
       case uuid_canon s of
         None \<Rightarrow> Inl (ValueError ''badly formed hexadecimal UUID string'')
       | Some u \<Rightarrow> Inr u)"

text \<open>
  \<open>str(UUID(str(v)))\<close>. Of the values here only strings and integers can print as a UUID.
\<close>

fun printed_uuid :: "pyval \<Rightarrow> string option" where
  "printed_uuid (PStr s) = uuid_canon s"
| "printed_uuid (PInt n) = uuid_canon (show_int n)"
| "printed_uuid _ = None"

section \<open>Candidates\<close>

text \<open>
  A row of the storage's answer: a \<open>SearchResult\<close>, whose fields may hold anything, or something else. A
  candidate is a \<open>SearchResult\<close> with checked ids and text.
\<close>

datatype hit = NotResult | Hit (hit_object: pyval) (hit_canonical: pyval) (hit_text: pyval) (hit_segment: pyval)

record search_result =
  sr_object :: string
  sr_canonical :: string
  sr_text :: string
  sr_segment :: pyval

record quarantine =
  qu_normalized :: "search_result list"
  qu_seen :: "string list"
  qu_objects :: "string list"
  qu_conversations :: "string list"
  qu_indices :: "(string \<times> int, string) dict"

definition conversations :: string where "conversations = ''conversations''"

definition checked_hit :: "pyval \<Rightarrow> pyval \<Rightarrow> pyval \<Rightarrow> (string \<times> string \<times> string) res" where
  "checked_hit object canonical retrieval_text =
     rbind (uuid_text object ''object_id'') (\<lambda>object_id.
     rbind (uuid_text canonical ''canonical_id'') (\<lambda>canonical_id.
     rbind (required_text retrieval_text ''retrieval_text'') (\<lambda>t. Inr (object_id, canonical_id, t))))"

definition segment_identity :: "string \<Rightarrow> int \<Rightarrow> string" where
  "segment_identity canonical_id n = uuid5 canonical_id (''retrieval-segment:'' @ show_int n)"

text \<open>The check of \<open>segment_index\<close>: the index when it is one and names the object.\<close>

definition checked_segment :: "string \<Rightarrow> string \<Rightarrow> pyval \<Rightarrow> int option" where
  "checked_segment object_id canonical_id segment =
     (case segment of
        PInt n \<Rightarrow> if n < 0 \<or> object_id \<noteq> segment_identity canonical_id n then None else Some n
      | _ \<Rightarrow> None)"

text \<open>One turn of the loop. A \<open>continue\<close> ends the turn with the state reached.\<close>

definition malformed_hit :: "string \<Rightarrow> pyval \<Rightarrow> quarantine \<Rightarrow> quarantine" where
  "malformed_hit collection canonical q =
     (case printed_uuid canonical of
        Some conversation \<Rightarrow>
          if collection = conversations then q\<lparr>qu_conversations := conversation # qu_conversations q\<rparr> else q
      | None \<Rightarrow> q)"

definition duplicate_hit :: "string \<Rightarrow> string \<Rightarrow> string \<Rightarrow> quarantine \<Rightarrow> quarantine" where
  "duplicate_hit collection object_id canonical_id q =
     (let q = q\<lparr>qu_objects := object_id # qu_objects q\<rparr>
      in if collection = conversations
         then q\<lparr>qu_conversations := canonical_id
                  # map sr_canonical (filter (\<lambda>item. sr_object item = object_id) (qu_normalized q))
                  @ qu_conversations q\<rparr>
         else q)"

definition admit_hit :: "string \<Rightarrow> string \<Rightarrow> string \<Rightarrow> pyval \<Rightarrow> quarantine \<Rightarrow> quarantine" where
  "admit_hit object_id canonical_id t segment q =
     q\<lparr>qu_normalized := qu_normalized q
        @ [\<lparr>sr_object = object_id, sr_canonical = canonical_id, sr_text = t, sr_segment = segment\<rparr>]\<rparr>"

definition normalize_hit :: "string \<Rightarrow> hit \<Rightarrow> quarantine \<Rightarrow> quarantine" where
  "normalize_hit collection h q =
     (case h of
        NotResult \<Rightarrow> q
      | Hit object canonical retrieval_text segment \<Rightarrow>
          (case checked_hit object canonical retrieval_text of
             Inl _ \<Rightarrow> malformed_hit collection canonical q
           | Inr (object_id, canonical_id, t) \<Rightarrow>
               if object_id \<in> set (qu_seen q) then duplicate_hit collection object_id canonical_id q
               else
                 (let q = q\<lparr>qu_seen := object_id # qu_seen q\<rparr>
                  in if collection \<noteq> conversations \<and> canonical_id \<noteq> object_id
                     then q\<lparr>qu_objects := object_id # qu_objects q\<rparr>
                     else if collection = conversations
                     then (case checked_segment object_id canonical_id segment of
                             None \<Rightarrow> q\<lparr>qu_conversations := canonical_id # qu_conversations q\<rparr>
                           | Some n \<Rightarrow>
                               (case map_of (qu_indices q) (canonical_id, n) of
                                  Some existing \<Rightarrow>
                                    if existing \<noteq> object_id
                                    then q\<lparr>qu_conversations := canonical_id # qu_conversations q\<rparr>
                                    else admit_hit object_id canonical_id t segment q
                                | None \<Rightarrow>
                                    admit_hit object_id canonical_id t segment
                                      (q\<lparr>qu_indices := AList.update (canonical_id, n) object_id (qu_indices q)\<rparr>)))
                     else admit_hit object_id canonical_id t segment q)))"

text \<open>\<open>None\<close> stands for an answer that is no list.\<close>

definition normalized_candidates :: "hit list option \<Rightarrow> string \<Rightarrow> search_result list res" where
  "normalized_candidates results collection =
     (case results of
        None \<Rightarrow> Inl (TypeError ''hybrid_search must return a list'')
      | Some hits \<Rightarrow>
          (let q = fold (normalize_hit collection) hits
                \<lparr>qu_normalized = [], qu_seen = [], qu_objects = [], qu_conversations = [], qu_indices = []\<rparr>
           in Inr (filter (\<lambda>item. sr_object item \<notin> set (qu_objects q)
                                \<and> sr_canonical item \<notin> set (qu_conversations q)) (qu_normalized q))))"

section \<open>What is kept, by a direct definition\<close>

text \<open>The ids of a row that can be read, and the candidate a row gives when it is well formed in itself.\<close>

definition hit_ids :: "hit \<Rightarrow> (string \<times> string) option" where
  "hit_ids h = (case h of
       NotResult \<Rightarrow> None
     | Hit object canonical retrieval_text segment \<Rightarrow>
         (case checked_hit object canonical retrieval_text of
            Inl _ \<Rightarrow> None | Inr (object_id, canonical_id, t) \<Rightarrow> Some (object_id, canonical_id)))"

definition readable_ids :: "hit list \<Rightarrow> (string \<times> string) list" where
  "readable_ids hits = concat (map (\<lambda>h. case hit_ids h of None \<Rightarrow> [] | Some p \<Rightarrow> [p]) hits)"

definition accepted :: "string \<Rightarrow> hit \<Rightarrow> search_result list" where
  "accepted collection h = (case h of
       NotResult \<Rightarrow> []
     | Hit object canonical retrieval_text segment \<Rightarrow>
         (case checked_hit object canonical retrieval_text of
            Inl _ \<Rightarrow> []
          | Inr (object_id, canonical_id, t) \<Rightarrow>
              if (if collection = conversations then checked_segment object_id canonical_id segment \<noteq> None
                  else canonical_id = object_id)
              then [\<lparr>sr_object = object_id, sr_canonical = canonical_id, sr_text = t, sr_segment = segment\<rparr>]
              else []))"

definition duplicated :: "hit list \<Rightarrow> string \<Rightarrow> bool" where
  "duplicated hits object_id \<longleftrightarrow> 1 < count_list (map fst (readable_ids hits)) object_id"

text \<open>The conversation a malformed row takes down with it.\<close>

definition broken_by :: "hit \<Rightarrow> string option" where
  "broken_by h = (case h of
       NotResult \<Rightarrow> None
     | Hit object canonical retrieval_text segment \<Rightarrow>
         (case checked_hit object canonical retrieval_text of
            Inl _ \<Rightarrow> printed_uuid canonical
          | Inr (object_id, canonical_id, t) \<Rightarrow>
              if checked_segment object_id canonical_id segment = None then Some canonical_id else None))"

definition broken_conversation :: "hit list \<Rightarrow> string \<Rightarrow> bool" where
  "broken_conversation hits k \<longleftrightarrow> (\<exists>h \<in> set hits. broken_by h = Some k)
     \<or> (\<exists>p \<in> set (readable_ids hits). snd p = k \<and> duplicated hits (fst p))"

definition clean_candidates :: "string \<Rightarrow> hit list \<Rightarrow> search_result list" where
  "clean_candidates collection hits =
     filter (\<lambda>item. \<not> duplicated hits (sr_object item)
           \<and> (collection = conversations \<longrightarrow> \<not> broken_conversation hits (sr_canonical item)))
       (concat (map (accepted collection) hits))"

section \<open>The loop computes it\<close>

lemma readable_ids_snoc:
  "readable_ids (hs @ [h]) = readable_ids hs @ (case hit_ids h of None \<Rightarrow> [] | Some p \<Rightarrow> [p])"
  by (simp add: readable_ids_def)

lemma count_list_in: "x \<in> set xs \<longleftrightarrow> 0 < count_list xs x"
  by (induction xs) auto

lemma duplicated_snoc:
  "duplicated (hs @ [h]) x \<longleftrightarrow> duplicated hs x
     \<or> (\<exists>c. hit_ids h = Some (x, c) \<and> x \<in> fst ` set (readable_ids hs))"
  using count_list_in [of x "map fst (readable_ids hs)"]
  by (auto simp: duplicated_def readable_ids_snoc split: option.split)

definition loop_inv :: "string \<Rightarrow> hit list \<Rightarrow> quarantine \<Rightarrow> bool" where
  "loop_inv coll hs q \<longleftrightarrow>
     set (qu_seen q) = fst ` set (readable_ids hs)
     \<and> {x. duplicated hs x} \<subseteq> set (qu_objects q)
     \<and> set (qu_objects q) \<subseteq> {x. duplicated hs x} \<union> {x. coll \<noteq> conversations \<and> (\<exists>c. (x, c) \<in> set (readable_ids hs) \<and> c \<noteq> x)}
     \<and> set (qu_conversations q) = (if coll = conversations then {k. broken_conversation hs k} else {})
     \<and> (\<forall>D. {x. duplicated hs x} \<subseteq> D \<longrightarrow>
          filter (\<lambda>x. sr_object x \<notin> D) (qu_normalized q)
          = filter (\<lambda>x. sr_object x \<notin> D) (concat (map (accepted coll) hs)))
     \<and> (coll = conversations \<longrightarrow> (\<forall>(x, c) \<in> set (readable_ids hs).
          (\<exists>item \<in> set (qu_normalized q). sr_object item = x \<and> sr_canonical item = c) \<or> broken_conversation hs c))
     \<and> (\<forall>k n e. map_of (qu_indices q) (k, n) = Some e \<longrightarrow> e = segment_identity k n)
     \<and> (\<forall>item \<in> set (qu_normalized q). (sr_object item, sr_canonical item) \<in> set (readable_ids hs))"

lemma broken_snoc:
  "broken_conversation (hs @ [h]) k \<longleftrightarrow> broken_conversation hs k \<or> broken_by h = Some k
     \<or> (\<exists>x c. hit_ids h = Some (x, c) \<and> x \<in> fst ` set (readable_ids hs)
          \<and> (k = c \<or> (x, k) \<in> set (readable_ids hs)))
     \<or> (\<exists>x. hit_ids h = Some (x, k) \<and> duplicated hs x)"
  unfolding broken_conversation_def duplicated_snoc readable_ids_snoc
  by (fastforce split: option.splits simp: image_iff)

lemma not_readable_step:
  assumes inv: "loop_inv coll hs q" and h: "hit_ids h = None" "accepted coll h = []"
    and q': "q' = q \<and> (coll = conversations \<longrightarrow> broken_by h = None)
       \<or> (\<exists>k. coll = conversations \<and> broken_by h = Some k \<and> q' = q\<lparr>qu_conversations := k # qu_conversations q\<rparr>)"
  shows "loop_inv coll (hs @ [h]) q'"
  using q'
proof (elim disjE exE conjE)
  assume "q' = q" "coll = conversations \<longrightarrow> broken_by h = None"
  then show ?thesis
    using inv h unfolding loop_inv_def duplicated_snoc broken_snoc readable_ids_snoc by (auto simp: case_prod_unfold)
next
  fix k assume "coll = conversations" "broken_by h = Some k" "q' = q\<lparr>qu_conversations := k # qu_conversations q\<rparr>"
  then show ?thesis
    using inv h unfolding loop_inv_def duplicated_snoc broken_snoc readable_ids_snoc by (auto simp: case_prod_unfold)
qed

lemma duplicate_step:
  assumes inv: "loop_inv coll hs q" and h: "hit_ids h = Some (x, c)" and old: "x \<in> set (qu_seen q)"
    and acc: "\<forall>item \<in> set (accepted coll h). sr_object item = x"
    and b: "broken_by h = None \<or> broken_by h = Some c"
  shows "loop_inv coll (hs @ [h]) (duplicate_hit coll x c q)"
proof -
  note I = inv [unfolded loop_inv_def]
  have seen: "set (qu_seen q) = fst ` set (readable_ids hs)"
    using I by blast
  have xin: "x \<in> fst ` set (readable_ids hs)"
    using old seen by simp
  have dup: "duplicated (hs @ [h]) x"
    using xin h by (auto simp: duplicated_snoc)
  have rd: "readable_ids (hs @ [h]) = readable_ids hs @ [(x, c)]"
    by (simp add: readable_ids_snoc h)
  have keep: "qu_normalized (duplicate_hit coll x c q) = qu_normalized q"
    "qu_seen (duplicate_hit coll x c q) = qu_seen q" "qu_indices (duplicate_hit coll x c q) = qu_indices q"
    "qu_objects (duplicate_hit coll x c q) = x # qu_objects q"
    "coll \<noteq> conversations \<Longrightarrow> qu_conversations (duplicate_hit coll x c q) = qu_conversations q"
    by (simp_all add: duplicate_hit_def Let_def)
  have convs: "set (qu_conversations (duplicate_hit coll x c q))
      = (if coll = conversations then {k. broken_conversation (hs @ [h]) k} else {})"
  proof (cases "coll = conversations")
    case True
    have "set (qu_conversations (duplicate_hit coll x c q))
        = insert c (sr_canonical ` {item \<in> set (qu_normalized q). sr_object item = x} \<union> {k. broken_conversation hs k})"
      using I True by (auto simp: duplicate_hit_def Let_def)
    also have "\<dots> = {k. broken_conversation (hs @ [h]) k}"
    proof (intro set_eqI iffI)
      fix k assume "k \<in> insert c (sr_canonical ` {item \<in> set (qu_normalized q). sr_object item = x} \<union> {k. broken_conversation hs k})"
      then consider "k = c" | "(x, k) \<in> set (readable_ids hs)" | "broken_conversation hs k"
        using I by blast
      then show "k \<in> {k. broken_conversation (hs @ [h]) k}"
        by cases (use h xin in \<open>simp_all add: broken_snoc\<close>)
    next
      fix k assume "k \<in> {k. broken_conversation (hs @ [h]) k}"
      then consider "broken_conversation hs k" | "k = c" | "(x, k) \<in> set (readable_ids hs)"
        using h b by (auto simp: broken_snoc)
      then show "k \<in> insert c (sr_canonical ` {item \<in> set (qu_normalized q). sr_object item = x} \<union> {k. broken_conversation hs k})"
      proof cases
        case 3
        have "\<forall>(y, j) \<in> set (readable_ids hs).
            (\<exists>item \<in> set (qu_normalized q). sr_object item = y \<and> sr_canonical item = j) \<or> broken_conversation hs j"
          using I True by simp
        from bspec [OF this 3] show ?thesis by auto
      qed simp_all
    qed
    finally show ?thesis
      using True by simp
  next
    case False
    then show ?thesis
      using I keep(5) by simp
  qed
  have filt: "filter (\<lambda>y. sr_object y \<notin> D) (concat (map (accepted coll) (hs @ [h])))
      = filter (\<lambda>y. sr_object y \<notin> D) (concat (map (accepted coll) hs))" if "{x. duplicated (hs @ [h]) x} \<subseteq> D" for D
    using acc dup that by (simp add: filter_empty_conv) blast
  have sub: "{x. duplicated hs x} \<subseteq> {x. duplicated (hs @ [h]) x}"
    by (auto simp: duplicated_snoc)
  show ?thesis
    unfolding loop_inv_def keep convs
  proof (intro conjI)
    show "set (qu_seen q) = fst ` set (readable_ids (hs @ [h]))"
      using xin seen by (auto simp: rd)
    show "{x. duplicated (hs @ [h]) x} \<subseteq> set (x # qu_objects q)"
      using I h by (auto simp: duplicated_snoc)
    show "set (x # qu_objects q) \<subseteq> {x. duplicated (hs @ [h]) x}
        \<union> {x. coll \<noteq> conversations \<and> (\<exists>c. (x, c) \<in> set (readable_ids (hs @ [h])) \<and> c \<noteq> x)}"
    proof -
      have "set (qu_objects q) \<subseteq> {x. duplicated hs x} \<union> {x. coll \<noteq> conversations \<and> (\<exists>c. (x, c) \<in> set (readable_ids hs) \<and> c \<noteq> x)}"
        using I by blast
      then show ?thesis
        using dup sub unfolding rd by auto
    qed
    show "\<forall>D. {x. duplicated (hs @ [h]) x} \<subseteq> D \<longrightarrow>
        filter (\<lambda>x. sr_object x \<notin> D) (qu_normalized q)
        = filter (\<lambda>x. sr_object x \<notin> D) (concat (map (accepted coll) (hs @ [h])))"
      using I sub filt by (metis (no_types, lifting) order_trans)
    show "coll = conversations \<longrightarrow> (\<forall>(y, k) \<in> set (readable_ids (hs @ [h])).
        (\<exists>item \<in> set (qu_normalized q). sr_object item = y \<and> sr_canonical item = k) \<or> broken_conversation (hs @ [h]) k)"
    proof (intro impI ballI)
      fix p assume "coll = conversations" "p \<in> set (readable_ids (hs @ [h]))"
      moreover have "broken_conversation (hs @ [h]) c"
        using h xin by (auto simp: broken_snoc)
      ultimately show "case p of (y, k) \<Rightarrow> (\<exists>item \<in> set (qu_normalized q). sr_object item = y \<and> sr_canonical item = k)
          \<or> broken_conversation (hs @ [h]) k"
        using I by (cases p) (auto simp: rd broken_snoc)
    qed
    show "\<forall>k n e. map_of (qu_indices q) (k, n) = Some e \<longrightarrow> e = segment_identity k n"
      using I by blast
    show "\<forall>item \<in> set (qu_normalized q). (sr_object item, sr_canonical item) \<in> set (readable_ids (hs @ [h]))"
      using I by (auto simp: rd)
  qed (rule refl)
qed

lemma fresh_step:
  assumes inv: "loop_inv coll hs q" and h: "hit_ids h = Some (x, c)" and new: "x \<notin> set (qu_seen q)"
    and seen: "qu_seen q' = x # qu_seen q"
    and nor: "qu_normalized q' = qu_normalized q @ accepted coll h"
    and obj: "qu_objects q' = (if coll \<noteq> conversations \<and> c \<noteq> x then x # qu_objects q else qu_objects q)"
    and conv: "set (qu_conversations q') = (if coll = conversations \<and> broken_by h = Some c
        then insert c (set (qu_conversations q)) else set (qu_conversations q))"
    and ind: "\<forall>k n e. map_of (qu_indices q') (k, n) = Some e \<longrightarrow> e = segment_identity k n"
    and acc: "\<forall>item \<in> set (accepted coll h). sr_object item = x \<and> sr_canonical item = c"
    and b: "broken_by h = None \<or> broken_by h = Some c" "coll = conversations \<longrightarrow> accepted coll h \<noteq> [] \<or> broken_by h = Some c"
  shows "loop_inv coll (hs @ [h]) q'"
proof -
  note I = inv [unfolded loop_inv_def]
  have xnew: "x \<notin> fst ` set (readable_ids hs)"
    using I new by blast
  have rd: "readable_ids (hs @ [h]) = readable_ids hs @ [(x, c)]"
    by (simp add: readable_ids_snoc h)
  have dups: "duplicated (hs @ [h]) y = duplicated hs y" for y
    using xnew h by (auto simp: duplicated_snoc)
  have notdup: "\<not> duplicated hs x"
  proof
    assume "duplicated hs x"
    then have "x \<in> set (map fst (readable_ids hs))"
      unfolding duplicated_def count_list_in by simp
    with xnew show False by simp
  qed
  have brk: "broken_conversation (hs @ [h]) k \<longleftrightarrow> broken_conversation hs k \<or> broken_by h = Some k" for k
    using h xnew notdup by (auto simp: broken_snoc)
  show ?thesis
    unfolding loop_inv_def
  proof (intro conjI)
    show "set (qu_seen q') = fst ` set (readable_ids (hs @ [h]))"
      using I by (simp add: seen rd)
    show "{x. duplicated (hs @ [h]) x} \<subseteq> set (qu_objects q')"
      using I unfolding dups obj by auto
    show "set (qu_objects q') \<subseteq> {x. duplicated (hs @ [h]) x}
        \<union> {x. coll \<noteq> conversations \<and> (\<exists>c. (x, c) \<in> set (readable_ids (hs @ [h])) \<and> c \<noteq> x)}"
    proof -
      have "set (qu_objects q) \<subseteq> {x. duplicated hs x} \<union> {x. coll \<noteq> conversations \<and> (\<exists>c. (x, c) \<in> set (readable_ids hs) \<and> c \<noteq> x)}"
        using I by blast
      then show ?thesis
        unfolding dups obj rd by (auto split: if_splits)
    qed
    show "set (qu_conversations q') = (if coll = conversations then {k. broken_conversation (hs @ [h]) k} else {})"
      using I b(1) unfolding conv brk by (auto split: if_splits)
    show "\<forall>D. {x. duplicated (hs @ [h]) x} \<subseteq> D \<longrightarrow>
        filter (\<lambda>x. sr_object x \<notin> D) (qu_normalized q')
        = filter (\<lambda>x. sr_object x \<notin> D) (concat (map (accepted coll) (hs @ [h])))"
      using I unfolding dups nor by simp
    show "coll = conversations \<longrightarrow> (\<forall>(y, k) \<in> set (readable_ids (hs @ [h])).
        (\<exists>item \<in> set (qu_normalized q'). sr_object item = y \<and> sr_canonical item = k) \<or> broken_conversation (hs @ [h]) k)"
    proof (intro impI ballI)
      fix p assume cv: "coll = conversations" and p: "p \<in> set (readable_ids (hs @ [h]))"
      have old: "\<forall>(y, k) \<in> set (readable_ids hs).
          (\<exists>item \<in> set (qu_normalized q). sr_object item = y \<and> sr_canonical item = k) \<or> broken_conversation hs k"
        using I cv by simp
      have "(\<exists>item \<in> set (accepted coll h). sr_object item = x \<and> sr_canonical item = c) \<or> broken_by h = Some c"
        using b(2) cv acc by (cases "accepted coll h") auto
      then show "case p of (y, k) \<Rightarrow> (\<exists>item \<in> set (qu_normalized q'). sr_object item = y \<and> sr_canonical item = k)
          \<or> broken_conversation (hs @ [h]) k"
        using old p unfolding nor rd brk by (cases p) auto
    qed
    show "\<forall>k n e. map_of (qu_indices q') (k, n) = Some e \<longrightarrow> e = segment_identity k n"
      by (rule ind)
    show "\<forall>item \<in> set (qu_normalized q'). (sr_object item, sr_canonical item) \<in> set (readable_ids (hs @ [h]))"
      using I acc unfolding nor rd by auto
  qed
qed

lemma normalize_hit_step:
  assumes inv: "loop_inv coll hs q"
  shows "loop_inv coll (hs @ [h]) (normalize_hit coll h q)"
proof (cases h)
  case NotResult
  then show ?thesis
    by (intro not_readable_step [OF inv]) (simp_all add: hit_ids_def accepted_def broken_by_def normalize_hit_def)
next
  case (Hit ob ca tx sg)
  show ?thesis
  proof (cases "checked_hit ob ca tx")
    case (Inl e)
    show ?thesis
      by (rule not_readable_step [OF inv])
        (auto simp: Hit Inl hit_ids_def accepted_def broken_by_def normalize_hit_def malformed_hit_def split: option.split)
  next
    case (Inr r)
    obtain x c t where r: "r = (x, c, t)"
      by (cases r)
    have ids: "hit_ids h = Some (x, c)"
      by (simp add: Hit Inr r hit_ids_def)
    have acc: "\<forall>item \<in> set (accepted coll h). sr_object item = x \<and> sr_canonical item = c"
      by (simp add: Hit Inr r accepted_def)
    have b: "broken_by h = None \<or> broken_by h = Some c" "coll = conversations \<longrightarrow> accepted coll h \<noteq> [] \<or> broken_by h = Some c"
      by (auto simp: Hit Inr r accepted_def broken_by_def)
    show ?thesis
    proof (cases "x \<in> set (qu_seen q)")
      case True
      then have "normalize_hit coll h q = duplicate_hit coll x c q"
        by (simp add: normalize_hit_def Hit Inr r)
      with duplicate_step [OF inv ids True _ b(1)] acc show ?thesis
        by simp
    next
      case False
      have I: "\<forall>k n e. map_of (qu_indices q) (k, n) = Some e \<longrightarrow> e = segment_identity k n"
        using inv by (simp add: loop_inv_def)
      have seg: "x = segment_identity c n" if "checked_segment x c sg = Some n" for n
        using that by (auto simp: checked_segment_def split: pyval.splits if_splits)
      show ?thesis
        by (rule fresh_step [OF inv ids False _ _ _ _ _ acc b])
          (use I seg in \<open>auto simp: normalize_hit_def Hit Inr r False Let_def admit_hit_def accepted_def broken_by_def
             update_conv' conversations_def split: option.splits if_splits\<close>)
    qed
  qed
qed

lemma loop_inv_start:
  "loop_inv coll [] \<lparr>qu_normalized = [], qu_seen = [], qu_objects = [], qu_conversations = [], qu_indices = []\<rparr>"
  by (simp add: loop_inv_def readable_ids_def duplicated_def broken_conversation_def)

lemma loop_inv_fold:
  "loop_inv coll hits (fold (normalize_hit coll) hits
     \<lparr>qu_normalized = [], qu_seen = [], qu_objects = [], qu_conversations = [], qu_indices = []\<rparr>)"
  by (induction hits rule: rev_induct) (simp_all add: loop_inv_start normalize_hit_step)

lemma two_in_count:
  assumes "(x, c) \<in> set ps" "(x, d) \<in> set ps" "c \<noteq> d"
  shows "1 < count_list (map fst ps) x"
  using assms
proof (induction ps)
  case (Cons p ps)
  have "(x, e) \<in> set ps \<Longrightarrow> 0 < count_list (map fst ps) x" for e
    using count_list_in [of x "map fst ps"] by force
  with Cons show ?case
    by auto
qed simp

lemma accepted_readable:
  assumes "item \<in> set (accepted coll h)" and "h \<in> set hits"
  shows "(sr_object item, sr_canonical item) \<in> set (readable_ids hits)"
    and "coll \<noteq> conversations \<Longrightarrow> sr_canonical item = sr_object item"
proof -
  have "hit_ids h = Some (sr_object item, sr_canonical item)"
    using assms(1) by (auto simp: accepted_def hit_ids_def split: hit.splits sum.splits if_splits)
  with assms(2) show "(sr_object item, sr_canonical item) \<in> set (readable_ids hits)"
    by (force simp: readable_ids_def)
  show "coll \<noteq> conversations \<Longrightarrow> sr_canonical item = sr_object item"
    using assms(1) by (auto simp: accepted_def split: hit.splits sum.splits if_splits)
qed

lemma normalized_candidates_eq:
  "normalized_candidates (Some hits) collection = Inr (clean_candidates collection hits)"
proof -
  define q where "q = fold (normalize_hit collection) hits
     \<lparr>qu_normalized = [], qu_seen = [], qu_objects = [], qu_conversations = [], qu_indices = []\<rparr>"
  have I: "loop_inv collection hits q"
    unfolding q_def by (rule loop_inv_fold)
  let ?D = "set (qu_objects q)" and ?K = "set (qu_conversations q)" and ?all = "concat (map (accepted collection) hits)"
  have D: "{x. duplicated hits x} \<subseteq> ?D"
    "?D \<subseteq> {x. duplicated hits x} \<union> {x. collection \<noteq> conversations \<and> (\<exists>c. (x, c) \<in> set (readable_ids hits) \<and> c \<noteq> x)}"
    and K: "?K = (if collection = conversations then {k. broken_conversation hits k} else {})"
    using I unfolding loop_inv_def by blast+
  have N: "filter (\<lambda>x. sr_object x \<notin> ?D) (qu_normalized q) = filter (\<lambda>x. sr_object x \<notin> ?D) ?all"
    using I D(1) unfolding loop_inv_def by blast
  have "filter (\<lambda>x. sr_object x \<notin> ?D \<and> sr_canonical x \<notin> ?K) (qu_normalized q)
      = filter (\<lambda>x. sr_canonical x \<notin> ?K) (filter (\<lambda>x. sr_object x \<notin> ?D) (qu_normalized q))"
    by (simp add: conj_commute)
  also have "\<dots> = filter (\<lambda>x. sr_object x \<notin> ?D \<and> sr_canonical x \<notin> ?K) ?all"
    unfolding N by (simp add: conj_commute)
  also have "\<dots> = clean_candidates collection hits"
    unfolding clean_candidates_def
  proof (rule filter_cong [OF refl])
    fix item assume "item \<in> set ?all"
    then obtain h where h: "h \<in> set hits" "item \<in> set (accepted collection h)"
      by auto
    note r = accepted_readable [OF h(2,1)]
    have "duplicated hits (sr_object item)"
      if m: "collection \<noteq> conversations" "(sr_object item, c) \<in> set (readable_ids hits)" "c \<noteq> sr_object item" for c
      unfolding duplicated_def by (rule two_in_count [OF r(1) m(2)]) (use r(2) m in simp)
    then have "sr_object item \<in> ?D \<longleftrightarrow> duplicated hits (sr_object item)"
      using D by auto
    then show "(sr_object item \<notin> ?D \<and> sr_canonical item \<notin> ?K)
        = (\<not> duplicated hits (sr_object item)
           \<and> (collection = conversations \<longrightarrow> \<not> broken_conversation hits (sr_canonical item)))"
      by (simp add: K)
  qed
  finally show ?thesis
    by (simp add: normalized_candidates_def q_def Let_def)
qed

text \<open>
  C26 (equivalence). The quarantine loop, with its five mutable collections, keeps exactly the rows that are well
  formed in themselves, whose object id no other readable row has, and, in a search of conversations, whose
  conversation no malformed or duplicated row belongs to; in the order of the answer. It raises only when the
  answer is no list.
\<close>

theorem normalized_candidates_clean:
  "normalized_candidates results collection =
     (case results of None \<Rightarrow> Inl (TypeError ''hybrid_search must return a list'')
      | Some hits \<Rightarrow> Inr (clean_candidates collection hits))"
  by (cases results) (simp add: normalized_candidates_def, simp add: normalized_candidates_eq)

section \<open>Candidates\<close>

text \<open>What the later stages rely on.\<close>

lemma count_distinct: "(\<And>x. count_list xs x \<le> 1) \<Longrightarrow> distinct xs"
proof (induction xs)
  case (Cons y ys)
  have "count_list ys x \<le> 1" for x
    using Cons.prems [of x] by (simp split: if_splits)
  moreover have "y \<notin> set ys"
    using Cons.prems [of y] count_list_in [of y ys] by auto
  ultimately show ?case
    using Cons.IH by simp
qed simp

lemma count_filter: "count_list (filter P xs) x = (if P x then count_list xs x else 0)"
  by (induction xs) auto

lemma accepted_count:
  "count_list (map sr_object (concat (map (accepted collection) hits))) x \<le> count_list (map fst (readable_ids hits)) x"
proof (induction hits)
  case (Cons h hits)
  have "count_list (map sr_object (accepted collection h)) x
      \<le> count_list (map fst (case hit_ids h of None \<Rightarrow> [] | Some p \<Rightarrow> [p])) x"
    by (auto simp: accepted_def hit_ids_def split: hit.split sum.split)
  with Cons show ?case
    by (simp add: readable_ids_def count_list_append)
qed (simp add: readable_ids_def)

lemma clean_distinct: "distinct (map sr_object (clean_candidates collection hits))"
proof -
  let ?all = "concat (map (accepted collection) hits)"
  have "distinct (filter (\<lambda>x. \<not> duplicated hits x) (map sr_object ?all))"
    by (rule count_distinct)
      (use accepted_count [of collection hits] in \<open>auto simp: count_filter duplicated_def not_less intro: order_trans\<close>)
  then have "distinct (map sr_object (filter (\<lambda>i. \<not> duplicated hits (sr_object i)) ?all))"
    by (simp add: filter_map o_def)
  then have "distinct (map sr_object (filter (\<lambda>i. collection = conversations \<longrightarrow> \<not> broken_conversation hits (sr_canonical i))
      (filter (\<lambda>i. \<not> duplicated hits (sr_object i)) ?all)))"
    by (rule distinct_map_filter)
  then show ?thesis
    by (simp add: clean_candidates_def conj_commute)
qed

definition candidate_ok :: "string \<Rightarrow> search_result \<Rightarrow> bool" where
  "candidate_ok collection c \<longleftrightarrow> is_canonical (sr_object c) \<and> is_canonical (sr_canonical c) \<and> strip (sr_text c) \<noteq> []
     \<and> (if collection = conversations then \<exists>n \<ge> 0. sr_segment c = PInt n \<and> sr_object c = segment_identity (sr_canonical c) n
        else sr_canonical c = sr_object c)"

lemma required_text_Inr [py_iff]: "required_text v name = Inr s \<longleftrightarrow> v = PStr s \<and> strip s \<noteq> []"
  by (cases v) (auto simp: required_text_def)

lemma uuid_text_canonical: "uuid_text v name = Inr u \<Longrightarrow> is_canonical u"
  by (auto simp: uuid_text_def rbind_Inr_iff split: option.splits dest: uuid_canon_canonical)

lemma clean_ok:
  assumes "c \<in> set (clean_candidates collection hits)"
  shows "candidate_ok collection c"
proof -
  obtain h where h: "c \<in> set (accepted collection h)"
    using assms by (auto simp: clean_candidates_def)
  then obtain ob ca tx sg where hit: "h = Hit ob ca tx sg"
    by (cases h) (auto simp: accepted_def)
  with h obtain r where r: "checked_hit ob ca tx = Inr r"
    by (cases "checked_hit ob ca tx") (auto simp: accepted_def)
  obtain x k t where "r = (x, k, t)"
    by (cases r)
  with h hit r have ck: "checked_hit ob ca tx = Inr (x, k, t)"
    and c: "c = \<lparr>sr_object = x, sr_canonical = k, sr_text = t, sr_segment = sg\<rparr>"
    and m: "if collection = conversations then checked_segment x k sg \<noteq> None else k = x"
    by (simp_all add: accepted_def split: if_splits)
  have "is_canonical x" "is_canonical k" "strip t \<noteq> []"
    using ck uuid_text_canonical by (auto simp: checked_hit_def rbind_Inr_iff required_text_Inr)
  moreover have "\<exists>n \<ge> 0. sg = PInt n \<and> x = segment_identity k n" if "checked_segment x k sg \<noteq> None"
    using that by (cases sg) (auto simp: checked_segment_def split: if_splits)
  ultimately show ?thesis
    using m unfolding candidate_ok_def c by (simp split: if_splits)
qed

end
