(* ===== verification/Ranking.thy ===== *)
theory Ranking
  imports Search_Results Model_Config
begin

text \<open>
  \<open>backend/rag/retrieval.py\<close>, second stage: the cross-encoder ranking of the candidates, the collapse of
  conversation segments into conversations, the adaptive cut, and the selection by maximal marginal relevance.
  Scores and vector components are reals: rounding is not modelled.
\<close>

section \<open>Candidates with scores\<close>

text \<open>The dictionaries the stages pass on; a key that is added later is an option.\<close>

record candidate =
  cd_object :: string
  cd_canonical :: string
  cd_text :: string
  cd_segment :: pyval
  cd_score :: real
  cd_segment_id :: "string option"
  cd_raw :: "string option"
  cd_diversity :: "real list option"

definition scored :: "search_result \<Rightarrow> real \<Rightarrow> candidate" where
  "scored c score =
     \<lparr>cd_object = sr_object c, cd_canonical = sr_canonical c, cd_text = sr_text c, cd_segment = sr_segment c,
      cd_score = score, cd_segment_id = None, cd_raw = None, cd_diversity = None\<rparr>"

definition rank_key :: "candidate \<Rightarrow> real \<times> string" where
  "rank_key c = (- cd_score c, cd_object c)"

section \<open>The cross-encoder\<close>

datatype rerank_item = NotRerankResult | RerankResult (ri_index: pyval) (ri_score: pyval)

definition rerank_score :: "pyval \<Rightarrow> real res" where
  "rerank_score v =
     (case v of
        PBool _ \<Rightarrow> Inl (TypeError ''reranker score must be numeric'')
      | _ \<Rightarrow> rbind (py_float_value v) (\<lambda>s.
          case s of Fin x \<Rightarrow> Inr x | _ \<Rightarrow> Inl (ValueError ''reranker score must be finite'')))"

fun rerank_items :: "search_result list \<Rightarrow> int list \<Rightarrow> rerank_item list \<Rightarrow> candidate list res" where
  "rerank_items candidates used [] = Inr []"
| "rerank_items candidates used (NotRerankResult # items) =
     Inl (TypeError ''reranker results must be RerankResult values'')"
| "rerank_items candidates used (RerankResult index score # items) =
     (case index of
        PInt i \<Rightarrow>
          if \<not> (0 \<le> i \<and> i < int (length candidates)) then Inl (ValueError ''reranker result index is out of range'')
          else if i \<in> set used then Inl (ValueError ''reranker result indices must be unique'')
          else rbind (rerank_score score) (\<lambda>x.
            rbind (rerank_items candidates (i # used) items) (\<lambda>rest.
            Inr (scored (candidates ! nat i) x # rest)))
      | _ \<Rightarrow> Inl (TypeError ''reranker result index must be an integer''))"

text \<open>\<open>_cross_encoder\<close> on the answer of the reranker; \<open>None\<close> is an answer that is no sequence.\<close>

definition ranked :: "search_result list \<Rightarrow> rerank_item list option \<Rightarrow> candidate list res" where
  "ranked candidates raw_results =
     (case raw_results of
        None \<Rightarrow> Inl (TypeError ''reranker must return a sequence of RerankResult values'')
      | Some items \<Rightarrow>
          if length items \<noteq> length candidates then Inl (ValueError ''reranker must return one score for every candidate'')
          else rbind (rerank_items candidates [] items) (\<lambda>selected. Inr (sort_key rank_key selected)))"

section \<open>Conversations\<close>

definition conversation_id :: "candidate \<Rightarrow> string res" where
  "conversation_id c = required_text (PStr (cd_canonical c)) ''conversation_id''"

definition segment_index :: "candidate \<Rightarrow> int res" where
  "segment_index c =
     (case cd_segment c of
        PInt n \<Rightarrow> if n < 0 then Inl (ValueError ''segment_index must be a non-negative integer'') else Inr n
      | _ \<Rightarrow> Inl (ValueError ''segment_index must be a non-negative integer''))"

definition collapse_key :: "candidate \<Rightarrow> (real \<times> int \<times> string) res" where
  "collapse_key c = rbind (segment_index c) (\<lambda>n. Inr (- cd_score c, n, cd_object c))"

fun collapse_into :: "(string, candidate) dict \<Rightarrow> candidate list \<Rightarrow> (string, candidate) dict res" where
  "collapse_into selected [] = Inr selected"
| "collapse_into selected (c # cs) =
     rbind (conversation_id c) (\<lambda>k.
     rbind (case map_of selected k of
              None \<Rightarrow> Inr True
            | Some current \<Rightarrow>
                rbind (collapse_key c) (\<lambda>a. rbind (collapse_key current) (\<lambda>b. Inr (a < b)))) (\<lambda>better.
     collapse_into (if better then AList.update k c selected else selected) cs))"

definition collapse_conversations :: "candidate list \<Rightarrow> int \<Rightarrow> candidate list res" where
  "collapse_conversations candidates limit =
     rbind (collapse_into [] candidates) (\<lambda>selected.
       Inr (take (nat limit) (sort_key rank_key
         (map (\<lambda>(k, c). c\<lparr>cd_segment_id := Some (cd_object c), cd_object := k\<rparr>) selected))))"

section \<open>Relevance\<close>

text \<open>The finite numbers of a checked \<open>RetrievalConfig\<close>.\<close>

definition real_of_float :: "pyfloat \<Rightarrow> real" where
  "real_of_float f = (case f of Fin x \<Rightarrow> x | _ \<Rightarrow> 0)"

definition above_floor :: "retrieval_config \<Rightarrow> candidate \<Rightarrow> bool" where
  "above_floor config c \<longleftrightarrow> pf_le (rc_relevance_floor config) (Fin (cd_score c))"

definition policy_empty_pool_floor :: real where "policy_empty_pool_floor = -3"

definition eligible_candidates :: "candidate list \<Rightarrow> retrieval_config \<Rightarrow> string \<Rightarrow> candidate list" where
  "eligible_candidates reranked config collection =
     (let eligible = filter (above_floor config) reranked
      in if eligible = [] \<and> collection = ''policy'' \<and> reranked \<noteq> []
            \<and> policy_empty_pool_floor \<le> cd_score (hd reranked)
         then [hd reranked] else eligible)"

definition normalize_scores :: "candidate list \<Rightarrow> real list" where
  "normalize_scores candidates =
     (if candidates = [] then []
      else (let scores = map cd_score candidates; low = Min (set scores); high = Max (set scores)
            in if high = low then replicate (length scores) 1
               else map (\<lambda>score. (score - low) / (high - low)) scores))"

definition sigmoid_score :: "real \<Rightarrow> real" where
  "sigmoid_score score =
     (if 0 \<le> score then 1 / (1 + exp (- score)) else (let exponent = exp score in exponent / (1 + exponent)))"

definition score_gaps :: "real list \<Rightarrow> real list" where
  "score_gaps scores = map2 (-) (butlast scores) (tl scores)"

text \<open>\<open>xs.index(x)\<close> for an \<open>x\<close> in the list.\<close>

definition first_index :: "'a \<Rightarrow> 'a list \<Rightarrow> nat" where
  "first_index x xs = length (takeWhile (\<lambda>y. y \<noteq> x) xs)"

definition adaptive_k :: "candidate list \<Rightarrow> retrieval_config \<Rightarrow> nat" where
  "adaptive_k eligible config =
     (if eligible = [] then 0
      else (let gaps = score_gaps (map (\<lambda>c. sigmoid_score (cd_score c)) eligible)
            in if gaps = [] then 1
               else (let largest = Max (set gaps)
                     in if pf_lt (Fin largest) (rc_gap_threshold config) then length eligible
                        else first_index largest gaps + 1)))"

section \<open>Maximal marginal relevance\<close>

definition norm_of :: "real list \<Rightarrow> real" where
  "norm_of v = sqrt (sum_list (map (\<lambda>x. x * x) v))"

definition mmr_cosine :: "real list \<Rightarrow> real list \<Rightarrow> real res" where
  "mmr_cosine left right =
     (if length left \<noteq> length right \<or> left = []
      then Inl (ValueError ''MMR vectors must be non-empty and have equal dimensions'')
      else if norm_of left \<le> 0 \<or> norm_of right \<le> 0 then Inl (ValueError ''MMR vectors must have positive norms'')
      else Inr (min 1 (max 0 (sum_list (map2 (*) left right) / (norm_of left * norm_of right)))))"

definition diversity_vector :: "candidate \<Rightarrow> real list res" where
  "diversity_vector c =
     (case cd_diversity c of None \<Rightarrow> Inl (KeyError (PStr ''diversity_vector'')) | Some v \<Rightarrow> Inr v)"

definition pair_similarity :: "candidate list \<Rightarrow> nat \<Rightarrow> nat \<Rightarrow> real res" where
  "pair_similarity pool i j =
     rbind (diversity_vector (pool ! i)) (\<lambda>a. rbind (diversity_vector (pool ! j)) (\<lambda>b. mmr_cosine a b))"

definition mmr_objective :: "candidate list \<Rightarrow> real list \<Rightarrow> real \<Rightarrow> nat list \<Rightarrow> nat \<Rightarrow> real res" where
  "mmr_objective pool normalized lam selected i =
     rbind (if selected = [] then Inr 0
            else rbind (rmap (pair_similarity pool i) selected) (\<lambda>cosines. Inr (Max (set cosines)))) (\<lambda>redundancy.
     Inr (lam * (normalized ! i) - (1 - lam) * redundancy))"

text \<open>The scan for the best index: the objective so far is \<open>None\<close> for minus infinity.\<close>

fun mmr_best :: "(nat \<Rightarrow> real res) \<Rightarrow> nat \<Rightarrow> real option \<Rightarrow> nat list \<Rightarrow> nat res" where
  "mmr_best objective best value [] = Inr best"
| "mmr_best objective best value (i # indices) =
     rbind (objective i) (\<lambda>x.
       if (case value of None \<Rightarrow> True | Some y \<Rightarrow> y < x) then mmr_best objective i (Some x) indices
       else mmr_best objective best value indices)"

text \<open>The loop, run as often as there are places left.\<close>

primrec mmr_select ::
    "candidate list \<Rightarrow> real list \<Rightarrow> real \<Rightarrow> nat \<Rightarrow> nat list \<Rightarrow> nat list \<Rightarrow> nat list res" where
  "mmr_select pool normalized lam 0 remaining selected = Inr selected"
| "mmr_select pool normalized lam (Suc places) remaining selected =
     (if remaining = [] then Inr selected
      else rbind (mmr_best (mmr_objective pool normalized lam selected) (hd remaining) None remaining) (\<lambda>best.
        mmr_select pool normalized lam places (remove1 best remaining) (selected @ [best])))"

definition mmr :: "candidate list \<Rightarrow> int \<Rightarrow> retrieval_config \<Rightarrow> candidate list res" where
  "mmr eligible k config =
     (if k = 0 then Inr []
      else rbind (mmr_select eligible (normalize_scores eligible) (real_of_float (rc_mmr_lambda config))
                    (min (nat k) (length eligible)) [0..<length eligible] []) (\<lambda>indices.
        Inr (map (\<lambda>i. eligible ! i) indices)))"

section \<open>Ranking\<close>

text \<open>What a well-formed result of the reranker says.\<close>

definition rerank_reading :: "rerank_item \<Rightarrow> (int \<times> real) option" where
  "rerank_reading item = (case item of
       RerankResult (PInt i) score \<Rightarrow> (case rerank_score score of Inr x \<Rightarrow> Some (i, x) | Inl _ \<Rightarrow> None)
     | _ \<Rightarrow> None)"

lemma rerank_items_Inr:
  "rerank_items cs used items = Inr rs \<longleftrightarrow>
     (\<exists>ps. map rerank_reading items = map Some ps \<and> distinct (map fst ps) \<and> set (map fst ps) \<inter> set used = {}
        \<and> set (map fst ps) \<subseteq> {0..<int (length cs)} \<and> rs = map (\<lambda>(i, x). scored (cs ! nat i) x) ps)"
proof (induction items arbitrary: used rs)
  case Nil
  then show ?case by auto
next
  case (Cons item items)
  show ?case
  proof (cases "rerank_reading item")
    case None
    then have "\<exists>e. rerank_items cs used (item # items) = Inl e"
      by (cases item) (auto simp: rerank_reading_def split: pyval.splits sum.splits)
    with None show ?thesis
      by (auto simp: Cons_eq_map_conv)
  next
    case (Some p)
    then obtain i v x where item: "item = RerankResult (PInt i) v" "rerank_score v = Inr x" "p = (i, x)"
      by (auto simp: rerank_reading_def split: rerank_item.splits pyval.splits sum.splits)
    show ?thesis
    proof
      assume "rerank_items cs used (item # items) = Inr rs"
      then obtain rest where i: "0 \<le> i" "i < int (length cs)" "i \<notin> set used"
        and rest: "rerank_items cs (i # used) items = Inr rest" and rs: "rs = scored (cs ! nat i) x # rest"
        by (auto simp: item rbind_Inr_iff split: if_splits)
      from rest [unfolded Cons.IH] obtain ps where
        "map rerank_reading items = map Some ps" "distinct (map fst ps)" "set (map fst ps) \<inter> set (i # used) = {}"
        "set (map fst ps) \<subseteq> {0..<int (length cs)}" "rest = map (\<lambda>(i, x). scored (cs ! nat i) x) ps"
        by blast
      with i rs Some item show "\<exists>ps. map rerank_reading (item # items) = map Some ps \<and> distinct (map fst ps)
          \<and> set (map fst ps) \<inter> set used = {} \<and> set (map fst ps) \<subseteq> {0..<int (length cs)}
          \<and> rs = map (\<lambda>(i, x). scored (cs ! nat i) x) ps"
        by (intro exI [of _ "p # ps"]) auto
    next
      assume "\<exists>ps. map rerank_reading (item # items) = map Some ps \<and> distinct (map fst ps)
          \<and> set (map fst ps) \<inter> set used = {} \<and> set (map fst ps) \<subseteq> {0..<int (length cs)}
          \<and> rs = map (\<lambda>(i, x). scored (cs ! nat i) x) ps"
      then obtain qs where q: "map rerank_reading (item # items) = map Some qs" "distinct (map fst qs)"
        "set (map fst qs) \<inter> set used = {}" "set (map fst qs) \<subseteq> {0..<int (length cs)}"
        "rs = map (\<lambda>(i, x). scored (cs ! nat i) x) qs"
        by blast
      then obtain ps where qs: "qs = p # ps" "map rerank_reading items = map Some ps"
        using Some by (cases qs) auto
      have "rerank_items cs (i # used) items = Inr (map (\<lambda>(i, x). scored (cs ! nat i) x) ps)"
        unfolding Cons.IH using q qs item by (intro exI [of _ ps]) auto
      then show "rerank_items cs used (item # items) = Inr rs"
        using q qs item by auto
    qed
  qed
qed

lemma ranked_Inr:
  "ranked candidates raw = Inr rs \<longleftrightarrow>
     (\<exists>items ps. raw = Some items \<and> map rerank_reading items = map Some ps
        \<and> mset (map fst ps) = mset [0..int (length candidates) - 1]
        \<and> rs = sort_key rank_key (map (\<lambda>(i, x). scored (candidates ! nat i) x) ps))" (is "?l \<longleftrightarrow> ?r")
proof -
  have perm: "length ps = length candidates \<and> distinct (map fst ps) \<and> set (map fst ps) \<subseteq> {0..<int (length candidates)}
      \<longleftrightarrow> mset (map fst ps) = mset [0..int (length candidates) - 1]" (is "?a \<longleftrightarrow> ?b") for ps :: "(int \<times> real) list"
  proof
    assume a: ?a
    then have "card (set (map fst ps)) = length candidates"
      by (metis distinct_card length_map)
    then have "set (map fst ps) = {0..<int (length candidates)}"
      using a by (intro card_subset_eq) auto
    then have "set (map fst ps) = set [0..int (length candidates) - 1]"
      by auto
    with a show ?b
      by (metis distinct_upto set_eq_iff_mset_eq_distinct)
  next
    assume b: ?b
    have "length (map fst ps) = length [0..int (length candidates) - 1]"
      using b by (rule mset_eq_length)
    moreover have "distinct (map fst ps)"
      using b mset_eq_imp_distinct_iff by (metis distinct_upto)
    moreover have "set (map fst ps) = {0..int (length candidates) - 1}"
      using mset_eq_setD [OF b] by simp
    ultimately show ?a
      by auto
  qed
  have len: "map rerank_reading items = map Some ps \<Longrightarrow> length items = length ps" for items ps
    by (metis length_map)
  show ?thesis
  proof
    assume ?l
    then obtain items sel where raw: "raw = Some items" "length items = length candidates"
      "rerank_items candidates [] items = Inr sel" "rs = sort_key rank_key sel"
      by (auto simp: ranked_def rbind_Inr_iff split: option.splits if_splits)
    from raw(3) [unfolded rerank_items_Inr] obtain ps where p: "map rerank_reading items = map Some ps"
      "distinct (map fst ps)" "set (map fst ps) \<subseteq> {0..<int (length candidates)}"
      "sel = map (\<lambda>(i, x). scored (candidates ! nat i) x) ps"
      by blast
    then have "mset (map fst ps) = mset [0..int (length candidates) - 1]"
      using perm [of ps] len [OF p(1)] raw(2) by metis
    with raw p show ?r by blast
  next
    assume ?r
    then obtain items ps where r: "raw = Some items" "map rerank_reading items = map Some ps"
      "mset (map fst ps) = mset [0..int (length candidates) - 1]"
      "rs = sort_key rank_key (map (\<lambda>(i, x). scored (candidates ! nat i) x) ps)"
      by blast
    note p = perm [of ps, THEN iffD2, OF r(3)]
    have "rerank_items candidates [] items = Inr (map (\<lambda>(i, x). scored (candidates ! nat i) x) ps)"
      unfolding rerank_items_Inr using r p by (intro exI [of _ ps]) auto
    then show ?l
      using r p len [OF r(2)] by (simp add: ranked_def)
  qed
qed

text \<open>
  C30 (equivalence). The ranking succeeds exactly when the reranker answers with one result per candidate whose
  indices are a permutation of the candidates' and whose scores are finite numbers; it then gives every candidate
  the score its index got, and orders them by falling score, ties by object id.
\<close>

theorem ranked_iff:
  "ranked candidates raw = Inr rs \<longleftrightarrow>
     (\<exists>items ps. raw = Some items \<and> map rerank_reading items = map Some ps
        \<and> mset (map fst ps) = mset [0..int (length candidates) - 1]
        \<and> rs = sort_key rank_key (map (\<lambda>(i, x). scored (candidates ! nat i) x) ps))"
  by (rule ranked_Inr)

section \<open>Collapsing conversations\<close>

definition segment_candidate :: "candidate \<Rightarrow> bool" where
  "segment_candidate c \<longleftrightarrow> (\<exists>n \<ge> 0. cd_segment c = PInt n) \<and> strip (cd_canonical c) \<noteq> []"

definition segment_key :: "candidate \<Rightarrow> real \<times> int \<times> string" where
  "segment_key c = (- cd_score c, (case cd_segment c of PInt n \<Rightarrow> n | _ \<Rightarrow> 0), cd_object c)"

lemma segment_candidate_eval:
  assumes "segment_candidate c"
  shows "conversation_id c = Inr (cd_canonical c)" "collapse_key c = Inr (segment_key c)"
  using assms by (auto simp: segment_candidate_def conversation_id_def required_text_def collapse_key_def
      segment_index_def segment_key_def)

definition best_of :: "candidate list \<Rightarrow> (string, candidate) dict \<Rightarrow> bool" where
  "best_of cs sel \<longleftrightarrow> distinct (map fst sel)
     \<and> (\<forall>k. map_of sel k = None \<longleftrightarrow> k \<notin> cd_canonical ` set cs)
     \<and> (\<forall>k b. map_of sel k = Some b \<longrightarrow> b \<in> set cs \<and> cd_canonical b = k
          \<and> (\<forall>c \<in> set cs. cd_canonical c = k \<longrightarrow> segment_key b \<le> segment_key c))"

lemma best_of_put:
  assumes b: "best_of ps sel"
    and better: "\<And>d. map_of sel (cd_canonical c) = Some d \<Longrightarrow> segment_key c < segment_key d"
  shows "best_of (ps @ [c]) (AList.update (cd_canonical c) c sel)"
proof -
  have "segment_key c \<le> segment_key e" if "e \<in> set ps" "cd_canonical e = cd_canonical c" for e
  proof (cases "map_of sel (cd_canonical c)")
    case None
    with b that have False
      unfolding best_of_def by (metis image_eqI)
    then show ?thesis ..
  next
    case (Some d)
    then have "segment_key d \<le> segment_key e"
      using b that unfolding best_of_def by blast
    with better [OF Some] show ?thesis by simp
  qed
  then show ?thesis
    using b unfolding best_of_def by (auto simp: distinct_update update_conv' image_iff)
qed

lemma best_of_skip:
  assumes b: "best_of ps sel" and d: "map_of sel (cd_canonical c) = Some d" "\<not> segment_key c < segment_key d"
  shows "best_of (ps @ [c]) sel"
proof -
  have "cd_canonical c \<in> cd_canonical ` set ps"
    using b d(1) unfolding best_of_def by (metis option.distinct(1))
  moreover have "segment_key e \<le> segment_key c" if "map_of sel k = Some e" "cd_canonical c = k" for k e
    using that d by auto
  ultimately show ?thesis
    using b unfolding best_of_def by (auto simp: image_iff)
qed

lemma collapse_into_best:
  assumes "\<forall>c \<in> set (ps @ cs). segment_candidate c" and "best_of ps sel"
  shows "\<exists>sel'. collapse_into sel cs = Inr sel' \<and> best_of (ps @ cs) sel'"
  using assms
proof (induction cs arbitrary: ps sel)
  case Nil
  then show ?case by simp
next
  case (Cons c cs)
  have c: "segment_candidate c"
    using Cons.prems(1) by simp
  note ev = segment_candidate_eval [OF c]
  have next_step: "\<exists>sel''. collapse_into sel' cs = Inr sel'' \<and> best_of (ps @ c # cs) sel''" if "best_of (ps @ [c]) sel'" for sel'
    using Cons.IH [of "ps @ [c]" sel'] that Cons.prems(1) by simp
  show ?case
  proof (cases "map_of sel (cd_canonical c)")
    case None
    then show ?thesis
      using next_step [OF best_of_put [OF Cons.prems(2)]] by (simp add: ev)
  next
    case (Some d)
    then have "d \<in> set ps"
      using Cons.prems(2) unfolding best_of_def by blast
    then have "collapse_key d = Inr (segment_key d)"
      using Cons.prems(1) segment_candidate_eval(2) by simp
    moreover have "best_of (ps @ [c]) (if segment_key c < segment_key d then AList.update (cd_canonical c) c sel else sel)"
      using best_of_put [OF Cons.prems(2), of c] best_of_skip [OF Cons.prems(2) Some] Some by simp
    ultimately show ?thesis
      using next_step by (simp add: ev Some)
  qed
qed

definition as_conversation :: "candidate \<Rightarrow> candidate" where
  "as_conversation c = c\<lparr>cd_segment_id := Some (cd_object c), cd_object := cd_canonical c\<rparr>"

lemma collapse_conversations_spec:
  assumes "\<forall>c \<in> set cs. segment_candidate c"
  shows "\<exists>full. collapse_conversations cs limit = Inr (take (nat limit) full)
    \<and> sorted (map rank_key full) \<and> distinct (map cd_object full)
    \<and> cd_object ` set full = cd_canonical ` set cs
    \<and> (\<forall>r \<in> set full. \<exists>b \<in> set cs. r = as_conversation b
          \<and> (\<forall>c \<in> set cs. cd_canonical c = cd_canonical b \<longrightarrow> segment_key b \<le> segment_key c))"
proof -
  have "best_of [] []"
    by (simp add: best_of_def)
  then obtain sel where sel: "collapse_into [] cs = Inr sel" "best_of cs sel"
    using collapse_into_best [of "[]" cs "[]"] assms by auto
  have b: "distinct (map fst sel)" "\<And>k. map_of sel k = None \<longleftrightarrow> k \<notin> cd_canonical ` set cs"
    using sel(2) unfolding best_of_def by simp_all
  have b3: "b \<in> set cs \<and> cd_canonical b = k
      \<and> (\<forall>c \<in> set cs. cd_canonical c = k \<longrightarrow> segment_key b \<le> segment_key c)" if "(k, b) \<in> set sel" for k b
    using sel(2) map_of_is_SomeI [OF b(1) that] unfolding best_of_def by simp
  let ?g = "\<lambda>(k, c). c\<lparr>cd_segment_id := Some (cd_object c), cd_object := k\<rparr>"
  have g: "?g p = as_conversation (snd p)" if "p \<in> set sel" for p
    using b3 [of "fst p" "snd p"] that by (auto simp: as_conversation_def case_prod_unfold)
  let ?full = "sort_key rank_key (map ?g sel)"
  have objs: "map cd_object (map ?g sel) = map fst sel"
    by (simp add: case_prod_unfold o_def)
  have ms: "mset (map cd_object ?full) = mset (map fst sel)"
    unfolding objs [symmetric] mset_map by simp
  show ?thesis
  proof (intro exI [of _ ?full] conjI ballI)
    show "collapse_conversations cs limit = Inr (take (nat limit) ?full)"
      by (simp add: collapse_conversations_def sel(1))
    show "sorted (map rank_key ?full)"
      by simp
    show "distinct (map cd_object ?full)"
      using b(1) ms mset_eq_imp_distinct_iff by blast
    have "fst ` set sel = cd_canonical ` set cs"
      using b(2) by (auto simp: map_of_eq_None_iff)
    then show "cd_object ` set ?full = cd_canonical ` set cs"
      using mset_eq_setD [OF ms] by simp
    fix r assume "r \<in> set ?full"
    then obtain p where p: "p \<in> set sel" "r = ?g p"
      by auto
    then show "\<exists>b \<in> set cs. r = as_conversation b
        \<and> (\<forall>c \<in> set cs. cd_canonical c = cd_canonical b \<longrightarrow> segment_key b \<le> segment_key c)"
      using g [OF p(1)] b3 [of "fst p" "snd p"] by (intro bexI [of _ "snd p"]) auto
  qed
qed

text \<open>
  Collapsing ranked conversation segments keeps, of every conversation, its best segment, by
  score, then segment index, then id, under the conversation's id, and cuts the list ordered by score at the limit.
\<close>

theorem collapse_keeps_best_segments:
  assumes "\<forall>c \<in> set cs. (\<exists>n \<ge> 0. cd_segment c = PInt n) \<and> strip (cd_canonical c) \<noteq> []"
  shows "\<exists>full. collapse_conversations cs limit = Inr (take (nat limit) full)
    \<and> sorted (map (\<lambda>c. (- cd_score c, cd_object c)) full) \<and> distinct (map cd_object full)
    \<and> cd_object ` set full = cd_canonical ` set cs
    \<and> (\<forall>r \<in> set full. \<exists>b \<in> set cs. r = b\<lparr>cd_segment_id := Some (cd_object b), cd_object := cd_canonical b\<rparr>
          \<and> (\<forall>c \<in> set cs. cd_canonical c = cd_canonical b \<longrightarrow> segment_key b \<le> segment_key c))"
  using collapse_conversations_spec [of cs limit] assms
  by (simp add: segment_candidate_def rank_key_def [abs_def] as_conversation_def)

section \<open>The adaptive cut\<close>

lemma first_index_less: "x \<in> set xs \<Longrightarrow> first_index x xs < length xs \<and> xs ! first_index x xs = x
    \<and> (\<forall>i < first_index x xs. xs ! i \<noteq> x)"
  unfolding first_index_def
  by (induction xs) (auto simp: nth_Cons split: nat.splits)

lemma length_score_gaps: "length (score_gaps xs) = length xs - 1"
  by (simp add: score_gaps_def)

lemma nth_score_gaps: "i + 1 < length xs \<Longrightarrow> score_gaps xs ! i = xs ! i - xs ! (i + 1)"
  by (simp add: score_gaps_def nth_butlast nth_tl)



theorem collapse_keeps_best_segments_witness:
  "\<exists>rs. collapse_conversations [scored \<lparr>sr_object = ''s'', sr_canonical = ''c'', sr_text = ''t'', sr_segment = PInt 0\<rparr> 1] 5 = Inr rs
     \<and> map cd_object rs = [''c'']"
proof -
  let ?s = "scored \<lparr>sr_object = ''s'', sr_canonical = ''c'', sr_text = ''t'', sr_segment = PInt 0\<rparr> 1"
  have "strip ''c'' \<noteq> []"
    by code_simp
  then have "\<forall>c \<in> set [?s]. (\<exists>n \<ge> 0. cd_segment c = PInt n) \<and> strip (cd_canonical c) \<noteq> []"
    by (simp add: scored_def)
  from collapse_keeps_best_segments [OF this, of 5] obtain full where f:
    "collapse_conversations [?s] 5 = Inr (take 5 full)" "distinct (map cd_object full)"
    "cd_object ` set full = cd_canonical ` set [?s]"
    by auto
  have "set (map cd_object full) = {''c''}"
    using f(3) by (simp add: scored_def)
  moreover from this have "length (map cd_object full) = 1"
    using distinct_card [OF f(2)] by simp
  ultimately obtain r where "full = [r]" "cd_object r = ''c''"
    by (cases full) auto
  then show ?thesis
    using f(1) by simp
qed

section \<open>Maximal marginal relevance is total on usable vectors\<close>

definition usable :: "nat \<Rightarrow> candidate \<Rightarrow> bool" where
  "usable dims c \<longleftrightarrow> (\<exists>v. cd_diversity c = Some v \<and> length v = dims \<and> 0 < norm_of v)"

definition cosine_value :: "candidate \<Rightarrow> candidate \<Rightarrow> real" where
  "cosine_value c d = (let a = the (cd_diversity c); b = the (cd_diversity d)
     in min 1 (max 0 (sum_list (map2 (*) a b) / (norm_of a * norm_of b))))"

definition mmr_value :: "candidate list \<Rightarrow> real \<Rightarrow> nat list \<Rightarrow> nat \<Rightarrow> real" where
  "mmr_value pool lam selected i =
     lam * (normalize_scores pool ! i)
     - (1 - lam) * (if selected = [] then 0 else Max (set (map (\<lambda>j. cosine_value (pool ! i) (pool ! j)) selected)))"

lemma mmr_cosine_usable:
  assumes "usable dims c" "usable dims d" "0 < dims"
  shows "rbind (diversity_vector c) (\<lambda>a. rbind (diversity_vector d) (\<lambda>b. mmr_cosine a b)) = Inr (cosine_value c d)"
  using assms by (auto simp: usable_def diversity_vector_def mmr_cosine_def cosine_value_def)

lemma mmr_objective_usable:
  assumes "\<forall>c \<in> set pool. usable dims c" "0 < dims" "i < length pool" "\<forall>j \<in> set selected. j < length pool"
  shows "mmr_objective pool (normalize_scores pool) lam selected i = Inr (mmr_value pool lam selected i)"
proof -
  have "rmap (pair_similarity pool i) selected = Inr (map (\<lambda>j. cosine_value (pool ! i) (pool ! j)) selected)"
    by (rule rmap_all_Inr) (use assms in \<open>simp add: pair_similarity_def mmr_cosine_usable [where dims = dims]\<close>)
  then show ?thesis
    by (simp add: mmr_objective_def mmr_value_def)
qed

lemma mmr_best_value:
  assumes "\<And>i. i \<in> set js \<Longrightarrow> f i = Inr (g i)"
    and "case val of None \<Rightarrow> js \<noteq> [] | Some y \<Rightarrow> y = g b"
  shows "\<exists>m. mmr_best f b val js = Inr m \<and> (m \<in> set js \<or> m = b \<and> val \<noteq> None)
    \<and> (\<forall>i \<in> set js. g i \<le> g m) \<and> (val \<noteq> None \<longrightarrow> g b \<le> g m)"
  using assms
proof (induction js arbitrary: b val)
  case Nil
  then show ?case by (cases val) auto
next
  case (Cons i js)
  show ?case
  proof (cases "case val of None \<Rightarrow> True | Some y \<Rightarrow> y < g i")
    case True
    have "\<exists>m. mmr_best f i (Some (g i)) js = Inr m \<and> (m \<in> set js \<or> m = i \<and> Some (g i) \<noteq> None)
        \<and> (\<forall>j \<in> set js. g j \<le> g m) \<and> (Some (g i) \<noteq> None \<longrightarrow> g i \<le> g m)"
      by (rule Cons.IH) (use Cons.prems(1) in auto)
    then show ?thesis
      using True Cons.prems by (cases val) auto
  next
    case False
    then obtain y where y: "val = Some y" "y = g b" "\<not> y < g i"
      using Cons.prems(2) by (cases val) auto
    have "\<exists>m. mmr_best f b (Some y) js = Inr m \<and> (m \<in> set js \<or> m = b \<and> Some y \<noteq> None)
        \<and> (\<forall>j \<in> set js. g j \<le> g m) \<and> (Some y \<noteq> None \<longrightarrow> g b \<le> g m)"
      by (rule Cons.IH) (use Cons.prems(1) y in auto)
    then show ?thesis
      using False Cons.prems y by auto
  qed
qed

definition greedy :: "candidate list \<Rightarrow> real \<Rightarrow> nat list \<Rightarrow> bool" where
  "greedy pool lam js \<longleftrightarrow> (\<forall>m < length js. \<forall>j < length pool. j \<notin> set (take m js) \<longrightarrow>
     mmr_value pool lam (take m js) j \<le> mmr_value pool lam (take m js) (js ! m))"

lemma mmr_select_greedy:
  assumes "\<forall>c \<in> set pool. usable dims c" "0 < dims"
    and "distinct (remaining @ selected)" "set (remaining @ selected) = {0..<length pool}"
    and "places \<le> length remaining" "greedy pool lam selected"
  shows "\<exists>js. mmr_select pool (normalize_scores pool) lam places remaining selected = Inr js
    \<and> length js = length selected + places \<and> distinct js \<and> set js \<subseteq> {0..<length pool} \<and> greedy pool lam js"
  using assms(3-)
proof (induction places arbitrary: remaining selected)
  case 0
  then show ?case by auto
next
  case (Suc places)
  have ne: "remaining \<noteq> []"
    using Suc.prems(3) by auto
  have obj: "mmr_objective pool (normalize_scores pool) lam selected i = Inr (mmr_value pool lam selected i)"
    if "i \<in> set remaining" for i
    by (rule mmr_objective_usable [OF assms(1,2)]) (use Suc.prems(2) that in auto)
  note best_value = mmr_best_value [where val = None and js = remaining and b = "hd remaining"
      and f = "mmr_objective pool (normalize_scores pool) lam selected" and g = "mmr_value pool lam selected"]
  obtain m where best: "mmr_best (mmr_objective pool (normalize_scores pool) lam selected) (hd remaining) None remaining = Inr m"
    and m: "m \<in> set remaining" and top: "\<forall>i \<in> set remaining. mmr_value pool lam selected i \<le> mmr_value pool lam selected m"
    using best_value obj ne by auto
  have d: "distinct remaining"
    using Suc.prems(1) by simp
  have "\<exists>js. mmr_select pool (normalize_scores pool) lam places (remove1 m remaining) (selected @ [m]) = Inr js
      \<and> length js = length (selected @ [m]) + places \<and> distinct js \<and> set js \<subseteq> {0..<length pool} \<and> greedy pool lam js"
  proof (rule Suc.IH)
    show "distinct (remove1 m remaining @ selected @ [m])"
      using Suc.prems(1) m d by auto
    show "set (remove1 m remaining @ selected @ [m]) = {0..<length pool}"
      using Suc.prems(2) m d by auto
    show "places \<le> length (remove1 m remaining)"
      using Suc.prems(3) m by (simp add: length_remove1)
    show "greedy pool lam (selected @ [m])"
      unfolding greedy_def
    proof (intro allI impI)
      fix l j assume l: "l < length (selected @ [m])" "j < length pool" "j \<notin> set (take l (selected @ [m]))"
      show "mmr_value pool lam (take l (selected @ [m])) j \<le> mmr_value pool lam (take l (selected @ [m])) ((selected @ [m]) ! l)"
      proof (cases "l < length selected")
        case True
        with l Suc.prems(4) show ?thesis
          by (simp add: greedy_def nth_append)
      next
        case False
        with l(1) have "l = length selected"
          by simp
        moreover have "j \<in> set remaining"
          using l(2,3) Suc.prems(2) calculation by auto
        ultimately show ?thesis
          using top by (simp add: nth_append)
      qed
    qed
  qed
  then show ?case
    using ne best by auto
qed

lemma mmr_usable_outcome:
  assumes "\<forall>c \<in> set pool. usable dims c" "0 < dims" "0 \<le> k"
  shows "\<exists>js. mmr pool k config = Inr (map (\<lambda>i. pool ! i) js) \<and> length js = min (nat k) (length pool)
    \<and> distinct js \<and> set js \<subseteq> {0..<length pool} \<and> greedy pool (real_of_float (rc_mmr_lambda config)) js"
proof (cases "k = 0")
  case True
  then show ?thesis
    by (intro exI [of _ "[]"]) (simp add: mmr_def greedy_def)
next
  case False
  let ?lam = "real_of_float (rc_mmr_lambda config)"
  have "\<exists>js. mmr_select pool (normalize_scores pool) ?lam (min (nat k) (length pool)) [0..<length pool] [] = Inr js
      \<and> length js = length ([] :: nat list) + min (nat k) (length pool) \<and> distinct js \<and> set js \<subseteq> {0..<length pool} \<and> greedy pool ?lam js"
    by (rule mmr_select_greedy [OF assms(1,2)]) (auto simp: greedy_def)
  with False show ?thesis
    by (auto simp: mmr_def)
qed

text \<open>
  C32 (functional). With usable vectors, all of one dimension and of positive norm, the selection never raises. It
  returns the wanted number of different candidates, or all there are, and every one is a best choice, for the
  weighted difference of relevance and redundancy, among those not chosen before it.
\<close>

theorem mmr_selects_greedily:
  assumes "\<forall>c \<in> set pool. \<exists>v. cd_diversity c = Some v \<and> length v = dims \<and> 0 < norm_of v" "0 < dims" "0 \<le> k"
  shows "\<exists>js. mmr pool k config = Inr (map (\<lambda>i. pool ! i) js) \<and> length js = min (nat k) (length pool)
    \<and> distinct js \<and> set js \<subseteq> {0..<length pool}
    \<and> (\<forall>m < length js. \<forall>j < length pool. j \<notin> set (take m js) \<longrightarrow>
         mmr_value pool (real_of_float (rc_mmr_lambda config)) (take m js) j
         \<le> mmr_value pool (real_of_float (rc_mmr_lambda config)) (take m js) (js ! m))"
  using mmr_usable_outcome [of pool dims k config] assms by (auto simp: usable_def greedy_def)

theorem mmr_selects_greedily_witness:
  "\<exists>c d. mmr [c, d] 5 \<lparr>rc_candidate_count = 1, rc_candidate_ceiling = 1, rc_final_count = 1,
      rc_relevance_floor = Fin 0, rc_gap_threshold = Fin 0, rc_mmr_lambda = Fin 0\<rparr> \<in> {Inr [c, d], Inr [d, c]} \<and> c \<noteq> d"
proof -
  let ?h = "\<lparr>sr_object = ''a'', sr_canonical = ''a'', sr_text = ''t'', sr_segment = PNone\<rparr>"
  let ?c = "(scored ?h 1)\<lparr>cd_diversity := Some [1]\<rparr>" and ?d = "(scored ?h 2)\<lparr>cd_diversity := Some [2]\<rparr>"
  let ?config = "\<lparr>rc_candidate_count = 1, rc_candidate_ceiling = 1, rc_final_count = 1,
      rc_relevance_floor = Fin 0, rc_gap_threshold = Fin 0, rc_mmr_lambda = Fin 0\<rparr>"
  have "\<forall>c \<in> set [?c, ?d]. \<exists>v. cd_diversity c = Some v \<and> length v = 1 \<and> 0 < norm_of v"
    by (simp add: norm_of_def)
  from mmr_selects_greedily [OF this zero_less_one, of 5 ?config] obtain js where
    m: "mmr [?c, ?d] 5 ?config = Inr (map (\<lambda>i. [?c, ?d] ! i) js)"
    and "length js = min (nat 5) (length [?c, ?d]) \<and> distinct js \<and> set js \<subseteq> {0..<length [?c, ?d]}"
    by (auto simp only: zero_le_numeral)
  then have i: "length js = 2" "distinct js" "set js \<subseteq> {0..<2}"
    by (simp_all add: numeral_2_eq_2)
  obtain i j where ij: "js = [i, j]"
    using i(1) by (auto simp: length_Suc_conv numeral_2_eq_2)
  then have "i = 0 \<and> j = 1 \<or> i = 1 \<and> j = 0"
    using i(2,3) by auto
  then have "mmr [?c, ?d] 5 ?config \<in> {Inr [?c, ?d], Inr [?d, ?c]}"
    unfolding m ij by auto
  moreover have "?c \<noteq> ?d"
    by (simp add: scored_def)
  ultimately show ?thesis by blast
qed

end
