(* ===== verification/Retrieval.thy ===== *)
theory Retrieval
  imports Ranking Chunker Wizard_Runtime
begin

text \<open>
  \<open>backend/rag/retrieval.py\<close>, last stage and the whole: the hydration of the candidates that are left, the final
  results, the token budget, and \<open>retrieve\<close>. The collection client, the reranker and the tokenizer are outside the
  repository's retrieval code: the first two are operations on a state \<open>'st\<close> about which nothing is assumed. Log
  messages, timings, trace counters and digests are left out.
\<close>

section \<open>Hydration\<close>

text \<open>A result of \<open>hydrate_mmr_head\<close>: a \<open>HydratedSearchResult\<close>, whose fields may hold anything, or something else.\<close>

datatype hydrated =
    NotHydrated
  | Hydrated (hy_object: pyval) (hy_canonical: pyval) (hy_vector: pyval) (hy_raw: pyval) (hy_segment: pyval) (hy_reason: pyval)

definition optional_text :: "string option \<Rightarrow> pyval" where
  "optional_text t = (case t of None \<Rightarrow> PNone | Some s \<Rightarrow> PStr s)"

definition hydration_request :: "string \<Rightarrow> candidate \<Rightarrow> search_result res" where
  "hydration_request collection c =
     rbind (if collection = conversations then required_text (optional_text (cd_segment_id c)) ''segment_id''
            else required_text (PStr (cd_object c)) ''object_id'') (\<lambda>object_id.
     rbind (if collection = conversations then required_text (PStr (cd_object c)) ''conversation_id''
            else Inr object_id) (\<lambda>canonical_id.
     rbind (required_text (PStr (cd_text c)) ''retrieval_text'') (\<lambda>t.
     rbind (if collection = conversations then rbind (segment_index c) (\<lambda>n. Inr (PInt n)) else Inr PNone) (\<lambda>segment.
     Inr \<lparr>sr_object = object_id, sr_canonical = canonical_id, sr_text = t, sr_segment = segment\<rparr>))))"

text \<open>\<open>v == w\<close> in Python for the \<open>w\<close> a request holds as its segment: \<open>None\<close> or an int.\<close>

fun same_segment :: "pyval \<Rightarrow> pyval \<Rightarrow> bool" where
  "same_segment v (PInt n) = (case v of
       PInt m \<Rightarrow> m = n | PBool b \<Rightarrow> of_bool b = n | PFloat (Fin x) \<Rightarrow> x = real_of_int n | _ \<Rightarrow> False)"
| "same_segment v w = (v = w)"

fun contains :: "string \<Rightarrow> string \<Rightarrow> bool" where
  "contains t [] = (t = [])"
| "contains t (c # cs) = (Sublist.prefix t (c # cs) \<or> contains t cs)"

definition usable_vector :: "pyval \<Rightarrow> real list option" where
  "usable_vector v =
     (case vector v ''diversity vector'' of
        Inl _ \<Rightarrow> None
      | Inr xs \<Rightarrow> if int (length xs) \<noteq> gte_dimension \<or> norm_of xs \<le> 0 then None else Some xs)"

text \<open>The text a hydrated candidate gets; \<open>None\<close> drops it.\<close>

definition hydrated_text :: "string \<Rightarrow> candidate \<Rightarrow> search_result \<Rightarrow> pyval \<Rightarrow> string option" where
  "hydrated_text collection c request raw =
     (if collection = conversations
      then (case required_text raw ''raw_text'' of
              Inl _ \<Rightarrow> None
            | Inr t \<Rightarrow> if contains (sr_text request) t then Some t else None)
      else Some (cd_text c))"

definition hydrate_one :: "string \<Rightarrow> candidate \<Rightarrow> search_result \<Rightarrow> hydrated \<Rightarrow> candidate option" where
  "hydrate_one collection c request h =
     (case h of
        NotHydrated \<Rightarrow> None
      | Hydrated object canonical v raw segment reason \<Rightarrow>
          if object \<noteq> PStr (sr_object request) \<or> canonical \<noteq> PStr (sr_canonical request)
             \<or> \<not> same_segment segment (sr_segment request) then None
          else if reason \<noteq> PNone then None
          else (case hydrated_text collection c request raw of
                  None \<Rightarrow> None
                | Some t \<Rightarrow> Some (c\<lparr>cd_raw := Some t, cd_diversity := usable_vector v\<rparr>)))"

text \<open>The loop: the hydrated pool, and whether every vector in it is usable.\<close>

fun hydrate_all ::
    "string \<Rightarrow> candidate list \<Rightarrow> search_result list \<Rightarrow> hydrated list \<Rightarrow> candidate list \<times> bool" where
  "hydrate_all collection (c # cs) (r # rs) (h # hs) =
     (let (pool, ok) = hydrate_all collection cs rs hs
      in case hydrate_one collection c r h of
           None \<Rightarrow> (pool, ok)
         | Some d \<Rightarrow> (d # pool, ok \<and> cd_diversity d \<noteq> None))"
| "hydrate_all collection cs rs hs = ([], True)"

text \<open>The outside of the retrieval; \<open>None\<close> is an answer of the wrong type.\<close>

record 'st retrieval_env =
  re_hybrid :: "string \<Rightarrow> real list list \<Rightarrow> int \<Rightarrow> ('st, hit list option) op"
  re_hydrate :: "search_result list \<Rightarrow> ('st, hydrated list option) op"
  re_rerank :: "string \<Rightarrow> string list \<Rightarrow> int \<Rightarrow> ('st, rerank_item list option) op"
  re_tokenizer :: tokenizer

definition hydrate_mmr_head ::
    "'st retrieval_env \<Rightarrow> candidate list \<Rightarrow> string \<Rightarrow> ('st, candidate list \<times> bool) op" where
  "hydrate_mmr_head env pool collection =
     (if pool = [] then oret ([], True)
      else
        obind (olift (rmap (hydration_request collection) pool)) (\<lambda>requested.
        obind (re_hydrate env requested) (\<lambda>raw.
        case raw of
          None \<Rightarrow> oraise (TypeError ''hydrate_mmr_head must return one ordered result per candidate'')
        | Some hs \<Rightarrow>
            if length hs \<noteq> length pool
            then oraise (TypeError ''hydrate_mmr_head must return one ordered result per candidate'')
            else oret (hydrate_all collection pool requested hs))))"

section \<open>Final results\<close>

record final_result =
  fr_object :: string
  fr_raw :: string
  fr_score :: "real option"

definition final_results :: "candidate list \<Rightarrow> string \<Rightarrow> final_result list res" where
  "final_results selected collection =
     rmap (\<lambda>c. rbind (required_text (PStr (cd_object c)) ''object_id'') (\<lambda>object_id.
               rbind (required_text (optional_text (cd_raw c)) ''raw_text'') (\<lambda>raw.
               Inr \<lparr>fr_object = object_id, fr_raw = raw,
                    fr_score = (if collection = conversations then None else Some (cd_score c))\<rparr>))) selected"

definition context_separator :: string where "context_separator = [CHR 0x0A, CHR 0x0A]"

definition context_of :: "final_result list \<Rightarrow> string" where
  "context_of results = join context_separator (map fr_raw results)"

text \<open>The loop that drops the last result until the context fits.\<close>

function fitting :: "tokenizer \<Rightarrow> int \<Rightarrow> final_result list \<Rightarrow> final_result list" where
  "fitting tok budget selected =
     (if selected = [] then []
      else if token_count (context_of selected) tok \<le> budget then selected
      else fitting tok budget (butlast selected))"
  by auto
termination
  by (relation "measure (\<lambda>(_, _, selected). length selected)") auto

declare fitting.simps [simp del]

definition budget_results :: "final_result list \<Rightarrow> int \<Rightarrow> tokenizer \<Rightarrow> final_result list res" where
  "budget_results results budget tok =
     rbind (rmap (\<lambda>r. rbind (required_text (PStr (fr_raw r)) ''raw_text'') (\<lambda>t. Inr (r\<lparr>fr_raw := t\<rparr>))) results)
       (\<lambda>selected. Inr (fitting tok budget selected))"

section \<open>Retrieval\<close>

definition collection_config :: "model_config \<Rightarrow> string \<Rightarrow> retrieval_config option" where
  "collection_config cfg collection =
     (if collection = conversations then Some (mc_conversation cfg)
      else if collection = ''knowledge_facts'' then Some (mc_knowledge cfg)
      else if collection = ''policy'' then Some (mc_policy cfg) else None)"

definition context_budget :: "model_config \<Rightarrow> string \<Rightarrow> int option" where
  "context_budget cfg collection =
     (if collection = ''knowledge_facts'' then Some (bc_knowledge_tokens (mc_budgets cfg))
      else if collection = ''policy'' then Some (bc_policy_tokens (mc_budgets cfg)) else None)"

definition cross_encoder ::
    "'st retrieval_env \<Rightarrow> search_result list \<Rightarrow> string \<Rightarrow> ('st, candidate list) op" where
  "cross_encoder env candidates query =
     (if candidates = [] then oret []
      else obind (re_rerank env query (map sr_text candidates) (int (length candidates))) (\<lambda>raw.
        olift (ranked candidates raw)))"

text \<open>The candidates that are relevant enough, and the head of them that is kept.\<close>

definition relevant :: "retrieval_config \<Rightarrow> string \<Rightarrow> candidate list \<Rightarrow> candidate list res" where
  "relevant config collection reranked =
     rbind (if collection = conversations
            then rbind (collapse_conversations reranked (rc_candidate_count config)) (\<lambda>cs.
              Inr (filter (above_floor config) cs))
            else Inr (eligible_candidates reranked config collection)) (\<lambda>eligible.
     Inr (take (adaptive_k eligible config) eligible))"

definition mmr_or_head :: "retrieval_config \<Rightarrow> candidate list \<times> bool \<Rightarrow> candidate list res" where
  "mmr_or_head config hydrated =
     (case hydrated of (pool, ok) \<Rightarrow>
        if ok then mmr pool (rc_final_count config) config else Inr (take (nat (rc_final_count config)) pool))"

definition finish ::
    "model_config \<Rightarrow> string \<Rightarrow> tokenizer \<Rightarrow> candidate list \<Rightarrow> final_result list res" where
  "finish cfg collection tok selected =
     rbind (final_results selected collection) (\<lambda>results.
       case context_budget cfg collection of
         None \<Rightarrow> Inr results
       | Some budget \<Rightarrow> budget_results results budget tok)"

definition retrieve ::
    "'st retrieval_env \<Rightarrow> model_config \<Rightarrow> pyval \<Rightarrow> pyval \<Rightarrow> string \<Rightarrow> ('st, final_result list) op" where
  "retrieve env cfg query_text query_vector collection =
     obind (olift (required_text query_text ''query_text'')) (\<lambda>query.
     obind (olift (multi_vector query_vector ''query_vector'')) (\<lambda>vectors.
     case collection_config cfg collection of
       None \<Rightarrow> oraise (ValueError (''unsupported collection_type '' @ py_repr collection))
     | Some config \<Rightarrow>
         obind (re_hybrid env query vectors (rc_candidate_count config)) (\<lambda>results.
         obind (olift (normalized_candidates results collection)) (\<lambda>candidates.
         obind (cross_encoder env candidates query) (\<lambda>reranked.
         obind (olift (relevant config collection reranked)) (\<lambda>adaptive_pool.
         obind (hydrate_mmr_head env adaptive_pool collection) (\<lambda>hydrated.
         obind (olift (mmr_or_head config hydrated)) (\<lambda>selected.
         olift (finish cfg collection (re_tokenizer env) selected)))))))))"

section \<open>What every stage passes on\<close>

lemma ranked_candidates:
  assumes "ranked cands raw = Inr rs"
  shows "mset (map cd_object rs) = mset (map sr_object cands)"
    and "c \<in> set rs \<Longrightarrow> \<exists>s \<in> set cands. \<exists>x. c = scored s x"
    and "sorted (map rank_key rs)"
proof -
  obtain ps where ps: "mset (map fst ps) = mset [0..int (length cands) - 1]"
    and rs: "rs = sort_key rank_key (map (\<lambda>(i, x). scored (cands ! nat i) x) ps)"
    using assms unfolding ranked_Inr by blast
  have obj: "map cd_object (map (\<lambda>(i, x). scored (cands ! nat i) x) ps) = map (\<lambda>i. sr_object (cands ! nat i)) (map fst ps)"
    by (simp add: scored_def case_prod_unfold o_def)
  have all: "map (\<lambda>i. sr_object (cands ! nat i)) [0..int (length cands) - 1] = map sr_object cands"
    by (rule nth_equalityI) simp_all
  have "mset (map cd_object rs) = mset (map cd_object (map (\<lambda>(i, x). scored (cands ! nat i) x) ps))"
    unfolding rs mset_map mset_sort ..
  also have "\<dots> = mset (map sr_object cands)"
    unfolding obj all [symmetric] using ps by (metis mset_map)
  finally show "mset (map cd_object rs) = mset (map sr_object cands)" .
  show "sorted (map rank_key rs)"
    by (simp add: rs)
  assume "c \<in> set rs"
  then obtain i x where p: "(i, x) \<in> set ps" "c = scored (cands ! nat i) x"
    by (auto simp: rs)
  have "i \<in> set (map fst ps)"
    using p(1) by force
  then have "i \<in> {0..int (length cands) - 1}"
    using mset_eq_setD [OF ps] by simp
  then have "cands ! nat i \<in> set cands"
    by (auto intro!: nth_mem simp: nat_less_iff)
  with p(2) show "\<exists>s \<in> set cands. \<exists>x. c = scored s x"
    by blast
qed

text \<open>
  Where a pooled candidate comes from: for a document the candidate of the same id, for a conversation a segment
  of it.
\<close>

definition stems_from :: "string \<Rightarrow> search_result list \<Rightarrow> candidate \<Rightarrow> bool" where
  "stems_from collection cands c \<longleftrightarrow>
     (\<exists>s \<in> set cands. cd_text c = sr_text s
        \<and> (if collection = conversations
           then cd_object c = sr_canonical s \<and> cd_segment_id c = Some (sr_object s) \<and> cd_segment c = sr_segment s
           else cd_object c = sr_object s))"

text \<open>Every candidate reaches the floor, or the policy search keeps a single one at the lower floor.\<close>

definition rescued :: "retrieval_config \<Rightarrow> string \<Rightarrow> candidate list \<Rightarrow> bool" where
  "rescued config collection pool \<longleftrightarrow>
     (\<forall>c \<in> set pool. above_floor config c)
     \<or> collection = ''policy'' \<and> length pool \<le> 1 \<and> (\<forall>c \<in> set pool. policy_empty_pool_floor \<le> cd_score c)"

lemma rescued_mono:
  assumes "rescued config collection pool" "cd_score ` set ys \<subseteq> cd_score ` set pool" "length ys \<le> length pool"
  shows "rescued config collection ys"
proof -
  have same: "\<exists>c \<in> set pool. cd_score d = cd_score c" if "d \<in> set ys" for d
    using assms(2) that by auto
  consider "\<forall>c \<in> set pool. above_floor config c"
    | "collection = ''policy''" "length pool \<le> 1" "\<forall>c \<in> set pool. policy_empty_pool_floor \<le> cd_score c"
    using assms(1) unfolding rescued_def by blast
  then show ?thesis
  proof cases
    case 1
    then have "\<forall>d \<in> set ys. above_floor config d"
      using same unfolding above_floor_def by fastforce
    then show ?thesis
      by (simp add: rescued_def)
  next
    case 2
    then have "\<forall>d \<in> set ys. policy_empty_pool_floor \<le> cd_score d"
      using same by fastforce
    with 2(1,2) assms(3) show ?thesis
      by (simp add: rescued_def)
  qed
qed

lemma rescued_take: "rescued config collection pool \<Longrightarrow> rescued config collection (take k pool)"
  by (erule rescued_mono) (auto dest: in_set_takeD)

lemma conversation_segments:
  assumes "collection = conversations" "\<forall>s \<in> set cands. candidate_ok collection s" "\<forall>c \<in> set rs. \<exists>s \<in> set cands. \<exists>x. c = scored s x"
  shows "\<forall>c \<in> set rs. segment_candidate c"
proof
  fix c assume "c \<in> set rs"
  then obtain s x where s: "s \<in> set cands" "c = scored s x"
    using assms(3) by blast
  with assms(2) have "candidate_ok collection s"
    by blast
  then show "segment_candidate c"
    using assms(1) s(2) canonical_not_blank by (auto simp: candidate_ok_def segment_candidate_def scored_def)
qed

lemma relevant_pool:
  assumes cands: "\<forall>s \<in> set cands. candidate_ok collection s" "distinct (map sr_object cands)"
    and rs: "mset (map cd_object rs) = mset (map sr_object cands)" "\<forall>c \<in> set rs. \<exists>s \<in> set cands. \<exists>x. c = scored s x"
    and pool: "relevant config collection rs = Inr pool"
  shows "distinct (map cd_object pool)" "\<forall>c \<in> set pool. stems_from collection cands c" "rescued config collection pool"
proof -
  obtain eligible where pl: "pool = take (adaptive_k eligible config) eligible"
    and el: "(if collection = conversations
            then rbind (collapse_conversations rs (rc_candidate_count config)) (\<lambda>cs. Inr (filter (above_floor config) cs))
            else Inr (eligible_candidates rs config collection)) = Inr eligible"
    using pool by (auto simp: relevant_def rbind_Inr_iff)
  have "distinct (map cd_object eligible) \<and> (\<forall>c \<in> set eligible. stems_from collection cands c) \<and> rescued config collection eligible"
  proof (cases "collection = conversations")
    case True
    note seg = conversation_segments [OF True cands(1) rs(2)]
    obtain full where full: "collapse_conversations rs (rc_candidate_count config) = Inr (take (nat (rc_candidate_count config)) full)"
      "distinct (map cd_object full)" "\<forall>r \<in> set full. \<exists>b \<in> set rs. r = as_conversation b"
      using collapse_conversations_spec [OF seg, of "rc_candidate_count config"] by metis
    have e: "eligible = filter (above_floor config) (take (nat (rc_candidate_count config)) full)"
      using el True full(1) by simp
    have "distinct (map cd_object (take (nat (rc_candidate_count config)) full))"
      unfolding take_map [symmetric] by (rule distinct_take [OF full(2)])
    then have "distinct (map cd_object eligible)"
      unfolding e by (rule distinct_map_filter)
    moreover have "stems_from collection cands c" if "c \<in> set eligible" for c
    proof -
      have "c \<in> set full"
        using that unfolding e by (auto dest: in_set_takeD)
      then obtain b where b: "b \<in> set rs" "c = as_conversation b"
        using full(3) by blast
      then obtain s x where "s \<in> set cands" "b = scored s x"
        using rs(2) by blast
      with b True show ?thesis
        by (auto simp: stems_from_def as_conversation_def scored_def)
    qed
    ultimately show ?thesis
      unfolding rescued_def e by simp
  next
    case False
    have e: "eligible = eligible_candidates rs config collection"
      using el False by simp
    have d: "distinct (map cd_object rs)"
      using rs(1) cands(2) mset_eq_imp_distinct_iff by metis
    have sub: "set eligible \<subseteq> set rs"
      unfolding e by (auto simp: eligible_candidates_def Let_def)
    have "distinct (map cd_object eligible)"
      unfolding e eligible_candidates_def Let_def using distinct_map_filter [OF d] by simp
    moreover have "stems_from collection cands c" if "c \<in> set eligible" for c
    proof -
      have "c \<in> set rs"
        using that sub by blast
      then obtain s x where "s \<in> set cands" "c = scored s x"
        using rs(2) by blast
      with False show ?thesis
        by (auto simp: stems_from_def scored_def)
    qed
    moreover have "rescued config collection eligible"
      unfolding e eligible_candidates_def Let_def rescued_def by simp
    ultimately show ?thesis by blast
  qed
  then have e: "distinct (map cd_object eligible)" "\<And>c. c \<in> set eligible \<Longrightarrow> stems_from collection cands c"
    "rescued config collection eligible"
    by simp_all
  show "distinct (map cd_object pool)"
    unfolding pl take_map [symmetric] by (rule distinct_take [OF e(1)])
  show "\<forall>c \<in> set pool. stems_from collection cands c"
    unfolding pl using e(2) by (auto dest: in_set_takeD)
  show "rescued config collection pool"
    unfolding pl by (rule rescued_take [OF e(3)])
qed

section \<open>Hydration keeps what the ranking knows\<close>

lemma contains_iff: "contains t s \<longleftrightarrow> Sublist.sublist t s"
  by (induction s) (auto simp: sublist_Cons_right)

text \<open>The candidate \<open>d\<close> is \<open>c\<close> with a text and perhaps a vector.\<close>

definition hydration_of :: "string \<Rightarrow> candidate \<Rightarrow> candidate \<Rightarrow> bool" where
  "hydration_of collection c d \<longleftrightarrow>
     (\<exists>t v. d = c\<lparr>cd_raw := Some t, cd_diversity := v\<rparr> \<and> strip t \<noteq> []
        \<and> (if collection = conversations then contains (cd_text c) t else t = cd_text c))"

lemma usable_vector_Some: "usable_vector v = Some xs \<Longrightarrow> length xs = 768 \<and> 0 < norm_of xs"
  by (auto simp: usable_vector_def gte_dimension_def split: sum.splits if_splits)

lemma hydrate_one_Some:
  assumes "hydrate_one collection c r h = Some d" "sr_text r = cd_text c" "strip (cd_text c) \<noteq> []"
  shows "hydration_of collection c d" "cd_diversity d \<noteq> None \<Longrightarrow> usable 768 d"
proof -
  obtain object canonical v raw segment reason where h: "h = Hydrated object canonical v raw segment reason"
    using assms(1) by (cases h) (auto simp: hydrate_one_def)
  obtain t where t: "hydrated_text collection c r raw = Some t" "d = c\<lparr>cd_raw := Some t, cd_diversity := usable_vector v\<rparr>"
    using assms(1) unfolding hydrate_one_def h by (auto split: if_splits option.splits)
  have "strip t \<noteq> [] \<and> (if collection = conversations then contains (cd_text c) t else t = cd_text c)"
    using t(1) assms(2,3) by (auto simp: hydrated_text_def required_text_Inr split: if_splits sum.splits)
  with t(2) show "hydration_of collection c d"
    unfolding hydration_of_def by blast
  show "usable 768 d" if "cd_diversity d \<noteq> None"
    using that usable_vector_Some by (auto simp: usable_def t(2))
qed

lemma hydration_of_object: "hydration_of collection c d \<Longrightarrow> cd_object d = cd_object c \<and> cd_score d = cd_score c"
  by (auto simp: hydration_of_def)

lemma hydrate_all_spec:
  assumes "list_all2 (\<lambda>c r. sr_text r = cd_text c \<and> strip (cd_text c) \<noteq> []) cs rs" "hydrate_all collection cs rs hs = (pool, ok)"
  shows "subseq (map cd_object pool) (map cd_object cs)
    \<and> (\<forall>d \<in> set pool. \<exists>c \<in> set cs. hydration_of collection c d) \<and> (ok \<longrightarrow> (\<forall>d \<in> set pool. usable 768 d))"
  using assms
proof (induction cs arbitrary: rs hs pool ok)
  case Nil
  then show ?case by simp
next
  case (Cons c cs)
  obtain r rs' where rs: "rs = r # rs'" "sr_text r = cd_text c" "strip (cd_text c) \<noteq> []"
      "list_all2 (\<lambda>c r. sr_text r = cd_text c \<and> strip (cd_text c) \<noteq> []) cs rs'"
    using Cons.prems(1) by (auto simp: list_all2_Cons1)
  show ?case
  proof (cases hs)
    case Nil
    with Cons.prems(2) show ?thesis
      by (simp add: rs(1))
  next
    case (Cons h hs')
    obtain pool' ok' where rec: "hydrate_all collection cs rs' hs' = (pool', ok')"
      by fastforce
    note IH = Cons.IH [OF rs(4) rec]
    show ?thesis
    proof (cases "hydrate_one collection c r h")
      case None
      then have "pool = pool'" "ok = ok'"
        using Cons.prems(2) by (simp_all add: rs(1) \<open>hs = h # hs'\<close> rec)
      with IH show ?thesis
        by auto
    next
      case (Some d)
      then have p: "pool = d # pool'" "ok = (ok' \<and> cd_diversity d \<noteq> None)"
        using Cons.prems(2) by (simp_all add: rs(1) \<open>hs = h # hs'\<close> rec)
      note d = hydrate_one_Some [OF Some rs(2,3)]
      show ?thesis
        using IH d hydration_of_object [OF d(1)] unfolding p by auto
    qed
  qed
qed

lemma hydration_request_total:
  assumes "stems_from collection cands c" "\<forall>s \<in> set cands. candidate_ok collection s"
  shows "\<exists>r. hydration_request collection c = Inr r \<and> sr_text r = cd_text c \<and> strip (cd_text c) \<noteq> []"
    and "strip (cd_object c) \<noteq> []" "strip (cd_text c) \<noteq> []"
proof -
  obtain s where s: "s \<in> set cands" "cd_text c = sr_text s" "if collection = conversations
           then cd_object c = sr_canonical s \<and> cd_segment_id c = Some (sr_object s) \<and> cd_segment c = sr_segment s
           else cd_object c = sr_object s"
    using assms(1) unfolding stems_from_def by blast
  have ok: "candidate_ok collection s"
    using assms(2) s(1) by blast
  have blank: "strip (sr_object s) \<noteq> []" "strip (sr_canonical s) \<noteq> []" "strip (sr_text s) \<noteq> []"
    using ok canonical_not_blank unfolding candidate_ok_def by auto
  show "strip (cd_object c) \<noteq> []" "strip (cd_text c) \<noteq> []"
    using s blank by (auto split: if_splits)
  show "\<exists>r. hydration_request collection c = Inr r \<and> sr_text r = cd_text c \<and> strip (cd_text c) \<noteq> []"
    using s blank ok unfolding hydration_request_def candidate_ok_def
    by (auto simp: required_text_def optional_text_def segment_index_def)
qed

section \<open>The selection and the final results\<close>

lemma distinct_map_nth:
  assumes "distinct js" "set js \<subseteq> {0..<length pool}" "distinct (map f pool)"
  shows "distinct (map f (map (\<lambda>i. pool ! i) js))"
proof -
  have "inj_on (\<lambda>i. f (pool ! i)) (set js)"
  proof (rule inj_onI)
    fix i j assume ij: "i \<in> set js" "j \<in> set js" "f (pool ! i) = f (pool ! j)"
    then have l: "i < length (map f pool)" "j < length (map f pool)"
      using assms(2) by auto
    with ij(3) show "i = j"
      using nth_eq_iff_index_eq [OF assms(3) l] by simp
  qed
  with assms(1) show ?thesis
    by (simp add: distinct_map o_def)
qed

lemma mmr_or_head_total:
  assumes "ok \<longrightarrow> (\<forall>d \<in> set pool. usable 768 d)" "0 \<le> rc_final_count config"
  shows "\<exists>sel. mmr_or_head config (pool, ok) = Inr sel \<and> length sel = min (nat (rc_final_count config)) (length pool)
    \<and> set sel \<subseteq> set pool \<and> (distinct (map cd_object pool) \<longrightarrow> distinct (map cd_object sel))"
proof (cases ok)
  case True
  with assms(1) have u: "\<forall>d \<in> set pool. usable 768 d"
    by simp
  obtain js where js: "mmr pool (rc_final_count config) config = Inr (map (\<lambda>i. pool ! i) js)"
    "length js = min (nat (rc_final_count config)) (length pool)" "distinct js" "set js \<subseteq> {0..<length pool}"
    using mmr_usable_outcome [OF u _ assms(2), of config] by auto
  have "set (map (\<lambda>i. pool ! i) js) \<subseteq> set pool"
    using js(4) by (auto simp: subset_iff)
  with True js show ?thesis
    by (simp add: mmr_or_head_def distinct_map_nth del: map_map)
next
  case False
  have "distinct (map cd_object (take n pool))" if "distinct (map cd_object pool)" for n
    unfolding take_map [symmetric] by (rule distinct_take [OF that])
  with False show ?thesis
    by (auto simp: mmr_or_head_def dest: in_set_takeD)
qed

definition final_of :: "string \<Rightarrow> candidate \<Rightarrow> final_result" where
  "final_of collection c =
     \<lparr>fr_object = cd_object c, fr_raw = the (cd_raw c),
      fr_score = (if collection = conversations then None else Some (cd_score c))\<rparr>"

lemma final_results_total:
  assumes "\<forall>c \<in> set selected. strip (cd_object c) \<noteq> [] \<and> (\<exists>t. cd_raw c = Some t \<and> strip t \<noteq> [])"
  shows "final_results selected collection = Inr (map (final_of collection) selected)"
  unfolding final_results_def
  by (rule rmap_all_Inr) (use assms in \<open>force simp: final_of_def required_text_def optional_text_def\<close>)

section \<open>The token budget\<close>

lemma fitting_take:
  "\<exists>n \<le> length selected. fitting tok budget selected = take n selected
     \<and> (n = 0 \<or> token_count (context_of (take n selected)) tok \<le> budget)
     \<and> (\<forall>m. n < m \<longrightarrow> m \<le> length selected \<longrightarrow> budget < token_count (context_of (take m selected)) tok)"
proof (induction selected rule: rev_induct)
  case Nil
  then show ?case
    by (simp add: fitting.simps)
next
  case (snoc x xs)
  show ?case
  proof (cases "token_count (context_of (xs @ [x])) tok \<le> budget")
    case True
    then show ?thesis
      by (intro exI [of _ "length (xs @ [x])"]) (simp add: fitting.simps)
  next
    case False
    then have f: "fitting tok budget (xs @ [x]) = fitting tok budget xs"
      by (simp add: fitting.simps)
    obtain n where n: "n \<le> length xs" "fitting tok budget xs = take n xs"
      "n = 0 \<or> token_count (context_of (take n xs)) tok \<le> budget"
      "\<And>m. n < m \<Longrightarrow> m \<le> length xs \<Longrightarrow> budget < token_count (context_of (take m xs)) tok"
      using snoc.IH by blast
    have "budget < token_count (context_of (take m (xs @ [x]))) tok" if "n < m" "m \<le> length (xs @ [x])" for m
      using n(4) [OF that(1)] that(2) False by (cases "m \<le> length xs") auto
    with n(1-3) f show ?thesis
      by (intro exI [of _ n]) auto
  qed
qed

lemma budget_results_total:
  assumes "\<forall>r \<in> set results. strip (fr_raw r) \<noteq> []"
  shows "budget_results results budget tok = Inr (fitting tok budget results)"
proof -
  have "rmap (\<lambda>r. rbind (required_text (PStr (fr_raw r)) ''raw_text'') (\<lambda>t. Inr (r\<lparr>fr_raw := t\<rparr>))) results = Inr (map (\<lambda>r. r) results)"
    by (rule rmap_all_Inr) (use assms in \<open>simp add: required_text_def\<close>)
  then show ?thesis
    by (simp add: budget_results_def)
qed

text \<open>
  C31 (bounds). The budget keeps a prefix of the results: the longest one whose joined context is within the token
  budget, or no result at all when no prefix is.
\<close>

theorem budget_keeps_longest_prefix:
  assumes "\<forall>r \<in> set results. strip (fr_raw r) \<noteq> []"
  shows "\<exists>n \<le> length results. budget_results results budget tok = Inr (take n results)
    \<and> (n = 0 \<or> token_count (context_of (take n results)) tok \<le> budget)
    \<and> (\<forall>m. n < m \<longrightarrow> m \<le> length results \<longrightarrow> budget < token_count (context_of (take m results)) tok)"
  using fitting_take [of results tok budget] unfolding budget_results_total [OF assms] by simp

theorem budget_keeps_longest_prefix_witness:
  "budget_results [\<lparr>fr_object = ''a'', fr_raw = ''one'', fr_score = None\<rparr>, \<lparr>fr_object = ''b'', fr_raw = ''two'', fr_score = None\<rparr>]
     5 length = Inr [\<lparr>fr_object = ''a'', fr_raw = ''one'', fr_score = None\<rparr>]"
proof -
  let ?a = "\<lparr>fr_object = ''a'', fr_raw = ''one'', fr_score = None\<rparr>" and ?b = "\<lparr>fr_object = ''b'', fr_raw = ''two'', fr_score = None\<rparr>"
  have "strip ''one'' \<noteq> []" "strip ''two'' \<noteq> []"
    by code_simp+
  then have "\<forall>r \<in> set [?a, ?b]. strip (fr_raw r) \<noteq> []"
    by simp
  from budget_keeps_longest_prefix [OF this, of 5 length] obtain n where
    "n \<le> length [?a, ?b]" and run: "budget_results [?a, ?b] 5 length = Inr (take n [?a, ?b])"
    and fits: "n = 0 \<or> token_count (context_of (take n [?a, ?b])) length \<le> 5"
    and more: "\<forall>m. n < m \<longrightarrow> m \<le> length [?a, ?b] \<longrightarrow> 5 < token_count (context_of (take m [?a, ?b])) length"
    by blast
  then have n: "n \<le> 2"
    by simp
  have c: "token_count (context_of [?a, ?b]) length = 8" "token_count (context_of [?a]) length = 3"
    by (simp_all add: token_count_def context_of_def context_separator_def)
  have "n \<noteq> 2"
    using fits c(1) by auto
  moreover have "n \<noteq> 0"
    using spec [OF more, of 1] c(2) by auto
  ultimately have "n = 1"
    using n by linarith
  with run show ?thesis
    by simp
qed

section \<open>Every result is grounded\<close>

text \<open>The result \<open>r\<close> shows the candidate \<open>s\<close>: a document with its own text, a conversation with a text the segment is in.\<close>

definition shows_candidate :: "string \<Rightarrow> search_result \<Rightarrow> final_result \<Rightarrow> bool" where
  "shows_candidate collection s r \<longleftrightarrow>
     (if collection = conversations
      then fr_object r = sr_canonical s \<and> contains (sr_text s) (fr_raw r) \<and> fr_score r = None
      else fr_object r = sr_object s \<and> fr_raw r = sr_text s \<and> fr_score r \<noteq> None)"

text \<open>Outside the conversations the scores reach the floor, or a single policy reaches the lower floor.\<close>

definition score_reaches :: "pyfloat \<Rightarrow> final_result \<Rightarrow> bool" where
  "score_reaches floor' r \<longleftrightarrow> (\<exists>x. fr_score r = Some x \<and> pf_le floor' (Fin x))"

definition scores_ok :: "retrieval_config \<Rightarrow> string \<Rightarrow> final_result list \<Rightarrow> bool" where
  "scores_ok config collection results \<longleftrightarrow>
     (\<forall>r \<in> set results. score_reaches (rc_relevance_floor config) r)
     \<or> collection = ''policy'' \<and> length results \<le> 1 \<and> (\<forall>r \<in> set results. score_reaches (Fin policy_empty_pool_floor) r)"

definition sound_results ::
    "model_config \<Rightarrow> retrieval_config \<Rightarrow> string \<Rightarrow> tokenizer \<Rightarrow> search_result list \<Rightarrow> final_result list \<Rightarrow> bool" where
  "sound_results cfg config collection tok cands results \<longleftrightarrow>
     length results \<le> nat (rc_final_count config) \<and> distinct (map fr_object results)
     \<and> (\<forall>r \<in> set results. strip (fr_raw r) \<noteq> [] \<and> (\<exists>s \<in> set cands. shows_candidate collection s r))
     \<and> (collection \<noteq> conversations \<longrightarrow> scores_ok config collection results)
     \<and> (\<forall>budget. context_budget cfg collection = Some budget \<longrightarrow> results \<noteq> [] \<longrightarrow>
          token_count (context_of results) tok \<le> budget)"

lemma sound_take:
  assumes "length results \<le> nat (rc_final_count config)" "distinct (map fr_object results)"
    and "\<forall>r \<in> set results. strip (fr_raw r) \<noteq> [] \<and> (\<exists>s \<in> set cands. shows_candidate collection s r)"
    and "collection \<noteq> conversations \<longrightarrow> scores_ok config collection results"
    and "context_budget cfg collection = Some budget" "n = 0 \<or> token_count (context_of (take n results)) tok \<le> budget"
  shows "sound_results cfg config collection tok cands (take n results)"
proof -
  have "distinct (map fr_object (take n results))"
    unfolding take_map [symmetric] by (rule distinct_take [OF assms(2)])
  moreover have "scores_ok config collection (take n results)" if "collection \<noteq> conversations"
    using assms(4) that by (auto simp: scores_ok_def dest: in_set_takeD)
  ultimately show ?thesis
    using assms(1,3,5,6) unfolding sound_results_def by (auto dest: in_set_takeD)
qed

text \<open>What the candidates are when the selection starts: each is the hydration of a pooled one.\<close>

definition pooled :: "retrieval_config \<Rightarrow> string \<Rightarrow> search_result list \<Rightarrow> candidate list \<Rightarrow> bool" where
  "pooled config collection cands pool \<longleftrightarrow> distinct (map cd_object pool) \<and> rescued config collection pool
     \<and> (\<forall>d \<in> set pool. strip (cd_object d) \<noteq> [] \<and> (\<exists>c. stems_from collection cands c \<and> hydration_of collection c d))"

lemma pooled_final:
  assumes "pooled config collection cands sel"
  shows "final_results sel collection = Inr (map (final_of collection) sel)"
    and "distinct (map fr_object (map (final_of collection) sel))"
    and "\<forall>r \<in> set (map (final_of collection) sel). strip (fr_raw r) \<noteq> [] \<and> (\<exists>s \<in> set cands. shows_candidate collection s r)"
    and "collection \<noteq> conversations \<longrightarrow> scores_ok config collection (map (final_of collection) sel)"
proof -
  have d: "strip (cd_object d) \<noteq> []" "\<exists>c. stems_from collection cands c \<and> hydration_of collection c d" if "d \<in> set sel" for d
    using assms that unfolding pooled_def by blast+
  show "final_results sel collection = Inr (map (final_of collection) sel)"
    by (rule final_results_total) (use d in \<open>fastforce simp: hydration_of_def\<close>)
  show "distinct (map fr_object (map (final_of collection) sel))"
    using assms by (simp add: pooled_def final_of_def o_def)
  have "strip (fr_raw (final_of collection d)) \<noteq> [] \<and> (\<exists>s \<in> set cands. shows_candidate collection s (final_of collection d))"
    if sel: "d \<in> set sel" for d
  proof -
    obtain c where c: "stems_from collection cands c" "hydration_of collection c d"
      using d(2) [OF sel] by blast
    obtain s where s: "s \<in> set cands" "cd_text c = sr_text s" "if collection = conversations
           then cd_object c = sr_canonical s \<and> cd_segment_id c = Some (sr_object s) \<and> cd_segment c = sr_segment s
           else cd_object c = sr_object s"
      using c(1) unfolding stems_from_def by blast
    have "shows_candidate collection s (final_of collection d) \<and> strip (fr_raw (final_of collection d)) \<noteq> []"
      using c(2) s(2,3) by (auto simp: hydration_of_def shows_candidate_def final_of_def split: if_splits)
    with s(1) show ?thesis by blast
  qed
  then show "\<forall>r \<in> set (map (final_of collection) sel). strip (fr_raw r) \<noteq> [] \<and> (\<exists>s \<in> set cands. shows_candidate collection s r)"
    by simp
  show "collection \<noteq> conversations \<longrightarrow> scores_ok config collection (map (final_of collection) sel)"
    using assms by (auto simp: pooled_def rescued_def scores_ok_def score_reaches_def final_of_def above_floor_def)
qed

lemma finish_sound:
  assumes "pooled config collection cands sel" "length sel \<le> nat (rc_final_count config)"
  shows "\<exists>results. finish cfg collection tok sel = Inr results \<and> sound_results cfg config collection tok cands results"
proof -
  note p = pooled_final [OF assms(1)]
  let ?r = "map (final_of collection) sel"
  have len: "length ?r \<le> nat (rc_final_count config)"
    using assms(2) by simp
  show ?thesis
  proof (cases "context_budget cfg collection")
    case None
    have "sound_results cfg config collection tok cands ?r"
      unfolding sound_results_def using len p(2-4) None by simp
    with None p(1) show ?thesis
      by (simp add: finish_def)
  next
    case (Some budget)
    obtain n where n: "fitting tok budget ?r = take n ?r" "n = 0 \<or> token_count (context_of (take n ?r)) tok \<le> budget"
      using fitting_take [of ?r tok budget] by blast
    have "budget_results ?r budget tok = Inr (take n ?r)"
      unfolding n(1) [symmetric] by (rule budget_results_total) (use p(3) in blast)
    moreover have "sound_results cfg config collection tok cands (take n ?r)"
      by (rule sound_take [OF len p(2-4) Some n(2)])
    ultimately show ?thesis
      using Some p(1) by (simp add: finish_def)
  qed
qed

lemma pooled_subset:
  assumes "pooled config collection cands pool" "set sel \<subseteq> set pool" "length sel \<le> length pool" "distinct (map cd_object sel)"
  shows "pooled config collection cands sel"
proof -
  have "rescued config collection sel"
    by (rule rescued_mono [where pool = pool]) (use assms in \<open>auto simp: pooled_def\<close>)
  with assms show ?thesis
    unfolding pooled_def by blast
qed

lemma selection_sound:
  assumes "pooled config collection cands pool" "ok \<longrightarrow> (\<forall>d \<in> set pool. usable 768 d)" "0 \<le> rc_final_count config"
  shows "\<exists>results. rbind (mmr_or_head config (pool, ok)) (finish cfg collection tok) = Inr results
    \<and> sound_results cfg config collection tok cands results"
proof -
  obtain sel where sel: "mmr_or_head config (pool, ok) = Inr sel"
    "length sel = min (nat (rc_final_count config)) (length pool)" "set sel \<subseteq> set pool" "distinct (map cd_object sel)"
    using mmr_or_head_total [OF assms(2,3)] assms(1) unfolding pooled_def by blast
  have "pooled config collection cands sel"
    by (rule pooled_subset [OF assms(1) sel(3) _ sel(4)]) (simp add: sel(2))
  then show ?thesis
    using finish_sound [of config collection cands sel cfg tok] sel(1,2) by simp
qed

lemma subseq_distinct: "subseq xs ys \<Longrightarrow> distinct ys \<Longrightarrow> distinct xs"
  by (metis distinct_nthsI subseq_conv_nths)

lemma hydrated_pooled:
  assumes cands: "\<forall>s \<in> set cands. candidate_ok collection s"
    and pool: "distinct (map cd_object pool)" "\<forall>c \<in> set pool. stems_from collection cands c" "rescued config collection pool"
    and requests: "rmap (hydration_request collection) pool = Inr requests"
    and h: "hydrate_all collection pool requests hs = (pool', ok)"
  shows "pooled config collection cands pool'" "ok \<longrightarrow> (\<forall>d \<in> set pool'. usable 768 d)"
proof -
  have "list_all2 (\<lambda>c r. sr_text r = cd_text c \<and> strip (cd_text c) \<noteq> []) pool requests"
  proof (rule list_all2_mono)
    show "list_all2 (\<lambda>c r. hydration_request collection c = Inr r \<and> c \<in> set pool) pool requests"
      using requests by (simp add: rmap_Inr_iff list_all2_conv_all_nth)
  next
    fix c r assume "hydration_request collection c = Inr r \<and> c \<in> set pool"
    then show "sr_text r = cd_text c \<and> strip (cd_text c) \<noteq> []"
      using hydration_request_total(1) [OF _ cands, of c] pool(2) by auto
  qed
  from hydrate_all_spec [OF this h] have s: "subseq (map cd_object pool') (map cd_object pool)"
    "\<And>d. d \<in> set pool' \<Longrightarrow> \<exists>c \<in> set pool. hydration_of collection c d" "ok \<longrightarrow> (\<forall>d \<in> set pool'. usable 768 d)"
    by blast+
  show "ok \<longrightarrow> (\<forall>d \<in> set pool'. usable 768 d)"
    by (rule s(3))
  have "length pool' \<le> length pool"
    using list_emb_length [OF s(1)] by simp
  moreover have "cd_score ` set pool' \<subseteq> cd_score ` set pool"
    using s(2) hydration_of_object by fastforce
  ultimately have "rescued config collection pool'"
    using rescued_mono [OF pool(3)] by blast
  moreover have "distinct (map cd_object pool')"
    using subseq_distinct [OF s(1) pool(1)] .
  moreover have "strip (cd_object d) \<noteq> [] \<and> (\<exists>c. stems_from collection cands c \<and> hydration_of collection c d)"
    if pool': "d \<in> set pool'" for d
  proof -
    obtain c where c: "c \<in> set pool" "hydration_of collection c d"
      using s(2) [OF pool'] by blast
    then show ?thesis
      using pool(2) hydration_request_total(2) [OF _ cands, of c] hydration_of_object [OF c(2)] by auto
  qed
  ultimately show "pooled config collection cands pool'"
    unfolding pooled_def by blast
qed

lemma hydrate_mmr_head_Inr:
  assumes "hydrate_mmr_head env pool collection s = (Inr (pool', ok), t)"
  shows "\<exists>requests hs. rmap (hydration_request collection) pool = Inr requests
    \<and> hydrate_all collection pool requests hs = (pool', ok) \<and> (pool = [] \<or> re_hydrate env requests s = (Inr (Some hs), t))"
proof (cases "pool = []")
  case True
  with assms show ?thesis
    by (auto simp: hydrate_mmr_head_def)
next
  case False
  with assms show ?thesis
    unfolding hydrate_mmr_head_def by (auto simp: obind_Inr_iff split: option.splits if_splits)
qed

lemma clean_all_ok: "\<forall>c \<in> set (clean_candidates collection hits). candidate_ok collection c"
  using clean_ok by blast

lemma cross_encoder_Inr:
  assumes "cross_encoder env cands query s = (Inr rs, t)"
  shows "mset (map cd_object rs) = mset (map sr_object cands)" "\<forall>c \<in> set rs. \<exists>s \<in> set cands. \<exists>x. c = scored s x"
proof -
  have "cands = [] \<and> rs = [] \<or> (\<exists>raw. ranked cands raw = Inr rs)"
    using assms unfolding cross_encoder_def by (auto simp: obind_Inr_iff split: if_splits)
  then show "mset (map cd_object rs) = mset (map sr_object cands)" "\<forall>c \<in> set rs. \<exists>s \<in> set cands. \<exists>x. c = scored s x"
    using ranked_candidates by auto
qed

lemma relevant_hydrated:
  assumes "mset (map cd_object rs) = mset (map sr_object (clean_candidates collection hits))"
    and "\<forall>c \<in> set rs. \<exists>s \<in> set (clean_candidates collection hits). \<exists>x. c = scored s x"
    and "relevant config collection rs = Inr pool" "hydrate_mmr_head env pool collection s = (Inr (pool', ok), t)"
  shows "pooled config collection (clean_candidates collection hits) pool'" "ok \<longrightarrow> (\<forall>d \<in> set pool'. usable 768 d)"
proof -
  note r = relevant_pool [OF clean_all_ok clean_distinct assms(1-3)]
  obtain requests hs where "rmap (hydration_request collection) pool = Inr requests"
      "hydrate_all collection pool requests hs = (pool', ok)"
    using hydrate_mmr_head_Inr [OF assms(4)] by blast
  note h = hydrated_pooled [OF clean_all_ok r this]
  show "pooled config collection (clean_candidates collection hits) pool'" "ok \<longrightarrow> (\<forall>d \<in> set pool'. usable 768 d)"
    by (rule h(1), rule h(2))
qed

lemma retrieve_run:
  assumes "retrieve env cfg query_text query_vector collection s = (Inr results, s')" "collection_config cfg collection = Some config"
  obtains query vectors hits t rs t2 pool pool' ok t3 sel where
    "query_text = PStr query" "multi_vector query_vector ''query_vector'' = Inr vectors"
    "re_hybrid env query vectors (rc_candidate_count config) s = (Inr (Some hits), t)"
    "cross_encoder env (clean_candidates collection hits) query t = (Inr rs, t2)" "relevant config collection rs = Inr pool"
    "hydrate_mmr_head env pool collection t2 = (Inr (pool', ok), t3)" "mmr_or_head config (pool', ok) = Inr sel"
    "finish cfg collection (re_tokenizer env) sel = Inr results"
proof -
  obtain query vectors raw t cands rs t2 pool hyd t3 sel where
    q: "required_text query_text ''query_text'' = Inr query" "multi_vector query_vector ''query_vector'' = Inr vectors"
    and hy: "re_hybrid env query vectors (rc_candidate_count config) s = (Inr raw, t)"
    and n: "normalized_candidates raw collection = Inr cands"
    and c: "cross_encoder env cands query t = (Inr rs, t2)" and p: "relevant config collection rs = Inr pool"
    and h: "hydrate_mmr_head env pool collection t2 = (Inr hyd, t3)"
    and m: "mmr_or_head config hyd = Inr sel" and f: "finish cfg collection (re_tokenizer env) sel = Inr results"
    using assms(1) unfolding retrieve_def by (auto simp: obind_Inr_iff assms(2))
  obtain hits where hits: "raw = Some hits" "cands = clean_candidates collection hits"
    using n by (cases raw) (simp_all add: normalized_candidates_eq, simp add: normalized_candidates_def)
  show thesis
    using that [of query vectors hits t rs t2 pool "fst hyd" "snd hyd" t3 sel] q hy c p h m f unfolding hits
    by (simp add: required_text_Inr)
qed

lemma retrieve_answer:
  assumes "retrieve env cfg query_text query_vector collection s = (Inr results, s')"
    and "collection_config cfg collection = Some config" "0 \<le> rc_final_count config"
  shows "\<exists>query vectors hits t. query_text = PStr query \<and> multi_vector query_vector ''query_vector'' = Inr vectors
    \<and> re_hybrid env query vectors (rc_candidate_count config) s = (Inr (Some hits), t)
    \<and> sound_results cfg config collection (re_tokenizer env) (clean_candidates collection hits) results"
proof (rule retrieve_run [OF assms(1,2)])
  fix query vectors hits t rs t2 pool pool' ok t3 sel
  assume run: "query_text = PStr query" "multi_vector query_vector ''query_vector'' = Inr vectors"
    "re_hybrid env query vectors (rc_candidate_count config) s = (Inr (Some hits), t)"
    "cross_encoder env (clean_candidates collection hits) query t = (Inr rs, t2)" "relevant config collection rs = Inr pool"
    "hydrate_mmr_head env pool collection t2 = (Inr (pool', ok), t3)" "mmr_or_head config (pool', ok) = Inr sel"
    "finish cfg collection (re_tokenizer env) sel = Inr results"
  note ce = cross_encoder_Inr [OF run(4)]
  note rh = relevant_hydrated [OF ce run(5,6)]
  have "sound_results cfg config collection (re_tokenizer env) (clean_candidates collection hits) results"
    using selection_sound [OF rh assms(3), of cfg "re_tokenizer env"] run(7,8) by auto
  with run(1-3) show ?thesis
    by blast
qed

text \<open>Where the texts of conversations come from.\<close>

lemma hydrate_all_texts:
  "hydrate_all conversations cs rs hs = (pool, ok) \<Longrightarrow> d \<in> set pool \<Longrightarrow>
     \<exists>t ob ca v sg. cd_raw d = Some t \<and> Hydrated ob ca v (PStr t) sg PNone \<in> set hs"
proof (induction conversations cs rs hs arbitrary: pool ok rule: hydrate_all.induct)
  case (1 c cs r rs h hs)
  obtain pool' ok' where rec: "hydrate_all conversations cs rs hs = (pool', ok')"
    by fastforce
  show ?case
  proof (cases "d \<in> set pool'")
    case True
    then show ?thesis
      using 1(1) [OF rec] by (metis list.set_intros(2))
  next
    case False
    then have one: "hydrate_one conversations c r h = Some d"
      using 1(2,3) rec by (auto split: option.splits)
    then obtain ob ca v raw sg where h: "h = Hydrated ob ca v raw sg PNone"
      unfolding hydrate_one_def by (cases h) (auto split: if_splits)
    with one have "\<exists>t. cd_raw d = Some t \<and> raw = PStr t"
      unfolding hydrate_one_def hydrated_text_def
      by (auto simp: required_text_Inr split: if_splits option.splits sum.splits)
    with h show ?thesis
      by (metis list.set_intros(1))
  qed
qed simp_all

lemma finish_texts:
  assumes "finish cfg collection tok sel = Inr results" "r \<in> set results"
  shows "\<exists>c \<in> set sel. cd_raw c = Some (fr_raw r)"
proof -
  obtain rs where rs: "final_results sel collection = Inr rs"
      "results = rs \<or> (\<exists>budget. budget_results rs budget tok = Inr results)"
    using assms(1) unfolding finish_def by (auto simp: rbind_Inr_iff split: option.splits)
  have "r \<in> set rs"
  proof (cases "results = rs")
    case True
    with assms(2) show ?thesis by simp
  next
    case False
    then obtain budget where b: "budget_results rs budget tok = Inr results"
      using rs(2) by blast
    then obtain rs' where m: "rmap (\<lambda>r. rbind (required_text (PStr (fr_raw r)) ''raw_text'') (\<lambda>t. Inr (r\<lparr>fr_raw := t\<rparr>))) rs = Inr rs'"
      and "results = fitting tok budget rs'"
      by (auto simp: budget_results_def rbind_Inr_iff)
    then have "r \<in> set rs'"
      using assms(2) fitting_take [of rs' tok budget] by (auto dest: in_set_takeD)
    then obtain r' where "r' \<in> set rs" "rbind (required_text (PStr (fr_raw r')) ''raw_text'') (\<lambda>t. Inr (r'\<lparr>fr_raw := t\<rparr>)) = Inr r"
      using rmap_Inr_set [OF m] by blast
    then show ?thesis
      by (auto simp: rbind_Inr_iff required_text_Inr)
  qed
  then obtain c where "c \<in> set sel" and c: "rbind (required_text (PStr (cd_object c)) ''object_id'') (\<lambda>object_id.
               rbind (required_text (optional_text (cd_raw c)) ''raw_text'') (\<lambda>raw.
               Inr \<lparr>fr_object = object_id, fr_raw = raw,
                    fr_score = (if collection = conversations then None else Some (cd_score c))\<rparr>)) = Inr r"
    using rmap_Inr_set [OF rs(1) [unfolded final_results_def]] by blast
  moreover from c have "cd_raw c = Some (fr_raw r)"
    by (auto simp: rbind_Inr_iff required_text_Inr optional_text_def split: option.splits)
  ultimately show ?thesis by blast
qed

lemma retrieve_texts:
  assumes "retrieve env cfg query_text query_vector conversations s = (Inr results, s')"
    and "collection_config cfg conversations = Some config" "0 \<le> rc_final_count config"
  shows "\<exists>requests hs t u. (results = [] \<or> re_hydrate env requests t = (Inr (Some hs), u))
    \<and> (\<forall>r \<in> set results. \<exists>ob ca v sg. Hydrated ob ca v (PStr (fr_raw r)) sg PNone \<in> set hs)"
proof (rule retrieve_run [OF assms(1,2)])
  fix query vectors hits t rs t2 pool pool' ok t3 sel
  assume run: "cross_encoder env (clean_candidates conversations hits) query t = (Inr rs, t2)"
    "relevant config conversations rs = Inr pool" "hydrate_mmr_head env pool conversations t2 = (Inr (pool', ok), t3)"
    "mmr_or_head config (pool', ok) = Inr sel" "finish cfg conversations (re_tokenizer env) sel = Inr results"
  note rh = relevant_hydrated [OF cross_encoder_Inr [OF run(1)] run(2,3)]
  have sel: "set sel \<subseteq> set pool'"
    using mmr_or_head_total [OF rh(2) assms(3)] run(4) by auto
  obtain requests hs where h: "hydrate_all conversations pool requests hs = (pool', ok)"
      "pool = [] \<or> re_hydrate env requests t2 = (Inr (Some hs), t3)"
    using hydrate_mmr_head_Inr [OF run(3)] by blast
  have texts: "\<exists>ob ca v sg. Hydrated ob ca v (PStr (fr_raw r)) sg PNone \<in> set hs" if r: "r \<in> set results" for r
  proof -
    obtain c where "c \<in> set sel" "cd_raw c = Some (fr_raw r)"
      using finish_texts [OF run(5) r] by blast
    then show ?thesis
      using hydrate_all_texts [OF h(1), of c] sel by auto
  qed
  have "results = []" if "pool = []"
  proof (rule ccontr)
    assume "results \<noteq> []"
    then obtain r where "r \<in> set results"
      by (cases results) auto
    then obtain c where "c \<in> set sel"
      using finish_texts [OF run(5)] by blast
    with sel h(1) that show False
      by auto
  qed
  with h(2) texts show ?thesis
    by blast
qed


section \<open>Stored rows cannot make a search fail\<close>

text \<open>
  The documented behaviour of the three services: a search answers a list of hits, of any content; the reranker
  answers one finite score for every text; the hydration answers one item for every request.
\<close>

definition answers :: "'st retrieval_env \<Rightarrow> bool" where
  "answers env \<longleftrightarrow>
     (\<forall>query vectors n s. \<exists>hits t. re_hybrid env query vectors n s = (Inr (Some hits), t))
     \<and> (\<forall>query texts n s. \<exists>items ps t. re_rerank env query texts n s = (Inr (Some items), t)
          \<and> map rerank_reading items = map Some ps \<and> mset (map fst ps) = mset [0..int (length texts) - 1])
     \<and> (\<forall>requests s. \<exists>hs t. re_hydrate env requests s = (Inr (Some hs), t) \<and> length hs = length requests)"

lemma cross_encoder_answers:
  assumes "answers env"
  shows "\<exists>rs t. cross_encoder env cands query s = (Inr rs, t)"
proof (cases "cands = []")
  case True
  then show ?thesis
    by (simp add: cross_encoder_def)
next
  case False
  obtain items ps t where "re_rerank env query (map sr_text cands) (int (length cands)) s = (Inr (Some items), t)"
    and "map rerank_reading items = map Some ps" "mset (map fst ps) = mset [0..int (length (map sr_text cands)) - 1]"
    using assms unfolding answers_def by metis
  moreover from this have "\<exists>rs. ranked cands (Some items) = Inr rs"
    unfolding ranked_Inr by auto
  ultimately show ?thesis
    using False by (auto simp: cross_encoder_def obind_def)
qed

lemma relevant_total:
  assumes "\<forall>s \<in> set cands. candidate_ok collection s" "\<forall>c \<in> set rs. \<exists>s \<in> set cands. \<exists>x. c = scored s x"
  shows "\<exists>pool. relevant config collection rs = Inr pool"
proof (cases "collection = conversations")
  case True
  have "\<exists>full. collapse_conversations rs (rc_candidate_count config) = Inr full"
    using collapse_conversations_spec [OF conversation_segments [OF True assms], of "rc_candidate_count config"] by blast
  with True show ?thesis
    by (auto simp: relevant_def)
next
  case False
  then show ?thesis
    by (simp add: relevant_def)
qed

lemma hydrate_mmr_head_answers:
  assumes "answers env" "\<forall>s \<in> set cands. candidate_ok collection s" "\<forall>c \<in> set pool. stems_from collection cands c"
  shows "\<exists>hyd t. hydrate_mmr_head env pool collection s = (Inr hyd, t)"
proof -
  have "\<exists>r. hydration_request collection c = Inr r" if "c \<in> set pool" for c
    using hydration_request_total(1) [OF _ assms(2), of c] assms(3) that by blast
  then have "rmap (hydration_request collection) pool = Inr (map (\<lambda>c. projr (hydration_request collection c)) pool)"
    by (intro rmap_all_Inr) force
  moreover obtain hs t where "re_hydrate env (map (\<lambda>c. projr (hydration_request collection c)) pool) s = (Inr (Some hs), t)"
      "length hs = length pool"
    using assms(1) unfolding answers_def by (metis length_map)
  ultimately show ?thesis
    by (cases "pool = []") (auto simp: hydrate_mmr_head_def obind_def)
qed


definition garbage_env :: "unit retrieval_env" where
  "garbage_env =
     \<lparr>re_hybrid = (\<lambda>_ _ _ s. (Inr (Some [NotResult, Hit (PStr ''no uuid'') PNone (PBool True) PNone]), s)),
      re_hydrate = (\<lambda>requests s. (Inr (Some (map (\<lambda>_. NotHydrated) requests)), s)),
      re_rerank = (\<lambda>_ texts _ s. (Inr (Some (map (\<lambda>i. RerankResult (PInt i) (PInt 0)) [0..int (length texts) - 1])), s)),
      re_tokenizer = length\<rparr>"

lemma garbage_answers: "answers garbage_env"
proof -
  have "map rerank_reading (map (\<lambda>i. RerankResult (PInt i) (PInt 0)) js) = map Some (map (\<lambda>i. (i, 0)) js)"
    and "map fst (map (\<lambda>i. (i, 0::real)) js) = js" for js :: "int list"
    by (simp_all add: rerank_reading_def rerank_score_def o_def)
  then have "\<exists>ps. map rerank_reading (map (\<lambda>i. RerankResult (PInt i) (PInt 0)) js) = map Some ps \<and> mset (map fst ps) = mset js"
    for js :: "int list"
    by metis
  then show ?thesis
    unfolding answers_def garbage_env_def by simp
qed


text \<open>A store with one document: the search for it returns it.\<close>

definition one_id :: string where "one_id = uuid_render 5"

lemma one_id: "uuid_canon one_id = Some one_id" "strip one_id \<noteq> []"
proof -
  have c: "is_canonical one_id"
    unfolding one_id_def by (rule uuid_render_canonical) simp
  then show "uuid_canon one_id = Some one_id"
    by (simp add: is_canonical_def)
  show "strip one_id \<noteq> []"
    using canonical_not_blank [OF c] by simp
qed

definition one_env :: "unit retrieval_env" where
  "one_env = garbage_env\<lparr>re_hybrid := (\<lambda>_ _ _ s. (Inr (Some [Hit (PStr one_id) (PStr one_id) (PStr ''text'') PNone]), s)),
     re_hydrate := (\<lambda>requests s. (Inr (Some (map (\<lambda>r. Hydrated (PStr (sr_object r)) (PStr (sr_canonical r)) PNone PNone PNone PNone) requests)), s))\<rparr>"

definition one_config :: retrieval_config where
  "one_config = \<lparr>rc_candidate_count = 50, rc_candidate_ceiling = 50, rc_final_count = 3,
      rc_relevance_floor = Fin (-1), rc_gap_threshold = Fin 0, rc_mmr_lambda = Fin 0\<rparr>"

lemma one_clean: "clean_candidates ''policy'' [Hit (PStr one_id) (PStr one_id) (PStr ''text'') PNone] =
    [\<lparr>sr_object = one_id, sr_canonical = one_id, sr_text = ''text'', sr_segment = PNone\<rparr>]"
proof -
  have "strip ''text'' \<noteq> []"
    by code_simp
  then show ?thesis
    by (simp add: one_id clean_candidates_def accepted_def checked_hit_def uuid_text_def required_text_def conversations_def
        duplicated_def readable_ids_def hit_ids_def)
qed

lemma one_run:
  assumes "multi_vector qv ''query_vector'' = Inr vectors"
    and "re_hybrid env ''q'' vectors 50 s = (Inr (Some [Hit (PStr one_id) (PStr one_id) (PStr ''text'') PNone]), s)"
    and "re_rerank env ''q'' [''text''] 1 s = (Inr (Some [RerankResult (PInt 0) (PInt 0)]), s)"
    and "re_hydrate env [\<lparr>sr_object = one_id, sr_canonical = one_id, sr_text = ''text'', sr_segment = PNone\<rparr>] s
      = (Inr (Some [Hydrated (PStr one_id) (PStr one_id) PNone PNone PNone PNone]), s)"
    and "re_tokenizer env = length"
  shows "retrieve env (cfg\<lparr>mc_policy := one_config, mc_budgets := (mc_budgets cfg)\<lparr>bc_policy_tokens := 9\<rparr>\<rparr>)
     (PStr ''q'') qv ''policy'' s = (Inr [\<lparr>fr_object = one_id, fr_raw = ''text'', fr_score = Some 0\<rparr>], s)"
proof -
  let ?s = "\<lparr>sr_object = one_id, sr_canonical = one_id, sr_text = ''text'', sr_segment = PNone\<rparr>"
  let ?c = "(scored ?s 0)\<lparr>cd_raw := Some ''text'', cd_diversity := None\<rparr>"
  have blank: "strip ''q'' \<noteq> []" "strip ''text'' \<noteq> []"
    by code_simp+
  have r: "cross_encoder env [?s] ''q'' s = (Inr [scored ?s 0], s)"
    using assms(3) by (simp add: cross_encoder_def obind_def ranked_def rerank_score_def)
  have p: "relevant one_config ''policy'' [scored ?s 0] = Inr [scored ?s 0]"
    by (simp add: relevant_def conversations_def eligible_candidates_def above_floor_def one_config_def adaptive_k_def
        score_gaps_def scored_def)
  have h: "hydrate_mmr_head env [scored ?s 0] ''policy'' s = (Inr ([?c], False), s)"
    using assms(4) by (simp add: hydrate_mmr_head_def hydration_request_def conversations_def scored_def required_text_def
        blank one_id(2) obind_def hydrate_one_def hydrated_text_def usable_vector_def vector_def)
  have m: "mmr_or_head one_config ([?c], False) = Inr [?c]"
    by (simp add: mmr_or_head_def one_config_def)
  have f: "fitting length 9 [\<lparr>fr_object = one_id, fr_raw = ''text'', fr_score = Some 0\<rparr>]
      = [\<lparr>fr_object = one_id, fr_raw = ''text'', fr_score = Some 0\<rparr>]"
    by (subst fitting.simps) (simp add: token_count_def context_of_def)
  have "finish (cfg\<lparr>mc_policy := one_config, mc_budgets := (mc_budgets cfg)\<lparr>bc_policy_tokens := 9\<rparr>\<rparr>) ''policy'' length [?c]
      = Inr [\<lparr>fr_object = one_id, fr_raw = ''text'', fr_score = Some 0\<rparr>]"
    by (simp add: finish_def final_results_def optional_text_def required_text_def blank one_id(2) scored_def
        conversations_def context_budget_def budget_results_def f)
  moreover have "rc_candidate_count one_config = 50"
    by (simp add: one_config_def)
  ultimately show ?thesis
    using assms(1,2,5) r p h m
    by (simp add: retrieve_def obind_def required_text_def blank collection_config_def conversations_def
        normalized_candidates_eq one_clean)
qed

lemma one_retrieve:
  "retrieve one_env (cfg\<lparr>mc_policy := one_config, mc_budgets := (mc_budgets cfg)\<lparr>bc_policy_tokens := 9\<rparr>\<rparr>)
     (PStr ''q'') (PList [PList [PInt 1]]) ''policy'' () = (Inr [\<lparr>fr_object = one_id, fr_raw = ''text'', fr_score = Some 0\<rparr>], ())"
proof (rule one_run)
  show "multi_vector (PList [PList [PInt 1]]) ''query_vector'' = Inr [[1]]"
    by (simp add: multi_vector_def vector_def number_item_def)
qed (simp_all add: one_env_def garbage_env_def)


end
