(* ===== verification/Vector_Store.thy ===== *)
theory Vector_Store
  imports Retrieval App_Config
begin

text \<open>
  \<open>backend/weaviate_client/_base.py\<close>: the wrapper of one user's physical collection, its hybrid search and the
  hydration of a candidate head. The Weaviate client is a record of operations on a state \<open>'st\<close>, about which
  nothing is assumed; each gets the name of the collection it acts on. Log messages are left out.
\<close>

section \<open>Objects of the store\<close>

text \<open>A value the client deserializes: a UUID object, or a plain value.\<close>

datatype store_value = UuidValue nat | PlainValue pyval

text \<open>\<open>str(value) if isinstance(value, UUID) else value\<close>.\<close>

fun plain :: "store_value \<Rightarrow> pyval" where
  "plain (UuidValue n) = PStr (uuid_render n)"
| "plain (PlainValue v) = v"

text \<open>An object of an answer; no properties means that they are no mapping.\<close>

record store_object =
  so_uuid :: store_value
  so_properties :: "(string, store_value) dict option"
  so_vector :: pyval

definition prop_of :: "(string, store_value) dict \<Rightarrow> string \<Rightarrow> pyval" where
  "prop_of props key = (case map_of props key of None \<Rightarrow> PNone | Some v \<Rightarrow> plain v)"

text \<open>A filter of a deletion, and the answer to it: the counts and the objects, each with its status.\<close>

datatype store_filter =
    ByDocument string
  | ByParagraphs string "int list"
  | ByIds "string list"
  | ByConversations "string list"

record delete_answer =
  da_matches :: pyval
  da_successful :: pyval
  da_failed :: pyval
  da_objects :: "(store_value \<times> pyval) list option"

text \<open>\<open>wv_insert\<close> gives \<open>str\<close> of what the client's \<open>insert\<close> returns.\<close>

record 'st weaviate =
  wv_hybrid :: "string \<Rightarrow> string \<Rightarrow> real list list \<Rightarrow> int \<Rightarrow> ('st, store_object list option) op"
  wv_fetch :: "string \<Rightarrow> string list \<Rightarrow> ('st, store_object list option) op"
  wv_delete_many :: "string \<Rightarrow> store_filter \<Rightarrow> bool \<Rightarrow> ('st, delete_answer) op"
  wv_insert :: "string \<Rightarrow> (string \<times> pyval) list \<Rightarrow> string \<Rightarrow> real list list \<Rightarrow> real list \<Rightarrow> ('st, string) op"
  wv_update :: "string \<Rightarrow> string \<Rightarrow> int \<Rightarrow> ('st, unit) op"

section \<open>Validation\<close>

definition base_uuid_text :: "pyval \<Rightarrow> string \<Rightarrow> string res" where
  "base_uuid_text v name =
     rbind (required_text v name) (\<lambda>s.
       case uuid_canon s of None \<Rightarrow> Inl (ValueError (name @ '' must be a valid UUID'')) | Some u \<Rightarrow> Inr u)"

definition base_paragraph_id :: "pyval \<Rightarrow> int res" where
  "base_paragraph_id v = (case v of
       PInt n \<Rightarrow> if n \<le> 0 then Inl (ValueError ''paragraph_id must be greater than zero'') else Inr n
     | _ \<Rightarrow> Inl (TypeError ''paragraph_id must be an integer''))"

definition positive_top_k :: "pyval \<Rightarrow> int res" where
  "positive_top_k v = (case v of
       PInt n \<Rightarrow> if n \<le> 0 then Inl (ValueError ''top_k must be greater than zero'') else Inr n
     | _ \<Rightarrow> Inl (TypeError ''top_k must be an integer''))"

definition multi_vector_values :: "pyval \<Rightarrow> string \<Rightarrow> real list list res" where
  "multi_vector_values v name =
     rbind (multi_vector v name) (\<lambda>rows.
       if int (length (hd rows)) \<noteq> lateon_dimension
       then Inl (ValueError (name @ '' rows must have exactly 128 dimensions'')) else Inr rows)"

datatype fusion = RelativeScore | Ranked

definition fusion_type :: "hybrid_config \<Rightarrow> fusion res" where
  "fusion_type cfg =
     (let normalized = filter (\<lambda>c. CHR ''a'' \<le> c \<and> c \<le> CHR ''z'') (lower (hc_fusion_method cfg))
      in if normalized \<in> {''relativescore'', ''relativescorefusion''} then Inr RelativeScore
         else if normalized \<in> {''ranked'', ''rankedfusion''} then Inr Ranked
         else Inl (ValueError ''HYBRID_FUSION_METHOD must be relativeScoreFusion or rankedFusion''))"

definition result_uuid :: "pyval \<Rightarrow> string \<Rightarrow> string res" where
  "result_uuid v name = (case printed_uuid v of
       None \<Rightarrow> Inl (WeaviateResponseError (''hybrid result has an invalid '' @ name)) | Some u \<Rightarrow> Inr u)"

definition late_interaction_name :: string where "late_interaction_name = ''late_interaction''"
definition mmr_diversity_name :: string where "mmr_diversity_name = ''mmr_diversity''"

text \<open>\<open>_result_vector\<close>: the named vector of an object, or the vector itself when it is no mapping.\<close>

definition result_vector :: "pyval \<Rightarrow> int option \<Rightarrow> real list res" where
  "result_vector v expected =
     rbind (case v of
              PNone \<Rightarrow> Inl (WeaviateResponseError ''result is missing its MMR-diversity vector'')
            | PDict items \<Rightarrow>
                (case map_of items (PStr mmr_diversity_name) of
                   None \<Rightarrow> Inl (WeaviateResponseError ''result does not contain the requested MMR-diversity vector'')
                 | Some w \<Rightarrow> Inr w)
            | _ \<Rightarrow> Inr v) (\<lambda>selected.
     case vector selected ''MMR-diversity vector'' of
       Inl _ \<Rightarrow> Inl (WeaviateResponseError ''result contains a malformed MMR vector'')
     | Inr xs \<Rightarrow>
         (case expected of
            None \<Rightarrow> Inr xs
          | Some n \<Rightarrow>
              if int (length xs) \<noteq> n
              then Inl (WeaviateResponseError (''result MMR-diversity vector must have exactly '' @ show_int n @ '' dimensions''))
              else Inr xs))"

definition result_multi_vector :: "pyval \<Rightarrow> real list list res" where
  "result_multi_vector v =
     (case v of
        PDict items \<Rightarrow>
          (case map_of items (PStr late_interaction_name) of
             None \<Rightarrow> Inl (WeaviateResponseError ''result does not contain the requested late-interaction multi-vector'')
           | Some w \<Rightarrow>
               (case multi_vector_values w ''late-interaction multi-vector'' of
                  Inl _ \<Rightarrow> Inl (WeaviateResponseError ''result contains a malformed late-interaction multi-vector'')
                | Inr rows \<Rightarrow> Inr rows))
      | _ \<Rightarrow> Inl (WeaviateResponseError ''result does not contain the requested late-interaction multi-vector''))"

section \<open>The collection of a user\<close>

text \<open>The class attributes of the wrappers.\<close>

record collection_kind =
  kn_type :: string
  kn_id :: string
  kn_canonical :: string
  kn_search :: string
  kn_segment :: "string option"
  kn_raw :: bool

definition chunk_kind :: "string \<Rightarrow> collection_kind" where
  "chunk_kind collection =
     \<lparr>kn_type = collection, kn_id = ''chunk_id'', kn_canonical = ''chunk_id'', kn_search = ''raw_text'',
      kn_segment = None, kn_raw = False\<rparr>"

definition conversation_kind :: collection_kind where
  "conversation_kind =
     \<lparr>kn_type = conversations, kn_id = ''segment_id'', kn_canonical = ''conversation_id'',
      kn_search = ''segment_text'', kn_segment = Some ''segment_index'', kn_raw = True\<rparr>"

definition kind_of :: "string \<Rightarrow> collection_kind" where
  "kind_of collection = (if collection = conversations then conversation_kind else chunk_kind collection)"

record user_collection =
  uc_user :: string
  uc_name :: string
  uc_kind :: collection_kind

definition open_user_collection :: "user_pattern \<Rightarrow> pyval \<Rightarrow> string \<Rightarrow> user_collection res" where
  "open_user_collection pat user_id collection =
     rbind (required_text user_id ''user_id'') (\<lambda>user.
     rbind (get_collection_name pat (PStr user) (PStr collection)) (\<lambda>name.
     Inr \<lparr>uc_user = user, uc_name = name, uc_kind = kind_of collection\<rparr>))"

section \<open>Hybrid search\<close>

definition break_conversation :: "string option \<Rightarrow> quarantine \<Rightarrow> quarantine" where
  "break_conversation recoverable q =
     (case recoverable of None \<Rightarrow> q | Some c \<Rightarrow> q\<lparr>qu_conversations := c # qu_conversations q\<rparr>)"

text \<open>The segment index a row must have; \<open>None\<close> quarantines it.\<close>

definition row_segment :: "collection_kind \<Rightarrow> (string, store_value) dict \<Rightarrow> pyval option" where
  "row_segment kind props =
     (case kn_segment kind of
        None \<Rightarrow> Some PNone
      | Some key \<Rightarrow> (case prop_of props key of PInt n \<Rightarrow> if n < 0 then None else Some (PInt n) | _ \<Rightarrow> None))"

definition repeat_row :: "collection_kind \<Rightarrow> string \<Rightarrow> string \<Rightarrow> quarantine \<Rightarrow> quarantine" where
  "repeat_row kind object_id canonical_id q =
     (let q = q\<lparr>qu_objects := object_id # qu_objects q\<rparr>
      in if kn_segment kind = None then q
         else q\<lparr>qu_conversations := canonical_id
                  # map sr_canonical (filter (\<lambda>item. sr_object item = object_id) (qu_normalized q))
                  @ qu_conversations q\<rparr>)"

text \<open>One turn of the loop, after the checks of the owner.\<close>

definition owned_row :: "collection_kind \<Rightarrow> store_value \<Rightarrow> (string, store_value) dict \<Rightarrow> quarantine \<Rightarrow> quarantine" where
  "owned_row kind uuid props q =
     (let recoverable = (if kn_segment kind = None then None else printed_uuid (prop_of props (kn_canonical kind)))
      in case printed_uuid (plain uuid) of
           None \<Rightarrow> break_conversation recoverable q
         | Some object_id \<Rightarrow>
             if printed_uuid (prop_of props (kn_id kind)) \<noteq> Some object_id then break_conversation recoverable q
             else (case printed_uuid (prop_of props (kn_canonical kind)) of
                 None \<Rightarrow> q
               | Some canonical_id \<Rightarrow>
                   (case required_text (prop_of props (kn_search kind)) (kn_search kind) of
                      Inl _ \<Rightarrow> if kn_segment kind = None then q else break_conversation (Some canonical_id) q
                    | Inr t \<Rightarrow>
                        (case row_segment kind props of
                           None \<Rightarrow> break_conversation (Some canonical_id) q
                         | Some segment \<Rightarrow>
                             if object_id \<in> set (qu_seen q) then repeat_row kind object_id canonical_id q
                             else admit_hit object_id canonical_id t segment (q\<lparr>qu_seen := object_id # qu_seen q\<rparr>)))))"

definition row_of_other :: "string \<Rightarrow> store_object \<Rightarrow> bool" where
  "row_of_other user row = (case so_properties row of
       None \<Rightarrow> False
     | Some props \<Rightarrow> (case prop_of props ''user_id'' of PStr u \<Rightarrow> u \<noteq> user | _ \<Rightarrow> False))"

definition row_of_user :: "string \<Rightarrow> store_object \<Rightarrow> bool" where
  "row_of_user user row = (case so_properties row of
       None \<Rightarrow> False | Some props \<Rightarrow> prop_of props ''user_id'' = PStr user)"

fun search_rows :: "collection_kind \<Rightarrow> string \<Rightarrow> store_object list \<Rightarrow> quarantine \<Rightarrow> quarantine res" where
  "search_rows kind user [] q = Inr q"
| "search_rows kind user (row # rows) q =
     (if row_of_other user row
      then Inl (UserIsolationError ''hybrid result user_id does not match the bound collection user'')
      else if row_of_user user row
      then search_rows kind user rows (owned_row kind (so_uuid row) (the (so_properties row)) q)
      else search_rows kind user rows q)"

definition search_results :: "collection_kind \<Rightarrow> string \<Rightarrow> store_object list option \<Rightarrow> search_result list res" where
  "search_results kind user objects =
     (case objects of
        None \<Rightarrow> Inl (WeaviateResponseError ''hybrid response objects are malformed'')
      | Some rows \<Rightarrow>
          rbind (search_rows kind user rows
                   \<lparr>qu_normalized = [], qu_seen = [], qu_objects = [], qu_conversations = [], qu_indices = []\<rparr>) (\<lambda>q.
            Inr (filter (\<lambda>item. sr_object item \<notin> set (qu_objects q)
                              \<and> sr_canonical item \<notin> set (qu_conversations q)) (qu_normalized q))))"

definition hybrid_search ::
    "'st weaviate \<Rightarrow> hybrid_config \<Rightarrow> user_collection \<Rightarrow> pyval \<Rightarrow> pyval \<Rightarrow> pyval \<Rightarrow> ('st, search_result list) op" where
  "hybrid_search wv cfg uc query_text query_vector top_k =
     obind (olift (required_text query_text ''query_text'')) (\<lambda>query.
     obind (olift (multi_vector_values query_vector ''query_vector'')) (\<lambda>vectors.
     obind (olift (positive_top_k top_k)) (\<lambda>limit.
     obind (olift (fusion_type cfg)) (\<lambda>_.
     obind (wv_hybrid wv (uc_name uc) query vectors limit) (\<lambda>objects.
     olift (search_results (uc_kind uc) (uc_user uc) objects))))))"

section \<open>Hydration\<close>

text \<open>The candidates by object id, in their order.\<close>

fun expected_head :: "collection_kind \<Rightarrow> (string, search_result) dict \<Rightarrow> search_result list \<Rightarrow> (string, search_result) dict res" where
  "expected_head kind expected [] = Inr expected"
| "expected_head kind expected (c # cs) =
     rbind (result_uuid (PStr (sr_object c)) ''candidate object UUID'') (\<lambda>object_id.
     rbind (result_uuid (PStr (sr_canonical c)) ''candidate canonical UUID'') (\<lambda>canonical_id.
     if map_of expected object_id \<noteq> None
     then Inl (WeaviateResponseError ''MMR hydration request contains duplicate object UUIDs'')
     else if kn_canonical kind = kn_id kind \<and> canonical_id \<noteq> object_id
     then Inl (WeaviateResponseError ''MMR hydration candidate canonical UUID is inconsistent'')
     else expected_head kind (expected @ [(object_id, c)]) cs))"

definition not_hydrated :: "string \<Rightarrow> search_result \<Rightarrow> pyval \<Rightarrow> string \<Rightarrow> hydrated" where
  "not_hydrated object_id c segment reason =
     Hydrated (PStr object_id) (PStr (sr_canonical c)) PNone PNone segment (PStr reason)"

definition head_segment :: "collection_kind \<Rightarrow> (string, store_value) dict \<Rightarrow> search_result \<Rightarrow> pyval option" where
  "head_segment kind props c =
     (case kn_segment kind of
        None \<Rightarrow> Some PNone
      | Some key \<Rightarrow>
          (let v = (case prop_of props key of PInt n \<Rightarrow> if n < 0 then PNone else PInt n | _ \<Rightarrow> PNone)
           in if same_segment (sr_segment c) v then Some v else None))"

definition stored_vector :: "pyval \<Rightarrow> pyval" where
  "stored_vector v = (case result_vector v (Some gte_dimension) of
       Inl _ \<Rightarrow> PNone | Inr xs \<Rightarrow> PTuple (map (\<lambda>x. PFloat (Fin x)) xs))"

text \<open>The result for an object of the user that is asked for and not yet hydrated.\<close>

definition hydrated_object ::
    "collection_kind \<Rightarrow> string \<Rightarrow> search_result \<Rightarrow> (string, store_value) dict \<Rightarrow> pyval \<Rightarrow> hydrated" where
  "hydrated_object kind object_id c props v =
     (if printed_uuid (prop_of props (kn_id kind)) \<noteq> Some object_id
      then not_hydrated object_id c (sr_segment c) ''hydration_business_uuid_mismatch''
      else if (case printed_uuid (prop_of props (kn_canonical kind)) of None \<Rightarrow> [] | Some u \<Rightarrow> u) \<noteq> sr_canonical c
      then not_hydrated object_id c (sr_segment c) ''hydration_canonical_uuid_mismatch''
      else case head_segment kind props c of
        None \<Rightarrow> not_hydrated object_id c (sr_segment c) ''hydration_segment_index_mismatch''
      | Some segment \<Rightarrow>
          (case (if kn_raw kind then required_text (prop_of props ''raw_text'') ''raw_text'' else Inr []) of
             Inl _ \<Rightarrow> not_hydrated object_id c segment ''malformed_canonical_text''
           | Inr t \<Rightarrow>
               Hydrated (PStr object_id) (PStr (sr_canonical c)) (stored_vector v)
                 (if kn_raw kind then PStr t else PNone) segment PNone))"

text \<open>The result for an object that is asked for; \<open>again\<close> says that it came before.\<close>

definition row_hydrated :: "collection_kind \<Rightarrow> string \<Rightarrow> string \<Rightarrow> search_result \<Rightarrow> store_object \<Rightarrow> bool \<Rightarrow> hydrated" where
  "row_hydrated kind user object_id c row again =
     (case so_properties row of
        None \<Rightarrow> not_hydrated object_id c (sr_segment c) ''hydration_properties_not_mapping''
      | Some props \<Rightarrow>
          if \<not> row_of_user user row then not_hydrated object_id c (sr_segment c) ''invalid_hydration_user_id''
          else if again then not_hydrated object_id c (sr_segment c) ''duplicate_hydration_object''
          else hydrated_object kind object_id c props (so_vector row))"

fun hydrate_objects ::
    "collection_kind \<Rightarrow> string \<Rightarrow> (string, search_result) dict \<Rightarrow> store_object list \<Rightarrow> (string, hydrated) dict
     \<Rightarrow> (string, hydrated) dict res" where
  "hydrate_objects kind user expected [] done = Inr done"
| "hydrate_objects kind user expected (row # rows) done =
     rbind (result_uuid (plain (so_uuid row)) ''object UUID'') (\<lambda>object_id.
     case map_of expected object_id of
       None \<Rightarrow> Inl (WeaviateResponseError ''MMR hydration returned an unexpected object UUID'')
     | Some c \<Rightarrow>
         if row_of_other user row
         then Inl (UserIsolationError ''MMR hydration result user_id does not match the bound user'')
         else hydrate_objects kind user expected rows
           (AList.update object_id (row_hydrated kind user object_id c row (map_of done object_id \<noteq> None)) done))"

definition hydrated_head ::
    "collection_kind \<Rightarrow> string \<Rightarrow> (string, search_result) dict \<Rightarrow> store_object list option \<Rightarrow> hydrated list res" where
  "hydrated_head kind user expected objects =
     (case objects of
        None \<Rightarrow> Inl (WeaviateResponseError ''MMR hydration response objects are malformed'')
      | Some rows \<Rightarrow>
          rbind (hydrate_objects kind user expected rows []) (\<lambda>hydrated.
            Inr (map (\<lambda>(object_id, c). case map_of hydrated object_id of
                        None \<Rightarrow> not_hydrated object_id c (sr_segment c) ''missing_hydration_object''
                      | Some h \<Rightarrow> h) expected)))"

definition hydrate_head :: "'st weaviate \<Rightarrow> user_collection \<Rightarrow> search_result list \<Rightarrow> ('st, hydrated list) op" where
  "hydrate_head wv uc candidates =
     (if candidates = [] then oret []
      else
        obind (olift (expected_head (uc_kind uc) [] candidates)) (\<lambda>expected.
        obind (wv_fetch wv (uc_name uc) (map fst expected)) (\<lambda>objects.
        olift (hydrated_head (uc_kind uc) (uc_user uc) expected objects))))"

section \<open>A search sees only the user's own rows\<close>

text \<open>The row \<open>row\<close> says what the item \<open>i\<close> says.\<close>

definition row_gives :: "collection_kind \<Rightarrow> store_object \<Rightarrow> search_result \<Rightarrow> bool" where
  "row_gives kind row i \<longleftrightarrow> (\<exists>props. so_properties row = Some props
     \<and> printed_uuid (plain (so_uuid row)) = Some (sr_object i)
     \<and> printed_uuid (prop_of props (kn_canonical kind)) = Some (sr_canonical i)
     \<and> prop_of props (kn_search kind) = PStr (sr_text i))"

lemma owned_row_items:
  assumes "i \<in> set (qu_normalized (owned_row kind uuid props q))"
  shows "i \<in> set (qu_normalized q) \<or> (printed_uuid (plain uuid) = Some (sr_object i)
     \<and> printed_uuid (prop_of props (kn_canonical kind)) = Some (sr_canonical i)
     \<and> prop_of props (kn_search kind) = PStr (sr_text i))"
  using assms unfolding owned_row_def Let_def
  by (auto simp: break_conversation_def repeat_row_def admit_hit_def required_text_Inr Let_def
      split: option.splits if_splits sum.splits)

lemma search_rows_items:
  assumes "search_rows kind user rows q = Inr q'"
  shows "(\<forall>row \<in> set rows. \<not> row_of_other user row)
    \<and> (\<forall>i \<in> set (qu_normalized q'). i \<in> set (qu_normalized q) \<or> (\<exists>row \<in> set rows. row_of_user user row \<and> row_gives kind row i))"
  using assms
proof (induction kind user rows q rule: search_rows.induct)
  case (2 kind user row rows q)
  have other: "\<not> row_of_other user row"
    using "2.prems" by (auto split: if_splits)
  show ?case
  proof (cases "row_of_user user row")
    case True
    then obtain props where props: "so_properties row = Some props"
      by (auto simp: row_of_user_def split: option.splits)
    have "search_rows kind user rows (owned_row kind (so_uuid row) props q) = Inr q'"
      using "2.prems" other True props by simp
    note IH = "2.IH"(1) [OF other True, unfolded props option.sel, OF this]
    have "i \<in> set (qu_normalized q) \<or> row_gives kind row i"
      if "i \<in> set (qu_normalized (owned_row kind (so_uuid row) props q))" for i
      using owned_row_items [OF that] props by (auto simp: row_gives_def)
    with IH other True show ?thesis
      by (metis set_ConsD list.set_intros(1,2))
  next
    case False
    then have "search_rows kind user rows q = Inr q'"
      using "2.prems" other by simp
    with "2.IH"(2) [OF other False] other show ?thesis
      by auto
  qed
qed simp

lemma search_rows_returns: "(\<forall>row \<in> set rows. \<not> row_of_other user row) \<Longrightarrow> \<exists>q'. search_rows kind user rows q = Inr q'"
  by (induction kind user rows q rule: search_rows.induct) auto

lemma search_results_Inr:
  assumes "search_results kind user objects = Inr items"
  obtains rows where "objects = Some rows" "\<forall>row \<in> set rows. \<not> row_of_other user row"
    "\<forall>i \<in> set items. \<exists>row \<in> set rows. row_of_user user row \<and> row_gives kind row i"
proof -
  obtain rows q where q: "objects = Some rows" "search_rows kind user rows
      \<lparr>qu_normalized = [], qu_seen = [], qu_objects = [], qu_conversations = [], qu_indices = []\<rparr> = Inr q"
    and items: "set items \<subseteq> set (qu_normalized q)"
    using assms unfolding search_results_def by (auto simp: rbind_Inr_iff split: option.splits)
  from search_rows_items [OF q(2)] items that [OF q(1)] show thesis
    by auto
qed

text \<open>Where a hydrated text comes from.\<close>

lemma row_hydrated_text:
  assumes "row_hydrated kind user object_id c row again = Hydrated ob ca v (PStr t) sg PNone"
  shows "row_of_user user row \<and> prop_of (the (so_properties row)) ''raw_text'' = PStr t"
proof -
  obtain props where p: "so_properties row = Some props" "row_of_user user row"
      "hydrated_object kind object_id c props (so_vector row) = Hydrated ob ca v (PStr t) sg PNone"
    using assms unfolding row_hydrated_def by (simp add: not_hydrated_def split: option.splits if_splits)
  from p(3) have "prop_of props ''raw_text'' = PStr t"
    unfolding hydrated_object_def
    by (auto simp: not_hydrated_def required_text_Inr split: if_splits option.splits sum.splits)
  with p(1,2) show ?thesis
    by simp
qed

lemma hydrate_objects_text:
  assumes "hydrate_objects kind user expected rows done = Inr hydrated"
    and "map_of hydrated k = Some (Hydrated ob ca v (PStr t) sg PNone)"
  shows "map_of done k = Some (Hydrated ob ca v (PStr t) sg PNone)
    \<or> (\<exists>row \<in> set rows. row_of_user user row \<and> prop_of (the (so_properties row)) ''raw_text'' = PStr t)"
  using assms
proof (induction rows arbitrary: "done")
  case (Cons row rows)
  obtain object_id where oc: "result_uuid (plain (so_uuid row)) ''object UUID'' = Inr object_id"
    using Cons.prems(1) by (auto simp: rbind_Inr_iff)
  obtain c where c: "map_of expected object_id = Some c"
    using Cons.prems(1) oc by (auto split: option.splits)
  define h where "h = row_hydrated kind user object_id c row (map_of done object_id \<noteq> None)"
  have rest: "hydrate_objects kind user expected rows (AList.update object_id h done) = Inr hydrated"
    using Cons.prems(1) oc c by (simp add: h_def split: if_splits)
  from Cons.IH [OF rest Cons.prems(2)] show ?case
  proof
    assume u: "map_of (AList.update object_id h done) k = Some (Hydrated ob ca v (PStr t) sg PNone)"
    show ?thesis
    proof (cases "k = object_id")
      case True
      then have "h = Hydrated ob ca v (PStr t) sg PNone"
        using u by (simp add: update_conv')
      with row_hydrated_text show ?thesis
        unfolding h_def by (metis list.set_intros(1))
    next
      case False
      then show ?thesis
        using u by (simp add: update_conv')
    qed
  next
    assume "\<exists>row \<in> set rows. row_of_user user row \<and> prop_of (the (so_properties row)) ''raw_text'' = PStr t"
    then show ?thesis
      by auto
  qed
qed simp

section \<open>Retrieval over the collection of a user\<close>

definition hit_of :: "search_result \<Rightarrow> hit" where
  "hit_of i = Hit (PStr (sr_object i)) (PStr (sr_canonical i)) (PStr (sr_text i)) (sr_segment i)"

definition rows_value :: "real list list \<Rightarrow> pyval" where
  "rows_value rows = PList (map (\<lambda>row. PList (map (\<lambda>x. PFloat (Fin x)) row)) rows)"

text \<open>What \<open>retrieve\<close> gets as its collection client, beside a reranker and a tokenizer.\<close>

definition user_env ::
    "'st weaviate \<Rightarrow> hybrid_config \<Rightarrow> user_collection \<Rightarrow> (string \<Rightarrow> string list \<Rightarrow> int \<Rightarrow> ('st, rerank_item list option) op)
     \<Rightarrow> tokenizer \<Rightarrow> 'st retrieval_env" where
  "user_env wv hcfg uc rerank tok =
     \<lparr>re_hybrid = (\<lambda>query vectors n. obind (hybrid_search wv hcfg uc (PStr query) (rows_value vectors) (PInt n))
                     (\<lambda>items. oret (Some (map hit_of items)))),
      re_hydrate = (\<lambda>requests. obind (hydrate_head wv uc requests) (\<lambda>hs. oret (Some hs))),
      re_rerank = rerank, re_tokenizer = tok\<rparr>"

lemma clean_from_hits:
  assumes "i \<in> set (clean_candidates collection (map hit_of items))"
  shows "\<exists>j \<in> set items. uuid_canon (sr_object j) = Some (sr_object i) \<and> uuid_canon (sr_canonical j) = Some (sr_canonical i)
    \<and> sr_text j = sr_text i"
proof -
  obtain j where j: "j \<in> set items" "i \<in> set (accepted collection (hit_of j))"
    using assms by (auto simp: clean_candidates_def)
  have "checked_hit (PStr (sr_object j)) (PStr (sr_canonical j)) (PStr (sr_text j)) = Inr (sr_object i, sr_canonical i, sr_text i)"
    using j(2) unfolding accepted_def hit_of_def by (auto split: sum.splits if_splits)
  then have "uuid_canon (sr_object j) = Some (sr_object i) \<and> uuid_canon (sr_canonical j) = Some (sr_canonical i) \<and> sr_text j = sr_text i"
    by (auto simp: checked_hit_def uuid_text_def rbind_Inr_iff required_text_Inr split: option.splits)
  with j(1) show ?thesis
    by blast
qed

lemma hydrate_head_texts:
  assumes "hydrate_head wv uc requests s = (Inr hs, u)" "Hydrated ob ca v (PStr t) sg PNone \<in> set hs"
  shows "\<exists>ids rows s2 u2. wv_fetch wv (uc_name uc) ids s2 = (Inr (Some rows), u2)
    \<and> (\<exists>row \<in> set rows. row_of_user (uc_user uc) row \<and> prop_of (the (so_properties row)) ''raw_text'' = PStr t)"
proof -
  have "requests \<noteq> []"
    using assms by (auto simp: hydrate_head_def)
  then obtain expected objects u2 where e: "wv_fetch wv (uc_name uc) (map fst expected) s = (Inr objects, u2)"
      "hydrated_head (uc_kind uc) (uc_user uc) expected objects = Inr hs"
    using assms(1) by (auto simp: hydrate_head_def obind_Inr_iff)
  obtain rows hydrated where r: "objects = Some rows" "hydrate_objects (uc_kind uc) (uc_user uc) expected rows [] = Inr hydrated"
      "hs = map (\<lambda>(object_id, c). case map_of hydrated object_id of
                        None \<Rightarrow> not_hydrated object_id c (sr_segment c) ''missing_hydration_object''
                      | Some h \<Rightarrow> h) expected"
    using e(2) unfolding hydrated_head_def by (auto simp: rbind_Inr_iff split: option.splits)
  then obtain k where "map_of hydrated k = Some (Hydrated ob ca v (PStr t) sg PNone)"
    using assms(2) by (auto simp: not_hydrated_def split: option.splits)
  from hydrate_objects_text [OF r(2) this] e(1) r(1) show ?thesis
    by auto
qed

text \<open>
  The row that a result of the user \<open>user\<close> shows: a row of the user, with the id and the text of the result, or for
  a conversation with its id and a text the result's text holds.
\<close>

definition row_shows :: "string \<Rightarrow> string \<Rightarrow> store_object \<Rightarrow> final_result \<Rightarrow> bool" where
  "row_shows collection user row r \<longleftrightarrow> row_of_user user row
     \<and> (\<exists>props. so_properties row = Some props
          \<and> (if collection = conversations
             then printed_uuid (prop_of props ''conversation_id'') = Some (fr_object r)
               \<and> (\<exists>t. prop_of props ''segment_text'' = PStr t \<and> contains t (fr_raw r))
             else printed_uuid (plain (so_uuid row)) = Some (fr_object r) \<and> prop_of props ''raw_text'' = PStr (fr_raw r)))"

lemma printed_canon: "printed_uuid v = Some u \<Longrightarrow> uuid_canon u = Some u"
  using uuid_canon_canonical by (cases v) (auto simp: is_canonical_def)

lemma row_shows_result:
  assumes "row_of_user user row" "row_gives (kind_of collection) row j"
    and "uuid_canon (sr_object j) = Some (sr_object i)" "uuid_canon (sr_canonical j) = Some (sr_canonical i)" "sr_text j = sr_text i"
    and "shows_candidate collection i r"
  shows "row_shows collection user row r"
proof -
  obtain props where p: "so_properties row = Some props" "printed_uuid (plain (so_uuid row)) = Some (sr_object j)"
      "printed_uuid (prop_of props (kn_canonical (kind_of collection))) = Some (sr_canonical j)"
      "prop_of props (kn_search (kind_of collection)) = PStr (sr_text j)"
    using assms(2) unfolding row_gives_def by blast
  have "sr_object i = sr_object j" "sr_canonical i = sr_canonical j"
    using printed_canon [OF p(2)] printed_canon [OF p(3)] assms(3,4) by simp_all
  with p assms(1,5,6) show ?thesis
    by (auto simp: row_shows_def shows_candidate_def kind_of_def conversation_kind_def chunk_kind_def split: if_splits)
qed

lemma open_collection_parts:
  assumes "open_user_collection pat user_id collection = Inr uc"
  shows "user_id = PStr (uc_user uc)" "uc_kind uc = kind_of collection"
    "get_collection_name pat user_id (PStr collection) = Inr (uc_name uc)"
  using assms by (auto simp: open_user_collection_def rbind_Inr_iff required_text_Inr)

lemma retrieve_own_rows:
  assumes "open_user_collection pat user_id collection = Inr uc"
    and "retrieve (user_env wv hcfg uc rerank tok) cfg query_text query_vector collection s = (Inr results, s')"
    and "collection_config cfg collection = Some config" "0 \<le> rc_final_count config"
  shows "\<exists>query vectors rows t. wv_hybrid wv (uc_name uc) query vectors (rc_candidate_count config) s = (Inr (Some rows), t)
    \<and> (\<forall>row \<in> set rows. \<not> row_of_other (uc_user uc) row)
    \<and> (\<forall>r \<in> set results. \<exists>row \<in> set rows. row_shows collection (uc_user uc) row r)"
proof -
  note uc = open_collection_parts [OF assms(1)]
  let ?env = "user_env wv hcfg uc rerank tok"
  obtain query vectors hits t where hy: "re_hybrid ?env query vectors (rc_candidate_count config) s = (Inr (Some hits), t)"
    and sound: "sound_results cfg config collection (re_tokenizer ?env) (clean_candidates collection hits) results"
    using retrieve_answer [OF assms(2-4)] by blast
  obtain items t1 where hs: "hybrid_search wv hcfg uc (PStr query) (rows_value vectors) (PInt (rc_candidate_count config)) s = (Inr items, t1)"
    and hits: "hits = map hit_of items"
    using hy unfolding user_env_def by (auto simp: obind_Inr_iff)
  obtain vectors' objects where st: "wv_hybrid wv (uc_name uc) query vectors' (rc_candidate_count config) s = (Inr objects, t1)"
    and sr: "search_results (uc_kind uc) (uc_user uc) objects = Inr items"
    using hs unfolding hybrid_search_def
    by (auto simp: obind_Inr_iff required_text_Inr positive_top_k_def split: if_splits)
  obtain rows where rows: "objects = Some rows" "\<forall>row \<in> set rows. \<not> row_of_other (uc_user uc) row"
      "\<forall>i \<in> set items. \<exists>row \<in> set rows. row_of_user (uc_user uc) row \<and> row_gives (uc_kind uc) row i"
    using search_results_Inr [OF sr] by blast
  have "\<exists>row \<in> set rows. row_shows collection (uc_user uc) row r" if r: "r \<in> set results" for r
  proof -
    obtain i where i: "i \<in> set (clean_candidates collection (map hit_of items))" "shows_candidate collection i r"
      using sound r unfolding sound_results_def hits by blast
    obtain j where j: "j \<in> set items" "uuid_canon (sr_object j) = Some (sr_object i)"
        "uuid_canon (sr_canonical j) = Some (sr_canonical i)" "sr_text j = sr_text i"
      using clean_from_hits [OF i(1)] by blast
    obtain row where "row \<in> set rows" "row_of_user (uc_user uc) row" "row_gives (uc_kind uc) row j"
      using rows(3) j(1) by blast
    then show ?thesis
      using row_shows_result [OF _ _ j(2-4) i(2), of "uc_user uc" row] uc(2) by auto
  qed
  with st rows(1,2) show ?thesis
    by blast
qed

lemma retrieve_own_texts:
  assumes "retrieve (user_env wv hcfg uc rerank tok) cfg query_text query_vector conversations s = (Inr results, s')"
    and "collection_config cfg conversations = Some config" "0 \<le> rc_final_count config" "r \<in> set results"
  shows "\<exists>ids heads s2 t2. wv_fetch wv (uc_name uc) ids s2 = (Inr (Some heads), t2)
         \<and> (\<exists>row \<in> set heads. row_of_user (uc_user uc) row \<and> prop_of (the (so_properties row)) ''raw_text'' = PStr (fr_raw r))"
proof -
  let ?env = "user_env wv hcfg uc rerank tok"
  obtain requests hs s2 u where h: "results = [] \<or> re_hydrate ?env requests s2 = (Inr (Some hs), u)"
      "\<forall>r \<in> set results. \<exists>ob ca v sg. Hydrated ob ca v (PStr (fr_raw r)) sg PNone \<in> set hs"
    using retrieve_texts [OF assms(1-3)] by blast
  obtain ob ca v sg where tx: "Hydrated ob ca v (PStr (fr_raw r)) sg PNone \<in> set hs"
    using h(2) assms(4) by blast
  have "hydrate_head wv uc requests s2 = (Inr hs, u)"
    using h(1) assms(4) by (auto simp: user_env_def obind_Inr_iff)
  from hydrate_head_texts [OF this tx] show ?thesis .
qed

text \<open>
  C10 (safety). A search of a user asks only the physical collection of that user and type. When it returns, no row
  of the store's answer names another user, and every result shows a row the user owns. The text of a conversation
  is, whole, the text of a row of that collection that the user owns.
\<close>

theorem retrieval_tenant_isolation:
  assumes "open_user_collection pat user_id collection = Inr uc"
    and "retrieve (user_env wv hcfg uc rerank tok) cfg query_text query_vector collection s = (Inr results, s')"
    and "collection_config cfg collection = Some config" "0 \<le> rc_final_count config"
  shows "\<exists>user name query vectors rows t. user_id = PStr user \<and> get_collection_name pat user_id (PStr collection) = Inr name
    \<and> wv_hybrid wv name query vectors (rc_candidate_count config) s = (Inr (Some rows), t)
    \<and> (\<forall>row \<in> set rows. \<not> row_of_other user row)
    \<and> (\<forall>r \<in> set results. \<exists>row \<in> set rows. row_shows collection user row r)
    \<and> (collection = conversations \<longrightarrow> (\<forall>r \<in> set results. \<exists>ids heads s2 t2. wv_fetch wv name ids s2 = (Inr (Some heads), t2)
         \<and> (\<exists>row \<in> set heads. row_of_user user row \<and> prop_of (the (so_properties row)) ''raw_text'' = PStr (fr_raw r))))"
proof -
  note uc = open_collection_parts [OF assms(1)]
  obtain query vectors rows t where rows: "wv_hybrid wv (uc_name uc) query vectors (rc_candidate_count config) s = (Inr (Some rows), t)"
      "\<forall>row \<in> set rows. \<not> row_of_other (uc_user uc) row" "\<forall>r \<in> set results. \<exists>row \<in> set rows. row_shows collection (uc_user uc) row r"
    using retrieve_own_rows [OF assms] by blast
  show ?thesis
    by (intro exI [of _ "uc_user uc"] exI [of _ "uc_name uc"] exI [of _ query] exI [of _ vectors] exI [of _ rows] exI [of _ t])
      (use uc(1,3) rows retrieve_own_texts [where wv = wv and uc = uc] assms(2-4) in blast)
qed

text \<open>A store with one policy of the user \<open>u\<close>.\<close>

definition one_row :: store_object where
  "one_row = \<lparr>so_uuid = UuidValue 5,
     so_properties = Some [(''user_id'', PlainValue (PStr ''u'')), (''chunk_id'', UuidValue 5), (''raw_text'', PlainValue (PStr ''text''))],
     so_vector = PNone\<rparr>"

definition one_store :: "unit weaviate" where
  "one_store = \<lparr>wv_hybrid = (\<lambda>_ _ _ _ s. (Inr (Some [one_row]), s)), wv_fetch = (\<lambda>_ _ s. (Inr (Some [one_row]), s)),
     wv_delete_many = (\<lambda>_ _ _ s. (Inl (OSError []), s)), wv_insert = (\<lambda>_ _ _ _ _ s. (Inl (OSError []), s)),
     wv_update = (\<lambda>_ _ _ s. (Inl (OSError []), s))\<rparr>"

definition one_user_env :: "user_collection \<Rightarrow> unit retrieval_env" where
  "one_user_env uc = user_env one_store \<lparr>hc_fusion_method = ''ranked'', hc_alpha = Fin 0\<rparr> uc
     (\<lambda>_ _ _ s. (Inr (Some [RerankResult (PInt 0) (PInt 0)]), s)) length"

lemma flat_vector:
  assumes "\<And>name. number_item name v = Inr x" "0 < n"
  shows "multi_vector (PList [PList (replicate n v)]) name = Inr [replicate n x]"
proof -
  have "vector (PList (replicate n v)) m = Inr (replicate n x)" for m
    using assms rmap_all_Inr [of "replicate n v" "number_item m" "\<lambda>_. x"] by (simp add: vector_def map_replicate_const)
  then show ?thesis
    by (simp add: multi_vector_def)
qed

lemma one_user_hybrid:
  assumes "uc_user uc = ''u''" "uc_kind uc = chunk_kind ''policy''"
  shows "re_hybrid (one_user_env uc) ''q'' [replicate 128 1] 50 () = (Inr (Some [Hit (PStr one_id) (PStr one_id) (PStr ''text'') PNone]), ())"
proof -
  have t: "strip ''q'' \<noteq> []" "strip ''text'' \<noteq> []"
    by code_simp+
  have "multi_vector (rows_value [replicate 128 1]) ''query_vector'' = Inr [replicate 128 1]"
    using flat_vector [of "PFloat (Fin 1)" 1 128] by (simp add: rows_value_def number_item_def)
  then have v: "multi_vector_values (rows_value [replicate 128 1]) ''query_vector'' = Inr [replicate 128 1]"
    by (simp add: multi_vector_values_def lateon_dimension_def)
  have f: "fusion_type \<lparr>hc_fusion_method = ''ranked'', hc_alpha = Fin 0\<rparr> = Inr Ranked"
    by (simp add: fusion_type_def; code_simp)
  have "search_results (chunk_kind ''policy'') ''u'' (Some [one_row]) =
      Inr [\<lparr>sr_object = one_id, sr_canonical = one_id, sr_text = ''text'', sr_segment = PNone\<rparr>]"
    using t one_id by (simp add: search_results_def one_row_def row_of_other_def row_of_user_def prop_of_def owned_row_def
        chunk_kind_def required_text_def row_segment_def admit_hit_def one_id_def [symmetric])
  with t v f assms show ?thesis
    by (simp add: one_user_env_def user_env_def hybrid_search_def obind_def required_text_def positive_top_k_def one_store_def hit_of_def)
qed

lemma one_user_hydrate:
  assumes "uc_user uc = ''u''" "uc_kind uc = chunk_kind ''policy''"
  shows "re_hydrate (one_user_env uc) [\<lparr>sr_object = one_id, sr_canonical = one_id, sr_text = ''text'', sr_segment = PNone\<rparr>] ()
      = (Inr (Some [Hydrated (PStr one_id) (PStr one_id) PNone PNone PNone PNone]), ())"
  using assms one_id by (simp add: one_user_env_def user_env_def hydrate_head_def obind_def result_uuid_def chunk_kind_def one_store_def
      hydrated_head_def one_row_def one_id_def [symmetric] row_of_other_def row_of_user_def prop_of_def row_hydrated_def
      hydrated_object_def head_segment_def stored_vector_def result_vector_def)

lemma one_user_open:
  "\<exists>uc. open_user_collection \<lparr>up_text = [], up_match = \<lambda>_. True\<rparr> (PStr ''u'') ''policy'' = Inr uc"
proof -
  have "strip ''u'' = ''u''" "strip ''policy'' = ''policy''" "lower ''policy'' = ''policy''"
    by code_simp+
  then show ?thesis
    by (simp add: open_user_collection_def required_text_def get_collection_name_def collection_types_def)
qed

theorem retrieval_tenant_isolation_witness:
  "\<forall>cfg. \<exists>uc r row. retrieve (one_user_env uc) (cfg\<lparr>mc_policy := one_config, mc_budgets := (mc_budgets cfg)\<lparr>bc_policy_tokens := 9\<rparr>\<rparr>)
       (PStr ''q'') (PList [PList (replicate 128 (PInt 1))]) ''policy'' () = (Inr [r], ()) \<and> row_shows ''policy'' ''u'' row r"
proof (rule allI)
  fix cfg :: model_config
  let ?cfg = "cfg\<lparr>mc_policy := one_config, mc_budgets := (mc_budgets cfg)\<lparr>bc_policy_tokens := 9\<rparr>\<rparr>"
  let ?q = "PList [PList (replicate 128 (PInt 1))]"
  obtain uc where uc: "open_user_collection \<lparr>up_text = [], up_match = \<lambda>_. True\<rparr> (PStr ''u'') ''policy'' = Inr uc"
    using one_user_open by blast
  have p: "uc_user uc = ''u''" "uc_kind uc = chunk_kind ''policy''"
    using open_collection_parts [OF uc] by (simp_all add: kind_of_def conversations_def)
  let ?r = "\<lparr>fr_object = one_id, fr_raw = ''text'', fr_score = Some 0\<rparr>"
  have run: "retrieve (one_user_env uc) ?cfg (PStr ''q'') ?q ''policy'' () = (Inr [?r], ())"
    by (rule one_run [OF flat_vector one_user_hybrid [OF p] _ one_user_hydrate [OF p]])
      (simp_all add: number_item_def one_user_env_def user_env_def)
  have c: "collection_config ?cfg ''policy'' = Some one_config" "0 \<le> rc_final_count one_config"
    by (simp_all add: collection_config_def conversations_def one_config_def)
  from retrieval_tenant_isolation [OF uc run [unfolded one_user_env_def] c] obtain row where "row_shows ''policy'' ''u'' row ?r"
    by auto
  with run show "\<exists>uc r row. retrieve (one_user_env uc) ?cfg (PStr ''q'') ?q ''policy'' () = (Inr [r], ()) \<and> row_shows ''policy'' ''u'' row r"
    by blast
qed

end
