(* ===== verification/Chunk_Store.thy ===== *)
theory Chunk_Store
  imports Vector_Store
begin

text \<open>
  \<open>backend/weaviate_client/_chunk_collection.py\<close>: the chunks of a knowledge or policy collection, their verified
  deletion, snapshots, restoration and renumbering, on the client of \<open>Vector_Store\<close>. Counters and samples of the
  diagnostics are left out.
\<close>

section \<open>Answers to deletions\<close>

definition count_value :: "pyval \<Rightarrow> string \<Rightarrow> int res" where
  "count_value v name = (case v of
       PInt n \<Rightarrow> if n < 0 then Inl (WeaviateResponseError (''delete response has invalid '' @ name)) else Inr n
     | _ \<Rightarrow> Inl (WeaviateResponseError (''delete response has invalid '' @ name)))"

definition deleted_object :: "store_value \<times> pyval \<Rightarrow> (string \<times> bool) res" where
  "deleted_object item =
     (case printed_uuid (plain (fst item)) of
        None \<Rightarrow> Inl (WeaviateResponseError ''delete response contains an invalid UUID'')
      | Some object_id \<Rightarrow>
          (case snd item of
             PBool b \<Rightarrow> Inr (object_id, b)
           | _ \<Rightarrow> Inl (WeaviateResponseError ''delete response has invalid object status'')))"

definition actual_delete_response :: "delete_answer \<Rightarrow> (int \<times> int \<times> int \<times> string list) res" where
  "actual_delete_response answer =
     rbind (count_value (da_matches answer) ''matches'') (\<lambda>matched.
     rbind (count_value (da_successful answer) ''successful'') (\<lambda>successful.
     rbind (count_value (da_failed answer) ''failed'') (\<lambda>failed.
     rbind (case da_objects answer of None \<Rightarrow> Inl (WeaviateResponseError ''verbose delete response must contain one object per match'')
            | Some objects \<Rightarrow>
                if int (length objects) \<noteq> matched
                then Inl (WeaviateResponseError ''verbose delete response must contain one object per match'')
                else rmap deleted_object objects) (\<lambda>objects.
     let successful_ids = map fst (filter snd objects) in
     if successful + failed \<noteq> matched
     then Inl (WeaviateResponseError ''delete response counts are inconsistent'')
     else if \<not> distinct (map fst objects)
     then Inl (WeaviateResponseError ''delete response contains duplicate object UUIDs'')
     else if int (length successful_ids) \<noteq> successful
     then Inl (WeaviateResponseError ''delete response object statuses are inconsistent'')
     else Inr (matched, successful, failed, successful_ids)))))"

definition found_object :: "store_value \<times> pyval \<Rightarrow> string res" where
  "found_object item = (case printed_uuid (plain (fst item)) of
       None \<Rightarrow> Inl (WeaviateResponseError ''dry-run delete response contains an invalid UUID'') | Some u \<Rightarrow> Inr u)"

definition dry_run_delete_response :: "delete_answer \<Rightarrow> (int \<times> string list) res" where
  "dry_run_delete_response answer =
     rbind (count_value (da_matches answer) ''matches'') (\<lambda>matched.
     rbind (count_value (da_successful answer) ''successful'') (\<lambda>_.
     rbind (count_value (da_failed answer) ''failed'') (\<lambda>failed.
     if failed \<noteq> 0 then Inl (WeaviateResponseError ''dry-run delete response reports failures'')
     else
       rbind (case da_objects answer of
                None \<Rightarrow> Inl (WeaviateResponseError ''verbose dry-run response must contain one object per match'')
              | Some objects \<Rightarrow>
                  if int (length objects) \<noteq> matched
                  then Inl (WeaviateResponseError ''verbose dry-run response must contain one object per match'')
                  else rmap found_object objects) (\<lambda>object_ids.
       if \<not> distinct object_ids
       then Inl (WeaviateResponseError ''dry-run delete response contains duplicate object UUIDs'')
       else Inr (matched, object_ids)))))"

text \<open>The conversations have the same function with another message.\<close>

definition verified_delete_saying :: "string \<Rightarrow> 'st weaviate \<Rightarrow> user_collection \<Rightarrow> store_filter \<Rightarrow> ('st, deletion_report) op" where
  "verified_delete_saying message wv uc where' =
     obind (wv_delete_many wv (uc_name uc) where' False) (\<lambda>deleted.
     obind (olift (actual_delete_response deleted)) (\<lambda>(matched, successful, failed, deleted_ids).
     obind (wv_delete_many wv (uc_name uc) where' True) (\<lambda>remaining.
     obind (olift (dry_run_delete_response remaining)) (\<lambda>(remaining_count, remaining_ids).
     if int (length remaining_ids) \<noteq> remaining_count then oraise (WeaviateResponseError message)
     else
       (let report = \<lparr>dr_matched = matched, dr_successful = successful, dr_failed = failed,
                      dr_deleted_ids = deleted_ids, dr_remaining_ids = remaining_ids\<rparr>
        in if \<not> confirmed report then oraise (IncompleteDeletionError report) else oret report)))))"

definition verified_delete :: "'st weaviate \<Rightarrow> user_collection \<Rightarrow> store_filter \<Rightarrow> ('st, deletion_report) op" where
  "verified_delete = verified_delete_saying ''dry-run delete response is incomplete''"

definition no_deletion :: deletion_report where
  "no_deletion = \<lparr>dr_matched = 0, dr_successful = 0, dr_failed = 0, dr_deleted_ids = [], dr_remaining_ids = []\<rparr>"

section \<open>Writing and deleting chunks\<close>

definition insert_chunk ::
    "'st weaviate \<Rightarrow> user_collection \<Rightarrow> pyval \<Rightarrow> pyval \<Rightarrow> pyval \<Rightarrow> pyval \<Rightarrow> pyval \<Rightarrow> pyval \<Rightarrow> ('st, string) op" where
  "insert_chunk wv uc document_id paragraph_id chunk_id raw_text multi diversity =
     obind (olift (base_uuid_text document_id ''document_id'')) (\<lambda>parent_id.
     obind (olift (base_paragraph_id paragraph_id)) (\<lambda>paragraph.
     obind (olift (base_uuid_text chunk_id ''chunk_id'')) (\<lambda>object_id.
     obind (olift (required_text raw_text ''raw_text'')) (\<lambda>t.
     obind (olift (multi_vector_values multi ''chunk multi-vector'')) (\<lambda>late.
     obind (olift (vector diversity ''diversity_vector'')) (\<lambda>mmr.
     obind (wv_insert wv (uc_name uc)
              [(''user_id'', PStr (uc_user uc)), (''document_id'', PStr parent_id), (''paragraph_id'', PInt paragraph),
               (''chunk_id'', PStr object_id), (''raw_text'', PStr t)] object_id late mmr) (\<lambda>inserted.
     obind (olift (base_uuid_text (PStr inserted) ''inserted object UUID'')) (\<lambda>inserted_id.
     if inserted_id \<noteq> object_id
     then oraise (WeaviateResponseError ''inserted object UUID does not match chunk_id'')
     else oret inserted_id))))))))"

definition delete_by_document :: "'st weaviate \<Rightarrow> user_collection \<Rightarrow> pyval \<Rightarrow> ('st, deletion_report) op" where
  "delete_by_document wv uc document_id =
     obind (olift (base_uuid_text document_id ''document_id'')) (\<lambda>parent_id.
     verified_delete wv uc (ByDocument parent_id))"

definition delete_by_paragraphs :: "'st weaviate \<Rightarrow> user_collection \<Rightarrow> pyval \<Rightarrow> pyval list \<Rightarrow> ('st, deletion_report) op" where
  "delete_by_paragraphs wv uc document_id paragraph_ids =
     obind (olift (base_uuid_text document_id ''document_id'')) (\<lambda>parent_id.
     obind (olift (rmap base_paragraph_id paragraph_ids)) (\<lambda>paragraphs.
     if paragraphs = [] then oret no_deletion
     else verified_delete wv uc (ByParagraphs parent_id (dedup paragraphs))))"

definition delete_chunks :: "'st weaviate \<Rightarrow> user_collection \<Rightarrow> pyval list \<Rightarrow> ('st, deletion_report) op" where
  "delete_chunks wv uc chunk_ids =
     obind (olift (rmap (\<lambda>i. base_uuid_text i ''chunk_id'') chunk_ids)) (\<lambda>validated.
     if validated = [] then oret no_deletion else verified_delete wv uc (ByIds (dedup validated)))"

section \<open>Snapshots\<close>

definition record_fields :: "store_object \<Rightarrow> (string, store_value) dict \<Rightarrow> (string \<times> string \<times> string \<times> int \<times> string) option" where
  "record_fields row props =
     (case printed_uuid (plain (so_uuid row)) of
        None \<Rightarrow> None
      | Some object_id \<Rightarrow>
          (case rbind (base_uuid_text (prop_of props ''chunk_id'') ''chunk_id'') (\<lambda>chunk_id.
                rbind (base_uuid_text (prop_of props ''document_id'') ''document_id'') (\<lambda>document_id.
                rbind (base_paragraph_id (prop_of props ''paragraph_id'')) (\<lambda>paragraph_id.
                rbind (required_text (prop_of props ''raw_text'') ''raw_text'') (\<lambda>t.
                Inr (chunk_id, document_id, paragraph_id, t))))) of
             Inl _ \<Rightarrow> None | Inr (chunk_id, document_id, paragraph_id, t) \<Rightarrow> Some (object_id, chunk_id, document_id, paragraph_id, t)))"

definition record_of_row :: "string \<Rightarrow> store_object \<Rightarrow> chunk_record res" where
  "record_of_row user row =
     (case so_properties row of
        None \<Rightarrow> Inl (WeaviateResponseError ''chunk snapshot properties are malformed'')
      | Some props \<Rightarrow>
          if prop_of props ''user_id'' \<noteq> PStr user then Inl (UserIsolationError ''chunk snapshot belongs to a different user'')
          else (case record_fields row props of
              None \<Rightarrow> Inl (WeaviateResponseError ''chunk snapshot properties violate the storage contract'')
            | Some (object_id, chunk_id, document_id, paragraph_id, t) \<Rightarrow>
                if object_id \<noteq> chunk_id then Inl (WeaviateResponseError ''snapshot object UUID does not match chunk_id'')
                else
                  rbind (result_multi_vector (so_vector row)) (\<lambda>late.
                  rbind (result_vector (so_vector row) None) (\<lambda>mmr.
                  Inr \<lparr>ck_object_id = object_id, ck_user = user, ck_document = document_id, ck_paragraph = paragraph_id,
                       ck_chunk = chunk_id, ck_text = t, ck_late = late, ck_mmr = mmr\<rparr>))))"

fun records_of_rows :: "string \<Rightarrow> (string, chunk_record) dict \<Rightarrow> store_object list \<Rightarrow> (string, chunk_record) dict res" where
  "records_of_rows user records [] = Inr records"
| "records_of_rows user records (row # rows) =
     rbind (record_of_row user row) (\<lambda>r.
     if map_of records (ck_chunk r) \<noteq> None then Inl (WeaviateResponseError ''chunk snapshot contains duplicate UUIDs'')
     else records_of_rows user (records @ [(ck_chunk r, r)]) rows)"

definition fetch_records_by_ids :: "'st weaviate \<Rightarrow> user_collection \<Rightarrow> string list \<Rightarrow> ('st, (string, chunk_record) dict) op" where
  "fetch_records_by_ids wv uc chunk_ids =
     (if chunk_ids = [] then oret []
      else
        obind (wv_fetch wv (uc_name uc) chunk_ids) (\<lambda>objects.
        case objects of
          None \<Rightarrow> oraise (WeaviateResponseError ''chunk snapshot response objects are malformed'')
        | Some rows \<Rightarrow> olift (records_of_rows (uc_user uc) [] rows)))"

definition discover_ids :: "'st weaviate \<Rightarrow> user_collection \<Rightarrow> store_filter \<Rightarrow> ('st, string list) op" where
  "discover_ids wv uc where' =
     obind (wv_delete_many wv (uc_name uc) where' True) (\<lambda>response.
     obind (olift (dry_run_delete_response response)) (\<lambda>(matched, object_ids).
     if int (length object_ids) \<noteq> matched
     then oraise (WeaviateResponseError ''could not snapshot every object'') else oret object_ids))"

definition snapshot :: "'st weaviate \<Rightarrow> user_collection \<Rightarrow> store_filter \<Rightarrow> ('st, chunk_record list) op" where
  "snapshot wv uc where' =
     obind (discover_ids wv uc where') (\<lambda>object_ids.
     obind (fetch_records_by_ids wv uc object_ids) (\<lambda>records.
     if set (map fst records) \<noteq> set object_ids then oraise (WeaviateResponseError ''chunk snapshot is incomplete'')
     else oret (map (\<lambda>i. the (map_of records i)) object_ids)))"

definition snapshot_by_document :: "'st weaviate \<Rightarrow> user_collection \<Rightarrow> pyval \<Rightarrow> ('st, chunk_record list) op" where
  "snapshot_by_document wv uc document_id =
     obind (olift (base_uuid_text document_id ''document_id'')) (\<lambda>parent_id.
     obind (snapshot wv uc (ByDocument parent_id)) (\<lambda>records.
     if \<exists>r \<in> set records. ck_document r \<noteq> parent_id
     then oraise (WeaviateResponseError ''document snapshot escaped its requested scope'') else oret records))"

definition snapshot_by_paragraphs :: "'st weaviate \<Rightarrow> user_collection \<Rightarrow> pyval \<Rightarrow> pyval list \<Rightarrow> ('st, chunk_record list) op" where
  "snapshot_by_paragraphs wv uc document_id paragraph_ids =
     obind (olift (base_uuid_text document_id ''document_id'')) (\<lambda>parent_id.
     obind (olift (rmap base_paragraph_id paragraph_ids)) (\<lambda>paragraphs.
     if paragraphs = [] then oret []
     else
       obind (snapshot wv uc (ByParagraphs parent_id (dedup paragraphs))) (\<lambda>records.
       if \<exists>r \<in> set records. ck_document r \<noteq> parent_id \<or> ck_paragraph r \<notin> set paragraphs
       then oraise (WeaviateResponseError ''paragraph snapshot escaped its requested scope'') else oret records)))"

section \<open>Restoration and renumbering\<close>

definition restorable :: "string \<Rightarrow> chunk_record \<Rightarrow> chunk_record res" where
  "restorable user r =
     (if ck_user r \<noteq> user then Inl (UserIsolationError ''cannot restore a chunk owned by another user'')
      else
        rbind (base_uuid_text (PStr (ck_object_id r)) ''object_id'') (\<lambda>object_id.
        rbind (base_uuid_text (PStr (ck_chunk r)) ''chunk_id'') (\<lambda>chunk_id.
        if object_id \<noteq> chunk_id then Inl (ValueError ''record object_id must match chunk_id'')
        else
          rbind (base_uuid_text (PStr (ck_document r)) ''document_id'') (\<lambda>document_id.
          rbind (base_paragraph_id (PInt (ck_paragraph r))) (\<lambda>paragraph_id.
          rbind (required_text (PStr (ck_text r)) ''raw_text'') (\<lambda>t.
          rbind (multi_vector_values (rows_value (ck_late r)) ''snapshot late-interaction multi-vector'') (\<lambda>late.
          rbind (vector (PList (map (\<lambda>x. PFloat (Fin x)) (ck_mmr r))) ''snapshot MMR-diversity vector'') (\<lambda>mmr.
          Inr \<lparr>ck_object_id = object_id, ck_user = user, ck_document = document_id, ck_paragraph = paragraph_id,
               ck_chunk = chunk_id, ck_text = t, ck_late = late, ck_mmr = mmr\<rparr>))))))))"

definition insert_record :: "'st weaviate \<Rightarrow> user_collection \<Rightarrow> chunk_record \<Rightarrow> ('st, unit) op" where
  "insert_record wv uc r =
     obind (insert_chunk wv uc (PStr (ck_document r)) (PInt (ck_paragraph r)) (PStr (ck_chunk r)) (PStr (ck_text r))
              (rows_value (ck_late r)) (PList (map (\<lambda>x. PFloat (Fin x)) (ck_mmr r)))) (\<lambda>_. oret ())"

text \<open>The check of a chunk that is still there.\<close>

definition agreeing :: "(string, chunk_record) dict \<Rightarrow> string \<times> chunk_record \<Rightarrow> unit res" where
  "agreeing expected p =
     (case map_of expected (fst p) of
        None \<Rightarrow> Inl (KeyError (PStr (fst p)))
      | Some r \<Rightarrow>
          if snd p \<noteq> r then Inl (WeaviateResponseError ''existing chunk conflicts with recovery snapshot'') else Inr ())"

text \<open>The records that are not there, and the check after them: for \<open>verified != expected\<close>, dictionaries compare
  by content, not by order.\<close>

definition restore_missing ::
    "'st weaviate \<Rightarrow> user_collection \<Rightarrow> chunk_record list \<Rightarrow> (string, chunk_record) dict \<Rightarrow> (string, chunk_record) dict \<Rightarrow>
     ('st, string list) op" where
  "restore_missing wv uc records expected existing =
     (let missing = filter (\<lambda>r. map_of existing (ck_chunk r) = None) records in
      obind (ofor missing (insert_record wv uc)) (\<lambda>_.
      obind (fetch_records_by_ids wv uc (map fst expected)) (\<lambda>verified.
      if set (map fst verified) \<noteq> set (map fst expected) \<or> (\<exists>p \<in> set verified. map_of expected (fst p) \<noteq> Some (snd p))
      then oraise (WeaviateResponseError ''restored chunk snapshot verification failed'')
      else oret (map ck_chunk missing))))"

definition restore_chunks :: "'st weaviate \<Rightarrow> user_collection \<Rightarrow> chunk_record list \<Rightarrow> ('st, string list) op" where
  "restore_chunks wv uc records =
     obind (olift (rmap (restorable (uc_user uc)) records)) (\<lambda>validated.
     if \<not> distinct (map ck_chunk validated) then oraise (ValueError ''records must not contain duplicate chunk IDs'')
     else
       (let expected = map (\<lambda>r. (ck_chunk r, r)) validated in
        obind (fetch_records_by_ids wv uc (map fst expected)) (\<lambda>existing.
        obind (olift (rmap (agreeing expected) existing)) (\<lambda>_.
        restore_missing wv uc validated expected existing))))"

definition paragraph_updates :: "(string, int) dict \<Rightarrow> (string \<times> int) list res" where
  "paragraph_updates items =
     rmap (\<lambda>(chunk_id, paragraph_id).
       rbind (base_uuid_text (PStr chunk_id) ''chunk_id'') (\<lambda>c.
       rbind (base_paragraph_id (PInt paragraph_id)) (\<lambda>n. Inr (c, n)))) items"

definition verify_paragraph_ids :: "'st weaviate \<Rightarrow> user_collection \<Rightarrow> (string, int) dict \<Rightarrow> ('st, unit) op" where
  "verify_paragraph_ids wv uc expected =
     obind (olift (paragraph_updates expected)) (\<lambda>pairs.
     let validated = fold (\<lambda>(c, n) d. AList.update c n d) pairs [] in
     obind (fetch_records_by_ids wv uc (map fst validated)) (\<lambda>records.
     if set (map fst records) \<noteq> set (map fst validated)
     then oraise (WeaviateResponseError ''paragraph-ID verification is incomplete'')
     else if \<exists>p \<in> set validated. ck_paragraph (the (map_of records (fst p))) \<noteq> snd p
     then oraise (WeaviateResponseError ''paragraph-ID verification failed'') else oret ()))"

fun run_updates :: "'st weaviate \<Rightarrow> user_collection \<Rightarrow> string list \<Rightarrow> (string \<times> int) list \<Rightarrow> ('st, unit) op" where
  "run_updates wv uc completed [] = oret ()"
| "run_updates wv uc completed ((chunk_id, paragraph_id) # updates) =
     obind (ocatch (wv_update wv (uc_name uc) chunk_id paragraph_id)) (\<lambda>r.
     case r of
       Inl _ \<Rightarrow> oraise (PartialParagraphUpdateError completed chunk_id)
     | Inr _ \<Rightarrow> run_updates wv uc (completed @ [chunk_id]) updates)"

definition update_paragraph_ids :: "'st weaviate \<Rightarrow> user_collection \<Rightarrow> (string, int) dict \<Rightarrow> ('st, unit) op" where
  "update_paragraph_ids wv uc items = obind (olift (paragraph_updates items)) (run_updates wv uc [])"

section \<open>The collection the wizard uses\<close>

definition chunk_collection_of :: "'st weaviate \<Rightarrow> user_collection \<Rightarrow> 'st chunk_collection" where
  "chunk_collection_of wv uc =
     \<lparr>co_snapshot_by_document = (\<lambda>d. snapshot_by_document wv uc (PStr d)),
      co_snapshot_by_paragraphs = (\<lambda>d ns. snapshot_by_paragraphs wv uc (PStr d) (map PInt ns)),
      co_delete_by_document = (\<lambda>d. delete_by_document wv uc (PStr d)),
      co_delete_by_paragraphs = (\<lambda>d ns. delete_by_paragraphs wv uc (PStr d) (map PInt ns)),
      co_delete_chunks = (\<lambda>ids. delete_chunks wv uc (map PStr ids)),
      co_restore_chunks = restore_chunks wv uc,
      co_verify_paragraph_ids = verify_paragraph_ids wv uc,
      co_insert_chunk = (\<lambda>d n c t late mmr. insert_chunk wv uc (PStr d) (PInt n) (PStr c) (PStr t) (rows_value late)
                           (PList (map (\<lambda>x. PFloat (Fin x)) mmr))),
      co_update_paragraph_ids = update_paragraph_ids wv uc\<rparr>"

section \<open>What the store documents\<close>

definition uuid_prop :: "store_object \<Rightarrow> string \<Rightarrow> string option" where
  "uuid_prop row key = (case so_properties row of None \<Rightarrow> None | Some props \<Rightarrow> printed_uuid (prop_of props key))"

fun matching :: "store_filter \<Rightarrow> string \<Rightarrow> store_object \<Rightarrow> bool" where
  "matching (ByDocument d) i row = (uuid_prop row ''document_id'' = Some d)"
| "matching (ByParagraphs d ns) i row = (uuid_prop row ''document_id'' = Some d
     \<and> (case so_properties row of None \<Rightarrow> False | Some props \<Rightarrow> prop_of props ''paragraph_id'' \<in> PInt ` set ns))"
| "matching (ByIds ids) i row = (i \<in> set ids)"
| "matching (ByConversations cs) i row = (\<exists>c \<in> set cs. uuid_prop row ''conversation_id'' = Some c)"

text \<open>
  \<open>content s\<close> is the collection's content in the state \<open>s\<close>, by object id. Reads that answer tell the truth and change
  nothing: a verbose dry run lists the matching objects, a fetch the objects of the ids. A deletion, even one that
  fails, removes only matching objects; an insertion or an update touches only its own object. Nothing is said of
  whether a write succeeds.
\<close>

definition dry_run_truthful :: "'st weaviate \<Rightarrow> string \<Rightarrow> ('st \<Rightarrow> string \<Rightarrow> store_object option) \<Rightarrow> bool" where
  "dry_run_truthful wv name content \<longleftrightarrow>
     (\<forall>where' s answer t. wv_delete_many wv name where' True s = (Inr answer, t) \<longrightarrow>
        content t = content s \<and> (\<forall>objects. da_objects answer = Some objects \<longrightarrow>
          {i. \<exists>x \<in> set objects. printed_uuid (plain (fst x)) = Some i}
          = {i. \<exists>row. content s i = Some row \<and> matching where' i row}))"

definition fetch_truthful :: "'st weaviate \<Rightarrow> string \<Rightarrow> ('st \<Rightarrow> string \<Rightarrow> store_object option) \<Rightarrow> bool" where
  "fetch_truthful wv name content \<longleftrightarrow>
     (\<forall>ids s rows t. wv_fetch wv name ids s = (Inr (Some rows), t) \<longrightarrow>
        content t = content s \<and> set rows = {row. \<exists>i \<in> set ids. content s i = Some row})"

definition delete_framed :: "'st weaviate \<Rightarrow> string \<Rightarrow> ('st \<Rightarrow> string \<Rightarrow> store_object option) \<Rightarrow> bool" where
  "delete_framed wv name content \<longleftrightarrow>
     (\<forall>where' s r t i. wv_delete_many wv name where' False s = (r, t) \<longrightarrow>
        content t i = content s i \<or> content t i = None \<and> (\<exists>row. content s i = Some row \<and> matching where' i row))"

definition writes_framed :: "'st weaviate \<Rightarrow> string \<Rightarrow> ('st \<Rightarrow> string \<Rightarrow> store_object option) \<Rightarrow> bool" where
  "writes_framed wv name content \<longleftrightarrow>
     (\<forall>props object_id late dv s r t i. wv_insert wv name props object_id late dv s = (r, t) \<longrightarrow>
        i \<noteq> object_id \<longrightarrow> content t i = content s i)
     \<and> (\<forall>object_id n s r t i. wv_update wv name object_id n s = (r, t) \<longrightarrow> i \<noteq> object_id \<longrightarrow> content t i = content s i)"

definition honest :: "'st weaviate \<Rightarrow> string \<Rightarrow> ('st \<Rightarrow> string \<Rightarrow> store_object option) \<Rightarrow> bool" where
  "honest wv name content \<longleftrightarrow>
     (\<forall>s i row. content s i = Some row \<longrightarrow> printed_uuid (plain (so_uuid row)) = Some i)
     \<and> dry_run_truthful wv name content \<and> fetch_truthful wv name content
     \<and> delete_framed wv name content \<and> writes_framed wv name content"

lemma honest_key: "honest wv name content \<Longrightarrow> content s i = Some row \<Longrightarrow> printed_uuid (plain (so_uuid row)) = Some i"
  unfolding honest_def by blast

lemma honest_dry_run:
  assumes "honest wv name content" "wv_delete_many wv name where' True s = (Inr answer, t)"
  shows "content t = content s"
    and "da_objects answer = Some objects \<Longrightarrow>
      {i. \<exists>x \<in> set objects. printed_uuid (plain (fst x)) = Some i} = {i. \<exists>row. content s i = Some row \<and> matching where' i row}"
  using assms unfolding honest_def dry_run_truthful_def by blast+

lemma honest_fetch:
  assumes "honest wv name content" "wv_fetch wv name ids s = (Inr (Some rows), t)"
  shows "content t = content s" "set rows = {row. \<exists>i \<in> set ids. content s i = Some row}"
  using assms unfolding honest_def fetch_truthful_def by blast+

lemma honest_delete:
  assumes "honest wv name content" "wv_delete_many wv name where' False s = (r, t)"
  shows "content t i = content s i \<or> content t i = None \<and> (\<exists>row. content s i = Some row \<and> matching where' i row)"
  using assms unfolding honest_def delete_framed_def by blast

lemma honest_insert:
  assumes "honest wv name content" "wv_insert wv name props object_id late dv s = (r, t)" "i \<noteq> object_id"
  shows "content t i = content s i"
  using assms unfolding honest_def writes_framed_def by blast

lemma honest_update:
  assumes "honest wv name content" "wv_update wv name object_id n s = (r, t)" "i \<noteq> object_id"
  shows "content t i = content s i"
  using assms unfolding honest_def writes_framed_def by blast

section \<open>The chunks of a store\<close>

text \<open>The abstraction: the readable chunks of the user, by id.\<close>

definition chunks_in :: "string \<Rightarrow> (string \<Rightarrow> store_object option) \<Rightarrow> string \<Rightarrow> chunk_record option" where
  "chunks_in user content i = (case content i of None \<Rightarrow> None
     | Some row \<Rightarrow> (case record_of_row user row of Inl _ \<Rightarrow> None | Inr r \<Rightarrow> Some r))"

lemma chunks_in_Some: "chunks_in user content i = Some r \<longleftrightarrow> (\<exists>row. content i = Some row \<and> record_of_row user row = Inr r)"
  by (auto simp: chunks_in_def split: option.splits sum.splits)

lemma base_uuid_text_Inr [py_iff]: "base_uuid_text v name = Inr u \<longleftrightarrow> (\<exists>s. v = PStr s \<and> strip s \<noteq> [] \<and> uuid_canon s = Some u)"
  by (auto simp: base_uuid_text_def rbind_Inr_iff required_text_Inr split: option.splits)

lemma base_paragraph_id_Inr [py_iff]: "base_paragraph_id v = Inr n \<longleftrightarrow> v = PInt n \<and> 0 < n"
  by (auto simp: base_paragraph_id_def split: pyval.splits)

lemma record_fields_Some:
  "record_fields row props = Some (object_id, chunk_id, document_id, n, t) \<longleftrightarrow>
     printed_uuid (plain (so_uuid row)) = Some object_id
     \<and> base_uuid_text (prop_of props ''chunk_id'') ''chunk_id'' = Inr chunk_id
     \<and> base_uuid_text (prop_of props ''document_id'') ''document_id'' = Inr document_id
     \<and> prop_of props ''paragraph_id'' = PInt n \<and> 0 < n \<and> prop_of props ''raw_text'' = PStr t \<and> strip t \<noteq> []"
proof -
  have eq: "(case m of Inl _ \<Rightarrow> None | Inr (chunk_id, document_id, n, t) \<Rightarrow> Some (u, chunk_id, document_id, n, t))
        = Some (object_id, chunk_id, document_id, n, t) \<longleftrightarrow> u = object_id \<and> m = Inr (chunk_id, document_id, n, t)"
    for m :: "(string \<times> string \<times> int \<times> string) res" and u
    by (cases m) auto
  show ?thesis
    unfolding record_fields_def
    by (cases "printed_uuid (plain (so_uuid row))") (auto simp: eq rbind_Inr_iff required_text_Inr base_paragraph_id_Inr)
qed

lemma record_of_row_Inr:
  assumes "record_of_row user row = Inr r"
  obtains props where "so_properties row = Some props" "prop_of props ''user_id'' = PStr user" "ck_user r = user"
    "record_fields row props = Some (ck_chunk r, ck_chunk r, ck_document r, ck_paragraph r, ck_text r)" "ck_object_id r = ck_chunk r"
    "result_multi_vector (so_vector row) = Inr (ck_late r)" "result_vector (so_vector row) None = Inr (ck_mmr r)"
  using assms that unfolding record_of_row_def
  by (auto simp: rbind_Inr_iff split: option.splits if_splits prod.splits)

lemma record_of_row_document:
  "record_of_row user row = Inr r \<Longrightarrow> uuid_prop row ''document_id'' = Some (ck_document r)"
  by (erule record_of_row_Inr) (auto simp: record_fields_Some base_uuid_text_Inr uuid_prop_def)

lemma record_of_row_chunk:
  "record_of_row user row = Inr r \<Longrightarrow> printed_uuid (plain (so_uuid row)) = Some (ck_chunk r)"
  by (erule record_of_row_Inr) (auto simp: record_fields_Some)

lemma records_of_rows_Inr:
  assumes "records_of_rows user records rows = Inr out" "distinct (map fst records)"
  shows "distinct (map fst out) \<and> (\<forall>k r. (k, r) \<in> set out \<longleftrightarrow>
    (k, r) \<in> set records \<or> k = ck_chunk r \<and> (\<exists>row \<in> set rows. record_of_row user row = Inr r))
    \<and> (\<forall>row \<in> set rows. \<exists>r. record_of_row user row = Inr r)"
  using assms
proof (induction user records rows rule: records_of_rows.induct)
  case (2 user records row rows)
  obtain r where r: "record_of_row user row = Inr r"
    using "2.prems"(1) by (auto simp: rbind_Inr_iff)
  have new: "map_of records (ck_chunk r) = None"
    using "2.prems"(1) r by (auto split: if_splits)
  have rest: "records_of_rows user (records @ [(ck_chunk r, r)]) rows = Inr out"
    using "2.prems"(1) r new by simp
  have "distinct (map fst (records @ [(ck_chunk r, r)]))"
    using "2.prems"(2) new by (simp add: map_of_eq_None_iff)
  note IH = "2.IH" [OF r _ rest this]
  then show ?case
    using r new by auto
qed simp

section \<open>Reads and deletions\<close>

lemma fetch_records:
  assumes "honest wv (uc_name uc) content" "fetch_records_by_ids wv uc ids s = (Inr recs, t)"
  shows "content t = content s" "distinct (map fst recs)"
    and "(k, r) \<in> set recs \<longleftrightarrow> k \<in> set ids \<and> chunks_in (uc_user uc) (content s) k = Some r"
proof -
  have "content t = content s \<and> distinct (map fst recs)
    \<and> (\<forall>k r. (k, r) \<in> set recs \<longleftrightarrow> k \<in> set ids \<and> chunks_in (uc_user uc) (content s) k = Some r)"
  proof (cases "ids = []")
    case True
    with assms(2) show ?thesis
      by (simp add: fetch_records_by_ids_def)
  next
    case False
    then obtain rows where f: "wv_fetch wv (uc_name uc) ids s = (Inr (Some rows), t)"
        and r: "records_of_rows (uc_user uc) [] rows = Inr recs"
      using assms(2) by (auto simp: fetch_records_by_ids_def obind_Inr_iff split: option.splits)
    note h = honest_fetch [OF assms(1) f]
    have d: "distinct (map fst recs)"
      and m: "\<And>k r. (k, r) \<in> set recs \<longleftrightarrow> k = ck_chunk r \<and> (\<exists>row \<in> set rows. record_of_row (uc_user uc) row = Inr r)"
      using records_of_rows_Inr [OF r] by simp_all
    have key: "ck_chunk r = i" if "content s i = Some row" "record_of_row (uc_user uc) row = Inr r" for i row r
      using honest_key [OF assms(1) that(1)] record_of_row_chunk [OF that(2)] by simp
    have "(k, r) \<in> set recs \<longleftrightarrow> k \<in> set ids \<and> chunks_in (uc_user uc) (content s) k = Some r" for k r
      unfolding m chunks_in_Some h(2) using key by blast
    with d h(1) show ?thesis
      by simp
  qed
  then show "content t = content s" "distinct (map fst recs)"
    and "(k, r) \<in> set recs \<longleftrightarrow> k \<in> set ids \<and> chunks_in (uc_user uc) (content s) k = Some r"
    by simp_all
qed

lemma found_object_Inr: "found_object x = Inr i \<longleftrightarrow> printed_uuid (plain (fst x)) = Some i"
  by (simp add: found_object_def split: option.splits)

lemma dry_run_ids:
  assumes "honest wv (uc_name uc) content" "wv_delete_many wv (uc_name uc) where' True s = (Inr answer, t)"
    and "dry_run_delete_response answer = Inr (n, ids)"
  shows "content t = content s" "distinct ids" "set ids = {i. \<exists>row. content s i = Some row \<and> matching where' i row}"
proof -
  note h = honest_dry_run [OF assms(1,2)]
  obtain objects where o: "da_objects answer = Some objects" "rmap found_object objects = Inr ids" and d: "distinct ids"
    using assms(3) unfolding dry_run_delete_response_def
    by (auto simp: rbind_Inr_iff split: option.splits if_splits)
  have "list_all2 (\<lambda>x i. printed_uuid (plain (fst x)) = Some i) objects ids"
    using o(2) by (simp add: rmap_Inr_iff found_object_Inr)
  then have "set ids = {i. \<exists>x \<in> set objects. printed_uuid (plain (fst x)) = Some i}"
    by (induction rule: list_all2_induct) auto
  with h o(1) d show "content t = content s" "distinct ids" "set ids = {i. \<exists>row. content s i = Some row \<and> matching where' i row}"
    by simp_all
qed

lemma discovered:
  assumes "honest wv (uc_name uc) content" "discover_ids wv uc where' s = (Inr ids, t)"
  shows "content t = content s" "distinct ids" "set ids = {i. \<exists>row. content s i = Some row \<and> matching where' i row}"
proof -
  obtain answer n where a: "wv_delete_many wv (uc_name uc) where' True s = (Inr answer, t)" "dry_run_delete_response answer = Inr (n, ids)"
    using assms(2) by (auto simp: discover_ids_def obind_Inr_iff split: prod.splits if_splits)
  show "content t = content s" "distinct ids" "set ids = {i. \<exists>row. content s i = Some row \<and> matching where' i row}"
    by (rule dry_run_ids [OF assms(1) a])+
qed

lemma snapshot_exact:
  assumes "honest wv (uc_name uc) content" "snapshot wv uc where' s = (Inr rs, t)"
  shows "content t = content s" "distinct (map ck_chunk rs)"
    and "set rs = {r. \<exists>i row. content s i = Some row \<and> matching where' i row \<and> chunks_in (uc_user uc) (content s) i = Some r}"
proof -
  obtain ids t1 recs where d: "discover_ids wv uc where' s = (Inr ids, t1)"
    and f: "fetch_records_by_ids wv uc ids t1 = (Inr recs, t)"
    and all: "set (map fst recs) = set ids" and rs: "rs = map (\<lambda>i. the (map_of recs i)) ids"
    using assms(2) by (auto simp: snapshot_def obind_Inr_iff split: if_splits)
  note di = discovered [OF assms(1) d] and fe = fetch_records [OF assms(1) f]
  show "content t = content s"
    using di(1) fe(1) by simp
  have found: "\<exists>r. map_of recs i = Some r \<and> chunks_in (uc_user uc) (content s) i = Some r \<and> ck_chunk r = i" if "i \<in> set ids" for i
  proof -
    have "map_of recs i \<noteq> None"
      using that all by (simp add: map_of_eq_None_iff)
    then obtain r where r: "map_of recs i = Some r"
      by blast
    then have c: "chunks_in (uc_user uc) (content s) i = Some r"
      using fe(3) [of i r] di(1) by (auto dest: map_of_SomeD)
    then obtain row where row: "content s i = Some row" "record_of_row (uc_user uc) row = Inr r"
      by (auto simp: chunks_in_Some)
    then have "ck_chunk r = i"
      using honest_key [OF assms(1) row(1)] record_of_row_chunk [OF row(2)] by simp
    with r c show ?thesis by blast
  qed
  have "map ck_chunk rs = ids"
    unfolding rs map_map o_def by (rule map_idI) (use found in force)
  then show "distinct (map ck_chunk rs)"
    using di(2) by simp
  have "set rs = {r. \<exists>i \<in> set ids. chunks_in (uc_user uc) (content s) i = Some r}"
    unfolding rs using found by force
  then show "set rs = {r. \<exists>i row. content s i = Some row \<and> matching where' i row \<and> chunks_in (uc_user uc) (content s) i = Some r}"
    unfolding di(3) by auto
qed

lemma verified_delete_removes:
  assumes "honest wv (uc_name uc) content" "verified_delete_saying message wv uc where' s = (Inr report, t)"
  shows "content t i = (case content s i of None \<Rightarrow> None | Some row \<Rightarrow> if matching where' i row then None else Some row)"
proof -
  obtain deleted t1 remaining n ids where del: "wv_delete_many wv (uc_name uc) where' False s = (Inr deleted, t1)"
    and dry: "wv_delete_many wv (uc_name uc) where' True t1 = (Inr remaining, t)" "dry_run_delete_response remaining = Inr (n, ids)"
    and none: "ids = []"
    using assms(2) unfolding verified_delete_saying_def
    by (auto simp: obind_Inr_iff Let_def confirmed_def split: prod.splits if_splits)
  note left = dry_run_ids [OF assms(1) dry]
  have "\<not> matching where' i row" if "content t1 i = Some row" for row
    using left(3) that unfolding none by auto
  with honest_delete [OF assms(1) del, of i] left(1) show ?thesis
    by (auto split: option.splits)
qed

section \<open>Restoration\<close>

lemma vector_plain: "xs \<noteq> [] \<Longrightarrow> vector (PList (map (\<lambda>x. PFloat (Fin x)) xs)) name = Inr xs"
proof -
  assume "xs \<noteq> []"
  have "rmap (number_item name) (map (\<lambda>x. PFloat (Fin x)) xs) = Inr xs"
    by (induction xs) (simp_all add: number_item_def)
  with \<open>xs \<noteq> []\<close> show ?thesis
    by (simp add: vector_def)
qed

lemma vector_Inr: "vector v name = Inr xs \<Longrightarrow> xs \<noteq> []"
  by (auto simp: vector_def rbind_Inr_iff split: option.splits if_splits)

lemma rows_plain:
  assumes "rows \<noteq> []" "\<forall>row \<in> set rows. row \<noteq> []" "length (remdups (map length rows)) = 1" "int (length (hd rows)) = lateon_dimension"
  shows "multi_vector_values (rows_value rows) name = Inr rows"
proof -
  have "rmap (\<lambda>row. vector row (name @ '' row'')) (map (\<lambda>row. PList (map (\<lambda>x. PFloat (Fin x)) row)) rows) = Inr rows"
    using assms(2) by (induction rows) (simp_all add: vector_plain)
  with assms(1,3,4) show ?thesis
    by (simp add: multi_vector_values_def multi_vector_def rows_value_def)
qed

lemma multi_vector_values_plain:
  assumes "multi_vector_values v name = Inr rows"
  shows "multi_vector_values (rows_value rows) name' = Inr rows"
proof -
  obtain items where r: "rmap (\<lambda>row. vector row (name @ '' row'')) items = Inr rows" "rows \<noteq> []"
      "length (remdups (map length rows)) = 1" "int (length (hd rows)) = lateon_dimension"
    using assms by (auto simp: multi_vector_values_def multi_vector_def rbind_Inr_iff split: option.splits if_splits)
  have "\<forall>row \<in> set rows. row \<noteq> []"
    using rmap_Inr_set [OF r(1)] vector_Inr by blast
  from rows_plain [OF r(2) this r(3,4)] show ?thesis .
qed

lemma base_uuid_text_canonical:
  assumes "is_canonical u" shows "base_uuid_text (PStr u) name = Inr u"
  using assms canonical_not_blank [OF assms] by (simp add: base_uuid_text_Inr is_canonical_def)

lemma record_restorable:
  assumes "record_of_row user row = Inr r"
  shows "restorable user r = Inr r" "is_canonical (ck_chunk r)"
proof -
  obtain props where p: "ck_user r = user" "ck_object_id r = ck_chunk r"
    "record_fields row props = Some (ck_chunk r, ck_chunk r, ck_document r, ck_paragraph r, ck_text r)"
    "result_multi_vector (so_vector row) = Inr (ck_late r)" "result_vector (so_vector row) None = Inr (ck_mmr r)"
    using record_of_row_Inr [OF assms] by metis
  have c: "is_canonical (ck_chunk r)" "is_canonical (ck_document r)" "0 < ck_paragraph r" "strip (ck_text r) \<noteq> []"
    using p(3) uuid_canon_canonical by (auto simp: record_fields_Some base_uuid_text_Inr)
  have late: "multi_vector_values (rows_value (ck_late r)) name = Inr (ck_late r)" for name
    using p(4) multi_vector_values_plain unfolding result_multi_vector_def
    by (auto split: pyval.splits option.splits sum.splits)
  obtain x where "(case vector x ''MMR-diversity vector'' of Inl _ \<Rightarrow> Inl (WeaviateResponseError ''result contains a malformed MMR vector'')
      | Inr xs \<Rightarrow> Inr xs) = Inr (ck_mmr r)"
    using p(5) unfolding result_vector_def rbind_Inr_iff option.case by blast
  then have "ck_mmr r \<noteq> []"
    using vector_Inr by (cases "vector x ''MMR-diversity vector''") auto
  then show "restorable user r = Inr r"
    using p(1,2) c late by (simp add: restorable_def base_uuid_text_canonical base_paragraph_id_def required_text_def vector_plain)
  show "is_canonical (ck_chunk r)"
    by (rule c)
qed

lemma obind_known: "obind (olift (Inr x)) f = f x"
  by (rule ext) (simp add: obind_def)

lemma keeps_for_members: "\<forall>x \<in> set xs. keeps f (h x) \<Longrightarrow> keeps f (ofor xs h)"
  by (induction xs) (auto intro: keeps_intros)

lemma insert_record_keeps:
  assumes "honest wv (uc_name uc) content" "is_canonical (ck_chunk r)" "i \<noteq> ck_chunk r"
  shows "keeps (\<lambda>s. content s i) (insert_record wv uc r)"
proof -
  have ins: "keeps (\<lambda>s. content s i) (wv_insert wv (uc_name uc) props (ck_chunk r) late dv)" for props late dv
    unfolding keeps_def using honest_insert [OF assms(1) _ assms(3)] by blast
  show ?thesis
    unfolding insert_record_def insert_chunk_def base_uuid_text_canonical [OF assms(2)] obind_known
    by (intro keeps_intros ins)
qed

lemma rmap_restorable: "\<forall>r \<in> set rs. restorable user r = Inr r \<Longrightarrow> rmap (restorable user) rs = Inr rs"
  using rmap_all_Inr [of rs "restorable user" "\<lambda>r. r"] by simp

lemma restore_exact:
  assumes "honest wv (uc_name uc) content" "restore_chunks wv uc rs s = (Inr ids, t)"
    and "\<forall>r \<in> set rs. restorable (uc_user uc) r = Inr r \<and> is_canonical (ck_chunk r)"
  shows "r \<in> set rs \<Longrightarrow> chunks_in (uc_user uc) (content t) (ck_chunk r) = Some r"
    and "i \<notin> ck_chunk ` set rs \<Longrightarrow> content t i = content s i"
proof -
  let ?expected = "map (\<lambda>r. (ck_chunk r, r)) rs"
  have v: "rmap (restorable (uc_user uc)) rs = Inr rs"
    using assms(3) rmap_restorable by blast
  have d: "distinct (map ck_chunk rs)"
    using assms(2) v by (simp add: restore_chunks_def obind_known split: if_splits)
  obtain existing t1 where f1: "fetch_records_by_ids wv uc (map fst ?expected) s = (Inr existing, t1)"
    and rest: "restore_missing wv uc rs ?expected existing t1 = (Inr ids, t)"
    using assms(2) v d unfolding restore_chunks_def Let_def obind_known by (auto simp: obind_Inr_iff)
  obtain t2 verified where w: "ofor (filter (\<lambda>r. map_of existing (ck_chunk r) = None) rs) (insert_record wv uc) t1 = (Inr (), t2)"
    and f2: "fetch_records_by_ids wv uc (map fst ?expected) t2 = (Inr verified, t)"
    and same: "set (map fst verified) = set (map fst ?expected)" "\<forall>p \<in> set verified. map_of ?expected (fst p) = Some (snd p)"
    using rest unfolding restore_missing_def obind_Inr_iff Let_def by (auto split: if_splits)
  note c1 = fetch_records(1) [OF assms(1) f1] and c2 = fetch_records [OF assms(1) f2]
  show "chunks_in (uc_user uc) (content t) (ck_chunk r) = Some r" if "r \<in> set rs"
  proof -
    have "ck_chunk r \<in> set (map fst verified)"
      unfolding same(1) using that by simp
    then obtain r' where p: "(ck_chunk r, r') \<in> set verified"
      by auto
    then have "map_of ?expected (ck_chunk r) = Some r'"
      using same(2) by fastforce
    moreover have "map_of ?expected (ck_chunk r) = Some r"
      by (rule map_of_is_SomeI) (use d that in \<open>auto simp: o_def\<close>)
    ultimately have "r' = r"
      by simp
    with p c2(3) [of "ck_chunk r" r] c2(1) show ?thesis
      by simp
  qed
  show "content t i = content s i" if i: "i \<notin> ck_chunk ` set rs"
  proof -
    have "keeps (\<lambda>s. content s i) (ofor (filter (\<lambda>r. map_of existing (ck_chunk r) = None) rs) (insert_record wv uc))"
      by (rule keeps_for_members) (use assms(3) i insert_record_keeps [OF assms(1)] in auto)
    from keepsD [OF this w] c1 c2(1) show ?thesis
      by simp
  qed
qed

section \<open>Refinement\<close>

text \<open>The abstract store: a map from chunk ids to chunks, with the deletion and the part of a document.\<close>

definition without_document :: "string \<Rightarrow> (string \<Rightarrow> chunk_record option) \<Rightarrow> string \<Rightarrow> chunk_record option" where
  "without_document d m i = (case m i of None \<Rightarrow> None | Some r \<Rightarrow> if ck_document r = d then None else Some r)"

definition document_part :: "string \<Rightarrow> (string \<Rightarrow> chunk_record option) \<Rightarrow> chunk_record set" where
  "document_part d m = {r. \<exists>i. m i = Some r \<and> ck_document r = d}"

definition put_chunks :: "chunk_record list \<Rightarrow> (string \<Rightarrow> chunk_record option) \<Rightarrow> string \<Rightarrow> chunk_record option" where
  "put_chunks rs m = m ++ map_of (map (\<lambda>r. (ck_chunk r, r)) rs)"

lemma matching_document:
  "record_of_row user row = Inr r \<Longrightarrow> matching (ByDocument d) i row \<longleftrightarrow> ck_document r = d"
  using record_of_row_document by auto

lemma delete_by_document_abs:
  assumes "honest wv (uc_name uc) content" "delete_by_document wv uc (PStr d) s = (Inr report, t)" "uuid_canon d = Some u"
  shows "chunks_in (uc_user uc) (content t) = without_document u (chunks_in (uc_user uc) (content s))"
proof
  fix i
  have "verified_delete wv uc (ByDocument u) s = (Inr report, t)"
    using assms(2,3) by (auto simp: delete_by_document_def obind_Inr_iff base_uuid_text_Inr)
  from verified_delete_removes [OF assms(1) this [unfolded verified_delete_def], of i]
  show "chunks_in (uc_user uc) (content t) i = without_document u (chunks_in (uc_user uc) (content s)) i"
    by (auto simp: chunks_in_def without_document_def matching_document
        simp del: matching.simps split: option.splits sum.splits if_splits)
qed

lemma snapshot_by_document_abs:
  assumes "honest wv (uc_name uc) content" "snapshot_by_document wv uc (PStr d) s = (Inr rs, t)" "uuid_canon d = Some u"
  shows "content t = content s" "distinct (map ck_chunk rs)" "set rs = document_part u (chunks_in (uc_user uc) (content s))"
proof -
  have "snapshot wv uc (ByDocument u) s = (Inr rs, t)"
    using assms(2,3) by (auto simp: snapshot_by_document_def obind_Inr_iff base_uuid_text_Inr split: if_splits)
  note e = snapshot_exact [OF assms(1) this]
  show "content t = content s" "distinct (map ck_chunk rs)"
    by (rule e)+
  show "set rs = document_part u (chunks_in (uc_user uc) (content s))"
    unfolding e(3) document_part_def
  proof (rule Collect_cong)
    fix r
    show "(\<exists>i row. content s i = Some row \<and> matching (ByDocument u) i row \<and> chunks_in (uc_user uc) (content s) i = Some r)
        \<longleftrightarrow> (\<exists>i. chunks_in (uc_user uc) (content s) i = Some r \<and> ck_document r = u)"
      unfolding chunks_in_Some using matching_document by (metis option.inject)
  qed
qed

lemma restore_abs:
  assumes "honest wv (uc_name uc) content" "restore_chunks wv uc rs s = (Inr ids, t)"
    and "set rs \<subseteq> ran (chunks_in (uc_user uc) m)" "distinct (map ck_chunk rs)"
  shows "chunks_in (uc_user uc) (content t) = put_chunks rs (chunks_in (uc_user uc) (content s))"
proof
  fix i
  have "\<forall>r \<in> set rs. restorable (uc_user uc) r = Inr r \<and> is_canonical (ck_chunk r)"
    using assms(3) record_restorable by (force simp: ran_def chunks_in_Some)
  note e = restore_exact [OF assms(1,2) this]
  show "chunks_in (uc_user uc) (content t) i = put_chunks rs (chunks_in (uc_user uc) (content s)) i"
  proof (cases "i \<in> ck_chunk ` set rs")
    case True
    then obtain r where r: "r \<in> set rs" "i = ck_chunk r"
      by auto
    then have "map_of (map (\<lambda>r. (ck_chunk r, r)) rs) i = Some r"
      by (intro map_of_is_SomeI) (use assms(4) in \<open>auto simp: o_def\<close>)
    with e(1) [OF r(1)] r(2) show ?thesis
      by (simp add: put_chunks_def map_add_def)
  next
    case False
    then have "map_of (map (\<lambda>r. (ck_chunk r, r)) rs) i = None"
      by (force simp: map_of_eq_None_iff)
    with e(2) [OF False] show ?thesis
      by (simp add: put_chunks_def map_add_def chunks_in_def)
  qed
qed

text \<open>
  C7 (refinement). On a store whose reads tell the truth and whose writes touch only what they name, but may fail or
  stop half way, the operations that return refine a map of chunks: a deletion removes exactly the chunks of the
  document, a snapshot reads exactly them and changes nothing, and a restoration puts exactly the chunks of the
  snapshot back, whatever happened between. So a restored deletion is undone.
\<close>

theorem chunk_store_refines:
  assumes "honest wv (uc_name uc) content" "uuid_canon d = Some u"
  defines "chunks \<equiv> \<lambda>s. chunks_in (uc_user uc) (content s)"
  shows "(delete_by_document wv uc (PStr d) s = (Inr report, t) \<longrightarrow> chunks t = without_document u (chunks s))
    \<and> (snapshot_by_document wv uc (PStr d) s = (Inr rs, t) \<longrightarrow>
         chunks t = chunks s \<and> distinct (map ck_chunk rs) \<and> set rs = document_part u (chunks s)
         \<and> (restore_chunks wv uc rs s2 = (Inr ids, t2) \<longrightarrow> chunks t2 = put_chunks rs (chunks s2)
             \<and> (chunks s2 = without_document u (chunks s) \<longrightarrow> chunks t2 = chunks s)))"
proof -
  have undo: "put_chunks rs (without_document u (chunks s)) = chunks s"
    if "distinct (map ck_chunk rs)" "set rs = document_part u (chunks s)"
  proof
    fix i
    have key: "ck_chunk r = i" if "chunks s i = Some r" for i r
      using that honest_key [OF assms(1)] record_of_row_chunk unfolding chunks_def chunks_in_Some by fastforce
    show "put_chunks rs (without_document u (chunks s)) i = chunks s i"
    proof (cases "map_of (map (\<lambda>r. (ck_chunk r, r)) rs) i")
      case None
      then have "i \<notin> ck_chunk ` set rs"
        by (force simp: map_of_eq_None_iff)
      then have "ck_document r \<noteq> u" if "chunks s i = Some r" for r
        using that key [OF that] \<open>set rs = _\<close> by (force simp: document_part_def)
      with None show ?thesis
        by (auto simp: put_chunks_def map_add_def without_document_def split: option.splits)
    next
      case (Some r)
      then have "r \<in> set rs" "ck_chunk r = i"
        by (auto dest: map_of_SomeD)
      with Some key \<open>set rs = _\<close> show ?thesis
        by (auto simp: put_chunks_def map_add_def document_part_def)
    qed
  qed
  have ran: "set rs \<subseteq> ran (chunks s)" if "set rs = document_part u (chunks s)"
    unfolding that document_part_def ran_def by auto
  show ?thesis
  proof (intro conjI impI)
    show "chunks t = without_document u (chunks s)" if "delete_by_document wv uc (PStr d) s = (Inr report, t)"
      unfolding chunks_def by (rule delete_by_document_abs [OF assms(1) that assms(2)])
    assume snap: "snapshot_by_document wv uc (PStr d) s = (Inr rs, t)"
    note sn = snapshot_by_document_abs [OF assms(1) snap assms(2)]
    show "chunks t = chunks s" "distinct (map ck_chunk rs)" "set rs = document_part u (chunks s)"
      using sn unfolding chunks_def by simp_all
    assume restore: "restore_chunks wv uc rs s2 = (Inr ids, t2)"
    show put: "chunks t2 = put_chunks rs (chunks s2)"
      unfolding chunks_def by (rule restore_abs [OF assms(1) restore _ sn(2)]) (use ran sn(3) in \<open>simp add: chunks_def\<close>)
    assume "chunks s2 = without_document u (chunks s)"
    with put undo [OF sn(2)] sn(3) show "chunks t2 = chunks s"
      by (simp add: chunks_def)
  qed
qed

section \<open>A store in memory\<close>

text \<open>An honest store: a dictionary of objects, of which the well-keyed ones count.\<close>

type_synonym memory = "(string, store_object) dict"

definition stored :: "memory \<Rightarrow> memory" where
  "stored s = filter (\<lambda>p. printed_uuid (plain (so_uuid (snd p))) = Some (fst p)) (AList.clearjunk s)"

definition memory_content :: "memory \<Rightarrow> string \<Rightarrow> store_object option" where
  "memory_content s = map_of (stored s)"

definition memory_object :: "(string \<times> pyval) list \<Rightarrow> string \<Rightarrow> real list list \<Rightarrow> real list \<Rightarrow> store_object" where
  "memory_object props object_id late dv =
     \<lparr>so_uuid = PlainValue (PStr object_id), so_properties = Some (map (\<lambda>(k, v). (k, PlainValue v)) props),
      so_vector = PDict [(PStr late_interaction_name, rows_value late),
                         (PStr mmr_diversity_name, PList (map (\<lambda>x. PFloat (Fin x)) dv))]\<rparr>"

definition memory_delete :: "store_filter \<Rightarrow> bool \<Rightarrow> memory \<Rightarrow> delete_answer res \<times> memory" where
  "memory_delete where' dry s =
     (let hit = filter (\<lambda>p. matching where' (fst p) (snd p)) (stored s)
      in (Inr \<lparr>da_matches = PInt (int (length hit)), da_successful = PInt (int (length hit)), da_failed = PInt 0,
               da_objects = Some (map (\<lambda>p. (so_uuid (snd p), PBool True)) hit)\<rparr>,
          if dry then s else filter (\<lambda>p. \<not> matching where' (fst p) (snd p)) (stored s)))"

definition renumbered_object :: "int \<Rightarrow> store_object \<Rightarrow> store_object" where
  "renumbered_object n row =
     row\<lparr>so_properties := map_option (AList.update ''paragraph_id'' (PlainValue (PInt n))) (so_properties row)\<rparr>"

definition memory_store :: "memory weaviate" where
  "memory_store =
     \<lparr>wv_hybrid = (\<lambda>_ _ _ n s. (Inr (Some (map snd (take (nat n) (stored s)))), s)),
      wv_fetch = (\<lambda>_ ids s. (Inr (Some (map snd (filter (\<lambda>p. fst p \<in> set ids) (stored s)))), s)),
      wv_delete_many = (\<lambda>_. memory_delete),
      wv_insert = (\<lambda>_ props object_id late dv s. (Inr object_id, AList.update object_id (memory_object props object_id late dv) s)),
      wv_update = (\<lambda>_ object_id n s. (Inr (), AList.map_entry object_id (renumbered_object n) s))\<rparr>"

lemma distinct_stored: "distinct (map fst (stored s))"
  unfolding stored_def by (rule distinct_map_filter) simp

lemma memory_content_iff:
  "memory_content s i = Some row \<longleftrightarrow> (i, row) \<in> set (stored s)"
  unfolding memory_content_def using map_of_eq_Some_iff [OF distinct_stored] by blast

lemma memory_content_eq:
  "memory_content s i = (case map_of s i of None \<Rightarrow> None
     | Some row \<Rightarrow> if printed_uuid (plain (so_uuid row)) = Some i then Some row else None)"
proof -
  have "map_of (AList.clearjunk s) i = map_of s i"
    by (simp add: map_of_clearjunk)
  moreover have "memory_content s i = Some row \<longleftrightarrow>
      map_of (AList.clearjunk s) i = Some row \<and> printed_uuid (plain (so_uuid row)) = Some i" for row
    unfolding memory_content_iff stored_def using map_of_eq_Some_iff [OF distinct_clearjunk, of s i row] by auto
  ultimately have m: "memory_content s i = Some row \<longleftrightarrow>
      map_of s i = Some row \<and> printed_uuid (plain (so_uuid row)) = Some i" for row
    by simp
  show ?thesis
  proof (cases "map_of s i")
    case None
    then have "memory_content s i = None"
      using m by (metis not_None_eq)
    with None show ?thesis
      by simp
  next
    case (Some row)
    show ?thesis
    proof (cases "printed_uuid (plain (so_uuid row)) = Some i")
      case True
      with m [of row] Some show ?thesis
        by simp
    next
      case False
      then have "memory_content s i = None"
        using m Some by (metis not_None_eq option.inject)
      with Some False show ?thesis
        by simp
    qed
  qed
qed

lemma memory_honest: "honest memory_store name memory_content"
  unfolding honest_def
proof (intro conjI allI impI)
  show "printed_uuid (plain (so_uuid row)) = Some i" if "memory_content s i = Some row" for s i row
    using that unfolding memory_content_iff stored_def by simp
  show "dry_run_truthful memory_store name memory_content"
    unfolding dry_run_truthful_def memory_store_def
    by (auto simp: memory_delete_def memory_content_iff Let_def) (auto simp: stored_def)
  show "fetch_truthful memory_store name memory_content"
    unfolding fetch_truthful_def memory_store_def by (force simp: memory_content_iff)
  show "delete_framed memory_store name memory_content"
    unfolding delete_framed_def
  proof (intro allI impI)
    fix where' s r t i
    assume "wv_delete_many memory_store name where' False s = (r, t)"
    then have t: "t = filter (\<lambda>p. \<not> matching where' (fst p) (snd p)) (stored s)"
      by (simp add: memory_store_def memory_delete_def Let_def)
    have junk: "AList.clearjunk t = t"
      unfolding t by (rule distinct_clearjunk_id) (rule distinct_map_filter [OF distinct_stored])
    have keyed: "\<forall>p \<in> set t. printed_uuid (plain (so_uuid (snd p))) = Some (fst p)"
      by (auto simp: t stored_def)
    have st: "stored t = t"
      unfolding stored_def [of t] junk by (rule filter_True [OF keyed])
    have in_t: "memory_content t i = Some row \<longleftrightarrow> memory_content s i = Some row \<and> \<not> matching where' i row" for row
      unfolding memory_content_iff st by (auto simp: t)
    show "memory_content t i = memory_content s i
        \<or> memory_content t i = None \<and> (\<exists>row. memory_content s i = Some row \<and> matching where' i row)"
      using in_t by (metis not_None_eq)
  qed
  show "writes_framed memory_store name memory_content"
    unfolding writes_framed_def memory_store_def
    by (auto simp: memory_content_eq update_conv' map_of_map_entry)
qed

section \<open>Example\<close>

definition demo_uc :: user_collection where
  "demo_uc = \<lparr>uc_user = ''u'', uc_name = ''C'', uc_kind = chunk_kind ''policy''\<rparr>"

definition demo_document :: string where "demo_document = uuid_render 7"

definition demo_row :: store_object where
  "demo_row =
     \<lparr>so_uuid = UuidValue 5,
      so_properties = Some [(''user_id'', PlainValue (PStr ''u'')), (''document_id'', UuidValue 7),
        (''paragraph_id'', PlainValue (PInt 1)), (''chunk_id'', UuidValue 5), (''raw_text'', PlainValue (PStr ''text''))],
      so_vector = PDict [(PStr late_interaction_name, PList [PList (replicate 128 (PInt 1))]),
                         (PStr mmr_diversity_name, PList [PInt 1])]\<rparr>"

lemma uuid_canon_render: "n < 2 ^ 128 \<Longrightarrow> uuid_canon (uuid_render n) = Some (uuid_render n) \<and> strip (uuid_render n) \<noteq> []"
  using uuid_render_canonical [of n] canonical_not_blank by (auto simp: is_canonical_def)

lemma demo_record: "\<exists>r. record_of_row ''u'' demo_row = Inr r \<and> ck_document r = demo_document"
proof -
  have t: "strip ''text'' \<noteq> []"
    by code_simp
  have "multi_vector (PList [PList (replicate 128 (PInt 1))]) name = Inr [replicate 128 1]" for name
    by (rule flat_vector) (simp_all add: number_item_def)
  then have "result_multi_vector (so_vector demo_row) = Inr [replicate 128 1]"
    by (simp add: demo_row_def result_multi_vector_def multi_vector_values_def lateon_dimension_def)
  moreover have "result_vector (so_vector demo_row) None = Inr [1]"
    by (simp add: demo_row_def result_vector_def late_interaction_name_def mmr_diversity_name_def vector_def number_item_def)
  moreover have "record_fields demo_row (the (so_properties demo_row)) = Some (one_id, one_id, demo_document, 1, ''text'')"
    using t uuid_canon_render [of 5] uuid_canon_render [of 7]
    by (simp add: record_fields_Some demo_row_def prop_of_def base_uuid_text_Inr one_id_def demo_document_def)
  ultimately show ?thesis
    by (simp add: record_of_row_def) (simp add: demo_row_def prop_of_def)
qed

lemma demo_stored: "stored [(one_id, demo_row)] = [(one_id, demo_row)]"
  using one_id by (simp add: stored_def demo_row_def one_id_def [symmetric])

lemma demo_runs:
  "\<exists>report. delete_by_document memory_store demo_uc (PStr demo_document) [(one_id, demo_row)] = (Inr report, [])"
proof -
  have d: "uuid_canon demo_document = Some demo_document" "strip demo_document \<noteq> []"
    unfolding demo_document_def using uuid_canon_render [of 7] by simp_all
  have m: "matching (ByDocument demo_document) i demo_row" for i
    using d by (simp add: uuid_prop_def demo_row_def prop_of_def demo_document_def [symmetric])
  have "wv_delete_many memory_store name (ByDocument demo_document) False [(one_id, demo_row)]
      = (Inr \<lparr>da_matches = PInt 1, da_successful = PInt 1, da_failed = PInt 0, da_objects = Some [(UuidValue 5, PBool True)]\<rparr>, [])"
    for name
    using m by (simp add: memory_store_def memory_delete_def demo_stored del: matching.simps) (simp add: demo_row_def)
  moreover have "wv_delete_many memory_store name w True []
      = (Inr \<lparr>da_matches = PInt 0, da_successful = PInt 0, da_failed = PInt 0, da_objects = Some []\<rparr>, [])" for name w
    by (simp add: memory_store_def memory_delete_def stored_def)
  moreover have "actual_delete_response
      \<lparr>da_matches = PInt 1, da_successful = PInt 1, da_failed = PInt 0, da_objects = Some [(UuidValue 5, PBool True)]\<rparr>
      = Inr (1, 1, 0, [one_id])"
    using one_id by (simp add: actual_delete_response_def count_value_def deleted_object_def one_id_def [symmetric])
  moreover have "dry_run_delete_response
      \<lparr>da_matches = PInt 0, da_successful = PInt 0, da_failed = PInt 0, da_objects = Some []\<rparr> = Inr (0, [])"
    by (simp add: dry_run_delete_response_def count_value_def)
  ultimately show ?thesis
    using d by (simp add: delete_by_document_def base_uuid_text_def required_text_def verified_delete_def
        verified_delete_saying_def obind_def confirmed_def)
qed

theorem chunk_store_refines_witness:
  "without_document demo_document (chunks_in ''u'' (memory_content [(one_id, demo_row)])) = (\<lambda>_. None)
   \<and> chunks_in ''u'' (memory_content [(one_id, demo_row)]) one_id \<noteq> None"
proof -
  obtain report where run: "delete_by_document memory_store demo_uc (PStr demo_document) [(one_id, demo_row)] = (Inr report, [])"
    using demo_runs by blast
  have d: "uuid_canon demo_document = Some demo_document"
    unfolding demo_document_def using uuid_canon_render [of 7] by simp
  have u: "uc_user demo_uc = ''u''"
    by (simp add: demo_uc_def)
  have "chunks_in ''u'' (memory_content []) = without_document demo_document (chunks_in ''u'' (memory_content [(one_id, demo_row)]))"
    using chunk_store_refines [OF memory_honest d, of demo_uc "[(one_id, demo_row)]" report "[]"] run unfolding u by blast
  moreover have "chunks_in ''u'' (memory_content []) = (\<lambda>_. None)"
    by (simp add: chunks_in_def memory_content_def stored_def fun_eq_iff)
  moreover have "chunks_in ''u'' (memory_content [(one_id, demo_row)]) one_id \<noteq> None"
    using demo_record by (auto simp: chunks_in_def memory_content_def demo_stored)
  ultimately show ?thesis
    by simp
qed

end
