(* ===== verification/Conversation_Store.thy ===== *)
theory Conversation_Store
  imports Chunk_Store
begin

text \<open>
  \<open>backend/weaviate_client/conversation.py\<close>: a conversation is stored as one object per retrieval segment. A failed
  write is compensated by a verified deletion of the segments attempted so far. Counters, samples and digests of the
  diagnostics are left out.
\<close>

definition conversation_verified_delete :: "'st weaviate \<Rightarrow> user_collection \<Rightarrow> store_filter \<Rightarrow> ('st, deletion_report) op" where
  "conversation_verified_delete = verified_delete_saying ''conversation deletion verification is incomplete''"

record segment_write =
  sw_index :: nat
  sw_id :: string
  sw_text :: string
  sw_vectors :: "real list list"

definition write_segment ::
    "'st weaviate \<Rightarrow> user_collection \<Rightarrow> string \<Rightarrow> string \<Rightarrow> real list \<Rightarrow> segment_write \<Rightarrow> ('st, unit) op" where
  "write_segment wv uc canonical_id t diversity sw =
     obind (wv_insert wv (uc_name uc)
              [(''user_id'', PStr (uc_user uc)), (''conversation_id'', PStr canonical_id), (''segment_id'', PStr (sw_id sw)),
               (''segment_index'', PInt (int (sw_index sw))), (''raw_text'', PStr t), (''segment_text'', PStr (sw_text sw))]
              (sw_id sw) (sw_vectors sw) diversity) (\<lambda>inserted.
     obind (olift (base_uuid_text (PStr inserted) ''inserted object UUID'')) (\<lambda>inserted_id.
     if inserted_id \<noteq> sw_id sw then oraise (WeaviateResponseError ''inserted object UUID does not match segment_id'')
     else oret ()))"

text \<open>The loop inside \<open>try\<close>: the error that ends it, with the ids attempted.\<close>

fun write_segments ::
    "'st weaviate \<Rightarrow> user_collection \<Rightarrow> string \<Rightarrow> string \<Rightarrow> real list \<Rightarrow> string list \<Rightarrow> segment_write list
     \<Rightarrow> ('st, (exc \<times> string list) option) op" where
  "write_segments wv uc canonical_id t diversity attempted [] = oret None"
| "write_segments wv uc canonical_id t diversity attempted (sw # sws) =
     obind (ocatch (write_segment wv uc canonical_id t diversity sw)) (\<lambda>r.
     case r of
       Inl e \<Rightarrow> oret (Some (e, attempted @ [sw_id sw]))
     | Inr _ \<Rightarrow> write_segments wv uc canonical_id t diversity (attempted @ [sw_id sw]) sws)"

definition sequence_of :: "pyval \<Rightarrow> string \<Rightarrow> pyval list res" where
  "sequence_of v message = (case sequence_items v of None \<Rightarrow> Inl (TypeError message) | Some items \<Rightarrow> Inr items)"

definition segment_writes :: "string \<Rightarrow> string list \<Rightarrow> real list list list \<Rightarrow> segment_write list" where
  "segment_writes canonical_id segments vectors =
     map (\<lambda>i. \<lparr>sw_index = i, sw_id = segment_identity canonical_id (int i), sw_text = segments ! i, sw_vectors = vectors ! i\<rparr>)
       [0..<length segments]"

text \<open>The validation: the canonical id, the text, the writes and the diversity vector.\<close>

definition checked_conversation ::
    "pyval \<Rightarrow> pyval \<Rightarrow> pyval \<Rightarrow> pyval \<Rightarrow> pyval \<Rightarrow> (string \<times> string \<times> segment_write list \<times> real list) res" where
  "checked_conversation cid raw_text segment_texts segment_vectors dvec =
     rbind (base_uuid_text cid ''conversation_id'') (\<lambda>canonical_id.
     rbind (required_text raw_text ''raw_text'') (\<lambda>t.
     rbind (sequence_of segment_texts ''segment_texts must be a sequence of strings'') (\<lambda>text_items.
     rbind (rmap (\<lambda>item. required_text item ''segment_text'') text_items) (\<lambda>segments.
     if segments = [] \<or> concat segments \<noteq> t
     then Inl (ValueError ''Conversation segments must reconstruct raw_text exactly'')
     else
     rbind (sequence_of segment_vectors ''segment_vectors must be a sequence of multi-vectors'') (\<lambda>vector_items.
     rbind (rmap (\<lambda>item. multi_vector_values item ''segment multi-vector'') vector_items) (\<lambda>vectors.
     if length vectors \<noteq> length segments
     then Inl (ValueError ''Conversation segments and multi-vectors must align'')
     else if length (remdups (map length (concat vectors))) \<noteq> 1
     then Inl (ValueError ''Conversation multi-vectors must share one dimension'')
     else
     rbind (vector dvec ''diversity_vector'') (\<lambda>diversity.
     Inr (canonical_id, t, segment_writes canonical_id segments vectors, diversity))))))))"

definition conversation_insert ::
    "'st weaviate \<Rightarrow> user_collection \<Rightarrow> pyval \<Rightarrow> pyval \<Rightarrow> pyval \<Rightarrow> pyval \<Rightarrow> pyval \<Rightarrow> ('st, string) op" where
  "conversation_insert wv uc cid raw_text segment_texts segment_vectors dvec =
     obind (olift (checked_conversation cid raw_text segment_texts segment_vectors dvec))
       (\<lambda>(canonical_id, t, sws, diversity).
     obind (write_segments wv uc canonical_id t diversity [] sws) (\<lambda>failure.
     case failure of
       None \<Rightarrow> oret canonical_id
     | Some (write_error, attempted) \<Rightarrow>
         obind (ocatch (conversation_verified_delete wv uc (ByIds attempted))) (\<lambda>r.
         case r of
           Inl cleanup_error \<Rightarrow> oraise (ConversationWriteRecoveryError attempted write_error cleanup_error)
         | Inr _ \<Rightarrow> oraise write_error)))"

definition conversation_delete :: "'st weaviate \<Rightarrow> user_collection \<Rightarrow> pyval \<Rightarrow> ('st, unit) op" where
  "conversation_delete wv uc cid =
     obind (olift (base_uuid_text cid ''conversation_id'')) (\<lambda>c.
     obind (wv_delete_many wv (uc_name uc) (ByConversations [c]) False) (\<lambda>_. oret ()))"

definition conversation_delete_batch :: "'st weaviate \<Rightarrow> user_collection \<Rightarrow> pyval \<Rightarrow> ('st, unit) op" where
  "conversation_delete_batch wv uc conversation_ids =
     (case conversation_ids of
        PList items \<Rightarrow>
          obind (olift (rmap (\<lambda>i. base_uuid_text i ''conversation_id'') items)) (\<lambda>ids.
          if ids = [] then oret ()
          else obind (wv_delete_many wv (uc_name uc) (ByConversations (dedup ids)) False) (\<lambda>_. oret ()))
      | _ \<Rightarrow> oraise (TypeError ''conversation_ids must be a list''))"

definition conversation_delete_batch_verified :: "'st weaviate \<Rightarrow> user_collection \<Rightarrow> pyval \<Rightarrow> ('st, deletion_report) op" where
  "conversation_delete_batch_verified wv uc conversation_ids =
     (case conversation_ids of
        PList items \<Rightarrow>
          obind (olift (rmap (\<lambda>i. base_uuid_text i ''conversation_id'') items)) (\<lambda>ids.
          if ids = [] then oret no_deletion else conversation_verified_delete wv uc (ByConversations (dedup ids)))
      | _ \<Rightarrow> oraise (TypeError ''conversation_ids must be a list''))"

section \<open>A write is complete or compensated\<close>

text \<open>
  A successful insertion stores its object under the canonical id, with its properties, of which only the
  representation may differ.
\<close>

definition inserts_store :: "'st weaviate \<Rightarrow> string \<Rightarrow> ('st \<Rightarrow> string \<Rightarrow> store_object option) \<Rightarrow> bool" where
  "inserts_store wv name content \<longleftrightarrow>
     (\<forall>props object_id late dv s x t. wv_insert wv name props object_id late dv s = (Inr x, t) \<longrightarrow>
        is_canonical object_id \<longrightarrow> distinct (map fst props) \<longrightarrow>
        (\<exists>row stored. content t object_id = Some row \<and> so_properties row = Some stored
           \<and> (\<forall>(k, v) \<in> set props. prop_of stored k = v)))"

lemma insertsD:
  assumes "inserts_store wv name content" "wv_insert wv name props object_id late dv s = (Inr x, t)"
    and "is_canonical object_id" "distinct (map fst props)"
  shows "\<exists>row stored. content t object_id = Some row \<and> so_properties row = Some stored \<and> (\<forall>(k, v) \<in> set props. prop_of stored k = v)"
  using assms unfolding inserts_store_def by blast

text \<open>The row of a segment.\<close>

definition segment_row :: "user_collection \<Rightarrow> string \<Rightarrow> string \<Rightarrow> segment_write \<Rightarrow> store_object \<Rightarrow> bool" where
  "segment_row uc canonical_id t sw row \<longleftrightarrow> row_of_user (uc_user uc) row \<and> (\<exists>props. so_properties row = Some props
     \<and> prop_of props ''conversation_id'' = PStr canonical_id \<and> prop_of props ''segment_id'' = PStr (sw_id sw)
     \<and> prop_of props ''segment_index'' = PInt (int (sw_index sw)) \<and> prop_of props ''segment_text'' = PStr (sw_text sw)
     \<and> prop_of props ''raw_text'' = PStr t)"

lemma write_segment_keeps:
  assumes "honest wv (uc_name uc) content" "i \<noteq> sw_id sw"
  shows "keeps (\<lambda>s. content s i) (write_segment wv uc canonical_id t diversity sw)"
proof -
  have "keeps (\<lambda>s. content s i) (wv_insert wv (uc_name uc) props (sw_id sw) late dv)" for props late dv
    unfolding keeps_def using honest_insert [OF assms(1) _ assms(2)] by blast
  then show ?thesis
    unfolding write_segment_def by (intro keeps_intros)
qed

lemma write_segment_row:
  assumes "inserts_store wv (uc_name uc) content" "write_segment wv uc canonical_id t diversity sw s = (Inr (), u)"
    and "is_canonical (sw_id sw)"
  shows "\<exists>row. content u (sw_id sw) = Some row \<and> segment_row uc canonical_id t sw row"
proof -
  let ?props = "[(''user_id'', PStr (uc_user uc)), (''conversation_id'', PStr canonical_id), (''segment_id'', PStr (sw_id sw)),
               (''segment_index'', PInt (int (sw_index sw))), (''raw_text'', PStr t), (''segment_text'', PStr (sw_text sw))]"
  obtain x where "wv_insert wv (uc_name uc) ?props (sw_id sw) (sw_vectors sw) diversity s = (Inr x, u)"
    using assms(2) by (auto simp: write_segment_def obind_Inr_iff split: if_splits)
  from insertsD [OF assms(1) this assms(3)] show ?thesis
    by (auto simp: segment_row_def row_of_user_def)
qed

text \<open>The loop attempts a prefix of the writes and touches nothing else.\<close>

lemma write_segments_failure:
  assumes "honest wv (uc_name uc) content"
    and "write_segments wv uc canonical_id t diversity attempted sws s = (Inr (Some (e, tried)), u)"
  shows "\<exists>k. 0 < k \<and> k \<le> length sws \<and> tried = attempted @ map sw_id (take k sws)
    \<and> (\<forall>i. i \<notin> sw_id ` set (take k sws) \<longrightarrow> content u i = content s i)"
  using assms(2)
proof (induction sws arbitrary: attempted s)
  case (Cons sw sws)
  obtain r v where w: "write_segment wv uc canonical_id t diversity sw s = (r, v)"
    by fastforce
  have frame: "content v i = content s i" if "i \<noteq> sw_id sw" for i
    by (rule keepsD [OF write_segment_keeps [OF assms(1) that] w])
  show ?case
  proof (cases r)
    case (Inl x)
    then have "tried = attempted @ [sw_id sw]" "u = v"
      using Cons.prems w by (auto simp: obind_def ocatch_def split: if_splits)
    with frame show ?thesis
      by (intro exI [of _ 1]) simp
  next
    case (Inr x)
    then have "write_segments wv uc canonical_id t diversity (attempted @ [sw_id sw]) sws v = (Inr (Some (e, tried)), u)"
      using Cons.prems w by (simp add: obind_def ocatch_def)
    then obtain k where k: "0 < k" "k \<le> length sws" "tried = (attempted @ [sw_id sw]) @ map sw_id (take k sws)"
        "\<And>i. i \<notin> sw_id ` set (take k sws) \<Longrightarrow> content u i = content v i"
      using Cons.IH by blast
    show ?thesis
      by (rule exI [of _ "Suc k"]) (use k frame in auto)
  qed
qed simp

lemma write_segments_success:
  assumes "honest wv (uc_name uc) content" "inserts_store wv (uc_name uc) content" "distinct (map sw_id sws)"
    and "write_segments wv uc canonical_id t diversity attempted sws s = (Inr None, u)" "\<forall>sw \<in> set sws. is_canonical (sw_id sw)"
  shows "(\<forall>sw \<in> set sws. \<exists>row. content u (sw_id sw) = Some row \<and> segment_row uc canonical_id t sw row)
    \<and> (\<forall>i. i \<notin> sw_id ` set sws \<longrightarrow> content u i = content s i)"
  using assms(3-5)
proof (induction sws arbitrary: attempted s)
  case (Cons sw sws)
  obtain r v where w: "write_segment wv uc canonical_id t diversity sw s = (r, v)"
    by fastforce
  have r: "r = Inr ()"
    using Cons.prems(2) w by (cases r) (auto simp: obind_def ocatch_def split: if_splits)
  then have rest: "write_segments wv uc canonical_id t diversity (attempted @ [sw_id sw]) sws v = (Inr None, u)"
    using Cons.prems(2) w by (simp add: obind_def ocatch_def)
  have frame: "content v i = content s i" if "i \<noteq> sw_id sw" for i
    by (rule keepsD [OF write_segment_keeps [OF assms(1) that] w])
  obtain row where row: "content v (sw_id sw) = Some row" "segment_row uc canonical_id t sw row"
    using write_segment_row [OF assms(2) w [unfolded r]] Cons.prems(3) by auto
  have "distinct (map sw_id sws)" "sw_id sw \<notin> sw_id ` set sws"
    using Cons.prems(1) by simp_all
  moreover have "\<forall>sw \<in> set sws. is_canonical (sw_id sw)"
    using Cons.prems(3) by simp
  ultimately have IH: "(\<forall>sw \<in> set sws. \<exists>row. content u (sw_id sw) = Some row \<and> segment_row uc canonical_id t sw row)
      \<and> (\<forall>i. i \<notin> sw_id ` set sws \<longrightarrow> content u i = content v i)"
    using Cons.IH [OF _ rest] by blast
  have new: "sw_id sw \<notin> sw_id ` set sws"
    using Cons.prems(1) by simp
  have "content u (sw_id sw) = Some row"
    using IH new row(1) by simp
  with row(2) IH frame show ?case
    by auto
qed simp

lemma checked_conversation_Inr:
  assumes "checked_conversation cid raw_text segment_texts segment_vectors dvec = Inr (canonical_id, t, sws, diversity)"
  shows "sws \<noteq> [] \<and> concat (map sw_text sws) = t \<and> raw_text = PStr t \<and> base_uuid_text cid ''conversation_id'' = Inr canonical_id
    \<and> map sw_index sws = [0..<length sws] \<and> (\<forall>sw \<in> set sws. sw_id sw = segment_identity canonical_id (int (sw_index sw)))"
proof -
  obtain segments vectors where p: "base_uuid_text cid ''conversation_id'' = Inr canonical_id" "required_text raw_text ''raw_text'' = Inr t"
      "segments \<noteq> []" "concat segments = t" "sws = segment_writes canonical_id segments vectors"
    using assms unfolding checked_conversation_def by (auto simp: rbind_Inr_iff split: if_splits)
  have "map sw_text sws = segments"
    by (simp add: p(5) segment_writes_def o_def map_nth)
  with p show ?thesis
    by (auto simp: required_text_Inr segment_writes_def o_def)
qed


lemma segment_ids_canonical:
  assumes "checked_conversation cid raw_text segment_texts segment_vectors dvec = Inr (canonical_id, t, sws, diversity)" "sw \<in> set sws"
  shows "is_canonical (sw_id sw)"
proof -
  have id: "sw_id sw = segment_identity canonical_id (int (sw_index sw))"
    and c: "base_uuid_text cid ''conversation_id'' = Inr canonical_id"
    using checked_conversation_Inr [OF assms(1)] assms(2) by simp_all
  have "is_canonical canonical_id"
    using c uuid_canon_canonical by (auto simp: base_uuid_text_Inr)
  then have "uuid_int canonical_id \<noteq> None"
    by (auto simp: is_canonical_def uuid_canon_def)
  then show ?thesis
    unfolding id segment_identity_def by (rule uuid5_canonical)
qed

lemma write_segments_error:
  "write_segments wv uc canonical_id t diversity attempted sws s = (Inl e, u) \<Longrightarrow> e = CancelledError"
proof (induction sws arbitrary: attempted s)
  case (Cons sw sws)
  then show ?case
    by (auto simp: obind_def ocatch_def split: prod.splits sum.splits if_splits)
qed simp

lemma conversation_insert_cases:
  assumes "checked_conversation cid raw_text segment_texts segment_vectors dvec = Inr (canonical_id, t, sws, diversity)"
    and "write_segments wv uc canonical_id t diversity [] sws s = (f, v)"
  shows "conversation_insert wv uc cid raw_text segment_texts segment_vectors dvec s =
      (case f of Inl e \<Rightarrow> (Inl e, v) | Inr None \<Rightarrow> (Inr canonical_id, v)
       | Inr (Some (e, tried)) \<Rightarrow> obind (ocatch (conversation_verified_delete wv uc (ByIds tried))) (\<lambda>r.
           case r of Inl x \<Rightarrow> oraise (ConversationWriteRecoveryError tried e x) | Inr _ \<Rightarrow> oraise e) v)"
  using assms by (simp add: conversation_insert_def obind_def split: sum.split option.split)

lemma never_returns: "(case r of Inl x \<Rightarrow> oraise (h x) | Inr _ \<Rightarrow> oraise e) v \<noteq> (Inr y, u)"
  by (cases r) simp_all

lemma conversation_insert_success:
  assumes "honest wv (uc_name uc) content" "inserts_store wv (uc_name uc) content"
    and ok: "checked_conversation cid raw_text segment_texts segment_vectors dvec = Inr (canonical_id, t, sws, diversity)"
    and d: "distinct (map sw_id sws)"
    and run: "conversation_insert wv uc cid raw_text segment_texts segment_vectors dvec s = (Inr x, u)"
  shows "x = canonical_id" "sw \<in> set sws \<Longrightarrow> \<exists>row. content u (sw_id sw) = Some row \<and> segment_row uc canonical_id t sw row"
    "i \<notin> sw_id ` set sws \<Longrightarrow> content u i = content s i"
proof -
  obtain f v where w: "write_segments wv uc canonical_id t diversity [] sws s = (f, v)"
    by fastforce
  have "f = Inr None" "u = v" "x = canonical_id"
    using run unfolding conversation_insert_cases [OF ok w]
    by (auto simp: obind_Inr_iff never_returns split: sum.split_asm option.split_asm)
  with write_segments_success [OF assms(1,2) d, of canonical_id t diversity "[]" s v] w segment_ids_canonical [OF ok]
  show "x = canonical_id" "sw \<in> set sws \<Longrightarrow> \<exists>row. content u (sw_id sw) = Some row \<and> segment_row uc canonical_id t sw row"
    "i \<notin> sw_id ` set sws \<Longrightarrow> content u i = content s i"
    by simp_all
qed

lemma conversation_insert_failure:
  assumes "honest wv (uc_name uc) content"
    and ok: "checked_conversation cid raw_text segment_texts segment_vectors dvec = Inr (canonical_id, t, sws, diversity)"
    and run: "conversation_insert wv uc cid raw_text segment_texts segment_vectors dvec s = (Inl e, u)"
  shows "e = CancelledError \<or> (\<exists>attempted w c. e = ConversationWriteRecoveryError attempted w c)
    \<or> (\<exists>k. 0 < k \<and> k \<le> length sws \<and> (\<forall>i. content u i = (if i \<in> sw_id ` set (take k sws) then None else content s i)))"
proof -
  obtain f v where w: "write_segments wv uc canonical_id t diversity [] sws s = (f, v)"
    by fastforce
  note run = run [unfolded conversation_insert_cases [OF ok w]]
  consider "f = Inl e" | e' tried where "f = Inr (Some (e', tried))"
    using run by (cases f) (auto split: option.split_asm)
  then show ?thesis
  proof cases
    case 1
    then show ?thesis
      using write_segments_error [OF w [unfolded 1]] by simp
  next
    case 2
    obtain k where k: "0 < k" "k \<le> length sws" "tried = map sw_id (take k sws)"
        "\<And>i. i \<notin> sw_id ` set (take k sws) \<Longrightarrow> content v i = content s i"
      using write_segments_failure [OF assms(1) w [unfolded 2]] by auto
    obtain x u' where del: "conversation_verified_delete wv uc (ByIds tried) v = (x, u')"
      by fastforce
    show ?thesis
    proof (cases x)
      case (Inl y)
      with run 2 del show ?thesis
        by (auto simp: obind_def ocatch_def split: if_splits)
    next
      case (Inr report)
      then have u: "u = u'"
        using run 2 del by (auto simp: obind_def ocatch_def)
      have "content u i = (if i \<in> sw_id ` set (take k sws) then None else content s i)" for i
        using verified_delete_removes [OF assms(1) del [unfolded Inr conversation_verified_delete_def], of i] k(4) [of i]
        unfolding u by (auto simp: k(3) split: option.splits)
      with k(1,2) show ?thesis
        by blast
    qed
  qed
qed

text \<open>
  C12 (safety). The arguments are checked before anything is written. On an honest store, and if the segments' hashed ids
  do not collide, a conversation is written whole, one object per segment, and the segments spell its text; or the
  attempted segments are all removed again; or the caller is told, by the recovery error or a cancellation, that the
  removal could not be proved. Other objects are never touched when the call returns or is compensated.
\<close>

theorem conversation_write_whole_or_not:
  assumes "honest wv (uc_name uc) content" "inserts_store wv (uc_name uc) content"
    and "conversation_insert wv uc cid raw_text segment_texts segment_vectors dvec s = (r, u)"
  shows "case checked_conversation cid raw_text segment_texts segment_vectors dvec of
      Inl e \<Rightarrow> r = Inl e \<and> u = s
    | Inr (canonical_id, t, sws, diversity) \<Rightarrow> raw_text = PStr t \<and> concat (map sw_text sws) = t \<and> (distinct (map sw_id sws) \<longrightarrow>
        (case r of
           Inr x \<Rightarrow> x = canonical_id \<and> (\<forall>sw \<in> set sws. \<exists>row. content u (sw_id sw) = Some row \<and> segment_row uc canonical_id t sw row)
             \<and> (\<forall>i. i \<notin> sw_id ` set sws \<longrightarrow> content u i = content s i)
         | Inl e \<Rightarrow> e = CancelledError \<or> (\<exists>attempted w c. e = ConversationWriteRecoveryError attempted w c)
             \<or> (\<exists>k. 0 < k \<and> k \<le> length sws
                  \<and> (\<forall>i. content u i = (if i \<in> sw_id ` set (take k sws) then None else content s i)))))"
proof (cases "checked_conversation cid raw_text segment_texts segment_vectors dvec")
  case (Inl e)
  with assms(3) show ?thesis
    by (simp add: conversation_insert_def obind_def)
next
  case (Inr c)
  obtain canonical_id t sws diversity where c: "c = (canonical_id, t, sws, diversity)"
    by (cases c) auto
  note ok = Inr [unfolded c]
  have "case r of
           Inr x \<Rightarrow> x = canonical_id \<and> (\<forall>sw \<in> set sws. \<exists>row. content u (sw_id sw) = Some row \<and> segment_row uc canonical_id t sw row)
             \<and> (\<forall>i. i \<notin> sw_id ` set sws \<longrightarrow> content u i = content s i)
         | Inl e \<Rightarrow> e = CancelledError \<or> (\<exists>attempted w c. e = ConversationWriteRecoveryError attempted w c)
             \<or> (\<exists>k. 0 < k \<and> k \<le> length sws
                  \<and> (\<forall>i. content u i = (if i \<in> sw_id ` set (take k sws) then None else content s i)))"
    if d: "distinct (map sw_id sws)"
  proof (cases r)
    case (Inl e)
    show ?thesis
      unfolding Inl using conversation_insert_failure [OF assms(1) ok assms(3) [unfolded Inl]] by simp
  next
    case (Inr x)
    show ?thesis
      unfolding Inr using conversation_insert_success [OF assms(1,2) ok d assms(3) [unfolded Inr]] by simp
  qed
  with checked_conversation_Inr [OF ok] show ?thesis
    unfolding ok by simp
qed

section \<open>Example\<close>

lemma prop_of_plain: "distinct (map fst props) \<Longrightarrow> (k, v) \<in> set props \<Longrightarrow> prop_of (map (\<lambda>(k, v). (k, PlainValue v)) props) k = v"
proof -
  assume "distinct (map fst props)" "(k, v) \<in> set props"
  then have "map_of props k = Some v"
    by (rule map_of_is_SomeI)
  moreover have "map_of (map (\<lambda>(k, v). (k, PlainValue v)) props) k = map_option PlainValue (map_of props k)"
    by (simp add: map_of_map)
  ultimately show ?thesis
    by (simp add: prop_of_def)
qed

lemma memory_inserts: "inserts_store memory_store name memory_content"
  unfolding inserts_store_def
proof (intro allI impI)
  fix props :: "(string \<times> pyval) list" and object_id late dv s x t
  assume w: "wv_insert memory_store name props object_id late dv s = (Inr x, t)" "is_canonical object_id" "distinct (map fst props)"
  have "memory_content t object_id = Some (memory_object props object_id late dv)"
    using w(1,2) by (auto simp: memory_store_def memory_content_eq memory_object_def is_canonical_def update_conv')
  moreover have "so_properties (memory_object props object_id late dv) = Some (map (\<lambda>(k, v). (k, PlainValue v)) props)"
    by (simp add: memory_object_def)
  moreover have "\<forall>(k, v) \<in> set props. prop_of (map (\<lambda>(k, v). (k, PlainValue v)) props) k = v"
    using prop_of_plain [OF w(3)] by auto
  ultimately show "\<exists>row stored. memory_content t object_id = Some row \<and> so_properties row = Some stored
      \<and> (\<forall>(k, v) \<in> set props. prop_of stored k = v)"
    by blast
qed

definition demo_conversations :: user_collection where
  "demo_conversations = \<lparr>uc_user = ''u'', uc_name = ''C'', uc_kind = conversation_kind\<rparr>"

definition demo_write :: segment_write where
  "demo_write = \<lparr>sw_index = 0, sw_id = segment_identity demo_document 0, sw_text = ''hi'', sw_vectors = [replicate 128 1]\<rparr>"

lemma demo_checked:
  "checked_conversation (PStr demo_document) (PStr ''hi'') (PList [PStr ''hi'']) (PList [PList [PList (replicate 128 (PInt 1))]]) (PList [PInt 1])
     = Inr (demo_document, ''hi'', [demo_write], [1])"
proof -
  have t: "strip ''hi'' \<noteq> []"
    by code_simp
  have d: "base_uuid_text (PStr demo_document) ''conversation_id'' = Inr demo_document"
    using uuid_canon_render [of 7] by (simp add: base_uuid_text_Inr demo_document_def)
  have "multi_vector (PList [PList (replicate 128 (PInt 1))]) name = Inr [replicate 128 1]" for name
    by (rule flat_vector) (simp_all add: number_item_def)
  then have v: "multi_vector_values (PList [PList (replicate 128 (PInt 1))]) name = Inr [replicate 128 1]" for name
    by (simp add: multi_vector_values_def lateon_dimension_def)
  show ?thesis
    using t by (simp add: checked_conversation_def d required_text_def sequence_of_def v vector_def number_item_def
        segment_writes_def demo_write_def)
qed

lemma demo_insert:
  "\<exists>u. conversation_insert memory_store demo_conversations (PStr demo_document) (PStr ''hi'') (PList [PStr ''hi''])
     (PList [PList [PList (replicate 128 (PInt 1))]]) (PList [PInt 1]) [] = (Inr demo_document, u)"
proof -
  have "is_canonical (sw_id demo_write)"
    using segment_ids_canonical [OF demo_checked, of demo_write] by simp
  from base_uuid_text_canonical [OF this] have "write_segment memory_store demo_conversations demo_document ''hi'' [1] demo_write s
      = (Inr (), AList.update (sw_id demo_write) (memory_object
          [(''user_id'', PStr (uc_user demo_conversations)), (''conversation_id'', PStr demo_document), (''segment_id'', PStr (sw_id demo_write)),
           (''segment_index'', PInt (int (sw_index demo_write))), (''raw_text'', PStr ''hi''), (''segment_text'', PStr (sw_text demo_write))]
          (sw_id demo_write) (sw_vectors demo_write) [1]) s)" for s
    by (simp add: write_segment_def memory_store_def obind_def)
  then show ?thesis
    by (simp add: conversation_insert_def demo_checked obind_def ocatch_def)
qed

theorem conversation_write_whole_or_not_witness:
  "\<exists>u row. conversation_insert memory_store demo_conversations (PStr demo_document) (PStr ''hi'') (PList [PStr ''hi''])
     (PList [PList [PList (replicate 128 (PInt 1))]]) (PList [PInt 1]) [] = (Inr demo_document, u)
   \<and> memory_content u (segment_identity demo_document 0) = Some row \<and> row_of_user ''u'' row"
proof -
  obtain u where run: "conversation_insert memory_store demo_conversations (PStr demo_document) (PStr ''hi'') (PList [PStr ''hi''])
     (PList [PList [PList (replicate 128 (PInt 1))]]) (PList [PInt 1]) [] = (Inr demo_document, u)"
    using demo_insert by blast
  obtain row where "memory_content u (sw_id demo_write) = Some row" "segment_row demo_conversations demo_document ''hi'' demo_write row"
    using conversation_write_whole_or_not [OF memory_honest memory_inserts run] unfolding demo_checked by auto
  then have "memory_content u (segment_identity demo_document 0) = Some row" "row_of_user ''u'' row"
    by (simp_all add: segment_row_def demo_write_def demo_conversations_def)
  with run show ?thesis
    by blast
qed

end
