(* ===== verification/Embedder.thy ===== *)
theory Embedder
  imports Conversation_Store
begin

text \<open>
  \<open>backend/rag/embedder.py\<close> over the capabilities of \<open>RAGRuntime\<close> (\<open>backend/rag/runtime.py\<close>): the checks of what
  the embedding providers and the segmenter answer, and the write of a complete conversation. A provider is an
  operation on a state \<open>'st\<close> about which nothing is assumed, whose answer is a dynamic value. Trace counters and
  digests are left out.
\<close>

section \<open>The capabilities\<close>

text \<open>A \<open>ConversationPair\<close> of \<open>query_rewrite_contract.py\<close>, which the rewriting model gets beside its prompt.\<close>

record conversation_pair =
  cp_object :: string
  cp_question :: string
  cp_answer :: string

text \<open>The work the pipeline puts on the background queue: the arguments of \<open>embed_conversation\<close>.\<close>

record conversation_work =
  cw_user :: string
  cw_conversation :: string
  cw_question :: string
  cw_answer :: string

type_synonym 'st conversation_writer =
  "string \<Rightarrow> string \<Rightarrow> string list \<Rightarrow> real list list list \<Rightarrow> real list \<Rightarrow> ('st, string) op"

text \<open>
  \<open>rr_complete\<close> gets the prompt with its structured part. \<open>rr_stream\<close> opens the answer stream and says whether it is
  an asynchronous iterator, \<open>rr_next\<close> awaits its next chunk, \<open>None\<close> at its end. \<open>rr_enqueue\<close> is the queue, if there is
  one: a user, the name of the operation and the work.
\<close>

record 'st rag_runtime =
  rr_complete :: "string \<Rightarrow> string \<Rightarrow> conversation_pair list \<Rightarrow> ('st, pyval) op"
  rr_stream :: "string \<Rightarrow> ('st, bool) op"
  rr_next :: "('st, pyval option) op"
  rr_embed :: "string \<Rightarrow> ('st, pyval) op"
  rr_embed_many :: "string list \<Rightarrow> ('st, pyval) op"
  rr_encode_query :: "string \<Rightarrow> ('st, pyval) op"
  rr_encode_documents :: "string list \<Rightarrow> ('st, pyval) op"
  rr_segment :: "string \<Rightarrow> ('st, pyval) op"
  rr_conversations :: "string \<Rightarrow> ('st, 'st conversation_writer) op"
  rr_enqueue :: "(string \<Rightarrow> string \<Rightarrow> conversation_work \<Rightarrow> ('st, string) op) option"
  rr_tokenizer :: tokenizer

section \<open>Checked answers\<close>

definition embedding_number :: "pyval \<Rightarrow> real res" where
  "embedding_number item =
     (case item of
        PBool _ \<Rightarrow> Inl (TypeError ''embedding vectors must contain only numbers'')
      | _ \<Rightarrow>
          (case py_float_value item of
             Inl _ \<Rightarrow> Inl (TypeError ''embedding vectors must contain only numbers'')
           | Inr (Fin x) \<Rightarrow> Inr x
           | Inr _ \<Rightarrow> Inl (ValueError ''embedding vector values must be finite'')))"

definition validated_vector :: "pyval \<Rightarrow> real list res" where
  "validated_vector v =
     rbind (sequence_of v ''embedding provider must return a sequence of numbers'') (\<lambda>items.
     rbind (rmap embedding_number items) (\<lambda>xs.
     if xs = [] then Inl (ValueError ''embedding vectors must not be empty'') else Inr xs))"

definition validated_multi_vector :: "pyval \<Rightarrow> real list list res" where
  "validated_multi_vector v =
     rbind (sequence_of v ''multi-vector provider must return a sequence of vectors'') (\<lambda>items.
     rbind (rmap validated_vector items) (\<lambda>rows.
     if rows = [] then Inl (ValueError ''multi-vector provider must not return an empty matrix'')
     else if length (remdups (map length rows)) \<noteq> 1
     then Inl (ValueError ''multi-vector rows must have consistent dimensions'')
     else if int (length (hd rows)) \<noteq> lateon_dimension
     then Inl (ValueError ''LateOn multi-vector rows must have exactly 128 dimensions'')
     else Inr rows))"

definition encode_query :: "'st rag_runtime \<Rightarrow> pyval \<Rightarrow> ('st, real list list) op" where
  "encode_query rt v =
     obind (olift (required_text v ''text'')) (\<lambda>t.
     obind (rr_encode_query rt t) (\<lambda>raw. olift (validated_multi_vector raw)))"

definition checked_matrices :: "nat \<Rightarrow> pyval \<Rightarrow> real list list list res" where
  "checked_matrices n raw =
     rbind (sequence_of raw ''multi-vector provider must return a sequence of matrices'') (\<lambda>items.
     if length items \<noteq> n then Inl (ValueError ''multi-vector provider returned the wrong document count'')
     else
       rbind (rmap validated_multi_vector items) (\<lambda>matrices.
       if length (remdups (map length (concat matrices))) \<noteq> 1
       then Inl (ValueError ''document multi-vectors must have consistent dimensions'')
       else Inr matrices))"

definition encode_documents :: "'st rag_runtime \<Rightarrow> pyval \<Rightarrow> ('st, real list list list) op" where
  "encode_documents rt texts =
     obind (olift (sequence_of texts ''texts must be a sequence of strings'')) (\<lambda>items.
     obind (olift (rmap (\<lambda>t. required_text t ''document'') items)) (\<lambda>validated.
     if validated = [] then oret []
     else obind (rr_encode_documents rt validated) (\<lambda>raw. olift (checked_matrices (length validated) raw))))"

definition checked_segments :: "string \<Rightarrow> pyval \<Rightarrow> string list res" where
  "checked_segments canonical raw =
     rbind (sequence_of raw ''conversation segmenter must return a sequence of strings'') (\<lambda>items.
     rbind (rmap (\<lambda>item. required_text item ''conversation segment'') items) (\<lambda>segments.
     if segments = [] then Inl (ValueError ''conversation segmenter must return at least one segment'')
     else if concat segments \<noteq> canonical
     then Inl (ValueError ''conversation segments must reconstruct canonical text exactly'')
     else Inr segments))"

definition conversation_segments :: "'st rag_runtime \<Rightarrow> pyval \<Rightarrow> ('st, string list) op" where
  "conversation_segments rt v =
     obind (olift (required_text v ''text'')) (\<lambda>canonical.
     obind (rr_segment rt canonical) (\<lambda>raw. olift (checked_segments canonical raw)))"

definition embed_text :: "'st rag_runtime \<Rightarrow> pyval \<Rightarrow> ('st, real list) op" where
  "embed_text rt v =
     obind (olift (required_text v ''text'')) (\<lambda>t.
     obind (rr_embed rt t) (\<lambda>raw. olift (validated_vector raw)))"

definition checked_vectors :: "nat \<Rightarrow> pyval \<Rightarrow> real list list res" where
  "checked_vectors n raw =
     rbind (sequence_of raw ''embedding provider must return a sequence of vectors'') (\<lambda>items.
     if length items \<noteq> n then Inl (ValueError ''embedding provider returned the wrong number of vectors'')
     else
       rbind (rmap validated_vector items) (\<lambda>vectors.
       if length (remdups (map length vectors)) \<noteq> 1
       then Inl (ValueError ''embedding vectors must have consistent dimensions'')
       else Inr vectors))"

definition embed_chunks :: "'st rag_runtime \<Rightarrow> pyval \<Rightarrow> ('st, real list list) op" where
  "embed_chunks rt chunks =
     (case chunks of
        PList items \<Rightarrow>
          obind (olift (rmap (\<lambda>t. required_text t ''chunk'') items)) (\<lambda>texts.
          if texts = [] then oret []
          else obind (rr_embed_many rt texts) (\<lambda>raw. olift (checked_vectors (length texts) raw)))
      | _ \<Rightarrow> oraise (TypeError ''chunks must be a list''))"

section \<open>Writing a conversation\<close>

text \<open>
  \<open>asyncio.gather\<close> of two threads. Both run; \<open>second\<close> says that the second one ends first, so that its failure is the
  one that counts. The state of the services is passed from one to the other.
\<close>

definition settled :: "('s, 'a) op \<Rightarrow> ('s, 'a res) op" where
  "settled m = (\<lambda>s. case m s of (r, t) \<Rightarrow> (Inr r, t))"

definition gather :: "bool \<Rightarrow> ('s, 'a) op \<Rightarrow> ('s, 'b) op \<Rightarrow> ('s, 'a \<times> 'b) op" where
  "gather second m n =
     (if second
      then obind (settled n) (\<lambda>y. obind (settled m) (\<lambda>x. olift (rbind y (\<lambda>b. rbind x (\<lambda>a. Inr (a, b))))))
      else obind (settled m) (\<lambda>x. obind (settled n) (\<lambda>y. olift (rbind x (\<lambda>a. rbind y (\<lambda>b. Inr (a, b)))))))"

definition question_prefix :: string where "question_prefix = ''Question:'' @ [CHR 0x0A]"

definition answer_separator :: string where
  "answer_separator = [CHR 0x0A, CHR 0x0A] @ ''Answer:'' @ [CHR 0x0A]"

definition conversation_text :: "string \<Rightarrow> string \<Rightarrow> string" where
  "conversation_text question answer = question_prefix @ question @ answer_separator @ answer"

definition strings :: "string list \<Rightarrow> pyval" where "strings ts = PList (map PStr ts)"

definition embed_conversation ::
    "'st rag_runtime \<Rightarrow> user_pattern \<Rightarrow> bool \<Rightarrow> pyval \<Rightarrow> pyval \<Rightarrow> pyval \<Rightarrow> pyval \<Rightarrow> ('st, unit) op" where
  "embed_conversation rt pat second user_id cid question answer =
     obind (olift (validated_user_id pat user_id)) (\<lambda>user.
     obind (olift (required_uuid cid ''conversation_id'')) (\<lambda>conversation.
     obind (olift (required_text question ''question'')) (\<lambda>q.
     obind (olift (required_text answer ''answer'')) (\<lambda>a.
     let t = conversation_text q a in
     obind (conversation_segments rt (PStr t)) (\<lambda>segments.
     obind (gather second (encode_documents rt (strings segments)) (embed_text rt (PStr t))) (\<lambda>(vectors, diversity).
     obind (rr_conversations rt user) (\<lambda>write.
     obind (write conversation t segments vectors diversity) (\<lambda>_. oret ()))))))))"

text \<open>\<open>embed_conversation_background\<close>: the check at the call, and what its task runs.\<close>

definition embed_conversation_background ::
    "'st rag_runtime \<Rightarrow> user_pattern \<Rightarrow> bool \<Rightarrow> pyval \<Rightarrow> pyval \<Rightarrow> pyval \<Rightarrow> pyval \<Rightarrow> ('st, unit) op res" where
  "embed_conversation_background rt pat second user_id cid question answer =
     rbind (required_uuid cid ''conversation_id'') (\<lambda>conversation.
     Inr (embed_conversation rt pat second user_id (PStr conversation) question answer))"

text \<open>The collection the factory of the application opens for a user, as a writer.\<close>

definition writer_of :: "'st weaviate \<Rightarrow> user_collection \<Rightarrow> 'st conversation_writer" where
  "writer_of wv uc conversation t segments vectors diversity =
     conversation_insert wv uc (PStr conversation) (PStr t) (strings segments)
       (PList (map rows_value vectors)) (PList (map (\<lambda>x. PFloat (Fin x)) diversity))"

definition opened_writer :: "'st weaviate \<Rightarrow> user_pattern \<Rightarrow> string \<Rightarrow> ('st, 'st conversation_writer) op" where
  "opened_writer wv pat user =
     olift (rbind (open_user_collection pat (PStr user) conversations) (\<lambda>uc. Inr (writer_of wv uc)))"

section \<open>What the checks promise\<close>

lemma validated_vector_Inr: "validated_vector v = Inr xs \<Longrightarrow> xs \<noteq> []"
  by (auto simp: validated_vector_def rbind_Inr_iff split: if_splits)

lemma validated_multi_vector_plain:
  assumes "validated_multi_vector v = Inr rows"
  shows "multi_vector_values (rows_value rows) name = Inr rows"
proof -
  obtain items where r: "rmap validated_vector items = Inr rows" "rows \<noteq> []" "length (remdups (map length rows)) = 1"
      "int (length (hd rows)) = lateon_dimension"
    using assms by (auto simp: validated_multi_vector_def rbind_Inr_iff split: if_splits)
  have "\<forall>row \<in> set rows. row \<noteq> []"
    using rmap_Inr_set [OF r(1)] validated_vector_Inr by blast
  from rows_plain [OF r(2) this r(3,4)] show ?thesis .
qed

lemma checked_matrices_Inr:
  assumes "checked_matrices n raw = Inr ms"
  shows "length ms = n" "\<forall>m \<in> set ms. multi_vector_values (rows_value m) name = Inr m" "length (remdups (map length (concat ms))) = 1"
proof -
  obtain items where r: "length items = n" "rmap validated_multi_vector items = Inr ms" "length (remdups (map length (concat ms))) = 1"
    using assms by (auto simp: checked_matrices_def rbind_Inr_iff split: if_splits)
  then show "length ms = n" "\<forall>m \<in> set ms. multi_vector_values (rows_value m) name = Inr m" "length (remdups (map length (concat ms))) = 1"
    using rmap_Inr_length rmap_Inr_set [OF r(2)] validated_multi_vector_plain by fastforce+
qed

lemma rmap_required_strings: "rmap (\<lambda>v. required_text v name) (map PStr ts) = Inr xs \<longleftrightarrow> xs = ts \<and> (\<forall>t \<in> set ts. strip t \<noteq> [])"
  by (induction ts arbitrary: xs) (auto simp: rbind_Inr_iff required_text_Inr)

lemma sequence_of_strings [simp]: "sequence_of (strings ts) m = Inr (map PStr ts)"
  by (simp add: sequence_of_def strings_def)

lemma sequence_of_list [simp]: "sequence_of (PList xs) m = Inr xs"
  by (simp add: sequence_of_def)

lemma encode_documents_Inr:
  assumes "encode_documents rt (strings ts) s = (Inr ms, t)" "ts \<noteq> []"
  shows "length ms = length ts" "\<forall>m \<in> set ms. multi_vector_values (rows_value m) name = Inr m"
    "length (remdups (map length (concat ms))) = 1"
proof -
  obtain raw where "checked_matrices (length ts) raw = Inr ms"
    using assms by (auto simp: encode_documents_def obind_Inr_iff rmap_required_strings split: if_splits)
  from checked_matrices_Inr [OF this]
  show "length ms = length ts" "\<forall>m \<in> set ms. multi_vector_values (rows_value m) name = Inr m"
    "length (remdups (map length (concat ms))) = 1"
    by blast+
qed

lemma conversation_segments_Inr:
  assumes "conversation_segments rt (PStr t) s = (Inr segments, u)"
  shows "strip t \<noteq> []" "segments \<noteq> []" "concat segments = t" "\<forall>x \<in> set segments. strip x \<noteq> []"
proof -
  obtain raw where r: "strip t \<noteq> []" "checked_segments t raw = Inr segments"
    using assms by (auto simp: conversation_segments_def obind_Inr_iff required_text_Inr)
  obtain items where i: "rmap (\<lambda>item. required_text item ''conversation segment'') items = Inr segments" "segments \<noteq> []" "concat segments = t"
    using r(2) by (auto simp: checked_segments_def rbind_Inr_iff split: if_splits)
  show "strip t \<noteq> []" "segments \<noteq> []" "concat segments = t" "\<forall>x \<in> set segments. strip x \<noteq> []"
    using r(1) i(2,3) rmap_Inr_set [OF i(1)] by (auto simp: required_text_Inr)
qed

lemma embed_text_Inr: "embed_text rt v s = (Inr xs, t) \<Longrightarrow> xs \<noteq> []"
  using validated_vector_Inr by (auto simp: embed_text_def obind_Inr_iff)

lemma rmap_rows:
  "\<forall>m \<in> set ms. multi_vector_values (rows_value m) name = Inr m \<Longrightarrow>
     rmap (\<lambda>item. multi_vector_values item name) (map rows_value ms) = Inr ms"
  by (induction ms) simp_all

lemma checked_arguments:
  assumes "is_canonical c" "strip t \<noteq> []" "segments \<noteq> []" "concat segments = t" "\<forall>x \<in> set segments. strip x \<noteq> []"
    and "length ms = length segments" "\<And>name. \<forall>m \<in> set ms. multi_vector_values (rows_value m) name = Inr m"
    and "length (remdups (map length (concat ms))) = 1" "xs \<noteq> []"
  shows "checked_conversation (PStr c) (PStr t) (strings segments) (PList (map rows_value ms)) (PList (map (\<lambda>x. PFloat (Fin x)) xs))
    = Inr (c, t, segment_writes c segments ms, xs)"
proof -
  have "rmap (\<lambda>item. required_text item ''segment_text'') (map PStr segments) = Inr segments"
    using assms(5) by (simp add: rmap_required_strings)
  moreover have "required_text (PStr t) ''raw_text'' = Inr t"
    using assms(2) by (simp add: required_text_def)
  ultimately show ?thesis
    using assms(1,3,4,6-9) by (simp add: checked_conversation_def base_uuid_text_canonical rmap_rows vector_plain)
qed

lemma gather_Inr:
  "gather second m n s = (Inr (x, y), u) \<longleftrightarrow>
     (if second then \<exists>t. n s = (Inr y, t) \<and> m t = (Inr x, u) else \<exists>t. m s = (Inr x, t) \<and> n t = (Inr y, u))"
  by (auto simp: gather_def settled_def obind_def rbind_Inr_iff split: prod.splits sum.splits)

text \<open>
  C25 (type). What the embedder hands to the conversation store is what the store accepts: for any answers of the
  segmenter and the providers that pass the embedder's checks, the checks of \<open>insert\<close> succeed, with exactly the given
  text, segments and vectors. A conversation is never refused after it has been embedded.
\<close>

theorem conversation_arguments_accepted:
  assumes "conversation_segments rt (PStr t) s1 = (Inr segments, u1)" "is_canonical c"
    and "gather second (encode_documents rt (strings segments)) (embed_text rt (PStr t)) s2 = (Inr (vectors, diversity), u2)"
  shows "checked_conversation (PStr c) (PStr t) (strings segments) (PList (map rows_value vectors))
      (PList (map (\<lambda>x. PFloat (Fin x)) diversity)) = Inr (c, t, segment_writes c segments vectors, diversity)"
proof -
  note seg = conversation_segments_Inr [OF assms(1)]
  obtain s3 u3 s4 u4 where e: "encode_documents rt (strings segments) s3 = (Inr vectors, u3)" "embed_text rt (PStr t) s4 = (Inr diversity, u4)"
    using assms(3) unfolding gather_Inr by (auto split: if_splits)
  show ?thesis
    by (rule checked_arguments [OF assms(2) seg encode_documents_Inr [OF e(1) seg(2)] embed_text_Inr [OF e(2)]])
qed

text \<open>Capabilities that answer plainly, over the writers and the queue of a demonstration.\<close>

definition demo_runtime :: "('st, pyval option) op \<Rightarrow> (string \<Rightarrow> ('st, 'st conversation_writer) op) \<Rightarrow> 'st rag_runtime" where
  "demo_runtime next_chunk writer =
     \<lparr>rr_complete = (\<lambda>_ query _. oret (PStr query)), rr_stream = (\<lambda>_. oret True), rr_next = next_chunk,
      rr_embed = (\<lambda>_. oret (PList [PInt 1])), rr_embed_many = (\<lambda>ts. oret (PList (map (\<lambda>_. PList [PInt 1]) ts))),
      rr_encode_query = (\<lambda>_. oret (PList [PList (replicate 128 (PInt 1))])),
      rr_encode_documents = (\<lambda>ts. oret (PList (map (\<lambda>_. PList [PList (replicate 128 (PInt 1))]) ts))),
      rr_segment = (\<lambda>t. oret (PList [PStr t])), rr_conversations = writer,
      rr_enqueue = Some (\<lambda>_ _ _. oret ''task''), rr_tokenizer = (\<lambda>_. 1)\<rparr>"

lemma demo_vectors: "rmap embedding_number (replicate n (PInt 1)) = Inr (replicate n 1)"
  by (induction n) (simp_all add: embedding_number_def)

lemma demo_matrix: "validated_multi_vector (PList [PList (replicate 128 (PInt 1))]) = Inr [replicate 128 1]"
  by (simp add: validated_multi_vector_def validated_vector_def demo_vectors lateon_dimension_def del: replicate.simps)

lemma demo_embedded:
  assumes "strip t \<noteq> []"
  shows "conversation_segments (demo_runtime nc wr) (PStr t) s = (Inr [t], s)"
    "gather second (encode_documents (demo_runtime nc wr) (strings [t])) (embed_text (demo_runtime nc wr) (PStr t)) s
       = (Inr ([[replicate 128 1]], [1]), s)"
proof -
  show "conversation_segments (demo_runtime nc wr) (PStr t) s = (Inr [t], s)"
    using assms by (simp add: conversation_segments_def demo_runtime_def obind_def required_text_def checked_segments_def)
  have "encode_documents (demo_runtime nc wr) (strings [t]) s = (Inr [[replicate 128 1]], s)"
    using assms by (simp add: encode_documents_def demo_runtime_def obind_def required_text_def checked_matrices_def demo_matrix del: replicate.simps)
  moreover have "embed_text (demo_runtime nc wr) (PStr t) s = (Inr [1], s)"
    using assms by (simp add: embed_text_def demo_runtime_def obind_def required_text_def validated_vector_def embedding_number_def)
  ultimately show "gather second (encode_documents (demo_runtime nc wr) (strings [t])) (embed_text (demo_runtime nc wr) (PStr t)) s
       = (Inr ([[replicate 128 1]], [1]), s)"
    by (simp add: gather_Inr)
qed

theorem conversation_arguments_accepted_witness:
  "\<forall>nc wr s. conversation_segments (demo_runtime nc wr) (PStr ''Hi'') s = (Inr [''Hi''], (s :: unit)) \<and>
     checked_conversation (PStr demo_document) (PStr ''Hi'') (strings [''Hi'']) (PList (map rows_value [[replicate 128 1]]))
       (PList (map (\<lambda>x. PFloat (Fin x)) [1])) = Inr (demo_document, ''Hi'', segment_writes demo_document [''Hi''] [[replicate 128 1]], [1])"
proof (intro allI)
  fix nc and wr :: "string \<Rightarrow> (unit, unit conversation_writer) op" and s :: unit
  have hi: "strip ''Hi'' \<noteq> []"
    by code_simp
  have c: "is_canonical demo_document"
    by (simp add: is_canonical_def demo_document_def uuid_canon_render)
  note e = demo_embedded [OF hi, where nc = nc and wr = wr and s = s] c
  show "conversation_segments (demo_runtime nc wr) (PStr ''Hi'') s = (Inr [''Hi''], s) \<and>
     checked_conversation (PStr demo_document) (PStr ''Hi'') (strings [''Hi'']) (PList (map rows_value [[replicate 128 1]]))
       (PList (map (\<lambda>x. PFloat (Fin x)) [1])) = Inr (demo_document, ''Hi'', segment_writes demo_document [''Hi''] [[replicate 128 1]], [1])"
    using e(1) conversation_arguments_accepted [OF e(1,3,2)] by blast
qed

end
