(* ===== verification/Rag_Pipeline.thy ===== *)
theory Rag_Pipeline
  imports Query_Rewrite
begin

text \<open>
  \<open>backend/rag/pipeline.py\<close> and the streaming half of \<open>backend/rag/generator.py\<close>: one question through embedding,
  retrieval, rewriting, retrieval again, the prompt and the answer stream, and the background work that stores the
  conversation. \<open>run_rag_pipeline\<close> is an asynchronous generator: a run is a state machine whose steps are the code
  between two suspension points, and the caller may drop it whenever it has just been given a chunk. Timings and trace
  counters are left out; two threads of one \<open>gather\<close> run one after the other, in either order.
\<close>

section \<open>The collections of a user\<close>

text \<open>A collection object: the attributes \<open>user_id\<close> and \<open>collection_type\<close>, and what \<open>retrieve\<close> does with it.\<close>

record 'st collection_client =
  cc_user :: pyval
  cc_type :: pyval
  cc_env :: "'st retrieval_env"

record 'st retrieval_collections =
  rl_user :: string
  rl_conversations :: "'st collection_client"
  rl_knowledge :: "'st collection_client"
  rl_policy :: "'st collection_client"

definition validated_collection :: "'st collection_client \<Rightarrow> string \<Rightarrow> string \<Rightarrow> string \<Rightarrow> unit res" where
  "validated_collection c name user collection_type =
     (if cc_user c \<noteq> PStr user then Inl (ValueError (name @ '' must be bound to user_id '' @ py_repr user))
      else if cc_type c \<noteq> PStr collection_type
      then Inl (ValueError (name @ '' collection_type must be '' @ py_repr collection_type))
      else Inr ())"

definition user_retrieval_collections ::
    "user_pattern \<Rightarrow> pyval \<Rightarrow> 'st collection_client \<Rightarrow> 'st collection_client \<Rightarrow> 'st collection_client
     \<Rightarrow> 'st retrieval_collections res" where
  "user_retrieval_collections pat user_id c k p =
     rbind (validated_user_id pat user_id) (\<lambda>user.
     rbind (validated_collection c ''conversations'' user ''conversations'') (\<lambda>_.
     rbind (validated_collection k ''knowledge_facts'' user ''knowledge_facts'') (\<lambda>_.
     rbind (validated_collection p ''policy'' user ''policy'') (\<lambda>_.
     Inr \<lparr>rl_user = user, rl_conversations = c, rl_knowledge = k, rl_policy = p\<rparr>))))"

section \<open>From the question to the prompt\<close>

text \<open>A result of \<open>retrieve\<close> as the dictionary the next stages read.\<close>

definition result_value :: "final_result \<Rightarrow> pyval" where
  "result_value r =
     PDict ([(PStr ''object_id'', PStr (fr_object r)), (PStr ''raw_text'', PStr (fr_raw r))]
       @ (case fr_score r of None \<Rightarrow> [] | Some x \<Rightarrow> [(PStr ''rerank_score'', PFloat (Fin x))]))"

definition results_value :: "final_result list \<Rightarrow> pyval" where
  "results_value rs = PList (map result_value rs)"

text \<open>The two retrievals for the answer, and the prompt they give.\<close>

definition grounded_prompt ::
    "'st rag_runtime \<Rightarrow> model_config \<Rightarrow> bool \<Rightarrow> 'st retrieval_collections \<Rightarrow> string \<Rightarrow> ('st, string) op" where
  "grounded_prompt rt cfg second cs rewritten =
     obind (encode_query rt (PStr rewritten)) (\<lambda>vector.
     obind (gather second
              (retrieve (cc_env (rl_knowledge cs)) cfg (PStr rewritten) (rows_value vector) ''knowledge_facts'')
              (retrieve (cc_env (rl_policy cs)) cfg (PStr rewritten) (rows_value vector) ''policy'')) (\<lambda>(knowledge, policy).
     olift (rbind (required_text (PStr rewritten) ''rewritten_query'') (\<lambda>query.
       build_budgeted_prompt (mc_budgets cfg) (rr_tokenizer rt) query (results_value knowledge) (results_value policy)))))"

definition rewritten_query ::
    "'st rag_runtime \<Rightarrow> model_config \<Rightarrow> 'st retrieval_collections \<Rightarrow> string \<Rightarrow> ('st, string) op" where
  "rewritten_query rt cfg cs query =
     obind (encode_query rt (PStr query)) (\<lambda>vector.
     obind (retrieve (cc_env (rl_conversations cs)) cfg (PStr query) (rows_value vector) ''conversations'') (\<lambda>past.
     rewrite_query rt (PStr query) (results_value past)))"

definition opened_stream :: "'st rag_runtime \<Rightarrow> string \<Rightarrow> ('st, string) op" where
  "opened_stream rt prompt =
     obind (rr_stream rt prompt) (\<lambda>iterable.
     if iterable then oret prompt else oraise (TypeError ''LLM stream() must return an async iterator''))"

definition checked_question ::
    "user_pattern \<Rightarrow> 'st rag_runtime \<Rightarrow> pyval \<Rightarrow> pyval \<Rightarrow> pyval \<Rightarrow> 'st retrieval_collections \<Rightarrow> (string \<times> string \<times> string) res" where
  "checked_question pat rt user_id cid original_query cs =
     rbind (validated_user_id pat user_id) (\<lambda>user.
     rbind (required_uuid cid ''conversation_id'') (\<lambda>conversation.
     rbind (required_text original_query ''original_query'') (\<lambda>query.
     if rl_user cs \<noteq> user then Inl (ValueError ''collections user_id does not match user_id'')
     else if rr_enqueue rt = None then Inl (RuntimeError ''RAG pipeline requires an observable background queue'')
     else Inr (user, conversation, query))))"

section \<open>The run\<close>

datatype rag_phase =
    NotAsked
  | Pulling
  | Yielded
  | Persisted string
  | RunFailed exc
  | Abandoned

text \<open>\<open>rn_prompt\<close>, \<open>rn_yielded\<close> and \<open>rn_work\<close> record what left the run: the prompt, the chunks, the accepted work.\<close>

record 'st rag_run =
  rn_phase :: rag_phase
  rn_store :: 'st
  rn_user :: string
  rn_conversation :: string
  rn_query :: string
  rn_prompt :: "string option"
  rn_yielded :: "string list"
  rn_work :: "conversation_work list"

definition rag_start :: "'st \<Rightarrow> 'st rag_run" where
  "rag_start s = \<lparr>rn_phase = NotAsked, rn_store = s, rn_user = [], rn_conversation = [], rn_query = [],
     rn_prompt = None, rn_yielded = [], rn_work = []\<rparr>"

record 'st rag_call =
  ra_runtime :: "'st rag_runtime"
  ra_config :: model_config
  ra_pattern :: user_pattern
  ra_user_id :: pyval
  ra_conversation_id :: pyval
  ra_query :: pyval
  ra_collections :: "'st retrieval_collections"

definition asked :: "'st rag_call \<Rightarrow> bool \<Rightarrow> ('st, string \<times> string \<times> string \<times> string) op" where
  "asked call second =
     (let rt = ra_runtime call; cfg = ra_config call; cs = ra_collections call in
      obind (olift (checked_question (ra_pattern call) rt (ra_user_id call) (ra_conversation_id call) (ra_query call) cs))
        (\<lambda>(user, conversation, query).
      obind (rewritten_query rt cfg cs query) (\<lambda>rewritten.
      obind (grounded_prompt rt cfg second cs rewritten) (\<lambda>prompt.
      obind (opened_stream rt prompt) (\<lambda>_. oret (user, conversation, query, prompt))))))"

definition rag_begin :: "'st rag_call \<Rightarrow> bool \<Rightarrow> 'st rag_run \<Rightarrow> 'st rag_run" where
  "rag_begin call second r =
     (case asked call second (rn_store r) of
        (Inl e, s) \<Rightarrow> r\<lparr>rn_phase := RunFailed e, rn_store := s\<rparr>
      | (Inr (user, conversation, query, prompt), s) \<Rightarrow>
          r\<lparr>rn_phase := Pulling, rn_store := s, rn_user := user, rn_conversation := conversation, rn_query := query,
            rn_prompt := Some prompt\<rparr>)"

text \<open>The end of the stream: the work is put on the queue, for a complete answer only.\<close>

definition run_work :: "'st rag_run \<Rightarrow> conversation_work" where
  "run_work r = \<lparr>cw_user = rn_user r, cw_conversation = rn_conversation r, cw_question = rn_query r,
     cw_answer = concat (rn_yielded r)\<rparr>"

definition rag_end :: "'st rag_runtime \<Rightarrow> 'st rag_run \<Rightarrow> 'st rag_run" where
  "rag_end rt r =
     (if strip (concat (rn_yielded r)) = []
      then r\<lparr>rn_phase := RunFailed (ValueError ''answer stream completed without a non-empty answer'')\<rparr>
      else (case rr_enqueue rt of
              None \<Rightarrow> r\<lparr>rn_phase := RunFailed (RuntimeError ''RAG pipeline requires an observable background queue'')\<rparr>
            | Some enqueue \<Rightarrow>
                (case enqueue (rn_user r) ''embed_conversation'' (run_work r) (rn_store r) of
                   (Inl e, s) \<Rightarrow> r\<lparr>rn_phase := RunFailed e, rn_store := s\<rparr>
                 | (Inr task_id, s) \<Rightarrow>
                     r\<lparr>rn_phase := Persisted task_id, rn_store := s, rn_work := rn_work r @ [run_work r]\<rparr>)))"

text \<open>One chunk of the stream. An empty one is not passed on.\<close>

definition rag_pull :: "'st rag_runtime \<Rightarrow> 'st rag_run \<Rightarrow> 'st rag_run" where
  "rag_pull rt r =
     (case rr_next rt (rn_store r) of
        (Inl e, s) \<Rightarrow> r\<lparr>rn_phase := RunFailed e, rn_store := s\<rparr>
      | (Inr None, s) \<Rightarrow> rag_end rt (r\<lparr>rn_store := s\<rparr>)
      | (Inr (Some chunk), s) \<Rightarrow>
          (case chunk of
             PStr t \<Rightarrow> if t = [] then r\<lparr>rn_store := s\<rparr>
                       else r\<lparr>rn_phase := Yielded, rn_store := s, rn_yielded := rn_yielded r @ [t]\<rparr>
           | _ \<Rightarrow> r\<lparr>rn_phase := RunFailed (TypeError ''LLM stream chunks must be strings''), rn_store := s\<rparr>))"

inductive rag_step :: "'st rag_call \<Rightarrow> 'st rag_run \<Rightarrow> 'st rag_run \<Rightarrow> bool" for call where
  step_begin: "rn_phase r = NotAsked \<Longrightarrow> rag_step call r (rag_begin call second r)"
| step_pull: "rn_phase r = Pulling \<Longrightarrow> rag_step call r (rag_pull (ra_runtime call) r)"
| step_resume: "rn_phase r = Yielded \<Longrightarrow> rag_step call r (r\<lparr>rn_phase := Pulling\<rparr>)"
| step_close: "rn_phase r = Yielded \<Longrightarrow> rag_step call r (r\<lparr>rn_phase := Abandoned\<rparr>)"

inductive_cases rag_stepE: "rag_step call r r'"

section \<open>What a run has done\<close>

lemma asked_Inr:
  assumes "asked call second s = (Inr (user, conversation, query, prompt), t)"
  shows "checked_question (ra_pattern call) (ra_runtime call) (ra_user_id call) (ra_conversation_id call) (ra_query call)
      (ra_collections call) = Inr (user, conversation, query)"
    and "\<exists>rewritten s' t'. grounded_prompt (ra_runtime call) (ra_config call) second (ra_collections call) rewritten s' = (Inr prompt, t')"
  using assms unfolding asked_def Let_def by (auto simp: obind_Inr_iff split: prod.splits)

text \<open>Whether the run has asked the model, and with what.\<close>

definition grounded_run :: "'st rag_call \<Rightarrow> 'st rag_run \<Rightarrow> bool" where
  "grounded_run call r \<longleftrightarrow> (\<exists>prompt second rewritten s t. rn_prompt r = Some prompt
     \<and> grounded_prompt (ra_runtime call) (ra_config call) second (ra_collections call) rewritten s = (Inr prompt, t)
     \<and> checked_question (ra_pattern call) (ra_runtime call) (ra_user_id call) (ra_conversation_id call) (ra_query call)
         (ra_collections call) = Inr (rn_user r, rn_conversation r, rn_query r))"

definition run_ok :: "'st rag_call \<Rightarrow> 'st rag_run \<Rightarrow> bool" where
  "run_ok call r \<longleftrightarrow> (\<forall>c \<in> set (rn_yielded r). c \<noteq> []) \<and>
     (case rn_phase r of
        NotAsked \<Rightarrow> rn_yielded r = [] \<and> rn_work r = [] \<and> rn_prompt r = None
      | RunFailed e \<Rightarrow> rn_work r = [] \<and> (rn_prompt r = None \<or> grounded_run call r)
      | Persisted task_id \<Rightarrow> rn_work r = [run_work r] \<and> strip (concat (rn_yielded r)) \<noteq> [] \<and> grounded_run call r
      | _ \<Rightarrow> rn_work r = [] \<and> grounded_run call r)"

lemma grounded_run_update [simp]:
  "grounded_run call (r\<lparr>rn_phase := p\<rparr>) = grounded_run call r"
  "grounded_run call (r\<lparr>rn_store := s\<rparr>) = grounded_run call r"
  "grounded_run call (r\<lparr>rn_yielded := ys\<rparr>) = grounded_run call r"
  "grounded_run call (r\<lparr>rn_work := ws\<rparr>) = grounded_run call r"
  by (simp_all add: grounded_run_def)

lemma rag_begin_ok:
  assumes "run_ok call r" "rn_phase r = NotAsked"
  shows "run_ok call (rag_begin call second r)"
proof (cases "asked call second (rn_store r)")
  case (Pair q s)
  show ?thesis
  proof (cases q)
    case (Inl e)
    with Pair assms show ?thesis
      by (simp add: rag_begin_def run_ok_def)
  next
    case (Inr a)
    obtain user conversation query prompt where a: "a = (user, conversation, query, prompt)"
      by (cases a) auto
    note as = asked_Inr [OF Pair [unfolded Inr a]]
    have "grounded_run call (rag_begin call second r)"
      using as by (simp add: rag_begin_def Pair Inr a grounded_run_def) blast
    with Pair Inr a assms show ?thesis
      by (simp add: rag_begin_def run_ok_def)
  qed
qed

lemma rag_end_ok:
  assumes "\<forall>c \<in> set (rn_yielded r). c \<noteq> []" "rn_work r = []" "grounded_run call r"
  shows "run_ok call (rag_end rt r)"
  using assms by (auto simp: rag_end_def run_ok_def run_work_def split: option.splits prod.splits sum.splits)

lemma rag_pull_ok:
  assumes "run_ok call r" "rn_phase r = Pulling"
  shows "run_ok call (rag_pull rt r)"
proof -
  have p: "\<forall>c \<in> set (rn_yielded r). c \<noteq> []" "rn_work r = []" "grounded_run call r"
    using assms by (simp_all add: run_ok_def)
  obtain q s where n: "rr_next rt (rn_store r) = (q, s)"
    by fastforce
  show ?thesis
  proof (cases "q = Inr None")
    case True
    with n rag_end_ok [of "r\<lparr>rn_store := s\<rparr>" call rt] p show ?thesis
      by (simp add: rag_pull_def)
  next
    case False
    with n p assms(2) show ?thesis
      by (auto simp: rag_pull_def run_ok_def split: sum.splits option.splits pyval.splits)
  qed
qed

lemma rag_reachable_ok:
  assumes "rtranclp (rag_step call) (rag_start s) r"
  shows "run_ok call r"
  using assms
proof (induction rule: rtranclp_induct)
  case base
  show ?case
    by (simp add: run_ok_def rag_start_def)
next
  case (step r r')
  from step(2) show ?case
  proof (cases rule: rag_step.cases)
    case (step_begin second)
    then show ?thesis
      using rag_begin_ok [OF step.IH] by simp
  next
    case step_pull
    then show ?thesis
      using rag_pull_ok [OF step.IH] by simp
  next
    case step_resume
    then show ?thesis
      using step.IH by (simp add: run_ok_def)
  next
    case step_close
    then show ?thesis
      using step.IH by (simp add: run_ok_def)
  qed
qed

lemma checked_question_Inr:
  assumes "checked_question pat rt user_id cid original_query cs = Inr (user, conversation, query)"
  shows "user_id = PStr user" "rl_user cs = user" "original_query = PStr query" "strip query \<noteq> []"
    "required_uuid cid ''conversation_id'' = Inr conversation" "validated_user_id pat user_id = Inr user"
proof -
  have "validated_user_id pat user_id = Inr user" "required_uuid cid ''conversation_id'' = Inr conversation"
    "required_text original_query ''original_query'' = Inr query" "rl_user cs = user"
    using assms unfolding checked_question_def by (auto simp: rbind_Inr_iff split: if_splits)
  then show "user_id = PStr user" "rl_user cs = user" "original_query = PStr query" "strip query \<noteq> []"
    "required_uuid cid ''conversation_id'' = Inr conversation" "validated_user_id pat user_id = Inr user"
    by (auto simp: required_text_Inr validated_user_id_def rbind_Inr_iff split: pyval.splits)
qed

text \<open>
  C8 (safety). Whatever the services do and whenever the caller drops the stream, a run puts work on the queue only
  when it has ended with the whole of an answer that is not blank, and then exactly once: the validated user, the
  canonical conversation id, the question as it was asked, not as it was rewritten, and the chunks that were passed on,
  in order. A run that fails or is dropped stores nothing, and a run that has ended does nothing more.
\<close>

theorem rag_stores_complete_answers:
  assumes "rtranclp (rag_step call) (rag_start s) r"
  shows "(case rn_phase r of
        Persisted task_id \<Rightarrow> rn_work r = [\<lparr>cw_user = rn_user r, cw_conversation = rn_conversation r, cw_question = rn_query r,
              cw_answer = concat (rn_yielded r)\<rparr>]
          \<and> strip (concat (rn_yielded r)) \<noteq> [] \<and> ra_user_id call = PStr (rn_user r) \<and> ra_query call = PStr (rn_query r)
          \<and> required_uuid (ra_conversation_id call) ''conversation_id'' = Inr (rn_conversation r)
      | _ \<Rightarrow> rn_work r = [])
    \<and> (\<forall>c \<in> set (rn_yielded r). c \<noteq> [])
    \<and> (rn_phase r \<notin> {NotAsked, Pulling, Yielded} \<longrightarrow> (\<forall>r'. \<not> rag_step call r r'))"
proof (intro conjI)
  note ok = rag_reachable_ok [OF assms]
  show "case rn_phase r of
        Persisted task_id \<Rightarrow> rn_work r = [\<lparr>cw_user = rn_user r, cw_conversation = rn_conversation r, cw_question = rn_query r,
              cw_answer = concat (rn_yielded r)\<rparr>]
          \<and> strip (concat (rn_yielded r)) \<noteq> [] \<and> ra_user_id call = PStr (rn_user r) \<and> ra_query call = PStr (rn_query r)
          \<and> required_uuid (ra_conversation_id call) ''conversation_id'' = Inr (rn_conversation r)
      | _ \<Rightarrow> rn_work r = []"
    using ok checked_question_Inr by (auto simp: run_ok_def run_work_def grounded_run_def split: rag_phase.splits)
  show "\<forall>c \<in> set (rn_yielded r). c \<noteq> []"
    using ok by (simp add: run_ok_def)
  show "rn_phase r \<notin> {NotAsked, Pulling, Yielded} \<longrightarrow> (\<forall>r'. \<not> rag_step call r r')"
    by (auto elim: rag_stepE)
qed

section \<open>The prompt shows the user's own rows\<close>

lemma context_item_result: "context_item (result_value r) name = Inr r' \<Longrightarrow> r' = r"
  by (auto simp: context_item_def result_value_def dict_value_def rbind_Inr_iff required_text_Inr item_score_def split: option.splits)

lemma validated_results: "validated_context (results_value rs) name = Inr rs' \<Longrightarrow> rs' = rs"
proof -
  assume "validated_context (results_value rs) name = Inr rs'"
  then have "rmap (\<lambda>item. context_item item name) (map result_value rs) = Inr rs'"
    by (simp add: validated_context_def results_value_def)
  then show ?thesis
    by (induction rs arbitrary: rs') (auto simp: rbind_Inr_iff dest: context_item_result)
qed

lemma set_fitting: "set (fitting tok budget rs) \<subseteq> set rs"
  using fitting_take [where tok = tok and budget = budget and selected = rs] set_take_subset by metis

lemma built_prompt:
  assumes "build_budgeted_prompt cfg tok query (results_value ks) (results_value ps) = Inr prompt"
  shows "token_count prompt tok \<le> bc_total_context_tokens cfg
    \<and> (\<exists>k p. prompt = answer_prompt query k p \<and> set k \<subseteq> set ks \<and> set p \<subseteq> set ps)"
proof -
  obtain ks' ps' k p where r: "validated_context (results_value ks) ''knowledge_facts'' = Inr ks'"
      "validated_context (results_value ps) ''policy_guidelines'' = Inr ps'"
      "budget_results ks' (bc_knowledge_tokens cfg) tok = Inr k" "budget_results ps' (bc_policy_tokens cfg) tok = Inr p"
      "shrink_to_total (bc_total_context_tokens cfg) tok query k p = Inr prompt"
    using assms unfolding build_budgeted_prompt_def render_context_pair_def by (auto simp: rbind_Inr_iff)
  have "ks' = ks" "ps' = ps"
    using validated_results r(1,2) by blast+
  moreover have "k = fitting tok (bc_knowledge_tokens cfg) ks'" "p = fitting tok (bc_policy_tokens cfg) ps'"
    using r(3,4) budget_results_total validated_blank [OF r(1)] validated_blank [OF r(2)] by fastforce+
  ultimately have sub: "set k \<subseteq> set ks" "set p \<subseteq> set ps"
    using set_fitting by blast+
  obtain i j where "token_count prompt tok \<le> bc_total_context_tokens cfg" "prompt = answer_prompt query (take i k) (take j p)"
    using shrink_outcome [where limit = "bc_total_context_tokens cfg" and tok = tok and query = query and knowledge = k and policy = p] r(5)
    by auto
  moreover have "set (take i k) \<subseteq> set ks" "set (take j p) \<subseteq> set ps"
    using sub set_take_subset by fast+
  ultimately show ?thesis
    by blast
qed

text \<open>A collection of the user, as the application makes it: a wrapper of the user's physical collection.\<close>

definition client_of ::
    "'st weaviate \<Rightarrow> hybrid_config \<Rightarrow> (string \<Rightarrow> string list \<Rightarrow> int \<Rightarrow> ('st, rerank_item list option) op) \<Rightarrow> tokenizer \<Rightarrow>
     user_collection \<Rightarrow> string \<Rightarrow> 'st collection_client" where
  "client_of wv hcfg rerank tok uc collection =
     \<lparr>cc_user = PStr (uc_user uc), cc_type = PStr collection, cc_env = user_env wv hcfg uc rerank tok\<rparr>"

text \<open>A result that shows a row of the user, which the store gave for the physical collection \<open>name\<close>.\<close>

definition own_result :: "'st weaviate \<Rightarrow> string \<Rightarrow> string \<Rightarrow> string \<Rightarrow> final_result \<Rightarrow> bool" where
  "own_result wv name user collection x \<longleftrightarrow>
     (\<exists>query vectors n s rows t row. wv_hybrid wv name query vectors n s = (Inr (Some rows), t)
        \<and> row \<in> set rows \<and> row_shows collection user row x)"

lemma retrieve_own_results:
  assumes "open_user_collection pat (PStr user) collection = Inr uc"
    and "retrieve (user_env wv hcfg uc rerank tok) cfg query_text query_vector collection s = (Inr results, s')"
    and "collection_config cfg collection = Some config" "0 \<le> rc_final_count config" "x \<in> set results"
  shows "own_result wv (uc_name uc) user collection x"
proof -
  have "uc_user uc = user"
    using open_collection_parts [OF assms(1)] by simp
  then show ?thesis
    using retrieve_own_rows [OF assms(1-4)] assms(5) unfolding own_result_def by blast
qed

text \<open>
  C5 (safety). The model that answers a user is asked with one prompt: the fixed text, a rewritten query, and facts and
  guidelines each of which is the text of a row that the user owns, read from the user's own physical collection of that
  type. The prompt is within the total token budget. No state of the services, no answer of the store and no earlier
  conversation puts a row of another user into it.
\<close>

theorem rag_prompt_grounded:
  assumes "rtranclp (rag_step call) (rag_start s) r" "rn_prompt r = Some prompt"
    and "rl_knowledge (ra_collections call) = client_of wv hcfg rerank tok k ''knowledge_facts''"
    and "rl_policy (ra_collections call) = client_of wv' hcfg' rerank' tok' p ''policy''"
    and "open_user_collection pat (ra_user_id call) ''knowledge_facts'' = Inr k"
    and "open_user_collection pat (ra_user_id call) ''policy'' = Inr p"
    and "0 \<le> rc_final_count (mc_knowledge (ra_config call))" "0 \<le> rc_final_count (mc_policy (ra_config call))"
  shows "ra_user_id call = PStr (rn_user r)
    \<and> get_collection_name pat (ra_user_id call) (PStr ''knowledge_facts'') = Inr (uc_name k)
    \<and> get_collection_name pat (ra_user_id call) (PStr ''policy'') = Inr (uc_name p)
    \<and> token_count prompt (rr_tokenizer (ra_runtime call)) \<le> bc_total_context_tokens (mc_budgets (ra_config call))
    \<and> (\<exists>rewritten facts guidelines. prompt = answer_prompt rewritten facts guidelines
         \<and> (\<forall>x \<in> set facts. own_result wv (uc_name k) (rn_user r) ''knowledge_facts'' x)
         \<and> (\<forall>x \<in> set guidelines. own_result wv' (uc_name p) (rn_user r) ''policy'' x))"
proof -
  let ?cfg = "ra_config call" and ?tok = "rr_tokenizer (ra_runtime call)"
  have "grounded_run call r"
    using rag_reachable_ok [OF assms(1)] assms(2) by (auto simp: run_ok_def split: rag_phase.splits)
  then obtain second rewritten s1 t1 where
      run: "grounded_prompt (ra_runtime call) ?cfg second (ra_collections call) rewritten s1 = (Inr prompt, t1)"
    and u: "ra_user_id call = PStr (rn_user r)"
    using assms(2) checked_question_Inr(1) unfolding grounded_run_def by fastforce
  obtain qv ks ps q s2 t2 s3 t3 where
      rk: "retrieve (user_env wv hcfg k rerank tok) ?cfg (PStr rewritten) qv ''knowledge_facts'' s2 = (Inr ks, t2)"
    and rp: "retrieve (user_env wv' hcfg' p rerank' tok') ?cfg (PStr rewritten) qv ''policy'' s3 = (Inr ps, t3)"
    and bp: "build_budgeted_prompt (mc_budgets ?cfg) ?tok q (results_value ks) (results_value ps) = Inr prompt"
    using run unfolding grounded_prompt_def assms(3,4) client_of_def
    by (auto simp: obind_Inr_iff rbind_Inr_iff gather_Inr split: if_splits)
  obtain facts guidelines where b: "prompt = answer_prompt q facts guidelines" "set facts \<subseteq> set ks" "set guidelines \<subseteq> set ps"
      "token_count prompt ?tok \<le> bc_total_context_tokens (mc_budgets ?cfg)"
    using built_prompt [OF bp] by blast
  have c: "collection_config ?cfg ''knowledge_facts'' = Some (mc_knowledge ?cfg)" "collection_config ?cfg ''policy'' = Some (mc_policy ?cfg)"
    by (simp_all add: collection_config_def conversations_def)
  have "own_result wv (uc_name k) (rn_user r) ''knowledge_facts'' x" if "x \<in> set facts" for x
    by (rule retrieve_own_results [OF assms(5) [unfolded u] rk c(1) assms(7)]) (use b(2) that in blast)
  moreover have "own_result wv' (uc_name p) (rn_user r) ''policy'' x" if "x \<in> set guidelines" for x
    by (rule retrieve_own_results [OF assms(6) [unfolded u] rp c(2) assms(8)]) (use b(3) that in blast)
  ultimately show ?thesis
    using u b(1,4) open_collection_parts(3) [OF assms(5)] open_collection_parts(3) [OF assms(6)] by blast
qed

section \<open>The answer is remembered\<close>

lemma embed_conversation_Inr:
  assumes "embed_conversation rt pat second (PStr user) (PStr cid) (PStr q) (PStr a) s = (Inr (), u)"
    and "rr_conversations rt = opened_writer wv pat" "open_user_collection pat (PStr user) conversations = Inr uc"
    and "required_uuid (PStr cid) ''conversation_id'' = Inr c"
  shows "\<exists>segments vectors diversity v x.
    checked_conversation (PStr c) (PStr (conversation_text q a)) (strings segments) (PList (map rows_value vectors))
      (PList (map (\<lambda>x. PFloat (Fin x)) diversity)) = Inr (c, conversation_text q a, segment_writes c segments vectors, diversity)
    \<and> conversation_insert wv uc (PStr c) (PStr (conversation_text q a)) (strings segments) (PList (map rows_value vectors))
      (PList (map (\<lambda>x. PFloat (Fin x)) diversity)) v = (Inr x, u)"
proof -
  let ?t = "conversation_text q a"
  obtain user' segments vectors diversity s1 s2 s3 wr x where
      e: "validated_user_id pat (PStr user) = Inr user'" "conversation_segments rt (PStr ?t) s = (Inr segments, s1)"
        "gather second (encode_documents rt (strings segments)) (embed_text rt (PStr ?t)) s1 = (Inr (vectors, diversity), s2)"
        "rr_conversations rt user' s2 = (Inr wr, s3)" "wr c ?t segments vectors diversity s3 = (Inr x, u)"
    using assms(1,4) unfolding embed_conversation_def Let_def by (auto simp: obind_Inr_iff required_text_Inr split: prod.splits)
  have "user' = user"
    using e(1) by (simp add: validated_user_id_def rbind_Inr_iff)
  then have "wr = writer_of wv uc"
    using e(4) assms(2,3) by (simp add: opened_writer_def)
  note run = e(5) [unfolded this writer_of_def]
  note seg = conversation_segments_Inr [OF e(2)]
  obtain s5 u5 s6 u6 where d: "encode_documents rt (strings segments) s5 = (Inr vectors, u5)" "embed_text rt (PStr ?t) s6 = (Inr diversity, u6)"
    using e(3) unfolding gather_Inr by (auto split: if_splits)
  from checked_arguments [OF required_uuid_canonical [OF assms(4)] seg encode_documents_Inr [OF d(1) seg(2)] embed_text_Inr [OF d(2)]]
  show ?thesis
    using run by blast
qed

text \<open>
  C13 (functional). The work of a completed run, when it returns, has stored the conversation: the segments are rows of the
  user's own conversation collection, under the canonical conversation id, and spell the question as asked and exactly
  the answer that was streamed.
\<close>

theorem answered_conversation_is_remembered:
  assumes "rtranclp (rag_step call) (rag_start s0) r" "w \<in> set (rn_work r)"
    and "open_user_collection pat (ra_user_id call) conversations = Inr uc" "rr_conversations rt = opened_writer wv pat"
    and "honest wv (uc_name uc) content" "inserts_store wv (uc_name uc) content"
    and "embed_conversation rt pat second (PStr (cw_user w)) (PStr (cw_conversation w)) (PStr (cw_question w)) (PStr (cw_answer w)) s
      = (Inr (), u)"
  shows "\<exists>sws. concat (map sw_text sws) = conversation_text (rn_query r) (concat (rn_yielded r))
    \<and> map sw_index sws = [0..<length sws] \<and> (\<forall>sw \<in> set sws. sw_id sw = segment_identity (rn_conversation r) (int (sw_index sw)))
    \<and> ra_user_id call = PStr (uc_user uc) \<and> ra_query call = PStr (rn_query r)
    \<and> (distinct (map sw_id sws) \<longrightarrow> (\<forall>sw \<in> set sws. \<exists>row. content u (sw_id sw) = Some row
         \<and> segment_row uc (rn_conversation r) (conversation_text (rn_query r) (concat (rn_yielded r))) sw row))"
proof -
  have g: "grounded_run call r" "w = run_work r"
    using rag_reachable_ok [OF assms(1)] assms(2) by (auto simp: run_ok_def split: rag_phase.splits)
  obtain q where q: "checked_question (ra_pattern call) (ra_runtime call) (ra_user_id call) (ra_conversation_id call) (ra_query call)
         (ra_collections call) = q" "q = Inr (rn_user r, rn_conversation r, rn_query r)"
    using g(1) unfolding grounded_run_def by blast
  note q = checked_question_Inr [OF q(1) [unfolded q(2)]]
  have p: "ra_user_id call = PStr (rn_user r)" "ra_query call = PStr (rn_query r)"
    "required_uuid (ra_conversation_id call) ''conversation_id'' = Inr (rn_conversation r)"
    using q by blast+
  let ?t = "conversation_text (rn_query r) (concat (rn_yielded r))"
  have emb: "embed_conversation rt pat second (PStr (rn_user r)) (PStr (rn_conversation r)) (PStr (rn_query r))
      (PStr (concat (rn_yielded r))) s = (Inr (), u)"
    using assms(7) unfolding g(2) run_work_def by simp
  obtain segments vectors diversity v x where
      ok: "checked_conversation (PStr (rn_conversation r)) (PStr ?t) (strings segments) (PList (map rows_value vectors))
        (PList (map (\<lambda>x. PFloat (Fin x)) diversity)) = Inr (rn_conversation r, ?t, segment_writes (rn_conversation r) segments vectors, diversity)"
    and run: "conversation_insert wv uc (PStr (rn_conversation r)) (PStr ?t) (strings segments) (PList (map rows_value vectors))
        (PList (map (\<lambda>x. PFloat (Fin x)) diversity)) v = (Inr x, u)"
    using embed_conversation_Inr [OF emb assms(4,3) [unfolded p(1)] required_uuid_of_canonical [OF required_uuid_canonical [OF p(3)]]]
    by blast
  show ?thesis
    using checked_conversation_Inr [OF ok] conversation_insert_success(2) [OF assms(5,6) ok _ run] p(1,2)
      open_collection_parts(1) [OF assms(3)] by blast
qed

section \<open>Example\<close>

definition empty_env :: "'st retrieval_env" where
  "empty_env = \<lparr>re_hybrid = (\<lambda>_ _ _. oret (Some [])), re_hydrate = (\<lambda>_. oret (Some [])), re_rerank = (\<lambda>_ _ _. oret (Some [])),
     re_tokenizer = (\<lambda>_. 1)\<rparr>"

definition demo_config :: "model_config \<Rightarrow> model_config" where
  "demo_config cfg = cfg\<lparr>mc_conversation := one_config, mc_knowledge := one_config, mc_policy := one_config,
     mc_budgets := \<lparr>bc_knowledge_tokens = 9, bc_policy_tokens = 9, bc_total_context_tokens = 9\<rparr>\<rparr>"

definition any_user :: user_pattern where "any_user = \<lparr>up_text = [], up_match = \<lambda>_. True\<rparr>"

definition demo_call ::
    "model_config \<Rightarrow> 'st rag_runtime \<Rightarrow> 'st collection_client \<Rightarrow> 'st collection_client \<Rightarrow> 'st collection_client \<Rightarrow> 'st rag_call" where
  "demo_call cfg rt c k p = \<lparr>ra_runtime = rt, ra_config = demo_config cfg, ra_pattern = any_user, ra_user_id = PStr ''u'',
     ra_conversation_id = PStr demo_document, ra_query = PStr ''q'',
     ra_collections = \<lparr>rl_user = ''u'', rl_conversations = c, rl_knowledge = k, rl_policy = p\<rparr>\<rparr>"

definition empty_client :: "string \<Rightarrow> 'st collection_client" where
  "empty_client collection = \<lparr>cc_user = PStr ''u'', cc_type = PStr collection, cc_env = empty_env\<rparr>"

lemma demo_strings: "strip ''q'' = ''q''" "strip ''u'' = ''u''" "strip ''a'' = ''a''" "strip ''policy'' = ''policy''"
    "strip ''conversations'' = ''conversations''" "strip ''knowledge_facts'' = ''knowledge_facts''"
    "lower ''conversations'' = ''conversations''" "lower ''policy'' = ''policy''" "lower ''knowledge_facts'' = ''knowledge_facts''"
  by code_simp+

lemma demo_query_matrix: "multi_vector (rows_value [replicate 128 1]) name = Inr [replicate 128 1]"
  using flat_vector [of "PFloat (Fin 1)" 1 128] by (simp add: rows_value_def number_item_def)

lemma empty_retrieve:
  assumes "re_hybrid env ''q'' [replicate 128 1] 50 s = (Inr (Some []), s)"
    and "collection \<in> {''conversations'', ''knowledge_facts'', ''policy''}"
  shows "retrieve env (demo_config cfg) (PStr ''q'') (rows_value [replicate 128 1]) collection s = (Inr [], s)"
proof -
  have c: "collection_config (demo_config cfg) collection = Some one_config"
    using assms(2) by (auto simp: collection_config_def conversations_def demo_config_def)
  have "relevant one_config collection [] = Inr []"
    by (simp add: relevant_def collapse_conversations_def eligible_candidates_def)
  moreover have "mmr_or_head one_config ([], True) = Inr []"
    by (simp add: mmr_or_head_def mmr_def one_config_def)
  moreover have "finish (demo_config cfg) collection tok [] = Inr []" for tok
    by (simp add: finish_def final_results_def budget_results_def fitting.simps split: option.split)
  moreover have "rc_candidate_count one_config = 50"
    by (simp add: one_config_def)
  moreover have "clean_candidates collection [] = []"
    by (simp add: clean_candidates_def)
  ultimately show ?thesis
    using assms(1) c by (simp add: retrieve_def obind_def required_text_def demo_strings demo_query_matrix
        normalized_candidates_eq cross_encoder_def hydrate_mmr_head_def)
qed

lemma demo_encoded: "encode_query (demo_runtime nc wr) (PStr ''q'') s = (Inr [replicate 128 1], s)"
  by (simp add: encode_query_def demo_runtime_def obind_def required_text_def demo_strings demo_matrix del: replicate.simps)

lemma demo_rewritten:
  assumes "cc_env (rl_conversations cs) = empty_env"
  shows "rewritten_query (demo_runtime nc wr) (demo_config cfg) cs ''q'' s = (Inr ''q'', s)"
proof -
  have "rewrite_query (demo_runtime nc wr) (PStr ''q'') (results_value []) s = (Inr ''q'', s)"
    by (simp add: rewrite_query_def demo_runtime_def obind_def required_text_def demo_strings conversation_context_def
        results_value_def rewritten_text_def)
  moreover have "retrieve empty_env (demo_config cfg) (PStr ''q'') (rows_value [replicate 128 1]) ''conversations'' s = (Inr [], s)"
    by (rule empty_retrieve) (simp_all add: empty_env_def)
  ultimately show ?thesis
    using assms by (simp add: rewritten_query_def obind_def demo_encoded)
qed

lemma validated_plain:
  "\<forall>r \<in> set rs. strip (fr_raw r) \<noteq> [] \<Longrightarrow> validated_context (results_value rs) name = Inr rs"
proof -
  assume "\<forall>r \<in> set rs. strip (fr_raw r) \<noteq> []"
  then have "rmap (\<lambda>item. context_item item name) (map result_value rs) = Inr rs"
    by (induction rs) (auto simp: context_item_def result_value_def dict_value_def required_text_def item_score_def split: option.splits)
  then show ?thesis
    by (simp add: validated_context_def results_value_def)
qed

lemma demo_prompted:
  assumes "cc_env (rl_knowledge cs) = ek" "cc_env (rl_policy cs) = ep"
    and "retrieve ek (demo_config cfg) (PStr ''q'') (rows_value [replicate 128 1]) ''knowledge_facts'' s = (Inr [], s)"
    and "retrieve ep (demo_config cfg) (PStr ''q'') (rows_value [replicate 128 1]) ''policy'' s = (Inr ps, s)"
    and "\<forall>r \<in> set ps. strip (fr_raw r) \<noteq> []"
  shows "grounded_prompt (demo_runtime nc wr) (demo_config cfg) False cs ''q'' s = (Inr (answer_prompt ''q'' [] ps), s)"
proof -
  have f: "fitting (\<lambda>_. Suc 0) 9 rs = rs" for rs
    by (subst fitting.simps) (simp add: token_count_def)
  have "build_budgeted_prompt (mc_budgets (demo_config cfg)) (rr_tokenizer (demo_runtime nc wr)) ''q'' (results_value []) (results_value ps)
      = Inr (answer_prompt ''q'' [] ps)"
    using assms(5) by (simp add: build_budgeted_prompt_def render_context_pair_def demo_config_def demo_runtime_def validated_plain
        budget_results_total f shrink_to_total.simps token_count_def)
  with assms(1-4) show ?thesis
    by (simp add: grounded_prompt_def obind_def demo_encoded gather_def settled_def required_text_def demo_strings)
qed

lemma demo_valid: "validated_user_id any_user (PStr ''u'') = Inr ''u''" "required_uuid (PStr demo_document) name = Inr demo_document"
proof -
  show "validated_user_id any_user (PStr ''u'') = Inr ''u''"
    by (simp add: validated_user_id_def get_collection_name_def any_user_def demo_strings collection_types_def)
  have "is_canonical demo_document"
    by (simp add: is_canonical_def demo_document_def uuid_canon_render)
  then show "required_uuid (PStr demo_document) name = Inr demo_document"
    by (rule required_uuid_of_canonical)
qed

lemma demo_asked:
  assumes "retrieve (cc_env k) (demo_config cfg) (PStr ''q'') (rows_value [replicate 128 1]) ''knowledge_facts'' s = (Inr [], s)"
    and "retrieve (cc_env p) (demo_config cfg) (PStr ''q'') (rows_value [replicate 128 1]) ''policy'' s = (Inr ps, s)"
    and "\<forall>r \<in> set ps. strip (fr_raw r) \<noteq> []"
  shows "rag_begin (demo_call cfg (demo_runtime nc wr) (empty_client ''conversations'') k p) False (rag_start s) =
    (rag_start s)\<lparr>rn_phase := Pulling, rn_user := ''u'', rn_conversation := demo_document, rn_query := ''q'',
      rn_prompt := Some (answer_prompt ''q'' [] ps)\<rparr>"
proof -
  let ?cs = "\<lparr>rl_user = ''u'', rl_conversations = empty_client ''conversations'', rl_knowledge = k, rl_policy = p\<rparr>"
  have "checked_question any_user (demo_runtime nc wr) (PStr ''u'') (PStr demo_document) (PStr ''q'') ?cs = Inr (''u'', demo_document, ''q'')"
    by (simp add: checked_question_def demo_valid required_text_def demo_strings demo_runtime_def)
  moreover have "rewritten_query (demo_runtime nc wr) (demo_config cfg) ?cs ''q'' s = (Inr ''q'', s)"
    by (rule demo_rewritten) (simp add: empty_client_def)
  moreover have "grounded_prompt (demo_runtime nc wr) (demo_config cfg) False ?cs ''q'' s = (Inr (answer_prompt ''q'' [] ps), s)"
    by (rule demo_prompted [OF _ _ assms]) simp_all
  moreover have "opened_stream (demo_runtime nc wr) prompt s = (Inr prompt, s)" for prompt
    by (simp add: opened_stream_def demo_runtime_def obind_def)
  ultimately show ?thesis
    by (simp add: rag_begin_def asked_def Let_def demo_call_def obind_def rag_start_def)
qed


text \<open>A model that says \<open>a\<close> once; the store remembers that it has.\<close>

definition demo_chunks :: "(memory, pyval option) op" where
  "demo_chunks s = (if s = [] then (Inr (Some (PStr ''a'')), [(one_id, demo_row)]) else (Inr None, s))"

definition talk_call :: "model_config \<Rightarrow> memory rag_call" where
  "talk_call cfg = demo_call cfg (demo_runtime demo_chunks (opened_writer memory_store any_user)) (empty_client ''conversations'')
     (empty_client ''knowledge_facts'') (empty_client ''policy'')"

definition talk_end :: "memory rag_run" where
  "talk_end = \<lparr>rn_phase = Persisted ''task'', rn_store = [(one_id, demo_row)], rn_user = ''u'', rn_conversation = demo_document,
     rn_query = ''q'', rn_prompt = Some (answer_prompt ''q'' [] []), rn_yielded = [''a''],
     rn_work = [\<lparr>cw_user = ''u'', cw_conversation = demo_document, cw_question = ''q'', cw_answer = ''a''\<rparr>]\<rparr>"

lemma talk_runs: "rtranclp (rag_step (talk_call cfg)) (rag_start []) talk_end"
proof -
  let ?call = "talk_call cfg"
  let ?a = "(rag_start [] :: memory rag_run)\<lparr>rn_phase := Pulling, rn_user := ''u'', rn_conversation := demo_document, rn_query := ''q'',
      rn_prompt := Some (answer_prompt ''q'' [] [])\<rparr>"
  let ?b = "?a\<lparr>rn_phase := Yielded, rn_store := [(one_id, demo_row)], rn_yielded := [''a'']\<rparr>"
  have e: "retrieve (cc_env (empty_client collection)) (demo_config cfg) (PStr ''q'') (rows_value [replicate 128 1]) collection s = (Inr [], s)"
    if "collection \<in> {''conversations'', ''knowledge_facts'', ''policy''}" for collection and s :: memory
    by (rule empty_retrieve [OF _ that]) (simp add: empty_client_def empty_env_def)
  have "rag_begin ?call False (rag_start []) = ?a"
    unfolding talk_call_def by (rule demo_asked) (simp_all add: e)
  then have 1: "rag_step ?call (rag_start []) ?a"
    using step_begin [of "rag_start []" ?call False] by (simp add: rag_start_def)
  have "rag_pull (ra_runtime ?call) ?a = ?b"
    by (simp add: rag_pull_def talk_call_def demo_call_def demo_runtime_def demo_chunks_def rag_start_def)
  then have 2: "rag_step ?call ?a ?b"
    using step_pull [of ?a ?call] by simp
  have 3: "rag_step ?call ?b (?b\<lparr>rn_phase := Pulling\<rparr>)"
    by (rule step_resume) simp
  have "rag_pull (ra_runtime ?call) (?b\<lparr>rn_phase := Pulling\<rparr>) = talk_end"
    by (simp add: rag_pull_def rag_end_def run_work_def talk_call_def demo_call_def demo_runtime_def demo_chunks_def rag_start_def
        talk_end_def demo_strings)
  then have 4: "rag_step ?call (?b\<lparr>rn_phase := Pulling\<rparr>) talk_end"
    using step_pull [of "?b\<lparr>rn_phase := Pulling\<rparr>" ?call] by simp
  show ?thesis
    using 1 2 3 4 by (meson converse_rtranclp_into_rtranclp rtranclp.rtrancl_refl)
qed

theorem rag_stores_complete_answers_witness:
  "\<forall>cfg. rtranclp (rag_step (talk_call cfg)) (rag_start []) talk_end \<and> rn_phase talk_end = Persisted ''task''
     \<and> rn_work talk_end = [\<lparr>cw_user = ''u'', cw_conversation = demo_document, cw_question = ''q'', cw_answer = ''a''\<rparr>]"
proof
  fix cfg
  have p: "rn_phase talk_end = Persisted ''task''" "rn_user talk_end = ''u''" "rn_conversation talk_end = demo_document"
    "rn_query talk_end = ''q''" "rn_yielded talk_end = [''a'']"
    by (simp_all add: talk_end_def)
  show "rtranclp (rag_step (talk_call cfg)) (rag_start []) talk_end \<and> rn_phase talk_end = Persisted ''task''
     \<and> rn_work talk_end = [\<lparr>cw_user = ''u'', cw_conversation = demo_document, cw_question = ''q'', cw_answer = ''a''\<rparr>]"
    using talk_runs rag_stores_complete_answers [OF talk_runs [of cfg]] by (simp add: p)
qed

text \<open>A store without rows, for the facts, and the store with one policy.\<close>

definition empty_store :: "unit weaviate" where
  "empty_store = one_store\<lparr>wv_hybrid := (\<lambda>_ _ _ _ s. (Inr (Some []), s))\<rparr>"

definition ranked_fusion :: hybrid_config where
  "ranked_fusion = \<lparr>hc_fusion_method = ''ranked'', hc_alpha = Fin 0\<rparr>"

definition policy_call :: "model_config \<Rightarrow> user_collection \<Rightarrow> user_collection \<Rightarrow> unit rag_call" where
  "policy_call cfg k p = demo_call cfg (demo_runtime (oret None) (opened_writer one_store any_user)) (empty_client ''conversations'')
     (client_of empty_store ranked_fusion (\<lambda>_ _ _. oret (Some [])) length k ''knowledge_facts'')
     (client_of one_store ranked_fusion (\<lambda>_ _ _ s. (Inr (Some [RerankResult (PInt 0) (PInt 0)]), s)) length p ''policy'')"

lemma demo_open:
  assumes "collection \<in> {''conversations'', ''knowledge_facts'', ''policy''}"
  obtains uc where "open_user_collection any_user (PStr ''u'') collection = Inr uc" "uc_user uc = ''u''" "uc_kind uc = kind_of collection"
proof -
  obtain uc where uc: "open_user_collection any_user (PStr ''u'') collection = Inr uc"
    using assms by (auto simp: open_user_collection_def required_text_def demo_strings get_collection_name_def collection_types_def any_user_def)
  show ?thesis
    using that [OF uc] open_collection_parts [OF uc] by simp
qed

lemma policy_asked:
  assumes "uc_user k = ''u''" "uc_user p = ''u''" "uc_kind k = kind_of ''knowledge_facts''" "uc_kind p = kind_of ''policy''"
  shows "rag_step (policy_call cfg k p) (rag_start ())
    ((rag_start ())\<lparr>rn_phase := Pulling, rn_user := ''u'', rn_conversation := demo_document, rn_query := ''q'',
      rn_prompt := Some (answer_prompt ''q'' [] [\<lparr>fr_object = one_id, fr_raw = ''text'', fr_score = Some 0\<rparr>])\<rparr>)"
proof -
  let ?k = "client_of empty_store ranked_fusion (\<lambda>_ _ _. oret (Some [])) length k ''knowledge_facts''"
  let ?p = "client_of one_store ranked_fusion (\<lambda>_ _ _ s. (Inr (Some [RerankResult (PInt 0) (PInt 0)]), s)) length p ''policy''"
  let ?r = "\<lparr>fr_object = one_id, fr_raw = ''text'', fr_score = Some 0\<rparr>"
  have pe: "cc_env ?p = one_user_env p"
    by (simp add: client_of_def one_user_env_def ranked_fusion_def)
  have pk: "uc_kind p = chunk_kind ''policy''"
    using assms(4) by (simp add: kind_of_def conversations_def)
  have cfg: "demo_config cfg = (demo_config cfg)\<lparr>mc_policy := one_config, mc_budgets := (mc_budgets (demo_config cfg))\<lparr>bc_policy_tokens := 9\<rparr>\<rparr>"
    by (simp add: demo_config_def)
  have rp: "retrieve (cc_env ?p) (demo_config cfg) (PStr ''q'') (rows_value [replicate 128 1]) ''policy'' () = (Inr [?r], ())"
    unfolding pe by (subst cfg, rule one_run [OF demo_query_matrix one_user_hybrid [OF assms(2) pk] _ one_user_hydrate [OF assms(2) pk]])
      (simp_all add: one_user_env_def user_env_def)
  have mv: "multi_vector_values (rows_value [replicate 128 1]) ''query_vector'' = Inr [replicate 128 1]"
    by (simp add: multi_vector_values_def demo_query_matrix lateon_dimension_def)
  have f: "fusion_type ranked_fusion = Inr Ranked"
    by (simp add: fusion_type_def ranked_fusion_def; code_simp)
  have "re_hybrid (cc_env ?k) ''q'' [replicate 128 1] 50 () = (Inr (Some []), ())"
    by (simp add: client_of_def user_env_def hybrid_search_def obind_def required_text_def demo_strings mv f positive_top_k_def
        empty_store_def search_results_def)
  from empty_retrieve [OF this, of "''knowledge_facts''" cfg]
  have rk: "retrieve (cc_env ?k) (demo_config cfg) (PStr ''q'') (rows_value [replicate 128 1]) ''knowledge_facts'' () = (Inr [], ())"
    by simp
  have "strip ''text'' \<noteq> []"
    by code_simp
  then have "rag_begin (policy_call cfg k p) False (rag_start ()) = (rag_start ())\<lparr>rn_phase := Pulling, rn_user := ''u'',
      rn_conversation := demo_document, rn_query := ''q'', rn_prompt := Some (answer_prompt ''q'' [] [?r])\<rparr>"
    unfolding policy_call_def by (intro demo_asked [OF rk rp]) simp
  then show ?thesis
    using step_begin [of "rag_start ()" "policy_call cfg k p" False] by (simp add: rag_start_def)
qed


theorem rag_prompt_grounded_witness:
  "\<forall>cfg. \<exists>k p r prompt. rtranclp (rag_step (policy_call cfg k p)) (rag_start ()) r \<and> rn_prompt r = Some prompt
     \<and> prompt = answer_prompt ''q'' [] [\<lparr>fr_object = one_id, fr_raw = ''text'', fr_score = Some 0\<rparr>]
     \<and> get_collection_name any_user (PStr ''u'') (PStr ''policy'') = Inr (uc_name p) \<and> token_count prompt (\<lambda>_. 1) \<le> 9"
proof
  fix cfg
  let ?prompt = "answer_prompt ''q'' [] [\<lparr>fr_object = one_id, fr_raw = ''text'', fr_score = Some 0\<rparr>]"
  obtain k where k: "open_user_collection any_user (PStr ''u'') ''knowledge_facts'' = Inr k" "uc_user k = ''u''" "uc_kind k = kind_of ''knowledge_facts''"
    using demo_open [of "''knowledge_facts''"] by blast
  obtain p where p: "open_user_collection any_user (PStr ''u'') ''policy'' = Inr p" "uc_user p = ''u''" "uc_kind p = kind_of ''policy''"
    using demo_open [of "''policy''"] by blast
  let ?call = "policy_call cfg k p"
  let ?r = "(rag_start ())\<lparr>rn_phase := Pulling, rn_user := ''u'', rn_conversation := demo_document, rn_query := ''q'', rn_prompt := Some ?prompt\<rparr>"
  have run: "rtranclp (rag_step ?call) (rag_start ()) ?r"
    using policy_asked [OF k(2) p(2) k(3) p(3)] by (rule r_into_rtranclp)
  have c: "rn_prompt ?r = Some ?prompt" "ra_user_id ?call = PStr ''u''"
    "rl_knowledge (ra_collections ?call) = client_of empty_store ranked_fusion (\<lambda>_ _ _. oret (Some [])) length k ''knowledge_facts''"
    "rl_policy (ra_collections ?call) = client_of one_store ranked_fusion (\<lambda>_ _ _ s. (Inr (Some [RerankResult (PInt 0) (PInt 0)]), s)) length p ''policy''"
    "0 \<le> rc_final_count (mc_knowledge (ra_config ?call))" "0 \<le> rc_final_count (mc_policy (ra_config ?call))"
    "rr_tokenizer (ra_runtime ?call) = (\<lambda>_. 1)" "bc_total_context_tokens (mc_budgets (ra_config ?call)) = 9"
    by (simp_all add: policy_call_def demo_call_def demo_config_def one_config_def demo_runtime_def)
  show "\<exists>k p r prompt. rtranclp (rag_step (policy_call cfg k p)) (rag_start ()) r \<and> rn_prompt r = Some prompt
     \<and> prompt = ?prompt \<and> get_collection_name any_user (PStr ''u'') (PStr ''policy'') = Inr (uc_name p) \<and> token_count prompt (\<lambda>_. 1) \<le> 9"
    using run c(1) rag_prompt_grounded [OF run c(1) c(3,4) _ _ c(5,6), unfolded c(2,7,8), OF k(1) p(1)] by blast
qed

lemma memory_insert_one:
  assumes "checked_conversation cid t segments vectors diversity = Inr (c, txt, [sw], dv)" "is_canonical (sw_id sw)"
  shows "\<exists>u. conversation_insert memory_store uc cid t segments vectors diversity s = (Inr c, u)"
proof -
  have "write_segment memory_store uc c txt dv sw s = (Inr (), AList.update (sw_id sw) (memory_object
          [(''user_id'', PStr (uc_user uc)), (''conversation_id'', PStr c), (''segment_id'', PStr (sw_id sw)),
           (''segment_index'', PInt (int (sw_index sw))), (''raw_text'', PStr txt), (''segment_text'', PStr (sw_text sw))]
          (sw_id sw) (sw_vectors sw) dv) s)" for s
    by (simp add: write_segment_def memory_store_def obind_def base_uuid_text_canonical [OF assms(2)])
  then show ?thesis
    by (simp add: conversation_insert_def assms(1) obind_def ocatch_def)
qed

lemma talk_stored:
  assumes "open_user_collection any_user (PStr ''u'') conversations = Inr uc"
  shows "\<exists>u. embed_conversation (demo_runtime demo_chunks (opened_writer memory_store any_user)) any_user False
     (PStr ''u'') (PStr demo_document) (PStr ''q'') (PStr ''a'') [] = (Inr (), u)"
proof -
  let ?t = "conversation_text ''q'' ''a''" and ?rt = "demo_runtime demo_chunks (opened_writer memory_store any_user)"
  have t: "strip ?t \<noteq> []"
    by code_simp
  have c: "is_canonical demo_document"
    by (simp add: is_canonical_def demo_document_def uuid_canon_render)
  note e = demo_embedded(1) [OF t, where nc = demo_chunks and wr = "opened_writer memory_store any_user" and s = "[]"]
    demo_embedded(2) [OF t, where nc = demo_chunks and wr = "opened_writer memory_store any_user" and s = "[]" and second = False]
  obtain s3 u3 s4 u4 where d: "encode_documents ?rt (strings [?t]) s3 = (Inr [[replicate 128 1]], u3)" "embed_text ?rt (PStr ?t) s4 = (Inr [1], u4)"
    using e(2) unfolding gather_Inr by (auto split: if_splits)
  note seg = conversation_segments_Inr [OF e(1)]
  note ok = checked_arguments [OF c seg encode_documents_Inr [OF d(1) seg(2)] embed_text_Inr [OF d(2)]]
  have one: "segment_writes demo_document [?t] [[replicate 128 1]] = [\<lparr>sw_index = 0, sw_id = segment_identity demo_document 0,
      sw_text = ?t, sw_vectors = [replicate 128 1]\<rparr>]"
    by (simp add: segment_writes_def)
  obtain u where "writer_of memory_store uc demo_document ?t [?t] [[replicate 128 1]] [1] [] = (Inr demo_document, u)"
    using memory_insert_one [OF ok [unfolded one] segment_ids_canonical [OF ok [unfolded one]]] unfolding writer_of_def by auto
  moreover have "rr_conversations ?rt ''u'' [] = (Inr (writer_of memory_store uc), [])"
    using assms by (simp add: demo_runtime_def opened_writer_def)
  ultimately have "embed_conversation ?rt any_user False (PStr ''u'') (PStr demo_document) (PStr ''q'') (PStr ''a'') [] = (Inr (), u)"
    using e by (simp add: embed_conversation_def obind_def demo_valid required_text_def demo_strings Let_def)
  then show ?thesis
    by blast
qed

theorem answered_conversation_is_remembered_witness:
  "\<exists>u (sws :: segment_write list). embed_conversation (demo_runtime demo_chunks (opened_writer memory_store any_user)) any_user False
     (PStr ''u'') (PStr demo_document) (PStr ''q'') (PStr ''a'') [] = (Inr (), u) \<and> concat (map sw_text sws) = conversation_text ''q'' ''a''"
proof -
  fix cfg
  let ?w = "\<lparr>cw_user = ''u'', cw_conversation = demo_document, cw_question = ''q'', cw_answer = ''a''\<rparr>"
  obtain uc where uc: "open_user_collection any_user (PStr ''u'') conversations = Inr uc"
    using demo_open [of "''conversations''"] unfolding conversations_def by blast
  obtain u where u: "embed_conversation (demo_runtime demo_chunks (opened_writer memory_store any_user)) any_user False
     (PStr ''u'') (PStr demo_document) (PStr ''q'') (PStr ''a'') [] = (Inr (), u)"
    using talk_stored [OF uc] by blast
  have w: "?w \<in> set (rn_work talk_end)" "rn_query talk_end = ''q''" "concat (rn_yielded talk_end) = ''a''"
    by (simp_all add: talk_end_def)
  have uc': "open_user_collection any_user (ra_user_id (talk_call cfg)) conversations = Inr uc"
    using uc by (simp add: talk_call_def demo_call_def)
  have wr: "rr_conversations (demo_runtime demo_chunks (opened_writer memory_store any_user)) = opened_writer memory_store any_user"
    by (simp add: demo_runtime_def)
  have "\<exists>sws :: segment_write list. concat (map sw_text sws) = conversation_text ''q'' ''a''"
    using answered_conversation_is_remembered [OF talk_runs w(1) uc' wr memory_honest memory_inserts, of False "[]" u] u
    unfolding w(2,3) conversation_work.simps by blast
  with u show ?thesis
    by blast
qed

end
