(* ===== verification/Api_Errors.thy ===== *)
theory Api_Errors
  imports Py_Prelude
begin

text \<open>
  \<open>backend/api/errors.py\<close>: the public errors of the endpoints, by status and code; messages and correlation ids are left out.
  \<open>resource_error\<close> is the mapping of exceptions that the requests on a session or a wizard share, and an exception that no
  handler names is answered by the application with \<open>internal_error\<close>.
\<close>

record http_error =
  he_status :: nat
  he_code :: string

definition not_found :: http_error where "not_found = \<lparr>he_status = 404, he_code = ''NOT_FOUND''\<rparr>"

definition validation_error :: http_error where "validation_error = \<lparr>he_status = 422, he_code = ''VALIDATION_ERROR''\<rparr>"

definition service_unavailable :: http_error where
  "service_unavailable = \<lparr>he_status = 503, he_code = ''SERVICE_UNAVAILABLE''\<rparr>"

definition internal_error :: http_error where "internal_error = \<lparr>he_status = 500, he_code = ''INTERNAL_ERROR''\<rparr>"

definition resource_error :: "exc \<Rightarrow> http_error" where
  "resource_error e = (case e of
       KeyError _ \<Rightarrow> not_found
     | TypeError _ \<Rightarrow> validation_error
     | ValueError _ \<Rightarrow> validation_error
     | _ \<Rightarrow> internal_error)"

text \<open>An operation whose exceptions are answered with a public error.\<close>

definition answering :: "(exc \<Rightarrow> http_error) \<Rightarrow> ('s, 'a) op \<Rightarrow> 's \<Rightarrow> (http_error + 'a) \<times> 's" where
  "answering f m s = (case m s of (Inl e, t) \<Rightarrow> (Inl (f e), t) | (Inr x, t) \<Rightarrow> (Inr x, t))"

end
