(* ===== verification/Chat_Service.thy ===== *)
theory Chat_Service
  imports Rag_Pipeline Chat_Registry Task_Queue Api_Errors
begin

text \<open>
  \<open>backend/api/chat.py\<close>: the chat endpoints over the registry, the background queue, the providers and the store.
  Requests and background work are interleaved at the suspension points of the event loop: \<open>chat_step\<close> is the step
  relation of the whole service, and what runs between two suspension points is one step. A call in a thread, and the
  preparation of an answer, is one step on the state of the store, which only providers and the store share. A thread
  whose awaiter is cancelled is taken to have ended. Server-sent events, correlation ids, traces and telemetry are left
  out.
\<close>

section \<open>Public errors\<close>

definition query_error :: "exc \<Rightarrow> http_error" where
  "query_error e = (case e of
       SessionDeletionInProgressError _ \<Rightarrow> \<lparr>he_status = 409, he_code = ''SESSION_DELETION_IN_PROGRESS''\<rparr>
     | RuntimeError _ \<Rightarrow> service_unavailable
     | _ \<Rightarrow> resource_error e)"

definition deletion_error :: "exc \<Rightarrow> http_error" where
  "deletion_error e = (case e of
       ActiveChatStreamError _ \<Rightarrow> \<lparr>he_status = 409, he_code = ''SESSION_ACTIVE''\<rparr>
     | SessionDeletionInProgressError _ \<Rightarrow> \<lparr>he_status = 409, he_code = ''SESSION_DELETION_IN_PROGRESS''\<rparr>
     | _ \<Rightarrow> resource_error e)"

section \<open>Sessions\<close>

record session_resource =
  sx_session :: string
  sx_user :: string
  sx_title :: string
  sx_count :: nat

definition session_resource :: "session_snapshot \<Rightarrow> session_resource" where
  "session_resource s = \<lparr>sx_session = ss_session s, sx_user = ss_user s, sx_title = ss_title s,
     sx_count = length (ss_conversations s)\<rparr>"

record session_detail = session_resource +
  sx_conversations :: "transcript list"

definition session_detail :: "session_snapshot \<Rightarrow> session_detail" where
  "session_detail s = session_resource.extend (session_resource s) \<lparr>sx_conversations = ss_conversations s\<rparr>"

definition create_session :: "user_pattern \<Rightarrow> string \<Rightarrow> string \<Rightarrow> (chat_registry, session_resource) op" where
  "create_session pat user session =
     obind (cr_create_session pat (PStr user) (PStr session)) (\<lambda>s. oret (session_resource s))"

definition list_sessions :: "user_pattern \<Rightarrow> string \<Rightarrow> (chat_registry, session_resource list) op" where
  "list_sessions pat user = obind (cr_list_sessions pat (PStr user)) (\<lambda>ss. oret (map session_resource ss))"

definition get_session :: "user_pattern \<Rightarrow> string \<Rightarrow> string \<Rightarrow> (chat_registry, session_detail) op" where
  "get_session pat user session =
     obind (cr_get_session pat (PStr user) (PStr session)) (\<lambda>s. oret (session_detail s))"

definition update_session_title :: "user_pattern \<Rightarrow> string \<Rightarrow> string \<Rightarrow> string \<Rightarrow> (chat_registry, session_resource) op" where
  "update_session_title pat user session title =
     obind (cr_update_title pat (PStr user) (PStr session) (PStr title)) (\<lambda>_.
     obind (cr_get_session pat (PStr user) (PStr session)) (\<lambda>s. oret (session_resource s)))"

section \<open>The service\<close>

text \<open>The work the endpoints and the pipeline put on the queue.\<close>

datatype chat_work =
    StoreWork conversation_work
  | DeleteWork string string "string list"
  | TitleWork string string

text \<open>
  A running query, by its conversation id. \<open>Opened\<close>: reserved, before the collections are ensured. \<open>Unstarted\<close>: the
  response has been returned, its body has not been asked for. \<open>Asking\<close>: the pipeline prepares the prompt. \<open>Receiving\<close>:
  it passes the chunks on. \<open>Answered\<close>: recorded, with the last events to be sent. \<open>Failing\<close>: with the error to be sent.
\<close>

datatype stream_phase = Opened | Unstarted | Asking | Receiving | Answered | Failing

record chat_stream =
  cs_user :: string
  cs_session :: string
  cs_question :: string
  cs_phase :: stream_phase
  cs_chunks :: "string list"

text \<open>
  \<open>wd_works\<close> gives the closure of a task, \<open>wd_result\<close> how the awaited part of a user's running work has ended, and
  \<open>wd_reserved\<close> the deletion requests between the reservation and the queue, with the ids they captured. Two fields only
  record the past: \<open>wd_uuids\<close> the ids that were generated, and \<open>wd_said\<close> the conversations that were put on the queue to
  be stored, with the key of their session.
\<close>

record 'st chat_world =
  wd_registry :: chat_registry
  wd_queue :: task_queue
  wd_store :: 'st
  wd_works :: "(string, chat_work) dict"
  wd_result :: "string \<Rightarrow> string option res option"
  wd_streams :: "(string, chat_stream) dict"
  wd_reserved :: "(string \<times> string \<times> string list) list"
  wd_uuids :: "string set"
  wd_said :: "(session_key \<times> string) set"

text \<open>
  What the service is built over. \<open>ce_next\<close> is the next chunk of the answer stream of a conversation, \<open>ce_collections\<close>
  the retrieval collections of a user, \<open>ce_title\<close> the model that writes titles and \<open>ce_template\<close> its prompt.
\<close>

record 'st chat_services =
  ce_pattern :: user_pattern
  ce_weaviate :: "'st weaviate"
  ce_runtime :: "'st rag_runtime"
  ce_config :: model_config
  ce_collections :: "string \<Rightarrow> 'st retrieval_collections"
  ce_next :: "string \<Rightarrow> ('st, pyval option) op"
  ce_template :: "string \<Rightarrow> string"
  ce_title :: "string \<Rightarrow> ('st, pyval) op"

definition on_registry :: "(chat_registry, 'a) op \<Rightarrow> ('st chat_world, 'a) op" where
  "on_registry = on_part wd_registry (\<lambda>x w. w\<lparr>wd_registry := x\<rparr>)"

definition on_queue :: "(task_queue, 'a) op \<Rightarrow> ('st chat_world, 'a) op" where
  "on_queue = on_part wd_queue (\<lambda>x w. w\<lparr>wd_queue := x\<rparr>)"

definition on_store :: "('st, 'a) op \<Rightarrow> ('st chat_world, 'a) op" where
  "on_store = on_part wd_store (\<lambda>x w. w\<lparr>wd_store := x\<rparr>)"

definition enqueue_work ::
    "user_pattern \<Rightarrow> string \<Rightarrow> nat \<Rightarrow> string \<Rightarrow> string \<Rightarrow> chat_work \<Rightarrow> ('st chat_world, string) op" where
  "enqueue_work pat task_id now user operation work =
     obind (on_queue (tq_enqueue pat task_id now (PStr user) (PStr operation) True)) (\<lambda>task.
     obind (omodify (\<lambda>w. w\<lparr>wd_works := AList.update task work (wd_works w)\<rparr>)) (\<lambda>_. oret task))"

subsection \<open>Queries\<close>

text \<open>
  \<open>query\<close> up to its first suspension. \<open>available\<close>: the runtime is configured and the retrieval collections can be made.
\<close>

definition query_reserve :: "user_pattern \<Rightarrow> string \<Rightarrow> string \<Rightarrow> string \<Rightarrow> string \<Rightarrow> bool \<Rightarrow> (chat_registry, unit) op" where
  "query_reserve pat user session question conversation available =
     (if strip question = [] then oraise (ValueError ''question must not be empty'')
      else
        obind (cr_get_session pat (PStr user) (PStr session)) (\<lambda>_.
        if \<not> available then oraise (RuntimeError ''RAG provider runtime is not configured'')
        else cr_begin_chat_stream pat (PStr user) (PStr session) (PStr conversation)))"

definition set_stream :: "string \<Rightarrow> chat_stream \<Rightarrow> 'st chat_world \<Rightarrow> 'st chat_world" where
  "set_stream c sr w = w\<lparr>wd_streams := AList.update c sr (wd_streams w)\<rparr>"

definition query_open ::
    "user_pattern \<Rightarrow> string \<Rightarrow> string \<Rightarrow> string \<Rightarrow> string \<Rightarrow> bool \<Rightarrow> ('st chat_world, unit) op" where
  "query_open pat user session question conversation available =
     obind (on_registry (query_reserve pat user session question conversation available)) (\<lambda>_.
     omodify (set_stream conversation
       \<lparr>cs_user = user, cs_session = session, cs_question = question, cs_phase = Opened, cs_chunks = []\<rparr>))"

text \<open>The end of the generator, and of a request whose collections could not be ensured: \<open>end_chat_stream\<close>.\<close>

definition query_close :: "user_pattern \<Rightarrow> string \<Rightarrow> chat_stream \<Rightarrow> ('st chat_world, unit) op" where
  "query_close pat c sr =
     obind (omodify (\<lambda>w. w\<lparr>wd_streams := AList.delete c (wd_streams w)\<rparr>)) (\<lambda>_.
     on_registry (cr_end_chat_stream pat (PStr (cs_user sr)) (PStr (cs_session sr)) (PStr c)))"

definition stream_call :: "'st chat_services \<Rightarrow> string \<Rightarrow> chat_stream \<Rightarrow> 'st rag_call" where
  "stream_call ce c sr =
     \<lparr>ra_runtime = ce_runtime ce, ra_config = ce_config ce, ra_pattern = ce_pattern ce, ra_user_id = PStr (cs_user sr),
      ra_conversation_id = PStr c, ra_query = PStr (cs_question sr), ra_collections = ce_collections ce (cs_user sr)\<rparr>"

definition query_ask :: "'st chat_services \<Rightarrow> bool \<Rightarrow> string \<Rightarrow> chat_stream \<Rightarrow> 'st chat_world \<Rightarrow> 'st chat_world" where
  "query_ask ce second c sr w =
     (case on_store (asked (stream_call ce c sr) second) w of
        (r, v) \<Rightarrow> set_stream c (sr\<lparr>cs_phase := (case r of Inl _ \<Rightarrow> Failing | Inr _ \<Rightarrow> Receiving)\<rparr>) v)"

text \<open>
  The end of the stream: the pipeline puts the conversation on the queue (\<open>rag_end\<close>), then the endpoint records it and
  asks for a title, whose failure is only logged.
\<close>

definition store_work :: "string \<Rightarrow> chat_stream \<Rightarrow> conversation_work" where
  "store_work c sr =
     \<lparr>cw_user = cs_user sr, cw_conversation = c, cw_question = cs_question sr, cw_answer = concat (cs_chunks sr)\<rparr>"

definition query_stored :: "user_pattern \<Rightarrow> string \<Rightarrow> nat \<Rightarrow> string \<Rightarrow> chat_stream \<Rightarrow> ('st chat_world, unit) op" where
  "query_stored pat task_id now c sr =
     (if strip (concat (cs_chunks sr)) = []
      then oraise (ValueError ''answer stream completed without a non-empty answer'')
      else
        obind (enqueue_work pat task_id now (cs_user sr) ''embed_conversation'' (StoreWork (store_work c sr))) (\<lambda>_.
        omodify (\<lambda>w. case cr_key pat (PStr (cs_user sr)) (PStr (cs_session sr)) of
          Inl _ \<Rightarrow> w | Inr key \<Rightarrow> w\<lparr>wd_said := insert (key, c) (wd_said w)\<rparr>)))"

definition query_recorded :: "user_pattern \<Rightarrow> string \<Rightarrow> chat_stream \<Rightarrow> (chat_registry, unit) op" where
  "query_recorded pat c sr =
     cr_record_conversation pat (PStr (cs_user sr)) (PStr (cs_session sr)) (PStr c) (PStr (cs_question sr))
       (PStr (concat (cs_chunks sr)))"

definition query_titled :: "user_pattern \<Rightarrow> string \<Rightarrow> nat \<Rightarrow> chat_stream \<Rightarrow> ('st chat_world, unit) op" where
  "query_titled pat task_id now sr =
     obind (ocatch (enqueue_work pat task_id now (cs_user sr) ''generate_session_title''
              (TitleWork (cs_user sr) (cs_session sr)))) (\<lambda>_. oret ())"

definition query_finished ::
    "user_pattern \<Rightarrow> string \<Rightarrow> string \<Rightarrow> nat \<Rightarrow> string \<Rightarrow> chat_stream \<Rightarrow> ('st chat_world, unit) op" where
  "query_finished pat task_id title_id now c sr =
     obind (query_stored pat task_id now c sr) (\<lambda>_.
     obind (on_registry (query_recorded pat c sr)) (\<lambda>_.
     query_titled pat title_id now sr))"

text \<open>The loop of \<open>stream_events\<close> over the pipeline, up to the next event.\<close>

definition received_chunk :: "pyval \<Rightarrow> chat_stream \<Rightarrow> chat_stream" where
  "received_chunk chunk sr =
     (case chunk of
        PStr t \<Rightarrow> if t = [] then sr else sr\<lparr>cs_chunks := cs_chunks sr @ [t]\<rparr>
      | _ \<Rightarrow> sr\<lparr>cs_phase := Failing\<rparr>)"

definition query_next ::
    "'st chat_services \<Rightarrow> string \<Rightarrow> string \<Rightarrow> nat \<Rightarrow> string \<Rightarrow> chat_stream \<Rightarrow> 'st chat_world \<Rightarrow> 'st chat_world" where
  "query_next ce task_id title_id now c sr w =
     (case on_store (ce_next ce c) w of
        (Inl _, v) \<Rightarrow> set_stream c (sr\<lparr>cs_phase := Failing\<rparr>) v
      | (Inr (Some chunk), v) \<Rightarrow> set_stream c (received_chunk chunk sr) v
      | (Inr None, v) \<Rightarrow>
          (case query_finished (ce_pattern ce) task_id title_id now c sr v of
             (r, u) \<Rightarrow> set_stream c (sr\<lparr>cs_phase := (case r of Inl _ \<Rightarrow> Failing | Inr _ \<Rightarrow> Answered)\<rparr>) u))"

subsection \<open>Deletion of a session\<close>

definition delete_reserve :: "user_pattern \<Rightarrow> string \<Rightarrow> string \<Rightarrow> ('st chat_world, unit) op" where
  "delete_reserve pat user session =
     obind (on_registry (cr_reserve_deletion pat (PStr user) (PStr session))) (\<lambda>ids.
     omodify (\<lambda>w. w\<lparr>wd_reserved := (user, session, ids) # wd_reserved w\<rparr>))"

definition delete_abort :: "user_pattern \<Rightarrow> string \<Rightarrow> string \<Rightarrow> string list \<Rightarrow> ('st chat_world, unit) op" where
  "delete_abort pat user session ids =
     obind (omodify (\<lambda>w. w\<lparr>wd_reserved := removeAll (user, session, ids) (wd_reserved w)\<rparr>)) (\<lambda>_.
     on_registry (cr_abort_deletion pat (PStr user) (PStr session)))"

definition delete_enqueue ::
    "user_pattern \<Rightarrow> string \<Rightarrow> nat \<Rightarrow> string \<Rightarrow> string \<Rightarrow> string list \<Rightarrow> ('st chat_world, string) op" where
  "delete_enqueue pat task_id now user session ids =
     otry (obind (enqueue_work pat task_id now user ''delete_session'' (DeleteWork user session ids)) (\<lambda>task.
           obind (omodify (\<lambda>w. w\<lparr>wd_reserved := removeAll (user, session, ids) (wd_reserved w)\<rparr>)) (\<lambda>_. oret task)))
       (\<lambda>e. obind (delete_abort pat user session ids) (\<lambda>_. oraise e))"

subsection \<open>The background work\<close>

text \<open>
  The awaited part of a work, and what follows it. The transcript that a title is made of is the one the session has
  when the work starts.
\<close>

definition conversations_removed :: "'st chat_services \<Rightarrow> string \<Rightarrow> string list \<Rightarrow> ('st, unit) op" where
  "conversations_removed ce user ids =
     obind (olift (open_user_collection (ce_pattern ce) (PStr user) conversations)) (\<lambda>uc.
     obind (conversation_delete_batch_verified (ce_weaviate ce) uc (PList (map PStr ids))) (\<lambda>report.
     if confirmed report then oret () else oraise (RuntimeError ''conversation deletion was not confirmed'')))"

definition written_title :: "'st chat_services \<Rightarrow> session_snapshot \<Rightarrow> ('st, string) op" where
  "written_title ce s =
     obind (olift (conversation_list
       (strings (map (\<lambda>t. conversation_text (ct_question t) (ct_answer t)) (ss_conversations s))))) (\<lambda>context.
     obind (ce_title ce (ce_template ce context)) (\<lambda>response. olift (validate_session_title response)))"

definition work_begin :: "'st chat_services \<Rightarrow> bool \<Rightarrow> chat_work \<Rightarrow> ('st chat_world, string option) op" where
  "work_begin ce second work =
     (case work of
        StoreWork cw \<Rightarrow>
          obind (on_store (embed_conversation (ce_runtime ce) (ce_pattern ce) second (PStr (cw_user cw))
            (PStr (cw_conversation cw)) (PStr (cw_question cw)) (PStr (cw_answer cw)))) (\<lambda>_. oret None)
      | DeleteWork user session ids \<Rightarrow> obind (on_store (conversations_removed ce user ids)) (\<lambda>_. oret None)
      | TitleWork user session \<Rightarrow>
          obind (on_registry (cr_get_session (ce_pattern ce) (PStr user) (PStr session))) (\<lambda>found.
          obind (on_store (written_title ce found)) (\<lambda>title. oret (Some title))))"

definition work_end :: "user_pattern \<Rightarrow> chat_work \<Rightarrow> string option res \<Rightarrow> (chat_registry, unit) op" where
  "work_end pat work r =
     (case work of
        StoreWork cw \<Rightarrow> olift (rbind r (\<lambda>_. Inr ()))
      | DeleteWork user session ids \<Rightarrow>
          otry (obind (olift r) (\<lambda>_. obind (cr_commit_deletion pat (PStr user) (PStr session)) (\<lambda>_. oret ())))
            (\<lambda>e. obind (cr_abort_deletion pat (PStr user) (PStr session)) (\<lambda>_. oraise e))
      | TitleWork user session \<Rightarrow>
          obind (olift r) (\<lambda>title.
          obind (cr_update_title pat (PStr user) (PStr session) (optional_text title)) (\<lambda>_. oret ())))"

definition work_outcome :: "unit res \<Rightarrow> work_outcome" where
  "work_outcome r = (case r of Inr _ \<Rightarrow> WorkReturned | Inl e \<Rightarrow> if e = CancelledError then WorkCancelled else WorkRaised)"

text \<open>The worker of a user runs the work it has taken, and finishes it. \<open>None\<close>: the worker is not at that point.\<close>

definition running_work :: "'st chat_world \<Rightarrow> string \<Rightarrow> chat_work option" where
  "running_work w user =
     (case tq_workers (wd_queue w) user of Some (Busy task_id) \<Rightarrow> map_of (wd_works w) task_id | _ \<Rightarrow> None)"

definition run_begin :: "'st chat_services \<Rightarrow> bool \<Rightarrow> string \<Rightarrow> 'st chat_world \<Rightarrow> 'st chat_world option" where
  "run_begin ce second user w =
     (case (running_work w user, wd_result w user) of
        (Some work, None) \<Rightarrow>
          (case work_begin ce second work w of (r, v) \<Rightarrow> Some (v\<lparr>wd_result := (wd_result v)(user \<mapsto> r)\<rparr>))
      | _ \<Rightarrow> None)"

definition run_end :: "'st chat_services \<Rightarrow> nat \<Rightarrow> string \<Rightarrow> 'st chat_world \<Rightarrow> 'st chat_world option" where
  "run_end ce now user w =
     (case (running_work w user, wd_result w user) of
        (Some work, Some r) \<Rightarrow>
          (case on_registry (work_end (ce_pattern ce) work r) w of
             (x, v) \<Rightarrow> map_option (\<lambda>q. v\<lparr>wd_queue := q, wd_result := (wd_result v)(user := None)\<rparr>)
                         (tq_finish now user (work_outcome x) (wd_queue v)))
      | _ \<Rightarrow> None)"

section \<open>Steps\<close>

definition new_task :: "'st chat_world \<Rightarrow> string \<Rightarrow> bool" where
  "new_task w task_id \<longleftrightarrow> task_id \<notin> fst ` set (tq_objects (wd_queue w))"

inductive chat_step :: "'st chat_services \<Rightarrow> 'st chat_world \<Rightarrow> 'st chat_world \<Rightarrow> bool" for ce where
  creates: "session \<notin> wd_uuids w \<Longrightarrow> is_canonical session \<Longrightarrow>
      on_registry (create_session (ce_pattern ce) user session) (w\<lparr>wd_uuids := insert session (wd_uuids w)\<rparr>) = (r, v) \<Longrightarrow>
      chat_step ce w v"
| lists: "on_registry (list_sessions (ce_pattern ce) user) w = (r, v) \<Longrightarrow> chat_step ce w v"
| gets: "on_registry (get_session (ce_pattern ce) user session) w = (r, v) \<Longrightarrow> chat_step ce w v"
| retitles: "on_registry (update_session_title (ce_pattern ce) user session title) w = (r, v) \<Longrightarrow> chat_step ce w v"
| opens: "c \<notin> wd_uuids w \<Longrightarrow> is_canonical c \<Longrightarrow>
      query_open (ce_pattern ce) user session question c available (w\<lparr>wd_uuids := insert c (wd_uuids w)\<rparr>) = (r, v) \<Longrightarrow>
      chat_step ce w v"
| returns: "map_of (wd_streams w) c = Some sr \<Longrightarrow> cs_phase sr = Opened \<Longrightarrow>
      chat_step ce w (set_stream c (sr\<lparr>cs_phase := Unstarted\<rparr>) w)"
| starts: "map_of (wd_streams w) c = Some sr \<Longrightarrow> cs_phase sr = Unstarted \<Longrightarrow>
      chat_step ce w (set_stream c (sr\<lparr>cs_phase := Asking\<rparr>) w)"
| asks: "map_of (wd_streams w) c = Some sr \<Longrightarrow> cs_phase sr = Asking \<Longrightarrow> chat_step ce w (query_ask ce second c sr w)"
| receives: "map_of (wd_streams w) c = Some sr \<Longrightarrow> cs_phase sr = Receiving \<Longrightarrow>
      new_task w task_id \<Longrightarrow> new_task w title_id \<Longrightarrow> task_id \<noteq> title_id \<Longrightarrow>
      chat_step ce w (query_next ce task_id title_id now c sr w)"
| closes: "map_of (wd_streams w) c = Some sr \<Longrightarrow> cs_phase sr \<noteq> Unstarted \<Longrightarrow>
      query_close (ce_pattern ce) c sr w = (r, v) \<Longrightarrow> chat_step ce w v"
| never_starts: "map_of (wd_streams w) c = Some sr \<Longrightarrow> cs_phase sr = Unstarted \<Longrightarrow>
      chat_step ce w (w\<lparr>wd_streams := AList.delete c (wd_streams w)\<rparr>)"
| reserves: "delete_reserve (ce_pattern ce) user session w = (r, v) \<Longrightarrow> chat_step ce w v"
| aborts: "(user, session, ids) \<in> set (wd_reserved w) \<Longrightarrow>
      delete_abort (ce_pattern ce) user session ids w = (r, v) \<Longrightarrow> chat_step ce w v"
| deletes: "(user, session, ids) \<in> set (wd_reserved w) \<Longrightarrow> new_task w task_id \<Longrightarrow>
      delete_enqueue (ce_pattern ce) task_id now user session ids w = (r, v) \<Longrightarrow> chat_step ce w v"
| takes: "tq_take now user (wd_queue w) = Some q \<Longrightarrow> chat_step ce w (w\<lparr>wd_queue := q\<rparr>)"
| runs: "run_begin ce second user w = Some v \<Longrightarrow> chat_step ce w v"
| finishes: "run_end ce now user w = Some v \<Longrightarrow> chat_step ce w v"
| closing: "tq_close_begin (wd_queue w) = Some q \<or> tq_close_stop (wd_queue w) = Some q \<or> tq_close_end (wd_queue w) = Some q \<Longrightarrow>
      chat_step ce w (w\<lparr>wd_queue := q\<rparr>)"

definition chat_start :: "task_queue \<Rightarrow> 'st \<Rightarrow> 'st chat_world" where
  "chat_start q s = \<lparr>wd_registry = cr_new, wd_queue = q, wd_store = s, wd_works = [], wd_result = (\<lambda>_. None),
     wd_streams = [], wd_reserved = [], wd_uuids = {}, wd_said = {}\<rparr>"

end
