(* ===== verification/Chat_Content.thy ===== *)
theory Chat_Content
  imports Chat_Service
begin

text \<open>
  What the work of the chat service does to the content of one conversation collection: an operation either leaves it
  as it is, or removes rows, or adds rows of one conversation.
\<close>

section \<open>What the services promise\<close>

text \<open>
  A collection that nothing else reaches: an operation on another collection and a read leave it as it is, and an insertion
  into it stores the object that was given, or nothing.
\<close>

definition confined :: "'st weaviate \<Rightarrow> string \<Rightarrow> ('st \<Rightarrow> string \<Rightarrow> store_object option) \<Rightarrow> bool" where
  "confined wv name content \<longleftrightarrow>
     (\<forall>other where' dry. other \<noteq> name \<or> dry \<longrightarrow> keeps content (wv_delete_many wv other where' dry))
     \<and> (\<forall>other props object_id late dv. other \<noteq> name \<longrightarrow> keeps content (wv_insert wv other props object_id late dv))
     \<and> (\<forall>props object_id late dv s r t. wv_insert wv name props object_id late dv s = (r, t) \<longrightarrow>
          content t object_id = content s object_id \<or> (\<exists>row stored. content t object_id = Some row
            \<and> so_properties row = Some stored \<and> (distinct (map fst props) \<longrightarrow> (\<forall>(k, v) \<in> set props. prop_of stored k = v))))"

definition quiet_env :: "('st \<Rightarrow> string \<Rightarrow> store_object option) \<Rightarrow> 'st retrieval_env \<Rightarrow> bool" where
  "quiet_env content env \<longleftrightarrow> (\<forall>query vectors n. keeps content (re_hybrid env query vectors n))
     \<and> (\<forall>requests. keeps content (re_hydrate env requests)) \<and> (\<forall>query texts n. keeps content (re_rerank env query texts n))"

definition quiet_runtime :: "('st \<Rightarrow> string \<Rightarrow> store_object option) \<Rightarrow> 'st rag_runtime \<Rightarrow> bool" where
  "quiet_runtime content rt \<longleftrightarrow>
     (\<forall>prompt query pairs. keeps content (rr_complete rt prompt query pairs)) \<and> (\<forall>prompt. keeps content (rr_stream rt prompt))
     \<and> (\<forall>t. keeps content (rr_embed rt t)) \<and> (\<forall>t. keeps content (rr_encode_query rt t))
     \<and> (\<forall>ts. keeps content (rr_encode_documents rt ts)) \<and> (\<forall>t. keeps content (rr_segment rt t))"

text \<open>
  The services of an application whose collection \<open>name\<close> has the content \<open>content\<close>: an honest store, providers and reads
  that do not write to it, and the conversation collections the application opens.
\<close>

definition store_services :: "'st chat_services \<Rightarrow> string \<Rightarrow> ('st \<Rightarrow> string \<Rightarrow> store_object option) \<Rightarrow> bool" where
  "store_services ce name content \<longleftrightarrow>
     honest (ce_weaviate ce) name content \<and> confined (ce_weaviate ce) name content
     \<and> quiet_runtime content (ce_runtime ce) \<and> (\<forall>c. keeps content (ce_next ce c)) \<and> (\<forall>prompt. keeps content (ce_title ce prompt))
     \<and> (\<forall>u. quiet_env content (cc_env (rl_conversations (ce_collections ce u)))
          \<and> quiet_env content (cc_env (rl_knowledge (ce_collections ce u))) \<and> quiet_env content (cc_env (rl_policy (ce_collections ce u))))
     \<and> rr_conversations (ce_runtime ce) = opened_writer (ce_weaviate ce) (ce_pattern ce)"

section \<open>Reads\<close>

lemma keeps_gather [keeps_intros]: "keeps f m \<Longrightarrow> keeps f n \<Longrightarrow> keeps f (gather second m n)"
  by (auto simp: keeps_def gather_def settled_def obind_def split: prod.splits sum.splits)

lemma keeps_cases [keeps_intros]:
  "keeps f m \<Longrightarrow> (\<And>x. keeps f (g x)) \<Longrightarrow> keeps f (case v of None \<Rightarrow> m | Some x \<Rightarrow> g x)"
  "(\<And>x y. keeps f (h x y)) \<Longrightarrow> keeps f (case p of (x, y) \<Rightarrow> h x y)"
  by (simp_all split: option.split prod.split)

lemma keeps_retrieve:
  assumes "quiet_env content env"
  shows "keeps content (retrieve env cfg q v collection)"
proof -
  have p: "keeps content (re_hybrid env a b c)" "keeps content (re_hydrate env d)" "keeps content (re_rerank env e g h)" for a b c d e g h
    using assms by (simp_all add: quiet_env_def)
  have "keeps content (cross_encoder env cs t)" "keeps content (hydrate_mmr_head env pool collection)" for cs t pool
    unfolding cross_encoder_def hydrate_mmr_head_def by (intro keeps_intros p)+
  then show ?thesis
    unfolding retrieve_def by (intro keeps_intros p)
qed

lemma keeps_asked:
  assumes "quiet_runtime content (ra_runtime call)" "quiet_env content (cc_env (rl_conversations (ra_collections call)))"
    "quiet_env content (cc_env (rl_knowledge (ra_collections call)))" "quiet_env content (cc_env (rl_policy (ra_collections call)))"
  shows "keeps content (asked call second)"
proof -
  let ?rt = "ra_runtime call"
  have p: "keeps content (rr_complete ?rt a b c)" "keeps content (rr_stream ?rt a)" "keeps content (rr_encode_query ?rt a)" for a b c
    using assms(1) by (simp_all add: quiet_runtime_def)
  have "keeps content (encode_query ?rt v)" "keeps content (rewrite_query ?rt v v')" "keeps content (opened_stream ?rt t)" for v v' t
    unfolding encode_query_def rewrite_query_def opened_stream_def by (intro keeps_intros p)+
  note q = this keeps_retrieve [OF assms(2)] keeps_retrieve [OF assms(3)] keeps_retrieve [OF assms(4)]
  have "keeps content (rewritten_query ?rt cfg (ra_collections call) t)" "keeps content (grounded_prompt ?rt cfg second (ra_collections call) t)" for cfg t
    unfolding rewritten_query_def grounded_prompt_def by (intro keeps_intros q)+
  then show ?thesis
    unfolding asked_def Let_def by (intro keeps_intros q)
qed

lemma keeps_written_title:
  assumes "\<forall>prompt. keeps content (ce_title ce prompt)"
  shows "keeps content (written_title ce found)"
  unfolding written_title_def by (intro keeps_intros assms [rule_format])

section \<open>Writes\<close>

definition only_adds :: "('st \<Rightarrow> string \<Rightarrow> store_object option) \<Rightarrow> string \<Rightarrow> ('st, 'a) op \<Rightarrow> bool" where
  "only_adds content c m \<longleftrightarrow> (\<forall>s r t i row. m s = (r, t) \<longrightarrow> content t i = Some row \<longrightarrow>
     content s i = Some row \<or> uuid_prop row ''conversation_id'' = Some c)"

named_theorems adds_intros \<open>closure of the operations that only add rows of a conversation\<close>

lemma only_addsD: "only_adds content c m \<Longrightarrow> m s = (r, t) \<Longrightarrow> content t i = Some row \<Longrightarrow>
    content s i = Some row \<or> uuid_prop row ''conversation_id'' = Some c"
  unfolding only_adds_def by blast

lemma keeps_adds: "keeps content m \<Longrightarrow> only_adds content c m"
  by (auto simp: only_adds_def keeps_def)

lemma adds_basic [adds_intros]: "only_adds content c (oret x)" "only_adds content c (oraise e)" "only_adds content c (olift r)"
  by (simp_all add: only_adds_def)

lemma adds_bind [adds_intros]:
  assumes "only_adds content c m" "\<And>x. only_adds content c (f x)"
  shows "only_adds content c (obind m f)"
  unfolding only_adds_def
proof (intro allI impI)
  fix s r t i row
  assume run: "obind m f s = (r, t)" and row: "content t i = Some row"
  obtain q u where q: "m s = (q, u)"
    by fastforce
  show "content s i = Some row \<or> uuid_prop row ''conversation_id'' = Some c"
  proof (cases q)
    case (Inl e)
    with run q have "u = t"
      by (simp add: obind_def)
    with only_addsD [OF assms(1) q] row show ?thesis
      by blast
  next
    case (Inr x)
    with run q have "f x u = (r, t)"
      by (simp add: obind_def)
    with only_addsD [OF assms(2) this row] only_addsD [OF assms(1) q] show ?thesis
      by blast
  qed
qed

lemma adds_catch [adds_intros]: "only_adds content c m \<Longrightarrow> only_adds content c (ocatch m)"
  unfolding only_adds_def ocatch_def by (fastforce split: prod.splits)

lemma adds_cases [adds_intros]:
  "only_adds content c m \<Longrightarrow> only_adds content c m' \<Longrightarrow> only_adds content c (if b then m else m')"
  "only_adds content c m \<Longrightarrow> (\<And>x. only_adds content c (g x)) \<Longrightarrow> only_adds content c (case v of None \<Rightarrow> m | Some x \<Rightarrow> g x)"
  "(\<And>x y. only_adds content c (h x y)) \<Longrightarrow> only_adds content c (case p of (x, y) \<Rightarrow> h x y)"
  "(\<And>e. only_adds content c (k e)) \<Longrightarrow> (\<And>x. only_adds content c (g' x)) \<Longrightarrow> only_adds content c (case r of Inl e \<Rightarrow> k e | Inr x \<Rightarrow> g' x)"
  by (simp_all split: option.split prod.split sum.split)

lemma adds_delete:
  assumes "honest wv name content" "confined wv name content"
  shows "only_adds content c (wv_delete_many wv other where' dry)"
proof (cases "other \<noteq> name \<or> dry")
  case True
  with assms(2) show ?thesis
    by (intro keeps_adds) (auto simp: confined_def)
next
  case False
  show ?thesis
    unfolding only_adds_def
  proof (intro allI impI)
    fix s r t i row
    assume run: "wv_delete_many wv other where' dry s = (r, t)" and row: "content t i = Some row"
    have "wv_delete_many wv name where' False s = (r, t)"
      using run False by simp
    from honest_delete [OF assms(1) this, of i] row show "content s i = Some row \<or> uuid_prop row ''conversation_id'' = Some c"
      by auto
  qed
qed

lemma adds_verified_delete:
  assumes "honest wv name content" "confined wv name content"
  shows "only_adds content c (verified_delete_saying message wv uc where')"
  unfolding verified_delete_saying_def Let_def by (intro adds_intros adds_delete [OF assms])

lemma adds_write_segment:
  assumes "honest wv name content" "confined wv name content" "is_canonical c"
  shows "only_adds content c (write_segment wv uc c t diversity sw)"
proof -
  let ?props = "[(''user_id'', PStr (uc_user uc)), (''conversation_id'', PStr c), (''segment_id'', PStr (sw_id sw)),
               (''segment_index'', PInt (int (sw_index sw))), (''raw_text'', PStr t), (''segment_text'', PStr (sw_text sw))]"
  have "only_adds content c (wv_insert wv (uc_name uc) ?props (sw_id sw) late dv)" for late dv
  proof (cases "uc_name uc = name")
    case False
    with assms(2) show ?thesis
      by (intro keeps_adds) (auto simp: confined_def)
  next
    case True
    show ?thesis
      unfolding only_adds_def True
    proof (intro allI impI)
      fix s r t' i row
      assume run: "wv_insert wv name ?props (sw_id sw) late dv s = (r, t')" and row: "content t' i = Some row"
      show "content s i = Some row \<or> uuid_prop row ''conversation_id'' = Some c"
      proof (cases "i = sw_id sw")
        case False
        from honest_insert [OF assms(1) run False] row show ?thesis
          by simp
      next
        case True
        have "content t' (sw_id sw) = content s (sw_id sw) \<or> (\<exists>row stored. content t' (sw_id sw) = Some row
            \<and> so_properties row = Some stored \<and> (distinct (map fst ?props) \<longrightarrow> (\<forall>(k, v) \<in> set ?props. prop_of stored k = v)))"
          using assms(2) run unfolding confined_def by blast
        then show ?thesis
        proof
          assume "content t' (sw_id sw) = content s (sw_id sw)"
          with row True show ?thesis
            by simp
        next
          assume "\<exists>row stored. content t' (sw_id sw) = Some row
            \<and> so_properties row = Some stored \<and> (distinct (map fst ?props) \<longrightarrow> (\<forall>(k, v) \<in> set ?props. prop_of stored k = v))"
          then obtain stored where "so_properties row = Some stored" "prop_of stored ''conversation_id'' = PStr c"
            using row True by auto
          then show ?thesis
            using assms(3) by (simp add: uuid_prop_def is_canonical_def)
        qed
      qed
    qed
  qed
  then show ?thesis
    unfolding write_segment_def by (intro adds_intros)
qed

lemma adds_write_segments:
  assumes "honest wv name content" "confined wv name content" "is_canonical c"
  shows "only_adds content c (write_segments wv uc c t diversity attempted sws)"
proof (induction sws arbitrary: attempted)
  case (Cons sw sws)
  show ?case
    unfolding write_segments.simps by (intro adds_intros adds_write_segment [OF assms] Cons)
qed (simp add: adds_intros)

lemma adds_conversation_insert:
  assumes "honest wv name content" "confined wv name content" "is_canonical c"
  shows "only_adds content c (conversation_insert wv uc (PStr c) raw_text segment_texts segment_vectors dvec)"
proof (cases "checked_conversation (PStr c) raw_text segment_texts segment_vectors dvec")
  case (Inl e)
  then show ?thesis
    by (simp add: conversation_insert_def obind_def only_adds_def)
next
  case (Inr x)
  obtain canonical_id t sws diversity where x: "x = (canonical_id, t, sws, diversity)"
    by (cases x) auto
  have "canonical_id = c"
    using checked_conversation_Inr [OF Inr [unfolded x]] base_uuid_text_canonical [OF assms(3)] by simp
  then have eq: "conversation_insert wv uc (PStr c) raw_text segment_texts segment_vectors dvec =
      obind (write_segments wv uc c t diversity [] sws) (\<lambda>failure.
        case failure of
          None \<Rightarrow> oret c
        | Some (write_error, attempted) \<Rightarrow>
            obind (ocatch (conversation_verified_delete wv uc (ByIds attempted))) (\<lambda>r.
            case r of
              Inl cleanup_error \<Rightarrow> oraise (ConversationWriteRecoveryError attempted write_error cleanup_error)
            | Inr _ \<Rightarrow> oraise write_error))"
    unfolding conversation_insert_def Inr x by (simp only: obind_known prod.case \<open>canonical_id = c\<close>)
  show ?thesis
    unfolding eq conversation_verified_delete_def
    by (intro adds_intros adds_write_segments [OF assms] adds_verified_delete [OF assms(1,2)])
qed

lemma adds_embed_conversation:
  assumes "honest wv name content" "confined wv name content" "is_canonical c" "quiet_runtime content rt"
    and "rr_conversations rt = opened_writer wv pat"
  shows "only_adds content c (embed_conversation rt pat second user_id (PStr c) question answer)"
proof -
  have p: "keeps content (rr_embed rt x)" "keeps content (rr_encode_documents rt xs)" "keeps content (rr_segment rt x)" for x xs
    using assms(4) by (simp_all add: quiet_runtime_def)
  have q: "keeps content (embed_text rt v)" "keeps content (encode_documents rt vs)" "keeps content (conversation_segments rt v)" for v vs
    unfolding embed_text_def encode_documents_def conversation_segments_def by (intro keeps_intros p)+
  have g: "only_adds content c (conversation_segments rt v)"
    "only_adds content c (gather second (encode_documents rt vs) (embed_text rt v))" for v vs
    by (intro keeps_adds keeps_gather q)+
  have w: "only_adds content c (obind (rr_conversations rt user) (\<lambda>write.
      obind (write c t segments vectors diversity) (\<lambda>_. oret ())))" for user t segments vectors diversity
  proof (cases "open_user_collection pat (PStr user) conversations")
    case (Inr uc)
    have "only_adds content c (writer_of wv uc c t segments vectors diversity)"
      unfolding writer_of_def by (rule adds_conversation_insert [OF assms(1-3)])
    then have "only_adds content c (obind (writer_of wv uc c t segments vectors diversity) (\<lambda>_. oret ()))"
      by (intro adds_intros)
    moreover have "obind (rr_conversations rt user) (\<lambda>write. obind (write c t segments vectors diversity) (\<lambda>_. oret ()))
        = obind (writer_of wv uc c t segments vectors diversity) (\<lambda>_. oret ())"
      by (simp add: assms(5) opened_writer_def Inr obind_def fun_eq_iff)
    ultimately show ?thesis
      by simp
  qed (simp add: assms(5) opened_writer_def obind_def only_adds_def)
  have c: "obind (olift (required_uuid (PStr c) ''conversation_id'')) f = f c" for f :: "string \<Rightarrow> ('a, unit) op"
    unfolding required_uuid_of_canonical [OF assms(3)] by (rule obind_known)
  show ?thesis
    unfolding embed_conversation_def Let_def c
    by (intro adds_intros g w)
qed

section \<open>Deletions\<close>

lemma rmap_canonical: "\<forall>c \<in> set cs. is_canonical c \<Longrightarrow> rmap (\<lambda>i. base_uuid_text i name) (map PStr cs) = Inr cs"
  by (induction cs) (simp_all add: base_uuid_text_canonical)

lemma adds_conversations_removed:
  assumes "honest (ce_weaviate ce) name content" "confined (ce_weaviate ce) name content"
  shows "only_adds content c (conversations_removed ce user ids)"
  unfolding conversations_removed_def conversation_delete_batch_verified_def conversation_verified_delete_def pyval.case
  by (intro adds_intros adds_verified_delete [OF assms])

lemma conversations_removed_gone:
  assumes "honest (ce_weaviate ce) (uc_name uc) content" "\<forall>c \<in> set ids. is_canonical c"
    and "open_user_collection (ce_pattern ce) (PStr user) conversations = Inr uc"
    and "conversations_removed ce user ids s = (Inr (), t)" "c \<in> set ids" "content t i = Some row"
  shows "uuid_prop row ''conversation_id'' \<noteq> Some c"
proof -
  have ne: "ids \<noteq> []"
    using assms(5) by auto
  obtain report where d: "verified_delete_saying ''conversation deletion verification is incomplete'' (ce_weaviate ce) uc
      (ByConversations (dedup ids)) s = (Inr report, t)"
    using assms(4) ne by (auto simp: conversations_removed_def conversation_delete_batch_verified_def obind_Inr_iff
        assms(3) rmap_canonical [OF assms(2)] conversation_verified_delete_def split: if_splits)
  from verified_delete_removes [OF assms(1) d, of i] assms(5,6) show ?thesis
    by (auto split: option.splits if_splits)
qed

end
