(* ===== verification/Chat_Effects.thy ===== *)
theory Chat_Effects
  imports Chat_Registry Wizard_Runtime
begin

text \<open>
  What each call of the chat registry does to the three things the rest of the service depends on: the conversations of
  a session, its active streams and the reservation for its deletion.
\<close>

definition same_sessions :: "chat_registry \<Rightarrow> chat_registry \<Rightarrow> bool" where
  "same_sessions s t \<longleftrightarrow> cr_inv t \<and> cr_sessions t = cr_sessions s \<and> cr_active_of t = cr_active_of s \<and> cr_deleting t = cr_deleting s"

lemma same_sessions_views: "cr_inv t \<Longrightarrow> same_views s t \<Longrightarrow> same_sessions s t"
  by (auto simp: same_sessions_def same_views_def cr_active_of_def fun_eq_iff)

lemma same_sessions_trans: "same_sessions s t \<Longrightarrow> same_sessions t u \<Longrightarrow> same_sessions s u"
  by (simp add: same_sessions_def)

lemma same_sessions_refl: "cr_inv s \<Longrightarrow> same_sessions s s"
  by (simp add: same_sessions_def)

lemma cr_get_effect:
  assumes "cr_inv s" "cr_get_session pat uid sid s = (r, t)"
  shows "same_sessions s t"
  using cr_get_same [OF assms] same_sessions_views by blast

lemma cr_list_effect:
  assumes "cr_inv s" "cr_list_sessions pat uid s = (r, t)"
  shows "same_sessions s t"
  using cr_list_same [OF assms] same_sessions_views by blast

lemma no_key:
  assumes "cr_key pat uid sid = Inl e"
  shows "cr_create_session pat uid sid s = (Inl e, s)" "cr_update_title pat uid sid ti s = (Inl e, s)"
    "cr_begin_chat_stream pat uid sid c s = (Inl e, s)" "cr_end_chat_stream pat uid sid c s = (Inl e, s)"
    "cr_reserve_deletion pat uid sid s = (Inl e, s)" "cr_abort_deletion pat uid sid s = (Inl e, s)"
    "cr_commit_deletion pat uid sid s = (Inl e, s)" "cr_record_conversation pat uid sid c q a s = (Inl e, s)"
  using assms by (simp_all add: cr_create_session_def cr_update_title_def cr_begin_chat_stream_def cr_end_chat_stream_def
      cr_reserve_deletion_def cr_abort_deletion_def cr_commit_deletion_def cr_record_conversation_def obind_def)

lemma cr_title_effect:
  assumes inv: "cr_inv s" and run: "cr_update_title pat uid sid ti s = (r, t)"
  shows "same_sessions s t"
proof (cases "cr_key pat uid sid")
  case (Inl e)
  then show ?thesis
    using run no_key(2) inv by (auto simp: same_sessions_refl)
next
  case key: (Inr key)
  show ?thesis
  proof (cases "validate_session_title ti")
    case (Inl e)
    then show ?thesis
      using run inv by (simp add: cr_update_title_def obind_def key same_sessions_refl)
  next
    case ti: (Inr title)
    have i: "cr_inv t"
      using cr_title_touches [OF inv key run] by (simp add: touches_def)
    from inv key show ?thesis
    proof (cases rule: cr_snapshot_spec)
      case (missing t0)
      then show ?thesis
        using run same_sessions_views by (simp add: cr_update_title_def obind_def key ti)
    next
      case (found t0 ids old ts)
      have "t = t0\<lparr>cr_titles := AList.update key title (cr_titles t0)\<rparr>"
        using run found(1) by (simp add: cr_update_title_def obind_def key ti)
      then show ?thesis
        using i found(3) by (auto simp: same_sessions_def same_views_def cr_sessions_def cr_active_of_def fun_eq_iff)
    qed
  qed
qed

lemma cr_begin_effect:
  assumes inv: "cr_inv s" and run: "cr_begin_chat_stream pat uid sid cid s = (r, t)"
  shows "(\<exists>e. r = Inl e) \<and> same_sessions s t \<or>
    (\<exists>key c. r = Inr () \<and> cr_key pat uid sid = Inr key \<and> required_uuid cid ''conversation_id'' = Inr c \<and> cr_inv t
       \<and> cr_sessions t = cr_sessions s \<and> cr_deleting t = cr_deleting s \<and> key \<notin> cr_deleting s \<and> cr_sessions s key \<noteq> None
       \<and> cr_active_of t = (cr_active_of s)(key := insert c (cr_active_of s key)))"
proof (cases "\<exists>e. cr_key pat uid sid = Inl e \<or> required_uuid cid ''conversation_id'' = Inl e")
  case True
  then show ?thesis
    using run inv by (cases "cr_key pat uid sid") (auto simp: cr_begin_chat_stream_def obind_def same_sessions_refl)
next
  case False
  then obtain key c where key: "cr_key pat uid sid = Inr key" and cid: "required_uuid cid ''conversation_id'' = Inr c"
    by (metis sum.exhaust)
  have i: "cr_inv t"
    using cr_begin_outcome [OF inv key cid run] by (simp add: touches_def)
  from inv key show ?thesis
  proof (cases rule: cr_snapshot_spec)
    case (missing t0)
    then show ?thesis
      using run same_sessions_views by (auto simp: cr_begin_chat_stream_def obind_def key cid)
  next
    case (found t0 ids old ts)
    have act: "cr_active_of t0 = cr_active_of s" and dl: "cr_deleting t0 = cr_deleting s" and ss: "cr_sessions t0 = cr_sessions s"
      using found(3) by (simp_all add: cr_active_of_def same_views_def fun_eq_iff)
    have upd: "cr_active_of (t0\<lparr>cr_active := AList.update key x (cr_active t0)\<rparr>) = (cr_active_of s)(key := x)" for x
      using act by (auto simp: cr_active_of_def update_conv' fun_eq_iff)
    have sess: "cr_sessions (t0\<lparr>cr_active := x\<rparr>) = cr_sessions s" for x
      using ss by (simp add: cr_sessions_def fun_eq_iff)
    let ?s1 = "t0\<lparr>cr_active := AList.update key (cr_active_of t0 key) (cr_active t0)\<rparr>"
    have same: "same_sessions s t0"
      by (rule same_sessions_views [OF found(2,3)])
    show ?thesis
    proof (cases "key \<in> cr_deleting s")
      case True
      then have "t = t0" "\<exists>e. r = Inl e"
        using run found(1) dl by (auto simp: cr_begin_chat_stream_def obind_def key cid)
      with same show ?thesis
        by blast
    next
      case nd: False
      show ?thesis
      proof (cases "c \<in> cr_active_of s key")
        case True
        then have t: "t = ?s1" "\<exists>e. r = Inl e"
          using run found(1) dl act nd by (auto simp: cr_begin_chat_stream_def obind_def key cid Let_def)
        have "cr_active_of ?s1 = cr_active_of s"
          unfolding upd act by simp
        then have "same_sessions s t"
          using i dl sess by (simp add: same_sessions_def t(1))
        with t(2) show ?thesis
          by blast
      next
        case False
        then have t: "t = t0\<lparr>cr_active := AList.update key (insert c (cr_active_of s key)) (cr_active t0)\<rparr>"
          and r: "r = Inr ()"
          using run found(1) dl act nd by (auto simp: cr_begin_chat_stream_def obind_def key cid Let_def)
        have "cr_active_of t = (cr_active_of s)(key := insert c (cr_active_of s key))"
          unfolding t by (rule upd)
        moreover have "cr_sessions t = cr_sessions s" "cr_deleting t = cr_deleting s"
          unfolding t by (rule sess) (simp add: dl)
        ultimately show ?thesis
          using r i nd found(4) key cid by blast
      qed
    qed
  qed
qed

lemma cr_end_effect:
  assumes inv: "cr_inv s" and key: "cr_key pat uid sid = Inr key" and cid: "required_uuid cid ''conversation_id'' = Inr c"
    and run: "cr_end_chat_stream pat uid sid cid s = (r, t)"
  shows "cr_inv t \<and> cr_sessions t = cr_sessions s \<and> cr_deleting t = cr_deleting s
    \<and> cr_active_of t = (cr_active_of s)(key := cr_active_of s key - {c})"
proof -
  have i: "cr_inv t"
    using cr_end_touches [OF inv key run] by (simp add: touches_def)
  show ?thesis
  proof (cases "map_of (cr_active s) key")
    case None
    then have "t = s"
      using run by (simp add: cr_end_chat_stream_def obind_def key cid)
    with None i show ?thesis
      by (auto simp: cr_active_of_def fun_eq_iff)
  next
    case (Some a)
    have "t = s\<lparr>cr_active := (if a - {c} = {} then AList.delete key (cr_active s) else AList.update key (a - {c}) (cr_active s))\<rparr>"
      using run Some by (simp add: cr_end_chat_stream_def obind_def key cid Let_def split: if_splits)
    with i Some show ?thesis
      by (auto simp: cr_active_of_def cr_sessions_def update_conv' delete_conv' fun_eq_iff)
  qed
qed

lemma touches_other:
  assumes "touches key s t" "k \<noteq> key"
  shows "cr_sessions t k = cr_sessions s k" "cr_active_of t k = cr_active_of s k" "k \<in> cr_deleting t \<longleftrightarrow> k \<in> cr_deleting s"
  using assms by (auto simp: touches_def cr_view_def cr_active_of_def)

lemma cr_reserve_effect:
  assumes inv: "cr_inv s" and run: "cr_reserve_deletion pat uid sid s = (r, t)"
  shows "(\<exists>e. r = Inl e) \<and> same_sessions s t \<or>
    (\<exists>key ids. r = Inr ids \<and> cr_key pat uid sid = Inr key \<and> cr_inv t \<and> cr_sessions s key = Some ids \<and> cr_active_of s key = {}
       \<and> key \<notin> cr_deleting s \<and> cr_sessions t = cr_sessions s \<and> cr_active_of t = cr_active_of s
       \<and> cr_deleting t = insert key (cr_deleting s))"
proof (cases "cr_key pat uid sid")
  case (Inl e)
  then show ?thesis
    using run no_key(5) inv by (auto simp: same_sessions_refl)
next
  case key: (Inr key)
  note o = cr_reserve_outcome [OF inv key run]
  have oth: "cr_sessions t k = cr_sessions s k" "cr_active_of t k = cr_active_of s k" "k \<in> cr_deleting t \<longleftrightarrow> k \<in> cr_deleting s"
    if "k \<noteq> key" for k
    using touches_other o that by blast+
  have i: "cr_inv t"
    using o by (simp add: touches_def)
  show ?thesis
  proof (cases r)
    case (Inl e)
    then have v: "cr_view t key = cr_view s key"
      using o by blast
    have "cr_sessions t k = cr_sessions s k" "cr_active_of t k = cr_active_of s k" "k \<in> cr_deleting t \<longleftrightarrow> k \<in> cr_deleting s" for k
      using oth [of k] v by (cases "k = key"; simp add: cr_view_def cr_active_of_def)+
    with i Inl show ?thesis
      by (auto simp: same_sessions_def fun_eq_iff)
  next
    case (Inr ids)
    then have v: "cr_sessions s key = Some ids" "key \<notin> cr_deleting s" "map_of (cr_active s) key = None"
        "cr_view t key = (cr_view s key)\<lparr>sv_deleting := True\<rparr>"
      using o by blast+
    have "cr_sessions t k = cr_sessions s k" "cr_active_of t k = cr_active_of s k" for k
      using oth [of k] v(4) by (cases "k = key"; simp add: cr_view_def cr_active_of_def)+
    moreover have "k \<in> cr_deleting t \<longleftrightarrow> k \<in> insert key (cr_deleting s)" for k
      using oth(3) [of k] v(4) by (cases "k = key") (simp_all add: cr_view_def)
    then have "cr_deleting t = insert key (cr_deleting s)"
      by (rule set_eqI)
    ultimately show ?thesis
      using i Inr key v by (auto simp: fun_eq_iff cr_active_of_def)
  qed
qed

lemma cr_abort_effect:
  assumes inv: "cr_inv s" and key: "cr_key pat uid sid = Inr key" and run: "cr_abort_deletion pat uid sid s = (r, t)"
  shows "cr_inv t \<and> cr_sessions t = cr_sessions s \<and> cr_active_of t = cr_active_of s \<and> cr_deleting t = cr_deleting s - {key}"
proof -
  have "cr_inv t"
    using cr_abort_touches [OF inv key run] by (simp add: touches_def)
  moreover have "t = s\<lparr>cr_deleting := cr_deleting s - {key}\<rparr>"
    using run by (simp add: cr_abort_deletion_def obind_def key)
  ultimately show ?thesis
    by (simp add: cr_sessions_def cr_active_of_def fun_eq_iff)
qed

lemma cr_commit_effect:
  assumes inv: "cr_inv s" and key: "cr_key pat uid sid = Inr key" and run: "cr_commit_deletion pat uid sid s = (r, t)"
    and d: "key \<in> cr_deleting s"
  shows "(\<exists>ids. cr_sessions s key = Some ids \<and> r = Inr ids) \<and> cr_inv t \<and> cr_sessions t = (cr_sessions s)(key := None)
    \<and> cr_active_of t = (cr_active_of s)(key := {}) \<and> cr_deleting t = cr_deleting s - {key}"
proof -
  note o = cr_commit_outcome [OF inv key run]
  have v: "touches key s t" "\<exists>ids. cr_sessions s key = Some ids \<and> r = Inr ids" "cr_view t key = gone_view"
    using o d by auto
  have k: "cr_sessions t key = None" "map_of (cr_active t) key = None" "key \<notin> cr_deleting t"
    using v(3) by (simp_all add: cr_view_def gone_view_def)
  have "cr_sessions t k = ((cr_sessions s)(key := None)) k" "cr_active_of t k = ((cr_active_of s)(key := {})) k"
    "k \<in> cr_deleting t \<longleftrightarrow> k \<in> cr_deleting s - {key}" for k
    using touches_other [OF v(1), of k] k by (cases "k = key"; simp add: cr_active_of_def)+
  then have "cr_sessions t = (cr_sessions s)(key := None)" "cr_active_of t = (cr_active_of s)(key := {})"
    "cr_deleting t = cr_deleting s - {key}"
    by (simp_all only: fun_eq_iff set_eq_iff simp_thms)
  then show ?thesis
    using v(1,2) by (simp add: touches_def)
qed

lemma cr_create_effect:
  assumes inv: "cr_inv s" and run: "cr_create_session pat uid sid s = (r, t)"
    and "\<And>key. cr_key pat uid sid = Inr key \<Longrightarrow> cr_sessions s key = None"
  shows "same_sessions s t \<or> (\<exists>key. cr_key pat uid sid = Inr key \<and> cr_inv t \<and> cr_sessions t = (cr_sessions s)(key \<mapsto> [])
       \<and> cr_active_of t = cr_active_of s \<and> cr_deleting t = cr_deleting s)"
proof (cases "cr_key pat uid sid")
  case (Inl e)
  then show ?thesis
    using run no_key(1) inv by (auto simp: same_sessions_refl)
next
  case key: (Inr key)
  have i: "touches key s t"
    using cr_create_touches [OF inv key run] by simp
  obtain m t0 where m: "map_of (cr_maps t0) (fst key) = Some m" and t0: "cr_inv t0" "same_views s t0"
    and mi: "sm_inv m" "sm_user m = fst key" "cr_sessions s key = map_of (sm_sessions m) (snd key)"
    and cm: "cr_map pat (fst key) s = (Inr m, t0)"
    by (rule cr_on_map_apply [OF inv key])
  note onm = cr_on_map_eval [OF cm]
  obtain q m' where q: "sm_create_session (PStr (snd key)) m = (q, m')"
    by fastforce
  show ?thesis
  proof (cases q)
    case (Inl e)
    then have "m' = m"
      using sm_create_session_spec(2) [OF mi(1) q] by simp
    then have "t = t0\<lparr>cr_maps := AList.update (fst key) m (cr_maps t0)\<rparr>"
      using run Inl q by (simp add: cr_create_session_def obind_def key onm)
    then show ?thesis
      using same_views_put_same [OF t0(1) m] t0(2) same_views_trans same_sessions_views by blast
  next
    case (Inr x)
    then have m': "m' = m\<lparr>sm_sessions := AList.update (snd key) [] (sm_sessions m)\<rparr>"
      using sm_create_session_spec(3) [OF mi(1) q] canonical_not_blank [OF cr_key_Inr [OF key, THEN conjunct2]]
      by (auto simp: required_identifier_def)
    let ?t1 = "t0\<lparr>cr_maps := AList.update (fst key) m' (cr_maps t0),
        cr_titles := AList.update key ''New Chat'' (cr_titles t0),
        cr_transcripts := AList.update key [] (cr_transcripts t0)\<rparr>"
    have "cr_sessions (t0\<lparr>cr_maps := AList.update (fst key) m' (cr_maps t0)\<rparr>) = (cr_sessions t0)((fst key, snd key) := Some [])"
      by (rule cr_sessions_put [OF m]) (simp add: m' update_conv')
    then have sess: "cr_sessions ?t1 = (cr_sessions s)(key \<mapsto> [])"
      using t0(2) by (simp add: cr_sessions_def [abs_def] same_views_def)
    have snap: "cr_snapshot_locked pat (fst key) (snd key) ?t1 = (r, t)"
      using run Inr q by (simp add: cr_create_session_def obind_def key onm)
    have inv1: "cr_inv ?t1"
    proof -
      have none: "cr_sessions t0 key = None"
        using assms(3) [OF key] t0(2) by (simp add: same_views_def)
      have "touches key t0 ?t1 \<and> sv_ids (cr_view ?t1 key) = Some []"
      proof (rule cr_replace_map [OF t0(1) m])
        assume "sv_ids (cr_view ?t1 key) = Some []"
        then show "view_ok (cr_view ?t1 key)"
          using view_none [OF t0(1) none] by (simp add: cr_view_def view_ok_def update_conv' transcripts_ok_def)
      qed (use sm_create_session_spec(1) [OF mi(1) q] m' mi(2) in \<open>simp_all add: update_conv'\<close>)
      then show ?thesis
        by (simp add: touches_def)
    qed
    from cr_snapshot_touches [OF inv1 key snap] have sv: "cr_inv t" "same_views ?t1 t"
      by blast+
    have "cr_active_of ?t1 = cr_active_of s" "cr_deleting ?t1 = cr_deleting s"
      using t0(2) by (simp_all add: same_views_def cr_active_of_def fun_eq_iff)
    then show ?thesis
      using sess same_sessions_views [OF sv] key by (auto simp: same_sessions_def)
  qed
qed

lemma cr_record_effect:
  assumes inv: "cr_inv s" and key: "cr_key pat uid sid = Inr key" and cid: "required_uuid cid ''conversation_id'' = Inr c"
    and qa: "not_blank qu ''question'' = Inr q" "not_blank an ''answer'' = Inr a"
    and ok: "cr_sessions s key = Some ids" "key \<notin> cr_deleting s" "\<And>k cs. cr_sessions s k = Some cs \<Longrightarrow> c \<notin> set cs"
    and run: "cr_record_conversation pat uid sid cid qu an s = (r, t)"
  shows "r = Inr () \<and> cr_inv t \<and> cr_sessions t = (cr_sessions s)(key \<mapsto> ids @ [c]) \<and> cr_active_of t = cr_active_of s
    \<and> cr_deleting t = cr_deleting s"
proof -
  note u = cr_key_Inr [OF key]
  have i: "touches key s t"
    using cr_record_touches [OF inv key run] by simp
  obtain m t0 where m: "map_of (cr_maps t0) (fst key) = Some m" and t0: "cr_inv t0" "same_views s t0"
    and mi: "sm_inv m" "sm_user m = fst key" "cr_sessions s key = map_of (sm_sessions m) (snd key)"
    and cm: "cr_map pat (fst key) s = (Inr m, t0)"
    by (rule cr_on_map_apply [OF inv key])
  note onm = cr_on_map_eval [OF cm]
  have sm: "map_of (sm_sessions m) (snd key) = Some ids"
    using mi(3) ok(1) by simp
  have free: "map_of (sm_owners m) c = None"
  proof (rule ccontr)
    assume "map_of (sm_owners m) c \<noteq> None"
    then obtain k where k: "map_of (sm_owners m) c = Some k"
      by auto
    have "owner_index (sm_sessions m) (sm_owners m)"
      using mi(1) unfolding sm_inv_def by (rule conjunct1)
    from iffD1 [OF inverse_mapsD(2) [OF owner_indexD(3) [OF this]] k]
    obtain cs where "map_of (sm_sessions m) k = Some cs" "c \<in> set cs"
      by (elim exE conjE)
    then have "cr_sessions t0 (fst key, k) = Some cs" "c \<in> set cs"
      by (simp_all add: cr_sessions_def m)
    with ok(3) [of "(fst key, k)" cs] t0(2) show False
      by (simp add: same_views_def)
  qed
  let ?m = "m\<lparr>sm_sessions := AList.update (snd key) (ids @ [c]) (sm_sessions m), sm_owners := AList.update c (snd key) (sm_owners m)\<rparr>"
  have cc: "required_uuid (PStr c) ''conversation_id'' = Inr c" "required_identifier (PStr (snd key)) ''session_id'' = Inr (snd key)"
    using required_uuid_of_canonical [OF required_uuid_canonical [OF cid]] canonical_not_blank [OF u [THEN conjunct2]]
    by (auto simp: required_identifier_def)
  have q: "sm_add_conversation (PStr (snd key)) (PStr c) m = (Inr (), ?m)"
    by (simp add: sm_add_conversation_def obind_def cc sm free dict_get_def)
  obtain title ts where v: "map_of (cr_transcripts t0) key = Some ts"
    using view_some [OF t0(1), of key ids] ok(1) t0(2) by (auto simp: same_views_def)
  have t: "r = Inr ()" "t = t0\<lparr>cr_maps := AList.update (fst key) ?m (cr_maps t0),
        cr_transcripts := AList.update key (AList.update c \<lparr>ct_id = c, ct_question = q, ct_answer = a\<rparr> ts) (cr_transcripts t0)\<rparr>"
    using run ok(2) q v by (simp_all add: cr_record_conversation_def obind_def key cid qa onm dict_get_def)
  have "cr_sessions (t0\<lparr>cr_maps := AList.update (fst key) ?m (cr_maps t0)\<rparr>) = (cr_sessions t0)((fst key, snd key) := Some (ids @ [c]))"
    by (rule cr_sessions_put [OF m]) (simp add: update_conv')
  then have "cr_sessions t = (cr_sessions s)(key \<mapsto> ids @ [c])"
    using t0(2) unfolding t(2) by (simp add: cr_sessions_def [abs_def] same_views_def)
  moreover have "cr_active_of t = cr_active_of s" "cr_deleting t = cr_deleting s"
    using t0(2) by (simp_all add: t(2) same_views_def cr_active_of_def fun_eq_iff)
  ultimately show ?thesis
    using t(1) i by (simp add: touches_def)
qed

end
