(* ===== verification/Task_Pending.thy ===== *)
theory Task_Pending
  imports Task_Queue
begin

text \<open>
  What each step of the task queue does to the tasks of a user that have been accepted and have not ended: the running
  one, then the queued ones in the order of the queue.
\<close>

definition pending_ids :: "task_queue \<Rightarrow> string \<Rightarrow> string list" where
  "pending_ids q u = busy_ids (tq_workers q u) @ queued_ids (tq_queues q u)"

lemma pending_user_ids:
  assumes "tq_inv q"
  shows "\<exists>fin. user_ids (tq_objects q) u = fin @ pending_ids q u"
  using tq_invD(3) [OF assms, of u] by (auto simp: user_ok_def pending_ids_def)

lemma pending_known:
  assumes "tq_inv q" "i \<in> set (pending_ids q u)"
  shows "i \<in> fst ` set (tq_objects q)" "distinct (pending_ids q u)"
    and "i \<in> set (pending_ids q v) \<Longrightarrow> v = u"
proof -
  have d: "distinct (map fst (tq_objects q))"
    using tq_invD(1) [OF assms(1)] by (simp add: store_ok_def)
  have mem: "j \<in> set (user_ids (tq_objects q) v)" if "j \<in> set (pending_ids q v)" for j v
    using pending_user_ids [OF assms(1), of v] that by auto
  show "i \<in> fst ` set (tq_objects q)"
    using mem [OF assms(2)] by (auto simp: user_ids_def)
  show "distinct (pending_ids q u)"
    using pending_user_ids [OF assms(1), of u] distinct_user_ids [OF d, of u] by auto
  assume "i \<in> set (pending_ids q v)"
  from mem [OF this] mem [OF assms(2)] show "v = u"
    unfolding in_user_ids [OF d] by auto
qed

lemma enqueue_pending:
  assumes "tq_inv q" "i \<notin> fst ` set (tq_objects q)" "tq_enqueue pat i now (PStr u) oper True q = (Inr x, t)"
  shows "x = i" "tq_inv t" "pending_ids t = (pending_ids q)(u := pending_ids q u @ [i])"
    "busy_ids (tq_workers t v) = busy_ids (tq_workers q v)" "fst ` set (tq_objects t) = insert i (fst ` set (tq_objects q))"
proof -
  obtain name where t: "x = i" "t = tq_accept i u name now q"
    using assms(3) by (auto simp: tq_enqueue_def obind_def validated_user_id_def rbind_Inr_iff split: sum.splits if_splits)
  show b: "busy_ids (tq_workers t v) = busy_ids (tq_workers q v)" for v
    by (auto simp: t(2) tq_accept_def Let_def tq_done_def)
  have "queued_ids (tq_queues t v) = queued_ids (tq_queues q v) @ (if u = v then [i] else [])" for v
    by (auto simp: t(2) tq_accept_def Let_def tq_put_def split: option.splits)
  with b show "pending_ids t = (pending_ids q)(u := pending_ids q u @ [i])"
    by (auto simp: pending_ids_def fun_eq_iff)
  show "x = i" "tq_inv t"
    using t(1) tq_enqueue_keeps [OF assms] by simp_all
  show "fst ` set (tq_objects t) = insert i (fst ` set (tq_objects q))"
    by (auto simp: t(2) tq_accept_def Let_def dom_update)
qed

lemma enqueue_refused: "tq_enqueue pat i now uid oper c q = (Inl e, t) \<Longrightarrow> t = q"
  by (auto simp: tq_enqueue_def obind_def split: sum.splits if_splits)

lemma take_pending:
  assumes inv: "tq_inv q" and run: "tq_take now u q = Some t"
  shows "tq_inv t" "tq_workers q u = Some Waiting" "pending_ids t = pending_ids q" "v \<noteq> u \<Longrightarrow> tq_workers t v = tq_workers q v"
proof -
  obtain p x rest where w: "tq_workers q u = Some Waiting" and p: "tq_queues q u = Some p" and items: "uq_items p = x # rest"
    using run by (auto simp: tq_take_def split: option.splits worker.splits list.splits)
  show "tq_inv t"
    by (rule tq_take_keeps [OF inv run])
  show "tq_workers q u = Some Waiting"
    by (rule w)
  show "v \<noteq> u \<Longrightarrow> tq_workers t v = tq_workers q v"
    using run by (auto simp: tq_take_def w p items split: item.splits if_splits)
  have "pending_ids t u = pending_ids q u"
  proof (cases x)
    case Stop
    then show ?thesis
      using run by (auto simp: tq_take_def w p items pending_ids_def tq_task_done_def)
  next
    case (Task i)
    have "i \<in> set (tq_live q)"
      using tq_invD(3) [OF inv, of u] by (simp add: user_ok_def w p items Task)
    then show ?thesis
      using run by (auto simp: tq_take_def w p items Task pending_ids_def)
  qed
  moreover have "pending_ids t v = pending_ids q v" if "v \<noteq> u" for v
    using run that by (auto simp: tq_take_def w p items pending_ids_def split: item.splits if_splits)
  ultimately show "pending_ids t = pending_ids q"
    by (intro ext) metis
qed

lemma finish_pending:
  assumes inv: "tq_inv q" and run: "tq_finish now u outcome q = Some t"
  shows "tq_inv t" "\<exists>i. tq_workers q u = Some (Busy i) \<and> pending_ids q u = i # pending_ids t u"
    "v \<noteq> u \<Longrightarrow> pending_ids t v = pending_ids q v" "v \<noteq> u \<Longrightarrow> tq_workers t v = tq_workers q v" "busy_ids (tq_workers t u) = []"
proof -
  obtain i p where w: "tq_workers q u = Some (Busy i)" and p: "tq_queues q u = Some p"
    using run by (auto simp: tq_finish_def split: option.splits worker.splits)
  have t: "tq_workers t = (tq_workers q)(u \<mapsto> (if outcome = WorkCancelled then Cancelled else Waiting))"
    "tq_queues t = (tq_queues q)(u \<mapsto> tq_task_done p)"
    using run by (auto simp: tq_finish_def w p tq_retain_completed_def split: prod.splits)
  show "tq_inv t"
    by (rule tq_finish_keeps [OF inv run])
  show "\<exists>i. tq_workers q u = Some (Busy i) \<and> pending_ids q u = i # pending_ids t u"
    by (simp add: w p t pending_ids_def tq_task_done_def)
  show "v \<noteq> u \<Longrightarrow> pending_ids t v = pending_ids q v" "v \<noteq> u \<Longrightarrow> tq_workers t v = tq_workers q v" "busy_ids (tq_workers t u) = []"
    by (simp_all add: t pending_ids_def)
qed

lemma close_pending:
  assumes inv: "tq_inv q" and run: "tq_close_begin q = Some t \<or> tq_close_stop q = Some t \<or> tq_close_end q = Some t"
  shows "tq_inv t" "pending_ids t = pending_ids q" "busy_ids (tq_workers t v) = busy_ids (tq_workers q v)"
proof -
  show "tq_inv t"
    by (rule tq_close_keeps [OF inv run])
  consider (workers) "tq_workers t = tq_workers q" "\<And>u. queued_ids (tq_queues t u) = queued_ids (tq_queues q u)"
    | (ending) "tq_phase q = Stopping" "tq_workers t = (\<lambda>_. None)" "tq_queues t = (\<lambda>_. None)"
    using run by (auto simp: tq_close_begin_def tq_close_stop_def tq_close_end_def queued_ids_def tq_put_def split: if_splits option.splits)
  then have "busy_ids (tq_workers t u) = busy_ids (tq_workers q u) \<and> queued_ids (tq_queues t u) = queued_ids (tq_queues q u)" for u
    by cases (use tq_invD(2) [OF inv] in \<open>auto simp: phase_ok_def\<close>)
  then show "busy_ids (tq_workers t v) = busy_ids (tq_workers q v)" "pending_ids t = pending_ids q"
    by (simp_all add: pending_ids_def fun_eq_iff)
qed

end
