(* ===== verification/Chat_Invariant.thy ===== *)
theory Chat_Invariant
  imports Chat_Content Chat_Effects Task_Pending
begin

text \<open>
  What holds between the registry, the streams, the reservations and the queue of the chat service in every reachable
  state, first of the parts, one lemma for each kind of change, then of the whole service.
\<close>

declare split_paired_All [simp del] split_paired_Ex [simp del]

section \<open>The parts\<close>

definition key_of :: "user_pattern \<Rightarrow> string \<Rightarrow> string \<Rightarrow> session_key res" where
  "key_of pat user session = cr_key pat (PStr user) (PStr session)"

lemma key_of_user: "key_of pat user session = Inr key \<Longrightarrow> fst key = user"
  by (auto simp: key_of_def cr_key_def rbind_Inr_iff validated_user_id_def)

text \<open>A stream that has not ended holds its session, and nothing has been said in it.\<close>

definition early :: "stream_phase \<Rightarrow> bool" where
  "early p \<longleftrightarrow> p \<in> {Opened, Unstarted, Asking, Receiving}"

definition stream_ok ::
    "user_pattern \<Rightarrow> (session_key \<Rightarrow> string set) \<Rightarrow> string set \<Rightarrow> (session_key \<times> string) set \<Rightarrow> string \<Rightarrow> chat_stream \<Rightarrow> bool" where
  "stream_ok pat active uuids said c sr \<longleftrightarrow> is_canonical c \<and> c \<in> uuids \<and> strip (cs_question sr) \<noteq> []
     \<and> (case key_of pat (cs_user sr) (cs_session sr) of Inl _ \<Rightarrow> False | Inr key \<Rightarrow> c \<in> active key)
     \<and> (early (cs_phase sr) \<longrightarrow> c \<notin> snd ` said)"

definition streams_ok ::
    "user_pattern \<Rightarrow> (session_key \<Rightarrow> string set) \<Rightarrow> string set \<Rightarrow> (session_key \<times> string) set \<Rightarrow> (string, chat_stream) dict \<Rightarrow> bool" where
  "streams_ok pat active uuids said streams \<longleftrightarrow> (\<forall>c sr. map_of streams c = Some sr \<longrightarrow> stream_ok pat active uuids said c sr)"

lemma streams_update:
  assumes "\<And>d x. d \<noteq> c \<Longrightarrow> stream_ok pat active uuids said d x \<Longrightarrow> stream_ok pat active' uuids' said' d x"
    and "streams_ok pat active uuids said streams"
  shows "stream_ok pat active' uuids' said' c sr \<Longrightarrow> streams_ok pat active' uuids' said' (AList.update c sr streams)"
    "streams_ok pat active' uuids' said' (AList.delete c streams)"
  using assms by (simp_all add: streams_ok_def update_conv' delete_conv')

text \<open>What was said in a session is what the session lists, as long as it exists.\<close>

definition said_ok :: "(session_key \<Rightarrow> string list option) \<Rightarrow> string set \<Rightarrow> (session_key \<times> string) set \<Rightarrow> bool" where
  "said_ok sessions uuids said \<longleftrightarrow>
     (\<forall>k c. (k, c) \<in> said \<longrightarrow> is_canonical c \<and> c \<in> uuids \<and> snd k \<in> uuids)
     \<and> (\<forall>k k' c. (k, c) \<in> said \<longrightarrow> (k', c) \<in> said \<longrightarrow> k' = k)
     \<and> (\<forall>k ids. sessions k = Some ids \<longrightarrow> snd k \<in> uuids \<and> set ids = {c. (k, c) \<in> said})"

lemma said_okD:
  assumes "said_ok sessions uuids said"
  shows "(k, c) \<in> said \<Longrightarrow> is_canonical c \<and> c \<in> uuids \<and> snd k \<in> uuids"
    "(k, c) \<in> said \<Longrightarrow> (k', c) \<in> said \<Longrightarrow> k' = k"
    "sessions k = Some ids \<Longrightarrow> snd k \<in> uuids \<and> set ids = {c. (k, c) \<in> said}"
  using assms unfolding said_ok_def by blast+

lemma said_okI:
  assumes "\<And>k c. (k, c) \<in> said \<Longrightarrow> is_canonical c \<and> c \<in> uuids \<and> snd k \<in> uuids"
    "\<And>k k' c. (k, c) \<in> said \<Longrightarrow> (k', c) \<in> said \<Longrightarrow> k' = k"
    "\<And>k ids. sessions k = Some ids \<Longrightarrow> snd k \<in> uuids \<and> set ids = {c. (k, c) \<in> said}"
  shows "said_ok sessions uuids said"
  using assms unfolding said_ok_def by blast

definition fits ::
    "user_pattern \<Rightarrow> (session_key \<Rightarrow> string list option) \<Rightarrow> session_key set \<Rightarrow> (session_key \<times> string) set \<Rightarrow> string \<Rightarrow> chat_work \<Rightarrow> bool" where
  "fits pat sessions deleting said u work =
     (case work of
        StoreWork cw \<Rightarrow> (\<exists>key. fst key = u \<and> (key, cw_conversation cw) \<in> said \<and> sessions key \<noteq> None)
      | DeleteWork user session ids \<Rightarrow>
          (\<exists>key. key_of pat user session = Inr key \<and> fst key = u \<and> key \<in> deleting \<and> sessions key = Some ids)
      | TitleWork _ _ \<Rightarrow> True)"

definition deletes_key :: "user_pattern \<Rightarrow> session_key \<Rightarrow> chat_work \<Rightarrow> bool" where
  "deletes_key pat key work \<longleftrightarrow> (\<exists>user session ids. work = DeleteWork user session ids \<and> key_of pat user session = Inr key)"

definition stores_in :: "(session_key \<times> string) set \<Rightarrow> session_key \<Rightarrow> chat_work \<Rightarrow> bool" where
  "stores_in said key work \<longleftrightarrow> (\<exists>cw. work = StoreWork cw \<and> (key, cw_conversation cw) \<in> said)"

text \<open>After the work that deletes a session comes no work that stores or deletes in it.\<close>

definition follows :: "user_pattern \<Rightarrow> (session_key \<times> string) set \<Rightarrow> chat_work \<Rightarrow> chat_work \<Rightarrow> bool" where
  "follows pat said a b \<longleftrightarrow> (\<forall>key. deletes_key pat key a \<longrightarrow> \<not> stores_in said key b \<and> \<not> deletes_key pat key b)"

definition works_ok ::
    "user_pattern \<Rightarrow> (session_key \<Rightarrow> string list option) \<Rightarrow> session_key set \<Rightarrow> (session_key \<times> string) set \<Rightarrow> (string \<Rightarrow> chat_work list) \<Rightarrow> bool" where
  "works_ok pat sessions deleting said pend \<longleftrightarrow>
     (\<forall>u. (\<forall>work \<in> set (pend u). fits pat sessions deleting said u work) \<and> sorted_wrt (follows pat said) (pend u))"

text \<open>A reservation is of one request, and its session has no deletion on the queue.\<close>

type_synonym deletion_request = "string \<times> string \<times> string list"

definition request_key :: "user_pattern \<Rightarrow> deletion_request \<Rightarrow> session_key res" where
  "request_key pat x = key_of pat (fst x) (fst (snd x))"

definition request_ok ::
    "user_pattern \<Rightarrow> (session_key \<Rightarrow> string list option) \<Rightarrow> session_key set \<Rightarrow> deletion_request set
     \<Rightarrow> (string \<Rightarrow> chat_work list) \<Rightarrow> deletion_request \<Rightarrow> session_key \<Rightarrow> bool" where
  "request_ok pat sessions deleting requests pend x key \<longleftrightarrow>
     request_key pat x = Inr key \<and> key \<in> deleting \<and> sessions key = Some (snd (snd x))
     \<and> (\<forall>work \<in> set (pend (fst x)). \<not> deletes_key pat key work) \<and> (\<forall>y \<in> requests. request_key pat y = Inr key \<longrightarrow> y = x)"

lemma request_okD:
  assumes "request_ok pat sessions deleting requests pend x key"
  shows "request_key pat x = Inr key" "key \<in> deleting" "sessions key = Some (snd (snd x))"
    "work \<in> set (pend (fst x)) \<Longrightarrow> \<not> deletes_key pat key work" "y \<in> requests \<Longrightarrow> request_key pat y = Inr key \<Longrightarrow> y = x"
  using assms unfolding request_ok_def by blast+

lemma request_okI:
  assumes "request_key pat x = Inr key" "key \<in> deleting" "sessions key = Some (snd (snd x))"
    "\<And>work. work \<in> set (pend (fst x)) \<Longrightarrow> \<not> deletes_key pat key work" "\<And>y. y \<in> requests \<Longrightarrow> request_key pat y = Inr key \<Longrightarrow> y = x"
  shows "request_ok pat sessions deleting requests pend x key"
  using assms unfolding request_ok_def by blast

definition reserved_ok ::
    "user_pattern \<Rightarrow> (session_key \<Rightarrow> string list option) \<Rightarrow> session_key set \<Rightarrow> deletion_request list
     \<Rightarrow> (string \<Rightarrow> chat_work list) \<Rightarrow> bool" where
  "reserved_ok pat sessions deleting requests pend \<longleftrightarrow>
     (\<forall>x \<in> set requests. \<exists>key. request_ok pat sessions deleting (set requests) pend x key)"

lemma reserved_okD:
  assumes "reserved_ok pat sessions deleting requests pend" "x \<in> set requests"
  obtains key where "request_ok pat sessions deleting (set requests) pend x key"
  using assms unfolding reserved_ok_def by blast

text \<open>What a change must keep so that the reservations stay in order.\<close>

lemma reserved_mono:
  assumes "reserved_ok pat sessions deleting requests pend" "set requests' \<subseteq> set requests"
    and "\<And>x key. x \<in> set requests' \<Longrightarrow> request_ok pat sessions deleting (set requests) pend x key \<Longrightarrow>
      key \<in> deleting' \<and> sessions' key = sessions key \<and> (\<forall>work \<in> set (pend' (fst x)). \<not> deletes_key pat key work)"
  shows "reserved_ok pat sessions' deleting' requests' pend'"
  unfolding reserved_ok_def
proof
  fix x assume x: "x \<in> set requests'"
  obtain key where key: "request_ok pat sessions deleting (set requests) pend x key"
    using reserved_okD [OF assms(1)] x assms(2) by blast
  have "request_ok pat sessions' deleting' (set requests') pend' x key"
    by (rule request_okI) (use assms(3) [OF x key] request_okD [OF key] assms(2) in \<open>simp_all add: subset_iff\<close>)
  then show "\<exists>key. request_ok pat sessions' deleting' (set requests') pend' x key" ..
qed

definition held_ok :: "(session_key \<Rightarrow> string list option) \<Rightarrow> (session_key \<Rightarrow> string set) \<Rightarrow> session_key set \<Rightarrow> bool" where
  "held_ok sessions active deleting \<longleftrightarrow>
     (\<forall>k. (active k \<noteq> {} \<longrightarrow> k \<notin> deleting \<and> sessions k \<noteq> None) \<and> (k \<in> deleting \<longrightarrow> sessions k \<noteq> None))"

text \<open>Every reservation for a deletion is in the hands of a request or of a deletion on the queue.\<close>

definition covered ::
    "user_pattern \<Rightarrow> session_key set \<Rightarrow> deletion_request list \<Rightarrow> (string \<Rightarrow> chat_work list) \<Rightarrow> bool" where
  "covered pat deleting requests pend \<longleftrightarrow> (\<forall>key \<in> deleting.
     (\<exists>x \<in> set requests. request_key pat x = Inr key) \<or> (\<exists>u. \<exists>work \<in> set (pend u). deletes_key pat key work))"

lemma covered_mono:
  assumes "covered pat deleting requests pend" "deleting' \<subseteq> deleting"
    and "\<And>x key. key \<in> deleting' \<Longrightarrow> x \<in> set requests \<Longrightarrow> request_key pat x = Inr key \<Longrightarrow>
      x \<in> set requests' \<or> (\<exists>u. \<exists>work \<in> set (pend' u). deletes_key pat key work)"
    and "\<And>u work key. key \<in> deleting' \<Longrightarrow> work \<in> set (pend u) \<Longrightarrow> deletes_key pat key work \<Longrightarrow> work \<in> set (pend' u)"
  shows "covered pat deleting' requests' pend'"
  unfolding covered_def
proof
  fix key assume key: "key \<in> deleting'"
  with assms(1,2) consider x where "x \<in> set requests" "request_key pat x = Inr key"
    | u work where "work \<in> set (pend u)" "deletes_key pat key work"
    unfolding covered_def by blast
  then show "(\<exists>x \<in> set requests'. request_key pat x = Inr key) \<or> (\<exists>u. \<exists>work \<in> set (pend' u). deletes_key pat key work)"
  proof cases
    case 1
    with assms(3) [OF key 1] show ?thesis
      by blast
  next
    case 2
    with assms(4) [OF key 2] show ?thesis
      by blast
  qed
qed

definition parts_ok ::
    "user_pattern \<Rightarrow> (session_key \<Rightarrow> string list option) \<Rightarrow> (session_key \<Rightarrow> string set) \<Rightarrow> session_key set \<Rightarrow> string set
     \<Rightarrow> (session_key \<times> string) set \<Rightarrow> (string, chat_stream) dict \<Rightarrow> (string \<times> string \<times> string list) list
     \<Rightarrow> (string \<Rightarrow> chat_work list) \<Rightarrow> bool" where
  "parts_ok pat sessions active deleting uuids said streams requests pend \<longleftrightarrow>
     streams_ok pat active uuids said streams \<and> said_ok sessions uuids said \<and> works_ok pat sessions deleting said pend
     \<and> reserved_ok pat sessions deleting requests pend \<and> held_ok sessions active deleting
     \<and> covered pat deleting requests pend"

lemma parts_okI:
  assumes "streams_ok pat active uuids said streams" "said_ok sessions uuids said" "works_ok pat sessions deleting said pend"
    "reserved_ok pat sessions deleting requests pend" "held_ok sessions active deleting" "covered pat deleting requests pend"
  shows "parts_ok pat sessions active deleting uuids said streams requests pend"
  using assms by (simp add: parts_ok_def)

lemma parts_okD:
  assumes "parts_ok pat sessions active deleting uuids said streams requests pend"
  shows "streams_ok pat active uuids said streams" "said_ok sessions uuids said" "works_ok pat sessions deleting said pend"
    "reserved_ok pat sessions deleting requests pend" "held_ok sessions active deleting" "covered pat deleting requests pend"
  using assms by (simp_all add: parts_ok_def)

subsection \<open>Sessions and streams\<close>

lemma parts_uuid:
  assumes "parts_ok pat sessions active deleting uuids said streams requests pend"
  shows "parts_ok pat sessions active deleting (insert x uuids) said streams requests pend"
  using assms by (simp add: parts_ok_def streams_ok_def stream_ok_def said_ok_def)

lemma parts_create:
  assumes ok: "parts_ok pat sessions active deleting uuids said streams requests pend" and new: "snd key \<notin> uuids"
  shows "parts_ok pat (sessions(key \<mapsto> [])) active deleting (insert (snd key) uuids) said streams requests pend"
proof (rule parts_okI)
  note p = parts_okD [OF ok]
  have none: "sessions key = None"
    using p(2) new unfolding said_ok_def by (metis option.exhaust)
  show "streams_ok pat active (insert (snd key) uuids) said streams"
    using p(1) by (simp add: streams_ok_def stream_ok_def)
  show "said_ok (sessions(key \<mapsto> [])) (insert (snd key) uuids) said"
    using p(2) new unfolding said_ok_def by auto
  have "fits pat (sessions(key \<mapsto> [])) deleting said u work" if "fits pat sessions deleting said u work" for u work
    using that none by (cases work) (auto simp: fits_def)
  with p(3) show "works_ok pat (sessions(key \<mapsto> [])) deleting said pend"
    by (simp add: works_ok_def)
  show "reserved_ok pat (sessions(key \<mapsto> [])) deleting requests pend"
    by (rule reserved_mono [OF p(4)]) (use none in \<open>auto dest: request_okD\<close>)
  show "held_ok (sessions(key \<mapsto> [])) active deleting"
    using p(5) by (simp add: held_ok_def)
qed (rule parts_okD(6) [OF ok])

lemma parts_open:
  assumes ok: "parts_ok pat sessions active deleting uuids said streams requests pend"
    and sr: "key_of pat (cs_user sr) (cs_session sr) = Inr key" "strip (cs_question sr) \<noteq> []" "is_canonical c"
    and new: "c \<notin> uuids" "key \<notin> deleting" "sessions key \<noteq> None"
  shows "parts_ok pat sessions (active(key := insert c (active key))) deleting (insert c uuids) said (AList.update c sr streams) requests pend"
proof (rule parts_okI)
  note p = parts_okD [OF ok]
  have "c \<notin> snd ` said"
    using p(2) new(1) unfolding said_ok_def by auto
  with sr have mine: "stream_ok pat (active(key := insert c (active key))) (insert c uuids) said c sr"
    by (simp add: stream_ok_def)
  show "streams_ok pat (active(key := insert c (active key))) (insert c uuids) said (AList.update c sr streams)"
    by (rule streams_update(1) [OF _ p(1) mine]) (auto simp: stream_ok_def split: sum.splits)
  show "said_ok sessions (insert c uuids) said"
    using p(2) unfolding said_ok_def by blast
  show "held_ok sessions (active(key := insert c (active key))) deleting"
    using p(5) new by (simp add: held_ok_def)
qed (use parts_okD [OF ok] in simp_all)

lemma parts_stream:
  assumes ok: "parts_ok pat sessions active deleting uuids said streams requests pend" and sr: "map_of streams c = Some sr"
    and eq: "cs_user sr' = cs_user sr" "cs_session sr' = cs_session sr" "cs_question sr' = cs_question sr"
    and ph: "early (cs_phase sr') \<Longrightarrow> early (cs_phase sr)"
  shows "parts_ok pat sessions active deleting uuids said (AList.update c sr' streams) requests pend"
proof -
  have "stream_ok pat active uuids said c sr"
    using parts_okD(1) [OF ok] sr unfolding streams_ok_def by blast
  then have new: "stream_ok pat active uuids said c sr'"
    using eq ph unfolding stream_ok_def by auto
  have "streams_ok pat active uuids said (AList.update c sr' streams)"
    by (rule streams_update(1) [OF _ parts_okD(1) [OF ok] new])
  with ok show ?thesis
    by (simp add: parts_ok_def)
qed

lemma parts_close:
  assumes ok: "parts_ok pat sessions active deleting uuids said streams requests pend"
  shows "parts_ok pat sessions (active(key := active key - {c})) deleting uuids said (AList.delete c streams) requests pend"
    "parts_ok pat sessions active deleting uuids said (AList.delete c streams) requests pend"
proof -
  have "streams_ok pat (active(key := active key - {c})) uuids said (AList.delete c streams)"
    "streams_ok pat active uuids said (AList.delete c streams)"
    by (rule streams_update(2) [OF _ parts_okD(1) [OF ok]]; auto simp: stream_ok_def split: sum.splits)+
  moreover have "held_ok sessions (active(key := active key - {c})) deleting"
    using parts_okD(5) [OF ok] by (auto simp: held_ok_def)
  ultimately show "parts_ok pat sessions (active(key := active key - {c})) deleting uuids said (AList.delete c streams) requests pend"
    "parts_ok pat sessions active deleting uuids said (AList.delete c streams) requests pend"
    using ok by (simp_all add: parts_ok_def)
qed

subsection \<open>The queue\<close>

lemma works_append:
  assumes "works_ok pat sessions deleting said pend" "fits pat sessions deleting said u work"
    and "\<forall>a \<in> set (pend u). follows pat said a work"
  shows "works_ok pat sessions deleting said (pend(u := pend u @ [work]))"
  using assms by (auto simp: works_ok_def sorted_wrt_append)

lemma parts_title:
  assumes ok: "parts_ok pat sessions active deleting uuids said streams requests pend"
  shows "parts_ok pat sessions active deleting uuids said streams requests (pend(u := pend u @ [TitleWork user session]))"
proof -
  have "works_ok pat sessions deleting said (pend(u := pend u @ [TitleWork user session]))"
    by (rule works_append [OF parts_okD(3) [OF ok]]) (simp_all add: fits_def follows_def stores_in_def deletes_key_def)
  moreover have "reserved_ok pat sessions deleting requests (pend(u := pend u @ [TitleWork user session]))"
    by (rule reserved_mono [OF parts_okD(4) [OF ok]]) (auto simp: deletes_key_def dest: request_okD)
  moreover have "covered pat deleting requests (pend(u := pend u @ [TitleWork user session]))"
    by (rule covered_mono [OF parts_okD(6) [OF ok]]) auto
  ultimately show ?thesis
    using ok by (simp add: parts_ok_def)
qed

text \<open>A pending deletion holds its session's reservation.\<close>

lemma pending_deletion:
  assumes "works_ok pat sessions deleting said pend" "work \<in> set (pend u)" "deletes_key pat key work"
  shows "key \<in> deleting" "fst key = u"
proof -
  have "fits pat sessions deleting said u work"
    using assms(1,2) unfolding works_ok_def by blast
  with assms(3) show "key \<in> deleting" "fst key = u"
    by (auto simp: fits_def deletes_key_def)
qed

lemma pending_said:
  assumes "works_ok pat sessions deleting said pend" "StoreWork cw \<in> set (pend u)"
  shows "\<exists>key. fst key = u \<and> (key, cw_conversation cw) \<in> said \<and> sessions key \<noteq> None"
proof -
  have "fits pat sessions deleting said u (StoreWork cw)"
    using assms unfolding works_ok_def by blast
  then show ?thesis
    by (simp add: fits_def)
qed

lemma parts_answer:
  assumes ok: "parts_ok pat sessions active deleting uuids said streams requests pend"
    and new: "is_canonical c" "c \<in> uuids" "c \<notin> snd ` said" "\<And>sr. map_of streams c = Some sr \<Longrightarrow> \<not> early (cs_phase sr)"
    and s: "sessions key = Some ids" "c \<in> active key" and cw: "cw_conversation cw = c"
  shows "parts_ok pat (sessions(key \<mapsto> ids @ [c])) active deleting uuids (insert (key, c) said) streams requests
    (pend(fst key := pend (fst key) @ [StoreWork cw]))"
proof (rule parts_okI)
  note p = parts_okD [OF ok]
  let ?sessions = "sessions(key \<mapsto> ids @ [c])" and ?said = "insert (key, c) said"
  have nd: "key \<notin> deleting"
    using p(5) s(2) unfolding held_ok_def by blast
  have su: "snd key \<in> uuids" "set ids = {c. (key, c) \<in> said}"
    using p(2) s(1) unfolding said_ok_def by blast+
  show "streams_ok pat active uuids ?said streams"
    using p(1) new(4) by (fastforce simp: streams_ok_def stream_ok_def)
  show "said_ok ?sessions uuids ?said"
  proof (rule said_okI)
    show "is_canonical d \<and> d \<in> uuids \<and> snd k \<in> uuids" if "(k, d) \<in> ?said" for k d
      using that said_okD(1) [OF p(2), of k d] new(1,2) su(1) by auto
    show "k' = k" if "(k, d) \<in> ?said" "(k', d) \<in> ?said" for k k' d
    proof (cases "d = c")
      case True
      with that new(3) show ?thesis
        by (auto simp: image_iff)
    next
      case False
      with that said_okD(2) [OF p(2), of k d k'] show ?thesis
        by simp
    qed
    show "snd k \<in> uuids \<and> set js = {d. (k, d) \<in> ?said}" if "?sessions k = Some js" for k js
      using that said_okD(3) [OF p(2), of k js] su by (auto split: if_splits)
  qed
  have old: "cw_conversation w \<noteq> c" if "StoreWork w \<in> set (pend u)" for w u
    using pending_said [OF p(3) that] new(3) by force
  have fits: "fits pat ?sessions deleting ?said u work" if "fits pat sessions deleting said u work" for u work
    using that nd by (cases work) (auto simp: fits_def)
  have same: "stores_in ?said k b = stores_in said k b" if "b \<in> set (pend u)" for k b u
    using old [of _ u] that by (auto simp: stores_in_def)
  have "works_ok pat ?sessions deleting ?said pend"
    unfolding works_ok_def
  proof (intro conjI allI ballI)
    show "fits pat ?sessions deleting ?said u work" if "work \<in> set (pend u)" for u work
      using p(3) that fits unfolding works_ok_def by blast
    show "sorted_wrt (follows pat ?said) (pend u)" for u
    proof (rule sorted_wrt_mono_rel)
      show "sorted_wrt (follows pat said) (pend u)"
        using p(3) unfolding works_ok_def by blast
      show "follows pat ?said a b" if "a \<in> set (pend u)" "b \<in> set (pend u)" "follows pat said a b" for a b
        using that(3) same [OF that(2)] by (simp add: follows_def)
    qed
  qed
  then show "works_ok pat ?sessions deleting ?said (pend(fst key := pend (fst key) @ [StoreWork cw]))"
  proof (rule works_append)
    show "fits pat ?sessions deleting ?said (fst key) (StoreWork cw)"
      using cw by (auto simp: fits_def intro!: exI [of _ key])
    show "\<forall>a \<in> set (pend (fst key)). follows pat ?said a (StoreWork cw)"
    proof
      fix a assume a: "a \<in> set (pend (fst key))"
      have "\<not> stores_in ?said k (StoreWork cw)" if "deletes_key pat k a" for k
        using pending_deletion(1) [OF p(3) a that] nd new(3) cw by (force simp: stores_in_def)
      then show "follows pat ?said a (StoreWork cw)"
        by (simp add: follows_def deletes_key_def)
    qed
  qed
  show "reserved_ok pat ?sessions deleting requests (pend(fst key := pend (fst key) @ [StoreWork cw]))"
    by (rule reserved_mono [OF p(4)]) (use nd in \<open>auto simp: deletes_key_def dest: request_okD\<close>)
  show "held_ok ?sessions active deleting"
    using p(5) by (simp add: held_ok_def)
  show "covered pat deleting requests (pend(fst key := pend (fst key) @ [StoreWork cw]))"
    by (rule covered_mono [OF p(6)]) auto
qed

subsection \<open>Deletions\<close>

lemma works_mono:
  assumes "works_ok pat sessions deleting said pend" "\<And>u work. work \<in> set (pend u) \<Longrightarrow> fits pat sessions deleting said u work \<Longrightarrow>
      fits pat sessions' deleting' said u work"
  shows "works_ok pat sessions' deleting' said pend"
  using assms unfolding works_ok_def by blast

lemma parts_reserve:
  assumes ok: "parts_ok pat sessions active deleting uuids said streams requests pend"
    and new: "key_of pat user session = Inr key" "sessions key = Some ids" "active key = {}" "key \<notin> deleting"
  shows "parts_ok pat sessions active (insert key deleting) uuids said streams ((user, session, ids) # requests) pend"
proof (rule parts_okI)
  note p = parts_okD [OF ok]
  show "works_ok pat sessions (insert key deleting) said pend"
    by (rule works_mono [OF p(3)]) (auto simp: fits_def split: chat_work.splits)
  have none: "\<not> deletes_key pat key work" if "work \<in> set (pend u)" for work u
    using pending_deletion(1) [OF p(3) that] new(4) by blast
  have mine: "request_key pat (user, session, ids) = Inr key"
    using new(1) by (simp add: request_key_def)
  have old: "request_ok pat sessions (insert key deleting) (set ((user, session, ids) # requests)) pend x k"
    if k: "request_ok pat sessions deleting (set requests) pend x k" for x k
  proof (rule request_okI)
    show "y = x" if "y \<in> set ((user, session, ids) # requests)" "request_key pat y = Inr k" for y
      using that request_okD(2) [OF k] request_okD(5) [OF k, of y] mine new(4) by auto
  qed (use request_okD [OF k] in auto)
  have other: "request_key pat x \<noteq> Inr key" if x: "x \<in> set requests" for x
    by (rule reserved_okD [OF p(4) x]) (use new(4) request_okD(1,2) in fastforce)
  have "request_ok pat sessions (insert key deleting) (set ((user, session, ids) # requests)) pend (user, session, ids) key"
    by (rule request_okI) (use new(2) mine none other in auto)
  then show "reserved_ok pat sessions (insert key deleting) ((user, session, ids) # requests) pend"
    using p(4) old unfolding reserved_ok_def by (metis set_ConsD)
  show "held_ok sessions active (insert key deleting)"
    using p(5) new by (auto simp: held_ok_def)
  show "covered pat (insert key deleting) ((user, session, ids) # requests) pend"
    using p(6) mine unfolding covered_def by auto
qed (use parts_okD [OF ok] in simp_all)

text \<open>The end of a reservation whose session has no deletion on the queue any more.\<close>

lemma works_release:
  assumes "works_ok pat sessions deleting said pend" "\<And>u work. work \<in> set (pend u) \<Longrightarrow> \<not> deletes_key pat key work"
  shows "works_ok pat sessions (deleting - {key}) said pend"
proof (rule works_mono [OF assms(1)])
  fix u work
  assume "work \<in> set (pend u)" "fits pat sessions deleting said u work"
  with assms(2) [of work u] show "fits pat sessions (deleting - {key}) said u work"
    by (auto simp: fits_def deletes_key_def split: chat_work.splits)
qed

text \<open>A request that leaves the reservations leaves no other one of its session behind.\<close>

lemma request_alone:
  assumes "reserved_ok pat sessions deleting requests pend" "x \<in> set requests" "request_key pat x = Inr key"
  shows "key \<in> deleting" "sessions key = Some (snd (snd x))" "work \<in> set (pend (fst x)) \<Longrightarrow> \<not> deletes_key pat key work"
    and "y \<in> set (removeAll x requests) \<Longrightarrow> request_key pat y \<noteq> Inr key"
proof -
  obtain k where k: "request_ok pat sessions deleting (set requests) pend x k"
    by (rule reserved_okD [OF assms(1,2)])
  have "k = key"
    using request_okD(1) [OF k] assms(3) by simp
  note r = request_okD [OF k [unfolded this]]
  show "key \<in> deleting" "sessions key = Some (snd (snd x))" "work \<in> set (pend (fst x)) \<Longrightarrow> \<not> deletes_key pat key work"
    by (rule r(2), rule r(3), rule r(4))
  show "y \<in> set (removeAll x requests) \<Longrightarrow> request_key pat y \<noteq> Inr key"
    using r(5) [of y] by auto
qed

lemma parts_abort:
  assumes ok: "parts_ok pat sessions active deleting uuids said streams requests pend"
    and x: "x \<in> set requests" "request_key pat x = Inr key"
  shows "parts_ok pat sessions active (deleting - {key}) uuids said streams (removeAll x requests) pend"
proof (rule parts_okI)
  note p = parts_okD [OF ok]
  have u: "fst key = fst x"
    using x(2) key_of_user by (simp add: request_key_def)
  have none: "\<not> deletes_key pat key work" if "work \<in> set (pend u)" for u work
    using pending_deletion(2) [OF p(3) that] request_alone(3) [OF p(4) x] that u by metis
  have others: "request_key pat y \<noteq> Inr key" if "y \<in> set (removeAll x requests)" for y
    by (rule request_alone(4) [OF p(4) x that])
  show "works_ok pat sessions (deleting - {key}) said pend"
    by (rule works_release [OF p(3) none])
  show "reserved_ok pat sessions (deleting - {key}) (removeAll x requests) pend"
    by (rule reserved_mono [OF p(4)]) (use others in \<open>auto dest: request_okD\<close>)
  show "held_ok sessions active (deleting - {key})"
    using p(5) by (simp add: held_ok_def)
  show "covered pat (deleting - {key}) (removeAll x requests) pend"
    by (rule covered_mono [OF p(6)]) (use x(2) in auto)
qed (use parts_okD [OF ok] in simp_all)

lemma parts_enqueue_deletion:
  assumes ok: "parts_ok pat sessions active deleting uuids said streams requests pend"
    and x: "(user, session, ids) \<in> set requests"
  shows "parts_ok pat sessions active deleting uuids said streams (removeAll (user, session, ids) requests)
    (pend(user := pend user @ [DeleteWork user session ids]))"
proof (rule parts_okI)
  note p = parts_okD [OF ok]
  obtain key where key: "request_key pat (user, session, ids) = Inr key"
    using reserved_okD [OF p(4) x] request_okD(1) by metis
  note r = request_alone [OF p(4) x key, simplified]
  have d: "deletes_key pat k (DeleteWork user session ids) \<longleftrightarrow> k = key" for k
    using key by (auto simp: deletes_key_def request_key_def)
  show "works_ok pat sessions deleting said (pend(user := pend user @ [DeleteWork user session ids]))"
  proof (rule works_append [OF p(3)])
    show "fits pat sessions deleting said user (DeleteWork user session ids)"
      using key r(1,2) key_of_user by (auto simp: fits_def request_key_def)
    show "\<forall>a \<in> set (pend user). follows pat said a (DeleteWork user session ids)"
      using r(3) d by (auto simp: follows_def stores_in_def)
  qed
  show "reserved_ok pat sessions deleting (removeAll (user, session, ids) requests)
    (pend(user := pend user @ [DeleteWork user session ids]))"
  proof (rule reserved_mono [OF p(4)])
    fix y k assume y: "y \<in> set (removeAll (user, session, ids) requests)" "request_ok pat sessions deleting (set requests) pend y k"
    have "k \<noteq> key"
      using r(4) [of y] y(1) request_okD(1) [OF y(2)] by auto
    with request_okD(2,4) [OF y(2)] d show "k \<in> deleting \<and> sessions k = sessions k \<and>
        (\<forall>work \<in> set ((pend(user := pend user @ [DeleteWork user session ids])) (fst y)). \<not> deletes_key pat k work)"
      by auto
  qed auto
  show "covered pat deleting (removeAll (user, session, ids) requests) (pend(user := pend user @ [DeleteWork user session ids]))"
  proof (rule covered_mono [OF p(6)])
    fix y k assume "y \<in> set requests" "request_key pat y = Inr k"
    then show "y \<in> set (removeAll (user, session, ids) requests)
      \<or> (\<exists>u. \<exists>work \<in> set ((pend(user := pend user @ [DeleteWork user session ids])) u). deletes_key pat k work)"
      using d key by (cases "y = (user, session, ids)") (auto intro!: exI [of _ user])
  qed auto
qed (use parts_okD [OF ok] in simp_all)

subsection \<open>The end of a work\<close>

lemma parts_tail:
  assumes ok: "parts_ok pat sessions active deleting uuids said streams requests pend" and w: "pend u = work # rest"
    and k: "\<And>key. key \<in> deleting' \<Longrightarrow> \<not> deletes_key pat key work" "deleting' \<subseteq> deleting"
    and f: "\<And>v b. b \<in> set ((pend(u := rest)) v) \<Longrightarrow> fits pat sessions deleting said v b \<Longrightarrow> fits pat sessions deleting' said v b"
    and r: "\<And>x key. x \<in> set requests \<Longrightarrow> request_key pat x = Inr key \<Longrightarrow> key \<in> deleting \<Longrightarrow> key \<in> deleting'"
  shows "parts_ok pat sessions active deleting' uuids said streams requests (pend(u := rest))"
proof (rule parts_okI)
  note p = parts_okD [OF ok]
  have "fits pat sessions deleting said u b" "sorted_wrt (follows pat said) rest" if "b \<in> set rest \<or> b = work" for b
    using p(3) w that unfolding works_ok_def by (metis list.set_intros, metis sorted_wrt.simps(2))
  then have "works_ok pat sessions deleting said (pend(u := rest))"
    using p(3) by (auto simp: works_ok_def)
  then show "works_ok pat sessions deleting' said (pend(u := rest))"
    by (rule works_mono) (rule f)
  show "reserved_ok pat sessions deleting' requests (pend(u := rest))"
  proof (rule reserved_mono [OF p(4)])
    fix x key assume x: "x \<in> set requests" "request_ok pat sessions deleting (set requests) pend x key"
    note q = request_okD(1,2,4) [OF x(2)]
    have "set ((pend(u := rest)) (fst x)) \<subseteq> set (pend (fst x))"
      by (auto simp: w)
    with q r [OF x(1) q(1,2)] show "key \<in> deleting' \<and> sessions key = sessions key \<and> (\<forall>work \<in> set ((pend(u := rest)) (fst x)). \<not> deletes_key pat key work)"
      by blast
  qed simp
  show "held_ok sessions active deleting'"
    using p(5) k(2) by (auto simp: held_ok_def)
  show "covered pat deleting' requests (pend(u := rest))"
    by (rule covered_mono [OF p(6) k(2)]) (use k(1) w in auto)
qed (use parts_okD [OF ok] in simp_all)

text \<open>After the running deletion of a session, neither the queue nor a request holds the session.\<close>

lemma deletion_alone:
  assumes ok: "parts_ok pat sessions active deleting uuids said streams requests pend"
    and w: "pend u = DeleteWork user session ids # rest" "key_of pat user session = Inr key"
  shows "key \<in> deleting" "sessions key = Some ids" "fst key = u"
    and "b \<in> set ((pend(u := rest)) v) \<Longrightarrow> \<not> deletes_key pat key b \<and> \<not> stores_in said key b"
    and "x \<in> set requests \<Longrightarrow> request_key pat x \<noteq> Inr key"
proof -
  note p = parts_okD [OF ok]
  have d: "deletes_key pat key (DeleteWork user session ids)"
    using w(2) by (auto simp: deletes_key_def)
  have mem: "DeleteWork user session ids \<in> set (pend u)"
    by (simp add: w(1))
  then have f: "fits pat sessions deleting said u (DeleteWork user session ids)"
    using p(3) unfolding works_ok_def by blast
  then show key: "key \<in> deleting" "sessions key = Some ids" "fst key = u"
    using w(2) by (auto simp: fits_def)
  show "\<not> deletes_key pat key b \<and> \<not> stores_in said key b" if b: "b \<in> set ((pend(u := rest)) v)"
  proof (cases "v = u")
    case True
    have "sorted_wrt (follows pat said) (pend u)"
      using p(3) unfolding works_ok_def by blast
    with True b d show ?thesis
      by (auto simp: w(1) follows_def)
  next
    case False
    with b have b: "b \<in> set (pend v)"
      by simp
    have "\<not> stores_in said key b"
    proof
      assume "stores_in said key b"
      then obtain cw where cw: "b = StoreWork cw" "(key, cw_conversation cw) \<in> said"
        by (auto simp: stores_in_def)
      obtain k where k: "fst k = v" "(k, cw_conversation cw) \<in> said"
        using pending_said [OF p(3) b [unfolded cw(1)]] by blast
      from said_okD(2) [OF p(2) k(2) cw(2)] k(1) key(3) False show False
        by simp
    qed
    with pending_deletion(2) [OF p(3) b] key(3) False show ?thesis
      by blast
  qed
  show "request_key pat x \<noteq> Inr key" if x: "x \<in> set requests"
  proof
    assume k: "request_key pat x = Inr key"
    then have "fst x = u"
      using key_of_user key(3) by (auto simp: request_key_def)
    with request_alone(3) [OF p(4) x k, of "DeleteWork user session ids"] mem d show False
      by simp
  qed
qed

lemma parts_tail_abort:
  assumes ok: "parts_ok pat sessions active deleting uuids said streams requests pend"
    and w: "pend u = DeleteWork user session ids # rest" "key_of pat user session = Inr key"
  shows "parts_ok pat sessions active (deleting - {key}) uuids said streams requests (pend(u := rest))"
proof (rule parts_tail [OF ok w(1)])
  note alone = deletion_alone [OF ok w]
  show "\<not> deletes_key pat k (DeleteWork user session ids)" if "k \<in> deleting - {key}" for k
    using that w(2) by (auto simp: deletes_key_def)
  show "fits pat sessions (deleting - {key}) said v b" if "b \<in> set ((pend(u := rest)) v)" "fits pat sessions deleting said v b" for v b
    using that(2) alone(4) [OF that(1)] by (auto simp: fits_def deletes_key_def split: chat_work.splits)
  show "k \<in> deleting - {key}" if "x \<in> set requests" "request_key pat x = Inr k" "k \<in> deleting" for x k
    using that alone(5) [OF that(1)] by auto
qed auto

lemma parts_tail_commit:
  assumes ok: "parts_ok pat sessions active deleting uuids said streams requests pend"
    and w: "pend u = DeleteWork user session ids # rest" "key_of pat user session = Inr key"
  shows "parts_ok pat (sessions(key := None)) (active(key := {})) (deleting - {key}) uuids said streams requests (pend(u := rest))"
proof (rule parts_okI)
  note p = parts_okD [OF parts_tail_abort [OF ok w]] and alone = deletion_alone [OF ok w]
  have a: "active(key := {}) = active"
    using parts_okD(5) [OF ok] alone(1) unfolding held_ok_def by (metis fun_upd_triv)
  show "streams_ok pat (active(key := {})) uuids said streams"
    using p(1) unfolding a .
  show "said_ok (sessions(key := None)) uuids said"
    using p(2) by (simp add: said_ok_def)
  show "works_ok pat (sessions(key := None)) (deleting - {key}) said (pend(u := rest))"
  proof (rule works_mono [OF p(3)])
    fix v b assume b: "b \<in> set ((pend(u := rest)) v)" and f: "fits pat sessions (deleting - {key}) said v b"
    from f alone(4) [OF b] show "fits pat (sessions(key := None)) (deleting - {key}) said v b"
      by (cases b) (auto simp: fits_def stores_in_def)
  qed
  show "reserved_ok pat (sessions(key := None)) (deleting - {key}) requests (pend(u := rest))"
    by (rule reserved_mono [OF p(4)]) (auto dest: request_okD)
  show "held_ok (sessions(key := None)) (active(key := {})) (deleting - {key})"
    using p(5) by (auto simp: held_ok_def)
qed (rule parts_okD(6) [OF parts_tail_abort [OF ok w]])

end
