(* ===== verification/Chat_Safety.thy ===== *)
theory Chat_Safety
  imports Chat_Invariant
begin

text \<open>
  The invariant of the whole chat service, and that every step keeps it. The parts of the invariant are the state of the
  registry, the pending work of every user, the open requests and the streams; a step changes a few of them, and the
  interpretation of \<open>step_invariant\<close> at the end carries the invariant to every reachable state.
\<close>

section \<open>The invariant\<close>

definition pending_works :: "'st chat_world \<Rightarrow> string \<Rightarrow> chat_work list" where
  "pending_works w u = map (\<lambda>i. the (map_of (wd_works w) i)) (pending_ids (wd_queue w) u)"

definition queue_ok :: "'st chat_world \<Rightarrow> bool" where
  "queue_ok w \<longleftrightarrow> tq_inv (wd_queue w) \<and> (\<forall>u. set (pending_ids (wd_queue w) u) \<subseteq> dom (map_of (wd_works w)))
     \<and> (\<forall>u. wd_result w u \<noteq> None \<longrightarrow> busy_ids (tq_workers (wd_queue w) u) \<noteq> [])"

definition parts_of :: "user_pattern \<Rightarrow> 'st chat_world \<Rightarrow> bool" where
  "parts_of pat w \<longleftrightarrow> parts_ok pat (cr_sessions (wd_registry w)) (cr_active_of (wd_registry w)) (cr_deleting (wd_registry w))
     (wd_uuids w) (wd_said w) (wd_streams w) (wd_reserved w) (pending_works w)"

definition world_ok :: "'st chat_services \<Rightarrow> 'st chat_world \<Rightarrow> bool" where
  "world_ok ce w \<longleftrightarrow> cr_inv (wd_registry w) \<and> queue_ok w \<and> parts_of (ce_pattern ce) w"

lemma world_okD:
  assumes "world_ok ce w"
  shows "cr_inv (wd_registry w)" "queue_ok w" "parts_of (ce_pattern ce) w" "tq_inv (wd_queue w)"
  using assms by (simp_all add: world_ok_def queue_ok_def)

text \<open>The invariant does not look at the store.\<close>

lemma pending_works_update [simp]:
  "pending_works (w\<lparr>wd_store := x\<rparr>) = pending_works w" "pending_works (w\<lparr>wd_registry := g\<rparr>) = pending_works w"
  "pending_works (w\<lparr>wd_streams := t\<rparr>) = pending_works w" "pending_works (w\<lparr>wd_reserved := d\<rparr>) = pending_works w"
  "pending_works (w\<lparr>wd_uuids := us\<rparr>) = pending_works w" "pending_works (w\<lparr>wd_said := sd\<rparr>) = pending_works w"
  "pending_works (w\<lparr>wd_result := rs\<rparr>) = pending_works w"
  by (simp_all add: pending_works_def fun_eq_iff)

lemma queue_ok_update [simp]:
  "queue_ok (w\<lparr>wd_store := x\<rparr>) = queue_ok w" "queue_ok (w\<lparr>wd_registry := g\<rparr>) = queue_ok w"
  "queue_ok (w\<lparr>wd_streams := t\<rparr>) = queue_ok w" "queue_ok (w\<lparr>wd_reserved := d\<rparr>) = queue_ok w"
  "queue_ok (w\<lparr>wd_uuids := us\<rparr>) = queue_ok w" "queue_ok (w\<lparr>wd_said := sd\<rparr>) = queue_ok w"
  by (simp_all add: queue_ok_def)

lemma world_ok_store [simp]: "world_ok ce (w\<lparr>wd_store := x\<rparr>) = world_ok ce w"
  by (simp add: world_ok_def parts_of_def)

text \<open>
  What every step but those of a worker leaves behind: no session is gone, what is newly said is in a session that exists,
  the queues have only grown, and a conversation that holds its session without a stream does so still.
\<close>

definition orphan :: "'st chat_world \<Rightarrow> session_key \<Rightarrow> string \<Rightarrow> bool" where
  "orphan w key c \<longleftrightarrow> c \<in> cr_active_of (wd_registry w) key \<and> map_of (wd_streams w) c = None \<and> c \<in> wd_uuids w"

definition grows :: "'st chat_world \<Rightarrow> 'st chat_world \<Rightarrow> bool" where
  "grows w v \<longleftrightarrow> (\<forall>k. cr_sessions (wd_registry v) k = None \<longrightarrow> cr_sessions (wd_registry w) k = None)
     \<and> (\<forall>k c. (k, c) \<in> wd_said v \<longrightarrow> cr_sessions (wd_registry v) k = None \<longrightarrow> (k, c) \<in> wd_said w)
     \<and> (\<forall>u. \<exists>works. pending_works v u = pending_works w u @ works) \<and> wd_result v = wd_result w
     \<and> (\<forall>key c. orphan w key c \<longrightarrow> orphan v key c)"

lemma grows_store [simp]: "grows (w\<lparr>wd_store := x\<rparr>) v = grows w v" "grows w (v\<lparr>wd_store := x\<rparr>) = grows w v"
  by (simp_all add: grows_def orphan_def)

lemma grows_trans: "grows w v \<Longrightarrow> grows v u \<Longrightarrow> grows w u"
  unfolding grows_def by (metis append.assoc)

lemma on_parts:
  "on_registry m w = (r, v) \<longleftrightarrow> (\<exists>g. m (wd_registry w) = (r, g) \<and> v = w\<lparr>wd_registry := g\<rparr>)"
  "on_queue m' w = (r', v) \<longleftrightarrow> (\<exists>q. m' (wd_queue w) = (r', q) \<and> v = w\<lparr>wd_queue := q\<rparr>)"
  "on_store m'' w = (r'', v) \<longleftrightarrow> (\<exists>x. m'' (wd_store w) = (r'', x) \<and> v = w\<lparr>wd_store := x\<rparr>)"
  by (auto simp: on_registry_def on_queue_def on_store_def on_part_def split: prod.splits)

lemma obind_oret_state: "obind m (\<lambda>x. oret (f x)) s = (r, t) \<Longrightarrow> \<exists>q. m s = (q, t)"
  by (auto simp: obind_def split: prod.splits sum.splits)

lemma world_registry:
  assumes "world_ok ce w" "same_sessions (wd_registry w) g"
  shows "world_ok ce (w\<lparr>wd_registry := g\<rparr>)" "grows w (w\<lparr>wd_registry := g\<rparr>)"
  using assms by (simp_all add: world_ok_def parts_of_def same_sessions_def grows_def orphan_def)

section \<open>Sessions\<close>

lemma reads_keep:
  assumes "world_ok ce w" "on_registry m w = (r, v)" "\<And>q g. m (wd_registry w) = (q, g) \<Longrightarrow> same_sessions (wd_registry w) g"
  shows "world_ok ce v \<and> grows w v"
  using assms world_registry by (fastforce simp: on_parts)

lemma lists_effect:
  assumes "cr_inv s" "list_sessions pat user s = (r, t)"
  shows "same_sessions s t"
proof -
  obtain q where "cr_list_sessions pat (PStr user) s = (q, t)"
    using obind_oret_state assms(2) unfolding list_sessions_def by fast
  then show ?thesis
    using cr_list_effect assms(1) by blast
qed

lemma gets_effect:
  assumes "cr_inv s" "get_session pat user session s = (r, t)"
  shows "same_sessions s t"
proof -
  obtain q where "cr_get_session pat (PStr user) (PStr session) s = (q, t)"
    using obind_oret_state assms(2) unfolding get_session_def by fast
  then show ?thesis
    using cr_get_effect assms(1) by blast
qed

lemma retitles_effect:
  assumes "cr_inv s" "update_session_title pat user session title s = (r, t)"
  shows "same_sessions s t"
proof -
  obtain q u where u: "cr_update_title pat (PStr user) (PStr session) (PStr title) s = (q, u)"
    by fastforce
  note e = cr_title_effect [OF assms(1) u]
  show ?thesis
  proof (cases q)
    case (Inl x)
    with assms(2) u e show ?thesis
      by (simp add: update_session_title_def obind_def)
  next
    case (Inr x)
    with assms(2) u have "obind (cr_get_session pat (PStr user) (PStr session)) (\<lambda>s. oret (session_resource s)) u = (r, t)"
      by (simp add: update_session_title_def obind_def)
    then obtain q' where "cr_get_session pat (PStr user) (PStr session) u = (q', t)"
      using obind_oret_state by fast
    with cr_get_effect e same_sessions_trans show ?thesis
      unfolding same_sessions_def by metis
  qed
qed

lemma world_uuid: "world_ok ce w \<Longrightarrow> world_ok ce (w\<lparr>wd_uuids := insert x (wd_uuids w)\<rparr>)"
  by (simp add: world_ok_def parts_of_def parts_uuid)

lemma creates_keeps:
  assumes ok: "world_ok ce w" and new: "session \<notin> wd_uuids w" "is_canonical session"
    and run: "on_registry (create_session (ce_pattern ce) user session) (w\<lparr>wd_uuids := insert session (wd_uuids w)\<rparr>) = (r, v)"
  shows "world_ok ce v \<and> grows w v"
proof -
  let ?g = "wd_registry w" and ?pat = "ce_pattern ce"
  obtain q g where g: "cr_create_session ?pat (PStr user) (PStr session) ?g = (q, g)"
    and v: "v = w\<lparr>wd_uuids := insert session (wd_uuids w), wd_registry := g\<rparr>"
    using run obind_oret_state [of "cr_create_session ?pat (PStr user) (PStr session)"] unfolding on_parts create_session_def by fastforce
  have key: "snd key = session" if "cr_key ?pat (PStr user) (PStr session) = Inr key" for key
    using that required_uuid_of_canonical [OF new(2)] by (auto simp: cr_key_def rbind_Inr_iff)
  have p: "parts_ok ?pat (cr_sessions ?g) (cr_active_of ?g) (cr_deleting ?g) (wd_uuids w) (wd_said w) (wd_streams w) (wd_reserved w) (pending_works w)"
    using world_okD(3) [OF ok] by (simp add: parts_of_def)
  have none: "cr_sessions ?g key = None" if "cr_key ?pat (PStr user) (PStr session) = Inr key" for key
  proof (rule ccontr)
    assume "cr_sessions ?g key \<noteq> None"
    then obtain ids where "cr_sessions ?g key = Some ids"
      by blast
    with said_okD(3) [OF parts_okD(2) [OF p]] new(1) key [OF that] show False
      by blast
  qed
  from cr_create_effect [OF world_okD(1) [OF ok] g none] show ?thesis
  proof
    assume "same_sessions ?g g"
    with world_registry [OF world_uuid [OF ok]] v show ?thesis
      by (simp add: grows_def orphan_def)
  next
    assume "\<exists>key. cr_key ?pat (PStr user) (PStr session) = Inr key \<and> cr_inv g \<and> cr_sessions g = (cr_sessions ?g)(key \<mapsto> [])
       \<and> cr_active_of g = cr_active_of ?g \<and> cr_deleting g = cr_deleting ?g"
    then obtain key where e: "cr_key ?pat (PStr user) (PStr session) = Inr key" "cr_inv g" "cr_sessions g = (cr_sessions ?g)(key \<mapsto> [])"
        "cr_active_of g = cr_active_of ?g" "cr_deleting g = cr_deleting ?g"
      by blast
    have "parts_of ?pat v"
      using parts_create [OF p, of key] key [OF e(1)] new(1) e(3-5) by (simp add: parts_of_def v)
    with e(2-4) world_okD(2) [OF ok] show ?thesis
      by (simp add: world_ok_def grows_def orphan_def v)
  qed
qed

section \<open>Streams\<close>

lemma query_reserve_effect:
  assumes inv: "cr_inv s" and run: "query_reserve pat user session question c available s = (r, t)" and c: "is_canonical c"
  shows "(\<exists>e. r = Inl e) \<and> same_sessions s t \<or>
    (\<exists>key. r = Inr () \<and> strip question \<noteq> [] \<and> key_of pat user session = Inr key \<and> cr_inv t
       \<and> cr_sessions t = cr_sessions s \<and> cr_deleting t = cr_deleting s \<and> key \<notin> cr_deleting s \<and> cr_sessions s key \<noteq> None
       \<and> cr_active_of t = (cr_active_of s)(key := insert c (cr_active_of s key)))"
proof (cases "strip question = []")
  case True
  with run inv show ?thesis
    by (auto simp: query_reserve_def same_sessions_refl)
next
  case q: False
  obtain x u where u: "cr_get_session pat (PStr user) (PStr session) s = (x, u)"
    by fastforce
  note same = cr_get_effect [OF inv u]
  show ?thesis
  proof (cases "(\<exists>e. x = Inl e) \<or> \<not> available")
    case True
    with run u q have "t = u" "\<exists>e. r = Inl e"
      by (auto simp: query_reserve_def obind_def split: sum.splits)
    with same show ?thesis
      by simp
  next
    case False
    then obtain y where "x = Inr y" "available"
      by (cases x) auto
    with run u q have b: "cr_begin_chat_stream pat (PStr user) (PStr session) (PStr c) u = (r, t)"
      by (simp add: query_reserve_def obind_def)
    have inv': "cr_inv u" and eq: "cr_sessions u = cr_sessions s" "cr_active_of u = cr_active_of s" "cr_deleting u = cr_deleting s"
      using same by (simp_all add: same_sessions_def)
    from cr_begin_effect [OF inv' b] show ?thesis
    proof
      assume "(\<exists>e. r = Inl e) \<and> same_sessions u t"
      with same same_sessions_trans show ?thesis
        by blast
    next
      assume "\<exists>key d. r = Inr () \<and> cr_key pat (PStr user) (PStr session) = Inr key \<and> required_uuid (PStr c) ''conversation_id'' = Inr d
        \<and> cr_inv t \<and> cr_sessions t = cr_sessions u \<and> cr_deleting t = cr_deleting u \<and> key \<notin> cr_deleting u \<and> cr_sessions u key \<noteq> None
        \<and> cr_active_of t = (cr_active_of u)(key := insert d (cr_active_of u key))"
      then obtain key where "r = Inr ()" "key_of pat user session = Inr key" "cr_inv t" "cr_sessions t = cr_sessions s"
          "cr_deleting t = cr_deleting s" "key \<notin> cr_deleting s" "cr_sessions s key \<noteq> None"
          "cr_active_of t = (cr_active_of s)(key := insert c (cr_active_of s key))"
        unfolding eq key_of_def required_uuid_of_canonical [OF c] by blast
      with q show ?thesis
        by blast
    qed
  qed
qed

lemma world_parts:
  assumes "world_ok ce w"
  shows "parts_ok (ce_pattern ce) (cr_sessions (wd_registry w)) (cr_active_of (wd_registry w)) (cr_deleting (wd_registry w))
     (wd_uuids w) (wd_said w) (wd_streams w) (wd_reserved w) (pending_works w)"
  using world_okD(3) [OF assms] by (simp add: parts_of_def)

lemma opens_keeps:
  assumes ok: "world_ok ce w" and new: "c \<notin> wd_uuids w" "is_canonical c"
    and run: "query_open (ce_pattern ce) user session question c available (w\<lparr>wd_uuids := insert c (wd_uuids w)\<rparr>) = (r, v)"
  shows "world_ok ce v \<and> grows w v"
proof -
  let ?g = "wd_registry w" and ?pat = "ce_pattern ce" and ?w = "w\<lparr>wd_uuids := insert c (wd_uuids w)\<rparr>"
  obtain q g where g: "query_reserve ?pat user session question c available ?g = (q, g)"
    by fastforce
  then have on: "on_registry (query_reserve ?pat user session question c available) ?w = (q, ?w\<lparr>wd_registry := g\<rparr>)"
    by (simp add: on_parts)
  from query_reserve_effect [OF world_okD(1) [OF ok] g new(2)] show ?thesis
  proof
    assume e: "(\<exists>e. q = Inl e) \<and> same_sessions ?g g"
    then have v: "v = ?w\<lparr>wd_registry := g\<rparr>"
      using run on by (auto simp: query_open_def obind_def)
    moreover have "grows w v"
      using e by (simp add: v grows_def orphan_def same_sessions_def)
    ultimately show ?thesis
      using e world_registry(1) [OF world_uuid [OF ok]] by simp
  next
    assume "\<exists>key. q = Inr () \<and> strip question \<noteq> [] \<and> key_of ?pat user session = Inr key \<and> cr_inv g
       \<and> cr_sessions g = cr_sessions ?g \<and> cr_deleting g = cr_deleting ?g \<and> key \<notin> cr_deleting ?g \<and> cr_sessions ?g key \<noteq> None
       \<and> cr_active_of g = (cr_active_of ?g)(key := insert c (cr_active_of ?g key))"
    then obtain key where e: "q = Inr ()" "strip question \<noteq> []" "key_of ?pat user session = Inr key" "cr_inv g"
        "cr_sessions g = cr_sessions ?g" "cr_deleting g = cr_deleting ?g" "key \<notin> cr_deleting ?g" "cr_sessions ?g key \<noteq> None"
        "cr_active_of g = (cr_active_of ?g)(key := insert c (cr_active_of ?g key))"
      by blast
    let ?sr = "\<lparr>cs_user = user, cs_session = session, cs_question = question, cs_phase = Opened, cs_chunks = []\<rparr>"
    have v: "v = w\<lparr>wd_uuids := insert c (wd_uuids w), wd_registry := g, wd_streams := AList.update c ?sr (wd_streams w)\<rparr>"
      using run on e(1) by (simp add: query_open_def obind_def set_stream_def)
    from parts_open [OF world_parts [OF ok], of ?sr key c] e new have "parts_of ?pat v"
      by (simp add: parts_of_def v)
    moreover have "grows w v"
      using e(5,9) new(1) by (auto simp: grows_def orphan_def v update_conv')
    ultimately show ?thesis
      using e(4) world_okD(2) [OF ok] by (simp add: world_ok_def v)
  qed
qed

lemma stream_keeps:
  assumes ok: "world_ok ce w" and sr: "map_of (wd_streams w) c = Some sr"
    and eq: "cs_user sr' = cs_user sr" "cs_session sr' = cs_session sr" "cs_question sr' = cs_question sr"
    and ph: "early (cs_phase sr') \<Longrightarrow> early (cs_phase sr)"
  shows "world_ok ce (set_stream c sr' w) \<and> grows w (set_stream c sr' w)"
  using ok sr parts_stream [OF world_parts [OF ok] sr eq ph] by (auto simp: world_ok_def parts_of_def set_stream_def grows_def orphan_def update_conv' split: if_splits)

lemma set_stream_store: "set_stream c sr (w\<lparr>wd_store := x\<rparr>) = (set_stream c sr w)\<lparr>wd_store := x\<rparr>"
  by (simp add: set_stream_def)

lemma asks_keeps:
  assumes ok: "world_ok ce w" and sr: "map_of (wd_streams w) c = Some sr" "cs_phase sr = Asking"
  shows "world_ok ce (query_ask ce second c sr w) \<and> grows w (query_ask ce second c sr w)"
proof -
  obtain r x where "asked (stream_call ce c sr) second (wd_store w) = (r, x)"
    by fastforce
  then have "query_ask ce second c sr w
      = (set_stream c (sr\<lparr>cs_phase := (case r of Inl _ \<Rightarrow> Failing | Inr _ \<Rightarrow> Receiving)\<rparr>) w)\<lparr>wd_store := x\<rparr>"
    by (simp add: query_ask_def on_store_def on_part_def set_stream_store)
  with stream_keeps [OF ok sr(1), of "sr\<lparr>cs_phase := (case r of Inl _ \<Rightarrow> Failing | Inr _ \<Rightarrow> Receiving)\<rparr>"] sr(2) show ?thesis
    by (simp add: early_def)
qed

lemma stream_parts:
  assumes "world_ok ce w" "map_of (wd_streams w) c = Some sr"
  obtains key where "key_of (ce_pattern ce) (cs_user sr) (cs_session sr) = Inr key" "fst key = cs_user sr"
    "c \<in> cr_active_of (wd_registry w) key" "is_canonical c" "c \<in> wd_uuids w" "strip (cs_question sr) \<noteq> []"
    "early (cs_phase sr) \<longrightarrow> c \<notin> snd ` wd_said w" "key \<notin> cr_deleting (wd_registry w)" "cr_sessions (wd_registry w) key \<noteq> None"
proof -
  note p = parts_okD [OF world_parts [OF assms(1)]]
  have s: "stream_ok (ce_pattern ce) (cr_active_of (wd_registry w)) (wd_uuids w) (wd_said w) c sr"
    using p(1) assms(2) unfolding streams_ok_def by blast
  then obtain key where key: "key_of (ce_pattern ce) (cs_user sr) (cs_session sr) = Inr key" "c \<in> cr_active_of (wd_registry w) key"
    by (auto simp: stream_ok_def split: sum.splits)
  have "key \<notin> cr_deleting (wd_registry w)" "cr_sessions (wd_registry w) key \<noteq> None"
    using p(5) key(2) unfolding held_ok_def by blast+
  with s key key_of_user [OF key(1)] that show ?thesis
    unfolding stream_ok_def by blast
qed

lemma closes_keeps:
  assumes ok: "world_ok ce w" and sr: "map_of (wd_streams w) c = Some sr" and run: "query_close (ce_pattern ce) c sr w = (r, v)"
  shows "world_ok ce v \<and> grows w v"
proof -
  obtain key where key: "key_of (ce_pattern ce) (cs_user sr) (cs_session sr) = Inr key" "is_canonical c"
    by (rule stream_parts [OF ok sr])
  let ?w = "w\<lparr>wd_streams := AList.delete c (wd_streams w)\<rparr>"
  have "on_registry (cr_end_chat_stream (ce_pattern ce) (PStr (cs_user sr)) (PStr (cs_session sr)) (PStr c)) ?w = (r, v)"
    using run by (simp add: query_close_def obind_def)
  then obtain g where g: "cr_end_chat_stream (ce_pattern ce) (PStr (cs_user sr)) (PStr (cs_session sr)) (PStr c) (wd_registry w) = (r, g)"
    and v: "v = ?w\<lparr>wd_registry := g\<rparr>"
    by (auto simp: on_parts)
  from cr_end_effect [OF world_okD(1) [OF ok] key(1) [unfolded key_of_def] required_uuid_of_canonical [OF key(2)] g]
    parts_close(1) [OF world_parts [OF ok], of key c] world_okD(2) [OF ok]
  show ?thesis
    using sr by (auto simp: world_ok_def parts_of_def grows_def orphan_def v delete_conv')
qed

lemma never_starts_keeps:
  assumes "world_ok ce w"
  shows "world_ok ce (w\<lparr>wd_streams := AList.delete c (wd_streams w)\<rparr>) \<and> grows w (w\<lparr>wd_streams := AList.delete c (wd_streams w)\<rparr>)"
  using assms parts_close(2) [OF world_parts [OF assms], of c] by (auto simp: world_ok_def parts_of_def grows_def orphan_def delete_conv')

section \<open>The queue\<close>

lemma enqueue_work_effect:
  assumes ok: "queue_ok w" and new: "new_task w i" and run: "enqueue_work pat i now u operation work w = (r, v)"
  shows "(\<exists>e. r = Inl e) \<and> v = w \<or> r = Inr i \<and> queue_ok v \<and> pending_works v = (pending_works w)(u := pending_works w u @ [work])
    \<and> (\<forall>j. j \<noteq> i \<longrightarrow> new_task w j \<longrightarrow> new_task v j) \<and> (\<exists>q ws. v = w\<lparr>wd_queue := q, wd_works := ws\<rparr>)"
proof -
  obtain x q where q: "tq_enqueue pat i now (PStr u) (PStr operation) True (wd_queue w) = (x, q)"
    by fastforce
  then have on: "on_queue (tq_enqueue pat i now (PStr u) (PStr operation) True) w = (x, w\<lparr>wd_queue := q\<rparr>)"
    by (simp add: on_parts)
  show ?thesis
  proof (cases x)
    case (Inl e)
    then have "q = wd_queue w"
      using q enqueue_refused by blast
    with run on Inl have "r = Inl e" "v = w"
      by (simp_all add: enqueue_work_def obind_def)
    then show ?thesis
      by blast
  next
    case (Inr j)
    note q = q [unfolded Inr]
    have inv: "tq_inv (wd_queue w)" and new': "i \<notin> fst ` set (tq_objects (wd_queue w))"
      using ok new by (simp_all add: queue_ok_def new_task_def)
    note e = enqueue_pending [OF inv new' q]
    have v: "v = w\<lparr>wd_queue := q, wd_works := AList.update i work (wd_works w)\<rparr>" and r: "r = Inr i"
      using run on Inr e(1) by (simp_all add: enqueue_work_def obind_def)
    have out: "i \<notin> set (pending_ids (wd_queue w) u')" for u'
      using pending_known(1) [OF inv] new' by blast
    have known: "set (pending_ids (wd_queue w) u') \<subseteq> dom (map_of (wd_works w))" for u'
      using ok by (simp add: queue_ok_def)
    have "queue_ok v"
      unfolding queue_ok_def
    proof (intro conjI allI impI)
      show "tq_inv (wd_queue v)"
        using e(2) by (simp add: v)
      show "set (pending_ids (wd_queue v) u') \<subseteq> dom (map_of (wd_works v))" for u'
        using known [of u'] by (auto simp: v e(3) update_conv')
      show "busy_ids (tq_workers (wd_queue v) u') \<noteq> []" if "wd_result v u' \<noteq> None" for u'
        using that ok e(4) by (simp add: queue_ok_def v)
    qed
    moreover have "pending_works v u' = ((pending_works w)(u := pending_works w u @ [work])) u'" for u'
    proof -
      have "map (\<lambda>j. the (map_of (wd_works v) j)) (pending_ids (wd_queue w) u') = pending_works w u'"
        unfolding pending_works_def by (rule map_cong) (use out [of u'] in \<open>auto simp: v update_conv'\<close>)
      then show ?thesis
        by (auto simp: pending_works_def v e(3) update_conv')
    qed
    moreover have "\<forall>j. j \<noteq> i \<longrightarrow> new_task w j \<longrightarrow> new_task v j"
      using e(5) by (simp add: new_task_def v)
    ultimately show ?thesis
      using r v by (auto simp: fun_eq_iff)
  qed
qed

lemma query_stored_effect:
  assumes ok: "queue_ok w" and new: "new_task w i" and key: "key_of pat (cs_user sr) (cs_session sr) = Inr key"
    and run: "query_stored pat i now c sr w = (r, v)"
  shows "(\<exists>e. r = Inl e) \<and> v = w \<or> r = Inr () \<and> strip (concat (cs_chunks sr)) \<noteq> [] \<and> queue_ok v
    \<and> pending_works v = (pending_works w)(cs_user sr := pending_works w (cs_user sr) @ [StoreWork (store_work c sr)])
    \<and> (\<forall>j. j \<noteq> i \<longrightarrow> new_task w j \<longrightarrow> new_task v j)
    \<and> (\<exists>q ws. v = w\<lparr>wd_queue := q, wd_works := ws, wd_said := insert (key, c) (wd_said w)\<rparr>)"
proof (cases "strip (concat (cs_chunks sr)) = []")
  case True
  with run show ?thesis
    by (auto simp: query_stored_def)
next
  case False
  obtain x u where u: "enqueue_work pat i now (cs_user sr) ''embed_conversation'' (StoreWork (store_work c sr)) w = (x, u)"
    by fastforce
  from enqueue_work_effect [OF ok new u] show ?thesis
  proof
    assume "(\<exists>e. x = Inl e) \<and> u = w"
    with run u False have "\<exists>e. r = Inl e" "v = w"
      by (auto simp: query_stored_def obind_def)
    then show ?thesis
      by blast
  next
    assume e: "x = Inr i \<and> queue_ok u
      \<and> pending_works u = (pending_works w)(cs_user sr := pending_works w (cs_user sr) @ [StoreWork (store_work c sr)])
      \<and> (\<forall>j. j \<noteq> i \<longrightarrow> new_task w j \<longrightarrow> new_task u j) \<and> (\<exists>q ws. u = w\<lparr>wd_queue := q, wd_works := ws\<rparr>)"
    then have r: "r = Inr ()" "v = u\<lparr>wd_said := insert (key, c) (wd_said u)\<rparr>"
      using run u False key by (simp_all add: query_stored_def obind_def key_of_def)
    then have "queue_ok v" "pending_works v = pending_works u" "new_task v = new_task u"
      using e by (simp_all add: new_task_def fun_eq_iff)
    moreover obtain q ws where "u = w\<lparr>wd_queue := q, wd_works := ws\<rparr>"
      using e by blast
    ultimately show ?thesis
      using e r False by auto
  qed
qed

lemma query_titled_effect:
  assumes "queue_ok w" "new_task w i" "query_titled pat i now sr w = (r, v)"
  shows "v = w \<or> queue_ok v \<and> (\<exists>q ws. v = w\<lparr>wd_queue := q, wd_works := ws\<rparr>)
    \<and> pending_works v = (pending_works w)(cs_user sr := pending_works w (cs_user sr) @ [TitleWork (cs_user sr) (cs_session sr)])"
proof -
  obtain x u where u: "enqueue_work pat i now (cs_user sr) ''generate_session_title'' (TitleWork (cs_user sr) (cs_session sr)) w = (x, u)"
    by fastforce
  then have "v = u"
    using assms(3) by (auto simp: query_titled_def obind_def ocatch_def split: if_splits)
  with enqueue_work_effect [OF assms(1,2) u] show ?thesis
    by blast
qed

lemma finished_keeps:
  assumes ok: "world_ok ce w" and sr: "map_of (wd_streams w) c = Some sr" "early (cs_phase sr)"
    and new: "new_task w i" "new_task w j" "i \<noteq> j" and ph: "\<not> early ph"
    and run: "query_finished (ce_pattern ce) i j now c sr w = (r, u)"
  shows "world_ok ce (set_stream c (sr\<lparr>cs_phase := ph\<rparr>) u) \<and> grows w (set_stream c (sr\<lparr>cs_phase := ph\<rparr>) u)"
proof -
  let ?pat = "ce_pattern ce" and ?g = "wd_registry w" and ?sr = "sr\<lparr>cs_phase := ph\<rparr>"
  obtain key where key: "key_of ?pat (cs_user sr) (cs_session sr) = Inr key" "fst key = cs_user sr"
    "c \<in> cr_active_of ?g key" "is_canonical c" "c \<in> wd_uuids w" "strip (cs_question sr) \<noteq> []"
    "early (cs_phase sr) \<longrightarrow> c \<notin> snd ` wd_said w" "key \<notin> cr_deleting ?g" "cr_sessions ?g key \<noteq> None"
    by (rule stream_parts [OF ok sr(1)])
  have un: "c \<notin> snd ` wd_said w"
    using key(7) sr(2) by blast
  obtain ids where ids: "cr_sessions ?g key = Some ids"
    using key(9) by blast
  have early: "world_ok ce (set_stream c ?sr w)" "grows w (set_stream c ?sr w)"
    using stream_keeps [OF ok sr(1), of ?sr] ph by simp_all
  obtain x v where v: "query_stored ?pat i now c sr w = (x, v)"
    by fastforce
  from query_stored_effect [OF world_okD(2) [OF ok] new(1) key(1) v] show ?thesis
  proof
    assume "(\<exists>e. x = Inl e) \<and> v = w"
    then have "u = w"
      using run v by (auto simp: query_finished_def obind_def)
    with early show ?thesis
      by simp
  next
    assume e: "x = Inr () \<and> strip (concat (cs_chunks sr)) \<noteq> [] \<and> queue_ok v
      \<and> pending_works v = (pending_works w)(cs_user sr := pending_works w (cs_user sr) @ [StoreWork (store_work c sr)])
      \<and> (\<forall>k. k \<noteq> i \<longrightarrow> new_task w k \<longrightarrow> new_task v k)
      \<and> (\<exists>q ws. v = w\<lparr>wd_queue := q, wd_works := ws, wd_said := insert (key, c) (wd_said w)\<rparr>)"
    then obtain q ws where vw: "v = w\<lparr>wd_queue := q, wd_works := ws, wd_said := insert (key, c) (wd_said w)\<rparr>"
      by blast
    obtain y g where g: "query_recorded ?pat c sr ?g = (y, g)"
      by fastforce
    have fresh: "c \<notin> set cs" if "cr_sessions ?g k = Some cs" for k cs
      using said_okD(3) [OF parts_okD(2) [OF world_parts [OF ok]] that] un by force
    have blank: "not_blank (PStr (cs_question sr)) ''question'' = Inr (cs_question sr)"
        "not_blank (PStr (concat (cs_chunks sr))) ''answer'' = Inr (concat (cs_chunks sr))"
      using key(6) e by (simp_all add: not_blank_def)
    have rec: "y = Inr () \<and> cr_inv g \<and> cr_sessions g = (cr_sessions ?g)(key \<mapsto> ids @ [c]) \<and> cr_active_of g = cr_active_of ?g
        \<and> cr_deleting g = cr_deleting ?g"
      by (rule cr_record_effect [OF world_okD(1) [OF ok] key(1) [unfolded key_of_def] required_uuid_of_canonical [OF key(4)]
            blank ids key(8) fresh g [unfolded query_recorded_def]])
    let ?v = "v\<lparr>wd_registry := g\<rparr>"
    have t: "query_titled ?pat j now sr ?v = (r, u)"
      using run v e g rec by (simp add: query_finished_def obind_def on_registry_def on_part_def vw)
    have "parts_ok ?pat (cr_sessions g) (cr_active_of g) (cr_deleting g) (wd_uuids w) (insert (key, c) (wd_said w))
        (AList.update c ?sr (wd_streams w)) (wd_reserved w) (pending_works v)"
      using parts_answer [OF world_parts [OF early(1)], of c key ids "store_work c sr"] key(2-5) un ph ids rec e
      by (simp add: set_stream_def update_conv' store_work_def)
    then have ok': "world_ok ce (set_stream c ?sr ?v)"
      using rec e vw by (simp add: world_ok_def parts_of_def set_stream_def)
    have grown: "grows w (set_stream c ?sr ?v)"
      using rec e vw sr(1) by (auto simp: grows_def orphan_def set_stream_def update_conv')
    have "queue_ok ?v" "new_task ?v j"
      using e new(2,3) by (simp_all add: new_task_def)
    from query_titled_effect [OF this t] show ?thesis
    proof
      assume "u = ?v"
      with ok' grown show ?thesis
        by simp
    next
      assume q: "queue_ok u \<and> (\<exists>q ws. u = ?v\<lparr>wd_queue := q, wd_works := ws\<rparr>)
        \<and> pending_works u = (pending_works ?v)(cs_user sr := pending_works ?v (cs_user sr) @ [TitleWork (cs_user sr) (cs_session sr)])"
      then obtain q' ws' where uw: "u = ?v\<lparr>wd_queue := q', wd_works := ws'\<rparr>"
        by blast
      have "grows (set_stream c ?sr ?v) (set_stream c ?sr u)"
        using q by (simp add: grows_def orphan_def set_stream_def uw)
      moreover have "world_ok ce (set_stream c ?sr u)"
        using parts_title [OF world_parts [OF ok'], of "cs_user sr" "cs_user sr" "cs_session sr"] q ok'
        by (simp add: world_ok_def parts_of_def set_stream_def uw)
      ultimately show ?thesis
        using grows_trans [OF grown] by blast
    qed
  qed
qed

lemma receives_keeps:
  assumes ok: "world_ok ce w" and sr: "map_of (wd_streams w) c = Some sr" "cs_phase sr = Receiving"
    and new: "new_task w i" "new_task w j" "i \<noteq> j"
  shows "world_ok ce (query_next ce i j now c sr w) \<and> grows w (query_next ce i j now c sr w)"
proof -
  obtain r x where x: "ce_next ce c (wd_store w) = (r, x)"
    by fastforce
  then have on: "on_store (ce_next ce c) w = (r, w\<lparr>wd_store := x\<rparr>)"
    by (simp add: on_parts)
  have ok': "world_ok ce (w\<lparr>wd_store := x\<rparr>)" and sr': "map_of (wd_streams (w\<lparr>wd_store := x\<rparr>)) c = Some sr"
    using ok sr(1) by simp_all
  have e: "early (cs_phase sr)" "\<not> early Failing" "\<not> early Answered"
    by (simp_all add: early_def sr(2))
  consider (failed) err where "r = Inl err" | (chunk) chunk where "r = Inr (Some chunk)" | (finished) "r = Inr None"
    by (cases r) (auto split: option.splits)
  then show ?thesis
  proof cases
    case failed
    then show ?thesis
      using stream_keeps [OF ok' sr', of "sr\<lparr>cs_phase := Failing\<rparr>"] e(2) by (simp add: query_next_def on)
  next
    case chunk
    have "world_ok ce (set_stream c (received_chunk chunk sr) (w\<lparr>wd_store := x\<rparr>))
      \<and> grows (w\<lparr>wd_store := x\<rparr>) (set_stream c (received_chunk chunk sr) (w\<lparr>wd_store := x\<rparr>))"
      by (rule stream_keeps [OF ok' sr']) (auto simp: received_chunk_def e(1) split: pyval.splits)
    with chunk show ?thesis
      by (simp add: query_next_def on)
  next
    case finished
    obtain y u where u: "query_finished (ce_pattern ce) i j now c sr (w\<lparr>wd_store := x\<rparr>) = (y, u)"
      by fastforce
    have "new_task (w\<lparr>wd_store := x\<rparr>) i" "new_task (w\<lparr>wd_store := x\<rparr>) j"
      using new(1,2) by (simp_all add: new_task_def)
    from finished_keeps [OF ok' sr' e(1) this new(3) _ u, of "case y of Inl _ \<Rightarrow> Failing | Inr _ \<Rightarrow> Answered"] show ?thesis
      using e by (simp add: query_next_def on finished u split: sum.splits)
  qed
qed

section \<open>Deletions\<close>

lemma reserves_keeps:
  assumes ok: "world_ok ce w" and run: "delete_reserve (ce_pattern ce) user session w = (r, v)"
  shows "world_ok ce v \<and> grows w v"
proof -
  let ?pat = "ce_pattern ce" and ?g = "wd_registry w"
  obtain x g where g: "cr_reserve_deletion ?pat (PStr user) (PStr session) ?g = (x, g)"
    by fastforce
  then have on: "on_registry (cr_reserve_deletion ?pat (PStr user) (PStr session)) w = (x, w\<lparr>wd_registry := g\<rparr>)"
    by (simp add: on_parts)
  from cr_reserve_effect [OF world_okD(1) [OF ok] g] show ?thesis
  proof
    assume e: "(\<exists>e. x = Inl e) \<and> same_sessions ?g g"
    then have "v = w\<lparr>wd_registry := g\<rparr>"
      using run on by (auto simp: delete_reserve_def obind_def)
    with e world_registry [OF ok] show ?thesis
      by simp
  next
    assume "\<exists>key ids. x = Inr ids \<and> cr_key ?pat (PStr user) (PStr session) = Inr key \<and> cr_inv g \<and> cr_sessions ?g key = Some ids
       \<and> cr_active_of ?g key = {} \<and> key \<notin> cr_deleting ?g \<and> cr_sessions g = cr_sessions ?g \<and> cr_active_of g = cr_active_of ?g
       \<and> cr_deleting g = insert key (cr_deleting ?g)"
    then obtain key ids where e: "x = Inr ids" "key_of ?pat user session = Inr key" "cr_inv g" "cr_sessions ?g key = Some ids"
        "cr_active_of ?g key = {}" "key \<notin> cr_deleting ?g" "cr_sessions g = cr_sessions ?g" "cr_active_of g = cr_active_of ?g"
        "cr_deleting g = insert key (cr_deleting ?g)"
      unfolding key_of_def by blast
    have v: "v = w\<lparr>wd_registry := g, wd_reserved := (user, session, ids) # wd_reserved w\<rparr>"
      using run on e(1) by (simp add: delete_reserve_def obind_def)
    from parts_reserve [OF world_parts [OF ok] e(2,4-6)] world_okD(2) [OF ok] e(3,7-9) show ?thesis
      by (simp add: world_ok_def parts_of_def grows_def orphan_def v)
  qed
qed

lemma aborts_keeps:
  assumes ok: "world_ok ce w" and x: "(user, session, ids) \<in> set (wd_reserved w)"
    and run: "delete_abort (ce_pattern ce) user session ids w = (r, v)"
  shows "world_ok ce v \<and> grows w v"
proof -
  let ?pat = "ce_pattern ce" and ?w = "w\<lparr>wd_reserved := removeAll (user, session, ids) (wd_reserved w)\<rparr>"
  note p = world_parts [OF ok]
  obtain key where key: "request_key ?pat (user, session, ids) = Inr key"
    using reserved_okD [OF parts_okD(4) [OF p] x] request_okD(1) by metis
  have "on_registry (cr_abort_deletion ?pat (PStr user) (PStr session)) ?w = (r, v)"
    using run by (simp add: delete_abort_def obind_def)
  then obtain g where g: "cr_abort_deletion ?pat (PStr user) (PStr session) (wd_registry w) = (r, g)" and v: "v = ?w\<lparr>wd_registry := g\<rparr>"
    by (auto simp: on_parts)
  have "cr_key ?pat (PStr user) (PStr session) = Inr key"
    using key by (simp add: request_key_def key_of_def)
  from cr_abort_effect [OF world_okD(1) [OF ok] this g] parts_abort [OF p x key] world_okD(2) [OF ok] show ?thesis
    by (simp add: world_ok_def parts_of_def grows_def orphan_def v)
qed

lemma deletes_keeps:
  assumes ok: "world_ok ce w" and x: "(user, session, ids) \<in> set (wd_reserved w)" and new: "new_task w i"
    and run: "delete_enqueue (ce_pattern ce) i now user session ids w = (r, v)"
  shows "world_ok ce v \<and> grows w v"
proof -
  let ?pat = "ce_pattern ce"
  obtain y u where u: "enqueue_work ?pat i now user ''delete_session'' (DeleteWork user session ids) w = (y, u)"
    by fastforce
  from enqueue_work_effect [OF world_okD(2) [OF ok] new u] show ?thesis
  proof
    assume "(\<exists>e. y = Inl e) \<and> u = w"
    then obtain e where "obind (delete_abort ?pat user session ids) (\<lambda>_. oraise e) w = ((r :: string res), v)"
      using run u by (auto simp: delete_enqueue_def otry_def obind_def)
    then obtain q where "delete_abort ?pat user session ids w = (q, v)"
      by (auto simp: obind_def split: prod.splits sum.splits)
    from aborts_keeps [OF ok x this] show ?thesis .
  next
    assume e: "y = Inr i \<and> queue_ok u \<and> pending_works u = (pending_works w)(user := pending_works w user @ [DeleteWork user session ids])
      \<and> (\<forall>j. j \<noteq> i \<longrightarrow> new_task w j \<longrightarrow> new_task u j) \<and> (\<exists>q ws. u = w\<lparr>wd_queue := q, wd_works := ws\<rparr>)"
    then have v: "v = u\<lparr>wd_reserved := removeAll (user, session, ids) (wd_reserved u)\<rparr>"
      using run u by (auto simp: delete_enqueue_def otry_def obind_def)
    obtain q ws where uw: "u = w\<lparr>wd_queue := q, wd_works := ws\<rparr>"
      using e by blast
    have "pending_works v = (pending_works w)(user := pending_works w user @ [DeleteWork user session ids])" "queue_ok v"
      using e by (simp_all add: v)
    with parts_enqueue_deletion [OF world_parts [OF ok] x] world_okD(1) [OF ok] show ?thesis
      by (simp add: world_ok_def parts_of_def grows_def orphan_def v uw)
  qed
qed

section \<open>The background work\<close>

lemma world_queue:
  assumes ok: "world_ok ce w" and q: "tq_inv q" "pending_ids q = pending_ids (wd_queue w)"
    and b: "\<And>u. wd_result w u \<noteq> None \<Longrightarrow> busy_ids (tq_workers q u) \<noteq> []"
  shows "world_ok ce (w\<lparr>wd_queue := q\<rparr>) \<and> grows w (w\<lparr>wd_queue := q\<rparr>)"
proof -
  have "pending_works (w\<lparr>wd_queue := q\<rparr>) = pending_works w"
    using q(2) by (simp add: pending_works_def fun_eq_iff)
  moreover have "queue_ok (w\<lparr>wd_queue := q\<rparr>)"
    using world_okD(2) [OF ok] q b by (simp add: queue_ok_def)
  ultimately show ?thesis
    using ok by (simp add: world_ok_def parts_of_def grows_def orphan_def)
qed

lemma result_busy: "world_ok ce w \<Longrightarrow> wd_result w u \<noteq> None \<Longrightarrow> busy_ids (tq_workers (wd_queue w) u) \<noteq> []"
  using world_okD(2) unfolding queue_ok_def by blast

lemma takes_keeps:
  assumes ok: "world_ok ce w" and run: "tq_take now user (wd_queue w) = Some q"
  shows "world_ok ce (w\<lparr>wd_queue := q\<rparr>) \<and> grows w (w\<lparr>wd_queue := q\<rparr>)"
proof (rule world_queue [OF ok])
  note t = take_pending [OF world_okD(4) [OF ok] run]
  show "tq_inv q" "pending_ids q = pending_ids (wd_queue w)"
    by (rule t)+
  show "busy_ids (tq_workers q u) \<noteq> []" if "wd_result w u \<noteq> None" for u
    using result_busy [OF ok that] t(2) t(4) [of u] by (cases "u = user") simp_all
qed

lemma closing_keeps:
  assumes ok: "world_ok ce w"
    and run: "tq_close_begin (wd_queue w) = Some q \<or> tq_close_stop (wd_queue w) = Some q \<or> tq_close_end (wd_queue w) = Some q"
  shows "world_ok ce (w\<lparr>wd_queue := q\<rparr>) \<and> grows w (w\<lparr>wd_queue := q\<rparr>)"
  by (rule world_queue [OF ok close_pending(1,2) [OF world_okD(4) [OF ok] run]])
    (use close_pending(3) [OF world_okD(4) [OF ok] run] result_busy [OF ok] in simp)

lemma running_pending:
  assumes "running_work w u = Some work"
  shows "\<exists>i. tq_workers (wd_queue w) u = Some (Busy i)"
    "pending_works w u = work # map (\<lambda>i. the (map_of (wd_works w) i)) (queued_ids (tq_queues (wd_queue w) u))"
  using assms by (auto simp: running_work_def pending_works_def pending_ids_def split: option.splits worker.splits)

lemma work_begin_effect:
  assumes inv: "cr_inv (wd_registry w)" and run: "work_begin ce second work w = (r, v)"
  shows "\<exists>g x. same_sessions (wd_registry w) g \<and> v = w\<lparr>wd_registry := g, wd_store := x\<rparr>"
proof -
  have store: "\<exists>g x. same_sessions (wd_registry w) g \<and> v = w\<lparr>wd_registry := g, wd_store := x\<rparr>"
    if run: "obind (on_store (m :: ('a, unit) op)) (\<lambda>_. oret None) w = (r, v)" for m
  proof -
    obtain q where "on_store m w = (q, v)"
      using obind_oret_state run by fast
    then obtain x where "v = w\<lparr>wd_store := x\<rparr>"
      by (auto simp: on_parts)
    then have "v = w\<lparr>wd_registry := wd_registry w, wd_store := x\<rparr>"
      by simp
    then show ?thesis
      using same_sessions_refl [OF inv] by blast
  qed
  show ?thesis
  proof (cases work)
    case (StoreWork cw)
    with run store show ?thesis
      by (simp add: work_begin_def)
  next
    case (DeleteWork user session ids)
    with run store show ?thesis
      by (simp add: work_begin_def)
  next
    case (TitleWork user session)
    obtain q g where g: "cr_get_session (ce_pattern ce) (PStr user) (PStr session) (wd_registry w) = (q, g)"
      by fastforce
    then have on: "on_registry (cr_get_session (ce_pattern ce) (PStr user) (PStr session)) w = (q, w\<lparr>wd_registry := g\<rparr>)"
      by (simp add: on_parts)
    have same: "same_sessions (wd_registry w) g"
      by (rule cr_get_effect [OF inv g])
    show ?thesis
    proof (cases q)
      case (Inl e)
      with run on TitleWork have "v = w\<lparr>wd_registry := g\<rparr>"
        by (simp add: work_begin_def obind_def)
      then have "v = w\<lparr>wd_registry := g, wd_store := wd_store w\<rparr>"
        by simp
      with same show ?thesis
        by blast
    next
      case (Inr s)
      with run on TitleWork have "obind (on_store (written_title ce s)) (\<lambda>title. oret (Some title)) (w\<lparr>wd_registry := g\<rparr>) = (r, v)"
        by (simp add: work_begin_def obind_def)
      then obtain q' where "on_store (written_title ce s) (w\<lparr>wd_registry := g\<rparr>) = (q', v)"
        using obind_oret_state by fast
      with same show ?thesis
        by (auto simp: on_parts)
    qed
  qed
qed

lemma run_beginE:
  assumes "run_begin ce second u w = Some v"
  obtains work r v' where "running_work w u = Some work" "wd_result w u = None" "work_begin ce second work w = (r, v')"
    "v = v'\<lparr>wd_result := (wd_result v')(u \<mapsto> r)\<rparr>"
  using assms by (auto simp: run_begin_def split: option.splits prod.splits)

lemma runs_keeps:
  assumes ok: "world_ok ce w" and run: "run_begin ce second u w = Some v"
  shows "world_ok ce v"
  using run
proof (cases rule: run_beginE)
  case (1 work r v')
  obtain g x where e: "same_sessions (wd_registry w) g" "v' = w\<lparr>wd_registry := g, wd_store := x\<rparr>"
    using work_begin_effect [OF world_okD(1) [OF ok] 1(3)] by blast
  have ok': "world_ok ce v'"
    using world_registry [OF ok e(1)] by (simp add: e(2))
  moreover have "queue_ok v"
    using world_okD(2) [OF ok'] running_pending(1) [OF 1(1)] by (auto simp: queue_ok_def 1(4) e(2))
  ultimately show ?thesis
    by (simp add: world_ok_def parts_of_def 1(4))
qed

text \<open>The end of a work: nothing, a released session or a deleted one.\<close>

lemma work_end_effect:
  assumes inv: "cr_inv s" and run: "work_end pat work r s = (y, g)"
  shows "same_sessions s g \<and> (\<forall>key. \<not> deletes_key pat key work)
    \<or> (\<exists>user session ids key. work = DeleteWork user session ids \<and> key_of pat user session = Inr key \<and>
        (key \<in> cr_deleting s \<longrightarrow> cr_inv g \<and> cr_deleting g = cr_deleting s - {key} \<and>
          (cr_sessions g = cr_sessions s \<and> cr_active_of g = cr_active_of s \<or> (\<exists>x. r = Inr x) \<and>
           cr_sessions g = (cr_sessions s)(key := None) \<and> cr_active_of g = (cr_active_of s)(key := {}))))
    \<or> (\<exists>user session ids e. work = DeleteWork user session ids \<and> key_of pat user session = Inl e)"
proof (cases work)
  case (StoreWork cw)
  with run inv show ?thesis
    by (simp add: work_end_def same_sessions_refl deletes_key_def)
next
  case (TitleWork user session)
  have "same_sessions s g"
  proof (cases r)
    case (Inl e)
    with run inv TitleWork show ?thesis
      by (simp add: work_end_def obind_def same_sessions_refl)
  next
    case (Inr title)
    with run TitleWork have "obind (cr_update_title pat (PStr user) (PStr session) (optional_text title)) (\<lambda>_. oret ()) s = (y, g)"
      by (simp add: work_end_def obind_def)
    then obtain q where "cr_update_title pat (PStr user) (PStr session) (optional_text title) s = (q, g)"
      using obind_oret_state by fast
    from cr_title_effect [OF inv this] show ?thesis .
  qed
  with TitleWork show ?thesis
    by (simp add: deletes_key_def)
next
  case (DeleteWork user session ids)
  show ?thesis
  proof (cases "key_of pat user session")
    case (Inl e)
    with DeleteWork show ?thesis
      by blast
  next
    case (Inr key)
    note key = Inr [unfolded key_of_def]
    have "cr_inv g \<and> cr_deleting g = cr_deleting s - {key} \<and>
          (cr_sessions g = cr_sessions s \<and> cr_active_of g = cr_active_of s \<or> (\<exists>x. r = Inr x) \<and>
           cr_sessions g = (cr_sessions s)(key := None) \<and> cr_active_of g = (cr_active_of s)(key := {}))" if d: "key \<in> cr_deleting s"
    proof (cases r)
      case (Inl e)
      obtain q u where u: "cr_abort_deletion pat (PStr user) (PStr session) s = (q, u)"
        by fastforce
      with run Inl DeleteWork have "g = u"
        by (auto simp: work_end_def otry_def obind_def split: sum.splits)
      with cr_abort_effect [OF inv key u] show ?thesis
        by simp
    next
      case (Inr x)
      obtain q u where u: "cr_commit_deletion pat (PStr user) (PStr session) s = (q, u)"
        by fastforce
      note c = cr_commit_effect [OF inv key u d]
      then obtain js where "q = Inr js"
        by blast
      with run Inr DeleteWork u have "g = u"
        by (simp add: work_end_def otry_def obind_def)
      with c Inr show ?thesis
        by simp
    qed
    with DeleteWork Inr show ?thesis
      by blast
  qed
qed

lemma run_endE:
  assumes "run_end ce now u w = Some v"
  obtains work r y g q where "running_work w u = Some work" "wd_result w u = Some r"
    "work_end (ce_pattern ce) work r (wd_registry w) = (y, g)" "tq_finish now u (work_outcome y) (wd_queue w) = Some q"
    "v = w\<lparr>wd_registry := g, wd_queue := q, wd_result := (wd_result w)(u := None)\<rparr>"
  using assms by (auto simp: run_end_def on_registry_def on_part_def split: option.splits prod.splits)

lemma run_end_queue:
  assumes ok: "queue_ok w" and run: "running_work w u = Some work" and q: "tq_finish now u outcome (wd_queue w) = Some q"
    and v: "v = w\<lparr>wd_registry := g, wd_queue := q, wd_result := (wd_result w)(u := None)\<rparr>"
  shows "queue_ok v" "\<exists>rest. pending_works w u = work # rest \<and> pending_works v = (pending_works w)(u := rest)"
proof -
  have inv: "tq_inv (wd_queue w)"
    using ok by (simp add: queue_ok_def)
  note f = finish_pending [OF inv q]
  obtain i where i: "tq_workers (wd_queue w) u = Some (Busy i)" "pending_ids (wd_queue w) u = i # pending_ids q u"
    using f(2) by blast
  have sub: "set (pending_ids q u') \<subseteq> set (pending_ids (wd_queue w) u')" for u'
    using i(2) f(3) [of u'] by (cases "u' = u") auto
  show "queue_ok v"
    unfolding queue_ok_def
  proof (intro conjI allI impI)
    show "tq_inv (wd_queue v)"
      using f(1) by (simp add: v)
    show "set (pending_ids (wd_queue v) u') \<subseteq> dom (map_of (wd_works v))" for u'
      using sub [of u'] ok unfolding queue_ok_def by (fastforce simp: v)
    show "busy_ids (tq_workers (wd_queue v) u') \<noteq> []" if "wd_result v u' \<noteq> None" for u'
      using that ok f(4) [of u'] by (auto simp: v queue_ok_def split: if_splits)
  qed
  have "pending_works w u = work # pending_works v u"
    using i run by (simp add: pending_works_def v running_work_def)
  moreover have "pending_works v u' = pending_works w u'" if "u' \<noteq> u" for u'
    using f(3) [OF that] by (simp add: pending_works_def v)
  ultimately show "\<exists>rest. pending_works w u = work # rest \<and> pending_works v = (pending_works w)(u := rest)"
    by (intro exI [of _ "pending_works v u"]) (auto simp: fun_eq_iff)
qed

lemma finishes_keeps:
  assumes ok: "world_ok ce w" and run: "run_end ce now u w = Some v"
  shows "world_ok ce v"
  using run
proof (cases rule: run_endE)
  case (1 work r y g q)
  let ?pat = "ce_pattern ce" and ?g = "wd_registry w"
  note p = world_parts [OF ok]
  from run_end_queue [OF world_okD(2) [OF ok] 1(1,4,5)] obtain rest where
      q: "queue_ok v" "pending_works w u = work # rest" "pending_works v = (pending_works w)(u := rest)"
    by blast
  have f: "fits ?pat (cr_sessions ?g) (cr_deleting ?g) (wd_said w) u work"
    using parts_okD(3) [OF p] q(2) unfolding works_ok_def by (metis list.set_intros(1))
  from work_end_effect [OF world_okD(1) [OF ok] 1(3)] show ?thesis
  proof (elim disjE)
    assume "same_sessions ?g g \<and> (\<forall>key. \<not> deletes_key ?pat key work)"
    moreover from this have "parts_ok ?pat (cr_sessions ?g) (cr_active_of ?g) (cr_deleting ?g) (wd_uuids w) (wd_said w) (wd_streams w)
        (wd_reserved w) ((pending_works w)(u := rest))"
      by (intro parts_tail [OF p q(2)]) simp_all
    ultimately show ?thesis
      using q(1,3) by (simp add: world_ok_def parts_of_def same_sessions_def 1(5))
  next
    assume "\<exists>user session ids key. work = DeleteWork user session ids \<and> key_of ?pat user session = Inr key \<and>
        (key \<in> cr_deleting ?g \<longrightarrow> cr_inv g \<and> cr_deleting g = cr_deleting ?g - {key} \<and>
          (cr_sessions g = cr_sessions ?g \<and> cr_active_of g = cr_active_of ?g \<or> (\<exists>x. r = Inr x) \<and>
           cr_sessions g = (cr_sessions ?g)(key := None) \<and> cr_active_of g = (cr_active_of ?g)(key := {})))"
    then obtain user session ids key where w: "work = DeleteWork user session ids" "key_of ?pat user session = Inr key"
      and e: "key \<in> cr_deleting ?g \<longrightarrow> cr_inv g \<and> cr_deleting g = cr_deleting ?g - {key} \<and>
          (cr_sessions g = cr_sessions ?g \<and> cr_active_of g = cr_active_of ?g \<or> (\<exists>x. r = Inr x) \<and>
           cr_sessions g = (cr_sessions ?g)(key := None) \<and> cr_active_of g = (cr_active_of ?g)(key := {}))"
      by blast
    have "key \<in> cr_deleting ?g"
      by (rule deletion_alone(1) [OF p q(2) [unfolded w(1)] w(2)])
    with e have e: "cr_inv g" "cr_deleting g = cr_deleting ?g - {key}" "cr_sessions g = cr_sessions ?g \<and> cr_active_of g = cr_active_of ?g \<or>
           cr_sessions g = (cr_sessions ?g)(key := None) \<and> cr_active_of g = (cr_active_of ?g)(key := {})"
      by blast+
    from e(3) have "parts_of ?pat v"
      using parts_tail_abort [OF p q(2) [unfolded w(1)] w(2)] parts_tail_commit [OF p q(2) [unfolded w(1)] w(2)] e(2) q(3)
      by (elim disjE) (simp_all add: parts_of_def 1(5))
    with e(1) q(1) show ?thesis
      by (simp add: world_ok_def 1(5))
  next
    assume "\<exists>user session ids e. work = DeleteWork user session ids \<and> key_of ?pat user session = Inl e"
    with f show ?thesis
      by (auto simp: fits_def)
  qed
qed

section \<open>Every reachable state\<close>

text \<open>The steps of a worker with its work are kept apart: they alone change the content of the store.\<close>

lemma chat_step_grows:
  assumes "chat_step ce w v" "world_ok ce w"
  shows "world_ok ce v \<and> grows w v \<or> (\<exists>second user. run_begin ce second user w = Some v) \<or> (\<exists>now user. run_end ce now user w = Some v)"
  using assms
proof (induction rule: chat_step.induct)
  case (creates session w user r v)
  then show ?case by (metis creates_keeps)
next
  case (lists user w r v)
  then show ?case
    using reads_keep lists_effect world_okD(1) by metis
next
  case (gets user session w r v)
  then show ?case
    using reads_keep gets_effect world_okD(1) by metis
next
  case (retitles user session title w r v)
  then show ?case
    using reads_keep retitles_effect world_okD(1) by metis
next
  case (opens c w user session question available r v)
  then show ?case by (metis opens_keeps)
next
  case (returns w c sr)
  show ?case
    by (rule disjI1, rule stream_keeps [OF returns(3,1)]) (simp_all add: early_def returns(2))
next
  case (starts w c sr)
  show ?case
    by (rule disjI1, rule stream_keeps [OF starts(3,1)]) (simp_all add: early_def starts(2))
next
  case (asks w c sr second)
  then show ?case by (metis asks_keeps)
next
  case (receives w c sr task_id title_id now)
  then show ?case by (metis receives_keeps)
next
  case (closes w c sr r v)
  then show ?case by (metis closes_keeps)
next
  case (never_starts w c sr)
  then show ?case by (metis never_starts_keeps)
next
  case (reserves user session w r v)
  then show ?case by (metis reserves_keeps)
next
  case (aborts user session ids w r v)
  then show ?case by (metis aborts_keeps)
next
  case (deletes user session ids w task_id now r v)
  then show ?case by (metis deletes_keeps)
next
  case (takes now user w q)
  then show ?case by (metis takes_keeps)
next
  case (runs second user w v)
  then show ?case by blast
next
  case (finishes now user w v)
  then show ?case by blast
next
  case (closing w q)
  then show ?case by (metis closing_keeps)
qed

lemma chat_step_keeps:
  assumes "world_ok ce w" "chat_step ce w v"
  shows "world_ok ce v"
  using chat_step_grows [OF assms(2,1)] runs_keeps [OF assms(1)] finishes_keeps [OF assms(1)] by blast

interpretation chat: step_invariant "chat_step ce" "world_ok ce" for ce
  by unfold_locales (rule chat_step_keeps)

lemma chat_start_ok:
  assumes "tq_new m = Inr q"
  shows "world_ok ce (chat_start q s)"
proof -
  have q: "tq_workers q = (\<lambda>_. None)" "tq_queues q = (\<lambda>_. None)"
    using assms by (auto simp: tq_new_def split: pyval.splits if_splits)
  have pend: "pending_ids q u = []" for u
    by (simp add: pending_ids_def q)
  then have works: "pending_works (chat_start q s) = (\<lambda>_. [])"
    by (simp add: pending_works_def chat_start_def fun_eq_iff)
  have reg: "cr_sessions cr_new = (\<lambda>_. None)" "cr_active_of cr_new = (\<lambda>_. {})" "cr_deleting cr_new = {}"
    by (simp_all add: cr_new_def cr_sessions_def cr_active_of_def fun_eq_iff)
  have "queue_ok (chat_start q s)"
    using tq_new_inv [OF assms] pend by (simp add: queue_ok_def chat_start_def)
  moreover have "parts_ok (ce_pattern ce) (\<lambda>_. None) (\<lambda>_. {}) {} {} {} [] [] (\<lambda>_. [])"
    by (rule parts_okI) (simp_all add: streams_ok_def said_ok_def works_ok_def reserved_ok_def held_ok_def covered_def)
  then have "parts_of (ce_pattern ce) (chat_start q s)"
    by (simp only: parts_of_def works) (simp add: chat_start_def reg)
  ultimately show ?thesis
    using cr_new_inv by (simp add: world_ok_def) (simp add: chat_start_def)
qed

lemma chat_reachable_ok: "tq_new m = Inr q \<Longrightarrow> (chat_step ce)\<^sup>*\<^sup>* (chat_start q s) w \<Longrightarrow> world_ok ce w"
  by (rule chat.reachable_inv [OF _ chat_start_ok])

end
