(* ===== verification/Chat_Forgotten.thy ===== *)
theory Chat_Forgotten
  imports Chat_Safety
begin

text \<open>
  The store along the steps of the chat service: a conversation of a session that is gone has no rows left, whatever the
  interleaving, because a session's deletion comes last on its user's queue.
\<close>

section \<open>What the steps do to the content\<close>

lemma keeps_try [keeps_intros]: "keeps f m \<Longrightarrow> (\<And>e. keeps f (h e)) \<Longrightarrow> keeps f (otry m h)"
  by (fastforce simp: keeps_def otry_def split: prod.splits sum.splits)

lemma keeps_content [keeps_intros]:
  "keeps (\<lambda>w. content (wd_store w)) (on_registry m)" "keeps (\<lambda>w. content (wd_store w)) (on_queue m')"
  "keeps content m'' \<Longrightarrow> keeps (\<lambda>w. content (wd_store w)) (on_store m'')"
  by (auto simp: keeps_def on_parts)

lemma keeps_enqueue_work: "keeps (\<lambda>w. content (wd_store w)) (enqueue_work pat i now u operation work)"
  unfolding enqueue_work_def by (intro keeps_intros) simp

lemma keeps_requests:
  fixes content :: "'st \<Rightarrow> string \<Rightarrow> store_object option"
  shows "keeps (\<lambda>w :: 'st chat_world. content (wd_store w)) (query_open pat user session question c available)"
    "keeps (\<lambda>w :: 'st chat_world. content (wd_store w)) (query_close pat c sr)"
    "keeps (\<lambda>w :: 'st chat_world. content (wd_store w)) (query_finished pat i j now c sr)"
    "keeps (\<lambda>w :: 'st chat_world. content (wd_store w)) (delete_reserve pat user session)"
    "keeps (\<lambda>w :: 'st chat_world. content (wd_store w)) (delete_abort pat user session ids)"
    "keeps (\<lambda>w :: 'st chat_world. content (wd_store w)) (delete_enqueue pat i now user session ids)"
proof -
  let ?C = "\<lambda>w :: 'st chat_world. content (wd_store w)"
  show "keeps ?C (query_open pat user session question c available)" "keeps ?C (query_close pat c sr)" "keeps ?C (delete_reserve pat user session)"
    and a: "keeps ?C (delete_abort pat user session ids)"
    unfolding query_open_def query_close_def delete_reserve_def delete_abort_def set_stream_def by (intro keeps_intros; simp)+
  show "keeps ?C (delete_enqueue pat i now user session ids)"
    unfolding delete_enqueue_def by (intro keeps_intros keeps_enqueue_work a) simp
  have "keeps ?C (query_stored pat i now c sr)"
    unfolding query_stored_def by (intro keeps_intros keeps_enqueue_work) (simp split: sum.split)
  moreover have "keeps ?C (query_titled pat j now sr)"
    unfolding query_titled_def by (intro keeps_intros keeps_enqueue_work)
  ultimately show "keeps ?C (query_finished pat i j now c sr)"
    unfolding query_finished_def by (intro keeps_intros)
qed

lemma store_servicesD:
  assumes "store_services ce name content"
  shows "honest (ce_weaviate ce) name content" "confined (ce_weaviate ce) name content" "quiet_runtime content (ce_runtime ce)"
    "keeps content (ce_next ce c)" "\<forall>prompt. keeps content (ce_title ce prompt)"
    "quiet_env content (cc_env (rl_conversations (ce_collections ce u)))"
    "quiet_env content (cc_env (rl_knowledge (ce_collections ce u)))" "quiet_env content (cc_env (rl_policy (ce_collections ce u)))"
    "rr_conversations (ce_runtime ce) = opened_writer (ce_weaviate ce) (ce_pattern ce)"
  using assms by (simp_all add: store_services_def)

lemma query_ask_content:
  assumes "store_services ce name content"
  shows "content (wd_store (query_ask ce second c sr w)) = content (wd_store w)"
proof -
  note s = store_servicesD [OF assms]
  have "keeps content (asked (stream_call ce c sr) second)"
    by (rule keeps_asked) (simp_all add: stream_call_def s)
  then show ?thesis
    by (auto simp: query_ask_def on_store_def on_part_def set_stream_def keeps_def split: prod.split)
qed

lemma query_next_content:
  assumes "store_services ce name content"
  shows "content (wd_store (query_next ce i j now c sr w)) = content (wd_store w)"
proof -
  obtain r v where v: "on_store (ce_next ce c) w = (r, v)"
    by fastforce
  have 1: "content (wd_store v) = content (wd_store w)"
    using keepsD [OF keeps_content(3) [OF store_servicesD(4) [OF assms]] v] .
  obtain y u where u: "query_finished (ce_pattern ce) i j now c sr v = (y, u)"
    by fastforce
  have 2: "content (wd_store u) = content (wd_store v)"
    using keepsD [OF keeps_requests(3) u] .
  from 1 2 show ?thesis
    by (simp add: query_next_def v u set_stream_def split: sum.split option.split)
qed

lemma run_end_content: "run_end ce now u w = Some v \<Longrightarrow> wd_store v = wd_store w"
  by (auto elim!: run_endE)

lemma chat_step_content:
  assumes "store_services ce name content" "chat_step ce w v"
  shows "content (wd_store v) = content (wd_store w) \<or> (\<exists>second user. run_begin ce second user w = Some v)"
  using assms(2)
proof (induction rule: chat_step.induct)
  case (creates session w user r v)
  then show ?case
    by (auto simp: on_parts)
next
  case (opens c w user session question available r v)
  from keepsD [OF keeps_requests(1) opens(3)] show ?case
    by simp
next
  case (closes w c sr r v)
  from keepsD [OF keeps_requests(2) closes(3)] show ?case
    by simp
next
  case (reserves user session w r v)
  from keepsD [OF keeps_requests(4) reserves(1)] show ?case
    by simp
next
  case (aborts user session ids w r v)
  from keepsD [OF keeps_requests(5) aborts(2)] show ?case
    by simp
next
  case (deletes user session ids w task_id now r v)
  from keepsD [OF keeps_requests(6) deletes(3)] show ?case
    by simp
next
  case (asks w c sr second)
  from query_ask_content [OF assms(1)] show ?case
    by simp
next
  case (receives w c sr task_id title_id now)
  from query_next_content [OF assms(1)] show ?case
    by simp
next
  case (runs second user w v)
  then show ?case
    by blast
next
  case (finishes now user w v)
  then show ?case
    by (simp add: run_end_content)
qed (auto simp: on_parts set_stream_def)

section \<open>Rows of what was said\<close>

definition clean :: "('st \<Rightarrow> string \<Rightarrow> store_object option) \<Rightarrow> 'st chat_world \<Rightarrow> string \<Rightarrow> bool" where
  "clean content w c \<longleftrightarrow> (\<forall>i row. content (wd_store w) i = Some row \<longrightarrow> uuid_prop row ''conversation_id'' \<noteq> Some c)"

text \<open>The removal that the running work of the user has done, and that is still to be committed.\<close>

definition removed :: "string \<Rightarrow> 'st chat_world \<Rightarrow> string \<Rightarrow> bool" where
  "removed u w c \<longleftrightarrow> (\<exists>user session ids rest x. wd_result w u = Some (Inr x)
     \<and> pending_works w u = DeleteWork user session ids # rest \<and> c \<in> set ids)"

definition forgotten :: "string \<Rightarrow> 'st chat_world \<Rightarrow> string \<Rightarrow> bool" where
  "forgotten u w c \<longleftrightarrow> (\<exists>key. (key, c) \<in> wd_said w \<and> fst key = u \<and> cr_sessions (wd_registry w) key = None)"

definition rows_ok :: "string \<Rightarrow> ('st \<Rightarrow> string \<Rightarrow> store_object option) \<Rightarrow> 'st chat_world \<Rightarrow> bool" where
  "rows_ok u content w \<longleftrightarrow> (\<forall>c. forgotten u w c \<or> removed u w c \<longrightarrow> clean content w c)"

lemma rows_frame:
  assumes "rows_ok u content w" "\<And>c. forgotten u v c \<or> removed u v c \<Longrightarrow> forgotten u w c \<or> removed u w c"
    and "\<And>c. forgotten u v c \<or> removed u v c \<Longrightarrow> clean content w c \<Longrightarrow> clean content v c"
  shows "rows_ok u content v"
  using assms unfolding rows_ok_def by blast

lemma grows_rows:
  assumes ok: "world_ok ce w" and rows: "rows_ok u content w" and g: "grows w v" and c: "content (wd_store v) = content (wd_store w)"
  shows "rows_ok u content v"
proof (rule rows_frame [OF rows])
  fix d assume "forgotten u v d \<or> removed u v d"
  then show "forgotten u w d \<or> removed u w d"
  proof
    assume "forgotten u v d"
    with g show ?thesis
      unfolding forgotten_def grows_def by blast
  next
    assume "removed u v d"
    then obtain user session ids rest x where r: "wd_result w u = Some (Inr x)" "pending_works v u = DeleteWork user session ids # rest" "d \<in> set ids"
      using g unfolding removed_def grows_def by auto
    have "busy_ids (tq_workers (wd_queue w) u) \<noteq> []"
      using result_busy [OF ok] r(1) by blast
    then have "pending_works w u \<noteq> []"
      by (simp add: pending_works_def pending_ids_def)
    moreover obtain works where "pending_works v u = pending_works w u @ works"
      using g unfolding grows_def by blast
    ultimately obtain rest' where "pending_works w u = DeleteWork user session ids # rest'"
      using r(2) by (cases "pending_works w u") auto
    with r show ?thesis
      unfolding removed_def by blast
  qed
next
  show "clean content w d \<Longrightarrow> clean content v d" for d
    by (simp add: clean_def c)
qed

text \<open>The pending deletion of a session lists what was said in it.\<close>

lemma head_said:
  assumes ok: "world_ok ce w" and w: "pending_works w u = work # rest"
  shows "work = StoreWork cw \<Longrightarrow> \<exists>key. fst key = u \<and> (key, cw_conversation cw) \<in> wd_said w \<and> cr_sessions (wd_registry w) key \<noteq> None"
    "work = DeleteWork user session ids \<Longrightarrow> \<exists>key. key_of (ce_pattern ce) user session = Inr key \<and> user = u \<and> fst key = u
       \<and> cr_sessions (wd_registry w) key = Some ids \<and> set ids = {c. (key, c) \<in> wd_said w}"
proof -
  note p = parts_okD [OF world_parts [OF ok]]
  have f: "fits (ce_pattern ce) (cr_sessions (wd_registry w)) (cr_deleting (wd_registry w)) (wd_said w) u work"
    using p(3) w unfolding works_ok_def by (metis list.set_intros(1))
  show "work = StoreWork cw \<Longrightarrow> \<exists>key. fst key = u \<and> (key, cw_conversation cw) \<in> wd_said w \<and> cr_sessions (wd_registry w) key \<noteq> None"
    using f by (simp add: fits_def)
  assume "work = DeleteWork user session ids"
  then obtain key where key: "key_of (ce_pattern ce) user session = Inr key" "fst key = u" "cr_sessions (wd_registry w) key = Some ids"
    using f by (auto simp: fits_def)
  with key_of_user [OF key(1)] said_okD(3) [OF p(2) key(3)]
  show "\<exists>key. key_of (ce_pattern ce) user session = Inr key \<and> user = u \<and> fst key = u
       \<and> cr_sessions (wd_registry w) key = Some ids \<and> set ids = {c. (key, c) \<in> wd_said w}"
    by blast
qed

lemma said_once: "world_ok ce w \<Longrightarrow> (k, c) \<in> wd_said w \<Longrightarrow> (k', c) \<in> wd_said w \<Longrightarrow> k' = k"
  by (rule said_okD(2) [OF parts_okD(2) [OF world_parts]])

section \<open>A worker's part\<close>

lemma said_canonical: "world_ok ce w \<Longrightarrow> (k, c) \<in> wd_said w \<Longrightarrow> is_canonical c"
  using said_okD(1) [OF parts_okD(2) [OF world_parts]] by blast

lemma adds_clean:
  assumes "only_adds content c' m" "on_store m w = (r, v)" "c \<noteq> c'" "clean content w c"
  shows "clean content v c"
proof -
  obtain x where x: "m (wd_store w) = (r, x)" "v = w\<lparr>wd_store := x\<rparr>"
    using assms(2) by (auto simp: on_parts)
  show ?thesis
    unfolding clean_def
  proof (intro allI impI)
    fix i row assume "content (wd_store v) i = Some row"
    then have "content (wd_store w) i = Some row \<or> uuid_prop row ''conversation_id'' = Some c'"
      using only_addsD [OF assms(1) x(1)] x(2) by simp
    with assms(3,4) show "uuid_prop row ''conversation_id'' \<noteq> Some c"
      unfolding clean_def by auto
  qed
qed

lemma work_begin_clean:
  assumes s: "store_services ce name content" and run: "work_begin ce second work w = (r, v)" and c: "clean content w c"
    and store: "\<And>cw. work = StoreWork cw \<Longrightarrow> is_canonical (cw_conversation cw) \<and> cw_conversation cw \<noteq> c"
  shows "clean content v c"
proof (cases work)
  case (StoreWork cw)
  let ?m = "embed_conversation (ce_runtime ce) (ce_pattern ce) second (PStr (cw_user cw)) (PStr (cw_conversation cw))
      (PStr (cw_question cw)) (PStr (cw_answer cw))"
  obtain q where q: "on_store ?m w = (q, v)"
    using run obind_oret_state unfolding work_begin_def StoreWork chat_work.case by fast
  have "only_adds content (cw_conversation cw) ?m"
    by (rule adds_embed_conversation [OF store_servicesD(1,2) [OF s] _ store_servicesD(3,9) [OF s]]) (use store [OF StoreWork] in blast)
  from adds_clean [OF this q _ c] store [OF StoreWork] show ?thesis
    by blast
next
  case (DeleteWork user session ids)
  obtain q where q: "on_store (conversations_removed ce user ids) w = (q, v)"
    using run obind_oret_state unfolding work_begin_def DeleteWork chat_work.case by fast
  have "only_adds content (c @ ''x'') (conversations_removed ce user ids)"
    by (rule adds_conversations_removed [OF store_servicesD(1,2) [OF s]])
  from adds_clean [OF this q _ c] show ?thesis
    by simp
next
  case (TitleWork user session)
  have "keeps (\<lambda>w. content (wd_store w)) (work_begin ce second work)"
    unfolding work_begin_def TitleWork chat_work.case
    by (intro keeps_intros keeps_written_title store_servicesD(5) [OF s])
  from keepsD [OF this run] c show ?thesis
    by (simp add: clean_def)
qed

lemma removal_clean:
  assumes s: "store_services ce (uc_name uc) content" and u: "open_user_collection (ce_pattern ce) (PStr user) conversations = Inr uc"
    and run: "work_begin ce second (DeleteWork user session ids) w = (Inr x, v)"
    and c: "c \<in> set ids" "\<forall>d \<in> set ids. is_canonical d"
  shows "clean content v c"
proof -
  have "on_store (conversations_removed ce user ids) w = (Inr (), v)"
    using run by (auto simp: work_begin_def obind_Inr_iff)
  then obtain y where y: "conversations_removed ce user ids (wd_store w) = (Inr (), y)" "v = w\<lparr>wd_store := y\<rparr>"
    by (auto simp: on_parts)
  from conversations_removed_gone [OF store_servicesD(1) [OF s] c(2) u y(1) c(1)] y(2) show ?thesis
    by (simp add: clean_def)
qed

lemma runs_rows:
  assumes ok: "world_ok ce w" and rows: "rows_ok (uc_user uc) content w" and s: "store_services ce (uc_name uc) content"
    and u: "open_user_collection (ce_pattern ce) (PStr (uc_user uc)) conversations = Inr uc"
    and run: "run_begin ce second user w = Some v"
  shows "rows_ok (uc_user uc) content v"
  using run
proof (cases rule: run_beginE)
  case (1 work r v')
  let ?U = "uc_user uc"
  obtain g x where e: "same_sessions (wd_registry w) g" "v' = w\<lparr>wd_registry := g, wd_store := x\<rparr>"
    using work_begin_effect [OF world_okD(1) [OF ok] 1(3)] by blast
  have eq: "wd_said v = wd_said w" "cr_sessions (wd_registry v) = cr_sessions (wd_registry w)" "pending_works v = pending_works w"
    "wd_result v = (wd_result w)(user \<mapsto> r)" "wd_store v = wd_store v'"
    using e by (simp_all add: 1(4) same_sessions_def)
  obtain rest where head: "pending_works w user = work # rest"
    using running_pending(2) [OF 1(1)] by blast
  have kept: "clean content v c" if "clean content w c" "\<And>cw. work = StoreWork cw \<Longrightarrow> cw_conversation cw \<noteq> c" for c
  proof -
    have "is_canonical (cw_conversation cw) \<and> cw_conversation cw \<noteq> c" if "work = StoreWork cw" for cw
      using head_said(1) [OF ok head that] said_canonical [OF ok] \<open>\<And>cw. work = StoreWork cw \<Longrightarrow> cw_conversation cw \<noteq> c\<close> [OF that] by blast
    from work_begin_clean [OF s 1(3) that(1) this] show ?thesis
      by (simp add: clean_def eq(5))
  qed
  have "clean content v c" if "forgotten ?U v c \<or> removed ?U v c" for c
    using that
  proof
    assume "forgotten ?U v c"
    then have f: "forgotten ?U w c"
      by (simp add: forgotten_def eq)
    then obtain key where key: "(key, c) \<in> wd_said w" "cr_sessions (wd_registry w) key = None"
      by (auto simp: forgotten_def)
    have "cw_conversation cw \<noteq> c" if "work = StoreWork cw" for cw
      using head_said(1) [OF ok head that] said_once [OF ok key(1)] key(2) by metis
    with kept f rows show ?thesis
      unfolding rows_ok_def by blast
  next
    assume "removed ?U v c"
    then obtain user' session ids rest' y where r: "wd_result v ?U = Some (Inr y)"
        "pending_works w ?U = DeleteWork user' session ids # rest'" "c \<in> set ids"
      unfolding removed_def eq by blast
    obtain key where key: "key_of (ce_pattern ce) user' session = Inr key" "user' = ?U" "fst key = ?U" "set ids = {c. (key, c) \<in> wd_said w}"
      using head_said(2) [OF ok r(2) refl] by blast
    show ?thesis
    proof (cases "user = ?U")
      case True
      with head r(2) key(2) have work: "work = DeleteWork ?U session ids"
        by simp
      have "\<forall>d \<in> set ids. is_canonical d"
        using key(4) said_canonical [OF ok] by blast
      moreover have "r = Inr y"
        using r(1) eq(4) True by simp
      ultimately have "clean content v' c"
        using removal_clean [OF s u _ r(3)] 1(3) work by blast
      then show ?thesis
        by (simp add: clean_def eq(5))
    next
      case False
      then have "removed ?U w c"
        using r eq(4) unfolding removed_def by auto
      moreover have "cw_conversation cw \<noteq> c" if "work = StoreWork cw" for cw
        using head_said(1) [OF ok head that] said_once [OF ok, of key c] key(3,4) r(3) False by blast
      ultimately show ?thesis
        using kept rows unfolding rows_ok_def by blast
    qed
  qed
  then show ?thesis
    unfolding rows_ok_def by blast
qed

lemma finishes_rows:
  assumes ok: "world_ok ce w" and rows: "rows_ok u content w" and run: "run_end ce now user w = Some v"
  shows "rows_ok u content v"
  using run
proof (cases rule: run_endE)
  case (1 work r y g q)
  from run_end_queue [OF world_okD(2) [OF ok] 1(1,4,5)] obtain rest where
      q: "pending_works w user = work # rest" "pending_works v = (pending_works w)(user := rest)"
    by blast
  have eq: "wd_said v = wd_said w" "wd_store v = wd_store w" "wd_result v = (wd_result w)(user := None)" "wd_registry v = g"
    by (simp_all add: 1(5))
  show ?thesis
  proof (rule rows_frame [OF rows])
    fix c assume "forgotten u v c \<or> removed u v c"
    then show "forgotten u w c \<or> removed u w c"
    proof
      assume "removed u v c"
      then have "user \<noteq> u" "removed u w c"
        unfolding removed_def eq q(2) by (auto split: if_splits)
      then show ?thesis
        by blast
    next
      assume "forgotten u v c"
      then obtain key where key: "(key, c) \<in> wd_said w" "fst key = u" "cr_sessions g key = None"
        by (auto simp: forgotten_def eq)
      show ?thesis
      proof (cases "cr_sessions (wd_registry w) key")
        case None
        with key show ?thesis
          unfolding forgotten_def by blast
      next
        case (Some ids)
        show ?thesis
          using work_end_effect [OF world_okD(1) [OF ok] 1(3)]
        proof (elim disjE)
          assume "same_sessions (wd_registry w) g \<and> (\<forall>key. \<not> deletes_key (ce_pattern ce) key work)"
          with key(3) Some show ?thesis
            by (simp add: same_sessions_def)
        next
          assume "\<exists>user session ids key. work = DeleteWork user session ids \<and> key_of (ce_pattern ce) user session = Inr key \<and>
            (key \<in> cr_deleting (wd_registry w) \<longrightarrow> cr_inv g \<and> cr_deleting g = cr_deleting (wd_registry w) - {key} \<and>
              (cr_sessions g = cr_sessions (wd_registry w) \<and> cr_active_of g = cr_active_of (wd_registry w) \<or> (\<exists>x. r = Inr x) \<and>
               cr_sessions g = (cr_sessions (wd_registry w))(key := None) \<and> cr_active_of g = (cr_active_of (wd_registry w))(key := {})))"
          then obtain user' session ids' k where w: "work = DeleteWork user' session ids'" "key_of (ce_pattern ce) user' session = Inr k"
            and e: "k \<in> cr_deleting (wd_registry w) \<longrightarrow> cr_sessions g = cr_sessions (wd_registry w)
              \<or> (\<exists>x. r = Inr x) \<and> cr_sessions g = (cr_sessions (wd_registry w))(k := None)"
            by blast
          have alone: "k \<in> cr_deleting (wd_registry w)" "cr_sessions (wd_registry w) k = Some ids'" "fst k = user"
            using deletion_alone [OF world_parts [OF ok] q(1) [unfolded w(1)] w(2)] by blast+
          then obtain x where x: "r = Inr x" "key = k"
            using e key(3) Some by (auto split: if_splits)
          have "set ids' = {c. (k, c) \<in> wd_said w}"
            using said_okD(3) [OF parts_okD(2) [OF world_parts [OF ok]] alone(2)] by blast
          then have "c \<in> set ids'"
            using key(1) x(2) by simp
          moreover have "user = u"
            using alone(3) key(2) x(2) by simp
          ultimately have "removed u w c"
            using 1(2) q(1) unfolding removed_def x(1) w(1) by blast
          then show ?thesis ..
        next
          assume "\<exists>user session ids e. work = DeleteWork user session ids \<and> key_of (ce_pattern ce) user session = Inl e"
          with head_said(2) [OF ok q(1)] show ?thesis
            by fastforce
        qed
      qed
    qed
  qed (simp add: clean_def eq(2))
qed

section \<open>A conversation without a stream holds its session\<close>

lemma orphan_stays:
  assumes ok: "world_ok ce w" and o: "orphan w key c" and step: "chat_step ce w v"
  shows "orphan v key c"
proof -
  have held: "key \<notin> cr_deleting (wd_registry w)"
    using parts_okD(5) [OF world_parts [OF ok]] o unfolding held_ok_def orphan_def by blast
  from chat_step_grows [OF step ok] show ?thesis
  proof (elim disjE exE)
    assume "world_ok ce v \<and> grows w v"
    with o show ?thesis
      unfolding grows_def by blast
  next
    fix second user assume "run_begin ce second user w = Some v"
    then show ?thesis
    proof (cases rule: run_beginE)
      case (1 work r v')
      obtain g x where "same_sessions (wd_registry w) g" "v' = w\<lparr>wd_registry := g, wd_store := x\<rparr>"
        using work_begin_effect [OF world_okD(1) [OF ok] 1(3)] by blast
      with o show ?thesis
        by (simp add: orphan_def same_sessions_def 1(4))
    qed
  next
    fix now user assume "run_end ce now user w = Some v"
    then show ?thesis
    proof (cases rule: run_endE)
      case (1 work r y g q)
      have "cr_active_of g key = cr_active_of (wd_registry w) key"
        using work_end_effect [OF world_okD(1) [OF ok] 1(3)]
      proof (elim disjE)
        assume "same_sessions (wd_registry w) g \<and> (\<forall>key. \<not> deletes_key (ce_pattern ce) key work)"
        then show ?thesis
          by (simp add: same_sessions_def)
      next
        assume "\<exists>user session ids k. work = DeleteWork user session ids \<and> key_of (ce_pattern ce) user session = Inr k \<and>
            (k \<in> cr_deleting (wd_registry w) \<longrightarrow> cr_inv g \<and> cr_deleting g = cr_deleting (wd_registry w) - {k} \<and>
              (cr_sessions g = cr_sessions (wd_registry w) \<and> cr_active_of g = cr_active_of (wd_registry w) \<or> (\<exists>x. r = Inr x) \<and>
               cr_sessions g = (cr_sessions (wd_registry w))(k := None) \<and> cr_active_of g = (cr_active_of (wd_registry w))(k := {})))"
        then obtain user' session ids k where w: "work = DeleteWork user' session ids" "key_of (ce_pattern ce) user' session = Inr k"
          and e: "k \<in> cr_deleting (wd_registry w) \<longrightarrow> cr_active_of g = cr_active_of (wd_registry w)
            \<or> cr_active_of g = (cr_active_of (wd_registry w))(k := {})"
          by blast
        obtain rest where "pending_works w user = work # rest"
          using running_pending(2) [OF 1(1)] by blast
        from deletion_alone(1) [OF world_parts [OF ok] this [unfolded w(1)] w(2)] e held show ?thesis
          by (metis fun_upd_other)
      next
        assume "\<exists>user session ids e. work = DeleteWork user session ids \<and> key_of (ce_pattern ce) user session = Inl e"
        with head_said(2) [OF ok running_pending(2) [OF 1(1)]] show ?thesis
          by fastforce
      qed
      with o show ?thesis
        by (simp add: orphan_def 1(5))
    qed
  qed
qed

lemma orphans_stay:
  assumes "(chat_step ce)\<^sup>*\<^sup>* w v" "world_ok ce w" "orphan w key c"
  shows "world_ok ce v \<and> orphan v key c"
  using assms by (induction rule: rtranclp_induct) (auto intro: orphan_stays chat_step_keeps)

lemma active_reserve:
  assumes inv: "cr_inv s" and key: "cr_key pat uid sid = Inr key" and c: "c \<in> cr_active_of s key" and ids: "cr_sessions s key \<noteq> None"
  shows "\<exists>t. cr_reserve_deletion pat uid sid s = (Inl (ActiveChatStreamError (snd key)), t)"
  using inv key
proof (cases rule: cr_snapshot_spec)
  case (missing t)
  with ids show ?thesis
    by simp
next
  case (found t js title ts)
  have "cr_active_of t key \<noteq> {}"
    using found(3) c by (auto simp: cr_active_of_def same_views_def)
  with found(1) show ?thesis
    by (simp add: cr_reserve_deletion_def obind_def key)
qed

text \<open>Who holds the reservation of a session.\<close>

lemma reservation_owner:
  assumes ok: "world_ok ce w" and d: "key \<in> cr_deleting (wd_registry w)"
  shows "\<exists>ids. cr_sessions (wd_registry w) key = Some ids \<and>
    ((\<exists>user session. (user, session, ids) \<in> set (wd_reserved w) \<and> cr_key (ce_pattern ce) (PStr user) (PStr session) = Inr key)
     \<or> (\<exists>before session after. pending_works w (fst key) = before @ DeleteWork (fst key) session ids # after
          \<and> cr_key (ce_pattern ce) (PStr (fst key)) (PStr session) = Inr key
          \<and> (\<forall>cw. StoreWork cw \<in> set after \<longrightarrow> cw_conversation cw \<notin> set ids)))"
proof -
  note p = parts_okD [OF world_parts [OF ok]]
  obtain ids where ids: "cr_sessions (wd_registry w) key = Some ids"
    using p(5) d unfolding held_ok_def by blast
  have said: "set ids = {c. (key, c) \<in> wd_said w}"
    using said_okD(3) [OF p(2) ids] by blast
  from p(6) d consider x where "x \<in> set (wd_reserved w)" "request_key (ce_pattern ce) x = Inr key"
    | u work where "work \<in> set (pending_works w u)" "deletes_key (ce_pattern ce) key work"
    unfolding covered_def by blast
  then show ?thesis
  proof cases
    case 1
    then have "(fst x, fst (snd x), ids) \<in> set (wd_reserved w)"
      using request_alone(2) [OF p(4) 1] ids by simp
    with 1(2) ids show ?thesis
      unfolding request_key_def key_of_def by blast
  next
    case 2
    obtain user session js where w: "work = DeleteWork user session js" "key_of (ce_pattern ce) user session = Inr key"
      using 2(2) by (auto simp: deletes_key_def)
    have u: "fst key = u" "user = u"
      using pending_deletion(2) [OF p(3) 2] key_of_user [OF w(2)] by simp_all
    have "fits (ce_pattern ce) (cr_sessions (wd_registry w)) (cr_deleting (wd_registry w)) (wd_said w) u work"
      using p(3) 2(1) unfolding works_ok_def by blast
    then have js: "js = ids"
      using w ids by (auto simp: fits_def)
    obtain before after where split: "pending_works w u = before @ work # after"
      using 2(1) by (auto dest: split_list)
    have "sorted_wrt (follows (ce_pattern ce) (wd_said w)) (pending_works w u)"
      using p(3) unfolding works_ok_def by blast
    then have "\<not> stores_in (wd_said w) key b" if "b \<in> set after" for b
      using that 2(2) by (auto simp: split sorted_wrt_append follows_def)
    then have "cw_conversation cw \<notin> set ids" if "StoreWork cw \<in> set after" for cw
      using that said by (auto simp: stores_in_def)
    with split w(2) ids u js w(1) show ?thesis
      unfolding key_of_def by blast
  qed
qed

section \<open>The properties\<close>

lemma reachable_rows:
  assumes "tq_new m = Inr q" "(chat_step ce)\<^sup>*\<^sup>* (chat_start q s) w" "store_services ce (uc_name uc) content"
    and "open_user_collection (ce_pattern ce) (PStr (uc_user uc)) conversations = Inr uc"
  shows "rows_ok (uc_user uc) content w"
  using assms(2)
proof (induction rule: rtranclp_induct)
  case base
  show ?case
    by (simp add: rows_ok_def forgotten_def removed_def chat_start_def)
next
  case (step w v)
  have ok: "world_ok ce w"
    by (rule chat_reachable_ok [OF assms(1) step(1)])
  from chat_step_grows [OF step(2) ok] show ?case
  proof (elim disjE exE)
    assume g: "world_ok ce v \<and> grows w v"
    from chat_step_content [OF assms(3) step(2)] show ?case
    proof (elim disjE exE)
      assume "content (wd_store v) = content (wd_store w)"
      with grows_rows [OF ok step.IH] g show ?case
        by blast
    next
      fix second user assume "run_begin ce second user w = Some v"
      from runs_rows [OF ok step.IH assms(3,4) this] show ?case .
    qed
  next
    fix second user assume "run_begin ce second user w = Some v"
    from runs_rows [OF ok step.IH assms(3,4) this] show ?case .
  next
    fix now user assume "run_end ce now user w = Some v"
    from finishes_rows [OF ok step.IH this] show ?case .
  qed
qed

text \<open>
  C1 (safety). A session that was deleted is forgotten. Whatever requests, streams and background work are interleaved,
  and whatever the providers and the store answer or fail with, once the registry no longer has a session, no row of any
  conversation that was said in it is left in its user's conversation collection, and none comes back. The store must
  be honest and confined, and nothing but the conversation store may write to the collection.
\<close>

theorem deleted_session_is_forgotten:
  assumes "tq_new m = Inr q" "(chat_step ce)\<^sup>*\<^sup>* (chat_start q s) w" "store_services ce (uc_name uc) content"
    and "open_user_collection (ce_pattern ce) (PStr user) conversations = Inr uc"
    and "((user, session), c) \<in> wd_said w" "cr_sessions (wd_registry w) (user, session) = None"
  shows "\<forall>i row. content (wd_store w) i = Some row \<longrightarrow> uuid_prop row ''conversation_id'' \<noteq> Some c"
proof -
  have u: "uc_user uc = user"
    using open_collection_parts [OF assms(4)] by simp
  have "forgotten (uc_user uc) w c"
    using assms(5,6) unfolding forgotten_def u by auto
  with reachable_rows [OF assms(1-3) assms(4) [folded u]] have "clean content w c"
    unfolding rows_ok_def by blast
  then show ?thesis
    unfolding clean_def .
qed


text \<open>
  C6 (liveness). A reserved query whose response body is never asked for is never given up. If the client is gone before
  the body of the streaming response starts, the generator's \<open>finally\<close> does not run, and the conversation holds its
  session for ever: in every later state a request to delete the session is answered with 409, although no stream
  of the conversation exists.
\<close>

theorem unstarted_answer_blocks_deletion:
  assumes "tq_new m = Inr q" "(chat_step ce)\<^sup>*\<^sup>* (chat_start q s) w"
    and "map_of (wd_streams w) c = Some sr" "cs_phase sr = Unstarted"
    and "(chat_step ce)\<^sup>*\<^sup>* (w\<lparr>wd_streams := AList.delete c (wd_streams w)\<rparr>) v"
  shows "chat_step ce w (w\<lparr>wd_streams := AList.delete c (wd_streams w)\<rparr>) \<and> map_of (wd_streams v) c = None
    \<and> (\<exists>e t. on_registry (cr_reserve_deletion (ce_pattern ce) (PStr (cs_user sr)) (PStr (cs_session sr))) v = (Inl e, t)
         \<and> deletion_error e = \<lparr>he_status = 409, he_code = ''SESSION_ACTIVE''\<rparr>)"
proof -
  let ?u = "w\<lparr>wd_streams := AList.delete c (wd_streams w)\<rparr>"
  have ok: "world_ok ce w"
    by (rule chat_reachable_ok [OF assms(1,2)])
  obtain key where key: "key_of (ce_pattern ce) (cs_user sr) (cs_session sr) = Inr key" "c \<in> cr_active_of (wd_registry w) key" "c \<in> wd_uuids w"
    by (rule stream_parts [OF ok assms(3)])
  have "world_ok ce ?u"
    using never_starts_keeps [OF ok] by blast
  moreover have "orphan ?u key c"
    using key(2,3) by (simp add: orphan_def delete_conv')
  ultimately have v: "world_ok ce v" "orphan v key c"
    using orphans_stay [OF assms(5)] by blast+
  then have o: "c \<in> cr_active_of (wd_registry v) key" "map_of (wd_streams v) c = None"
    by (simp_all add: orphan_def)
  have "cr_sessions (wd_registry v) key \<noteq> None"
    using parts_okD(5) [OF world_parts [OF v(1)]] o(1) unfolding held_ok_def by blast
  from active_reserve [OF world_okD(1) [OF v(1)] key(1) [unfolded key_of_def] o(1) this] obtain t where
    "cr_reserve_deletion (ce_pattern ce) (PStr (cs_user sr)) (PStr (cs_session sr)) (wd_registry v) = (Inl (ActiveChatStreamError (snd key)), t)"
    by blast
  then have "on_registry (cr_reserve_deletion (ce_pattern ce) (PStr (cs_user sr)) (PStr (cs_session sr))) v
      = (Inl (ActiveChatStreamError (snd key)), v\<lparr>wd_registry := t\<rparr>)"
    by (simp add: on_parts)
  with chat_step.never_starts [OF assms(3,4)] o(2) show ?thesis
    by (auto simp: deletion_error_def)
qed

end
