(* ===== verification/Chat_Demo.thy ===== *)
theory Chat_Demo
  imports Chat_Forgotten
begin

text \<open>
  A run of the chat service over a store in memory: a user creates a session, asks one question in it, gets the answer
  \<open>a\<close>, deletes the session, and the worker of the queue stores the conversation, fails to write a title, and deletes.
  The properties of the service are applied to its states.
\<close>

section \<open>The registry and the queue of the run\<close>

abbreviation "said_key \<equiv> (''u'', uuid_render 8)"

definition demo_reg :: "string list \<Rightarrow> (string, transcript) dict \<Rightarrow> (session_key, string set) dict \<Rightarrow> session_key set \<Rightarrow> chat_registry" where
  "demo_reg ids ts active deleting =
     \<lparr>cr_maps = [(''u'', \<lparr>sm_user = ''u'', sm_sessions = [(uuid_render 8, ids)], sm_owners = map (\<lambda>c. (c, uuid_render 8)) ids\<rparr>)],
      cr_titles = [(said_key, ''New Chat'')], cr_transcripts = [(said_key, ts)], cr_active = active, cr_deleting = deleting\<rparr>"

definition demo_turn :: transcript where
  "demo_turn = \<lparr>ct_id = demo_document, ct_question = ''q'', ct_answer = ''a''\<rparr>"

lemma demo_canonical: "is_canonical demo_document" "is_canonical (uuid_render 8)"
  by (simp_all add: is_canonical_def demo_document_def uuid_canon_render)

lemma demo_session_key: "cr_key any_user (PStr ''u'') (PStr (uuid_render 8)) = Inr said_key"
  by (simp add: cr_key_def demo_valid required_uuid_of_canonical demo_canonical)

lemma demo_identifier: "required_identifier (PStr (uuid_render 8)) m = Inr (uuid_render 8)"
  using canonical_not_blank [OF demo_canonical(2)] by (simp add: required_identifier_def)

lemmas registry_eval = obind_def demo_session_key demo_valid demo_identifier cr_on_map_def cr_map_def sm_new_valid sm_initial_def
  cr_snapshot_locked_def sm_get_conversations_def dict_get_def demo_reg_def demo_turn_def demo_strings not_blank_def cr_active_of_def

lemma demo_creates:
  "cr_create_session any_user (PStr ''u'') (PStr (uuid_render 8)) cr_new
     = (Inr \<lparr>ss_session = uuid_render 8, ss_user = ''u'', ss_title = ''New Chat'', ss_conversations = []\<rparr>, demo_reg [] [] [] {})"
  by (simp add: registry_eval cr_create_session_def cr_new_def sm_create_session_def)

lemma demo_begins:
  "query_reserve any_user ''u'' (uuid_render 8) ''q'' demo_document True (demo_reg [] [] [] {})
     = (Inr (), demo_reg [] [] [(said_key, {demo_document})] {})"
  by (simp add: registry_eval query_reserve_def cr_get_session_def cr_begin_chat_stream_def Let_def)

lemma demo_records:
  "cr_record_conversation any_user (PStr ''u'') (PStr (uuid_render 8)) (PStr demo_document) (PStr ''q'') (PStr ''a'')
     (demo_reg [] [] [(said_key, {demo_document})] {})
   = (Inr (), demo_reg [demo_document] [(demo_document, demo_turn)] [(said_key, {demo_document})] {})"
  by (simp add: registry_eval cr_record_conversation_def sm_add_conversation_def)

lemma demo_ends:
  "cr_end_chat_stream any_user (PStr ''u'') (PStr (uuid_render 8)) (PStr demo_document) (demo_reg ids ts [(said_key, {demo_document})] {})
   = (Inr (), demo_reg ids ts [] {})"
  by (simp add: registry_eval cr_end_chat_stream_def Let_def)

lemma demo_reserves:
  "cr_reserve_deletion any_user (PStr ''u'') (PStr (uuid_render 8)) (demo_reg [demo_document] [(demo_document, demo_turn)] [] {})
   = (Inr [demo_document], demo_reg [demo_document] [(demo_document, demo_turn)] [] {said_key})"
  by (simp add: registry_eval cr_reserve_deletion_def)

lemma demo_gets:
  "cr_get_session any_user (PStr ''u'') (PStr (uuid_render 8)) (demo_reg [demo_document] [(demo_document, demo_turn)] [] d)
   = (Inr \<lparr>ss_session = uuid_render 8, ss_user = ''u'', ss_title = ''New Chat'', ss_conversations = [demo_turn]\<rparr>,
      demo_reg [demo_document] [(demo_document, demo_turn)] [] d)"
  by (simp add: registry_eval cr_get_session_def)

lemma demo_commits:
  "\<exists>g. cr_commit_deletion any_user (PStr ''u'') (PStr (uuid_render 8)) (demo_reg [demo_document] [(demo_document, demo_turn)] [] {said_key})
   = (Inr [demo_document], g) \<and> cr_sessions g said_key = None"
  by (simp add: registry_eval cr_commit_deletion_def sm_delete_session_def on_part_def dict_pop_def dict_del_def cr_sessions_def)

definition demo_queue :: task_queue where
  "demo_queue = tq_accept ''c'' ''u'' ''delete_session'' 0 (tq_accept ''b'' ''u'' ''generate_session_title'' 0
     (tq_accept ''a'' ''u'' ''embed_conversation'' 0 demo_new))"

lemma demo_drains:
  "\<exists>t1 f1 t2 f2 t3 f3. tq_take 0 ''u'' demo_queue = Some t1 \<and> tq_workers t1 ''u'' = Some (Busy ''a'')
    \<and> tq_finish 0 ''u'' WorkReturned t1 = Some f1 \<and> tq_take 0 ''u'' f1 = Some t2 \<and> tq_workers t2 ''u'' = Some (Busy ''b'')
    \<and> tq_finish 0 ''u'' WorkRaised t2 = Some f2 \<and> tq_take 0 ''u'' f2 = Some t3 \<and> tq_workers t3 ''u'' = Some (Busy ''c'')
    \<and> tq_finish 0 ''u'' WorkReturned t3 = Some f3"
  by (simp add: demo_queue_def demo_defs Let_def)

lemma demo_accepts:
  "operation \<in> {''embed_conversation'', ''generate_session_title'', ''delete_session''} \<Longrightarrow> tq_accepting q \<Longrightarrow>
    tq_enqueue any_user i now (PStr ''u'') (PStr operation) True q = (Inr i, tq_accept i ''u'' operation now q)"
  by (auto simp: tq_enqueue_def obind_def demo_valid required_identifier_def py_eval)

section \<open>A store of one collection\<close>

text \<open>The store in memory, which refuses every collection but one.\<close>

definition own_store :: "string \<Rightarrow> memory weaviate" where
  "own_store name = memory_store
     \<lparr>wv_delete_many := (\<lambda>other where' dry. if other = name then wv_delete_many memory_store other where' dry else oraise (RuntimeError [])),
      wv_insert := (\<lambda>other props i late dv. if other = name then wv_insert memory_store other props i late dv else oraise (RuntimeError []))\<rparr>"

lemma own_insert: "conversation_insert (own_store (uc_name uc)) uc = conversation_insert memory_store uc"
proof -
  have w: "write_segment (own_store (uc_name uc)) uc = write_segment memory_store uc"
    by (simp add: write_segment_def own_store_def fun_eq_iff)
  have ws: "write_segments (own_store (uc_name uc)) uc c t d attempted sws = write_segments memory_store uc c t d attempted sws"
    for c t d attempted sws
    by (induction sws arbitrary: attempted) (simp_all add: w)
  have v: "conversation_verified_delete (own_store (uc_name uc)) uc = conversation_verified_delete memory_store uc"
    by (simp add: conversation_verified_delete_def verified_delete_saying_def own_store_def fun_eq_iff)
  show ?thesis
    by (intro ext) (simp only: conversation_insert_def ws v)
qed

lemma own_store_honest: "honest (own_store name) name memory_content"
  using memory_honest [of name]
  by (simp add: honest_def dry_run_truthful_def fetch_truthful_def delete_framed_def writes_framed_def own_store_def)

lemma memory_insert_content:
  assumes "wv_insert memory_store name props i late dv s = (r, t)"
  shows "memory_content t i = memory_content s i \<or> (\<exists>row stored. memory_content t i = Some row
    \<and> so_properties row = Some stored \<and> (distinct (map fst props) \<longrightarrow> (\<forall>(k, v) \<in> set props. prop_of stored k = v)))"
proof (cases "printed_uuid (PStr i) = Some i")
  case True
  then have "memory_content t i = Some (memory_object props i late dv)"
    using assms by (auto simp: memory_store_def memory_content_eq memory_object_def update_conv')
  then show ?thesis
    using prop_of_plain [of props] by (auto simp: memory_object_def)
next
  case False
  have "printed_uuid (plain (so_uuid row)) = Some i \<Longrightarrow> printed_uuid (PStr i) = Some i" for row
    using printed_canon by simp
  then have "memory_content s i = None"
    using False by (auto simp: memory_content_eq split: option.splits)
  moreover have "memory_content t i = None"
    using assms False by (auto simp: memory_store_def memory_content_eq memory_object_def update_conv')
  ultimately show ?thesis
    by simp
qed

lemma own_store_confined: "confined (own_store name) name memory_content"
proof -
  have "keeps memory_content (memory_delete where' True)" for where'
    by (simp add: keeps_def memory_delete_def Let_def)
  then have "keeps memory_content (wv_delete_many (own_store name) other where' dry)" if "other \<noteq> name \<or> dry" for other where' dry
    using that by (auto simp: own_store_def memory_store_def intro: keeps_intros)
  moreover have "keeps memory_content (wv_insert (own_store name) other props i late dv)" if "other \<noteq> name" for other props i late dv
    using that by (auto simp: own_store_def intro: keeps_intros)
  moreover have "wv_insert (own_store name) name = wv_insert memory_store name"
    by (simp add: own_store_def fun_eq_iff)
  ultimately show ?thesis
    unfolding confined_def using memory_insert_content by metis
qed

lemma found_stored:
  assumes "\<forall>p \<in> set xs. printed_uuid (plain (so_uuid (snd p))) = Some (fst p)"
  shows "rmap deleted_object (map (\<lambda>p. (so_uuid (snd p), PBool True)) xs) = Inr (map (\<lambda>p. (fst p, True)) xs)"
    "rmap found_object (map (\<lambda>p. (so_uuid (snd p), PBool True)) xs) = Inr (map fst xs)"
  using assms by (induction xs) (simp_all add: deleted_object_def found_object_def)

lemma memory_deletes:
  "\<exists>report t. verified_delete_saying message (own_store (uc_name uc)) uc where' s = (Inr report, t) \<and> confirmed report"
proof -
  let ?hit = "filter (\<lambda>p. matching where' (fst p) (snd p)) (stored s)"
  let ?t = "filter (\<lambda>p. \<not> matching where' (fst p) (snd p)) (stored s)"
  have keyed: "\<forall>p \<in> set (stored s). printed_uuid (plain (so_uuid (snd p))) = Some (fst p)"
    by (auto simp: stored_def)
  have d: "distinct (map fst ?hit)"
    by (rule distinct_map_filter [OF distinct_stored])
  have t: "filter (\<lambda>p. matching where' (fst p) (snd p)) (stored ?t) = []"
    by (auto simp: filter_empty_conv memory_content_iff [symmetric] memory_content_eq dest!: map_of_SomeD split: option.splits if_splits)
  have "map fst (map (\<lambda>p. (fst p, True)) ?hit) = map fst ?hit" "filter snd (map (\<lambda>p. (fst p, True)) ?hit) = map (\<lambda>p. (fst p, True)) ?hit"
    by (simp_all add: filter_map o_def)
  then have "actual_delete_response \<lparr>da_matches = PInt (int (length ?hit)), da_successful = PInt (int (length ?hit)), da_failed = PInt 0,
      da_objects = Some (map (\<lambda>p. (so_uuid (snd p), PBool True)) ?hit)\<rparr> = Inr (int (length ?hit), int (length ?hit), 0, map fst ?hit)"
    using d found_stored(1) [of ?hit] keyed by (simp add: actual_delete_response_def count_value_def Let_def o_def filter_map)
  moreover have "dry_run_delete_response \<lparr>da_matches = PInt 0, da_successful = PInt 0, da_failed = PInt 0, da_objects = Some []\<rparr> = Inr (0, [])"
    by (simp add: dry_run_delete_response_def count_value_def)
  ultimately show ?thesis
    using t by (simp add: verified_delete_saying_def obind_def own_store_def memory_store_def memory_delete_def Let_def confirmed_def)
qed

definition demo_next :: "(memory, pyval option) op" where
  "demo_next s = (if map_of s [] = None then (Inr (Some (PStr ''a'')), ([], demo_row) # s) else (Inr None, s))"

definition demo_services :: "model_config \<Rightarrow> string \<Rightarrow> memory chat_services" where
  "demo_services cfg name =
     \<lparr>ce_pattern = any_user, ce_weaviate = own_store name,
      ce_runtime = demo_runtime demo_next (opened_writer (own_store name) any_user), ce_config = demo_config cfg,
      ce_collections = (\<lambda>_. \<lparr>rl_user = ''u'', rl_conversations = empty_client ''conversations'',
        rl_knowledge = empty_client ''knowledge_facts'', rl_policy = empty_client ''policy''\<rparr>),
      ce_next = (\<lambda>_. demo_next), ce_template = (\<lambda>t. t), ce_title = (\<lambda>_. oraise (RuntimeError []))\<rparr>"

lemma demo_next_keeps: "keeps memory_content demo_next"
proof -
  have "memory_content (([], demo_row) # s) = memory_content s" if "map_of s [] = None" for s
  proof
    fix i
    have "strip [] = []"
      by code_simp
    then have "uuid_canon one_id = Some one_id" "one_id \<noteq> []"
      using one_id by auto
    then show "memory_content (([], demo_row) # s) i = memory_content s i"
      using that by (simp add: memory_content_eq demo_row_def one_id_def)
  qed
  then show ?thesis
    by (auto simp: keeps_def demo_next_def split: if_splits)
qed

lemma demo_store_services: "store_services (demo_services cfg name) name memory_content"
proof -
  let ?ce = "demo_services cfg name"
  have "quiet_env memory_content (cc_env (empty_client c))" for c
    unfolding quiet_env_def empty_client_def empty_env_def collection_client.simps retrieval_env.simps
    by (intro conjI allI keeps_basic)
  moreover have "quiet_runtime memory_content (ce_runtime ?ce)"
    unfolding quiet_runtime_def demo_services_def demo_runtime_def chat_services.simps rag_runtime.simps
    by (intro conjI allI keeps_basic)
  moreover have "keeps memory_content (ce_next ?ce c)" "keeps memory_content (ce_title ?ce prompt)" for c prompt
    unfolding demo_services_def chat_services.simps by (rule demo_next_keeps, rule keeps_basic)
  ultimately show ?thesis
    using own_store_honest own_store_confined unfolding store_services_def
    by (auto simp: demo_services_def demo_runtime_def)
qed

lemma demo_embeds:
  assumes "open_user_collection any_user (PStr ''u'') conversations = Inr uc"
  shows "\<exists>t. embed_conversation (demo_runtime nc (opened_writer (own_store (uc_name uc)) any_user)) any_user False
     (PStr ''u'') (PStr demo_document) (PStr ''q'') (PStr ''a'') s = (Inr (), t)"
proof -
  let ?t = "conversation_text ''q'' ''a''" and ?wr = "opened_writer (own_store (uc_name uc)) any_user"
  let ?rt = "demo_runtime nc ?wr"
  have t: "strip ?t \<noteq> []"
    by code_simp
  have c: "is_canonical demo_document"
    by (simp add: is_canonical_def demo_document_def uuid_canon_render)
  note e = demo_embedded(1) [OF t, where nc = nc and wr = ?wr and s = s]
    demo_embedded(2) [OF t, where nc = nc and wr = ?wr and s = s and second = False]
  obtain s3 u3 s4 u4 where d: "encode_documents ?rt (strings [?t]) s3 = (Inr [[replicate 128 1]], u3)" "embed_text ?rt (PStr ?t) s4 = (Inr [1], u4)"
    using e(2) unfolding gather_Inr by (auto split: if_splits)
  note seg = conversation_segments_Inr [OF e(1)]
  note ok = checked_arguments [OF c seg encode_documents_Inr [OF d(1) seg(2)] embed_text_Inr [OF d(2)]]
  have one: "segment_writes demo_document [?t] [[replicate 128 1]] = [\<lparr>sw_index = 0, sw_id = segment_identity demo_document 0,
      sw_text = ?t, sw_vectors = [replicate 128 1]\<rparr>]"
    by (simp add: segment_writes_def)
  obtain u where "writer_of (own_store (uc_name uc)) uc demo_document ?t [?t] [[replicate 128 1]] [1] s = (Inr demo_document, u)"
    using memory_insert_one [OF ok [unfolded one] segment_ids_canonical [OF ok [unfolded one]]] unfolding writer_of_def own_insert by auto
  moreover have "rr_conversations ?rt ''u'' s = (Inr (writer_of (own_store (uc_name uc)) uc), s)"
    using assms by (simp add: demo_runtime_def opened_writer_def)
  ultimately have "embed_conversation ?rt any_user False (PStr ''u'') (PStr demo_document) (PStr ''q'') (PStr ''a'') s = (Inr (), u)"
    using e by (simp add: embed_conversation_def obind_def demo_valid required_text_def demo_strings Let_def)
  then show ?thesis
    by blast
qed

lemma demo_answers: "\<exists>x. asked (stream_call (demo_services cfg name) demo_document
    \<lparr>cs_user = ''u'', cs_session = k, cs_question = ''q'', cs_phase = p, cs_chunks = cs\<rparr>) False s = (Inr x, s)"
proof -
  let ?call = "demo_call cfg (demo_runtime demo_next (opened_writer (own_store name) any_user)) (empty_client ''conversations'')
     (empty_client ''knowledge_facts'') (empty_client ''policy'')"
  have e: "retrieve (cc_env (empty_client collection)) (demo_config cfg) (PStr ''q'') (rows_value [replicate 128 1]) collection s = (Inr [], s)"
    if "collection \<in> {''conversations'', ''knowledge_facts'', ''policy''}" for collection
    by (rule empty_retrieve [OF _ that]) (simp add: empty_client_def empty_env_def)
  have "rag_begin ?call False (rag_start s) =
    (rag_start s)\<lparr>rn_phase := Pulling, rn_user := ''u'', rn_conversation := demo_document, rn_query := ''q'',
      rn_prompt := Some (answer_prompt ''q'' [] [])\<rparr>"
    by (rule demo_asked) (simp_all add: e)
  then have "\<exists>x. asked ?call False s = (Inr x, s)"
    by (auto simp: rag_begin_def rag_start_def split: prod.splits sum.splits)
  moreover have "stream_call (demo_services cfg name) demo_document
    \<lparr>cs_user = ''u'', cs_session = k, cs_question = ''q'', cs_phase = p, cs_chunks = cs\<rparr> = ?call"
    by (simp add: stream_call_def demo_services_def demo_call_def)
  ultimately show ?thesis
    by simp
qed

section \<open>The steps of the run\<close>

definition demo_stream :: "stream_phase \<Rightarrow> string list \<Rightarrow> chat_stream" where
  "demo_stream p chunks = \<lparr>cs_user = ''u'', cs_session = uuid_render 8, cs_question = ''q'', cs_phase = p, cs_chunks = chunks\<rparr>"

definition demo_work :: chat_work where
  "demo_work = StoreWork \<lparr>cw_user = ''u'', cw_conversation = demo_document, cw_question = ''q'', cw_answer = ''a''\<rparr>"

text \<open>The states of the run, by what the registry, the queue, the streams and the store hold.\<close>

definition demo_world ::
    "chat_registry \<Rightarrow> task_queue \<Rightarrow> memory \<Rightarrow> (string, chat_work) dict \<Rightarrow> (string, chat_stream) dict
      \<Rightarrow> (string \<times> string \<times> string list) list \<Rightarrow> memory chat_world" where
  "demo_world g q s works streams requests = \<lparr>wd_registry = g, wd_queue = q, wd_store = s, wd_works = works, wd_result = (\<lambda>_. None),
     wd_streams = streams, wd_reserved = requests, wd_uuids = {demo_document, uuid_render 8},
     wd_said = (if works = [] then {} else {(said_key, demo_document)})\<rparr>"

lemma demo_services_simps [simp]: "ce_pattern (demo_services cfg name) = any_user" "ce_next (demo_services cfg name) = (\<lambda>_. demo_next)"
    "ce_weaviate (demo_services cfg name) = own_store name"
    "ce_runtime (demo_services cfg name) = demo_runtime demo_next (opened_writer (own_store name) any_user)"
    "ce_title (demo_services cfg name) = (\<lambda>_. oraise (RuntimeError []))"
  by (simp_all add: demo_services_def)

lemmas world_eval = demo_world_def demo_stream_def set_stream_def on_registry_def on_queue_def on_store_def on_part_def obind_def

lemma step_opens:
  "(chat_step (demo_services cfg name))\<^sup>*\<^sup>* (chat_start demo_new []) (demo_world (demo_reg [] [] [(said_key, {demo_document})] {}) demo_new []
     [] [(demo_document, demo_stream Opened [])] [])"
proof -
  let ?ce = "demo_services cfg name" and ?w = "chat_start demo_new [] :: memory chat_world"
  let ?v = "?w\<lparr>wd_registry := demo_reg [] [] [] {}, wd_uuids := {uuid_render 8}\<rparr>"
  have "chat_step ?ce ?w ?v"
    by (rule chat_step.creates [of "uuid_render 8" _ _ "''u''"])
      (simp_all add: chat_start_def demo_canonical create_session_def on_registry_def on_part_def obind_def demo_creates)
  moreover have "demo_document \<noteq> uuid_render 8"
    using uuid_render_inject [of 7 8] by (simp add: demo_document_def)
  then have "chat_step ?ce ?v (demo_world (demo_reg [] [] [(said_key, {demo_document})] {}) demo_new [] [] [(demo_document, demo_stream Opened [])] [])"
    by (intro chat_step.opens [of demo_document _ _ "''u''" "uuid_render 8" "''q''" True "Inr ()"])
      (simp_all add: chat_start_def demo_canonical query_open_def demo_begins world_eval)
  ultimately show ?thesis
    by (meson converse_rtranclp_into_rtranclp rtranclp.rtrancl_refl)
qed

lemma step_phases:
  "chat_step ce (demo_world g q s works [(c, demo_stream Opened cs)] rs) (demo_world g q s works [(c, demo_stream Unstarted cs)] rs)"
  "chat_step ce (demo_world g q s works [(c, demo_stream Unstarted cs)] rs) (demo_world g q s works [(c, demo_stream Asking cs)] rs)"
  "chat_step (demo_services cfg name) (demo_world g q s works [(demo_document, demo_stream Asking cs)] rs)
     (demo_world g q s works [(demo_document, demo_stream Receiving cs)] rs)"
  "chat_step (demo_services cfg name) (demo_world g demo_new [] works [(c, demo_stream Receiving cs)] rs)
     (demo_world g demo_new [([], demo_row)] works [(c, demo_stream Receiving (cs @ [''a'']))] rs)"
proof -
  show "chat_step ce (demo_world g q s works [(c, demo_stream Opened cs)] rs) (demo_world g q s works [(c, demo_stream Unstarted cs)] rs)"
    using chat_step.returns [of "demo_world g q s works [(c, demo_stream Opened cs)] rs" c "demo_stream Opened cs"]
    by (simp add: world_eval)
  show "chat_step ce (demo_world g q s works [(c, demo_stream Unstarted cs)] rs) (demo_world g q s works [(c, demo_stream Asking cs)] rs)"
    using chat_step.starts [of "demo_world g q s works [(c, demo_stream Unstarted cs)] rs" c "demo_stream Unstarted cs"]
    by (simp add: world_eval)
  have "\<exists>x. asked (stream_call (demo_services cfg name) demo_document (demo_stream Asking cs)) False s = (Inr x, s)"
    unfolding demo_stream_def by (rule demo_answers)
  then have "query_ask (demo_services cfg name) False demo_document (demo_stream Asking cs) (demo_world g q s works [(demo_document, demo_stream Asking cs)] rs)
      = demo_world g q s works [(demo_document, demo_stream Receiving cs)] rs"
    by (auto simp: query_ask_def world_eval)
  with chat_step.asks [of "demo_world g q s works [(demo_document, demo_stream Asking cs)] rs" demo_document "demo_stream Asking cs" "demo_services cfg name" False]
  show "chat_step (demo_services cfg name) (demo_world g q s works [(demo_document, demo_stream Asking cs)] rs)
     (demo_world g q s works [(demo_document, demo_stream Receiving cs)] rs)"
    by (simp add: demo_world_def demo_stream_def)
  have ij: "new_task (demo_world g demo_new [] works [(c, demo_stream Receiving cs)] rs) i" for i
    by (simp add: new_task_def demo_world_def demo_new_def)
  have "query_next (demo_services cfg name) ''a'' ''b'' 0 c (demo_stream Receiving cs) (demo_world g demo_new [] works [(c, demo_stream Receiving cs)] rs)
      = demo_world g demo_new [([], demo_row)] works [(c, demo_stream Receiving (cs @ [''a'']))] rs"
    by (simp add: query_next_def demo_next_def received_chunk_def world_eval)
  with chat_step.receives [of "demo_world g demo_new [] works [(c, demo_stream Receiving cs)] rs" c "demo_stream Receiving cs", OF _ _ ij [of "''a''"] ij [of "''b''"], of "demo_services cfg name" 0]
  show "chat_step (demo_services cfg name) (demo_world g demo_new [] works [(c, demo_stream Receiving cs)] rs)
     (demo_world g demo_new [([], demo_row)] works [(c, demo_stream Receiving (cs @ [''a'']))] rs)"
    by (simp add: demo_world_def demo_stream_def)
qed

abbreviation "demo_works \<equiv> [(''a'', demo_work), (''b'', TitleWork ''u'' (uuid_render 8)), (''c'', DeleteWork ''u'' (uuid_render 8) [demo_document])]"

definition demo_two_works :: task_queue where
  "demo_two_works = tq_accept ''b'' ''u'' ''generate_session_title'' 0 (tq_accept ''a'' ''u'' ''embed_conversation'' 0 demo_new)"

lemma demo_new_tasks:
  "tq_accepting demo_new" "tq_accepting (tq_accept i u oper n q) = tq_accepting q"
  "i \<notin> fst ` set (tq_objects demo_new)"
  "fst ` set (tq_objects (tq_accept i u oper n q)) = insert i (fst ` set (tq_objects q))"
  by (simp_all add: demo_new_def tq_accept_def Let_def dom_update)

lemma step_answered:
  "chat_step (demo_services cfg name)
     (demo_world (demo_reg [] [] [(said_key, {demo_document})] {}) demo_new [([], demo_row)] [] [(demo_document, demo_stream Receiving [''a''])] [])
     (demo_world (demo_reg [demo_document] [(demo_document, demo_turn)] [(said_key, {demo_document})] {}) demo_two_works [([], demo_row)]
       (take 2 demo_works) [(demo_document, demo_stream Answered [''a''])] [])"
proof -
  let ?sr = "demo_stream Receiving [''a'']"
  let ?w = "demo_world (demo_reg [] [] [(said_key, {demo_document})] {}) demo_new [([], demo_row)] [] [(demo_document, ?sr)] []"
  have new: "new_task ?w i" for i
    by (simp add: new_task_def demo_world_def demo_new_tasks)
  have n: "map_of (wd_streams ?w) demo_document = Some ?sr" "cs_phase ?sr = Receiving"
    by (simp_all add: demo_world_def demo_stream_def)
  have "query_next (demo_services cfg name) ''a'' ''b'' 0 demo_document ?sr ?w =
     demo_world (demo_reg [demo_document] [(demo_document, demo_turn)] [(said_key, {demo_document})] {}) demo_two_works [([], demo_row)]
       (take 2 demo_works) [(demo_document, demo_stream Answered [''a''])] []"
    by (simp add: query_next_def demo_next_def query_finished_def query_stored_def query_recorded_def query_titled_def enqueue_work_def
        store_work_def demo_work_def demo_two_works_def demo_accepts demo_new_tasks demo_session_key demo_records demo_strings ocatch_def world_eval)
  with chat_step.receives [OF n new new, of "''a''" "''b''" "demo_services cfg name" 0] show ?thesis
    by simp
qed

lemma step_deletion:
  "(chat_step (demo_services cfg name))\<^sup>*\<^sup>*
     (demo_world (demo_reg [demo_document] [(demo_document, demo_turn)] [(said_key, {demo_document})] {}) demo_two_works s
       (take 2 demo_works) [(demo_document, demo_stream Answered [''a''])] [])
     (demo_world (demo_reg [demo_document] [(demo_document, demo_turn)] [] {said_key}) demo_queue s demo_works [] [])"
proof -
  let ?sr = "demo_stream Answered [''a'']" and ?ce = "demo_services cfg name"
  let ?g = "demo_reg [demo_document] [(demo_document, demo_turn)]"
  let ?w = "demo_world (?g [(said_key, {demo_document})] {}) demo_two_works s (take 2 demo_works) [(demo_document, ?sr)] []"
  let ?u = "demo_world (?g [] {}) demo_two_works s (take 2 demo_works) [] []"
  let ?v = "demo_world (?g [] {said_key}) demo_two_works s (take 2 demo_works) [] [(''u'', uuid_render 8, [demo_document])]"
  have "query_close any_user demo_document ?sr ?w = (Inr (), ?u)"
    by (simp add: query_close_def demo_ends world_eval)
  then have 1: "chat_step ?ce ?w ?u"
    by (intro chat_step.closes [of _ demo_document ?sr]) (simp_all add: demo_world_def demo_stream_def)
  have "delete_reserve any_user ''u'' (uuid_render 8) ?u = (Inr (), ?v)"
    by (simp add: delete_reserve_def demo_reserves world_eval)
  then have 2: "chat_step ?ce ?u ?v"
    by (intro chat_step.reserves) simp_all
  have "delete_enqueue any_user ''c'' 0 ''u'' (uuid_render 8) [demo_document] ?v = (Inr ''c'', demo_world (?g [] {said_key}) demo_queue s demo_works [] [])"
    by (simp add: delete_enqueue_def otry_def enqueue_work_def demo_two_works_def demo_queue_def demo_accepts demo_new_tasks demo_work_def world_eval)
  moreover have "new_task ?v ''c''"
    by (simp add: new_task_def demo_world_def demo_new_tasks demo_two_works_def)
  ultimately have "chat_step ?ce ?v (demo_world (?g [] {said_key}) demo_queue s demo_works [] [])"
    by (intro chat_step.deletes [of "''u''" "uuid_render 8" "[demo_document]"]) (simp_all add: demo_world_def)
  with 1 2 show ?thesis
    by (meson converse_rtranclp_into_rtranclp rtranclp.rtrancl_refl)
qed

text \<open>The worker takes a task, runs it and finishes it.\<close>

lemma step_work:
  assumes "tq_take now ''u'' q = Some q1" "tq_workers q1 ''u'' = Some (Busy i)" "map_of works i = Some work"
    and "work_begin ce False work (demo_world g q1 s works [] []) = (r, demo_world g1 q1 s1 works [] [])"
    and "work_end (ce_pattern ce) work r g1 = (x, g2)" "tq_finish now ''u'' (work_outcome x) q1 = Some q2"
  shows "(chat_step ce)\<^sup>*\<^sup>* (demo_world g q s works [] []) (demo_world g2 q2 s1 works [] [])"
proof -
  let ?v = "demo_world g1 q1 s1 works [] []"
  have 1: "chat_step ce (demo_world g q s works [] []) (demo_world g q1 s works [] [])"
    using chat_step.takes [of now "''u''" "demo_world g q s works [] []" q1 ce] assms(1) by (simp add: demo_world_def)
  have "run_begin ce False ''u'' (demo_world g q1 s works [] []) = Some (?v\<lparr>wd_result := [''u'' \<mapsto> r]\<rparr>)"
    using assms(2-4) by (simp add: run_begin_def running_work_def) (simp add: demo_world_def)
  then have 2: "chat_step ce (demo_world g q1 s works [] []) (?v\<lparr>wd_result := [''u'' \<mapsto> r]\<rparr>)"
    by (rule chat_step.runs)
  have "run_end ce now ''u'' (?v\<lparr>wd_result := [''u'' \<mapsto> r]\<rparr>) = Some (demo_world g2 q2 s1 works [] [])"
    using assms(2,3,5,6) by (simp add: run_end_def running_work_def world_eval fun_eq_iff)
  then have 3: "chat_step ce (?v\<lparr>wd_result := [''u'' \<mapsto> r]\<rparr>) (demo_world g2 q2 s1 works [] [])"
    by (rule chat_step.finishes)
  from 1 2 3 show ?thesis
    by (meson converse_rtranclp_into_rtranclp rtranclp.rtrancl_refl)
qed

lemma steps_answered:
  "(chat_step (demo_services cfg name))\<^sup>*\<^sup>* (chat_start demo_new [])
     (demo_world (demo_reg [demo_document] [(demo_document, demo_turn)] [] {said_key}) demo_queue [([], demo_row)] demo_works [] [])"
proof -
  let ?g = "demo_reg [] [] [(said_key, {demo_document})] {}"
  have "(chat_step (demo_services cfg name))\<^sup>*\<^sup>* (demo_world ?g demo_new [] [] [(demo_document, demo_stream Opened [])] [])
      (demo_world ?g demo_new [([], demo_row)] [] [(demo_document, demo_stream Receiving [''a''])] [])"
    using step_phases(1,2) [where c = demo_document and cs = "[]" and ce = "demo_services cfg name"] step_phases(3) [where cs = "[]"]
      step_phases(4) [where c = demo_document and cs = "[]"]
    unfolding append_Nil by (meson converse_rtranclp_into_rtranclp rtranclp.rtrancl_refl)
  with step_opens step_deletion show ?thesis
    using step_answered by (meson converse_rtranclp_into_rtranclp rtranclp_trans)
qed

lemma demo_removed:
  assumes "open_user_collection any_user (PStr ''u'') conversations = Inr uc"
  shows "\<exists>t. conversations_removed (demo_services cfg (uc_name uc)) ''u'' [demo_document] s = (Inr (), t)"
proof -
  obtain report t where "verified_delete_saying ''conversation deletion verification is incomplete'' (own_store (uc_name uc)) uc
      (ByConversations [demo_document]) s = (Inr report, t)" "confirmed report"
    using memory_deletes by blast
  then show ?thesis
    using assms by (simp add: conversations_removed_def conversation_delete_batch_verified_def conversation_verified_delete_def obind_def
        base_uuid_text_canonical demo_canonical)
qed

lemma demo_untitled: "written_title (demo_services cfg name) \<lparr>ss_session = k, ss_user = u, ss_title = t, ss_conversations = [demo_turn]\<rparr> s
    = (Inl (RuntimeError []), s)"
proof -
  have "strip (conversation_text ''q'' ''a'') \<noteq> []"
    by code_simp
  then show ?thesis
    by (simp add: written_title_def obind_def conversation_list_def demo_turn_def title_required_text_def strings_def Let_def)
qed

lemma steps_worked:
  assumes "open_user_collection any_user (PStr ''u'') conversations = Inr uc"
  shows "\<exists>g q t. (chat_step (demo_services cfg (uc_name uc)))\<^sup>*\<^sup>*
     (demo_world (demo_reg [demo_document] [(demo_document, demo_turn)] [] {said_key}) demo_queue s demo_works [] [])
     (demo_world g q t demo_works [] []) \<and> cr_sessions g said_key = None"
proof -
  let ?ce = "demo_services cfg (uc_name uc)" and ?g = "demo_reg [demo_document] [(demo_document, demo_turn)] [] {said_key}"
  obtain t1 f1 t2 f2 t3 f3 where q: "tq_take 0 ''u'' demo_queue = Some t1" "tq_workers t1 ''u'' = Some (Busy ''a'')"
      "tq_finish 0 ''u'' WorkReturned t1 = Some f1" "tq_take 0 ''u'' f1 = Some t2" "tq_workers t2 ''u'' = Some (Busy ''b'')"
      "tq_finish 0 ''u'' WorkRaised t2 = Some f2" "tq_take 0 ''u'' f2 = Some t3" "tq_workers t3 ''u'' = Some (Busy ''c'')"
      "tq_finish 0 ''u'' WorkReturned t3 = Some f3"
    using demo_drains by auto
  obtain s1 where s1: "embed_conversation (ce_runtime ?ce) any_user False (PStr ''u'') (PStr demo_document) (PStr ''q'') (PStr ''a'') s = (Inr (), s1)"
    using demo_embeds [OF assms] by auto
  obtain s2 where s2: "conversations_removed ?ce ''u'' [demo_document] s1 = (Inr (), s2)"
    using demo_removed [OF assms] by blast
  obtain g where g: "cr_commit_deletion any_user (PStr ''u'') (PStr (uuid_render 8)) ?g = (Inr [demo_document], g)" "cr_sessions g said_key = None"
    using demo_commits by blast
  have 1: "(chat_step ?ce)\<^sup>*\<^sup>* (demo_world ?g demo_queue s demo_works [] []) (demo_world ?g f1 s1 demo_works [] [])"
    by (rule step_work [OF q(1,2), where r = "Inr None" and x = "Inr ()" and work = demo_work and ?g1.0 = ?g])
      (use s1 q(3) in \<open>simp_all add: work_begin_def work_end_def work_outcome_def demo_work_def world_eval\<close>)
  have 2: "(chat_step ?ce)\<^sup>*\<^sup>* (demo_world ?g f1 s1 demo_works [] []) (demo_world ?g f2 s1 demo_works [] [])"
    by (rule step_work [OF q(4,5), where r = "Inl (RuntimeError [])" and x = "Inl (RuntimeError [])" and work = "TitleWork ''u'' (uuid_render 8)" and ?g1.0 = ?g])
      (use q(6) in \<open>simp_all add: work_begin_def work_end_def work_outcome_def demo_gets demo_untitled world_eval\<close>)
  have 3: "(chat_step ?ce)\<^sup>*\<^sup>* (demo_world ?g f2 s1 demo_works [] []) (demo_world g f3 s2 demo_works [] [])"
    by (rule step_work [OF q(7,8), where r = "Inr None" and x = "Inr ()" and work = "DeleteWork ''u'' (uuid_render 8) [demo_document]" and ?g1.0 = ?g])
      (use q(9) s2 g(1) in \<open>simp_all add: work_begin_def work_end_def work_outcome_def otry_def world_eval\<close>)
  from 1 2 3 g(2) show ?thesis
    by (meson rtranclp_trans)
qed

section \<open>The properties on the run\<close>

theorem deleted_session_is_forgotten_witness:
  "\<forall>cfg. \<exists>name w. (chat_step (demo_services cfg name))\<^sup>*\<^sup>* (chat_start demo_new []) w
     \<and> (said_key, demo_document) \<in> wd_said w \<and> cr_sessions (wd_registry w) said_key = None
     \<and> {row. \<exists>i. memory_content (wd_store w) i = Some row \<and> uuid_prop row ''conversation_id'' = Some demo_document} = {}"
proof
  fix cfg
  obtain uc where uc: "open_user_collection any_user (PStr ''u'') conversations = Inr uc"
    using demo_open [of "''conversations''"] unfolding conversations_def by blast
  let ?ce = "demo_services cfg (uc_name uc)"
  obtain g q t where w: "(chat_step ?ce)\<^sup>*\<^sup>* (chat_start demo_new []) (demo_world g q t demo_works [] [])" "cr_sessions g said_key = None"
    using steps_worked [OF uc] steps_answered by (meson rtranclp_trans)
  let ?w = "demo_world g q t demo_works [] []"
  have p: "ce_pattern ?ce = any_user" "(said_key, demo_document) \<in> wd_said ?w" "cr_sessions (wd_registry ?w) said_key = None"
    using w(2) by (simp_all add: demo_world_def)
  from deleted_session_is_forgotten [OF demo_new_ok w(1) demo_store_services _ p(2,3), unfolded p(1), OF uc] w(1) p(2,3)
  show "\<exists>name w. (chat_step (demo_services cfg name))\<^sup>*\<^sup>* (chat_start demo_new []) w
     \<and> (said_key, demo_document) \<in> wd_said w \<and> cr_sessions (wd_registry w) said_key = None
     \<and> {row. \<exists>i. memory_content (wd_store w) i = Some row \<and> uuid_prop row ''conversation_id'' = Some demo_document} = {}"
    by blast
qed


theorem unstarted_answer_blocks_deletion_witness:
  "\<forall>cfg. \<exists>w v sr. (chat_step (demo_services cfg ''C''))\<^sup>*\<^sup>* (chat_start demo_new []) w \<and> map_of (wd_streams w) demo_document = Some sr
     \<and> chat_step (demo_services cfg ''C'') w v \<and> wd_streams v = []
     \<and> (\<exists>e t. on_registry (cr_reserve_deletion any_user (PStr ''u'') (PStr (uuid_render 8))) v = (Inl e, t) \<and> he_status (deletion_error e) = 409)"
proof
  fix cfg
  let ?ce = "demo_services cfg ''C''" and ?sr = "demo_stream Unstarted []"
  let ?w = "demo_world (demo_reg [] [] [(said_key, {demo_document})] {}) demo_new [] [] [(demo_document, ?sr)] []"
  have w: "(chat_step ?ce)\<^sup>*\<^sup>* (chat_start demo_new []) ?w"
    using step_opens step_phases(1) by (meson rtranclp.rtrancl_into_rtrancl)
  have s: "map_of (wd_streams ?w) demo_document = Some ?sr" "cs_phase ?sr = Unstarted" "cs_user ?sr = ''u''" "cs_session ?sr = uuid_render 8"
    by (simp_all add: demo_world_def demo_stream_def)
  let ?v = "?w\<lparr>wd_streams := AList.delete demo_document (wd_streams ?w)\<rparr>"
  have v: "wd_streams ?v = []"
    by (simp add: demo_world_def)
  have "chat_step ?ce ?w ?v \<and> (\<exists>e t. on_registry (cr_reserve_deletion any_user (PStr ''u'') (PStr (uuid_render 8))) ?v = (Inl e, t)
     \<and> he_status (deletion_error e) = 409)"
    using unstarted_answer_blocks_deletion [OF demo_new_ok w s(1,2) rtranclp.rtrancl_refl] by (auto simp: s(3,4))
  with w s(1) v show "\<exists>w v sr. (chat_step ?ce)\<^sup>*\<^sup>* (chat_start demo_new []) w \<and> map_of (wd_streams w) demo_document = Some sr
     \<and> chat_step ?ce w v \<and> wd_streams v = []
     \<and> (\<exists>e t. on_registry (cr_reserve_deletion any_user (PStr ''u'') (PStr (uuid_render 8))) v = (Inl e, t) \<and> he_status (deletion_error e) = 409)"
    by blast
qed

end
