(* ===== verification/Wizard_Api.thy ===== *)
theory Wizard_Api
  imports Wizard File_Reader Chat_Registry Api_Errors
begin

text \<open>
  \<open>backend/api/_wizard.py\<close>: the requests on the wizards of a collection. A read, a creation and an upload answer at once;
  \<open>save\<close> and \<open>delete\<close> check the document and put the call on the queue. An upload copies files into a temporary
  directory, reads them back as text and answers with a draft, which it does not save. Traces, and failures of
  the temporary directory and of the spooled files of a request, are left out.
\<close>

section \<open>Resources\<close>

record wizard_resource =
  wx_wizard :: string
  wx_user :: string
  wx_collection :: string
  wx_text :: string
  wx_ids :: "int list"

definition wizard_document ::
    "'st wizard_runtime \<Rightarrow> string \<Rightarrow> string \<Rightarrow> string \<Rightarrow> ('st wizard_world, string \<times> int list) op" where
  "wizard_document rt user collection wizard =
     obind (rt_document_map rt (PStr user) (PStr collection)) (\<lambda>s.
     obind (on_documents s (oread (\<lambda>m. dm_get_full_text m (PStr wizard)))) (\<lambda>text.
     obind (on_documents s (oread (\<lambda>m. dm_get_paragraphs m (PStr wizard)))) (\<lambda>ids. oret (text, ids))))"

definition wizard_resource ::
    "'st wizard_runtime \<Rightarrow> string \<Rightarrow> string \<Rightarrow> string \<Rightarrow> ('st wizard_world, wizard_resource) op" where
  "wizard_resource rt user collection wizard =
     obind (wizard_document rt user collection wizard) (\<lambda>(text, ids).
     oret \<lparr>wx_wizard = wizard, wx_user = user, wx_collection = collection, wx_text = text, wx_ids = ids\<rparr>)"

definition creation_error :: "exc \<Rightarrow> http_error" where
  "creation_error e = (case e of
       ValueError _ \<Rightarrow> \<lparr>he_status = 409, he_code = ''RESOURCE_CONFLICT''\<rparr>
     | TypeError _ \<Rightarrow> validation_error
     | _ \<Rightarrow> internal_error)"

definition list_error :: "exc \<Rightarrow> http_error" where
  "list_error e = (case e of TypeError _ \<Rightarrow> validation_error | ValueError _ \<Rightarrow> validation_error | _ \<Rightarrow> internal_error)"

definition wizard_create ::
    "'st wizard_runtime \<Rightarrow> string \<Rightarrow> string \<Rightarrow> 'st wizard_world \<Rightarrow> (http_error + wizard_resource) \<times> 'st wizard_world" where
  "wizard_create rt user collection w =
     (case validated_user_id (rt_pattern rt) (PStr user) of
        Inl e \<Rightarrow> (Inl (list_error e), w)
      | Inr _ \<Rightarrow>
          answering creation_error
            (obind (create_wizard rt (PStr user) (PStr collection)) (\<lambda>wizard. wizard_resource rt user collection wizard)) w)"

definition wizard_list ::
    "'st wizard_runtime \<Rightarrow> string \<Rightarrow> string \<Rightarrow> 'st wizard_world \<Rightarrow> (http_error + wizard_resource list) \<times> 'st wizard_world" where
  "wizard_list rt user collection =
     answering list_error
       (obind (rt_document_map rt (PStr user) (PStr collection)) (\<lambda>s.
        obind (on_documents s (oread (\<lambda>m. Inr (dm_list_documents m)))) (\<lambda>wizards.
        omap (wizard_resource rt user collection) wizards)))"

definition wizard_get ::
    "'st wizard_runtime \<Rightarrow> string \<Rightarrow> string \<Rightarrow> string \<Rightarrow> 'st wizard_world \<Rightarrow> (http_error + wizard_resource) \<times> 'st wizard_world" where
  "wizard_get rt user collection wizard = answering resource_error (wizard_resource rt user collection wizard)"

text \<open>
  \<open>save\<close> and \<open>delete\<close> up to the queue: the call that their work makes. \<open>available\<close>: the embedding is configured;
  \<open>ensured\<close>: the collections of the user can be made.
\<close>

definition wizard_known ::
    "'st wizard_runtime \<Rightarrow> string \<Rightarrow> string \<Rightarrow> string \<Rightarrow> ('st wizard_world, unit) op" where
  "wizard_known rt user collection wizard =
     obind (rt_document_map rt (PStr user) (PStr collection)) (\<lambda>s.
     obind (on_documents s (oread (\<lambda>m. dm_get_paragraph_data m (PStr wizard)))) (\<lambda>_. oret ()))"

definition wizard_save ::
    "'st wizard_runtime \<Rightarrow> bool \<Rightarrow> bool \<Rightarrow> string \<Rightarrow> string \<Rightarrow> string \<Rightarrow> string \<Rightarrow> int list option
      \<Rightarrow> 'st wizard_world \<Rightarrow> (http_error + 'st wizard_call) \<times> 'st wizard_world" where
  "wizard_save rt available ensured user collection wizard text modified w =
     (if \<not> available then (Inl service_unavailable, w)
      else (case answering resource_error (wizard_known rt user collection wizard) w of
              (Inl e, v) \<Rightarrow> (Inl e, v)
            | (Inr _, v) \<Rightarrow>
                if \<not> ensured then (Inl service_unavailable, v)
                else (Inr (SaveWizard rt (PStr user) wizard (PStr collection) (PStr text) (case modified of None \<Rightarrow> PNone | Some ids \<Rightarrow> PList (map PInt ids))), v)))"

definition wizard_delete ::
    "'st wizard_runtime \<Rightarrow> bool \<Rightarrow> string \<Rightarrow> string \<Rightarrow> string
      \<Rightarrow> 'st wizard_world \<Rightarrow> (http_error + 'st wizard_call) \<times> 'st wizard_world" where
  "wizard_delete rt ensured user collection wizard w =
     (case answering resource_error (wizard_known rt user collection wizard) w of
        (Inl e, v) \<Rightarrow> (Inl e, v)
      | (Inr _, v) \<Rightarrow>
          if \<not> ensured then (Inl service_unavailable, v)
          else (Inr (DeleteWizard rt (PStr user) wizard (PStr collection)), v))"

section \<open>Uploads\<close>

text \<open>
  The configuration of uploads. \<open>us_json\<close> is \<open>json.loads\<close>, \<open>None\<close> for malformed text; \<open>us_decode\<close> reads the bytes of a file
  as text in the configured encoding, \<open>None\<close> for a \<open>UnicodeDecodeError\<close>. Bytes are characters.
\<close>

record upload_settings =
  us_supported :: "string list"
  us_separator :: string
  us_file_bytes :: nat
  us_total_bytes :: nat
  us_read_bytes :: nat
  us_directory :: string
  us_json :: "string \<Rightarrow> pyval option"
  us_decode :: "string \<Rightarrow> string option"

record upload_file =
  uf_name :: "string option"
  uf_bytes :: string

datatype upload_failure = UploadTooLarge string | EmptyUpload string | UploadRaised exc

type_synonym disk = "(string, string) dict"

subsection \<open>The marked paragraphs\<close>

definition upload_id_values :: "(string \<Rightarrow> pyval option) \<Rightarrow> string \<Rightarrow> pyval list res" where
  "upload_id_values json raw_value =
     (let v = strip raw_value in
      if take 1 v = ''['' then
        (case json v of
           None \<Rightarrow> Inl (ValueError ''modified_paragraph_ids contains malformed JSON'')
         | Some (PList decoded) \<Rightarrow> Inr decoded
         | Some _ \<Rightarrow> Inl (ValueError ''modified_paragraph_ids JSON must be an array''))
      else Inr [PStr v])"

definition upload_paragraph_id :: "int list \<Rightarrow> pyval \<Rightarrow> int res" where
  "upload_paragraph_id known v =
     rbind (case v of
              PInt n \<Rightarrow> Inr n
            | PStr t \<Rightarrow> (case py_int t of Inl _ \<Rightarrow> Inl (TypeError ''modified paragraph IDs must be integers'') | Inr n \<Rightarrow> Inr n)
            | _ \<Rightarrow> Inl (TypeError ''modified paragraph IDs must be integers'')) (\<lambda>n.
     rbind (positive_paragraph_id (PInt n)) (\<lambda>paragraph_id.
     if paragraph_id \<notin> set known then Inl (ValueError (''modified paragraph_id '' @ show_int paragraph_id @ '' does not exist''))
     else Inr paragraph_id))"

definition uploaded_paragraph_ids :: "(string \<Rightarrow> pyval option) \<Rightarrow> string list option \<Rightarrow> int list \<Rightarrow> int list res" where
  "uploaded_paragraph_ids json raw_values known =
     rbind (rmap (upload_id_values json) (case raw_values of None \<Rightarrow> [] | Some vs \<Rightarrow> vs)) (\<lambda>values.
     rbind (rmap (upload_paragraph_id known) (concat values)) (\<lambda>modified. Inr (sorted_list_of_set (set modified))))"

subsection \<open>Copying\<close>

function copy_chunks ::
    "upload_settings \<Rightarrow> string \<Rightarrow> nat \<Rightarrow> nat \<Rightarrow> string \<Rightarrow> disk \<Rightarrow> (upload_failure + nat) \<times> disk" where
  "copy_chunks us path file_bytes total_bytes rest disk =
     (let chunk = take (us_read_bytes us) rest;
          file_bytes' = file_bytes + length chunk; total_bytes' = total_bytes + length chunk
      in if chunk = [] then (Inr total_bytes, disk)
         else if us_file_bytes us < file_bytes' then (Inl (UploadTooLarge ''file upload limit exceeded''), disk)
         else if us_total_bytes us < total_bytes' then (Inl (UploadTooLarge ''total upload limit exceeded''), disk)
         else copy_chunks us path file_bytes' total_bytes' (drop (us_read_bytes us) rest)
                (AList.map_entry path (\<lambda>written. written @ chunk) disk))"
  by pat_completeness auto
termination
  by (relation "measure (\<lambda>(_, _, _, _, rest, _). length rest)") auto

declare copy_chunks.simps [simp del]

definition upload_path :: "upload_settings \<Rightarrow> nat \<Rightarrow> upload_file \<Rightarrow> string" where
  "upload_path us index f =
     us_directory us @ ''/upload-'' @ show_nat index @ path_suffix (case uf_name f of None \<Rightarrow> [] | Some name \<Rightarrow> name)"

fun copy_uploads ::
    "upload_settings \<Rightarrow> nat \<Rightarrow> nat \<Rightarrow> upload_file list \<Rightarrow> disk \<Rightarrow> (upload_failure + string list) \<times> disk" where
  "copy_uploads us index total_bytes [] disk = (Inr [], disk)"
| "copy_uploads us index total_bytes (f # files) disk =
     (let path = upload_path us index f in
      case copy_chunks us path 0 total_bytes (uf_bytes f) (AList.update path [] disk) of
        (Inl e, disk') \<Rightarrow> (Inl e, disk')
      | (Inr total_bytes', disk') \<Rightarrow>
          (case copy_uploads us (index + 1) total_bytes' files disk' of
             (Inl e, disk'') \<Rightarrow> (Inl e, disk'')
           | (Inr paths, disk'') \<Rightarrow> (Inr (path # paths), disk'')))"

subsection \<open>Reading and merging\<close>

definition upload_filesystem :: "upload_settings \<Rightarrow> disk \<Rightarrow> filesystem" where
  "upload_filesystem us disk =
     \<lparr>fs_kind = (\<lambda>p. if map_of disk p = None then Missing else Regular),
      fs_text = (\<lambda>p. case map_of disk p of
         None \<Rightarrow> Inl (OSError ''FileNotFoundError'')
       | Some bytes \<Rightarrow> (case us_decode us bytes of None \<Rightarrow> Inl (ValueError ''UnicodeDecodeError'') | Some t \<Rightarrow> Inr t))\<rparr>"

definition read_uploaded_text :: "upload_settings \<Rightarrow> filesystem \<Rightarrow> string list \<Rightarrow> upload_failure + string" where
  "read_uploaded_text us fs paths =
     (case rmap (\<lambda>p. fst (read_text_files (us_supported us) (us_separator us) fs (PList [PStr p]) [])) paths of
        Inl e \<Rightarrow> Inl (UploadRaised e)
      | Inr contents \<Rightarrow>
          if list_all (\<lambda>content. content = []) contents then Inl (EmptyUpload ''all uploaded files are empty'')
          else Inr (join (us_separator us) contents))"

definition upload_error :: "upload_failure \<Rightarrow> http_error" where
  "upload_error e = (case e of
       UploadTooLarge _ \<Rightarrow> \<lparr>he_status = 413, he_code = ''UPLOAD_TOO_LARGE''\<rparr>
     | EmptyUpload _ \<Rightarrow> \<lparr>he_status = 422, he_code = ''EMPTY_UPLOAD''\<rparr>
     | UploadRaised e \<Rightarrow>
         if e = ValueError ''UnicodeDecodeError'' then \<lparr>he_status = 422, he_code = ''INVALID_TEXT_ENCODING''\<rparr> else internal_error)"

definition uploaded_text :: "upload_settings \<Rightarrow> upload_file list \<Rightarrow> upload_failure + string" where
  "uploaded_text us files =
     (case copy_uploads us 0 0 files [] of
        (Inl e, disk) \<Rightarrow> Inl e
      | (Inr paths, disk) \<Rightarrow> read_uploaded_text us (upload_filesystem us disk) paths)"

definition unsupported_file :: "upload_settings \<Rightarrow> upload_file \<Rightarrow> bool" where
  "unsupported_file us f \<longleftrightarrow>
     lower (path_suffix (case uf_name f of None \<Rightarrow> [] | Some name \<Rightarrow> name)) \<notin> set (us_supported us)"

definition draft_merge :: "upload_settings \<Rightarrow> string option \<Rightarrow> string \<Rightarrow> string \<Rightarrow> string" where
  "draft_merge us current saved_text uploaded =
     (let base = (case current of None \<Rightarrow> saved_text | Some t \<Rightarrow> t)
      in if base \<noteq> [] \<and> uploaded \<noteq> [] then base @ us_separator us @ uploaded else base @ uploaded)"

definition upload_draft ::
    "upload_settings \<Rightarrow> upload_file list \<Rightarrow> string option \<Rightarrow> string list option \<Rightarrow> string \<Rightarrow> int list
      \<Rightarrow> http_error + string \<times> int list" where
  "upload_draft us files current marked saved_text paragraph_ids =
     (if list_ex (unsupported_file us) files then Inl \<lparr>he_status = 415, he_code = ''UNSUPPORTED_FILE_TYPE''\<rparr>
      else (case uploaded_paragraph_ids (us_json us) marked paragraph_ids of
              Inl e \<Rightarrow> Inl (list_error e)
            | Inr modified \<Rightarrow>
                (case uploaded_text us files of
                   Inl e \<Rightarrow> Inl (upload_error e)
                 | Inr uploaded \<Rightarrow>
                     if paragraph_ids = [] then Inl internal_error
                     else Inr (draft_merge us current saved_text uploaded,
                               sorted_list_of_set (insert (last paragraph_ids) (set modified))))))"

record upload_resource = wizard_resource +
  wx_modified :: "int list"

definition wizard_upload ::
    "upload_settings \<Rightarrow> 'st wizard_runtime \<Rightarrow> string \<Rightarrow> string \<Rightarrow> string \<Rightarrow> upload_file list \<Rightarrow> string option
      \<Rightarrow> string list option \<Rightarrow> 'st wizard_world \<Rightarrow> (http_error + upload_resource) \<times> 'st wizard_world" where
  "wizard_upload us rt user collection wizard files current marked w =
     (if files = [] then (Inl validation_error, w)
      else (case answering resource_error (wizard_document rt user collection wizard) w of
              (Inl e, v) \<Rightarrow> (Inl e, v)
            | (Inr (saved_text, paragraph_ids), v) \<Rightarrow>
                (case upload_draft us files current marked saved_text paragraph_ids of
                   Inl e \<Rightarrow> (Inl e, v)
                 | Inr (text, modified) \<Rightarrow>
                     (Inr \<lparr>wx_wizard = wizard, wx_user = user, wx_collection = collection, wx_text = text,
                           wx_ids = paragraph_ids, wx_modified = modified\<rparr>, v))))"

end
