(* ===== verification/Wizard_Upload.thy ===== *)
theory Wizard_Upload
  imports Wizard_Api
begin

text \<open>
  Uploads: the bytes that are copied, the text that is read back, the paragraphs that are marked, and the draft that is
  answered.
\<close>

section \<open>Copies stay within the limits\<close>

lemma show_nat_value: "foldl (\<lambda>a c. 10 * a + (of_char c - 48)) (0::nat) (show_nat n) = n"
  by (induction n rule: show_nat.induct) (subst show_nat.simps, simp)

lemma show_nat_inject: "show_nat m = show_nat n \<Longrightarrow> m = n"
  by (metis show_nat_value)

lemma show_nat_digits: "c \<in> set (show_nat n) \<Longrightarrow> c \<noteq> CHR ''.'' \<and> c \<noteq> CHR ''/''"
proof (induction n rule: show_nat.induct)
  case (1 n)
  have d: "char_of (48 + k) \<noteq> CHR ''.'' \<and> char_of (48 + k) \<noteq> CHR ''/''" if "k < 10" for k :: nat
  proof -
    have "char_of (48 + k) \<noteq> c" if "of_char c < (48 :: nat)" for c
    proof
      assume "char_of (48 + k) = c"
      then have "of_char (char_of (48 + k) :: char) = (of_char c :: nat)"
        by simp
      with that \<open>k < 10\<close> show False
        by simp
    qed
    then show ?thesis
      by simp
  qed
  show ?case
  proof (cases "n < 10")
    case True
    with 1(2) d [of n] show ?thesis
      by (simp add: show_nat.simps [of n])
  next
    case False
    with 1 d [of "n mod 10"] show ?thesis
      by (subst (asm) show_nat.simps [of n]) auto
  qed
qed

lemma split_char_last: "d \<notin> set t \<Longrightarrow> \<exists>ws. ws \<noteq> [] \<and> split_char d (s @ d # t) = ws @ [t]"
proof (induction s)
  case Nil
  then show ?case
    by (intro exI [of _ "[[]]"]) (simp add: split_char_single)
next
  case (Cons c s)
  then obtain w ws where "split_char d (s @ d # t) = w # ws @ [t]"
    by (metis append_Cons neq_Nil_conv)
  then show ?case
    by (cases "c = d") (auto intro: exI [of _ "[] # w # ws"] exI [of _ "(c # w) # ws"])
qed

lemma path_suffix_shape:
  "path_suffix p = [] \<or> (\<exists>x. path_suffix p = CHR ''.'' # x \<and> x \<noteq> [] \<and> CHR ''.'' \<notin> set x \<and> CHR ''/'' \<notin> set x)"
proof -
  have "CHR ''/'' \<notin> set (path_name p)"
  proof (cases "filter (\<lambda>c. c \<noteq> [] \<and> c \<noteq> ''.'') (split_char (CHR ''/'') p)")
    case (Cons w ws)
    then have "last (w # ws) \<in> set (split_char (CHR ''/'') p)"
      by (metis filter_is_subset last_in_set list.distinct(1) subsetD)
    then show ?thesis
      using Cons split_char_no_sep by (fastforce simp: path_name_def)
  qed (simp add: path_name_def)
  moreover have "set (rev (takeWhile (\<lambda>c. c \<noteq> CHR ''.'') (rev (path_name p)))) \<subseteq> set (path_name p) - {CHR ''.''}"
    by (auto dest: set_takeWhileD)
  ultimately show ?thesis
    unfolding path_suffix_def Let_def by (auto split: if_splits)
qed

lemma path_suffix_of:
  assumes "CHR ''.'' \<notin> set stem" "CHR ''/'' \<notin> set stem" "stem \<noteq> []"
  shows "path_suffix (dir @ CHR ''/'' # stem @ path_suffix p) = path_suffix p"
proof -
  let ?x = "path_suffix p"
  have slash: "CHR ''/'' \<notin> set (stem @ ?x)"
    using path_suffix_shape [of p] assms(2) by auto
  obtain ws where "split_char (CHR ''/'') (dir @ CHR ''/'' # stem @ ?x) = ws @ [stem @ ?x]"
    using split_char_last [OF slash] by blast
  moreover have "stem @ ?x \<noteq> ''.''"
    using assms(1,3) by (cases stem) auto
  ultimately have name: "path_name (dir @ CHR ''/'' # stem @ ?x) = stem @ ?x"
    using assms(3) by (cases "filter (\<lambda>c. c \<noteq> [] \<and> c \<noteq> ''.'') ws") (simp_all add: path_name_def)
  from path_suffix_shape [of p] show ?thesis
  proof (elim disjE exE conjE)
    assume "?x = []"
    moreover have "takeWhile (\<lambda>c. c \<noteq> CHR ''.'') (rev stem) = rev stem"
      using assms(1) by (auto simp: takeWhile_eq_all_conv)
    ultimately show ?thesis
      using name unfolding path_suffix_def [of "dir @ _"] by (simp add: Let_def del: takeWhile_eq_all_conv)
  next
    fix x assume x: "?x = CHR ''.'' # x" "x \<noteq> []" "CHR ''.'' \<notin> set x"
    have "takeWhile (\<lambda>c. c \<noteq> CHR ''.'') (rev (stem @ ?x)) = rev x"
      using x(3) by (simp add: x(1) takeWhile_append)
    then show ?thesis
      using name x assms(3) unfolding path_suffix_def [of "dir @ _"] by (cases stem) (auto simp: Let_def)
  qed
qed

definition upload_name :: "upload_file \<Rightarrow> string" where
  "upload_name f = (case uf_name f of None \<Rightarrow> [] | Some name \<Rightarrow> name)"

lemma upload_path_stem: "upload_path us i f = us_directory us @ CHR ''/'' # (''upload-'' @ show_nat i) @ path_suffix (upload_name f)"
  by (simp add: upload_path_def upload_name_def)

lemma upload_path_suffix: "path_suffix (upload_path us i f) = path_suffix (upload_name f)"
  unfolding upload_path_stem by (rule path_suffix_of) (auto dest: show_nat_digits)

lemma upload_path_inject: "upload_path us i f = upload_path us j g \<Longrightarrow> i = j"
proof -
  have t: "takeWhile (\<lambda>c. c \<noteq> CHR ''.'') (show_nat i @ path_suffix p) = show_nat i" for i p
    using path_suffix_shape [of p] show_nat_digits [of _ i] by (auto simp: takeWhile_append takeWhile_eq_all_conv)
  assume "upload_path us i f = upload_path us j g"
  then have "show_nat i @ path_suffix (upload_name f) = show_nat j @ path_suffix (upload_name g)"
    by (simp add: upload_path_stem)
  then have "show_nat i = show_nat j"
    using t by metis
  then show "i = j"
    by (rule show_nat_inject)
qed

lemma map_entry_twice: "AList.map_entry k f (AList.map_entry k g d) = AList.map_entry k (\<lambda>x. f (g x)) d"
  by (induction d) auto

lemma copy_chunks_spec:
  assumes "copy_chunks us path fb tb rest d = (r, d')" "0 < us_read_bytes us" "fb \<le> us_file_bytes us" "tb \<le> us_total_bytes us"
  shows "\<exists>k \<le> length rest. d' = AList.map_entry path (\<lambda>w. w @ take k rest) d \<and> fb + k \<le> us_file_bytes us \<and> tb + k \<le> us_total_bytes us
    \<and> (case r of Inr t \<Rightarrow> k = length rest \<and> t = tb + k
       | Inl e \<Rightarrow> (\<exists>m. e = UploadTooLarge m) \<and> (us_file_bytes us < fb + length rest \<or> us_total_bytes us < tb + length rest))"
  using assms
proof (induction us path fb tb rest d arbitrary: r rule: copy_chunks.induct)
  case (1 us path fb tb rest d)
  let ?chunk = "take (us_read_bytes us) rest"
  have le: "length ?chunk \<le> length rest"
    by simp
  have id: "AList.map_entry path (\<lambda>w. w) d = d"
    by (induction d) auto
  consider "?chunk = []" | "?chunk \<noteq> []" "us_file_bytes us < fb + length ?chunk"
    | "?chunk \<noteq> []" "\<not> us_file_bytes us < fb + length ?chunk" "us_total_bytes us < tb + length ?chunk"
    | "?chunk \<noteq> []" "\<not> us_file_bytes us < fb + length ?chunk" "\<not> us_total_bytes us < tb + length ?chunk"
    by blast
  then show ?case
  proof cases
    case 1
    then have rest: "rest = []"
      using "1.prems"(2) by simp
    then have "r = Inr tb" "d' = d"
      using "1.prems"(1) copy_chunks.simps [of us path fb tb "[]" d] by simp_all
    with "1.prems" rest show ?thesis
      by (intro exI [of _ 0]) (simp add: id)
  next
    case 2
    then have "\<exists>m. r = Inl (UploadTooLarge m)" "d' = d"
      using "1.prems"(1) by (auto simp: copy_chunks.simps [of us path fb tb rest d] Let_def)
    with "1.prems" 2 le show ?thesis
      by (intro exI [of _ 0]) (auto simp: id)
  next
    case 3
    then have "\<exists>m. r = Inl (UploadTooLarge m)" "d' = d"
      using "1.prems"(1) by (auto simp: copy_chunks.simps [of us path fb tb rest d] Let_def)
    with "1.prems" 3 le show ?thesis
      by (intro exI [of _ 0]) (auto simp: id)
  next
    case 4
    let ?d = "AList.map_entry path (\<lambda>written. written @ ?chunk) d"
    have run: "copy_chunks us path (fb + length ?chunk) (tb + length ?chunk) (drop (us_read_bytes us) rest) ?d = (r, d')"
      using "1.prems"(1) 4 by (simp add: copy_chunks.simps [of us path fb tb rest d] Let_def)
    obtain k where k: "k \<le> length (drop (us_read_bytes us) rest)"
        "d' = AList.map_entry path (\<lambda>w. w @ take k (drop (us_read_bytes us) rest)) ?d"
        "fb + length ?chunk + k \<le> us_file_bytes us" "tb + length ?chunk + k \<le> us_total_bytes us"
        "case r of Inr t \<Rightarrow> k = length (drop (us_read_bytes us) rest) \<and> t = tb + length ?chunk + k
         | Inl e \<Rightarrow> (\<exists>m. e = UploadTooLarge m) \<and> (us_file_bytes us < fb + length ?chunk + length (drop (us_read_bytes us) rest)
            \<or> us_total_bytes us < tb + length ?chunk + length (drop (us_read_bytes us) rest))"
      using "1.IH" [OF refl refl refl 4 run "1.prems"(2)] 4 by auto
    have len: "length ?chunk + length (drop (us_read_bytes us) rest) = length rest"
      by simp
    have "take (length ?chunk + k) rest = ?chunk @ take k (drop (us_read_bytes us) rest)"
      using k(1) by (simp add: take_add min_def)
    then have "d' = AList.map_entry path (\<lambda>w. w @ take (length ?chunk + k) rest) d"
      by (simp add: k(2) map_entry_twice)
    then show ?thesis
      using k(1,3-5) len by (intro exI [of _ "length ?chunk + k"]) (simp add: add.assoc split: sum.splits)
  qed
qed

definition within_limits :: "upload_settings \<Rightarrow> nat \<Rightarrow> upload_file list \<Rightarrow> bool" where
  "within_limits us used files \<longleftrightarrow> (\<forall>f \<in> set files. length (uf_bytes f) \<le> us_file_bytes us)
     \<and> used + sum_list (map (\<lambda>f. length (uf_bytes f)) files) \<le> us_total_bytes us"

lemma map_entry_new: "p \<notin> fst ` set d \<Longrightarrow> AList.map_entry p f (AList.update p x d) = d @ [(p, f x)]"
  by (induction d) auto

lemma copy_uploads_spec:
  assumes "copy_uploads us i tb files d = (r, d')" "0 < us_read_bytes us" "tb \<le> us_total_bytes us"
    and "\<And>j f. i \<le> j \<Longrightarrow> upload_path us j f \<notin> fst ` set d" "distinct (map fst d)"
  shows "\<exists>new. d' = d @ new \<and> distinct (map fst d') \<and> (\<forall>(p, b) \<in> set new. length b \<le> us_file_bytes us)
    \<and> tb + sum_list (map (\<lambda>(p, b). length b) new) \<le> us_total_bytes us
    \<and> (case r of Inr paths \<Rightarrow> within_limits us tb files \<and> map fst new = paths \<and> map snd new = map uf_bytes files
         \<and> list_all2 (\<lambda>p f. path_suffix p = path_suffix (upload_name f)) paths files
       | Inl e \<Rightarrow> \<not> within_limits us tb files \<and> (\<exists>m. e = UploadTooLarge m))"
  using assms
proof (induction us i tb files d arbitrary: r d' rule: copy_uploads.induct)
  case (1 us i tb d)
  then show ?case
    by (auto simp: within_limits_def)
next
  case (2 us i tb f files d)
  let ?p = "upload_path us i f"
  obtain q d1 where q: "copy_chunks us ?p 0 tb (uf_bytes f) (AList.update ?p [] d) = (q, d1)"
    by fastforce
  have new: "?p \<notin> fst ` set d"
    using "2.prems"(4) by blast
  obtain k where k: "k \<le> length (uf_bytes f)" "d1 = d @ [(?p, take k (uf_bytes f))]" "k \<le> us_file_bytes us" "tb + k \<le> us_total_bytes us"
      "case q of Inr t \<Rightarrow> k = length (uf_bytes f) \<and> t = tb + k
       | Inl e \<Rightarrow> (\<exists>m. e = UploadTooLarge m) \<and> (us_file_bytes us < length (uf_bytes f) \<or> us_total_bytes us < tb + length (uf_bytes f))"
    using copy_chunks_spec [OF q "2.prems"(2) le0 "2.prems"(3), unfolded map_entry_new [OF new] add_0 append_Nil] by blast
  have d1: "distinct (map fst d1)" "\<And>j g. i + 1 \<le> j \<Longrightarrow> upload_path us j g \<notin> fst ` set d1"
  proof -
    show "distinct (map fst d1)"
      using "2.prems"(5) new by (simp add: k(2))
    show "upload_path us j g \<notin> fst ` set d1" if "i + 1 \<le> j" for j g
      using "2.prems"(4) [of j g] upload_path_inject [of us i f j g] that by (auto simp: k(2))
  qed
  show ?case
  proof (cases q)
    case (Inl e)
    then have "r = Inl e" "d' = d1"
      using "2.prems"(1) q by (simp_all add: Let_def)
    with k(1-4) k(5) [unfolded Inl] Inl d1(1) show ?thesis
      by (intro exI [of _ "[(?p, take k (uf_bytes f))]"]) (auto simp: within_limits_def min_def)
  next
    case (Inr t)
    with k(5) have t: "k = length (uf_bytes f)" "t = tb + length (uf_bytes f)"
      by simp_all
    obtain r2 d2 where r2: "copy_uploads us (i + 1) t files d1 = (r2, d2)"
      by fastforce
    have run: "d' = d2" "r = (case r2 of Inl e \<Rightarrow> Inl e | Inr paths \<Rightarrow> Inr (?p # paths))"
      using "2.prems"(1) q Inr r2 by (auto simp: Let_def split: sum.splits)
    have "t \<le> us_total_bytes us"
      using k(4) t by simp
    from "2.IH" [OF refl q [symmetric] Inr r2 "2.prems"(2) this d1(2,1)]
    obtain new where new: "d2 = d1 @ new" "distinct (map fst d2)" "\<forall>(p, b) \<in> set new. length b \<le> us_file_bytes us"
        "t + sum_list (map (\<lambda>(p, b). length b) new) \<le> us_total_bytes us"
        "case r2 of Inr paths \<Rightarrow> within_limits us t files \<and> map fst new = paths \<and> map snd new = map uf_bytes files
         \<and> list_all2 (\<lambda>p f. path_suffix p = path_suffix (upload_name f)) paths files
       | Inl e \<Rightarrow> \<not> within_limits us t files \<and> (\<exists>m. e = UploadTooLarge m)"
      by blast
    have w: "within_limits us tb (f # files) \<longleftrightarrow> within_limits us t files"
      using k(3) t by (auto simp: within_limits_def)
    show ?thesis
      using new k(2,3) t(1)
      by (intro exI [of _ "(?p, uf_bytes f) # new"]) (cases r2; simp add: run w t(2) upload_path_suffix)
  qed
qed

text \<open>
  C16 (bounds). Copying uploads succeeds exactly when every file is within the file limit and all of them within the
  total; then the directory holds one file per upload with exactly its bytes, in order and under different names.
  Whatever happens, no file that was written is longer than the file limit, and all of them together are within
  the total: a request cannot put more than that on the disk. A failure is the error of a limit.
\<close>

theorem uploads_within_limits:
  assumes "0 < us_read_bytes us" "copy_uploads us 0 0 files [] = (r, disk)"
  shows "(case r of
       Inr paths \<Rightarrow> within_limits us 0 files \<and> disk = zip paths (map uf_bytes files) \<and> length paths = length files \<and> distinct paths
     | Inl e \<Rightarrow> \<not> within_limits us 0 files \<and> upload_error e = \<lparr>he_status = 413, he_code = ''UPLOAD_TOO_LARGE''\<rparr>)
    \<and> (\<forall>bytes \<in> snd ` set disk. length bytes \<le> us_file_bytes us) \<and> sum_list (map (\<lambda>(p, b). length b) disk) \<le> us_total_bytes us"
proof -
  from copy_uploads_spec [OF assms(2,1)] obtain new where new: "disk = new" "distinct (map fst disk)"
      "\<forall>(p, b) \<in> set new. length b \<le> us_file_bytes us" "sum_list (map (\<lambda>(p, b). length b) new) \<le> us_total_bytes us"
      "case r of Inr paths \<Rightarrow> within_limits us 0 files \<and> map fst new = paths \<and> map snd new = map uf_bytes files
         \<and> list_all2 (\<lambda>p f. path_suffix p = path_suffix (upload_name f)) paths files
       | Inl e \<Rightarrow> \<not> within_limits us 0 files \<and> (\<exists>m. e = UploadTooLarge m)"
    by auto
  then show ?thesis
    by (cases r) (auto simp: upload_error_def zip_map_fst_snd dest: list_all2_lengthD, metis zip_map_fst_snd)
qed

section \<open>Reading what was copied\<close>

lemma rmap_same: "list_all2 (\<lambda>p f. g p = h f) ps fs \<Longrightarrow> rmap g ps = rmap h fs"
  by (induction rule: list_all2_induct) simp_all

lemma read_one:
  assumes "lower (path_suffix p) \<in> set supported" "fs_kind fs p = Regular"
  shows "fst (read_text_files supported sep fs (PList [PStr p]) []) = fs_text fs p"
proof -
  have "validate_path supported (PStr p) = Inr p"
    using assms(1) by (simp add: validate_path_Inr)
  with assms(2) show ?thesis
    by (cases "fs_text fs p") (simp_all add: read_text_files_def obind_def probe_def)
qed

definition decoded :: "upload_settings \<Rightarrow> upload_file \<Rightarrow> string res" where
  "decoded us f = (case us_decode us (uf_bytes f) of None \<Rightarrow> Inl (ValueError ''UnicodeDecodeError'') | Some t \<Rightarrow> Inr t)"

lemma decoded_all:
  "case rmap (decoded us) files of Inl e \<Rightarrow> e = ValueError ''UnicodeDecodeError''
     | Inr texts \<Rightarrow> list_all2 (\<lambda>f t. us_decode us (uf_bytes f) = Some t) files texts"
  by (induction files) (auto simp: decoded_def rbind_def split: option.splits sum.splits)

lemma join_empty: "x \<in> set xs \<Longrightarrow> x \<noteq> [] \<Longrightarrow> join sep xs \<noteq> []"
  by (induction sep xs rule: join.induct) auto

lemma uploaded_text_outcome:
  assumes "0 < us_read_bytes us" "\<not> list_ex (unsupported_file us) files"
  shows "case uploaded_text us files of
       Inl e \<Rightarrow> he_status (upload_error e) \<in> {413, 422}
     | Inr t \<Rightarrow> within_limits us 0 files \<and> t \<noteq> [] \<and> (\<exists>texts. t = join (us_separator us) texts
         \<and> list_all2 (\<lambda>f x. us_decode us (uf_bytes f) = Some x) files texts)"
proof -
  obtain r disk where run: "copy_uploads us 0 0 files [] = (r, disk)"
    by fastforce
  from copy_uploads_spec [OF run assms(1)] have d: "distinct (map fst disk)"
    and c: "case r of Inr paths \<Rightarrow> within_limits us 0 files \<and> map fst disk = paths \<and> map snd disk = map uf_bytes files
         \<and> list_all2 (\<lambda>p f. path_suffix p = path_suffix (upload_name f)) paths files
       | Inl e \<Rightarrow> \<not> within_limits us 0 files \<and> (\<exists>m. e = UploadTooLarge m)"
    by auto
  show ?thesis
  proof (cases r)
    case (Inl e)
    with c show ?thesis
      by (auto simp: uploaded_text_def run upload_error_def)
  next
    case (Inr paths)
    let ?fs = "upload_filesystem us disk"
    let ?g = "\<lambda>p. fst (read_text_files (us_supported us) (us_separator us) ?fs (PList [PStr p]) [])"
    from c Inr have p: "within_limits us 0 files" "map fst disk = paths" "map snd disk = map uf_bytes files"
        "list_all2 (\<lambda>p f. path_suffix p = path_suffix (upload_name f)) paths files"
      by simp_all
    have "list_all2 (\<lambda>p f. ?g p = decoded us f) paths files"
    proof (rule list_all2_all_nthI)
      show "length paths = length files"
        using p(4) by (rule list_all2_lengthD)
      fix i assume i: "i < length paths"
      have f: "i < length files" "i < length disk"
        using i p(2) list_all2_lengthD [OF p(4)] by auto
      have "snd (disk ! i) = uf_bytes (files ! i)" "fst (disk ! i) = paths ! i"
        using f p(2,3) by (metis nth_map)+
      moreover have "(fst (disk ! i), snd (disk ! i)) \<in> set disk"
        using f(2) by simp
      ultimately have m: "map_of disk (paths ! i) = Some (uf_bytes (files ! i))"
        using map_of_is_SomeI [OF d] by simp
      have "\<not> unsupported_file us (files ! i)"
        using assms(2) f(1) by (auto simp: list_ex_iff)
      then have s: "lower (path_suffix (paths ! i)) \<in> set (us_supported us)"
        using list_all2_nthD [OF p(4) i] by (simp add: unsupported_file_def upload_name_def)
      show "?g (paths ! i) = decoded us (files ! i)"
        by (subst read_one [OF s]) (simp_all add: upload_filesystem_def m decoded_def)
    qed
    from rmap_same [OF this] have u: "uploaded_text us files = (case rmap (decoded us) files of
        Inl e \<Rightarrow> Inl (UploadRaised e)
      | Inr contents \<Rightarrow>
          if list_all (\<lambda>content. content = []) contents then Inl (EmptyUpload ''all uploaded files are empty'')
          else Inr (join (us_separator us) contents))"
      by (simp add: uploaded_text_def run Inr read_uploaded_text_def)
    show ?thesis
      using decoded_all [of us files] p(1) join_empty unfolding u
      by (auto simp: upload_error_def list_all_iff split: sum.splits)
  qed
qed

section \<open>The marked paragraphs\<close>

definition bad_value :: "exc \<Rightarrow> bool" where
  "bad_value e \<longleftrightarrow> (\<exists>m. e = TypeError m \<or> e = ValueError m)"

lemma bad_value_status: "bad_value e \<Longrightarrow> he_status (list_error e) = 422" "bad_value e \<Longrightarrow> he_status (resource_error e) = 422"
  by (auto simp: bad_value_def list_error_def resource_error_def validation_error_def)

lemma bad_rmap: "(\<And>x e. f x = Inl e \<Longrightarrow> bad_value e) \<Longrightarrow> rmap f xs = Inl e \<Longrightarrow> bad_value e"
  by (induction xs) (auto simp: rbind_Inl_iff)

lemma good_rmap: "(\<And>x y. f x = Inr y \<Longrightarrow> P y) \<Longrightarrow> rmap f xs = Inr ys \<Longrightarrow> \<forall>y \<in> set ys. P y"
  by (induction xs arbitrary: ys) (auto simp: rbind_Inr_iff)

lemma uploaded_paragraph_ids_outcome:
  "case uploaded_paragraph_ids json marked known of
     Inl e \<Rightarrow> bad_value e
   | Inr ids \<Rightarrow> ids = sorted_list_of_set (set ids) \<and> (\<forall>i \<in> set ids. 0 < i \<and> i \<in> set known)"
proof -
  let ?raw = "case marked of None \<Rightarrow> [] | Some vs \<Rightarrow> vs"
  have v: "bad_value e" if "upload_id_values json x = Inl e" for x e
    using that by (auto simp: upload_id_values_def bad_value_def Let_def split: if_splits option.splits pyval.splits)
  have i: "bad_value e" if "upload_paragraph_id known x = Inl e" for x e
    using that by (auto simp: upload_paragraph_id_def bad_value_def rbind_Inl_iff positive_paragraph_id_def
        split: if_splits pyval.splits sum.splits)
  have ok: "0 < n \<and> n \<in> set known" if "upload_paragraph_id known x = Inr n" for x n
    using that by (auto simp: upload_paragraph_id_def rbind_Inr_iff positive_paragraph_id_def split: if_splits)
  show ?thesis
  proof (cases "uploaded_paragraph_ids json marked known")
    case (Inl e)
    then have "bad_value e"
      using bad_rmap [OF v] bad_rmap [OF i] by (auto simp: uploaded_paragraph_ids_def rbind_Inl_iff)
    with Inl show ?thesis
      by simp
  next
    case (Inr ids)
    then obtain vs modified where m: "rmap (upload_paragraph_id known) vs = Inr modified" "ids = sorted_list_of_set (set modified)"
      by (auto simp: uploaded_paragraph_ids_def rbind_Inr_iff)
    have "\<forall>n \<in> set modified. 0 < n \<and> n \<in> set known"
      using good_rmap [where P = "\<lambda>n. 0 < n \<and> n \<in> set known", OF _ m(1)] ok by blast
    with m(2) Inr show ?thesis
      by simp
  qed
qed

lemma modified_items_ok: "\<forall>i \<in> set xs. 0 < i \<and> i \<in> set existing \<Longrightarrow> modified_items existing (map PInt xs) = Inr xs"
  by (induction xs) (simp_all add: positive_paragraph_id_def)

section \<open>The document of an upload\<close>

lemma rt_scope_bad: "rt_scope rt u c = Inl e \<Longrightarrow> bad_value e"
  by (auto simp: rt_scope_def bad_value_def rbind_Inl_iff rbind_Inr_iff validated_user_id_def get_collection_name_def Let_def
      validated_document_collection_type_def required_identifier_def split: pyval.splits if_splits)

lemma required_uuid_bad: "required_uuid v n = Inl e \<Longrightarrow> bad_value e"
  by (auto simp: required_uuid_def bad_value_def rbind_Inl_iff required_identifier_def split: pyval.splits if_splits option.splits)

lemma wizard_document_outcome:
  assumes "wizard_document rt user collection wizard w = (r, t)"
  shows "same_maps w t" "case r of Inl e \<Rightarrow> he_status (resource_error e) \<in> {404, 422}
     | Inr (text, ids) \<Rightarrow> \<exists>s k ps. rt_scope rt (PStr user) (PStr collection) = Inr s
         \<and> required_uuid (PStr wizard) ''document_id'' = Inr k \<and> docs_of w s k = Some ps
         \<and> text = concat (map snd ps) \<and> ids = map fst ps"
proof -
  obtain q v where q: "rt_document_map rt (PStr user) (PStr collection) w = (q, v)"
    by fastforce
  note o = rt_document_map_outcome [OF q]
  have "same_maps w t \<and> (case r of Inl e \<Rightarrow> he_status (resource_error e) \<in> {404, 422}
     | Inr (text, ids) \<Rightarrow> \<exists>s k ps. rt_scope rt (PStr user) (PStr collection) = Inr s
         \<and> required_uuid (PStr wizard) ''document_id'' = Inr k \<and> docs_of w s k = Some ps
         \<and> text = concat (map snd ps) \<and> ids = map fst ps)"
  proof (cases q)
    case (Inl e)
    then have "r = Inl e" "t = v" "bad_value e"
      using assms q o(7) rt_scope_bad by (auto simp: wizard_document_def obind_def)
    then show ?thesis
      using o(1) bad_value_status(2) by simp
  next
    case (Inr s)
    then obtain D where D: "map_of (ww_documents v) s = Some D"
      using o(5) by blast
    have run: "t = v" "r = rbind (dm_get_full_text D (PStr wizard)) (\<lambda>text. rbind (dm_get_paragraphs D (PStr wizard)) (\<lambda>ids. Inr (text, ids)))"
      using assms q Inr by (auto simp: wizard_document_def obind_def on_documents_read [OF D] rbind_def split: sum.splits)
    have docs: "docs_of w s k = map_of (dm_documents D) k" for k
      using o(1) docs_of_eq [OF D] by (simp add: same_maps_def)
    show ?thesis
    proof (cases "required_uuid (PStr wizard) ''document_id''")
      case (Inl e)
      with run(2) required_uuid_bad bad_value_status(2) o(1) show ?thesis
        by (simp add: dm_get_full_text_def run(1))
    next
      case key: (Inr k)
      show ?thesis
      proof (cases "map_of (dm_documents D) k")
        case None
        with key run o(1) show ?thesis
          by (simp add: dm_get_full_text_def dict_get_def resource_error_def not_found_def)
      next
        case (Some ps)
        with key run o(1) o(6) [OF Inr] docs show ?thesis
          by (simp add: dm_get_full_text_def dm_get_paragraphs_def dict_get_def dict_keys_def dict_values_def)
      qed
    qed
  qed
  then show "same_maps w t" "case r of Inl e \<Rightarrow> he_status (resource_error e) \<in> {404, 422}
     | Inr (text, ids) \<Rightarrow> \<exists>s k ps. rt_scope rt (PStr user) (PStr collection) = Inr s
         \<and> required_uuid (PStr wizard) ''document_id'' = Inr k \<and> docs_of w s k = Some ps
         \<and> text = concat (map snd ps) \<and> ids = map fst ps"
    by blast+
qed

section \<open>The properties\<close>

lemma upload_draft_outcome:
  assumes "0 < us_read_bytes us" "ps \<noteq> []" "ps = numbered (map snd ps)"
  shows "case upload_draft us files current marked saved_text (map fst ps) of
       Inl e \<Rightarrow> he_status e \<in> {413, 415, 422}
     | Inr (text, modified) \<Rightarrow>
         (\<forall>f \<in> set files. \<not> unsupported_file us f) \<and> within_limits us 0 files
         \<and> (\<exists>texts. list_all2 (\<lambda>f t. us_decode us (uf_bytes f) = Some t) files texts \<and> join (us_separator us) texts \<noteq> []
              \<and> text = draft_merge us current saved_text (join (us_separator us) texts))
         \<and> modified = sorted_list_of_set (set modified) \<and> last (map fst ps) \<in> set modified
         \<and> (\<forall>i \<in> set modified. 0 < i \<and> i \<in> fst ` set ps)"
proof (cases "list_ex (unsupported_file us) files")
  case True
  then show ?thesis
    by (simp add: upload_draft_def)
next
  case False
  note ids = uploaded_paragraph_ids_outcome [where json = "us_json us" and marked = marked and known = "map fst ps"]
  note copied = uploaded_text_outcome [OF assms(1) False]
  show ?thesis
  proof (cases "uploaded_paragraph_ids (us_json us) marked (map fst ps)")
    case (Inl e)
    with ids have "bad_value e"
      by simp
    with bad_value_status(1) Inl False show ?thesis
      by (simp add: upload_draft_def)
  next
    case modified: (Inr modified)
    show ?thesis
    proof (cases "uploaded_text us files")
      case (Inl e)
      with copied modified False show ?thesis
        by (auto simp: upload_draft_def)
    next
      case (Inr up)
      have eq: "map fst ps = [1..int (length ps)]"
        using map_fst_numbered [of "map snd ps"] assms(3) by simp
      have "last (map fst ps) \<in> set (map fst ps)"
        using assms(2) by (intro last_in_set) simp
      moreover have "0 < i" if "i \<in> set (map fst ps)" for i
        using that unfolding eq by simp
      ultimately have all: "\<forall>i \<in> insert (last (map fst ps)) (set modified). 0 < i \<and> i \<in> fst ` set ps"
        using ids modified by auto
      define M where "M = sorted_list_of_set (insert (last (map fst ps)) (set modified))"
      have M: "set M = insert (last (map fst ps)) (set modified)"
        unfolding M_def by (rule set_sorted_list_of_set) simp
      then have M': "M = sorted_list_of_set (set M)"
        by (simp only: M_def)
      have eq: "upload_draft us files current marked saved_text (map fst ps) = Inr (draft_merge us current saved_text up, M)"
        using Inr modified False assms(2) by (simp add: upload_draft_def M_def)
      have "\<forall>f \<in> set files. \<not> unsupported_file us f"
        using False by (simp add: list_ex_iff)
      with copied Inr all M M' show ?thesis
        unfolding eq by auto
    qed
  qed
qed

lemma draft_aligns:
  assumes "ps \<noteq> []" "ps = numbered (map snd ps)" "length ps = 1 \<or> [] \<notin> snd ` set ps"
    and "set hinted \<subseteq> fst ` set ps" "concat (map snd ps) \<noteq> text"
  shows "\<exists>unions. align_unions (saved_paragraphs ps) text hinted = Inr unions
    \<and> concat (map (reconstructed_piece unions) (saved_paragraphs ps)) = text"
proof -
  have "alignable (map snd ps)"
    using assms(1,3) by (simp add: alignable_def)
  moreover have "set hinted \<subseteq> {1..int (length (map snd ps))}"
    using assms(4) map_fst_numbered [of "map snd ps", folded assms(2)] by (metis set_map set_upto length_map)
  ultimately show ?thesis
    using align_unions_eq aligned_unions_props(2) assms(5) assms(2) by metis
qed

lemma read_document_numbered:
  assumes "w = run_calls wizard_apply calls (wizard_initial st)" "wizard_document rt user collection wizard w = (Inr p, t)"
  obtains s k ps where "p = (concat (map snd ps), map fst ps)" "rt_scope rt (PStr user) (PStr collection) = Inr s"
    "required_uuid (PStr wizard) ''document_id'' = Inr k" "docs_of w s k = Some ps" "ps \<noteq> []" "ps = numbered (map snd ps)"
proof -
  obtain s k ps where p: "p = (concat (map snd ps), map fst ps)" "rt_scope rt (PStr user) (PStr collection) = Inr s"
      "required_uuid (PStr wizard) ''document_id'' = Inr k" "docs_of w s k = Some ps"
    using wizard_document_outcome(2) [OF assms(2)] by auto
  obtain D where "map_of (ww_documents w) s = Some D" "map_of (dm_documents D) k = Some ps"
    using p(4) by (auto simp: docs_of_def split: option.splits)
  then have "paragraphs_ok ps"
    using maps_invD(1) [OF wizard_reachable_parts(1) [OF assms(1)]] unfolding dm_inv_def by blast
  with that [OF p] show thesis
    unfolding paragraphs_ok_numbered by blast
qed

lemma upload_draft_accepted:
  assumes "0 < us_read_bytes us" "ps \<noteq> []" "ps = numbered (map snd ps)"
    and "upload_draft us files current marked (concat (map snd ps)) (map fst ps) = Inr (new, modified)"
  shows "\<exists>texts. (\<forall>f \<in> set files. \<not> unsupported_file us f) \<and> within_limits us 0 files
    \<and> list_all2 (\<lambda>f t. us_decode us (uf_bytes f) = Some t) files texts
    \<and> new = draft_merge us current (concat (map snd ps)) (join (us_separator us) texts)
    \<and> modified = sorted_list_of_set (set modified) \<and> last (map fst ps) \<in> set modified
    \<and> validated_modified_ids (PList (map PInt modified)) (map fst ps) = Inr modified
    \<and> (current = None \<longrightarrow> length ps = 1 \<or> [] \<notin> snd ` set ps \<longrightarrow>
          (\<exists>unions. align_unions (saved_paragraphs ps) new modified = Inr unions
             \<and> concat (map (reconstructed_piece unions) (saved_paragraphs ps)) = new))"
proof -
  obtain texts where d: "\<forall>f \<in> set files. \<not> unsupported_file us f" "within_limits us 0 files"
      "list_all2 (\<lambda>f t. us_decode us (uf_bytes f) = Some t) files texts" "join (us_separator us) texts \<noteq> []"
      "new = draft_merge us current (concat (map snd ps)) (join (us_separator us) texts)"
      "modified = sorted_list_of_set (set modified)" "last (map fst ps) \<in> set modified" "\<forall>i \<in> set modified. 0 < i \<and> i \<in> fst ` set ps"
    using upload_draft_outcome [OF assms(1-3), where files = files and current = current and marked = marked
        and saved_text = "concat (map snd ps)"] unfolding assms(4) by auto
  have v: "validated_modified_ids (PList (map PInt modified)) (map fst ps) = Inr modified"
    using d(8) modified_items_ok [of modified "map fst ps"] by (simp add: validated_modified_ids_def)
  have "concat (map snd ps) \<noteq> new" if "current = None"
    using d(4) that unfolding d(5) by (auto simp: draft_merge_def Let_def)
  then have "current = None \<longrightarrow> length ps = 1 \<or> [] \<notin> snd ` set ps \<longrightarrow>
      (\<exists>unions. align_unions (saved_paragraphs ps) new modified = Inr unions
         \<and> concat (map (reconstructed_piece unions) (saved_paragraphs ps)) = new)"
    using draft_aligns [OF assms(2,3), of modified new] d(8) by blast
  with d v show ?thesis
    by blast
qed


section \<open>A concrete upload\<close>

definition example_settings :: upload_settings where
  "example_settings = \<lparr>us_supported = [''.txt''], us_separator = [CHR 0x0A], us_file_bytes = 4, us_total_bytes = 8, us_read_bytes = 2,
     us_directory = ''/tmp'', us_json = (\<lambda>_. None), us_decode = Some\<rparr>"

definition example_file :: upload_file where
  "example_file = \<lparr>uf_name = Some ''a.txt'', uf_bytes = ''Yo!''\<rparr>"

lemma example_copied: "copy_uploads example_settings 0 0 [example_file] [] = (Inr [''/tmp/upload-0.txt''], [(''/tmp/upload-0.txt'', ''Yo!'')])"
  by code_simp

theorem uploads_within_limits_witness:
  "within_limits example_settings 0 [example_file] \<and> snd (copy_uploads example_settings 0 0 [example_file] []) = [(''/tmp/upload-0.txt'', ''Yo!'')]"
proof -
  have "0 < us_read_bytes example_settings"
    by (simp add: example_settings_def)
  from uploads_within_limits [OF this example_copied] show ?thesis
    by (simp add: example_copied del: copy_uploads.simps)
qed

lemma example_draft:
  "upload_draft example_settings [example_file] None (Some [''1'']) ''Hi'' [1] = Inr (''Hi'' @ CHR 0x0A # ''Yo!'', [1])"
  by code_simp


end
