(* ===== verification/Wizard_Requests.thy ===== *)
theory Wizard_Requests
  imports Wizard_Upload
begin

text \<open>The requests that read, create, save and delete a wizard, in any reachable state.\<close>

section \<open>The other requests\<close>

lemma wizard_document_opened:
  assumes "rt_scope rt (PStr user) (PStr collection) = Inr s" "map_of (ww_documents w) s = Some D"
  shows "wizard_document rt user collection wizard w =
    (rbind (dm_get_full_text D (PStr wizard)) (\<lambda>text. rbind (dm_get_paragraphs D (PStr wizard)) (\<lambda>ids. Inr (text, ids))), w)"
  using assms by (simp add: wizard_document_def obind_def rt_document_map_def on_documents_read [OF assms(2)] rbind_def split: sum.split)

lemma wizard_resource_opened:
  assumes "rt_scope rt (PStr user) (PStr collection) = Inr s" "docs_of w s wizard = Some ps" "is_canonical wizard"
  shows "wizard_resource rt user collection wizard w = (Inr \<lparr>wx_wizard = wizard, wx_user = user, wx_collection = collection,
    wx_text = concat (map snd ps), wx_ids = map fst ps\<rparr>, w)"
proof -
  obtain D where D: "map_of (ww_documents w) s = Some D" "map_of (dm_documents D) wizard = Some ps"
    using assms(2) by (auto simp: docs_of_def split: option.splits)
  then show ?thesis
    by (simp add: wizard_resource_def obind_def wizard_document_opened [OF assms(1) D(1)] dm_get_full_text_def dm_get_paragraphs_def
        required_uuid_of_canonical [OF assms(3)] dict_get_def dict_keys_def dict_values_def)
qed

lemma wizard_resource_outcome:
  assumes "wizard_resource rt user collection wizard w = (r, t)"
  shows "same_maps w t" "case r of Inl e \<Rightarrow> he_status (resource_error e) \<in> {404, 422}
     | Inr x \<Rightarrow> \<exists>s k ps. rt_scope rt (PStr user) (PStr collection) = Inr s
         \<and> required_uuid (PStr wizard) ''document_id'' = Inr k \<and> docs_of w s k = Some ps
         \<and> wx_text x = concat (map snd ps) \<and> wx_ids x = map fst ps"
proof -
  obtain q v where q: "wizard_document rt user collection wizard w = (q, v)"
    by fastforce
  have "t = v"
    using assms q by (auto simp: wizard_resource_def obind_def split: sum.splits)
  with wizard_document_outcome [OF q] assms q
  show "same_maps w t" "case r of Inl e \<Rightarrow> he_status (resource_error e) \<in> {404, 422}
     | Inr x \<Rightarrow> \<exists>s k ps. rt_scope rt (PStr user) (PStr collection) = Inr s
         \<and> required_uuid (PStr wizard) ''document_id'' = Inr k \<and> docs_of w s k = Some ps
         \<and> wx_text x = concat (map snd ps) \<and> wx_ids x = map fst ps"
    by (cases q; auto simp: wizard_resource_def obind_def)+
qed

lemma wizard_known_outcome:
  assumes "wizard_known rt user collection wizard w = (r, t)"
  shows "same_maps w t" "case r of Inl e \<Rightarrow> he_status (resource_error e) \<in> {404, 422}
     | Inr _ \<Rightarrow> \<exists>s k. rt_scope rt (PStr user) (PStr collection) = Inr s
         \<and> required_uuid (PStr wizard) ''document_id'' = Inr k \<and> docs_of w s k \<noteq> None"
proof -
  obtain q v where q: "rt_document_map rt (PStr user) (PStr collection) w = (q, v)"
    by fastforce
  note o = rt_document_map_outcome [OF q]
  have "same_maps w t \<and> (case r of Inl e \<Rightarrow> he_status (resource_error e) \<in> {404, 422}
     | Inr _ \<Rightarrow> \<exists>s k. rt_scope rt (PStr user) (PStr collection) = Inr s
         \<and> required_uuid (PStr wizard) ''document_id'' = Inr k \<and> docs_of w s k \<noteq> None)"
  proof (cases q)
    case (Inl e)
    then have "r = Inl e" "t = v" "bad_value e"
      using assms q o(7) rt_scope_bad by (auto simp: wizard_known_def obind_def)
    then show ?thesis
      using o(1) bad_value_status(2) by simp
  next
    case (Inr s)
    then obtain D where D: "map_of (ww_documents v) s = Some D"
      using o(5) by blast
    have run: "t = v" "r = rbind (dm_get_paragraph_data D (PStr wizard)) (\<lambda>_. Inr ())"
      using assms q Inr by (auto simp: wizard_known_def obind_def on_documents_read [OF D] rbind_def split: sum.splits)
    have docs: "docs_of w s k = map_of (dm_documents D) k" for k
      using o(1) docs_of_eq [OF D] by (simp add: same_maps_def)
    show ?thesis
    proof (cases "required_uuid (PStr wizard) ''document_id''")
      case (Inl e)
      with run(2) required_uuid_bad bad_value_status(2) o(1) show ?thesis
        by (simp add: dm_get_paragraph_data_def run(1))
    next
      case key: (Inr k)
      with run o(1) o(6) [OF Inr] docs show ?thesis
        by (cases "map_of (dm_documents D) k") (simp_all add: dm_get_paragraph_data_def dict_get_def resource_error_def not_found_def)
    qed
  qed
  then show "same_maps w t" "case r of Inl e \<Rightarrow> he_status (resource_error e) \<in> {404, 422}
     | Inr _ \<Rightarrow> \<exists>s k. rt_scope rt (PStr user) (PStr collection) = Inr s
         \<and> required_uuid (PStr wizard) ''document_id'' = Inr k \<and> docs_of w s k \<noteq> None"
    by blast+
qed

lemma omap_opened:
  assumes "rt_scope rt (PStr user) (PStr collection) = Inr s" "\<forall>d \<in> set ds. is_canonical d \<and> docs_of w s d \<noteq> None"
  shows "\<exists>xs. omap (wizard_resource rt user collection) ds w = (Inr xs, w) \<and> map wx_wizard xs = ds
    \<and> (\<forall>x \<in> set xs. \<exists>ps. docs_of w s (wx_wizard x) = Some ps \<and> wx_text x = concat (map snd ps) \<and> wx_ids x = map fst ps)"
  using assms(2)
proof (induction ds)
  case Nil
  then show ?case
    by (simp add: omap_def)
next
  case (Cons d ds)
  then obtain xs where xs: "omap (wizard_resource rt user collection) ds w = (Inr xs, w)" "map wx_wizard xs = ds"
      "\<forall>x \<in> set xs. \<exists>ps. docs_of w s (wx_wizard x) = Some ps \<and> wx_text x = concat (map snd ps) \<and> wx_ids x = map fst ps"
    by auto
  obtain ps where ps: "docs_of w s d = Some ps" "is_canonical d"
    using Cons.prems by auto
  have "omap (wizard_resource rt user collection) (d # ds) w = (Inr (\<lparr>wx_wizard = d, wx_user = user, wx_collection = collection,
    wx_text = concat (map snd ps), wx_ids = map fst ps\<rparr> # xs), w)"
    using xs(1) wizard_resource_opened [OF assms(1) ps] by (simp add: omap_def obind_def)
  with xs(2,3) ps(1) show ?case
    by auto
qed

lemma wizard_create_outcome:
  assumes inv: "maps_inv w" "agree w" and run: "wizard_create rt user collection w = (r, t)"
  shows "case r of Inl e \<Rightarrow> same_maps w t \<and> he_status e \<in> {409, 422, 500}
    | Inr x \<Rightarrow> \<exists>s. rt_scope rt (PStr user) (PStr collection) = Inr s \<and> created s (wx_wizard x) w t \<and> wx_text x = [] \<and> wx_ids x = [1]"
proof -
  have st: "he_status (creation_error e) \<in> {409, 422, 500}" for e
    by (cases e) (simp_all add: creation_error_def validation_error_def internal_error_def)
  show ?thesis
  proof (cases "validated_user_id (rt_pattern rt) (PStr user)")
    case (Inl e)
    have "he_status (list_error e) \<in> {409, 422, 500}"
      by (cases e) (simp_all add: list_error_def validation_error_def internal_error_def)
    with Inl run show ?thesis
      by (auto simp: wizard_create_def same_maps_def)
  next
    case user: (Inr y)
    obtain q v where q: "create_wizard rt (PStr user) (PStr collection) w = (q, v)"
      by fastforce
    note c = ensuresD [OF create_wizard_spec [OF inv] q]
    show ?thesis
    proof (cases q)
      case (Inl e)
      then have "r = Inl (creation_error e)" "t = v"
        using run user q by (simp_all add: wizard_create_def answering_def obind_def)
      with c Inl st show ?thesis
        by simp
    next
      case (Inr d)
      then obtain s where s: "rt_scope rt (PStr user) (PStr collection) = Inr s" "created s d w v"
        using c by blast
      have "docs_of v s d = Some [(1, [])]" "is_canonical d"
        using s(2) by (simp_all add: created_def)
      from wizard_resource_opened [OF s(1) this] have "t = v" "r = Inr \<lparr>wx_wizard = d, wx_user = user, wx_collection = collection, wx_text = [], wx_ids = [1]\<rparr>"
        using run user q Inr by (simp_all add: wizard_create_def answering_def obind_def)
      with s show ?thesis
        by simp
    qed
  qed
qed

lemma wizard_list_outcome:
  assumes inv: "maps_inv w" and run: "wizard_list rt user collection w = (r, t)"
  shows "same_maps w t \<and> (case r of Inl e \<Rightarrow> he_status e = 422
    | Inr xs \<Rightarrow> \<exists>s. rt_scope rt (PStr user) (PStr collection) = Inr s \<and> distinct (map wx_wizard xs) \<and> wx_wizard ` set xs = dom (docs_of w s)
        \<and> (\<forall>x \<in> set xs. \<exists>ps. docs_of w s (wx_wizard x) = Some ps \<and> wx_text x = concat (map snd ps) \<and> wx_ids x = map fst ps))"
proof -
  obtain q v where q: "rt_document_map rt (PStr user) (PStr collection) w = (q, v)"
    by fastforce
  note o = rt_document_map_outcome [OF q]
  show ?thesis
  proof (cases q)
    case (Inl e)
    then have "r = Inl (list_error e)" "t = v" "bad_value e"
      using run q o(7) rt_scope_bad by (auto simp: wizard_list_def answering_def obind_def)
    then show ?thesis
      using o(1) bad_value_status(1) by simp
  next
    case (Inr s)
    then obtain D where D: "map_of (ww_documents v) s = Some D"
      using o(5) by blast
    have docs: "docs_of w s = map_of (dm_documents D)"
      using o(1) docs_of_eq [OF D] by (simp add: same_maps_def)
    have D': "distinct (dm_list_documents D)" "\<And>k ps. map_of (dm_documents D) k = Some ps \<Longrightarrow> is_canonical k"
      using maps_invD(1) [OF o(2) [OF inv] D] unfolding dm_inv_def by blast+
    have dom: "set (dm_list_documents D) = dom (docs_of w s)"
      by (simp add: docs dm_list_documents_def dict_keys_def dom_map_of_conv_image_fst)
    have "\<forall>d \<in> set (dm_list_documents D). is_canonical d \<and> docs_of v s d \<noteq> None"
      using D'(2) dom docs o(1) unfolding same_maps_def by (metis domD option.distinct(1))
    from omap_opened [OF o(6) [OF Inr] this] obtain xs where xs: "omap (wizard_resource rt user collection) (dm_list_documents D) v = (Inr xs, v)"
        "map wx_wizard xs = dm_list_documents D"
        "\<forall>x \<in> set xs. \<exists>ps. docs_of v s (wx_wizard x) = Some ps \<and> wx_text x = concat (map snd ps) \<and> wx_ids x = map fst ps"
      by blast
    then have "r = Inr xs" "t = v"
      using run q Inr by (simp_all add: wizard_list_def answering_def obind_def on_documents_read [OF D])
    moreover have "wx_wizard ` set xs = dom (docs_of w s)" "distinct (map wx_wizard xs)"
      using dom D'(1) by (simp_all add: xs(2) [symmetric])
    ultimately show ?thesis
      using o(1) o(6) [OF Inr] xs(3) unfolding same_maps_def by auto
  qed
qed

text \<open>
  C40 (functional). What the requests on a wizard do, in any reachable state. A read shows exactly the documents of the user and the
  collection, with their own texts and paragraphs; a creation adds one empty document and shows it, or changes nothing; a
  save and a deletion change nothing themselves: they put on the queue a call on the document of the request, which
  exists, under the user of the request. The errors are the public ones.
\<close>

theorem wizard_requests_outcome:
  assumes "w = run_calls wizard_apply calls (wizard_initial st)"
  shows "(case wizard_get rt user collection wizard w of (r, t) \<Rightarrow> same_maps w t \<and> (case r of
        Inl e \<Rightarrow> he_status e \<in> {404, 422}
      | Inr x \<Rightarrow> \<exists>s k ps. rt_scope rt (PStr user) (PStr collection) = Inr s \<and> required_uuid (PStr wizard) ''document_id'' = Inr k
          \<and> docs_of w s k = Some ps \<and> wx_text x = concat (map snd ps) \<and> wx_ids x = map fst ps))
    \<and> (case wizard_list rt user collection w of (r, t) \<Rightarrow> same_maps w t \<and> (case r of
        Inl e \<Rightarrow> he_status e = 422
      | Inr xs \<Rightarrow> \<exists>s. rt_scope rt (PStr user) (PStr collection) = Inr s \<and> distinct (map wx_wizard xs) \<and> wx_wizard ` set xs = dom (docs_of w s)
          \<and> (\<forall>x \<in> set xs. \<exists>ps. docs_of w s (wx_wizard x) = Some ps \<and> wx_text x = concat (map snd ps) \<and> wx_ids x = map fst ps)))
    \<and> (case wizard_create rt user collection w of (r, t) \<Rightarrow> (case r of
        Inl e \<Rightarrow> same_maps w t \<and> he_status e \<in> {409, 422, 500}
      | Inr x \<Rightarrow> \<exists>s. rt_scope rt (PStr user) (PStr collection) = Inr s \<and> created s (wx_wizard x) w t \<and> wx_text x = [] \<and> wx_ids x = [1]))
    \<and> (case wizard_save rt available ensured user collection wizard current marked w of (r, t) \<Rightarrow> same_maps w t \<and> (case r of
        Inl e \<Rightarrow> he_status e \<in> {404, 422, 503}
      | Inr call \<Rightarrow> available \<and> ensured
          \<and> call = SaveWizard rt (PStr user) wizard (PStr collection) (PStr current) (case marked of None \<Rightarrow> PNone | Some ids \<Rightarrow> PList (map PInt ids))
          \<and> (\<exists>s k. rt_scope rt (PStr user) (PStr collection) = Inr s \<and> required_uuid (PStr wizard) ''document_id'' = Inr k \<and> docs_of w s k \<noteq> None)))
    \<and> (case wizard_delete rt ensured user collection wizard w of (r, t) \<Rightarrow> same_maps w t \<and> (case r of
        Inl e \<Rightarrow> he_status e \<in> {404, 422, 503}
      | Inr call \<Rightarrow> ensured \<and> call = DeleteWizard rt (PStr user) wizard (PStr collection)
          \<and> (\<exists>s k. rt_scope rt (PStr user) (PStr collection) = Inr s \<and> required_uuid (PStr wizard) ''document_id'' = Inr k \<and> docs_of w s k \<noteq> None)))"
proof -
  note inv = wizard_reachable_parts [OF assms]
  obtain r1 t1 where get: "wizard_resource rt user collection wizard w = (r1, t1)"
    by fastforce
  obtain r2 t2 where lst: "wizard_list rt user collection w = (r2, t2)"
    by fastforce
  obtain r3 t3 where create: "wizard_create rt user collection w = (r3, t3)"
    by fastforce
  obtain r4 t4 where known: "wizard_known rt user collection wizard w = (r4, t4)"
    by fastforce
  note k = wizard_known_outcome [OF known]
  have s: "same_maps w w" "he_status service_unavailable = 503"
    by (simp_all add: same_maps_def service_unavailable_def)
  show ?thesis
  proof (intro conjI)
    show "case wizard_get rt user collection wizard w of (r, t) \<Rightarrow> same_maps w t \<and> (case r of
        Inl e \<Rightarrow> he_status e \<in> {404, 422}
      | Inr x \<Rightarrow> \<exists>s k ps. rt_scope rt (PStr user) (PStr collection) = Inr s \<and> required_uuid (PStr wizard) ''document_id'' = Inr k
          \<and> docs_of w s k = Some ps \<and> wx_text x = concat (map snd ps) \<and> wx_ids x = map fst ps)"
      using wizard_resource_outcome [OF get] by (cases r1) (simp_all add: wizard_get_def answering_def get)
  qed (use wizard_list_outcome [OF inv(1) lst] wizard_create_outcome [OF inv create] k s in
      \<open>cases r4; auto simp: lst create known wizard_save_def wizard_delete_def answering_def\<close>)+
qed

theorem wizard_requests_outcome_witness:
  "\<exists>xs t. wizard_list example_runtime ''ab'' ''policy'' (example_world [(1, ''Hi'')] [uuid_render 6] 7) = (Inr xs, t)
     \<and> map wx_text xs = [''Hi''] \<and> wx_wizard ` set xs = dom (docs_of (example_world [(1, ''Hi'')] [uuid_render 6] 7) (''ab'', ''policy''))"
proof -
  let ?w = "example_world [(1, ''Hi'')] [uuid_render 6] 7"
  have u: "required_uuid (PStr (uuid_render 5)) n = Inr (uuid_render 5)" for n
    by (rule required_uuid_of_canonical) (simp add: uuid_render_canonical)
  have "\<exists>xs t. wizard_list example_runtime ''ab'' ''policy'' ?w = (Inr xs, t) \<and> map wx_text xs = [''Hi'']"
    by (simp add: wizard_list_def answering_def omap_def wizard_resource_def wizard_document_def obind_def rt_document_map_def example_scope
        on_documents_def oread_def example_world_def dm_list_documents_def dm_get_full_text_def dm_get_paragraphs_def u dict_get_def
        dict_keys_def dict_values_def)
  then obtain xs t where run: "wizard_list example_runtime ''ab'' ''policy'' ?w = (Inr xs, t)" "map wx_text xs = [''Hi'']"
    by (elim exE conjE) (rule that)
  from wizard_requests_outcome [OF example_runs(3) [symmetric], of example_runtime "''ab''" "''policy''"] run show ?thesis
    by (auto simp: example_scope)
qed

end
