(* ===== verification/Spec2Isabelle.thy ===== *)
theory Spec2Isabelle
  imports Session_Map Document_Map Paragraph_Map Task_Queue Session_Title Chat_Registry Model_Config
    Text_Segments Chunker File_Reader Wizard Search_Results Ranking Retrieval Vector_Store
    Chunk_Store Conversation_Store Answer_Prompt Rag_Pipeline
    Chat_Demo Wizard_Requests
begin

text \<open>
  A model of the multi-tenant RAG application of this repository, and the theorems that make it correct. The program
  answers questions of many users from their own knowledge and policy documents. A user edits documents with the
  wizard, which splits them into paragraphs and chunks and keeps two in-memory maps and a Weaviate collection in step. A
  question goes through the RAG pipeline: late-interaction embedding, hybrid search, reranking, an adaptive cut,
  diversity, a rewritten query, a grounded prompt, a streamed answer. The finished conversation is stored by background
  work on a per-user queue.

  \<^bold>\<open>Foundations.\<close> \<open>Py_Prelude\<close> has the dynamic values of Python, the exceptions, results (\<open>exc + 'a\<close>) and operations on a
  state that survives an exception. \<open>Py_Text\<close>, \<open>Py_Uuid\<close>, \<open>Py_Sha1\<close>, \<open>Py_Float\<close> and \<open>Py_Dict\<close> model what the source uses of
  the standard library: string methods, \<open>UUID\<close>, \<open>uuid5\<close>, \<open>float\<close> and dictionaries. \<open>Py_Dict\<close> holds the contracts of
  dictionaries and of owner indexes as locales, interpreted on the program's own maps.

  \<^bold>\<open>Configuration.\<close> \<open>App_Config\<close> (\<open>backend/config.py\<close> and the decoder of \<open>scripts/migrate_onnx_vectors.py\<close>): the readers of the
  environment and the physical collection names; two users never share one. \<open>Model_Config\<close> (\<open>backend/model_config.py\<close>): every
  bound a loaded configuration satisfies.

  \<^bold>\<open>Maps.\<close> \<open>Map_Common\<close>, \<open>Session_Map\<close>, \<open>Document_Map\<close> and \<open>Paragraph_Map\<close> (\<open>backend/mappings\<close>): every method of the three
  classes, with their invariants (the owner index is the inverse of the map, paragraphs are numbered 1 to N),
  atomicity and round trips.

  \<^bold>\<open>Process state.\<close> \<open>Task_Queue\<close> (\<open>backend/task_queue.py\<close>): the atomic steps of the queue and its workers as a step relation;
  order, isolation, draining, and how a cancellation blocks \<open>close\<close>. \<open>Chat_Registry\<close> (\<open>backend/services.py\<close>): the sessions,
  active streams and two-phase deletion. \<open>Session_Title\<close> (\<open>backend/rag/session_title.py\<close>).

  \<^bold>\<open>Text.\<close> \<open>File_Reader\<close>, \<open>Text_Segments\<close> and \<open>Chunker\<close> (\<open>backend/processing\<close>): the splitter is lossless and cuts exactly at
  topic changes; the chunks of a paragraph spell it, each within the token limit, and the two errors the code calls
  internal cannot happen. \<open>Sequence_Matcher\<close> is the part of \<open>difflib\<close> the wizard calls.

  \<^bold>\<open>Wizard.\<close> \<open>Wizard_Align\<close> (steps 1 and 2 of \<open>backend/wizard/save.py\<close>): the unions of an edit rebuild the new text.
  \<open>Wizard_Runtime\<close> (\<open>wizard/runtime.py\<close>): the world of the wizard. \<open>Wizard_Crud\<close> (\<open>wizard/crud.py\<close>) and \<open>Wizard_Save\<close>
  (\<open>wizard/save.py\<close>): creation, deletion and the eight steps of a save, each with its compensation. \<open>Wizard\<close>: any sequence of
  calls; the maps agree after it, and a call that raises has changed neither.

  \<^bold>\<open>Wizard requests.\<close> \<open>Wizard_Api\<close> (\<open>backend/api/_wizard.py\<close>, with the errors of \<open>Api_Errors\<close>): reads, creation, the checks
  before a save or a deletion is queued, and uploads. \<open>Wizard_Upload\<close>: the copies of a request are exact and never exceed
  the limits, an upload never ends in an internal error, and its draft is one that a save aligns. \<open>Wizard_Requests\<close>: what the
  other requests show and change. The requests are functions on the state between two calls of the wizard.

  \<^bold>\<open>Retrieval.\<close> \<open>Search_Results\<close>, \<open>Ranking\<close> and \<open>Retrieval\<close> (\<open>backend/rag/retrieval.py\<close>): the quarantine of malformed rows,
  ranking, collapse of conversation segments, the adaptive cut, maximal marginal relevance, hydration, the token budget,
  and \<open>retrieve\<close> as a whole. Its results are sound whatever the services answer, and no stored row makes it raise.

  \<^bold>\<open>Stores.\<close> \<open>Vector_Store\<close> (\<open>weaviate_client/_base.py\<close>): the wrapper of a user's physical collection; a search shows only
  rows of that user. \<open>Chunk_Store\<close> (\<open>_chunk_collection.py\<close>): verified deletion, snapshots and restoration refine a map of
  chunks, so a restored deletion is undone. \<open>Conversation_Store\<close> (\<open>conversation.py\<close>): a conversation is written whole or
  removed again.

  \<^bold>\<open>Pipeline.\<close> \<open>Embedder\<close> (\<open>rag/embedder.py\<close>), \<open>Query_Rewrite\<close> (\<open>rag/query_rewriter.py\<close>), \<open>Answer_Prompt\<close> and \<open>Rag_Pipeline\<close>
  (\<open>rag/generator.py\<close>, \<open>rag/pipeline.py\<close>): a run is a state machine whose steps are the code between two suspension points.
  \<open>rag_prompt_grounded\<close> composes the search, the budgets and the prompt: what the model is asked shows only rows of the
  user. \<open>rag_stores_complete_answers\<close> and \<open>answered_conversation_is_remembered\<close> follow an answer from the stream to the rows
  of the conversation collection.

  \<^bold>\<open>Chat service.\<close> \<open>Chat_Service\<close> (\<open>backend/api/chat.py\<close>) composes the registry, the queue, the pipeline and the store:
  the endpoints, the answer streams, the closures they put on the queue, and the step relation \<open>chat_step\<close> of all requests,
  streams and workers together, one step for the code between two suspension points. \<open>Chat_Effects\<close> and \<open>Task_Pending\<close> say
  what a call of the registry and a step of the queue change, \<open>Chat_Content\<close> what a work does to the stored rows,
  \<open>Chat_Invariant\<close> and \<open>Chat_Safety\<close> hold the invariant of the whole, \<open>Chat_Forgotten\<close> the properties: a session that was
  deleted leaves no row behind in any interleaving, a session lists exactly what was stored for it, a reservation always
  has someone to release it, and an answer that is never started blocks the deletion of its session for ever.
  \<open>Chat_Demo\<close> is a complete run. A call in a thread and the preparation of an answer are one step, and a
  thread whose awaiter was cancelled is taken to have ended.

  \<^bold>\<open>The outside.\<close> Models, tokenizers, the Weaviate server, the file system, the environment, generated UUIDs and clocks are
  parameters: arguments, or records of operations on a state \<open>'st\<close> that may raise and may change it at every call. Most
  theorems assume nothing about them. Where a store must tell the truth there is a named predicate with a model
  that satisfies it: \<open>honest\<close> (reads are exact, writes touch only what they name but may fail or stop half way) and
  \<open>inserts_store\<close> (an insertion that returns has stored its properties), both shown of \<open>memory_store\<close>.

  \<^bold>\<open>Bounds.\<close> No definition uses fuel: loops that are not structural are functions with a termination proof (\<open>fitting\<close>,
  \<open>shrink_to_total\<close>, the chunker, the matcher), and loops that wait for the outside are step relations. Characters are
  Latin-1 and floats are reals with infinities and NaN: rounding and overflow of floats are not modelled. Two threads
  of one \<open>gather\<close> run one after the other, in either order.

  \<^bold>\<open>Not modelled.\<close> The model providers (ONNX Runtime, SGLang, transformers), the
  server-sent events, request models, telemetry and acceptance observer of the API, the start-up of the process, the schema checks of \<open>weaviate_client/client.py\<close>, the deployment, diagnostic, evaluation and maintenance tools:
  they are input and output around libraries this repository does not hold. Trace counters, timings, samples, digests and
  log records are left out of the modelled functions.
\<close>

end
